(* ===== verification/Serving_Prelude.thy ===== *)
theory Serving_Prelude
  imports Complex_Main
begin

text \<open>
  Shared ground of the development: the sequencing of operations that may fail, the
  collections of facts that carry the component proofs, and the generic lemmas on lists,
  counters and point-wise updates that several components use.

  An operation that may raise is a function into a sum, \<^theory_text>\<open>Inl\<close> with the error and
  \<^theory_text>\<open>Inr\<close> with the result; \<open>andthen\<close> runs the next step only after a result, as a
  statement runs only when the one before it did not raise, and \<open>require\<close> is the guard
  \<^verbatim>\<open>if not condition: raise error\<close>.
\<close>

named_theorems adm_simps \<open>unfolding of the admission's small operations\<close>
named_theorems life_simps \<open>unfolding of the lifecycle's small operations\<close>
named_theorems life_intros \<open>preservation of the lifecycle's invariant\<close>

subsection \<open>Operations that may fail\<close>

fun andthen :: "'e + 'a \<Rightarrow> ('a \<Rightarrow> 'e + 'b) \<Rightarrow> 'e + 'b" where
  "andthen (Inl e) f = Inl e"
| "andthen (Inr x) f = f x"

definition require :: "bool \<Rightarrow> 'e \<Rightarrow> 'e + unit" where
  "require b e = (if b then Inr () else Inl e)"

lemma andthen_Inr_iff [simp]: "andthen r f = Inr y \<longleftrightarrow> (\<exists>x. r = Inr x \<and> f x = Inr y)"
  by (cases r) auto

lemma andthen_Inl_iff: "andthen r f = Inl e \<longleftrightarrow> r = Inl e \<or> (\<exists>x. r = Inr x \<and> f x = Inl e)"
  by (cases r) auto

lemma andthenE: "andthen r f = Inr y \<Longrightarrow> (\<And>x. r = Inr x \<Longrightarrow> f x = Inr y \<Longrightarrow> P) \<Longrightarrow> P"
  by auto

text \<open>A step whose errors are all of one kind, or one error.\<close>

definition fails_in :: "('e \<Rightarrow> bool) \<Rightarrow> 'e + 'a \<Rightarrow> bool" where
  "fails_in P r \<longleftrightarrow> (\<forall>e. r = Inl e \<longrightarrow> P e)"

lemma fails_in_intros [intro]:
  "fails_in P (Inr x)" "P e \<Longrightarrow> fails_in P (Inl e)" "P e \<Longrightarrow> fails_in P (require b e)"
  "fails_in P r \<Longrightarrow> (\<And>x. fails_in P (f x)) \<Longrightarrow> fails_in P (andthen r f)"
  by (auto simp: fails_in_def require_def andthen_Inl_iff)

lemma fails_inD: "fails_in P r \<Longrightarrow> r = Inl e \<Longrightarrow> P e"
  by (simp add: fails_in_def)

abbreviation only_fails :: "'e \<Rightarrow> 'e + 'a \<Rightarrow> bool" where
  "only_fails c \<equiv> fails_in (\<lambda>e. e = c)"

lemma require_Inr_iff [simp]: "require b e = Inr u \<longleftrightarrow> b"
  by (simp add: require_def)

lemma require_Inl_iff [simp]: "require b e = Inl e' \<longleftrightarrow> \<not> b \<and> e' = e"
  by (auto simp: require_def)

fun map_res :: "('a \<Rightarrow> 'e + 'b) \<Rightarrow> 'a list \<Rightarrow> 'e + 'b list" where
  "map_res f [] = Inr []"
| "map_res f (x # xs) = andthen (f x) (\<lambda>y. andthen (map_res f xs) (\<lambda>ys. Inr (y # ys)))"

lemma map_res_Inr_iff:
  "map_res f xs = Inr ys \<longleftrightarrow> list_all2 (\<lambda>x y. f x = Inr y) xs ys"
  by (induction xs arbitrary: ys) (auto simp: list_all2_Cons1)

lemma map_res_length: "map_res f xs = Inr ys \<Longrightarrow> length ys = length xs"
  by (auto simp: map_res_Inr_iff dest: list_all2_lengthD)

subsection \<open>Lists\<close>

lemma find_Some_split:
  "find P xs = Some x \<Longrightarrow> \<exists>us vs. xs = us @ x # vs \<and> P x \<and> (\<forall>u \<in> set us. \<not> P u)"
proof (induction xs)
  case Nil
  then show ?case by simp
next
  case (Cons y ys)
  show ?case
  proof (cases "P y")
    case True
    with Cons.prems have "y = x" and "P x" by simp_all
    then show ?thesis by (metis append_Nil empty_iff list.set(1))
  next
    case False
    with Cons.prems obtain us vs where "ys = us @ x # vs" and "P x" and "\<forall>u \<in> set us. \<not> P u"
      using Cons.IH by auto
    with False have "y # ys = (y # us) @ x # vs \<and> P x \<and> (\<forall>u \<in> set (y # us). \<not> P u)" by simp
    then show ?thesis by blast
  qed
qed

lemma find_None_all: "find P xs = None \<longleftrightarrow> (\<forall>x \<in> set xs. \<not> P x)"
  by (auto simp: find_None_iff)

lemma find_SomeD: "find P xs = Some x \<Longrightarrow> x \<in> set xs \<and> P x"
  by (auto simp: find_Some_iff)

lemma length_remove1_less: "x \<in> set xs \<Longrightarrow> length (remove1 x xs) < length xs"
  by (metis One_nat_def diff_less length_pos_if_in_set length_remove1 zero_less_one)

lemma list_insert_not_Nil [simp]: "List.insert x xs \<noteq> []"
  by (auto simp: List.insert_def)

subsection \<open>Cardinalities of selections\<close>

lemma card_Collect_insert:
  assumes "finite {x. P x}" and "\<not> P a"
  shows "int (card {x. x = a \<or> P x}) = int (card {x. P x}) + 1"
proof -
  have "{x. x = a \<or> P x} = insert a {x. P x}" by auto
  with assms show ?thesis by simp
qed

lemma card_Collect_remove:
  assumes "finite {x. P x}" and "P a"
  shows "int (card {x. x \<noteq> a \<and> P x}) = int (card {x. P x}) - 1"
proof -
  have "{x. P x} = insert a {x. x \<noteq> a \<and> P x}" using assms(2) by auto
  moreover have "finite {x. x \<noteq> a \<and> P x}" using assms(1) by (rule rev_finite_subset) auto
  ultimately have "card {x. P x} = Suc (card {x. x \<noteq> a \<and> P x})" by simp
  then show ?thesis by simp
qed

end
