(* ===== verification/Error_Codes.thy ===== *)
theory Error_Codes
  imports Serving_Prelude
begin

text \<open>
  The error codes of \<^verbatim>\<open>simple_serving/errors.py\<close>: every code a \<^verbatim>\<open>ServiceError\<close> may carry is
  a constructor, in the order of the table \<^verbatim>\<open>STATUS\<close>. \<^verbatim>\<open>ServiceError.__init__\<close> refuses any
  other string, which is \<open>service_error\<close>; the constructors below are what it lets through.
\<close>

datatype error_code =
    Invalid_request | Unsupported_field | Limit_exceeded | Context_limit | Min_p_unavailable
  | Thinking_budget_unavailable | Graph_refused | Graph_rejected | Unauthorized
  | Class_not_allowed | Scope_not_allowed | Vision_not_allowed | Forbidden | Not_found
  | Stale_boot | Stale_generation | Sleep_pending | Body_too_large | Queue_full
  | Internal_error | Picture_failed | Starting_code | Draining_code | Drained_code
  | Engine_unavailable | Socket_unavailable | Stop_unconfirmed | Timeout_code

type_synonym 'a result = "error_code + 'a"

fun code_name :: "error_code \<Rightarrow> string" where
  "code_name Invalid_request = ''invalid_request''"
| "code_name Unsupported_field = ''unsupported_field''"
| "code_name Limit_exceeded = ''limit_exceeded''"
| "code_name Context_limit = ''context_limit''"
| "code_name Min_p_unavailable = ''min_p_unavailable''"
| "code_name Thinking_budget_unavailable = ''thinking_budget_unavailable''"
| "code_name Graph_refused = ''graph_refused''"
| "code_name Graph_rejected = ''graph_rejected''"
| "code_name Unauthorized = ''unauthorized''"
| "code_name Class_not_allowed = ''class_not_allowed''"
| "code_name Scope_not_allowed = ''scope_not_allowed''"
| "code_name Vision_not_allowed = ''vision_not_allowed''"
| "code_name Forbidden = ''forbidden''"
| "code_name Not_found = ''not_found''"
| "code_name Stale_boot = ''stale_boot''"
| "code_name Stale_generation = ''stale_generation''"
| "code_name Sleep_pending = ''sleep_pending''"
| "code_name Body_too_large = ''body_too_large''"
| "code_name Queue_full = ''queue_full''"
| "code_name Internal_error = ''internal_error''"
| "code_name Picture_failed = ''picture_failed''"
| "code_name Starting_code = ''starting''"
| "code_name Draining_code = ''draining''"
| "code_name Drained_code = ''drained''"
| "code_name Engine_unavailable = ''engine_unavailable''"
| "code_name Socket_unavailable = ''socket_unavailable''"
| "code_name Stop_unconfirmed = ''stop_unconfirmed''"
| "code_name Timeout_code = ''timeout''"

text \<open>The table \<^verbatim>\<open>STATUS\<close>, in its own order.\<close>

definition all_codes :: "error_code list" where
  "all_codes =
    [Invalid_request, Unsupported_field, Limit_exceeded, Context_limit, Min_p_unavailable,
     Thinking_budget_unavailable, Graph_refused, Graph_rejected, Unauthorized,
     Class_not_allowed, Scope_not_allowed, Vision_not_allowed, Forbidden, Not_found,
     Stale_boot, Stale_generation, Sleep_pending, Body_too_large, Queue_full,
     Internal_error, Picture_failed, Starting_code, Draining_code, Drained_code,
     Engine_unavailable, Socket_unavailable, Stop_unconfirmed, Timeout_code]"

fun status_of :: "error_code \<Rightarrow> nat" where
  "status_of Invalid_request = 400"
| "status_of Unsupported_field = 400"
| "status_of Limit_exceeded = 400"
| "status_of Context_limit = 400"
| "status_of Min_p_unavailable = 400"
| "status_of Thinking_budget_unavailable = 400"
| "status_of Graph_refused = 400"
| "status_of Graph_rejected = 400"
| "status_of Unauthorized = 401"
| "status_of Class_not_allowed = 403"
| "status_of Scope_not_allowed = 403"
| "status_of Vision_not_allowed = 403"
| "status_of Forbidden = 403"
| "status_of Not_found = 404"
| "status_of Stale_boot = 409"
| "status_of Stale_generation = 409"
| "status_of Sleep_pending = 409"
| "status_of Body_too_large = 413"
| "status_of Queue_full = 429"
| "status_of Internal_error = 500"
| "status_of Picture_failed = 500"
| "status_of Starting_code = 503"
| "status_of Draining_code = 503"
| "status_of Drained_code = 503"
| "status_of Engine_unavailable = 503"
| "status_of Socket_unavailable = 503"
| "status_of Stop_unconfirmed = 503"
| "status_of Timeout_code = 504"

definition service_error :: "string \<Rightarrow> string + error_code" where
  "service_error name =
    (case find (\<lambda>c. code_name c = name) all_codes of
       None \<Rightarrow> Inl ''unknown error code''
     | Some c \<Rightarrow> Inr c)"

lemma all_codes_complete [simp]: "c \<in> set all_codes"
  by (cases c) (simp_all add: all_codes_def)

lemma distinct_code_names: "distinct (map code_name all_codes)"
  by (simp add: all_codes_def)

lemma code_name_inj [simp]: "code_name c = code_name d \<longleftrightarrow> c = d"
  using distinct_code_names all_codes_complete
  by (metis distinct_map inj_onD)

lemma service_error_name: "service_error (code_name c) = Inr c"
  by (cases c) (simp_all add: service_error_def all_codes_def)

lemma service_error_Inr_iff: "service_error name = Inr c \<longleftrightarrow> name = code_name c"
  by (auto simp: service_error_name)
    (auto simp: service_error_def split: option.splits dest: find_SomeD)

lemma status_of_error: "400 \<le> status_of c \<and> status_of c < 600"
  by (cases c) simp_all

end
