(* ===== verification/Gateway_Config.thy ===== *)
theory Gateway_Config
  imports Error_Codes
begin

text \<open>
  The gateway's configuration data, \<^verbatim>\<open>simple_serving/config.py\<close>: the classes in the order of
  contract section 2, and the frozen dataclasses \<^verbatim>\<open>Key\<close>, \<^verbatim>\<open>ClassLimits\<close>, \<^verbatim>\<open>Listener\<close> and
  \<^verbatim>\<open>Config\<close> as records. Class names are strings in the code; after loading every name is one of
  \<^verbatim>\<open>CLASSES\<close>, so the model has one constructor for each. A duration or a moment is a rational
  number: the finite floats are, and the code only adds and compares them.
\<close>

datatype cls = Reader | Agent | Internal | External

definition CLASSES :: "cls list" where
  "CLASSES = [Reader, Agent, Internal, External]"

definition SHARED :: "cls list" where
  "SHARED = [Agent, Internal, External]"

fun cls_name :: "cls \<Rightarrow> string" where
  "cls_name Reader = ''reader''"
| "cls_name Agent = ''agent''"
| "cls_name Internal = ''internal''"
| "cls_name External = ''external''"

definition cls_of_name :: "string \<Rightarrow> cls option" where
  "cls_of_name s = find (\<lambda>c. cls_name c = s) CLASSES"

type_synonym seconds = rat

text \<open>Bytes are a \<open>string\<close>, whose characters are the 256 byte values.\<close>

record key =
  k_digest :: string
  k_label :: string
  k_classes :: "cls set"
  k_default :: "cls option"
  k_scopes :: bool
  k_control :: bool
  k_metrics :: bool
  k_vision :: bool

definition outside :: "key \<Rightarrow> bool" where
  "outside k \<longleftrightarrow> External \<in> k_classes k"

record class_limits =
  cl_active :: int
  cl_waiting :: int
  cl_input_tokens :: "int option"
  cl_max_tokens :: int
  cl_wall_s :: seconds

record listener =
  li_host :: string
  li_port :: int

record config =
  c_alias :: string
  c_engine_url :: string
  c_context_tokens :: "int option"
  c_body_limit_bytes :: int
  c_keys :: "key list"
  c_limits :: "cls \<Rightarrow> class_limits"
  c_per_key_active :: int
  c_per_key_waiting :: int
  c_shared_places :: int
  c_count_active :: int
  c_count_per_outside_key :: int
  c_engine_priority :: "cls \<Rightarrow> int"
  c_drain_deadline_s :: seconds
  c_idle_timeout_s :: seconds
  c_public :: listener
  c_control_listener :: listener
  c_max_connections :: int
  c_health_interval_s :: seconds
  c_versions :: "(string \<times> string) list"
  c_speculative :: bool
  c_thinking_budget :: bool
  c_vision :: bool
  c_warm_up :: bool
  c_min_p_while_drafting :: bool

text \<open>
  The dictionary \<^verbatim>\<open>PROVISIONAL\<close>, the values of contract section 7 that the dev launcher and the
  card use, and the default \<^verbatim>\<open>IDLE_TIMEOUT_S\<close>.
\<close>

fun PROVISIONAL_limits :: "cls \<Rightarrow> class_limits" where
  "PROVISIONAL_limits Reader = \<lparr>cl_active = 4, cl_waiting = 8, cl_input_tokens = None,
     cl_max_tokens = 8192, cl_wall_s = 300\<rparr>"
| "PROVISIONAL_limits Agent = \<lparr>cl_active = 1, cl_waiting = 2, cl_input_tokens = None,
     cl_max_tokens = 8192, cl_wall_s = 900\<rparr>"
| "PROVISIONAL_limits Internal = \<lparr>cl_active = 2, cl_waiting = 8, cl_input_tokens = None,
     cl_max_tokens = 8192, cl_wall_s = 900\<rparr>"
| "PROVISIONAL_limits External = \<lparr>cl_active = 2, cl_waiting = 4, cl_input_tokens = Some 8192,
     cl_max_tokens = 1024, cl_wall_s = 120\<rparr>"

definition PROVISIONAL :: "config \<Rightarrow> config" where
  "PROVISIONAL c = c\<lparr>c_body_limit_bytes := 4 * 2 ^ 20, c_limits := PROVISIONAL_limits,
     c_per_key_active := 1, c_per_key_waiting := 2, c_shared_places := 4,
     c_count_active := 8, c_count_per_outside_key := 2,
     c_engine_priority := (\<lambda>k. case k of Reader \<Rightarrow> 0 | Agent \<Rightarrow> 1 | Internal \<Rightarrow> 2 | External \<Rightarrow> 3),
     c_drain_deadline_s := 60\<rparr>"

text \<open>The limits that admission counts against are never negative in a loaded configuration.\<close>

definition limits_ok :: "config \<Rightarrow> bool" where
  "limits_ok c \<longleftrightarrow>
     (\<forall>k \<in> set CLASSES. 1 \<le> cl_active (c_limits c k) \<and> 0 \<le> cl_waiting (c_limits c k)) \<and>
     1 \<le> c_per_key_active c \<and> 0 \<le> c_per_key_waiting c \<and> 1 \<le> c_shared_places c \<and>
     1 \<le> c_count_active c \<and> 1 \<le> c_count_per_outside_key c"

lemma in_CLASSES [simp]: "c \<in> set CLASSES"
  by (cases c) (simp_all add: CLASSES_def)

lemma limits_ok_nonneg:
  assumes "limits_ok c"
  shows "0 \<le> cl_active (c_limits c k)" "0 \<le> cl_waiting (c_limits c k)"
    "0 \<le> c_per_key_active c" "0 \<le> c_per_key_waiting c" "0 \<le> c_shared_places c"
    "0 \<le> c_count_active c" "0 \<le> c_count_per_outside_key c"
  using assms in_CLASSES [of k] by (auto simp: limits_ok_def simp del: in_CLASSES)

lemma distinct_CLASSES [simp]: "distinct CLASSES"
  by (simp add: CLASSES_def)

lemma UNIV_cls: "(UNIV :: cls set) = {Reader, Agent, Internal, External}"
  by (auto intro: cls.exhaust)

lemma in_SHARED_iff: "c \<in> set SHARED \<longleftrightarrow> c \<noteq> Reader"
  by (cases c) (simp_all add: SHARED_def)

lemma cls_name_inj [simp]: "cls_name c = cls_name d \<longleftrightarrow> c = d"
  by (cases c; cases d) simp_all

lemma cls_of_name_cls_name [simp]: "cls_of_name (cls_name c) = Some c"
  by (cases c) (simp_all add: cls_of_name_def CLASSES_def)

lemma cls_of_name_Some_iff: "cls_of_name s = Some c \<longleftrightarrow> s = cls_name c"
  by auto (auto simp: cls_of_name_def dest: find_SomeD)

text \<open>
  The order of \<^verbatim>\<open>CLASSES\<close> as a linear order on the classes, so that \<open>Reader\<close> comes first.
\<close>

fun cls_rank :: "cls \<Rightarrow> nat" where
  "cls_rank Reader = 0"
| "cls_rank Agent = 1"
| "cls_rank Internal = 2"
| "cls_rank External = 3"

lemma cls_rank_inj: "cls_rank c = cls_rank d \<Longrightarrow> c = d"
  by (cases c; cases d) simp_all

instantiation cls :: linorder
begin

definition less_eq_cls :: "cls \<Rightarrow> cls \<Rightarrow> bool" where
  "less_eq_cls c d \<longleftrightarrow> cls_rank c \<le> cls_rank d"

definition less_cls :: "cls \<Rightarrow> cls \<Rightarrow> bool" where
  "less_cls c d \<longleftrightarrow> cls_rank c < cls_rank d"

instance
  by standard (auto simp: less_eq_cls_def less_cls_def dest: cls_rank_inj)

end

lemma sorted_CLASSES: "sorted CLASSES"
  by (simp add: CLASSES_def less_eq_cls_def)

subsection \<open>A sample configuration\<close>

text \<open>The witnesses run on the provisional values with three keys: ours, an outside one, control.\<close>

definition sample_key :: key where
  "sample_key = \<lparr>k_digest = ''d1'', k_label = ''bot'', k_classes = {Reader, Agent, Internal},
     k_default = Some Internal, k_scopes = True, k_control = False, k_metrics = False, k_vision = False\<rparr>"

definition sample_outside :: key where
  "sample_outside = \<lparr>k_digest = ''d2'', k_label = ''guest'', k_classes = {External},
     k_default = Some External, k_scopes = False, k_control = False, k_metrics = False, k_vision = False\<rparr>"

definition sample_control :: key where
  "sample_control = \<lparr>k_digest = ''d3'', k_label = ''control'', k_classes = {},
     k_default = None, k_scopes = False, k_control = True, k_metrics = False, k_vision = False\<rparr>"

definition sample_config :: config where
  "sample_config = PROVISIONAL \<lparr>c_alias = ''test-model'', c_engine_url = ''http://127.0.0.1:8000'',
     c_context_tokens = Some 4096, c_body_limit_bytes = 0,
     c_keys = [sample_key, sample_outside, sample_control],
     c_limits = PROVISIONAL_limits, c_per_key_active = 0, c_per_key_waiting = 0, c_shared_places = 0,
     c_count_active = 0, c_count_per_outside_key = 0, c_engine_priority = (\<lambda>_. 0),
     c_drain_deadline_s = 0, c_idle_timeout_s = 780,
     c_public = \<lparr>li_host = ''127.0.0.1'', li_port = 8080\<rparr>,
     c_control_listener = \<lparr>li_host = ''127.0.0.1'', li_port = 8081\<rparr>,
     c_max_connections = 64, c_health_interval_s = 5, c_versions = [],
     c_speculative = False, c_thinking_budget = False, c_vision = False, c_warm_up = False,
     c_min_p_while_drafting = False\<rparr>"

lemma sample_limits_ok: "limits_ok sample_config"
  by (simp add: limits_ok_def sample_config_def PROVISIONAL_def CLASSES_def)

lemmas sample_simps = sample_config_def PROVISIONAL_def sample_key_def sample_outside_def
  sample_control_def

end
