(* ===== verification/Policy.thy ===== *)
theory Policy
  imports Gateway_Config "HOL-Library.Char_ord"
begin

text \<open>
  Who may do what, \<^verbatim>\<open>simple_serving/policy.py\<close>: the key of a request, its class and its cache
  scope, and what its cache salt is made of (contract section 2). Header values are bytes, read
  as Latin-1 strings. SHA-256 and HMAC are the arguments \<open>sha256\<close> and \<open>hmac\<close>: nothing here
  depends on what they compute.
\<close>

subsection \<open>Keys\<close>

definition bytes_lower :: "string \<Rightarrow> string" where
  "bytes_lower = map (\<lambda>c. if CHR ''A'' \<le> c \<and> c \<le> CHR ''Z'' then char_of (of_char c + 32 :: nat) else c)"

text \<open>\<^verbatim>\<open>value.partition(sep)\<close>: what is before the first separator, and what is after it.\<close>

fun partition_at :: "char \<Rightarrow> string \<Rightarrow> string \<times> string" where
  "partition_at c [] = ([], [])"
| "partition_at c (x # xs) =
     (if x = c then ([], xs) else (case partition_at c xs of (a, b) \<Rightarrow> (x # a, b)))"

definition find_key :: "(string \<Rightarrow> string) \<Rightarrow> key list \<Rightarrow> string option \<Rightarrow> key option" where
  "find_key sha256 keys authorization =
    (let (scheme, presented) = partition_at (CHR '' '') (case authorization of None \<Rightarrow> [] | Some a \<Rightarrow> a)
     in if bytes_lower scheme \<noteq> ''bearer'' \<or> presented = [] then None
        else let digest = sha256 presented
          in foldl (\<lambda>found k. if digest = k_digest k then Some k else found) None keys)"

subsection \<open>Classes and scopes\<close>

record caller =
  ca_key :: key
  ca_cls :: cls
  ca_scope :: "string option"

definition NAMED_SCOPES :: "string list" where
  "NAMED_SCOPES = [''agent'', ''internal'']"

definition scope_char :: "char \<Rightarrow> bool" where
  "scope_char c \<longleftrightarrow> CHR ''A'' \<le> c \<and> c \<le> CHR ''Z'' \<or> CHR ''a'' \<le> c \<and> c \<le> CHR ''z'' \<or>
     CHR ''0'' \<le> c \<and> c \<le> CHR ''9'' \<or> c = CHR ''_'' \<or> c = CHR ''-''"

text \<open>\<^verbatim>\<open>READER_SCOPE.fullmatch\<close>: \<^verbatim>\<open>reader\.[A-Za-z0-9_-]{8,64}\<close>.\<close>

definition reader_scope :: "string \<Rightarrow> bool" where
  "reader_scope s \<longleftrightarrow> take 7 s = ''reader.'' \<and> 8 \<le> length (drop 7 s) \<and> length (drop 7 s) \<le> 64 \<and>
     list_all scope_char (drop 7 s)"

definition resolve :: "key \<Rightarrow> string option \<Rightarrow> string option \<Rightarrow> caller result" where
  "resolve k class_header scope_header =
    (case (case class_header of None \<Rightarrow> k_default k | Some s \<Rightarrow> cls_of_name s) of
       None \<Rightarrow> Inl Class_not_allowed
     | Some c \<Rightarrow>
         if c \<notin> k_classes k then Inl Class_not_allowed
         else if scope_header \<noteq> None \<and> \<not> k_scopes k then Inl Scope_not_allowed
         else if outside k then Inr \<lparr>ca_key = k, ca_cls = c, ca_scope = None\<rparr>
         else andthen
           (case scope_header of None \<Rightarrow> Inr (cls_name c)
            | Some s \<Rightarrow> if reader_scope s \<or> s \<in> set NAMED_SCOPES then Inr s else Inl Invalid_request)
           (\<lambda>s. if c = Reader \<and> take 7 s \<noteq> ''reader.'' then Inl Invalid_request
                else Inr \<lparr>ca_key = k, ca_cls = c, ca_scope = Some s\<rparr>))"

definition scope_kind :: "caller \<Rightarrow> string" where
  "scope_kind ca = (case ca_scope ca of None \<Rightarrow> ''external'' | Some s \<Rightarrow> fst (partition_at (CHR ''.'') s))"

definition salt_input :: "caller \<Rightarrow> string" where
  "salt_input ca =
    (case ca_scope ca of None \<Rightarrow> ''key:'' @ k_label (ca_key ca) | Some s \<Rightarrow> ''scope:'' @ s)"

definition outside_key :: "caller \<Rightarrow> key option" where
  "outside_key ca = (if outside (ca_key ca) then Some (ca_key ca) else None)"

subsection \<open>The cache salt\<close>

definition b64_alphabet :: string where
  "b64_alphabet = ''ABCDEFGHIJKLMNOPQRSTUVWXYZabcdefghijklmnopqrstuvwxyz0123456789-_''"

definition sextet :: "nat \<Rightarrow> char" where
  "sextet n = b64_alphabet ! (n mod 64)"

text \<open>\<^verbatim>\<open>urlsafe_b64encode(data).rstrip("=")\<close>, three bytes at a time.\<close>

fun b64_unpadded :: "nat list \<Rightarrow> string" where
  "b64_unpadded [] = []"
| "b64_unpadded [a] = [sextet (a div 4), sextet (a * 16)]"
| "b64_unpadded [a, b] = [sextet (a div 4), sextet (a * 16 + b div 16), sextet (b * 4)]"
| "b64_unpadded (a # b # c # rest) =
     sextet (a div 4) # sextet (a * 16 + b div 16) # sextet (b * 4 + c div 64) # sextet c #
     b64_unpadded rest"

definition cache_salt :: "(string \<Rightarrow> string \<Rightarrow> string) \<Rightarrow> string \<Rightarrow> caller \<Rightarrow> string" where
  "cache_salt hmac secret ca = b64_unpadded (map of_char (hmac secret (salt_input ca)))"

subsection \<open>Lemmas\<close>

lemma foldl_last_match:
  "foldl (\<lambda>found k. if P k then Some k else found) acc xs = Some k \<Longrightarrow>
   (k \<in> set xs \<and> P k) \<or> acc = Some k \<and> (\<forall>x \<in> set xs. \<not> P x)"
  by (induction xs arbitrary: acc) (auto split: if_splits)

lemma foldl_found:
  "\<exists>y. foldl (\<lambda>found k. if P k then Some k else found) (Some z) zs = Some y"
  by (induction zs arbitrary: z) auto

lemma foldl_no_match:
  "foldl (\<lambda>found k. if P k then Some k else found) acc xs = None \<Longrightarrow> \<forall>x \<in> set xs. \<not> P x"
proof (induction xs arbitrary: acc)
  case (Cons y ys)
  have "\<not> P y"
  proof
    assume "P y"
    with Cons.prems have "foldl (\<lambda>found k. if P k then Some k else found) (Some y) ys = None" by simp
    then show False using foldl_found [of P y ys] by simp
  qed
  with Cons show ?case by simp
qed simp

lemma foldl_unique_match:
  assumes "distinct (map f xs)"
  shows "foldl (\<lambda>found k. if d = f k then Some k else found) None xs = Some k \<longleftrightarrow>
    k \<in> set xs \<and> f k = d"
proof
  assume "foldl (\<lambda>found k. if d = f k then Some k else found) None xs = Some k"
  then show "k \<in> set xs \<and> f k = d"
    using foldl_last_match [of "\<lambda>k. d = f k" None xs k] by auto
next
  assume k: "k \<in> set xs \<and> f k = d"
  show "foldl (\<lambda>found k. if d = f k then Some k else found) None xs = Some k"
  proof (cases "foldl (\<lambda>found k. if d = f k then Some k else found) None xs")
    case None
    then show ?thesis using k foldl_no_match [of "\<lambda>k. d = f k"] by metis
  next
    case (Some k')
    then have "k' \<in> set xs \<and> f k' = d"
      using foldl_last_match [of "\<lambda>k. d = f k" None xs k'] by auto
    with k assms have "k' = k" by (metis distinct_map inj_onD)
    with Some show ?thesis by simp
  qed
qed

lemma length_b64: "length (b64_unpadded xs) = (length xs * 4 + 2) div 3"
  by (induction xs rule: b64_unpadded.induct) auto

lemma partition_at_prefix:
  "c \<notin> set p \<Longrightarrow> partition_at c (p @ c # s) = (p, s)"
  by (induction p) auto

lemma partition_at_split:
  assumes "partition_at c s = (p, r)"
  shows "c \<notin> set p \<and> (s = p @ c # r \<or> s = p \<and> r = [])"
  using assms by (induction s arbitrary: p r) (auto split: if_splits prod.splits)

lemma reader_scope_kind: "take 7 s = ''reader.'' \<Longrightarrow> fst (partition_at (CHR ''.'') s) = ''reader''"
proof -
  assume t: "take 7 s = ''reader.''"
  have "s = ''reader'' @ CHR ''.'' # drop 7 s"
    using append_take_drop_id [of 7 s] t by (metis append_Cons append_Nil)
  then show ?thesis using partition_at_prefix [of "CHR ''.''" "''reader''" "drop 7 s"] by simp
qed

lemma named_scope_kind: "s \<in> set NAMED_SCOPES \<Longrightarrow> fst (partition_at (CHR ''.'') s) = s"
  by (auto simp: NAMED_SCOPES_def)

lemma resolve_cls:
  assumes "resolve k ch sh = Inr ca"
  shows "ca_key ca = k" and "ca_cls ca \<in> k_classes k" and "ca_scope ca = None \<longleftrightarrow> outside k"
  using assms by (auto simp: resolve_def andthen_Inr_iff split: option.splits if_splits)

lemma resolve_scope:
  assumes "resolve k ch sh = Inr ca" and "ca_scope ca = Some s"
  shows "reader_scope s \<or> s \<in> set NAMED_SCOPES" and "ca_cls ca = Reader \<Longrightarrow> reader_scope s"
  using assms
  by (cases "ca_cls ca"; auto simp: resolve_def NAMED_SCOPES_def reader_scope_def outside_def
      split: option.splits if_splits)+

lemma sextet_eq [simp]: "sextet m = sextet n \<longleftrightarrow> m mod 64 = n mod 64"
proof -
  have "distinct b64_alphabet" and l: "length b64_alphabet = 64" by (simp_all add: b64_alphabet_def)
  then show ?thesis using nth_eq_iff_index_eq [of b64_alphabet "m mod 64" "n mod 64"]
    by (simp add: sextet_def)
qed

lemma split_at:
  assumes "(r::nat) * m = 64" and "a mod r * m + b < 64"
  shows "(a * m + b) mod 64 = a mod r * m + b"
proof -
  have "a * m + b = a mod r * m + b + 64 * (a div r)"
  proof -
    have "a * m = (a div r * r + a mod r) * m" by simp
    also have "\<dots> = a div r * (r * m) + a mod r * m" by (simp only: distrib_right mult.assoc)
    finally show ?thesis using assms(1) by simp
  qed
  then have "(a * m + b) mod 64 = (a mod r * m + b) mod 64" by (metis mod_mult_self2)
  with assms(2) show ?thesis by simp
qed

lemma same_div_mod: "(a::nat) div m = a' div m \<Longrightarrow> a mod m = a' mod m \<Longrightarrow> a = a'"
  by (metis div_mult_mod_eq)

lemma byte_from_sextets:
  assumes "(a::nat) < 256" "a' < 256" "a div 4 mod 64 = a' div 4 mod 64"
    "(a * 16 + b) mod 64 = (a' * 16 + b') mod 64" "b < 16" "b' < 16"
  shows "a = a' \<and> b = b'"
proof -
  have "a div 4 = a' div 4" using assms(1-3) by simp
  moreover have m: "a mod 4 * 16 + b = a' mod 4 * 16 + b'"
  proof -
    have "a mod 4 < 4" "a' mod 4 < 4" by simp_all
    then have "a mod 4 * 16 + b < 64" "a' mod 4 * 16 + b' < 64" using assms(5,6) by linarith+
    then show ?thesis using assms(4) split_at [of 4 16 a b] split_at [of 4 16 a' b'] by simp
  qed
  then have "(a mod 4 * 16 + b) div 16 = (a' mod 4 * 16 + b') div 16" by simp
  then have "a mod 4 = a' mod 4" using assms(5,6) by simp
  ultimately show ?thesis using same_div_mod [of a 4 a'] m by simp
qed

lemma byte_from_sextets2:
  assumes "(b::nat) div 16 = b' div 16"
    "(b * 4 + c) mod 64 = (b' * 4 + c') mod 64" "c < 4" "c' < 4"
  shows "b = b' \<and> c = c'"
proof -
  have "b mod 16 < 16" "b' mod 16 < 16" by simp_all
  then have "b mod 16 * 4 + c < 64" "b' mod 16 * 4 + c' < 64" using assms(3,4) by linarith+
  then have m: "b mod 16 * 4 + c = b' mod 16 * 4 + c'"
    using assms(2) split_at [of 16 4 b c] split_at [of 16 4 b' c'] by simp
  then have "(b mod 16 * 4 + c) div 4 = (b' mod 16 * 4 + c') div 4" by simp
  then have "b mod 16 = b' mod 16" using assms(3,4) by simp
  with assms(1) m show ?thesis using same_div_mod [of b 16 b'] by simp
qed

lemma b64_inj:
  assumes "length xs = length ys" "\<forall>x \<in> set xs. x < 256" "\<forall>y \<in> set ys. y < 256"
    and "b64_unpadded xs = b64_unpadded ys"
  shows "xs = ys"
  using assms
proof (induction xs arbitrary: ys rule: b64_unpadded.induct)
  case 1
  then show ?case by simp
next
  case (2 a)
  then obtain a' where "ys = [a']" by (cases ys) auto
  with 2 show ?case using byte_from_sextets [of a a' 0 0] by simp
next
  case (3 a b)
  then obtain a' b' where ys: "ys = [a', b']" by (cases ys; cases "tl ys") auto
  have "a = a' \<and> b div 16 = b' div 16"
    using 3 ys by (intro byte_from_sextets) (simp_all add: less_mult_imp_div_less)
  with 3 ys show ?case using byte_from_sextets2 [of b b' 0 0] by simp
next
  case (4 a b c rest)
  then obtain a' b' c' rest' where ys: "ys = a' # b' # c' # rest'"
    by (cases ys; cases "tl ys"; cases "tl (tl ys)") auto
  have ab: "a = a' \<and> b div 16 = b' div 16"
    using 4 ys by (intro byte_from_sextets) (simp_all add: less_mult_imp_div_less)
  then have bc: "b = b' \<and> c div 64 = c' div 64"
    using 4 ys by (intro byte_from_sextets2) (simp_all add: less_mult_imp_div_less)
  then have "c = c'" using 4 ys same_div_mod [of c 64 c'] by simp
  moreover have "rest = rest'" using 4 ys by simp
  ultimately show ?case using ab bc ys by simp
qed

lemma cache_salt_eq_iff:
  assumes "\<And>x. length (hmac secret x) = 32" 
    and "hmac secret (salt_input a) = hmac secret (salt_input b) \<Longrightarrow> salt_input a = salt_input b"
  shows "cache_salt hmac secret a = cache_salt hmac secret b \<longleftrightarrow> salt_input a = salt_input b"
proof
  assume "cache_salt hmac secret a = cache_salt hmac secret b"
  then have "map of_char (hmac secret (salt_input a)) = (map of_char (hmac secret (salt_input b)) :: nat list)"
    unfolding cache_salt_def by (rule b64_inj [rotated 3]) (simp_all add: assms(1))
  then have "hmac secret (salt_input a) = hmac secret (salt_input b)"
    by (simp add: inj_map_eq_map inj_of_char)
  then show "salt_input a = salt_input b" by (rule assms(2))
qed (simp add: cache_salt_def)

subsection \<open>Properties\<close>

text \<open>
  A request is given the key of a configured digest and no other: \<open>find_key\<close> finds \<open>k\<close>
  exactly when the header is a \<open>Bearer\<close> scheme in any case, a blank and a non-empty key whose
  SHA-256 is \<open>k\<close>'s digest, for every key list without two equal digests (which the loader
  checks).
\<close>

theorem find_key_iff:
  assumes "distinct (map k_digest ks)"
  shows "find_key sha256 ks auth = Some k \<longleftrightarrow>
    k \<in> set ks \<and>
    (\<exists>scheme presented. auth = Some (scheme @ CHR '' '' # presented) \<and> bytes_lower scheme = ''bearer'' \<and>
       CHR '' '' \<notin> set scheme \<and> presented \<noteq> [] \<and> sha256 presented = k_digest k)"
    (is "?L \<longleftrightarrow> ?R")
proof
  assume ?L
  then obtain a where a: "auth = Some a"
    by (cases auth) (auto simp: find_key_def bytes_lower_def)
  obtain scheme presented where p: "partition_at (CHR '' '') a = (scheme, presented)" by fastforce
  from partition_at_split [OF p] \<open>?L\<close> a p show ?R
    by (auto simp: find_key_def foldl_unique_match [OF assms] simp del: split_paired_Ex split: if_splits)
next
  assume ?R
  then obtain scheme presented where "k \<in> set ks" "auth = Some (scheme @ CHR '' '' # presented)"
    "bytes_lower scheme = ''bearer''" "CHR '' '' \<notin> set scheme" "presented \<noteq> []"
    "sha256 presented = k_digest k" by blast
  then show ?L by (simp add: find_key_def foldl_unique_match [OF assms] partition_at_prefix)
qed

theorem find_key_iff_witness:
  "find_key id [sample_key, sample_outside] (Some ''BeaRer d2'') = Some sample_outside"
  using find_key_iff [of "[sample_key, sample_outside]" id "Some ''BeaRer d2''" sample_outside]
  by (simp add: sample_key_def sample_outside_def bytes_lower_def less_eq_char_def char_of_eq_iff)

text \<open>
  What \<open>resolve\<close> lets through: the caller has the key of the request, a class that the key
  holds, no scope exactly for an outside key, a scope the header chose only when the key may
  choose one, and \<open>reader.\<close> with 8 to 64 opaque characters for every reader of ours. What a log
  may show of the scope is one of four words, never the opaque part.
\<close>

theorem resolve_sound:
  assumes "resolve k class_header scope_header = Inr ca"
  shows "ca_key ca = k \<and> ca_cls ca \<in> k_classes k \<and> (ca_scope ca = None \<longleftrightarrow> outside k) \<and>
    (scope_header \<noteq> None \<longrightarrow> k_scopes k) \<and>
    (\<forall>s. ca_scope ca = Some s \<longrightarrow>
       (reader_scope s \<or> s \<in> set NAMED_SCOPES) \<and>
       (ca_cls ca = Reader \<longrightarrow> reader_scope s) \<and>
       (case scope_header of None \<Rightarrow> s = cls_name (ca_cls ca) | Some h \<Rightarrow> s = h)) \<and>
    scope_kind ca \<in> {''reader'', ''agent'', ''internal'', ''external''}"
proof -
  have "scope_kind ca \<in> {''reader'', ''agent'', ''internal'', ''external''}"
  proof (cases "ca_scope ca")
    case (Some s)
    with resolve_scope(1) [OF assms Some] show ?thesis
      by (auto simp: scope_kind_def reader_scope_def reader_scope_kind named_scope_kind NAMED_SCOPES_def)
  qed (simp add: scope_kind_def)
  moreover have "scope_header \<noteq> None \<longrightarrow> k_scopes k"
    using assms by (auto simp: resolve_def split: option.splits if_splits)
  moreover have "case scope_header of None \<Rightarrow> s = cls_name (ca_cls ca) | Some h \<Rightarrow> s = h"
    if "ca_scope ca = Some s" for s
    using assms that by (auto simp: resolve_def split: option.splits if_splits)
  ultimately show ?thesis using resolve_cls [OF assms] resolve_scope [OF assms] by blast
qed

theorem resolve_sound_witness:
  "k_scopes sample_key \<and>
   ca_cls \<lparr>ca_key = sample_key, ca_cls = Reader, ca_scope = Some ''reader.abcdefgh''\<rparr> \<in> k_classes sample_key"
  using resolve_sound [of sample_key "Some ''reader''" "Some ''reader.abcdefgh''"
      "\<lparr>ca_key = sample_key, ca_cls = Reader, ca_scope = Some ''reader.abcdefgh''\<rparr>"]
  by (simp add: resolve_def sample_key_def outside_def cls_of_name_def CLASSES_def reader_scope_def
      scope_char_def less_eq_char_def)

text \<open>
  C8: Cache isolation. Two requests of one boot are given the same salt exactly when both are
  ours and name the same scope, or both have the same outside key: an outside key never shares
  a salt with one of our scopes or with another key, whatever the labels are. The HMAC is
  32 bytes long and does not collide on the two inputs, and labels to be unique (which the loader
  checks).
\<close>

theorem cache_salt_isolation:
  assumes "\<And>x. length (hmac secret x) = 32"
    and "hmac secret (salt_input a) = hmac secret (salt_input b) \<Longrightarrow> salt_input a = salt_input b"
    and "distinct (map k_label ks)" and "k1 \<in> set ks" and "k2 \<in> set ks"
    and "resolve k1 ch1 sh1 = Inr a" and "resolve k2 ch2 sh2 = Inr b"
  shows "length (cache_salt hmac secret a) = 43 \<and>
    (cache_salt hmac secret a = cache_salt hmac secret b \<longleftrightarrow>
      (if outside k1 then k2 = k1 else \<not> outside k2 \<and> ca_scope a = ca_scope b))"
proof -
  have "k_label k1 = k_label k2 \<longleftrightarrow> k1 = k2"
    using assms(3-5) by (metis distinct_map inj_onD)
  then have "salt_input a = salt_input b \<longleftrightarrow>
      (if outside k1 then k2 = k1 else \<not> outside k2 \<and> ca_scope a = ca_scope b)"
    using resolve_cls [OF assms(6)] resolve_cls [OF assms(7)]
    by (cases "ca_scope a"; cases "ca_scope b") (simp_all add: salt_input_def, blast+)
  with cache_salt_eq_iff [of hmac secret a b, OF assms(1,2)]
  have "cache_salt hmac secret a = cache_salt hmac secret b \<longleftrightarrow>
      (if outside k1 then k2 = k1 else \<not> outside k2 \<and> ca_scope a = ca_scope b)" by (rule trans)
  moreover have "length (cache_salt hmac secret a) = 43"
    by (simp add: cache_salt_def length_b64 assms(1))
  ultimately show ?thesis by blast
qed

definition sample_hmac :: "string \<Rightarrow> string \<Rightarrow> string" where
  "sample_hmac secret x = take 32 (x @ replicate 32 CHR ''.'')"

theorem cache_salt_isolation_witness:
  "cache_salt sample_hmac ''s'' \<lparr>ca_key = sample_key, ca_cls = Agent, ca_scope = Some ''agent''\<rparr> \<noteq>
   cache_salt sample_hmac ''s'' \<lparr>ca_key = sample_outside, ca_cls = External, ca_scope = None\<rparr>"
  using cache_salt_isolation [of sample_hmac "''s''"
      "\<lparr>ca_key = sample_key, ca_cls = Agent, ca_scope = Some ''agent''\<rparr>"
      "\<lparr>ca_key = sample_outside, ca_cls = External, ca_scope = None\<rparr>"
      "[sample_key, sample_outside]" sample_key sample_outside "Some ''agent''" None None None]
  by (simp add: sample_hmac_def salt_input_def resolve_def sample_key_def sample_outside_def
      outside_def cls_of_name_def CLASSES_def)

end
