(* ===== verification/Lifecycle.thy ===== *)
theory Lifecycle
  imports Policy
begin

text \<open>
  What both lanes share, the class \<^verbatim>\<open>Lifecycle\<close> of \<^verbatim>\<open>simple_serving/service.py\<close>: the boot, the
  status, the drain, the sleep, the idle interval, and the work that a drain must see end.

  The fields that a lane adds to a service are the extension of the record \<open>lifecycle\<close>. What the
  lane's configuration and its \<^verbatim>\<open>Work\<close> objects provide is the record \<open>lane\<close>: the stop of a work
  and what a drain reads of one. A work is its number, and the set \<^verbatim>\<open>self.work\<close> a list without
  repetition, in the order in which \<^verbatim>\<open>list(self.work)\<close> runs through it. A timer is the moment it is
  due. The moment \<open>now\<close> is the event loop's clock, an argument of each operation that reads it. Log
  rows are left out.
\<close>

subsection \<open>State\<close>

datatype engine_status = Eng_starting | Eng_ready | Eng_failed

datatype service_status = Starting | Ready | Failed | Draining | Drained

datatype stop_reason =
  By_disconnect | By_timeout | By_draining | By_engine_changed | By_shutdown | By_client_stop

text \<open>The task \<^verbatim>\<open>_sleep\<close>: none yet, waiting for the drain to end, or stopping the instance.\<close>

datatype sleep_task = No_sleep | Awaiting_drain seconds | Stopping_instance bool

record lifecycle =
  l_boot_id :: string
  l_drain_generation :: int
  l_draining :: bool
  l_sleep_requested :: bool
  l_engine_status :: engine_status
  l_engine_changed :: bool
  l_work :: "nat list"
  l_ours_inflight :: int
  l_idle_since :: seconds
  l_no_work :: bool
  l_deadline :: "seconds option"
  l_idle :: "seconds option"
  l_sleep :: sleep_task

record 's lane =
  ln_keys :: "key list"
  ln_drain_deadline_s :: seconds
  ln_idle_timeout_s :: seconds
  ln_health_interval_s :: seconds
  ln_stop :: "seconds \<Rightarrow> stop_reason \<Rightarrow> nat \<Rightarrow> 's \<Rightarrow> 's"
  ln_waiting :: "nat \<Rightarrow> 's \<Rightarrow> bool"
  ln_outside :: "nat \<Rightarrow> 's \<Rightarrow> bool"

definition STARTING_RETRY_S :: seconds where
  "STARTING_RETRY_S = 1"

definition FORCED_STOP_S :: seconds where
  "FORCED_STOP_S = 120"

definition lifecycle_init :: "string \<Rightarrow> lifecycle" where
  "lifecycle_init boot =
    \<lparr>l_boot_id = boot, l_drain_generation = 0, l_draining = False, l_sleep_requested = False,
     l_engine_status = Eng_starting, l_engine_changed = False, l_work = [], l_ours_inflight = 0,
     l_idle_since = 0, l_no_work = True, l_deadline = None, l_idle = None, l_sleep = No_sleep\<rparr>"

fun engine_as_status :: "engine_status \<Rightarrow> service_status" where
  "engine_as_status Eng_starting = Starting"
| "engine_as_status Eng_ready = Ready"
| "engine_as_status Eng_failed = Failed"

definition status :: "'a lifecycle_scheme \<Rightarrow> service_status" where
  "status s =
    (if l_draining s then (if l_work s \<noteq> [] then Draining else Drained)
     else engine_as_status (l_engine_status s))"

subsection \<open>The checks of a request, and accepted work\<close>

definition check_serving :: "'a lifecycle_scheme \<Rightarrow> unit result" where
  "check_serving s =
    (case status s of Ready \<Rightarrow> Inr () | Failed \<Rightarrow> Inl Engine_unavailable | Starting \<Rightarrow> Inl Starting_code
     | Draining \<Rightarrow> Inl Draining_code | Drained \<Rightarrow> Inl Drained_code)"

definition authenticate :: "(string \<Rightarrow> string) \<Rightarrow> key list \<Rightarrow> string option \<Rightarrow> key result" where
  "authenticate sha256 ks authorization =
    (case find_key sha256 ks authorization of None \<Rightarrow> Inl Unauthorized | Some k \<Rightarrow> Inr k)"

definition authorize ::
  "(string \<Rightarrow> string) \<Rightarrow> key list \<Rightarrow> string option \<Rightarrow> string option \<Rightarrow> string option \<Rightarrow>
   'a lifecycle_scheme \<Rightarrow> caller result" where
  "authorize sha256 ks authorization class_header scope_header s =
    andthen (authenticate sha256 ks authorization) (\<lambda>k.
    andthen (check_serving s) (\<lambda>_.
      resolve k class_header scope_header))"

text \<open>The two ends of the context manager \<^verbatim>\<open>ours\<close>.\<close>

definition ours_begin :: "caller \<Rightarrow> 'a lifecycle_scheme \<Rightarrow> 'a lifecycle_scheme" where
  "ours_begin ca s =
    (if outside (ca_key ca) then s else s\<lparr>l_ours_inflight := l_ours_inflight s + 1\<rparr>)"

definition ours_end :: "seconds \<Rightarrow> caller \<Rightarrow> 'a lifecycle_scheme \<Rightarrow> 'a lifecycle_scheme" where
  "ours_end now ca s =
    (if outside (ca_key ca) then s
     else s\<lparr>l_ours_inflight := l_ours_inflight s - 1, l_idle_since := now\<rparr>)"

definition accept :: "nat \<Rightarrow> 'a lifecycle_scheme \<Rightarrow> 'a lifecycle_scheme result" where
  "accept w s = andthen (check_serving s) (\<lambda>_.
     Inr (s\<lparr>l_work := List.insert w (l_work s), l_no_work := False\<rparr>))"

definition release :: "nat \<Rightarrow> 'a lifecycle_scheme \<Rightarrow> 'a lifecycle_scheme" where
  "release w s =
    (let s1 = s\<lparr>l_work := removeAll w (l_work s)\<rparr>
     in if l_work s1 = [] then s1\<lparr>l_no_work := True\<rparr> else s1)"

subsection \<open>Drain, sleep and open\<close>

definition check_boot_id :: "string \<Rightarrow> 'a lifecycle_scheme \<Rightarrow> unit result" where
  "check_boot_id boot s = require (boot = l_boot_id s) Stale_boot"

definition control_answer :: "'a lifecycle_scheme \<Rightarrow> service_status \<times> string \<times> int" where
  "control_answer s = (status s, l_boot_id s, l_drain_generation s)"

definition close ::
  "('a lifecycle_scheme) lane \<Rightarrow> seconds \<Rightarrow> 'a lifecycle_scheme \<Rightarrow> 'a lifecycle_scheme" where
  "close lane now s =
    (if l_draining s then s
     else
       let s1 = s\<lparr>l_draining := True, l_drain_generation := l_drain_generation s + 1\<rparr>;
           s2 = foldl (\<lambda>s w. if ln_waiting lane w s \<or> ln_outside lane w s
                        then ln_stop lane now By_draining w s else s) s1 (l_work s1)
       in s2\<lparr>l_deadline := Some (now + ln_drain_deadline_s lane)\<rparr>)"

definition fall_asleep ::
  "('a lifecycle_scheme) lane \<Rightarrow> seconds \<Rightarrow> 'a lifecycle_scheme \<Rightarrow> 'a lifecycle_scheme" where
  "fall_asleep lane now s =
    (if l_sleep_requested s then s
     else
       let s1 = s\<lparr>l_sleep_requested := True, l_idle := None\<rparr>;
           s2 = close lane now s1
       in s2\<lparr>l_sleep := Awaiting_drain now\<rparr>)"

definition drain ::
  "('a lifecycle_scheme) lane \<Rightarrow> seconds \<Rightarrow> string \<Rightarrow> 'a lifecycle_scheme \<Rightarrow> 'a lifecycle_scheme result"
where
  "drain lane now boot s = andthen (check_boot_id boot s) (\<lambda>_. Inr (close lane now s))"

definition sleep ::
  "('a lifecycle_scheme) lane \<Rightarrow> seconds \<Rightarrow> string \<Rightarrow> 'a lifecycle_scheme \<Rightarrow> 'a lifecycle_scheme result"
where
  "sleep lane now boot s = andthen (check_boot_id boot s) (\<lambda>_. Inr (fall_asleep lane now s))"

definition open_service ::
  "string \<Rightarrow> int \<Rightarrow> 'a lifecycle_scheme \<Rightarrow> 'a lifecycle_scheme result" where
  "open_service boot generation s =
    andthen (check_boot_id boot s) (\<lambda>_.
    andthen (require (\<not> l_sleep_requested s) Sleep_pending) (\<lambda>_.
    andthen (require (generation = l_drain_generation s) Stale_generation) (\<lambda>_.
      Inr (if l_draining s then s\<lparr>l_draining := False, l_deadline := None\<rparr> else s))))"

text \<open>The timers: \<^verbatim>\<open>_idle_check\<close>, \<^verbatim>\<open>_drain_deadline\<close> and the task \<^verbatim>\<open>_sleep_then_stop\<close>.\<close>

definition idle_check ::
  "('a lifecycle_scheme) lane \<Rightarrow> seconds \<Rightarrow> 'a lifecycle_scheme \<Rightarrow> 'a lifecycle_scheme" where
  "idle_check lane now s =
    (let deadline = l_idle_since s + ln_idle_timeout_s lane
     in if l_ours_inflight s \<noteq> 0 \<or> now < deadline
        then s\<lparr>l_idle := Some (if l_ours_inflight s \<noteq> 0 then now + ln_idle_timeout_s lane else deadline)\<rparr>
        else fall_asleep lane now s)"

definition drain_deadline ::
  "('a lifecycle_scheme) lane \<Rightarrow> seconds \<Rightarrow> 'a lifecycle_scheme \<Rightarrow> 'a lifecycle_scheme" where
  "drain_deadline lane now s =
    (let s1 = s\<lparr>l_deadline := None\<rparr>
     in foldl (\<lambda>s w. ln_stop lane now By_draining w s) s1 (l_work s1))"

text \<open>
  \<^verbatim>\<open>asyncio.timeout(FORCED_STOP_S)\<close> around the wait for \<^verbatim>\<open>_no_work\<close>: the stop of the instance begins
  when the event is set, or forced when the time is up; the flag of \<open>Stopping_instance\<close> says which.
\<close>

definition sleep_then_stop :: "seconds \<Rightarrow> 'a lifecycle_scheme \<Rightarrow> 'a lifecycle_scheme option" where
  "sleep_then_stop now s =
    (case l_sleep s of
       Awaiting_drain began \<Rightarrow>
         if l_no_work s then Some (s\<lparr>l_sleep := Stopping_instance False\<rparr>)
         else if now \<ge> began + FORCED_STOP_S then Some (s\<lparr>l_sleep := Stopping_instance True\<rparr>)
         else None
     | _ \<Rightarrow> None)"

subsection \<open>The engine's health\<close>

definition watch_interval :: "('a lifecycle_scheme) lane \<Rightarrow> 'a lifecycle_scheme \<Rightarrow> seconds" where
  "watch_interval lane s =
    (if l_engine_status s = Eng_starting then min (ln_health_interval_s lane) STARTING_RETRY_S
     else ln_health_interval_s lane)"

definition check_failed :: "'a lifecycle_scheme \<Rightarrow> 'a lifecycle_scheme" where
  "check_failed s = (if l_engine_status s = Eng_ready then s\<lparr>l_engine_status := Eng_failed\<rparr> else s)"

definition first_verified ::
  "('a lifecycle_scheme) lane \<Rightarrow> seconds \<Rightarrow> 'a lifecycle_scheme \<Rightarrow> 'a lifecycle_scheme" where
  "first_verified lane now s = idle_check lane now (s\<lparr>l_idle_since := now\<rparr>)"

definition engine_ready :: "'a lifecycle_scheme \<Rightarrow> 'a lifecycle_scheme" where
  "engine_ready s = s\<lparr>l_engine_changed := False, l_engine_status := Eng_ready\<rparr>"

definition engine_changes ::
  "('a lifecycle_scheme) lane \<Rightarrow> seconds \<Rightarrow> 'a lifecycle_scheme \<Rightarrow> 'a lifecycle_scheme" where
  "engine_changes lane now s =
    (if l_engine_changed s then s
     else
       let s1 = s\<lparr>l_engine_changed := True, l_engine_status := Eng_failed\<rparr>
       in foldl (\<lambda>s w. ln_stop lane now By_engine_changed w s) s1 (l_work s1))"

subsection \<open>Steps and runs\<close>

text \<open>
  Every way a lane's service touches its lifecycle. \<open>own\<close> is a step on the lane's own fields
  alone. A run carries the clock, which never goes back.
\<close>

inductive life_step ::
  "('a lifecycle_scheme) lane \<Rightarrow> seconds \<Rightarrow> 'a lifecycle_scheme \<Rightarrow> 'a lifecycle_scheme \<Rightarrow> bool"
  for lane where
  own: "lifecycle.truncate s' = lifecycle.truncate s \<Longrightarrow> life_step lane now s s'"
| begins: "life_step lane now s (ours_begin ca s)"
| ends: "l_ours_inflight s > 0 \<or> outside (ca_key ca) \<Longrightarrow> life_step lane now s (ours_end now ca s)"
| accepts: "accept w s = Inr s' \<Longrightarrow> life_step lane now s s'"
| releases: "life_step lane now s (release w s)"
| drains: "drain lane now boot s = Inr s' \<Longrightarrow> life_step lane now s s'"
| sleeps: "sleep lane now boot s = Inr s' \<Longrightarrow> life_step lane now s s'"
| opens: "open_service boot g s = Inr s' \<Longrightarrow> life_step lane now s s'"
| idle_due: "l_idle s = Some d \<Longrightarrow> d \<le> now \<Longrightarrow> life_step lane now s (idle_check lane now s)"
| deadline_due: "l_deadline s = Some d \<Longrightarrow> d \<le> now \<Longrightarrow> life_step lane now s (drain_deadline lane now s)"
| sleep_task: "sleep_then_stop now s = Some s' \<Longrightarrow> life_step lane now s s'"
| check_fails: "life_step lane now s (check_failed s)"
| verified: "l_engine_status s = Eng_starting \<Longrightarrow>
    life_step lane now s (engine_ready (first_verified lane now s))"
| readies: "l_engine_status s \<noteq> Eng_starting \<Longrightarrow> life_step lane now s (engine_ready s)"
| changes: "l_engine_status s \<noteq> Eng_starting \<Longrightarrow> life_step lane now s (engine_changes lane now s)"

inductive life_run ::
  "('a lifecycle_scheme) lane \<Rightarrow> seconds \<Rightarrow> 'a lifecycle_scheme \<Rightarrow> seconds \<Rightarrow> 'a lifecycle_scheme \<Rightarrow> bool"
  for lane t s where
  start: "life_run lane t s t s"
| step: "life_run lane t s t1 s1 \<Longrightarrow> t1 \<le> t2 \<Longrightarrow> life_step lane t2 s1 s2 \<Longrightarrow> life_run lane t s t2 s2"

inductive_cases life_stepE: "life_step lane now s s'"

lemma life_run_trans:
  "life_run lane t1 s1 t2 s2 \<Longrightarrow> life_run lane t t0 t1 s1 \<Longrightarrow> life_run lane t t0 t2 s2"
  by (induction rule: life_run.induct) (auto intro: life_run.step)

lemma life_run_one: "t \<le> t' \<Longrightarrow> life_step lane t' s s' \<Longrightarrow> life_run lane t s t' s'"
  by (rule life_run.step [OF life_run.start])

lemma life_run_wait: "life_run lane t s t1 s1 \<Longrightarrow> t1 \<le> t2 \<Longrightarrow> life_run lane t s t2 s1"
  by (rule life_run.step [OF _ _ life_step.own]) simp_all

subsection \<open>Fields\<close>

lemma truncate_eqD:
  assumes "lifecycle.truncate s' = lifecycle.truncate s"
  shows "l_boot_id s' = l_boot_id s" "l_drain_generation s' = l_drain_generation s"
    "l_draining s' = l_draining s" "l_sleep_requested s' = l_sleep_requested s"
    "l_engine_status s' = l_engine_status s" "l_engine_changed s' = l_engine_changed s"
    "l_work s' = l_work s" "l_ours_inflight s' = l_ours_inflight s"
    "l_idle_since s' = l_idle_since s" "l_no_work s' = l_no_work s"
    "l_deadline s' = l_deadline s" "l_idle s' = l_idle s" "l_sleep s' = l_sleep s"
  using assms by (simp_all add: lifecycle.truncate_def)

lemma status_drained_iff: "status s = Drained \<longleftrightarrow> l_draining s \<and> l_work s = []"
  by (cases "l_engine_status s") (simp_all add: status_def)

lemma check_serving_Inr_iff:
  "check_serving s = Inr u \<longleftrightarrow> \<not> l_draining s \<and> l_engine_status s = Eng_ready"
  by (cases "l_engine_status s") (simp_all add: check_serving_def status_def)

lemma accept_Inr_iff: "accept w s = Inr s' \<longleftrightarrow>
    \<not> l_draining s \<and> l_engine_status s = Eng_ready \<and>
    s' = s\<lparr>l_work := List.insert w (l_work s), l_no_work := False\<rparr>"
  by (auto simp: accept_def check_serving_Inr_iff)

lemma open_service_Inr_iff: "open_service boot g s = Inr s' \<longleftrightarrow>
    boot = l_boot_id s \<and> \<not> l_sleep_requested s \<and> g = l_drain_generation s \<and>
    s' = (if l_draining s then s\<lparr>l_draining := False, l_deadline := None\<rparr> else s)"
  by (auto simp: open_service_def check_boot_id_def)

lemma drain_Inr_iff: "drain lane now boot s = Inr s' \<longleftrightarrow> boot = l_boot_id s \<and> s' = close lane now s"
  by (auto simp: drain_def check_boot_id_def)

lemma sleep_Inr_iff: "sleep lane now boot s = Inr s' \<longleftrightarrow> boot = l_boot_id s \<and> s' = fall_asleep lane now s"
  by (auto simp: sleep_def check_boot_id_def)

lemmas life_step_simps = accept_Inr_iff open_service_Inr_iff drain_Inr_iff sleep_Inr_iff
  ours_begin_def ours_end_def release_def check_failed_def engine_ready_def Let_def

text \<open>The part of a lifecycle that a drain leaves alone.\<close>

definition same_but_drain :: "'a lifecycle_scheme \<Rightarrow> 'a lifecycle_scheme \<Rightarrow> bool" where
  "same_but_drain s s' \<longleftrightarrow> l_boot_id s' = l_boot_id s \<and> l_work s' = l_work s \<and>
     l_ours_inflight s' = l_ours_inflight s \<and> l_idle_since s' = l_idle_since s \<and>
     l_no_work s' = l_no_work s \<and> l_engine_status s' = l_engine_status s \<and>
     l_engine_changed s' = l_engine_changed s"

lemma same_drainD:
  assumes "same_but_drain s s'"
  shows "l_boot_id s' = l_boot_id s" "l_work s' = l_work s" "l_ours_inflight s' = l_ours_inflight s"
    "l_idle_since s' = l_idle_since s" "l_no_work s' = l_no_work s"
    "l_engine_status s' = l_engine_status s" "l_engine_changed s' = l_engine_changed s"
  using assms by (simp_all add: same_but_drain_def)

lemma close_draining: "l_draining s \<Longrightarrow> close lane now s = s"
  by (simp add: close_def)

subsection \<open>What every run keeps\<close>

text \<open>
  The invariant of the drain and the sleep: a sleep implies a drain, the sleep task runs exactly
  after a sleep was asked for, \<^verbatim>\<open>_no_work\<close> is set exactly while there is no work, and the drain's
  deadline is armed only during a drain.
\<close>

definition drain_ok :: "'a lifecycle_scheme \<Rightarrow> bool" where
  "drain_ok s \<longleftrightarrow> (l_sleep_requested s \<longrightarrow> l_draining s) \<and>
     (l_sleep s \<noteq> No_sleep \<longleftrightarrow> l_sleep_requested s) \<and> (l_no_work s \<longleftrightarrow> l_work s = []) \<and>
     (l_deadline s \<noteq> None \<longrightarrow> l_draining s)"

text \<open>
  The invariant of the idle interval: once the engine was verified and until the service sleeps,
  the idle timer is armed, at the latest for the end of the interval after the last request of
  ours.
\<close>

definition idle_ok :: "'b lane \<Rightarrow> seconds \<Rightarrow> 'a lifecycle_scheme \<Rightarrow> bool" where
  "idle_ok lane now s \<longleftrightarrow> l_idle_since s \<le> now \<and> 0 \<le> l_ours_inflight s \<and>
     (l_engine_status s \<noteq> Eng_starting \<and> \<not> l_sleep_requested s \<longrightarrow>
       (\<exists>d. l_idle s = Some d \<and>
          d \<le> (if l_ours_inflight s = 0 then l_idle_since s else now) + ln_idle_timeout_s lane))"

text \<open>What later states remember of earlier ones.\<close>

definition later :: "'a lifecycle_scheme \<Rightarrow> 'a lifecycle_scheme \<Rightarrow> bool" where
  "later s s' \<longleftrightarrow> l_boot_id s' = l_boot_id s \<and> (l_sleep_requested s \<longrightarrow> l_sleep_requested s') \<and>
     l_drain_generation s \<le> l_drain_generation s' \<and>
     (l_drain_generation s' = l_drain_generation s \<longrightarrow> l_draining s' \<longrightarrow> l_draining s)"

lemma later_trans: "later s s1 \<Longrightarrow> later s1 s2 \<Longrightarrow> later s s2"
  by (auto simp: later_def)

lemma idle_ok_clock: "idle_ok lane t s \<Longrightarrow> t \<le> t' \<Longrightarrow> idle_ok lane t' s"
  by (fastforce simp: idle_ok_def)

subsection \<open>What a lane's work must keep to\<close>

text \<open>
  The contract between a lifecycle and its lane: stopping a work touches the lane's fields alone,
  halts that work, and starts no other one again.
\<close>

locale lane_work =
  fixes lane :: "('a lifecycle_scheme) lane"
    and halted :: "nat \<Rightarrow> 'a lifecycle_scheme \<Rightarrow> bool"
  assumes stop_keeps: "lifecycle.truncate (ln_stop lane now r w s) = lifecycle.truncate s"
    and stop_halts: "halted w (ln_stop lane now r w s)"
    and stop_frame: "halted v s \<Longrightarrow> halted v (ln_stop lane now r w s)"
    and halted_own: "halted v (s\<lparr>l_deadline := d\<rparr>) = halted v s"
begin

lemma stops_keep: "lifecycle.truncate (foldl (\<lambda>s w. ln_stop lane now r w s) s ws) = lifecycle.truncate s"
  by (induction ws arbitrary: s) (simp_all add: stop_keeps)

lemma some_stops_keep:
  "lifecycle.truncate (foldl (\<lambda>s w. if P w s then ln_stop lane now r w s else s) s ws) = lifecycle.truncate s"
  by (induction ws arbitrary: s) (simp_all add: stop_keeps)

lemma stops_halt:
  assumes "w \<in> set ws \<or> halted w s"
  shows "halted w (foldl (\<lambda>s w. ln_stop lane now r w s) s ws)"
  using assms by (induction ws arbitrary: s) (auto intro: stop_halts stop_frame)

lemma close_fields:
  "l_draining (close lane now s)" "same_but_drain s (close lane now s)"
  "l_sleep_requested (close lane now s) = l_sleep_requested s"
  "l_idle (close lane now s) = l_idle s" "l_sleep (close lane now s) = l_sleep s"
  "l_drain_generation (close lane now s) = l_drain_generation s + (if l_draining s then 0 else 1)"
  "\<not> l_draining s \<Longrightarrow> l_deadline (close lane now s) = Some (now + ln_drain_deadline_s lane)"
  using truncate_eqD [OF some_stops_keep]
  by (simp_all add: close_def Let_def same_but_drain_def)

lemma fall_asleep_fields:
  "l_sleep_requested (fall_asleep lane now s)" "same_but_drain s (fall_asleep lane now s)"
  "\<not> l_sleep_requested s \<Longrightarrow> l_draining (fall_asleep lane now s)"
  "\<not> l_sleep_requested s \<Longrightarrow> l_sleep (fall_asleep lane now s) = Awaiting_drain now"
  "l_sleep_requested s \<Longrightarrow> fall_asleep lane now s = s"
  "l_drain_generation s \<le> l_drain_generation (fall_asleep lane now s)"
  "l_draining s \<Longrightarrow> l_draining (fall_asleep lane now s)"
  "\<not> l_draining s \<Longrightarrow> l_draining (fall_asleep lane now s) \<Longrightarrow>
     l_drain_generation s < l_drain_generation (fall_asleep lane now s)"
  "l_drain_generation (fall_asleep lane now s) = l_drain_generation s +
     (if l_sleep_requested s \<or> l_draining s then 0 else 1)"
  using close_fields [where now = now and s = "s\<lparr>l_sleep_requested := True, l_idle := None\<rparr>"]
  by (auto simp: fall_asleep_def Let_def same_but_drain_def)

lemma drain_deadline_fields:
  "lifecycle.truncate (drain_deadline lane now s) = lifecycle.truncate (s\<lparr>l_deadline := None\<rparr>)"
  "w \<in> set (l_work s) \<Longrightarrow> halted w (drain_deadline lane now s)"
  by (simp_all add: drain_deadline_def stops_keep stops_halt Let_def)

lemma engine_changes_fields:
  "lifecycle.truncate (engine_changes lane now s) =
     lifecycle.truncate (if l_engine_changed s then s
       else s\<lparr>l_engine_changed := True, l_engine_status := Eng_failed\<rparr>)"
  "w \<in> set (l_work s) \<Longrightarrow> \<not> l_engine_changed s \<Longrightarrow> halted w (engine_changes lane now s)"
  by (simp_all add: engine_changes_def stops_keep stops_halt Let_def)

lemma idle_check_fields:
  assumes "l_ours_inflight s \<noteq> 0 \<or> now < l_idle_since s + ln_idle_timeout_s lane"
  shows "idle_check lane now s =
    s\<lparr>l_idle := Some (if l_ours_inflight s \<noteq> 0 then now + ln_idle_timeout_s lane
        else l_idle_since s + ln_idle_timeout_s lane)\<rparr>"
  using assms by (simp add: idle_check_def Let_def)

lemma idle_check_asleep:
  assumes "\<not> (l_ours_inflight s \<noteq> 0 \<or> now < l_idle_since s + ln_idle_timeout_s lane)"
  shows "idle_check lane now s = fall_asleep lane now s"
  using assms by (auto simp: idle_check_def Let_def)

lemma idle_check_cases:
  obtains d where "idle_check lane now s = s\<lparr>l_idle := Some d\<rparr>"
    "d = (if l_ours_inflight s \<noteq> 0 then now else l_idle_since s) + ln_idle_timeout_s lane"
  | "idle_check lane now s = fall_asleep lane now s"
    "l_ours_inflight s = 0" "l_idle_since s + ln_idle_timeout_s lane \<le> now"
  by (cases "l_ours_inflight s \<noteq> 0 \<or> now < l_idle_since s + ln_idle_timeout_s lane")
    (use idle_check_fields [where s = s and now = now] idle_check_asleep [where s = s and now = now]
      in \<open>auto simp: not_less\<close>)

lemma fall_asleep_drain_ok: "drain_ok s \<Longrightarrow> drain_ok (fall_asleep lane now s)"
  by (cases "l_sleep_requested s")
    (simp_all add: fall_asleep_fields drain_ok_def same_drainD [OF fall_asleep_fields(2)])

lemma close_drain_ok: "drain_ok s \<Longrightarrow> drain_ok (close lane now s)"
  by (cases "l_draining s")
    (auto simp: close_draining close_fields drain_ok_def same_drainD [OF close_fields(2)])

lemma idle_check_drain_ok: "drain_ok s \<Longrightarrow> drain_ok (idle_check lane now s)"
  by (rule idle_check_cases [where s = s and now = now])
    (simp_all add: fall_asleep_drain_ok, simp add: drain_ok_def)

lemma drain_ok_cong:
  "lifecycle.truncate s' = lifecycle.truncate s \<Longrightarrow> drain_ok s' = drain_ok s"
  by (auto simp: drain_ok_def dest: truncate_eqD)

lemma step_drain_ok:
  assumes "life_step lane now s s'" and "drain_ok s"
  shows "drain_ok s'"
  using assms
proof (cases rule: life_step.cases)
  case own
  with assms(2) show ?thesis using drain_ok_cong by blast
next
  case (drains boot)
  with assms(2) show ?thesis by (simp add: drain_Inr_iff close_drain_ok)
next
  case (sleeps boot)
  with assms(2) show ?thesis by (simp add: sleep_Inr_iff fall_asleep_drain_ok)
next
  case (idle_due d)
  with assms(2) show ?thesis by (simp add: idle_check_drain_ok)
next
  case (deadline_due d)
  then have "drain_ok s' = drain_ok (s\<lparr>l_deadline := None\<rparr>)"
    by (intro drain_ok_cong) (simp add: drain_deadline_fields)
  with assms(2) show ?thesis by (simp add: drain_ok_def)
next
  case verified
  have "drain_ok (first_verified lane now s)"
    unfolding first_verified_def by (rule idle_check_drain_ok) (use assms(2) in \<open>simp add: drain_ok_def\<close>)
  with verified show ?thesis by (simp add: engine_ready_def drain_ok_def)
next
  case changes
  then have "drain_ok s' = drain_ok (if l_engine_changed s then s
       else s\<lparr>l_engine_changed := True, l_engine_status := Eng_failed\<rparr>)"
    by (intro drain_ok_cong) (simp add: engine_changes_fields)
  with assms(2) show ?thesis by (simp add: drain_ok_def split: if_splits)
next
  case sleep_task
  with assms(2) show ?thesis
    by (auto simp: sleep_then_stop_def drain_ok_def split: sleep_task.splits if_splits)
qed (use assms(2) in \<open>auto simp: life_step_simps drain_ok_def split: if_splits\<close>)

lemma fall_asleep_later: "later s (fall_asleep lane now s)"
  by (auto simp: later_def fall_asleep_fields same_drainD [OF fall_asleep_fields(2)])

lemma close_later: "later s (close lane now s)"
  by (auto simp: later_def close_fields same_drainD [OF close_fields(2)])

lemma idle_check_later: "later s (idle_check lane now s)"
  by (rule idle_check_cases [where s = s and now = now])
    (simp_all add: fall_asleep_later, simp add: later_def)

lemma later_cong:
  "lifecycle.truncate s' = lifecycle.truncate s1 \<Longrightarrow> later s s1 \<Longrightarrow> later s s'"
  by (auto simp: later_def dest: truncate_eqD)

lemma later_refl: "later s s"
  by (simp add: later_def)

lemma step_later:
  assumes "life_step lane now s s'"
  shows "later s s'"
  using assms
proof (cases rule: life_step.cases)
  case own
  then show ?thesis using later_cong later_refl by blast
next
  case (idle_due d)
  then show ?thesis by (simp add: idle_check_later)
next
  case (deadline_due d)
  have "later s (s\<lparr>l_deadline := None\<rparr>)" by (simp add: later_def)
  with deadline_due show ?thesis using drain_deadline_fields(1) later_cong by blast
next
  case verified
  have "later (s\<lparr>l_idle_since := now\<rparr>) (first_verified lane now s)"
    unfolding first_verified_def by (rule idle_check_later)
  with verified show ?thesis by (simp add: engine_ready_def later_def)
next
  case changes
  have "later s (if l_engine_changed s then s
       else s\<lparr>l_engine_changed := True, l_engine_status := Eng_failed\<rparr>)" by (simp add: later_def)
  with changes show ?thesis using engine_changes_fields(1) later_cong by blast
next
  case sleep_task
  then show ?thesis by (auto simp: sleep_then_stop_def later_def split: sleep_task.splits if_splits)
next
  case (drains boot)
  then show ?thesis by (simp add: drain_Inr_iff close_later)
next
  case (sleeps boot)
  then show ?thesis by (simp add: sleep_Inr_iff fall_asleep_later)
qed (auto simp: life_step_simps later_def split: if_splits)

lemma idle_ok_cong:
  "lifecycle.truncate s' = lifecycle.truncate s \<Longrightarrow> idle_ok lane now s' = idle_ok lane now s"
  by (simp add: idle_ok_def truncate_eqD [of s' s])

lemma fall_asleep_idle_ok: "idle_ok lane now s \<Longrightarrow> idle_ok lane now (fall_asleep lane now s)"
  by (cases "l_ours_inflight s = 0")
    (auto simp: idle_ok_def fall_asleep_fields same_drainD [OF fall_asleep_fields(2)])

lemma close_idle_ok: "idle_ok lane now s \<Longrightarrow> idle_ok lane now (close lane now s)"
  by (cases "l_ours_inflight s = 0")
    (auto simp: idle_ok_def close_fields same_drainD [OF close_fields(2)])

lemma idle_check_idle_ok:
  assumes "l_idle_since s \<le> now" and "0 \<le> l_ours_inflight s"
  shows "idle_ok lane now (idle_check lane now s)" and
    "idle_ok lane now (engine_ready (idle_check lane now s))"
  using assms
  by (atomize (full), rule_tac idle_check_cases [where s = s and now = now])
    (auto simp: idle_ok_def engine_ready_def fall_asleep_fields same_drainD [OF fall_asleep_fields(2)])

lemma step_idle_ok:
  assumes "life_step lane now s s'" and ok: "idle_ok lane now s" and "0 \<le> ln_idle_timeout_s lane"
  shows "idle_ok lane now s'"
  using assms(1)
proof (cases rule: life_step.cases)
  case own
  with ok show ?thesis using idle_ok_cong by blast
next
  case (idle_due d)
  with ok show ?thesis by (simp add: idle_check_idle_ok idle_ok_def [of lane now s])
next
  case (deadline_due d)
  have "idle_ok lane now (s\<lparr>l_deadline := None\<rparr>)" using ok by (cases "l_ours_inflight s = 0") (auto simp: idle_ok_def)
  with deadline_due show ?thesis using drain_deadline_fields(1) idle_ok_cong by blast
next
  case verified
  with ok show ?thesis
    by (simp add: first_verified_def idle_check_idle_ok idle_ok_def [of lane now s])
next
  case changes
  then have "idle_ok lane now (if l_engine_changed s then s
       else s\<lparr>l_engine_changed := True, l_engine_status := Eng_failed\<rparr>)"
    using ok by (auto simp: idle_ok_def)
  with changes show ?thesis using engine_changes_fields(1) idle_ok_cong by blast
next
  case sleep_task
  with ok show ?thesis by (auto simp: sleep_then_stop_def idle_ok_def split: sleep_task.splits if_splits)
next
  case (drains boot)
  with ok show ?thesis by (simp add: drain_Inr_iff close_idle_ok)
next
  case (sleeps boot)
  with ok show ?thesis by (simp add: sleep_Inr_iff fall_asleep_idle_ok)
next
  case (begins ca)
  with ok show ?thesis
    by (cases "l_ours_inflight s = 0"; cases "outside (ca_key ca)")
      (fastforce simp: life_step_simps idle_ok_def)+
next
  case (ends ca)
  with ok assms(3) show ?thesis
    by (cases "l_ours_inflight s = 0"; cases "outside (ca_key ca)")
      (fastforce simp: life_step_simps idle_ok_def)+
qed (use ok in \<open>auto simp: life_step_simps idle_ok_def split: if_splits\<close>)

lemma run_clock: "life_run lane t s t' s' \<Longrightarrow> t \<le> t'"
  by (induction rule: life_run.induct) auto

lemma run_drain_ok: "life_run lane t s t' s' \<Longrightarrow> drain_ok s \<Longrightarrow> drain_ok s'"
  by (induction rule: life_run.induct) (auto intro: step_drain_ok)

lemma run_later: "life_run lane t s t' s' \<Longrightarrow> later s s'"
  by (induction rule: life_run.induct) (auto intro: later_refl later_trans step_later)

lemma run_idle_ok:
  "life_run lane t s t' s' \<Longrightarrow> idle_ok lane t s \<Longrightarrow> 0 \<le> ln_idle_timeout_s lane \<Longrightarrow> idle_ok lane t' s'"
  by (induction rule: life_run.induct) (auto intro: step_idle_ok idle_ok_clock)

text \<open>A sleep is final.\<close>

lemma asleep_for_good:
  assumes "life_run lane t s t' s'" and "drain_ok s" and "l_sleep_requested s"
  shows "l_sleep_requested s' \<and> l_draining s' \<and> check_serving s' \<noteq> Inr () \<and>
    (\<exists>e. accept w s' = Inl e) \<and> (\<exists>e. open_service boot g s' = Inl e)"
proof -
  have "l_sleep_requested s'" using run_later [OF assms(1)] assms(3) by (simp add: later_def)
  moreover from this have d: "l_draining s'"
    using run_drain_ok [OF assms(1,2)] by (simp add: drain_ok_def)
  ultimately show ?thesis
    by (cases "accept w s'"; cases "open_service boot g s'")
      (auto simp: check_serving_Inr_iff accept_Inr_iff open_service_Inr_iff)
qed

text \<open>An open undoes no drain that its sender had not seen.\<close>

lemma open_fenced:
  assumes "life_run lane t s t' s'" and "open_service boot (l_drain_generation s) s' = Inr s''"
    and "l_draining s'"
  shows "l_draining s \<and> boot = l_boot_id s"
  using run_later [OF assms(1)] assms(2,3) by (auto simp: later_def open_service_Inr_iff)

end

end
