(* ===== verification/Place_Desk.thy ===== *)
theory Place_Desk
  imports Gateway_Config
begin

text \<open>
  Tickets and waiting lines, \<^verbatim>\<open>Ticket\<close>, \<^verbatim>\<open>Line\<close> and \<^verbatim>\<open>_grant\<close> of
  \<^verbatim>\<open>simple_serving/admission.py\<close>, and the interface \<open>place_desk\<close> that the two users of them,
  \<^verbatim>\<open>Admission\<close> and \<^verbatim>\<open>CountPlaces\<close>, provide to the work of a request.

  A ticket object is a value: its identity \<open>t_id\<close> with the class and the owner it is made with,
  which never change. What the code mutates, its state and its future, is kept in the desk, by
  ticket. A ticket that was not made yet has the state \<open>Left\<close>.
\<close>

subsection \<open>Tickets\<close>

datatype tstate = Waiting | Active | Left

text \<open>The future \<^verbatim>\<open>granted\<close>: not done, done with its result, or cancelled with its task.\<close>

datatype granted = Ungranted | Granted | Wait_cancelled

record ticket =
  t_id :: nat
  t_cls :: cls
  t_owner :: "key option"

type_synonym line = "cls \<Rightarrow> ticket list"

record desk =
  d_next :: nat
  d_state :: "ticket \<Rightarrow> tstate"
  d_granted :: "ticket \<Rightarrow> granted"
  d_line :: line

definition new_ticket :: "cls \<Rightarrow> key option \<Rightarrow> 'a desk_scheme \<Rightarrow> ticket \<times> 'a desk_scheme" where
  "new_ticket c ow d =
    (let t = \<lparr>t_id = d_next d, t_cls = c, t_owner = ow\<rparr>
     in (t, d\<lparr>d_next := Suc (d_next d), d_state := (d_state d)(t := Waiting),
              d_granted := (d_granted d)(t := Ungranted)\<rparr>))"

definition waiting :: "'a desk_scheme \<Rightarrow> ticket \<Rightarrow> bool" where
  "waiting d t \<longleftrightarrow> d_state d t = Waiting"

definition active :: "'a desk_scheme \<Rightarrow> ticket \<Rightarrow> bool" where
  "active d t \<longleftrightarrow> d_state d t = Active"

text \<open>The future of a task that is cancelled while it awaits it.\<close>

definition cancel_wait :: "ticket \<Rightarrow> 'a desk_scheme \<Rightarrow> 'a desk_scheme" where
  "cancel_wait t d =
    (if d_granted d t = Ungranted then d\<lparr>d_granted := (d_granted d)(t := Wait_cancelled)\<rparr> else d)"

definition grant :: "ticket \<Rightarrow> 'a desk_scheme \<Rightarrow> 'a desk_scheme" where
  "grant t d =
    d\<lparr>d_state := (d_state d)(t := Active),
      d_granted := (if d_granted d t = Ungranted then (d_granted d)(t := Granted) else d_granted d)\<rparr>"

subsection \<open>Lines\<close>

definition empty_line :: line where
  "empty_line = (\<lambda>_. [])"

definition line_add :: "ticket \<Rightarrow> line \<Rightarrow> line" where
  "line_add t q = q(t_cls t := q (t_cls t) @ [t])"

text \<open>\<^verbatim>\<open>deque.remove\<close> raises where the ticket is not in its queue: \<open>None\<close>.\<close>

definition line_remove :: "ticket \<Rightarrow> line \<Rightarrow> line option" where
  "line_remove t q =
    (if t \<in> set (q (t_cls t)) then Some (q(t_cls t := remove1 t (q (t_cls t)))) else None)"

definition line_counts :: "line \<Rightarrow> cls \<Rightarrow> int" where
  "line_counts q c = int (length (q c))"

definition line_len :: "line \<Rightarrow> int" where
  "line_len q = (\<Sum>c\<leftarrow>CLASSES. int (length (q c)))"

definition in_order :: "line \<Rightarrow> ticket list" where
  "in_order q = concat (map q CLASSES)"

lemma set_in_order: "set (in_order q) = {t. \<exists>c. t \<in> set (q c)}"
  by (auto simp: in_order_def)

lemma length_in_order: "int (length (in_order q)) = line_len q"
  by (simp add: in_order_def line_len_def length_concat CLASSES_def)

lemma line_remove_length:
  "line_remove t q = Some q' \<Longrightarrow> length (in_order q') < length (in_order q)"
  by (cases "t_cls t")
    (auto simp: line_remove_def in_order_def CLASSES_def length_remove1_less split: if_splits)

subsection \<open>What a desk keeps true\<close>

definition present :: "'a desk_scheme \<Rightarrow> ticket set" where
  "present d = {t. d_state d t \<noteq> Left}"

definition tally :: "'a desk_scheme \<Rightarrow> tstate \<Rightarrow> (ticket \<Rightarrow> bool) \<Rightarrow> int" where
  "tally d s P = int (card {t. d_state d t = s \<and> P t})"

text \<open>
  Tickets are numbered by arrival, the line holds the waiting ones by class and by arrival.
\<close>

definition desk_inv :: "'a desk_scheme \<Rightarrow> bool" where
  "desk_inv d \<longleftrightarrow>
     finite (present d) \<and> inj_on t_id (present d) \<and> (\<forall>t \<in> present d. t_id t < d_next d) \<and>
     (\<forall>c. sorted_wrt (\<lambda>x y. t_id x < t_id y) (d_line d c)) \<and>
     (\<forall>c. set (d_line d c) = {t. d_state d t = Waiting \<and> t_cls t = c})"

lemma tally_nonneg [simp]: "0 \<le> tally d s P"
  by (simp add: tally_def)

lemma finite_tally: "finite (present d) \<Longrightarrow> s \<noteq> Left \<Longrightarrow> finite {t. d_state d t = s \<and> P t}"
  by (rule rev_finite_subset [of "present d"]) (auto simp: present_def)

lemma tally_cong: "d_state d = d_state d' \<Longrightarrow> tally d s P = tally d' s P"
  by (simp add: tally_def)

lemma tally_upd:
  assumes fin: "finite (present d)" and s: "s \<noteq> Left" and d': "d_state d' = (d_state d)(t := s')"
  shows "tally d' s P =
    tally d s P - (if d_state d t = s \<and> P t then 1 else 0) + (if s' = s \<and> P t then 1 else 0)"
proof (cases "P t")
  case False
  then have "{u. d_state d' u = s \<and> P u} = {u. d_state d u = s \<and> P u}" by (auto simp: d')
  with False show ?thesis by (simp add: tally_def)
next
  case Pt: True
  note f = finite_tally [OF fin s, of P]
  show ?thesis
  proof (cases "d_state d t = s")
    case True
    have "{u. d_state d' u = s \<and> P u} =
        (if s' = s then {u. d_state d u = s \<and> P u} else {u. u \<noteq> t \<and> d_state d u = s \<and> P u})"
      using True Pt by (auto simp: d')
    with card_Collect_remove [OF f, of t] True Pt show ?thesis by (simp add: tally_def)
  next
    case False
    have "{u. d_state d' u = s \<and> P u} =
        (if s' = s then {u. u = t \<or> d_state d u = s \<and> P u} else {u. d_state d u = s \<and> P u})"
      using False Pt by (auto simp: d')
    with card_Collect_insert [OF f, of t] False Pt show ?thesis by (simp add: tally_def)
  qed
qed

lemma sorted_wrt_distinct: "sorted_wrt (\<lambda>x y. t_id x < t_id y) xs \<Longrightarrow> distinct xs"
  by (induction xs) auto

lemma sorted_wrt_remove1: "sorted_wrt R xs \<Longrightarrow> sorted_wrt R (remove1 x xs)"
proof (induction xs)
  case Nil
  then show ?case by simp
next
  case (Cons y ys)
  then show ?case using set_remove1_subset [of x ys] by auto
qed

lemma desk_inv_distinct: "desk_inv d \<Longrightarrow> distinct (d_line d c)"
  by (auto simp: desk_inv_def intro: sorted_wrt_distinct)

lemma desk_inv_fin: "desk_inv d \<Longrightarrow> finite (present d)"
  by (simp add: desk_inv_def)

lemma desk_inv_line: "desk_inv d \<Longrightarrow> t \<in> set (d_line d c) \<longleftrightarrow> d_state d t = Waiting \<and> t_cls t = c"
  by (simp add: desk_inv_def)

lemma desk_inv_in_order: "desk_inv d \<Longrightarrow> t \<in> set (in_order (d_line d)) \<longleftrightarrow> d_state d t = Waiting"
  by (auto simp: set_in_order desk_inv_line)

lemma desk_inv_length:
  assumes "desk_inv d"
  shows "int (length (d_line d c)) = tally d Waiting (\<lambda>t. t_cls t = c)"
  using assms distinct_card [OF desk_inv_distinct [OF assms, of c]]
  by (simp add: tally_def desk_inv_def)

lemma desk_inv_fresh:
  assumes "desk_inv d" and "d_next d \<le> t_id t"
  shows "d_state d t = Left"
  using assms by (force simp: desk_inv_def present_def)

text \<open>Making a ticket, then letting it wait at the end of its queue.\<close>

lemma desk_inv_add:
  assumes inv: "desk_inv d" and nt: "new_ticket c ow d = (t, d1)"
    and st: "d_state d' = d_state d1" and nx: "d_next d' = d_next d1"
    and ln: "d_line d' = line_add t (d_line d)"
  shows "desk_inv d'"
proof -
  from nt have t: "t = \<lparr>t_id = d_next d, t_cls = c, t_owner = ow\<rparr>"
    and st1: "d_state d1 = (d_state d)(t := Waiting)" and nx1: "d_next d1 = Suc (d_next d)"
    by (auto simp: new_ticket_def Let_def)
  have fresh: "d_state d t = Left" using desk_inv_fresh [OF inv] t by simp
  have pres: "present d' = insert t (present d)" by (auto simp: present_def st st1)
  have less: "t_id u < t_id t" if "d_state d u \<noteq> Left" for u
    using inv that t by (simp add: desk_inv_def present_def)
  have "t_id t \<notin> t_id ` (present d - {t})" using less by (force simp: present_def)
  then have "inj_on t_id (present d')" using inv by (simp add: pres desk_inv_def)
  moreover have "sorted_wrt (\<lambda>x y. t_id x < t_id y) (d_line d' k)" for k
    using inv less by (auto simp: ln line_add_def desk_inv_def sorted_wrt_append)
  moreover have "set (d_line d' k) = {u. d_state d' u = Waiting \<and> t_cls u = k}" for k
    using inv fresh t by (auto simp: ln line_add_def desk_inv_def st st1)
  moreover have "\<forall>u \<in> present d'. t_id u < d_next d'"
    unfolding pres using less t by (force simp: nx nx1 present_def)
  ultimately show ?thesis using inv by (simp add: desk_inv_def pres)
qed

text \<open>A ticket made and active at once: the line does not see it.\<close>

lemma desk_inv_new_active:
  assumes inv: "desk_inv d" and nt: "new_ticket c ow d = (t, d1)"
    and st: "d_state d' = (d_state d1)(t := Active)" and nx: "d_next d' = d_next d1"
    and ln: "d_line d' = d_line d"
  shows "desk_inv d'"
proof -
  from nt have t: "t = \<lparr>t_id = d_next d, t_cls = c, t_owner = ow\<rparr>"
    and st1: "d_state d' = (d_state d)(t := Active)" and nx1: "d_next d1 = Suc (d_next d)"
    by (auto simp: new_ticket_def Let_def st)
  have fresh: "d_state d t = Left" using desk_inv_fresh [OF inv] t by simp
  have pres: "present d' = insert t (present d)" by (auto simp: present_def st1)
  have less: "t_id u < t_id t" if "d_state d u \<noteq> Left" for u
    using inv that t by (simp add: desk_inv_def present_def)
  have "t_id t \<notin> t_id ` (present d - {t})" using less by (force simp: present_def)
  then have "inj_on t_id (present d')" using inv by (simp add: pres desk_inv_def)
  moreover have "\<forall>u \<in> present d'. t_id u < d_next d'"
    unfolding pres using less t by (force simp: nx nx1 present_def)
  moreover have "set (d_line d' k) = {u. d_state d' u = Waiting \<and> t_cls u = k}" for k
    using inv fresh by (auto simp: ln desk_inv_def st1)
  ultimately show ?thesis using inv by (simp add: desk_inv_def pres ln)
qed

text \<open>A waiting ticket taken out of its queue, into either of the other states.\<close>

lemma desk_inv_take:
  assumes inv: "desk_inv d" and w: "d_state d t = Waiting" and s: "s \<noteq> Waiting"
    and st: "d_state d' = (d_state d)(t := s)" and nx: "d_next d' = d_next d"
    and ln: "d_line d' = (d_line d)(t_cls t := remove1 t (d_line d (t_cls t)))"
  shows "desk_inv d'"
proof -
  have pres: "present d' \<subseteq> present d" using w by (auto simp: present_def st)
  have "set (d_line d' k) = {u. d_state d' u = Waiting \<and> t_cls u = k}" for k
    using inv s desk_inv_distinct [OF inv] by (auto simp: ln st desk_inv_def)
  moreover have "sorted_wrt (\<lambda>x y. t_id x < t_id y) (d_line d' k)" for k
    using inv by (auto simp: ln desk_inv_def sorted_wrt_remove1)
  moreover have "finite (present d')" and "inj_on t_id (present d')"
    using inv pres by (auto simp: desk_inv_def intro: rev_finite_subset inj_on_subset)
  moreover have "\<forall>u \<in> present d'. t_id u < d_next d'"
    using inv pres by (auto simp: desk_inv_def nx)
  ultimately show ?thesis by (simp add: desk_inv_def)
qed

text \<open>An active ticket that leaves.\<close>

lemma desk_inv_drop:
  assumes inv: "desk_inv d" and w: "d_state d t \<noteq> Waiting"
    and st: "d_state d' = (d_state d)(t := Left)" and nx: "d_next d' = d_next d"
    and ln: "d_line d' = d_line d"
  shows "desk_inv d'"
proof -
  have pres: "present d' \<subseteq> present d" by (auto simp: present_def st)
  have "set (d_line d' k) = {u. d_state d' u = Waiting \<and> t_cls u = k}" for k
    using inv w by (auto simp: ln st desk_inv_def)
  moreover have "finite (present d')" and "inj_on t_id (present d')"
    using inv pres by (auto simp: desk_inv_def intro: rev_finite_subset inj_on_subset)
  moreover have "\<forall>u \<in> present d'. t_id u < d_next d'"
    using inv pres by (auto simp: desk_inv_def nx)
  ultimately show ?thesis using inv by (simp add: desk_inv_def ln)
qed

lemma line_remove_waiting:
  "desk_inv d \<Longrightarrow> d_state d t = Waiting \<Longrightarrow>
   line_remove t (d_line d) = Some ((d_line d)(t_cls t := remove1 t (d_line d (t_cls t))))"
  by (simp add: line_remove_def desk_inv_line)

subsection \<open>The interface of a desk\<close>

text \<open>
  A sequence of operations on a desk: entering with a class and an owner, and leaving. A refused
  entry changes nothing and the sequence goes on, as the next request does.
\<close>

datatype desk_op = Enter_op cls "key option" | Leave_op ticket

fun run_ops ::
  "(cls \<Rightarrow> key option \<Rightarrow> 'a \<Rightarrow> (ticket \<times> 'a) result) \<Rightarrow> (ticket \<Rightarrow> 'a \<Rightarrow> 'a option) \<Rightarrow>
   desk_op list \<Rightarrow> 'a \<Rightarrow> 'a option" where
  "run_ops ent lv [] a = Some a"
| "run_ops ent lv (Enter_op c ow # xs) a =
     (case ent c ow a of Inl e \<Rightarrow> run_ops ent lv xs a | Inr (t, a') \<Rightarrow> run_ops ent lv xs a')"
| "run_ops ent lv (Leave_op t # xs) a =
     (case lv t a of None \<Rightarrow> None | Some a' \<Rightarrow> run_ops ent lv xs a')"

text \<open>
  What a request's work relies on: an entry makes one ticket that is not known yet or refuses with
  \<open>Queue_full\<close>, leaving always succeeds and ends exactly this ticket, and neither takes a place
  away from any other ticket.
\<close>

locale place_desk =
  fixes inv :: "'a \<Rightarrow> bool"
    and st :: "'a \<Rightarrow> ticket \<Rightarrow> tstate"
    and enter :: "cls \<Rightarrow> key option \<Rightarrow> 'a \<Rightarrow> (ticket \<times> 'a) result"
    and leave :: "ticket \<Rightarrow> 'a \<Rightarrow> 'a option"
  assumes enter_inv: "inv a \<Longrightarrow> enter c ow a = Inr (t, a') \<Longrightarrow> inv a'"
    and enter_new: "inv a \<Longrightarrow> enter c ow a = Inr (t, a') \<Longrightarrow>
          st a t = Left \<and> st a' t \<noteq> Left \<and> t_cls t = c \<and> t_owner t = ow"
    and enter_frame: "inv a \<Longrightarrow> enter c ow a = Inr (t, a') \<Longrightarrow> u \<noteq> t \<Longrightarrow> st a' u = st a u"
    and enter_refuses: "inv a \<Longrightarrow> enter c ow a = Inl e \<Longrightarrow> e = Queue_full"
    and leave_returns: "inv a \<Longrightarrow> \<exists>a'. leave t a = Some a'"
    and leave_inv: "inv a \<Longrightarrow> leave t a = Some a' \<Longrightarrow> inv a'"
    and leave_left: "inv a \<Longrightarrow> leave t a = Some a' \<Longrightarrow> st a' t = Left"
    and leave_frame: "inv a \<Longrightarrow> leave t a = Some a' \<Longrightarrow> u \<noteq> t \<Longrightarrow>
          st a' u = st a u \<or> st a u = Waiting \<and> st a' u = Active"
    and leave_again: "inv a \<Longrightarrow> st a t = Left \<Longrightarrow> leave t a = Some a"
begin

lemma enter_present:
  assumes "inv a" and "enter c ow a = Inr (t, a')"
  shows "{u. st a' u \<noteq> Left} = insert t {u. st a u \<noteq> Left}"
proof -
  have "st a' u \<noteq> Left \<longleftrightarrow> st a u \<noteq> Left \<or> u = t" for u
    using enter_new [OF assms] enter_frame [OF assms, of u] by (cases "u = t") auto
  then show ?thesis by blast
qed

lemma leave_present:
  assumes "inv a" and "leave t a = Some a'"
  shows "{u. st a' u \<noteq> Left} = {u. st a u \<noteq> Left} - {t}"
proof -
  have "st a' u \<noteq> Left \<longleftrightarrow> st a u \<noteq> Left \<and> u \<noteq> t" for u
    using leave_left [OF assms] leave_frame [OF assms, of u] by (cases "u = t") auto
  then show ?thesis by blast
qed

lemma leave_keeps_active:
  "inv a \<Longrightarrow> leave t a = Some a' \<Longrightarrow> u \<noteq> t \<Longrightarrow> st a u = Active \<Longrightarrow> st a' u = Active"
  using leave_frame [of a t a' u] by auto

lemma run_inv:
  "inv a \<Longrightarrow> \<exists>a'. run_ops enter leave xs a = Some a' \<and> inv a'"
proof (induction xs arbitrary: a)
  case Nil
  then show ?case by simp
next
  case (Cons x xs)
  show ?case
  proof (cases x)
    case (Enter_op c ow)
    with Cons show ?thesis by (auto split: sum.split dest: enter_inv)
  next
    case (Leave_op t)
    from leave_returns [OF Cons.prems] obtain a1 where "leave t a = Some a1" by blast
    with Cons Leave_op show ?thesis by (auto dest: leave_inv)
  qed
qed

lemma run_append:
  "run_ops enter leave (xs @ ys) a =
    (case run_ops enter leave xs a of None \<Rightarrow> None | Some a' \<Rightarrow> run_ops enter leave ys a')"
proof (induction xs arbitrary: a)
  case Nil
  then show ?case by simp
next
  case (Cons x xs)
  then show ?case by (cases x) (auto split: sum.split option.split)
qed

end

end
