(* ===== verification/Admission.thy ===== *)
theory Admission
  imports Place_Desk
begin

text \<open>
  The class \<^verbatim>\<open>Admission\<close> of \<^verbatim>\<open>simple_serving/admission.py\<close>: the Active and Waiting caps of
  generations (contract section 7). Its counters are the code's, its tickets and its line are those
  of the desk. \<open>None\<close> stands for the \<^verbatim>\<open>ValueError\<close> of a removal from a queue that does not hold
  the ticket; \<open>adm_leave_returns\<close> shows that it is never reached.

  The specification it implements is \<open>hand_over\<close>: a free place goes to the waiting ticket that has
  room and is first by class, then by arrival. \<open>adm_dispatch\<close> is shown to hand over until no
  waiting ticket has room.
\<close>

subsection \<open>State and operations\<close>

record admission = desk +
  a_active :: "cls \<Rightarrow> int"
  a_owner_active :: "key \<Rightarrow> int"
  a_owner_waiting :: "key \<Rightarrow> int"

definition adm_init :: admission where
  "adm_init = \<lparr>d_next = 0, d_state = (\<lambda>_. Left), d_granted = (\<lambda>_. Ungranted), d_line = empty_line,
     a_active = (\<lambda>_. 0), a_owner_active = (\<lambda>_. 0), a_owner_waiting = (\<lambda>_. 0)\<rparr>"

definition has_room :: "config \<Rightarrow> admission \<Rightarrow> ticket \<Rightarrow> bool" where
  "has_room cfg a t =
    (if a_active a (t_cls t) \<ge> cl_active (c_limits cfg (t_cls t)) then False
     else if (case t_owner t of None \<Rightarrow> False | Some k \<Rightarrow> a_owner_active a k \<ge> c_per_key_active cfg)
       then False
     else t_cls t \<notin> set SHARED \<or> (\<Sum>c\<leftarrow>SHARED. a_active a c) < c_shared_places cfg)"

definition bump :: "'k option \<Rightarrow> int \<Rightarrow> ('k \<Rightarrow> int) \<Rightarrow> ('k \<Rightarrow> int)" where
  "bump ow n f = (case ow of None \<Rightarrow> f | Some k \<Rightarrow> f(k := f k + n))"

definition activate :: "ticket \<Rightarrow> admission \<Rightarrow> admission" where
  "activate t a = grant t
     (a\<lparr>a_active := (a_active a)(t_cls t := a_active a (t_cls t) + 1),
        a_owner_active := bump (t_owner t) 1 (a_owner_active a)\<rparr>)"

definition adm_enter :: "config \<Rightarrow> cls \<Rightarrow> key option \<Rightarrow> admission \<Rightarrow> (ticket \<times> admission) result" where
  "adm_enter cfg c ow a =
    (let (t, a1) = new_ticket c ow a
     in if has_room cfg a1 t then Inr (t, activate t a1)
        else if line_counts (d_line a1) c \<ge> cl_waiting (c_limits cfg c) \<or>
            (case ow of None \<Rightarrow> False | Some k \<Rightarrow> a_owner_waiting a1 k \<ge> c_per_key_waiting cfg)
          then Inl Queue_full
        else Inr (t, a1\<lparr>d_line := line_add t (d_line a1),
                        a_owner_waiting := bump ow 1 (a_owner_waiting a1)\<rparr>))"

text \<open>The body of the loop of \<^verbatim>\<open>_dispatch\<close>, then the loop.\<close>

definition hand :: "ticket \<Rightarrow> admission \<Rightarrow> admission option" where
  "hand t a = (case line_remove t (d_line a) of None \<Rightarrow> None
     | Some q \<Rightarrow> Some (activate t
         (a\<lparr>d_line := q, a_owner_waiting := bump (t_owner t) (-1) (a_owner_waiting a)\<rparr>)))"

lemma hand_shrinks:
  "hand t a = Some a' \<Longrightarrow> length (in_order (d_line a')) < length (in_order (d_line a))"
  by (auto simp: hand_def activate_def grant_def split: option.splits dest: line_remove_length)

function adm_dispatch :: "config \<Rightarrow> admission \<Rightarrow> admission option" where
  "adm_dispatch cfg a =
    (case find (has_room cfg a) (in_order (d_line a)) of None \<Rightarrow> Some a
     | Some t \<Rightarrow> (case hand t a of None \<Rightarrow> None | Some a' \<Rightarrow> adm_dispatch cfg a'))"
  by pat_completeness auto
termination
  by (relation "measure (\<lambda>(cfg, a). length (in_order (d_line a)))") (auto dest: hand_shrinks)

declare adm_dispatch.simps [simp del]

definition adm_leave :: "config \<Rightarrow> ticket \<Rightarrow> admission \<Rightarrow> admission option" where
  "adm_leave cfg t a =
    (if d_state a t = Left then Some a
     else case (if waiting a t
         then (case line_remove t (d_line a) of None \<Rightarrow> None
           | Some q \<Rightarrow> Some (a\<lparr>d_line := q,
               a_owner_waiting := bump (t_owner t) (-1) (a_owner_waiting a)\<rparr>))
         else Some (a\<lparr>a_active := (a_active a)(t_cls t := a_active a (t_cls t) - 1),
               a_owner_active := bump (t_owner t) (-1) (a_owner_active a)\<rparr>))
       of None \<Rightarrow> None
        | Some a1 \<Rightarrow> adm_dispatch cfg (a1\<lparr>d_state := (d_state a1)(t := Left)\<rparr>))"

definition adm_active_counts :: "admission \<Rightarrow> (cls \<times> int) list" where
  "adm_active_counts a = map (\<lambda>c. (c, a_active a c)) CLASSES"

definition adm_waiting_counts :: "admission \<Rightarrow> (cls \<times> int) list" where
  "adm_waiting_counts a = map (\<lambda>c. (c, line_counts (d_line a) c)) CLASSES"

subsection \<open>The specification of a hand-over\<close>

definition before :: "ticket \<Rightarrow> ticket \<Rightarrow> bool" where
  "before t u \<longleftrightarrow> t_cls t < t_cls u \<or> t_cls t = t_cls u \<and> t_id t < t_id u"

inductive hand_over :: "config \<Rightarrow> admission \<Rightarrow> ticket \<Rightarrow> admission \<Rightarrow> bool" where
  hand_over: "waiting a t \<Longrightarrow> has_room cfg a t \<Longrightarrow>
    (\<And>u. waiting a u \<Longrightarrow> has_room cfg a u \<Longrightarrow> u = t \<or> before t u) \<Longrightarrow>
    hand t a = Some a' \<Longrightarrow> hand_over cfg a t a'"

inductive hand_overs :: "config \<Rightarrow> admission \<Rightarrow> ticket list \<Rightarrow> admission \<Rightarrow> bool" where
  none: "hand_overs cfg a [] a"
| more: "hand_over cfg a t a1 \<Longrightarrow> hand_overs cfg a1 ts a' \<Longrightarrow> hand_overs cfg a (t # ts) a'"

inductive_cases hand_overE: "hand_over cfg a t a'"
inductive_simps hand_overs_Nil: "hand_overs cfg a [] a'"
inductive_simps hand_overs_Cons: "hand_overs cfg a (t # ts) a'"

subsection \<open>The invariant\<close>

definition by_cls :: "cls \<Rightarrow> ticket \<Rightarrow> bool" where
  "by_cls c t \<longleftrightarrow> t_cls t = c"

definition by_owner :: "key \<Rightarrow> ticket \<Rightarrow> bool" where
  "by_owner k t \<longleftrightarrow> t_owner t = Some k"

definition counts_ok :: "admission \<Rightarrow> bool" where
  "counts_ok a \<longleftrightarrow>
     (\<forall>c. a_active a c = tally a Active (by_cls c)) \<and>
     (\<forall>k. a_owner_active a k = tally a Active (by_owner k)) \<and>
     (\<forall>k. a_owner_waiting a k = tally a Waiting (by_owner k))"

definition caps_ok :: "config \<Rightarrow> admission \<Rightarrow> bool" where
  "caps_ok cfg a \<longleftrightarrow>
     (\<forall>c. a_active a c \<le> cl_active (c_limits cfg c)) \<and>
     (\<forall>c. line_counts (d_line a) c \<le> cl_waiting (c_limits cfg c)) \<and>
     (\<forall>k. a_owner_active a k \<le> c_per_key_active cfg) \<and>
     (\<forall>k. a_owner_waiting a k \<le> c_per_key_waiting cfg) \<and>
     (\<Sum>c\<leftarrow>SHARED. a_active a c) \<le> c_shared_places cfg"

definition no_room_left :: "config \<Rightarrow> admission \<Rightarrow> bool" where
  "no_room_left cfg a \<longleftrightarrow> (\<forall>t. waiting a t \<longrightarrow> \<not> has_room cfg a t)"

definition adm_inv0 :: "config \<Rightarrow> admission \<Rightarrow> bool" where
  "adm_inv0 cfg a \<longleftrightarrow> desk_inv a \<and> counts_ok a \<and> caps_ok cfg a"

definition adm_inv :: "config \<Rightarrow> admission \<Rightarrow> bool" where
  "adm_inv cfg a \<longleftrightarrow> adm_inv0 cfg a \<and> no_room_left cfg a"

subsection \<open>The counters count the tickets\<close>

definition delta :: "tstate \<Rightarrow> tstate \<Rightarrow> tstate \<Rightarrow> int" where
  "delta s from to = (if to = s then 1 else 0) - (if from = s then 1 else 0)"

lemma bump_None [simp]: "bump None n f = f"
  by (simp add: bump_def)

lemma bump_Some [simp]: "bump (Some k) n f = f(k := f k + n)"
  by (simp add: bump_def)

lemma bump_zero [simp]: "bump ow 0 f = f"
  by (cases ow) auto

lemma bump_apply: "bump ow n f k = f k + (if ow = Some k then n else 0)"
  by (cases ow) auto

lemma counts_step:
  assumes fin: "finite (present a)" and ok: "counts_ok a"
    and st: "d_state a' = (d_state a)(t := s')"
    and ac: "a_active a' = (a_active a)(t_cls t := a_active a (t_cls t) + delta Active (d_state a t) s')"
    and oa: "a_owner_active a' = bump (t_owner t) (delta Active (d_state a t) s') (a_owner_active a)"
    and ow: "a_owner_waiting a' = bump (t_owner t) (delta Waiting (d_state a t) s') (a_owner_waiting a)"
  shows "counts_ok a'"
proof -
  have tal: "tally a' s P = tally a s P + (if P t then delta s (d_state a t) s' else 0)"
    if "s \<noteq> Left" for s P
    using tally_upd [OF fin that st, of P] by (simp add: delta_def)
  from ok show ?thesis
    by (auto simp: counts_ok_def ac oa ow tal by_cls_def by_owner_def bump_apply)
qed

lemma activate_simps [adm_simps]:
  "d_state (activate t a) = (d_state a)(t := Active)"
  "d_line (activate t a) = d_line a" "d_next (activate t a) = d_next a"
  "a_active (activate t a) = (a_active a)(t_cls t := a_active a (t_cls t) + 1)"
  "a_owner_active (activate t a) = bump (t_owner t) 1 (a_owner_active a)"
  "a_owner_waiting (activate t a) = a_owner_waiting a"
  by (simp_all add: activate_def grant_def)

lemma new_ticket_simps [adm_simps]:
  assumes "new_ticket c ow a = (t, a1)"
  shows "d_state a1 = (d_state a)(t := Waiting)" "d_line a1 = d_line a" "d_next a1 = Suc (d_next a)"
    "t = \<lparr>t_id = d_next a, t_cls = c, t_owner = ow\<rparr>"
  using assms by (auto simp: new_ticket_def Let_def)

lemma new_ticket_counters [adm_simps]:
  assumes "new_ticket c ow (a :: admission) = (t, a1)"
  shows "a_active a1 = a_active a" "a_owner_active a1 = a_owner_active a"
    "a_owner_waiting a1 = a_owner_waiting a"
  using assms by (auto simp: new_ticket_def Let_def)

lemma has_room_cong:
  "a_active a = a_active a' \<Longrightarrow> a_owner_active a = a_owner_active a' \<Longrightarrow>
   has_room cfg a t = has_room cfg a' t"
  by (simp add: has_room_def split: option.split)

text \<open>Room depends on the class and the owner alone, and taking a place leaves no more of it.\<close>

lemma has_room_same:
  "t_cls t = t_cls u \<Longrightarrow> t_owner t = t_owner u \<Longrightarrow> has_room cfg a t = has_room cfg a u"
  by (simp add: has_room_def)

lemma sum_shared_upd:
  "(\<Sum>c\<leftarrow>SHARED. (f(k := f k + n)) c) = (\<Sum>c\<leftarrow>SHARED. f c) + (if k = Reader then 0 else (n :: int))"
  by (cases k) (simp_all add: SHARED_def)

lemma has_room_mono:
  assumes room: "has_room cfg a' u"
    and ac: "\<And>c. a_active a c \<le> a_active a' c" and oa: "\<And>k. a_owner_active a k \<le> a_owner_active a' k"
  shows "has_room cfg a u"
proof -
  have "(\<Sum>c\<leftarrow>SHARED. a_active a c) \<le> (\<Sum>c\<leftarrow>SHARED. a_active a' c)"
    by (rule sum_list_mono) (rule ac)
  with room ac [of "t_cls u"] oa show ?thesis
    by (auto simp: has_room_def split: if_splits option.splits) (meson dual_order.trans not_le)+
qed

lemma has_room_activate: "has_room cfg (activate t a) u \<Longrightarrow> has_room cfg a u"
  by (erule has_room_mono) (auto simp: adm_simps bump_apply)

lemma caps_activate:
  assumes "has_room cfg a t" and "caps_ok cfg a" and "a_active a' = (a_active a)(t_cls t := a_active a (t_cls t) + 1)"
    and "a_owner_active a' = bump (t_owner t) 1 (a_owner_active a)"
    and "\<And>c. line_counts (d_line a') c \<le> line_counts (d_line a) c"
    and "\<And>k. a_owner_waiting a' k \<le> a_owner_waiting a k"
  shows "caps_ok cfg a'"
proof -
  have room: "a_active a (t_cls t) < cl_active (c_limits cfg (t_cls t))"
    "t_owner t = Some k \<Longrightarrow> a_owner_active a k < c_per_key_active cfg"
    "t_cls t = Reader \<or> (\<Sum>c\<leftarrow>SHARED. a_active a c) < c_shared_places cfg" for k
    using assms(1) by (auto simp: has_room_def in_SHARED_iff split: if_splits)
  have "(\<Sum>c\<leftarrow>SHARED. a_active a' c) \<le> c_shared_places cfg"
    using room(3) assms(2) by (auto simp: assms(3) sum_shared_upd caps_ok_def simp del: fun_upd_apply)
  moreover have "line_counts (d_line a') c \<le> cl_waiting (c_limits cfg c)" for c
    using assms(2,5) by (meson caps_ok_def order_trans)
  moreover have "a_owner_waiting a' k \<le> c_per_key_waiting cfg" for k
    using assms(2,6) by (meson caps_ok_def order_trans)
  moreover have "a_owner_active a' k \<le> c_per_key_active cfg" for k
    using room(2) [of k] assms(2) by (auto simp: assms(4) bump_apply caps_ok_def)
  moreover have "a_active a' c \<le> cl_active (c_limits cfg c)" for c
    using room(1) assms(2) by (auto simp: assms(3) caps_ok_def)
  ultimately show ?thesis by (simp add: caps_ok_def)
qed

lemma caps_shrink:
  assumes "caps_ok cfg a" and ac: "\<And>c. a_active a' c \<le> a_active a c"
    and "\<And>k. a_owner_active a' k \<le> a_owner_active a k"
    and "\<And>c. line_counts (d_line a') c \<le> line_counts (d_line a) c"
    and "\<And>k. a_owner_waiting a' k \<le> a_owner_waiting a k"
  shows "caps_ok cfg a'"
proof -
  have "(\<Sum>c\<leftarrow>SHARED. a_active a' c) \<le> (\<Sum>c\<leftarrow>SHARED. a_active a c)"
    by (rule sum_list_mono) (rule ac)
  with assms show ?thesis unfolding caps_ok_def by (meson order_trans)
qed

subsection \<open>Handing over\<close>

lemma hand_eq:
  "desk_inv a \<Longrightarrow> waiting a t \<Longrightarrow>
   hand t a = Some (activate t
     (a\<lparr>d_line := (d_line a)(t_cls t := remove1 t (d_line a (t_cls t))),
        a_owner_waiting := bump (t_owner t) (-1) (a_owner_waiting a)\<rparr>))"
  by (simp add: hand_def line_remove_waiting waiting_def)

lemma line_counts_remove1: "line_counts (q(k := remove1 t (q k))) c \<le> line_counts q c"
  by (simp add: line_counts_def length_remove1)

lemma hand_inv0:
  assumes inv: "adm_inv0 cfg a" and w: "waiting a t" and room: "has_room cfg a t"
    and h: "hand t a = Some a'"
  shows "adm_inv0 cfg a'" and "d_state a' = (d_state a)(t := Active)"
proof -
  note d = inv [unfolded adm_inv0_def, THEN conjunct1]
  from h hand_eq [OF d w] have a': "a' = activate t
     (a\<lparr>d_line := (d_line a)(t_cls t := remove1 t (d_line a (t_cls t))),
        a_owner_waiting := bump (t_owner t) (-1) (a_owner_waiting a)\<rparr>)" by simp
  show st: "d_state a' = (d_state a)(t := Active)" by (simp add: a' adm_simps)
  have "desk_inv a'"
    by (rule desk_inv_take [OF d, of t Active]) (use w in \<open>simp_all add: a' adm_simps waiting_def\<close>)
  moreover have "counts_ok a'"
    by (rule counts_step [of a _ t Active])
      (use inv w in \<open>simp_all add: a' adm_simps waiting_def delta_def adm_inv0_def desk_inv_fin\<close>)
  moreover have "caps_ok cfg a'"
    by (rule caps_activate [OF room])
      (use inv in \<open>simp_all add: a' adm_simps adm_inv0_def line_counts_remove1 bump_apply\<close>)
  ultimately show "adm_inv0 cfg a'" by (simp add: adm_inv0_def)
qed

lemma before_in_order: "desk_inv a \<Longrightarrow> sorted_wrt before (in_order (d_line a))"
proof -
  assume d: "desk_inv a"
  have one: "sorted_wrt before (d_line a c)" for c
  proof (rule sorted_wrt_mono_rel [of "d_line a c" "\<lambda>x y. t_id x < t_id y"])
    show "sorted_wrt (\<lambda>x y. t_id x < t_id y) (d_line a c)" using d by (simp add: desk_inv_def)
  qed (auto simp: before_def desk_inv_line [OF d])
  have two: "\<forall>x \<in> set (d_line a c). \<forall>y \<in> set (d_line a k). before x y" if "c < k" for c k
    using that by (auto simp: before_def desk_inv_line [OF d])
  show ?thesis
    by (simp add: in_order_def CLASSES_def sorted_wrt_append one)
      (auto simp: less_cls_def dest: two [THEN bspec, THEN bspec, rotated 1])
qed

lemma find_hands_over:
  assumes inv: "adm_inv0 cfg a" and f: "find (has_room cfg a) (in_order (d_line a)) = Some t"
  shows "\<exists>a'. hand t a = Some a' \<and> hand_over cfg a t a'"
proof -
  note d = inv [unfolded adm_inv0_def, THEN conjunct1]
  from find_SomeD [OF f] have w: "waiting a t" and r: "has_room cfg a t"
    by (auto simp: desk_inv_in_order [OF d] waiting_def)
  from find_Some_split [OF f] obtain us vs where
    split: "in_order (d_line a) = us @ t # vs" and no: "\<forall>u \<in> set us. \<not> has_room cfg a u" by blast
  have "u = t \<or> before t u" if "waiting a u" and "has_room cfg a u" for u
  proof -
    from that(1) have "u \<in> set (us @ t # vs)"
      using desk_inv_in_order [OF d, of u] by (simp add: split waiting_def)
    with that(2) no have "u = t \<or> u \<in> set vs" by auto
    with before_in_order [OF d] show ?thesis by (auto simp: split sorted_wrt_append)
  qed
  with w r hand_eq [OF d w] show ?thesis by (auto intro: hand_over.hand_over)
qed

text \<open>\<open>adm_dispatch\<close> implements the specification: it hands over until no ticket has room.\<close>

lemma dispatch_hands_over:
  "adm_inv0 cfg a \<Longrightarrow>
   \<exists>ts a'. adm_dispatch cfg a = Some a' \<and> hand_overs cfg a ts a' \<and> adm_inv cfg a'"
proof (induction cfg a rule: adm_dispatch.induct)
  case (1 cfg a)
  note d = "1.prems" [unfolded adm_inv0_def, THEN conjunct1]
  show ?case
  proof (cases "find (has_room cfg a) (in_order (d_line a))")
    case None
    then have "no_room_left cfg a"
      using desk_inv_in_order [OF d] by (auto simp: no_room_left_def waiting_def find_None_all)
    with "1.prems" None show ?thesis
      by (intro exI [of _ "[]"] exI [of _ a])
        (simp add: adm_dispatch.simps [of cfg a] hand_overs.none adm_inv_def)
  next
    case (Some t)
    with "1.prems" obtain a1 where h: "hand t a = Some a1" and ho: "hand_over cfg a t a1"
      using find_hands_over by blast
    then have "adm_inv0 cfg a1" by (auto elim!: hand_overE dest: hand_inv0 [OF "1.prems"])
    with "1.IH" [OF Some h] obtain ts a' where
      "adm_dispatch cfg a1 = Some a'" "hand_overs cfg a1 ts a'" "adm_inv cfg a'" by blast
    with Some h ho show ?thesis
      by (intro exI [of _ "t # ts"] exI [of _ a'])
        (simp add: adm_dispatch.simps [of cfg a] hand_overs.more)
  qed
qed

lemma hand_overs_state:
  assumes "hand_overs cfg a ts a'" and "adm_inv0 cfg a"
  shows "d_state a' = (\<lambda>u. if u \<in> set ts then Active else d_state a u)"
    and "\<And>u. u \<in> set ts \<Longrightarrow> waiting a u"
  using assms
proof (induction rule: hand_overs.induct)
  case (none cfg a)
  { case 1 then show ?case by simp }
  { case 2 then show ?case by simp }
next
  case (more cfg a t a1 ts a')
  from more.hyps(1) have w: "waiting a t" and h: "hand t a = Some a1" and r: "has_room cfg a t"
    by (auto elim: hand_overE)
  { case 1
    from hand_inv0 [OF 1 w r h] more.IH(1) show ?case by auto }
  { case 2
    from hand_inv0 [OF 2(2) w r h] more.IH(2) [of u] 2(1) w show ?case
      by (auto simp: waiting_def split: if_splits) }
qed

lemma hand_overs_fifo:
  assumes "hand_overs cfg a ts a'" and "adm_inv0 cfg a"
    and "waiting a u" and "t_cls u = t_cls v" and "t_owner u = t_owner v" and "t_id u < t_id v"
    and "v \<in> set ts"
  shows "u \<in> set ts"
  using assms
proof (induction rule: hand_overs.induct)
  case (none cfg a)
  then show ?case by simp
next
  case (more cfg a t a1 ts a')
  from more.hyps(1) have w: "waiting a t" and h: "hand t a = Some a1" and r: "has_room cfg a t"
    and least: "\<And>x. waiting a x \<Longrightarrow> has_room cfg a x \<Longrightarrow> x = t \<or> before t x"
    by (auto elim: hand_overE)
  show ?case
  proof (cases "u = t")
    case True
    then show ?thesis by simp
  next
    case False
    have "v \<noteq> t"
    proof
      assume "v = t"
      with r more.prems(3,4) have "has_room cfg a u" by (simp add: has_room_same [of u v])
      with least [OF more.prems(2)] False have "before t u" by simp
      with \<open>v = t\<close> more.prems(3,5) show False by (simp add: before_def)
    qed
    with more.prems(6) have "v \<in> set ts" by simp
    moreover have "waiting a1 u"
      using hand_inv0(2) [OF more.prems(1) w r h] False more.prems(2) by (simp add: waiting_def)
    ultimately show ?thesis
      using more.IH hand_inv0(1) [OF more.prems(1) w r h] more.prems(3,4,5) by simp
  qed
qed

subsection \<open>Entering and leaving\<close>

lemma adm_inv_desk: "adm_inv cfg a \<Longrightarrow> desk_inv a"
  by (simp add: adm_inv_def adm_inv0_def)

lemma adm_init_inv: "limits_ok cfg \<Longrightarrow> adm_inv cfg adm_init"
  by (simp add: adm_inv_def adm_inv0_def desk_inv_def counts_ok_def caps_ok_def no_room_left_def
      adm_init_def present_def tally_def empty_line_def line_counts_def waiting_def SHARED_def
      limits_ok_nonneg)

lemma adm_enter_active:
  assumes inv: "adm_inv cfg a" and nt: "new_ticket c ow a = (t, a1)" and room: "has_room cfg a1 t"
  shows "adm_inv cfg (activate t a1)"
proof -
  note d = adm_inv_desk [OF inv]
  have t: "t_cls t = c" "t_owner t = ow" by (simp_all add: new_ticket_simps [OF nt])
  have fresh: "d_state a t = Left" using desk_inv_fresh [OF d] new_ticket_simps(4) [OF nt] by simp
  have room': "has_room cfg a t"
    using room has_room_cong [of a a1] by (simp add: new_ticket_counters [OF nt])
  have "desk_inv (activate t a1)"
    by (rule desk_inv_new_active [OF d nt]) (simp_all add: adm_simps new_ticket_simps(2) [OF nt])
  moreover have "counts_ok (activate t a1)"
    by (rule counts_step [OF desk_inv_fin [OF d], of _ t Active])
      (use inv fresh in \<open>simp_all add: adm_simps new_ticket_simps(1) [OF nt]
        new_ticket_counters [OF nt] delta_def adm_inv_def adm_inv0_def\<close>)
  moreover have "caps_ok cfg (activate t a1)"
    by (rule caps_activate [OF room'])
      (use inv in \<open>simp_all add: adm_simps new_ticket_simps(2) [OF nt]
        new_ticket_counters [OF nt] adm_inv_def adm_inv0_def\<close>)
  moreover have "\<not> has_room cfg (activate t a1) u" if "waiting (activate t a1) u" for u
  proof
    assume "has_room cfg (activate t a1) u"
    then have "has_room cfg a u"
      using has_room_activate has_room_cong [of a a1] by (simp add: new_ticket_counters [OF nt])
    moreover from that have "waiting a u"
      by (auto simp: waiting_def adm_simps new_ticket_simps(1) [OF nt] split: if_splits)
    ultimately show False using inv by (simp add: adm_inv_def no_room_left_def)
  qed
  ultimately show ?thesis by (simp add: adm_inv_def adm_inv0_def no_room_left_def)
qed

lemma adm_enter_waiting:
  assumes inv: "adm_inv cfg a" and nt: "new_ticket c ow a = (t, a1)" and room: "\<not> has_room cfg a1 t"
    and place: "line_counts (d_line a1) c < cl_waiting (c_limits cfg c)"
    and own: "\<And>k. ow = Some k \<Longrightarrow> a_owner_waiting a1 k < c_per_key_waiting cfg"
    and a': "a' = a1\<lparr>d_line := line_add t (d_line a1), a_owner_waiting := bump ow 1 (a_owner_waiting a1)\<rparr>"
  shows "adm_inv cfg a'"
proof -
  note d = adm_inv_desk [OF inv]
  note nts = new_ticket_simps(1-3) [OF nt] new_ticket_counters [OF nt]
  have t: "t_cls t = c" "t_owner t = ow" by (simp_all add: new_ticket_simps [OF nt])
  have fresh: "d_state a t = Left" using desk_inv_fresh [OF d] new_ticket_simps(4) [OF nt] by simp
  have "desk_inv a'"
    by (rule desk_inv_add [OF d nt]) (simp_all add: a' nts)
  moreover have "counts_ok a'"
    by (rule counts_step [OF desk_inv_fin [OF d], of _ t Waiting])
      (use inv fresh t in \<open>simp_all add: a' nts delta_def adm_inv_def adm_inv0_def\<close>)
  moreover have "caps_ok cfg a'"
    using inv place own t
    by (fastforce simp: a' nts caps_ok_def adm_inv_def adm_inv0_def line_add_def line_counts_def
        bump_apply)
  moreover have "\<not> has_room cfg a' u" if "waiting a' u" for u
  proof (cases "u = t")
    case True
    with room show ?thesis using has_room_cong [of a1 a'] by (simp add: a')
  next
    case False
    with that have "waiting a u" by (simp add: a' nts waiting_def)
    then show ?thesis
      using inv has_room_cong [of a a'] by (simp add: adm_inv_def no_room_left_def a' nts)
  qed
  ultimately show ?thesis by (simp add: adm_inv_def adm_inv0_def no_room_left_def)
qed

lemma adm_enter_cases:
  assumes inv: "adm_inv cfg a" and e: "adm_enter cfg c ow a = Inr (t, a')"
  shows "adm_inv cfg a'" and "d_state a t = Left" and "t_cls t = c" and "t_owner t = ow"
    and "d_state a' = (d_state a)(t := if has_room cfg a t then Active else Waiting)"
proof -
  obtain t' a1 where nt: "new_ticket c ow a = (t', a1)" by (cases "new_ticket c ow a") auto
  with e have [simp]: "t' = t" by (auto simp: adm_enter_def split: if_splits)
  note nts = new_ticket_simps [OF nt] new_ticket_counters [OF nt]
  have room: "has_room cfg a1 t = has_room cfg a t" by (rule has_room_cong) (simp_all add: nts)
  show "t_cls t = c" and "t_owner t = ow" using nts(4) by simp_all
  show "d_state a t = Left" using desk_inv_fresh [OF adm_inv_desk [OF inv]] nts(4) by simp
  show "adm_inv cfg a'"
  proof (cases "has_room cfg a1 t")
    case True
    with e nt show ?thesis using adm_enter_active [OF inv nt] by (auto simp: adm_enter_def)
  next
    case False
    with e nt show ?thesis
      by (intro adm_enter_waiting [OF inv nt]) (auto simp: adm_enter_def split: if_splits)
  qed
  show "d_state a' = (d_state a)(t := if has_room cfg a t then Active else Waiting)"
    using e nt room
    by (auto simp: adm_enter_def adm_simps nts(1) fun_eq_iff split: if_splits)
qed

lemma adm_enter_refuses: "adm_enter cfg c ow a = Inl e \<Longrightarrow> e = Queue_full"
  by (auto simp: adm_enter_def split: if_splits prod.splits)

text \<open>Leaving takes the ticket out and then hands over.\<close>

lemma adm_leave_hands_over:
  assumes inv: "adm_inv cfg a" and t: "d_state a t \<noteq> Left"
  shows "\<exists>a1 ts a'. adm_leave cfg t a = Some a' \<and> adm_inv0 cfg a1 \<and>
    d_state a1 = (d_state a)(t := Left) \<and> hand_overs cfg a1 ts a' \<and> adm_inv cfg a'"
proof -
  note d = adm_inv_desk [OF inv]
  show ?thesis
  proof (cases "waiting a t")
    case True
    let ?a1 = "a\<lparr>d_line := (d_line a)(t_cls t := remove1 t (d_line a (t_cls t))),
      a_owner_waiting := bump (t_owner t) (-1) (a_owner_waiting a), d_state := (d_state a)(t := Left)\<rparr>"
    have "desk_inv ?a1"
      by (rule desk_inv_take [OF d, of t Left]) (use True in \<open>simp_all add: waiting_def\<close>)
    moreover have "counts_ok ?a1"
      by (rule counts_step [OF desk_inv_fin [OF d], of _ t Left])
        (use inv True in \<open>simp_all add: waiting_def delta_def adm_inv_def adm_inv0_def\<close>)
    moreover have "caps_ok cfg ?a1"
      by (rule caps_shrink [of cfg a])
        (use inv in \<open>simp_all add: line_counts_remove1 bump_apply adm_inv_def adm_inv0_def\<close>)
    ultimately have i: "adm_inv0 cfg ?a1" by (simp add: adm_inv0_def)
    have "adm_leave cfg t a = adm_dispatch cfg ?a1"
      using True t line_remove_waiting [OF d, of t] by (simp add: adm_leave_def waiting_def)
    with dispatch_hands_over [OF i] i show ?thesis by (intro exI [of _ ?a1]) auto
  next
    case False
    with t have act: "d_state a t = Active" by (cases "d_state a t") (auto simp: waiting_def)
    let ?a1 = "a\<lparr>a_active := (a_active a)(t_cls t := a_active a (t_cls t) - 1),
      a_owner_active := bump (t_owner t) (-1) (a_owner_active a), d_state := (d_state a)(t := Left)\<rparr>"
    have "desk_inv ?a1"
      by (rule desk_inv_drop [OF d, of t]) (use False in \<open>simp_all add: waiting_def\<close>)
    moreover have "counts_ok ?a1"
      by (rule counts_step [OF desk_inv_fin [OF d], of _ t Left])
        (use inv act in \<open>simp_all add: delta_def adm_inv_def adm_inv0_def\<close>)
    moreover have "caps_ok cfg ?a1"
      by (rule caps_shrink [of cfg a])
        (use inv in \<open>simp_all add: bump_apply adm_inv_def adm_inv0_def\<close>)
    ultimately have i: "adm_inv0 cfg ?a1" by (simp add: adm_inv0_def)
    have "adm_leave cfg t a = adm_dispatch cfg ?a1"
      using False act by (simp add: adm_leave_def)
    with dispatch_hands_over [OF i] i show ?thesis by (intro exI [of _ ?a1]) auto
  qed
qed

lemma adm_leave_again: "d_state a t = Left \<Longrightarrow> adm_leave cfg t a = Some a"
  by (simp add: adm_leave_def)

lemma adm_leave_state:
  assumes inv: "adm_inv cfg a" and l: "adm_leave cfg t a = Some a'"
  shows "adm_inv cfg a'" and "d_state a' t = Left"
    and "\<And>u. u \<noteq> t \<Longrightarrow> d_state a' u = d_state a u \<or> d_state a u = Waiting \<and> d_state a' u = Active"
proof -
  have "adm_inv cfg a' \<and> d_state a' t = Left \<and>
    (\<forall>u. u \<noteq> t \<longrightarrow> d_state a' u = d_state a u \<or> d_state a u = Waiting \<and> d_state a' u = Active)"
  proof (cases "d_state a t = Left")
    case True
    with l inv show ?thesis by (simp add: adm_leave_again)
  next
    case False
    from adm_leave_hands_over [OF inv this] l obtain a1 ts where
      i: "adm_inv0 cfg a1" and s: "d_state a1 = (d_state a)(t := Left)"
      and h: "hand_overs cfg a1 ts a'" and i': "adm_inv cfg a'" by auto
    have "t \<notin> set ts"
    proof
      assume "t \<in> set ts"
      from hand_overs_state(2) [OF h i this] show False by (simp add: s waiting_def)
    qed
    moreover have "u = t \<or> d_state a u = Waiting" if "u \<in> set ts" for u
      using hand_overs_state(2) [OF h i that] by (auto simp: s waiting_def split: if_splits)
    ultimately show ?thesis using hand_overs_state(1) [OF h i] s i' by auto
  qed
  then show "adm_inv cfg a'" and "d_state a' t = Left"
    and "\<And>u. u \<noteq> t \<Longrightarrow> d_state a' u = d_state a u \<or> d_state a u = Waiting \<and> d_state a' u = Active"
    by auto
qed

text \<open>
  Requests of one class and one owner are served in the order of their arrival: while an earlier one
  waits, no later one is active.
\<close>

definition in_turn :: "admission \<Rightarrow> bool" where
  "in_turn a \<longleftrightarrow> (\<forall>u v. waiting a u \<and> active a v \<and> t_cls u = t_cls v \<and> t_owner u = t_owner v \<longrightarrow>
     t_id v < t_id u)"

lemma adm_enter_in_turn:
  assumes inv: "adm_inv cfg a" and turn: "in_turn a" and e: "adm_enter cfg c ow a = Inr (t, a')"
  shows "in_turn a'"
  unfolding in_turn_def
proof (intro allI impI)
  fix u v
  assume uv: "waiting a' u \<and> active a' v \<and> t_cls u = t_cls v \<and> t_owner u = t_owner v"
  note st = adm_enter_cases [OF inv e]
  have t: "t_id t = d_next a"
    using e by (auto simp: adm_enter_def new_ticket_def Let_def split: if_splits)
  consider (old) "u \<noteq> t" "v \<noteq> t" | (taken) "v = t" "u \<noteq> t" | (queued) "u = t" "v \<noteq> t"
    using uv by (cases "u = t"; cases "v = t") (auto simp: waiting_def active_def)
  then show "t_id v < t_id u"
  proof cases
    case old
    with uv turn show ?thesis by (auto simp: st(5) in_turn_def waiting_def active_def)
  next
    case taken
    with uv have "has_room cfg a t" "waiting a u"
      by (auto simp: st(5) waiting_def active_def split: if_splits)
    with uv taken inv show ?thesis
      using has_room_same [of u t] by (auto simp: adm_inv_def no_room_left_def)
  next
    case queued
    with uv have "v \<in> present a" by (auto simp: st(5) active_def present_def)
    with queued t adm_inv_desk [OF inv] show ?thesis by (simp add: desk_inv_def)
  qed
qed

lemma adm_leave_in_turn:
  assumes inv: "adm_inv cfg a" and turn: "in_turn a" and l: "adm_leave cfg t a = Some a'"
  shows "in_turn a'"
proof (cases "d_state a t = Left")
  case True
  with l turn show ?thesis by (simp add: adm_leave_again)
next
  case False
  from adm_leave_hands_over [OF inv this] l obtain a1 ts where
    i: "adm_inv0 cfg a1" and s: "d_state a1 = (d_state a)(t := Left)" and h: "hand_overs cfg a1 ts a'"
    by auto
  note st = hand_overs_state [OF h i]
  show ?thesis
    unfolding in_turn_def
  proof (intro allI impI)
    fix u v
    assume uv: "waiting a' u \<and> active a' v \<and> t_cls u = t_cls v \<and> t_owner u = t_owner v"
    then have u: "u \<notin> set ts" "waiting a1 u" by (auto simp: waiting_def st(1) split: if_splits)
    show "t_id v < t_id u"
    proof (cases "v \<in> set ts")
      case True
      with u uv hand_overs_fifo [OF h i, of u v] have "\<not> t_id u < t_id v" by auto
      moreover have "t_id u \<noteq> t_id v"
      proof
        assume "t_id u = t_id v"
        moreover have "u \<in> present a1" "v \<in> present a1"
          using u st(2) [OF True] by (auto simp: present_def waiting_def)
        ultimately have "u = v"
          using i by (auto simp: adm_inv0_def desk_inv_def dest: inj_onD)
        with True u show False by simp
      qed
      ultimately show ?thesis by simp
    next
      case False
      with uv u s show ?thesis
        using turn by (auto simp: in_turn_def waiting_def active_def st(1) split: if_splits)
    qed
  qed
qed

definition adm_ok :: "config \<Rightarrow> admission \<Rightarrow> bool" where
  "adm_ok cfg a \<longleftrightarrow> adm_inv cfg a \<and> in_turn a"

lemma adm_init_ok: "limits_ok cfg \<Longrightarrow> adm_ok cfg adm_init"
  using adm_init_inv [of cfg] by (auto simp: adm_ok_def in_turn_def waiting_def adm_init_def)

interpretation adm: place_desk "adm_ok cfg" d_state "adm_enter cfg" "adm_leave cfg" for cfg
proof
  fix a c ow t a' u e
  assume ok: "adm_ok cfg a"
  then have inv: "adm_inv cfg a" and turn: "in_turn a" by (simp_all add: adm_ok_def)
  show "adm_enter cfg c ow a = Inr (t, a') \<Longrightarrow> adm_ok cfg a'"
    using adm_enter_cases(1) [OF inv] adm_enter_in_turn [OF inv turn] by (simp add: adm_ok_def)
  show "adm_enter cfg c ow a = Inr (t, a') \<Longrightarrow>
      d_state a t = Left \<and> d_state a' t \<noteq> Left \<and> t_cls t = c \<and> t_owner t = ow"
    using adm_enter_cases [OF inv, of c ow t a'] by simp
  show "adm_enter cfg c ow a = Inr (t, a') \<Longrightarrow> u \<noteq> t \<Longrightarrow> d_state a' u = d_state a u"
    using adm_enter_cases(5) [OF inv, of c ow t a'] by simp
  show "adm_enter cfg c ow a = Inl e \<Longrightarrow> e = Queue_full" by (rule adm_enter_refuses)
  show "\<exists>a'. adm_leave cfg t a = Some a'"
    using adm_leave_hands_over [OF inv, of t] by (cases "d_state a t = Left") (auto simp: adm_leave_again)
  show "adm_leave cfg t a = Some a' \<Longrightarrow> adm_ok cfg a'"
    using adm_leave_state(1) [OF inv] adm_leave_in_turn [OF inv turn] by (simp add: adm_ok_def)
  show "adm_leave cfg t a = Some a' \<Longrightarrow> d_state a' t = Left" by (rule adm_leave_state(2) [OF inv])
  show "adm_leave cfg t a = Some a' \<Longrightarrow> u \<noteq> t \<Longrightarrow>
      d_state a' u = d_state a u \<or> d_state a u = Waiting \<and> d_state a' u = Active"
    by (rule adm_leave_state(3) [OF inv])
  show "d_state a t = Left \<Longrightarrow> adm_leave cfg t a = Some a" by (rule adm_leave_again)
qed

subsection \<open>Properties\<close>

text \<open>A sample: three agents come, of which the class's one place takes the first.\<close>

definition sample_ops :: "desk_op list" where
  "sample_ops = [Enter_op Agent None, Enter_op Agent None, Enter_op External (Some sample_outside)]"

definition sample_ticket :: "nat \<Rightarrow> ticket" where
  "sample_ticket i = \<lparr>t_id = i, t_cls = Agent, t_owner = None\<rparr>"

definition sample_admission :: admission where
  "sample_admission =
    (case run_ops (adm_enter sample_config) (adm_leave sample_config) sample_ops adm_init of
       None \<Rightarrow> adm_init | Some a \<Rightarrow> a)"

lemma sample_admission_run:
  "run_ops (adm_enter sample_config) (adm_leave sample_config) sample_ops adm_init = Some sample_admission"
  and sample_admission_ok: "adm_ok sample_config sample_admission"
  using adm.run_inv [OF adm_init_ok [OF sample_limits_ok], of sample_ops]
  by (auto simp: sample_admission_def)

lemma sample_admission_states:
  "active sample_admission (sample_ticket 0)" "waiting sample_admission (sample_ticket 1)"
  by (simp_all add: sample_admission_def sample_ops_def sample_ticket_def adm_enter_def new_ticket_def
      has_room_def adm_init_def sample_simps SHARED_def activate_def grant_def line_counts_def
      empty_line_def line_add_def active_def waiting_def Let_def)

text \<open>
  C2: whatever sequence of entries and departures reaches the admission of a loaded configuration, no
  operation raises, every Active and Waiting cap of section 7 holds (by class, by outside key and
  for the shared places), the counters count exactly the tickets, and no waiting ticket is left
  with room for it.
\<close>
theorem admission_safe:
  assumes "limits_ok cfg"
  shows "\<exists>a. run_ops (adm_enter cfg) (adm_leave cfg) xs adm_init = Some a \<and>
    caps_ok cfg a \<and> counts_ok a \<and> no_room_left cfg a"
  using adm.run_inv [OF adm_init_ok [OF assms], of xs]
  by (auto simp: adm_ok_def adm_inv_def adm_inv0_def)

theorem admission_safe_witness:
  "\<exists>a. run_ops (adm_enter sample_config) (adm_leave sample_config) sample_ops adm_init = Some a \<and>
    caps_ok sample_config a \<and> counts_ok a \<and> no_room_left sample_config a"
  by (rule admission_safe) (rule sample_limits_ok)

text \<open>
  C6: when a ticket leaves, the code's loop of scans and removals implements the specification of
  section 7: the place is freed, then free places are handed over one at a time, each to the
  waiting ticket that is first by class and then by arrival among those that have room, until no
  waiting ticket has room. The loop ends and never raises.
\<close>
theorem leave_hands_over_in_order:
  assumes "adm_inv cfg a" and "d_state a t \<noteq> Left"
  shows "\<exists>a1 ts a'. adm_leave cfg t a = Some a' \<and> d_state a1 = (d_state a)(t := Left) \<and>
    hand_overs cfg a1 ts a' \<and> no_room_left cfg a' \<and> d_state a' = (\<lambda>u. if u \<in> set ts then Active else d_state a1 u)"
  using adm_leave_hands_over [OF assms] hand_overs_state(1) by (fastforce simp: adm_inv_def)

theorem leave_hands_over_in_order_witness:
  "\<exists>a1 ts a'. adm_leave sample_config (sample_ticket 0) sample_admission = Some a' \<and>
    d_state a1 = (d_state sample_admission)(sample_ticket 0 := Left) \<and>
    hand_overs sample_config a1 ts a' \<and> no_room_left sample_config a' \<and>
    d_state a' = (\<lambda>u. if u \<in> set ts then Active else d_state a1 u)"
  by (rule leave_hands_over_in_order)
    (use sample_admission_ok sample_admission_states in \<open>simp_all add: adm_ok_def active_def\<close>)

text \<open>
  no request is overtaken by a later one of the same class and the same outside key (or of ours,
  which have none): in every state that entries and departures reach, a ticket that is active while
  another of its class and owner waits has come before it.
\<close>
theorem no_overtaking:
  assumes "limits_ok cfg" and "run_ops (adm_enter cfg) (adm_leave cfg) xs adm_init = Some a"
    and "waiting a u" and "active a v" and "t_cls u = t_cls v" and "t_owner u = t_owner v"
  shows "t_id v < t_id u"
proof -
  from adm.run_inv [OF adm_init_ok [OF assms(1)], of xs] assms(2) have "in_turn a"
    by (auto simp: adm_ok_def)
  with assms(3-6) show ?thesis by (simp add: in_turn_def)
qed

theorem no_overtaking_witness: "t_id (sample_ticket 0) < t_id (sample_ticket 1)"
proof (rule no_overtaking [OF sample_limits_ok sample_admission_run])
  show "waiting sample_admission (sample_ticket 1)" and "active sample_admission (sample_ticket 0)"
    by (rule sample_admission_states)+
qed (simp_all add: sample_ticket_def)

end
