(* ===== verification/Count_Places.thy ===== *)
theory Count_Places
  imports Place_Desk
begin

text \<open>
  The class \<^verbatim>\<open>CountPlaces\<close> of \<^verbatim>\<open>simple_serving/admission.py\<close>: the places of counts (contract
  section 5), shared by all classes, where an outside key's cap counts its waiting counts too.
  As in the admission, \<open>None\<close> is the \<^verbatim>\<open>ValueError\<close> of a removal, which is never reached.
\<close>

record count_places = desk +
  p_running :: "cls \<Rightarrow> int"
  p_by_owner :: "key \<Rightarrow> int"

definition cp_init :: count_places where
  "cp_init = \<lparr>d_next = 0, d_state = (\<lambda>_. Left), d_granted = (\<lambda>_. Ungranted), d_line = empty_line,
     p_running = (\<lambda>_. 0), p_by_owner = (\<lambda>_. 0)\<rparr>"

definition running :: "count_places \<Rightarrow> int" where
  "running p = (\<Sum>c\<leftarrow>CLASSES. p_running p c)"

definition inc_owner :: "key option \<Rightarrow> int \<Rightarrow> count_places \<Rightarrow> count_places" where
  "inc_owner ow n p =
    (case ow of None \<Rightarrow> p | Some k \<Rightarrow> p\<lparr>p_by_owner := (p_by_owner p)(k := p_by_owner p k + n)\<rparr>)"

definition cp_enter :: "config \<Rightarrow> cls \<Rightarrow> key option \<Rightarrow> count_places \<Rightarrow> (ticket \<times> count_places) result" where
  "cp_enter cfg c ow p =
    (if (case ow of None \<Rightarrow> False | Some k \<Rightarrow> p_by_owner p k \<ge> c_count_per_outside_key cfg)
     then Inl Queue_full
     else let (t, p1) = new_ticket c ow p; p2 = inc_owner ow 1 p1
       in if running p2 < c_count_active cfg
          then Inr (t, grant t (p2\<lparr>p_running := (p_running p2)(c := p_running p2 c + 1)\<rparr>))
          else Inr (t, p2\<lparr>d_line := line_add t (d_line p2)\<rparr>))"

text \<open>The body of the loop of \<^verbatim>\<open>leave\<close>, then the loop.\<close>

definition cp_hand :: "ticket \<Rightarrow> count_places \<Rightarrow> count_places option" where
  "cp_hand t p = (case line_remove t (d_line p) of None \<Rightarrow> None
     | Some q \<Rightarrow> Some (grant t (p\<lparr>d_line := q,
         p_running := (p_running p)(t_cls t := p_running p (t_cls t) + 1)\<rparr>)))"

lemma cp_hand_shrinks:
  "cp_hand t p = Some p' \<Longrightarrow> length (in_order (d_line p')) < length (in_order (d_line p))"
  by (auto simp: cp_hand_def grant_def split: option.splits dest: line_remove_length)

function cp_fill :: "config \<Rightarrow> count_places \<Rightarrow> count_places option" where
  "cp_fill cfg p =
    (if running p < c_count_active cfg
     then (case in_order (d_line p) of [] \<Rightarrow> Some p
       | t # _ \<Rightarrow> (case cp_hand t p of None \<Rightarrow> None | Some p' \<Rightarrow> cp_fill cfg p'))
     else Some p)"
  by pat_completeness auto
termination
  by (relation "measure (\<lambda>(cfg, p). length (in_order (d_line p)))") (auto dest: cp_hand_shrinks)

declare cp_fill.simps [simp del]

definition cp_leave :: "config \<Rightarrow> ticket \<Rightarrow> count_places \<Rightarrow> count_places option" where
  "cp_leave cfg t p =
    (if d_state p t = Left then Some p
     else case (if waiting p t
         then (case line_remove t (d_line p) of None \<Rightarrow> None | Some q \<Rightarrow> Some (p\<lparr>d_line := q\<rparr>))
         else Some (p\<lparr>p_running := (p_running p)(t_cls t := p_running p (t_cls t) - 1)\<rparr>))
       of None \<Rightarrow> None
        | Some p1 \<Rightarrow>
            let p2 = inc_owner (t_owner t) (-1) p1
            in cp_fill cfg (p2\<lparr>d_state := (d_state p2)(t := Left)\<rparr>))"

definition cp_active_counts :: "count_places \<Rightarrow> (cls \<times> int) list" where
  "cp_active_counts p = map (\<lambda>c. (c, p_running p c)) CLASSES"

definition cp_waiting_counts :: "count_places \<Rightarrow> (cls \<times> int) list" where
  "cp_waiting_counts p = map (\<lambda>c. (c, line_counts (d_line p) c)) CLASSES"

definition cp_waiting :: "count_places \<Rightarrow> int" where
  "cp_waiting p = line_len (d_line p)"

subsection \<open>The invariant\<close>

definition cp_counts_ok :: "count_places \<Rightarrow> bool" where
  "cp_counts_ok p \<longleftrightarrow>
     (\<forall>c. p_running p c = tally p Active (\<lambda>t. t_cls t = c)) \<and>
     (\<forall>k. p_by_owner p k =
        tally p Active (\<lambda>t. t_owner t = Some k) + tally p Waiting (\<lambda>t. t_owner t = Some k))"

definition cp_caps_ok :: "config \<Rightarrow> count_places \<Rightarrow> bool" where
  "cp_caps_ok cfg p \<longleftrightarrow>
     running p \<le> c_count_active cfg \<and> (\<forall>k. p_by_owner p k \<le> c_count_per_outside_key cfg)"

text \<open>A count waits only while every place is taken.\<close>

definition cp_full :: "config \<Rightarrow> count_places \<Rightarrow> bool" where
  "cp_full cfg p \<longleftrightarrow> (\<forall>t. waiting p t \<longrightarrow> running p = c_count_active cfg)"

definition cp_inv0 :: "config \<Rightarrow> count_places \<Rightarrow> bool" where
  "cp_inv0 cfg p \<longleftrightarrow> desk_inv p \<and> cp_counts_ok p \<and> cp_caps_ok cfg p"

definition cp_inv :: "config \<Rightarrow> count_places \<Rightarrow> bool" where
  "cp_inv cfg p \<longleftrightarrow> cp_inv0 cfg p \<and> cp_full cfg p"

lemma running_upd: "running (p\<lparr>p_running := (p_running p)(c := p_running p c + n)\<rparr>) = running p + n"
  by (cases c) (simp_all add: running_def CLASSES_def)

lemma running_cong: "p_running p = p_running p' \<Longrightarrow> running p = running p'"
  by (simp add: running_def)

lemma running_step:
  assumes "p_running p' = (p_running p)(c := p_running p c + n)"
  shows "running p' = running p + n"
  using running_cong [of p' "p\<lparr>p_running := (p_running p)(c := p_running p c + n)\<rparr>"] running_upd assms
  by simp

lemma inc_owner_simps [simp]:
  "d_state (inc_owner ow n p) = d_state p" "d_line (inc_owner ow n p) = d_line p"
  "d_next (inc_owner ow n p) = d_next p" "d_granted (inc_owner ow n p) = d_granted p"
  "p_running (inc_owner ow n p) = p_running p"
  "p_by_owner (inc_owner ow n p) k = p_by_owner p k + (if ow = Some k then n else 0)"
  by (cases ow; simp add: inc_owner_def)+

lemma running_inc_owner [simp]: "running (inc_owner ow n p) = running p"
  by (simp add: running_def)

lemma grant_simps [simp]:
  "d_state (grant t p) = (d_state p)(t := Active)" "d_line (grant t p) = d_line p"
  "d_next (grant t p) = d_next p" "p_running (grant t p) = p_running p"
  "p_by_owner (grant t p) = p_by_owner p" "running (grant t p) = running p"
  for p :: count_places
  by (simp_all add: grant_def running_def)

definition one_if :: "bool \<Rightarrow> int" where
  "one_if b = (if b then 1 else 0)"

lemma cp_counts_step:
  assumes fin: "finite (present p)" and ok: "cp_counts_ok p"
    and st: "d_state p' = (d_state p)(t := s')"
    and ru: "p_running p' = (p_running p)(t_cls t :=
        p_running p (t_cls t) + (one_if (s' = Active) - one_if (d_state p t = Active)))"
    and ow: "\<And>k. p_by_owner p' k = p_by_owner p k +
        (if t_owner t = Some k then one_if (s' \<noteq> Left) - one_if (d_state p t \<noteq> Left) else 0)"
  shows "cp_counts_ok p'"
proof -
  have tal: "tally p' s P = tally p s P + (if P t then one_if (s' = s) - one_if (d_state p t = s) else 0)"
    if "s \<noteq> Left" for s P
    using tally_upd [OF fin that st, of P] by (simp add: one_if_def)
  from ok show ?thesis
    by (cases "d_state p t"; cases s') (auto simp: cp_counts_ok_def ru ow tal one_if_def)
qed

lemma cp_inv_desk: "cp_inv cfg p \<Longrightarrow> desk_inv p"
  by (simp add: cp_inv_def cp_inv0_def)

lemma cp_init_inv: "limits_ok cfg \<Longrightarrow> cp_inv cfg cp_init"
  by (simp add: cp_inv_def cp_inv0_def desk_inv_def cp_counts_ok_def cp_caps_ok_def cp_full_def
      cp_init_def present_def tally_def empty_line_def waiting_def running_def CLASSES_def
      limits_ok_nonneg)

subsection \<open>Filling free places\<close>

lemma in_order_head:
  assumes d: "desk_inv p" and io: "in_order (d_line p) = t # ts"
  shows "in_order ((d_line p)(t_cls t := remove1 t (d_line p (t_cls t)))) = ts"
    and "waiting p t"
proof -
  have cl: "u \<in> set (d_line p c) \<Longrightarrow> t_cls u = c" for u c using desk_inv_line [OF d] by simp
  show "waiting p t" using desk_inv_in_order [OF d, of t] by (simp add: io waiting_def)
  have split: "d_line p Reader @ d_line p Agent @ d_line p Internal @ d_line p External = t # ts"
    using io by (simp add: in_order_def CLASSES_def)
  show "in_order ((d_line p)(t_cls t := remove1 t (d_line p (t_cls t)))) = ts"
  proof (cases "d_line p Reader")
    case Cons
    with split cl [of t Reader] show ?thesis by (simp add: in_order_def CLASSES_def)
  next
    case r: Nil
    show ?thesis
    proof (cases "d_line p Agent")
      case Cons
      with split r cl [of t Agent] show ?thesis by (simp add: in_order_def CLASSES_def)
    next
      case a: Nil
      show ?thesis
      proof (cases "d_line p Internal")
        case Cons
        with split r a cl [of t Internal] show ?thesis by (simp add: in_order_def CLASSES_def)
      next
        case Nil
        with split r a cl [of t External] show ?thesis by (simp add: in_order_def CLASSES_def)
      qed
    qed
  qed
qed

lemma cp_hand_inv0:
  assumes inv: "cp_inv0 cfg p" and io: "in_order (d_line p) = t # ts" and room: "running p < c_count_active cfg"
  shows "\<exists>p'. cp_hand t p = Some p' \<and> cp_inv0 cfg p' \<and> d_state p' = (d_state p)(t := Active) \<and>
    in_order (d_line p') = ts"
proof -
  note d = inv [unfolded cp_inv0_def, THEN conjunct1]
  note h = in_order_head [OF d io]
  let ?p = "p\<lparr>d_line := (d_line p)(t_cls t := remove1 t (d_line p (t_cls t))),
         p_running := (p_running p)(t_cls t := p_running p (t_cls t) + 1)\<rparr>"
  let ?p' = "grant t ?p"
  have "cp_hand t p = Some ?p'"
    using h(2) by (simp add: cp_hand_def line_remove_waiting [OF d] waiting_def)
  moreover have "desk_inv ?p'"
    by (rule desk_inv_take [OF d, of t Active]) (use h(2) in \<open>simp_all add: waiting_def\<close>)
  moreover have "cp_counts_ok ?p'"
    by (rule cp_counts_step [OF desk_inv_fin [OF d], of _ t Active])
      (use inv h(2) in \<open>simp_all add: cp_inv0_def one_if_def waiting_def\<close>)
  moreover have "running ?p' = running p + 1" by (rule running_step) simp
  ultimately show ?thesis using inv room h(1)
    by (intro exI [of _ ?p']) (simp add: cp_inv0_def cp_caps_ok_def)
qed

text \<open>
  Free places go to the head of the line, in its order: what is granted is a prefix of it, and
  nothing is left of the line unless every place is taken.
\<close>

lemma cp_fill_prefix:
  "cp_inv0 cfg p \<Longrightarrow> \<exists>n p'. cp_fill cfg p = Some p' \<and> cp_inv cfg p' \<and>
     in_order (d_line p') = drop n (in_order (d_line p)) \<and>
     d_state p' = (\<lambda>u. if u \<in> set (take n (in_order (d_line p))) then Active else d_state p u)"
proof (induction cfg p rule: cp_fill.induct)
  case (1 cfg p)
  note d = "1.prems" [unfolded cp_inv0_def, THEN conjunct1]
  consider (full) "\<not> running p < c_count_active cfg" | (idle) "running p < c_count_active cfg" "in_order (d_line p) = []"
    | (hand) t ts where "running p < c_count_active cfg" "in_order (d_line p) = t # ts"
    by (cases "in_order (d_line p)") auto
  then show ?case
  proof cases
    case full
    then have "cp_full cfg p" using "1.prems" by (simp add: cp_full_def cp_inv0_def cp_caps_ok_def)
    with full "1.prems" show ?thesis
      by (intro exI [of _ 0] exI [of _ p]) (simp add: cp_fill.simps [of cfg p] cp_inv_def)
  next
    case idle
    then have "cp_full cfg p"
      using desk_inv_in_order [OF d] by (simp add: cp_full_def waiting_def)
    with idle "1.prems" show ?thesis
      by (intro exI [of _ 0] exI [of _ p]) (simp add: cp_fill.simps [of cfg p] cp_inv_def)
  next
    case hand
    from cp_hand_inv0 [OF "1.prems" hand(2,1)] obtain p1 where
      h: "cp_hand t p = Some p1" and i: "cp_inv0 cfg p1" and s: "d_state p1 = (d_state p)(t := Active)"
      and io: "in_order (d_line p1) = ts" by blast
    from "1.IH" [OF hand(1,2) h i] obtain n p' where
      "cp_fill cfg p1 = Some p'" "cp_inv cfg p'" "in_order (d_line p') = drop n ts"
      "d_state p' = (\<lambda>u. if u \<in> set (take n ts) then Active else d_state p1 u)" by (auto simp: io)
    with hand h s show ?thesis
      by (intro exI [of _ "Suc n"] exI [of _ p']) (auto simp: cp_fill.simps [of cfg p] fun_eq_iff)
  qed
qed

subsection \<open>Entering and leaving\<close>

lemma cp_enter_cases:
  assumes inv: "cp_inv cfg p" and e: "cp_enter cfg c ow p = Inr (t, p')"
  shows "cp_inv cfg p'" and "d_state p t = Left" and "t_cls t = c" and "t_owner t = ow"
    and "d_state p' = (d_state p)(t := if running p < c_count_active cfg then Active else Waiting)"
proof -
  note d = cp_inv_desk [OF inv]
  obtain t' p1 where nt: "new_ticket c ow p = (t', p1)" by (cases "new_ticket c ow p") auto
  with e have [simp]: "t' = t" by (auto simp: cp_enter_def Let_def split: if_splits)
  have t: "t = \<lparr>t_id = d_next p, t_cls = c, t_owner = ow\<rparr>"
    and s1: "d_state p1 = (d_state p)(t := Waiting)" and p1: "d_line p1 = d_line p"
      "d_next p1 = Suc (d_next p)" "p_running p1 = p_running p" "p_by_owner p1 = p_by_owner p"
    using nt by (auto simp: new_ticket_def Let_def)
  show tf: "t_cls t = c" "t_owner t = ow" by (simp_all add: t)
  show fresh: "d_state p t = Left" using desk_inv_fresh [OF d] by (simp add: t)
  have run: "running p1 = running p" by (rule running_cong) (simp add: p1)
  have own: "\<not> (case ow of None \<Rightarrow> False | Some k \<Rightarrow> p_by_owner p k \<ge> c_count_per_outside_key cfg)"
    using e by (auto simp: cp_enter_def split: if_splits)
  have owner: "p_by_owner (inc_owner ow 1 p1) k \<le> c_count_per_outside_key cfg" for k
    using own inv by (auto simp: p1 cp_inv_def cp_inv0_def cp_caps_ok_def)
  have "cp_inv cfg p' \<and>
    d_state p' = (d_state p)(t := if running p < c_count_active cfg then Active else Waiting)"
  proof (cases "running p < c_count_active cfg")
    case True
    let ?q = "inc_owner ow 1 p1"
    have p': "p' = grant t (?q\<lparr>p_running := (p_running ?q)(c := p_running ?q c + 1)\<rparr>)"
      using e nt own True by (simp add: cp_enter_def run)
    have i: "desk_inv p'"
      by (rule desk_inv_new_active [OF d nt]) (simp_all add: p' p1)
    moreover have "cp_counts_ok p'"
      by (rule cp_counts_step [OF desk_inv_fin [OF d], of _ t Active])
        (use inv fresh in \<open>simp_all add: p' p1 s1 tf one_if_def cp_inv_def cp_inv0_def\<close>)
    moreover have "running p' = running p + 1" by (rule running_step [of _ _ c]) (simp add: p' p1)
    moreover have "\<not> waiting p' u" for u
      using inv True by (auto simp: p' s1 waiting_def cp_inv_def cp_full_def)
    ultimately show ?thesis using True owner
      by (simp add: cp_inv_def cp_inv0_def cp_caps_ok_def cp_full_def) (simp add: p' s1 p1)
  next
    case False
    let ?q = "inc_owner ow 1 p1"
    have p': "p' = ?q\<lparr>d_line := line_add t (d_line ?q)\<rparr>"
      using e nt own False by (simp add: cp_enter_def run)
    have "desk_inv p'" by (rule desk_inv_add [OF d nt]) (simp_all add: p' p1)
    moreover have "cp_counts_ok p'"
      by (rule cp_counts_step [OF desk_inv_fin [OF d], of _ t Waiting])
        (use inv fresh in \<open>simp_all add: p' p1 s1 tf one_if_def cp_inv_def cp_inv0_def\<close>)
    moreover have r: "running p' = running p" by (rule running_cong) (simp add: p' p1)
    moreover have "running p = c_count_active cfg"
      using False inv by (simp add: cp_inv_def cp_inv0_def cp_caps_ok_def)
    ultimately show ?thesis using False owner
      by (simp add: cp_inv_def cp_inv0_def cp_caps_ok_def cp_full_def) (simp add: p' s1 p1)
  qed
  then show "cp_inv cfg p'" and
    "d_state p' = (d_state p)(t := if running p < c_count_active cfg then Active else Waiting)" by simp_all
qed

lemma cp_enter_refuses: "cp_enter cfg c ow p = Inl e \<Longrightarrow> e = Queue_full"
  by (auto simp: cp_enter_def Let_def split: if_splits prod.splits)

lemma cp_leave_again: "d_state p t = Left \<Longrightarrow> cp_leave cfg t p = Some p"
  by (simp add: cp_leave_def)

lemma cp_leave_fills:
  assumes inv: "cp_inv cfg p" and t: "d_state p t \<noteq> Left"
  shows "\<exists>p1. cp_leave cfg t p = cp_fill cfg p1 \<and> cp_inv0 cfg p1 \<and>
    d_state p1 = (d_state p)(t := Left) \<and>
    d_line p1 = (if waiting p t then (d_line p)(t_cls t := remove1 t (d_line p (t_cls t))) else d_line p)"
proof -
  note d = cp_inv_desk [OF inv]
  have caps: "cp_caps_ok cfg q" if "running q \<le> running p" and "\<And>k. p_by_owner q k \<le> p_by_owner p k" for q
    using inv that unfolding cp_inv_def cp_inv0_def cp_caps_ok_def by (meson order_trans)
  show ?thesis
  proof (cases "waiting p t")
    case True
    let ?q = "inc_owner (t_owner t) (-1) (p\<lparr>d_line := (d_line p)(t_cls t := remove1 t (d_line p (t_cls t)))\<rparr>)"
    let ?p1 = "?q\<lparr>d_state := (d_state ?q)(t := Left)\<rparr>"
    have "desk_inv ?p1"
      by (rule desk_inv_take [OF d, of t Left]) (use True in \<open>simp_all add: waiting_def\<close>)
    moreover have "cp_counts_ok ?p1"
      by (rule cp_counts_step [OF desk_inv_fin [OF d], of _ t Left])
        (use inv True in \<open>simp_all add: waiting_def one_if_def cp_inv_def cp_inv0_def\<close>)
    moreover have "running ?p1 = running p" by (rule running_cong) simp
    ultimately have "cp_inv0 cfg ?p1" by (simp add: cp_inv0_def caps)
    moreover have "cp_leave cfg t p = cp_fill cfg ?p1"
      using True t line_remove_waiting [OF d, of t] by (simp add: cp_leave_def waiting_def Let_def)
    ultimately show ?thesis using True by (intro exI [of _ ?p1]) simp
  next
    case False
    with t have act: "d_state p t = Active" by (cases "d_state p t") (auto simp: waiting_def)
    let ?q = "inc_owner (t_owner t) (-1)
      (p\<lparr>p_running := (p_running p)(t_cls t := p_running p (t_cls t) - 1)\<rparr>)"
    let ?p1 = "?q\<lparr>d_state := (d_state ?q)(t := Left)\<rparr>"
    have "desk_inv ?p1"
      by (rule desk_inv_drop [OF d, of t]) (use False in \<open>simp_all add: waiting_def\<close>)
    moreover have "cp_counts_ok ?p1"
      by (rule cp_counts_step [OF desk_inv_fin [OF d], of _ t Left])
        (use inv act in \<open>simp_all add: one_if_def cp_inv_def cp_inv0_def\<close>)
    moreover have "running ?p1 = running p + (-1)" by (rule running_step [of _ _ "t_cls t"]) simp
    ultimately have "cp_inv0 cfg ?p1" by (simp add: cp_inv0_def caps)
    moreover have "cp_leave cfg t p = cp_fill cfg ?p1"
      using False act by (simp add: cp_leave_def Let_def)
    ultimately show ?thesis using False by (intro exI [of _ ?p1]) simp
  qed
qed

lemma cp_leave_state:
  assumes inv: "cp_inv cfg p" and l: "cp_leave cfg t p = Some p'"
  shows "cp_inv cfg p'" and "d_state p' t = Left"
    and "\<And>u. u \<noteq> t \<Longrightarrow> d_state p' u = d_state p u \<or> d_state p u = Waiting \<and> d_state p' u = Active"
proof -
  have "cp_inv cfg p' \<and> d_state p' t = Left \<and>
    (\<forall>u. u \<noteq> t \<longrightarrow> d_state p' u = d_state p u \<or> d_state p u = Waiting \<and> d_state p' u = Active)"
  proof (cases "d_state p t = Left")
    case True
    with l inv show ?thesis by (simp add: cp_leave_again)
  next
    case False
    from cp_leave_fills [OF inv this] l obtain p1 where f: "cp_fill cfg p1 = Some p'"
      and i: "cp_inv0 cfg p1" and s: "d_state p1 = (d_state p)(t := Left)" by auto
    from cp_fill_prefix [OF i] f obtain n where i': "cp_inv cfg p'"
      and s': "d_state p' = (\<lambda>u. if u \<in> set (take n (in_order (d_line p1))) then Active else d_state p1 u)"
      by auto
    have w: "d_state p1 u = Waiting" if "u \<in> set (take n (in_order (d_line p1)))" for u
      using in_set_takeD [OF that] i by (simp add: desk_inv_in_order cp_inv0_def)
    then have "t \<notin> set (take n (in_order (d_line p1)))" by (force simp: s)
    moreover have "d_state p u = Waiting" if "u \<in> set (take n (in_order (d_line p1)))" "u \<noteq> t" for u
      using w [OF that(1)] that(2) by (simp add: s)
    ultimately show ?thesis using i' s s' by auto
  qed
  then show "cp_inv cfg p'" and "d_state p' t = Left"
    and "\<And>u. u \<noteq> t \<Longrightarrow> d_state p' u = d_state p u \<or> d_state p u = Waiting \<and> d_state p' u = Active"
    by auto
qed

interpretation cpl: place_desk "cp_inv cfg" d_state "cp_enter cfg" "cp_leave cfg" for cfg
proof
  fix p c ow t p' u e
  assume inv: "cp_inv cfg p"
  show "cp_enter cfg c ow p = Inr (t, p') \<Longrightarrow> cp_inv cfg p'"
    by (rule cp_enter_cases(1) [OF inv])
  show "cp_enter cfg c ow p = Inr (t, p') \<Longrightarrow>
      d_state p t = Left \<and> d_state p' t \<noteq> Left \<and> t_cls t = c \<and> t_owner t = ow"
    using cp_enter_cases [OF inv, of c ow t p'] by simp
  show "cp_enter cfg c ow p = Inr (t, p') \<Longrightarrow> u \<noteq> t \<Longrightarrow> d_state p' u = d_state p u"
    using cp_enter_cases(5) [OF inv, of c ow t p'] by simp
  show "cp_enter cfg c ow p = Inl e \<Longrightarrow> e = Queue_full" by (rule cp_enter_refuses)
  show "\<exists>p'. cp_leave cfg t p = Some p'"
  proof (cases "d_state p t = Left")
    case True
    then show ?thesis by (simp add: cp_leave_again)
  next
    case False
    from cp_leave_fills [OF inv this] obtain p1 where
      "cp_leave cfg t p = cp_fill cfg p1" and "cp_inv0 cfg p1" by blast
    then show ?thesis using cp_fill_prefix [of cfg p1] by auto
  qed
  show "cp_leave cfg t p = Some p' \<Longrightarrow> cp_inv cfg p'" by (rule cp_leave_state(1) [OF inv])
  show "cp_leave cfg t p = Some p' \<Longrightarrow> d_state p' t = Left" by (rule cp_leave_state(2) [OF inv])
  show "cp_leave cfg t p = Some p' \<Longrightarrow> u \<noteq> t \<Longrightarrow>
      d_state p' u = d_state p u \<or> d_state p u = Waiting \<and> d_state p' u = Active"
    by (rule cp_leave_state(3) [OF inv])
  show "d_state p t = Left \<Longrightarrow> cp_leave cfg t p = Some p" by (rule cp_leave_again)
qed

subsection \<open>Properties\<close>

definition sample_count_ops :: "desk_op list" where
  "sample_count_ops = [Enter_op External (Some sample_outside), Enter_op External (Some sample_outside),
     Enter_op External (Some sample_outside), Enter_op Reader None]"

text \<open>
  whatever sequence of counts comes and goes, no operation raises, at most
  \<^verbatim>\<open>count_limits.active\<close> counts run at once, an outside key has at most \<^verbatim>\<open>per_outside_key\<close> counts with
  its waiting ones included, counted by their tickets, and a count waits only while every place is
  taken.
\<close>
theorem count_places_safe:
  assumes "limits_ok cfg"
  shows "\<exists>p. run_ops (cp_enter cfg) (cp_leave cfg) xs cp_init = Some p \<and>
    int (card {t. active p t}) = running p \<and> running p \<le> c_count_active cfg \<and>
    (\<forall>k. int (card {t. d_state p t \<noteq> Left \<and> t_owner t = Some k}) \<le> c_count_per_outside_key cfg) \<and>
    ((\<exists>t. waiting p t) \<longrightarrow> running p = c_count_active cfg)"
proof -
  from cpl.run_inv [OF cp_init_inv [OF assms], of xs] obtain p where
    r: "run_ops (cp_enter cfg) (cp_leave cfg) xs cp_init = Some p" and i: "cp_inv cfg p" by blast
  note fin = desk_inv_fin [OF cp_inv_desk [OF i]]
  from i have co: "cp_counts_ok p" and ca: "cp_caps_ok cfg p" and fu: "cp_full cfg p"
    by (simp_all add: cp_inv_def cp_inv0_def)
  have part: "int (card {t. d_state p t \<noteq> Left \<and> P t}) = tally p Active P + tally p Waiting P" for P
  proof -
    have "{t. d_state p t \<noteq> Left \<and> P t} = {t. d_state p t = Active \<and> P t} \<union> {t. d_state p t = Waiting \<and> P t}"
    proof (rule set_eqI)
      fix t
      show "t \<in> {t. d_state p t \<noteq> Left \<and> P t} \<longleftrightarrow>
          t \<in> {t. d_state p t = Active \<and> P t} \<union> {t. d_state p t = Waiting \<and> P t}"
        by (cases "d_state p t") auto
    qed
    then show ?thesis
      using finite_tally [OF fin, of Active P] finite_tally [OF fin, of Waiting P]
      by (simp add: tally_def card_Un_disjoint disjoint_iff)
  qed
  have "int (card {t. active p t}) = running p"
  proof -
    have "{t. active p t} = (\<Union>c \<in> UNIV. {t. d_state p t = Active \<and> t_cls t = c})"
      by (auto simp: active_def)
    moreover have "card \<dots> = (\<Sum>c \<in> UNIV. card {t. d_state p t = Active \<and> t_cls t = c})"
      by (rule card_UN_disjoint) (auto simp: UNIV_cls finite_tally [OF fin])
    moreover have "int (card {t. d_state p t = Active \<and> t_cls t = c}) = p_running p c" for c
      using co by (simp add: cp_counts_ok_def tally_def)
    ultimately show ?thesis by (simp add: running_def CLASSES_def UNIV_cls)
  qed
  moreover have "int (card {t. d_state p t \<noteq> Left \<and> t_owner t = Some k}) \<le> c_count_per_outside_key cfg" for k
    using co ca by (simp add: part cp_counts_ok_def cp_caps_ok_def)
  ultimately show ?thesis using r ca fu by (auto simp: cp_caps_ok_def cp_full_def)
qed

theorem count_places_safe_witness:
  "\<exists>p. run_ops (cp_enter sample_config) (cp_leave sample_config) sample_count_ops cp_init = Some p \<and>
    int (card {t. active p t}) = running p \<and> running p \<le> c_count_active sample_config \<and>
    (\<forall>k. int (card {t. d_state p t \<noteq> Left \<and> t_owner t = Some k}) \<le> c_count_per_outside_key sample_config) \<and>
    ((\<exists>t. waiting p t) \<longrightarrow> running p = c_count_active sample_config)"
  by (rule count_places_safe) (rule sample_limits_ok)

text \<open>
  A count that leaves frees its place for the head of the line: the counts that become active
  are a prefix of the line as section 2 orders it, classes first and arrival within a class, and
  all others keep their state.
\<close>
theorem count_leave_takes_prefix:
  assumes "cp_inv cfg p" and "active p t"
  shows "\<exists>n p'. cp_leave cfg t p = Some p' \<and> in_order (d_line p') = drop n (in_order (d_line p)) \<and>
    d_state p' = (\<lambda>u. if u = t then Left
      else if u \<in> set (take n (in_order (d_line p))) then Active else d_state p u)"
proof -
  have t: "d_state p t \<noteq> Left" "\<not> waiting p t" using assms(2) by (simp_all add: active_def waiting_def)
  from cp_leave_fills [OF assms(1) t(1)] t(2) obtain p1 where l: "cp_leave cfg t p = cp_fill cfg p1"
    and i: "cp_inv0 cfg p1" and s: "d_state p1 = (d_state p)(t := Left)" and q: "d_line p1 = d_line p"
    by auto
  from cp_fill_prefix [OF i] obtain n p' where f: "cp_fill cfg p1 = Some p'"
    and io: "in_order (d_line p') = drop n (in_order (d_line p))"
    and s': "d_state p' = (\<lambda>u. if u \<in> set (take n (in_order (d_line p))) then Active else d_state p1 u)"
    by (auto simp: q)
  have "t \<notin> set (take n (in_order (d_line p)))"
    using t(2) desk_inv_in_order [OF cp_inv_desk [OF assms(1)], of t]
    by (auto simp: waiting_def dest: in_set_takeD)
  then show ?thesis using l f io by (intro exI [of _ n] exI [of _ p']) (auto simp: s' s fun_eq_iff)
qed

definition sample_counts :: count_places where
  "sample_counts = (case run_ops (cp_enter sample_config) (cp_leave sample_config)
     [Enter_op Reader None] cp_init of None \<Rightarrow> cp_init | Some p \<Rightarrow> p)"

theorem count_leave_takes_prefix_witness:
  "\<exists>n p'. cp_leave sample_config \<lparr>t_id = 0, t_cls = Reader, t_owner = None\<rparr> sample_counts = Some p' \<and>
    in_order (d_line p') = drop n (in_order (d_line sample_counts)) \<and>
    d_state p' = (\<lambda>u. if u = \<lparr>t_id = 0, t_cls = Reader, t_owner = None\<rparr> then Left
      else if u \<in> set (take n (in_order (d_line sample_counts))) then Active else d_state sample_counts u)"
proof (rule count_leave_takes_prefix)
  show "cp_inv sample_config sample_counts"
    using cpl.run_inv [OF cp_init_inv [OF sample_limits_ok], of "[Enter_op Reader None]"]
    by (auto simp: sample_counts_def)
  show "active sample_counts \<lparr>t_id = 0, t_cls = Reader, t_owner = None\<rparr>"
    by (simp add: sample_counts_def cp_enter_def new_ticket_def cp_init_def running_def CLASSES_def
        inc_owner_def sample_simps grant_def active_def Let_def)
qed

end
