(* ===== verification/Place_Owners.thy ===== *)
theory Place_Owners
  imports Admission Count_Places
begin

text \<open>
  Who holds which ticket. A piece of work keeps its ticket in a field of its own; \<open>owned\<close> says that
  every ticket at a desk is in one work's field and in no other's. The interface \<open>numbered_desk\<close>
  extends \<open>place_desk\<close> by what this needs: tickets are numbered, a grant is given to an active
  ticket only, and a cancelled wait touches no place.
\<close>

definition granted_ok :: "'a desk_scheme \<Rightarrow> bool" where
  "granted_ok d \<longleftrightarrow> (\<forall>t. d_granted d t = Granted \<longrightarrow> d_state d t \<noteq> Waiting)"

definition has_grant :: "'a desk_scheme \<Rightarrow> ticket \<Rightarrow> bool" where
  "has_grant d t \<longleftrightarrow> d_granted d t = Granted"

definition owned :: "('a \<Rightarrow> ticket \<Rightarrow> tstate) \<Rightarrow> ('a \<Rightarrow> nat) \<Rightarrow> 'a \<Rightarrow> (nat \<Rightarrow> ticket option) \<Rightarrow> bool" where
  "owned st nxt a f \<longleftrightarrow>
     (\<forall>w t. f w = Some t \<longrightarrow> t_id t < nxt a) \<and>
     (\<forall>w v t. f w = Some t \<longrightarrow> f v = Some t \<longrightarrow> w = v) \<and>
     (\<forall>t. st a t \<noteq> Left \<longrightarrow> (\<exists>w. f w = Some t))"

locale numbered_desk = place_desk inv st enter leave
  for inv :: "'a \<Rightarrow> bool" and st :: "'a \<Rightarrow> ticket \<Rightarrow> tstate"
    and enter :: "cls \<Rightarrow> key option \<Rightarrow> 'a \<Rightarrow> (ticket \<times> 'a) result"
    and leave :: "ticket \<Rightarrow> 'a \<Rightarrow> 'a option" +
  fixes nxt :: "'a \<Rightarrow> nat" and granted_to :: "'a \<Rightarrow> ticket \<Rightarrow> bool" and cancel :: "ticket \<Rightarrow> 'a \<Rightarrow> 'a"
  assumes enter_number: "inv a \<Longrightarrow> enter c ow a = Inr (t, a') \<Longrightarrow> t_id t = nxt a \<and> nxt a' = Suc (nxt a)"
    and leave_number: "inv a \<Longrightarrow> leave t a = Some a' \<Longrightarrow> nxt a' = nxt a"
    and grant_active: "inv a \<Longrightarrow> granted_to a t \<Longrightarrow> st a t \<noteq> Waiting"
    and cancel_inv: "inv a \<Longrightarrow> inv (cancel t a)"
    and cancel_frame: "st (cancel t a) = st a" "nxt (cancel t a) = nxt a"
begin

lemma owned_enter:
  assumes "inv a" and "owned st nxt a f" and "enter c ow a = Inr (t, a')" and "f w = None"
  shows "owned st nxt a' (f(w := Some t))"
proof -
  have n: "t_id t = nxt a" "nxt a' = Suc (nxt a)" using enter_number [OF assms(1,3)] by auto
  have fresh: "f v \<noteq> Some t" for v using assms(2) n(1) by (force simp: owned_def)
  have "t_id u < nxt a'" if "(f(w := Some t)) v = Some u" for v u
    using assms(2) that n by (auto simp: owned_def split: if_splits) (metis less_SucI)
  moreover have "v = v'" if "(f(w := Some t)) v = Some u" "(f(w := Some t)) v' = Some u" for v v' u
    using assms(2) that fresh by (auto simp: owned_def split: if_splits)
  moreover have "\<exists>v. (f(w := Some t)) v = Some u" if u: "st a' u \<noteq> Left" for u
  proof (cases "u = t")
    case True
    then show ?thesis by (intro exI [of _ w]) simp
  next
    case False
    with u enter_frame [OF assms(1,3)] have "st a u \<noteq> Left" by metis
    then obtain v where "f v = Some u" using assms(2) by (auto simp: owned_def)
    with assms(4) show ?thesis by (intro exI [of _ v]) auto
  qed
  ultimately show ?thesis by (simp add: owned_def del: fun_upd_apply)
qed

lemma owned_leave:
  assumes "inv a" and "owned st nxt a f" and "leave t a = Some a'"
  shows "owned st nxt a' f"
proof -
  have "st a u \<noteq> Left" if "st a' u \<noteq> Left" for u
    using leave_present [OF assms(1,3)] that by auto
  with assms(2) leave_number [OF assms(1,3)] show ?thesis by (simp add: owned_def)
qed

lemma owned_cancel: "owned st nxt a f \<Longrightarrow> owned st nxt (cancel t a) f"
  by (simp add: owned_def cancel_frame)

lemma owned_other:
  "owned st nxt a f \<Longrightarrow> f w = Some t \<Longrightarrow> v \<noteq> w \<Longrightarrow> f v = Some u \<Longrightarrow> u \<noteq> t"
  by (auto simp: owned_def)

end

subsection \<open>The generations' desk\<close>

lemma grant_granted_ok: "granted_ok d \<Longrightarrow> granted_ok (grant t d)"
  by (simp add: granted_ok_def grant_def)

lemma activate_granted_ok: "granted_ok a \<Longrightarrow> granted_ok (activate t a)"
  by (simp add: activate_def granted_ok_def grant_def)

lemma new_ticket_granted_ok: "granted_ok d \<Longrightarrow> new_ticket c ow d = (t, d') \<Longrightarrow> granted_ok d'"
  by (auto simp: new_ticket_def granted_ok_def Let_def split: if_splits)

lemma new_ticket_number:
  "new_ticket c ow d = (t, d') \<Longrightarrow> t_id t = d_next d \<and> d_next d' = Suc (d_next d)"
  by (auto simp: new_ticket_def Let_def)

lemma adm_enter_number:
  "adm_enter cfg c ow a = Inr (t, a') \<Longrightarrow> t_id t = d_next a \<and> d_next a' = Suc (d_next a)"
  by (auto simp: adm_enter_def activate_simps new_ticket_number split: prod.splits if_splits)

lemma adm_enter_granted_ok:
  assumes "adm_enter cfg c ow a = Inr (t, a')" and "granted_ok a"
  shows "granted_ok a'"
proof -
  obtain u a1 where n: "new_ticket c ow a = (u, a1)" by fastforce
  from new_ticket_granted_ok [OF assms(2) n] have "granted_ok a1" .
  then have "granted_ok (activate u a1)" "granted_ok (a1\<lparr>d_line := q, a_owner_waiting := f\<rparr>)" for q f
    by (simp_all add: activate_granted_ok) (simp add: granted_ok_def)
  with assms(1) n show ?thesis by (auto simp: adm_enter_def split: if_splits)
qed

lemma hand_granted_ok: "hand t a = Some a' \<Longrightarrow> granted_ok a \<Longrightarrow> granted_ok a' \<and> d_next a' = d_next a"
  by (auto simp: hand_def activate_simps split: option.splits)
    (simp add: activate_def granted_ok_def grant_def)

lemma adm_dispatch_granted_ok:
  "adm_dispatch cfg a = Some a' \<Longrightarrow> granted_ok a \<Longrightarrow> granted_ok a' \<and> d_next a' = d_next a"
proof (induction cfg a rule: adm_dispatch.induct)
  case (1 cfg a)
  show ?case
  proof (cases "find (has_room cfg a) (in_order (d_line a))")
    case None
    with "1.prems" show ?thesis by (simp add: adm_dispatch.simps [of cfg a])
  next
    case (Some t)
    with "1.prems" obtain a1 where h: "hand t a = Some a1" and r: "adm_dispatch cfg a1 = Some a'"
      by (auto simp: adm_dispatch.simps [of cfg a] split: option.splits)
    with "1.IH" [OF Some h r] hand_granted_ok [OF h "1.prems"(2)] show ?thesis by simp
  qed
qed

lemma granted_ok_Left:
  "granted_ok d \<Longrightarrow> granted_ok (d\<lparr>d_state := (d_state d)(t := Left)\<rparr>)"
  "granted_ok a \<Longrightarrow> granted_ok (a\<lparr>d_line := q, a_owner_waiting := f, d_state := (d_state a)(t := Left)\<rparr>)"
  "granted_ok a \<Longrightarrow> granted_ok (a\<lparr>a_active := g, a_owner_active := f, d_state := (d_state a)(t := Left)\<rparr>)"
  by (simp_all add: granted_ok_def)

lemma adm_leave_granted_ok:
  assumes "adm_leave cfg t a = Some a'" and "granted_ok a"
  shows "granted_ok a' \<and> d_next a' = d_next a"
  using assms
  by (auto simp: adm_leave_def granted_ok_Left split: if_splits option.splits
      dest!: adm_dispatch_granted_ok)

lemma cancel_wait_fields [simp]:
  "d_state (cancel_wait t d) = d_state d" "d_next (cancel_wait t d) = d_next d"
  "d_line (cancel_wait t d) = d_line d"
  by (simp_all add: cancel_wait_def)

lemma cancel_wait_granted_ok: "granted_ok d \<Longrightarrow> granted_ok (cancel_wait t d)"
  by (auto simp: cancel_wait_def granted_ok_def)

lemma adm_ok_cong:
  assumes "d_state a' = d_state a" "d_next a' = d_next a" "d_line a' = d_line a"
    "a_active a' = a_active a" "a_owner_active a' = a_owner_active a" "a_owner_waiting a' = a_owner_waiting a"
  shows "adm_ok cfg a' = adm_ok cfg a"
proof -
  have "has_room cfg a' = has_room cfg a" by (rule ext) (rule has_room_cong [OF assms(4,5)])
  with assms show ?thesis
    by (simp add: adm_ok_def adm_inv_def adm_inv0_def desk_inv_def counts_ok_def caps_ok_def
        no_room_left_def waiting_def active_def in_turn_def tally_def present_def)
qed

lemma adm_ok_cancel: "adm_ok cfg (cancel_wait t a) = adm_ok cfg a"
  by (rule adm_ok_cong) (simp_all add: cancel_wait_def)

definition adm_sound :: "config \<Rightarrow> admission \<Rightarrow> bool" where
  "adm_sound cfg a \<longleftrightarrow> adm_ok cfg a \<and> granted_ok a"

interpretation gens: numbered_desk "adm_sound cfg" d_state "adm_enter cfg" "adm_leave cfg"
    d_next has_grant cancel_wait for cfg
proof
  fix a c ow t a' u e
  assume "adm_sound cfg a"
  then have ok: "adm_ok cfg a" and g: "granted_ok a" by (simp_all add: adm_sound_def)
  show "adm_enter cfg c ow a = Inr (t, a') \<Longrightarrow> adm_sound cfg a'"
    using adm.enter_inv [OF ok] adm_enter_granted_ok [OF _ g] by (simp add: adm_sound_def)
  show "adm_enter cfg c ow a = Inr (t, a') \<Longrightarrow>
      d_state a t = Left \<and> d_state a' t \<noteq> Left \<and> t_cls t = c \<and> t_owner t = ow"
    by (rule adm.enter_new [OF ok])
  show "adm_enter cfg c ow a = Inr (t, a') \<Longrightarrow> u \<noteq> t \<Longrightarrow> d_state a' u = d_state a u"
    by (rule adm.enter_frame [OF ok])
  show "adm_enter cfg c ow a = Inl e \<Longrightarrow> e = Queue_full" by (rule adm.enter_refuses [OF ok])
  show "\<exists>a'. adm_leave cfg t a = Some a'" by (rule adm.leave_returns [OF ok])
  show "adm_leave cfg t a = Some a' \<Longrightarrow> adm_sound cfg a'"
    using adm.leave_inv [OF ok] adm_leave_granted_ok [OF _ g] by (simp add: adm_sound_def)
  show "adm_leave cfg t a = Some a' \<Longrightarrow> d_state a' t = Left" by (rule adm.leave_left [OF ok])
  show "adm_leave cfg t a = Some a' \<Longrightarrow> u \<noteq> t \<Longrightarrow>
      d_state a' u = d_state a u \<or> d_state a u = Waiting \<and> d_state a' u = Active"
    by (rule adm.leave_frame [OF ok])
  show "d_state a t = Left \<Longrightarrow> adm_leave cfg t a = Some a" by (rule adm.leave_again [OF ok])
  show "adm_enter cfg c ow a = Inr (t, a') \<Longrightarrow> t_id t = d_next a \<and> d_next a' = Suc (d_next a)"
    by (rule adm_enter_number)
  show "adm_leave cfg t a = Some a' \<Longrightarrow> d_next a' = d_next a"
    using adm_leave_granted_ok [OF _ g] by simp
  show "has_grant a t \<Longrightarrow> d_state a t \<noteq> Waiting" using g by (simp add: granted_ok_def has_grant_def)
  show "adm_sound cfg (cancel_wait t a)" using ok g by (simp add: adm_sound_def adm_ok_cancel cancel_wait_granted_ok)
qed simp_all

subsection \<open>The counts' desk\<close>

lemma cp_enter_number:
  "cp_enter cfg c ow p = Inr (t, p') \<Longrightarrow> t_id t = d_next p \<and> d_next p' = Suc (d_next p)"
  by (auto simp: cp_enter_def new_ticket_def Let_def grant_def inc_owner_def split: if_splits option.splits)

lemma inc_owner_granted_ok [simp]: "granted_ok (inc_owner ow n p) = granted_ok p"
  by (cases ow) (simp_all add: inc_owner_def granted_ok_def)

lemma cp_enter_granted_ok:
  assumes "cp_enter cfg c ow p = Inr (t, p')" and "granted_ok p"
  shows "granted_ok p'"
proof -
  obtain u p1 where n: "new_ticket c ow p = (u, p1)" by fastforce
  from new_ticket_granted_ok [OF assms(2) n] have "granted_ok (inc_owner ow 1 p1)" by simp
  then have "granted_ok (grant u ((inc_owner ow 1 p1)\<lparr>p_running := f\<rparr>))"
    "granted_ok ((inc_owner ow 1 p1)\<lparr>d_line := q\<rparr>)" for q f
    by (auto simp: granted_ok_def grant_def)
  with assms(1) n show ?thesis by (auto simp: cp_enter_def Let_def split: if_splits)
qed

lemma cp_hand_granted_ok:
  "cp_hand t p = Some p' \<Longrightarrow> granted_ok p \<Longrightarrow> granted_ok p' \<and> d_next p' = d_next p"
  by (auto simp: cp_hand_def grant_def granted_ok_def split: option.splits if_splits)

lemma cp_fill_granted_ok:
  "cp_fill cfg p = Some p' \<Longrightarrow> granted_ok p \<Longrightarrow> granted_ok p' \<and> d_next p' = d_next p"
proof (induction cfg p rule: cp_fill.induct)
  case (1 cfg p)
  show ?case
  proof (cases "running p < c_count_active cfg \<and> in_order (d_line p) \<noteq> []")
    case False
    with "1.prems" show ?thesis by (auto simp: cp_fill.simps [of cfg p] split: if_splits list.splits)
  next
    case True
    then obtain t ts where l: "in_order (d_line p) = t # ts" by (meson list.exhaust)
    with True "1.prems" obtain p1 where h: "cp_hand t p = Some p1" and r: "cp_fill cfg p1 = Some p'"
      by (auto simp: cp_fill.simps [of cfg p] split: option.splits)
    with "1.IH" [OF _ l h r] True cp_hand_granted_ok [OF h "1.prems"(2)] show ?thesis by simp
  qed
qed

lemma inc_owner_next [simp]: "d_next (inc_owner ow n p) = d_next p"
  by (cases ow) (simp_all add: inc_owner_def)

lemma cp_leave_granted_ok:
  assumes "cp_leave cfg t p = Some p'" and "granted_ok p"
  shows "granted_ok p' \<and> d_next p' = d_next p"
proof (cases "d_state p t = Left")
  case True
  with assms show ?thesis by (simp add: cp_leave_def)
next
  case False
  with assms(1) obtain p1 where f: "cp_fill cfg ((inc_owner (t_owner t) (-1) p1)
      \<lparr>d_state := (d_state (inc_owner (t_owner t) (-1) p1))(t := Left)\<rparr>) = Some p'"
    and p1: "d_granted p1 = d_granted p" "d_state p1 = d_state p" "d_next p1 = d_next p"
    by (auto simp: cp_leave_def Let_def split: if_splits option.splits)
  let ?p = "inc_owner (t_owner t) (-1) p1"
  have "d_granted ?p = d_granted p" "d_state ?p = d_state p"
    by (cases "t_owner t"; simp add: inc_owner_def p1)+
  with assms(2) have "granted_ok (?p\<lparr>d_state := (d_state ?p)(t := Left)\<rparr>)"
    by (simp add: granted_ok_def)
  from cp_fill_granted_ok [OF f this] show ?thesis by (simp add: p1)
qed

lemma cp_inv_cong:
  assumes "d_state p' = d_state p" "d_next p' = d_next p" "d_line p' = d_line p"
    "p_running p' = p_running p" "p_by_owner p' = p_by_owner p"
  shows "cp_inv cfg p' = cp_inv cfg p"
  using assms
  by (simp add: cp_inv_def cp_inv0_def desk_inv_def cp_counts_ok_def cp_caps_ok_def cp_full_def
      waiting_def tally_def present_def running_cong [of p' p])

lemma cp_inv_cancel: "cp_inv cfg (cancel_wait t p) = cp_inv cfg p"
  by (rule cp_inv_cong) (simp_all add: cancel_wait_def)

definition cp_sound :: "config \<Rightarrow> count_places \<Rightarrow> bool" where
  "cp_sound cfg p \<longleftrightarrow> cp_inv cfg p \<and> granted_ok p"

interpretation cnts: numbered_desk "cp_sound cfg" d_state "cp_enter cfg" "cp_leave cfg"
    d_next has_grant cancel_wait for cfg
proof
  fix p c ow t p' u e
  assume "cp_sound cfg p"
  then have ok: "cp_inv cfg p" and g: "granted_ok p" by (simp_all add: cp_sound_def)
  show "cp_enter cfg c ow p = Inr (t, p') \<Longrightarrow> cp_sound cfg p'"
    using cpl.enter_inv [OF ok] cp_enter_granted_ok [OF _ g] by (simp add: cp_sound_def)
  show "cp_enter cfg c ow p = Inr (t, p') \<Longrightarrow>
      d_state p t = Left \<and> d_state p' t \<noteq> Left \<and> t_cls t = c \<and> t_owner t = ow"
    by (rule cpl.enter_new [OF ok])
  show "cp_enter cfg c ow p = Inr (t, p') \<Longrightarrow> u \<noteq> t \<Longrightarrow> d_state p' u = d_state p u"
    by (rule cpl.enter_frame [OF ok])
  show "cp_enter cfg c ow p = Inl e \<Longrightarrow> e = Queue_full" by (rule cpl.enter_refuses [OF ok])
  show "\<exists>p'. cp_leave cfg t p = Some p'" by (rule cpl.leave_returns [OF ok])
  show "cp_leave cfg t p = Some p' \<Longrightarrow> cp_sound cfg p'"
    using cpl.leave_inv [OF ok] cp_leave_granted_ok [OF _ g] by (simp add: cp_sound_def)
  show "cp_leave cfg t p = Some p' \<Longrightarrow> d_state p' t = Left" by (rule cpl.leave_left [OF ok])
  show "cp_leave cfg t p = Some p' \<Longrightarrow> u \<noteq> t \<Longrightarrow>
      d_state p' u = d_state p u \<or> d_state p u = Waiting \<and> d_state p' u = Active"
    by (rule cpl.leave_frame [OF ok])
  show "d_state p t = Left \<Longrightarrow> cp_leave cfg t p = Some p" by (rule cpl.leave_again [OF ok])
  show "cp_enter cfg c ow p = Inr (t, p') \<Longrightarrow> t_id t = d_next p \<and> d_next p' = Suc (d_next p)"
    by (rule cp_enter_number)
  show "cp_leave cfg t p = Some p' \<Longrightarrow> d_next p' = d_next p"
    using cp_leave_granted_ok [OF _ g] by simp
  show "has_grant p t \<Longrightarrow> d_state p t \<noteq> Waiting" using g by (simp add: granted_ok_def has_grant_def)
  show "cp_sound cfg (cancel_wait t p)" using ok g by (simp add: cp_sound_def cp_inv_cancel cancel_wait_granted_ok)
qed simp_all

end
