(* ===== verification/Json_Values.thy ===== *)
theory Json_Values
  imports Error_Codes
begin

text \<open>
  JSON values as Python holds them after \<^verbatim>\<open>json.loads\<close>. A dict keeps its entries in order and never
  repeats a key (\<open>json_wf\<close>); a string is its UTF-8 bytes; a finite float is the rational number
  it stands for, and \<open>JNonfinite\<close> is an infinity or a NaN, by its name. \<open>json_doc\<close> is what the text of a document may hold before the hooks of
  \<^verbatim>\<open>validation.parse_json\<close> have seen it: repeated keys, the constants NaN and Infinity, and numbers
  that no finite float stands for.
\<close>

datatype json =
    JNull
  | JBool bool
  | JInt int
  | JFloat rat
  | JNonfinite string
  | JStr string
  | JList "json list"
  | JObj "(string \<times> json) list"

datatype json_doc =
    DNull
  | DBool bool
  | DInt int
  | DFloat "rat option"
  | DConstant string
  | DStr string
  | DList "json_doc list"
  | DObj "(string \<times> json_doc) list"

text \<open>\<^verbatim>\<open>value.get(name)\<close>: a field that is missing reads as \<^verbatim>\<open>None\<close>, as a null does.\<close>

definition jget :: "string \<Rightarrow> (string \<times> json) list \<Rightarrow> json" where
  "jget name ob = (case map_of ob name of None \<Rightarrow> JNull | Some v \<Rightarrow> v)"

definition jhas :: "string \<Rightarrow> (string \<times> json) list \<Rightarrow> bool" where
  "jhas name ob \<longleftrightarrow> map_of ob name \<noteq> None"

fun as_obj :: "json \<Rightarrow> (string \<times> json) list option" where
  "as_obj (JObj ob) = Some ob"
| "as_obj _ = None"

fun as_list :: "json \<Rightarrow> json list option" where
  "as_list (JList l) = Some l"
| "as_list _ = None"

fun as_str :: "json \<Rightarrow> string option" where
  "as_str (JStr s) = Some s"
| "as_str _ = None"

text \<open>\<^verbatim>\<open>type(value) is int\<close> and \<^verbatim>\<open>type(value) in (int, float)\<close>: a boolean is neither.\<close>

fun is_integer :: "json \<Rightarrow> bool" where
  "is_integer (JInt _) = True"
| "is_integer _ = False"

fun as_int :: "json \<Rightarrow> int option" where
  "as_int (JInt n) = Some n"
| "as_int _ = None"

fun as_number :: "json \<Rightarrow> rat option" where
  "as_number (JInt n) = Some (of_int n)"
| "as_number (JFloat q) = Some q"
| "as_number _ = None"

definition number_in :: "(rat \<Rightarrow> bool) \<Rightarrow> json \<Rightarrow> bool" where
  "number_in P v \<longleftrightarrow> (case as_number v of None \<Rightarrow> False | Some q \<Rightarrow> P q)"

definition integer_in :: "(int \<Rightarrow> bool) \<Rightarrow> json \<Rightarrow> bool" where
  "integer_in P v \<longleftrightarrow> (case as_int v of None \<Rightarrow> False | Some n \<Rightarrow> P n)"

text \<open>The children of a container, as the loops over \<^verbatim>\<open>values()\<close> and over a list see them.\<close>

fun children :: "json \<Rightarrow> json list" where
  "children (JList l) = l"
| "children (JObj ob) = map snd ob"
| "children _ = []"

fun is_container :: "json \<Rightarrow> bool" where
  "is_container (JList _) = True"
| "is_container (JObj _) = True"
| "is_container _ = False"

fun json_wf :: "json \<Rightarrow> bool" where
  "json_wf (JList l) \<longleftrightarrow> list_all json_wf l"
| "json_wf (JObj ob) \<longleftrightarrow> distinct (map fst ob) \<and> list_all (\<lambda>(n, v). json_wf v) ob"
| "json_wf _ \<longleftrightarrow> True"

lemma size_in_list: "v \<in> set l \<Longrightarrow> size v < size (JList l)"
  by (induction l) auto

lemma size_in_obj: "(n, v) \<in> set ob \<Longrightarrow> size v < size (JObj ob)"
  by (induction ob) auto

lemma size_child: "v \<in> set (children w) \<Longrightarrow> size v < size w"
  by (cases w) (auto dest: size_in_list size_in_obj)

lemma as_simps [simp]:
  "as_obj v = Some ob' \<longleftrightarrow> v = JObj ob'" "as_list v = Some l \<longleftrightarrow> v = JList l"
  "as_str v = Some s \<longleftrightarrow> v = JStr s" "as_int v = Some n \<longleftrightarrow> v = JInt n"
  by (cases v; simp)+

lemma is_integer_iff: "is_integer v \<longleftrightarrow> (\<exists>n. v = JInt n)"
  by (cases v) simp_all

lemma jget_Some: "jget n ob = v \<Longrightarrow> v \<noteq> JNull \<Longrightarrow> map_of ob n = Some v"
  by (auto simp: jget_def split: option.splits)

lemma jget_in: "jget n ob = v \<Longrightarrow> v \<noteq> JNull \<Longrightarrow> (n, v) \<in> set ob"
  by (rule map_of_SomeD) (rule jget_Some)

end
