(* ===== verification/Validation.thy ===== *)
theory Validation
  imports Json_Values "HOL-Library.Char_ord"
begin

text \<open>
  Strict checks of request bodies, \<^verbatim>\<open>simple_serving/validation.py\<close>: a body becomes a \<open>chat_request\<close>
  or one of two errors, \<open>Unsupported_field\<close> for a field outside the contract at any depth and
  \<open>Invalid_request\<close> for anything else. The grammar of \<^verbatim>\<open>json.loads\<close> is the argument \<open>loads\<close>, which
  gives a document as it was written or \<open>None\<close> where it raises; the hooks are modelled.
\<close>

subsection \<open>Shapes\<close>

datatype shape =
    Leaf
  | Schema
  | Fields "(string \<times> shape) list"
  | Each shape

definition CHAT_FIELDS :: "shape \<Rightarrow> (string \<times> shape) list" where
  "CHAT_FIELDS messages =
    [(''model'', Leaf), (''messages'', messages), (''max_tokens'', Leaf), (''stream'', Leaf),
     (''stream_options'', Fields [(''include_usage'', Leaf)]),
     (''temperature'', Leaf), (''top_p'', Leaf), (''top_k'', Leaf), (''min_p'', Leaf),
     (''repetition_penalty'', Leaf), (''seed'', Leaf),
     (''response_format'', Fields [(''type'', Leaf),
        (''json_schema'', Fields [(''name'', Leaf), (''strict'', Leaf), (''schema'', Schema)])]),
     (''chat_template_kwargs'', Fields [(''enable_thinking'', Leaf)]),
     (''thinking_token_budget'', Leaf)]"

definition CHAT_SHAPE :: shape where
  "CHAT_SHAPE = Fields (CHAT_FIELDS (Each (Fields [(''role'', Leaf), (''content'', Leaf)])))"

definition VISION_SHAPE :: shape where
  "VISION_SHAPE = Fields (CHAT_FIELDS (Each (Fields [(''role'', Leaf),
     (''content'', Each (Fields [(''type'', Leaf), (''text'', Leaf),
        (''image_url'', Fields [(''url'', Leaf)])]))])))"

definition MAX_DEPTH :: nat where
  "MAX_DEPTH = 64"

definition PICTURE_BYTES :: nat where
  "PICTURE_BYTES = 2 * 2 ^ 20"

fun has_unknown_field :: "json \<Rightarrow> shape \<Rightarrow> bool" where
  "has_unknown_field v Leaf = False"
| "has_unknown_field v Schema = False"
| "has_unknown_field (JObj ob) (Fields known) =
     list_ex (\<lambda>(name, item). case map_of known name of None \<Rightarrow> True
       | Some sh \<Rightarrow> has_unknown_field item sh) ob"
| "has_unknown_field (JList l) (Each sh) = list_ex (\<lambda>item. has_unknown_field item sh) l"
| "has_unknown_field _ (Fields known) = False"
| "has_unknown_field _ (Each sh) = False"

subsection \<open>Reading JSON\<close>

text \<open>The hooks: a constant, a float that is not finite and a repeated key raise.\<close>

fun decode_doc :: "json_doc \<Rightarrow> json option" where
  "decode_doc DNull = Some JNull"
| "decode_doc (DBool b) = Some (JBool b)"
| "decode_doc (DInt n) = Some (JInt n)"
| "decode_doc (DFloat q) = (case q of None \<Rightarrow> None | Some r \<Rightarrow> Some (JFloat r))"
| "decode_doc (DConstant c) = None"
| "decode_doc (DStr s) = Some (JStr s)"
| "decode_doc (DList l) = (case those (map decode_doc l) of None \<Rightarrow> None | Some vs \<Rightarrow> Some (JList vs))"
| "decode_doc (DObj ob) =
     (case those (map (\<lambda>(n, d). decode_doc d) ob) of None \<Rightarrow> None
      | Some vs \<Rightarrow> if distinct (map fst ob) then Some (JObj (zip (map fst ob) vs)) else None)"

lemma children_measure:
  "(\<Sum>p\<leftarrow>map (\<lambda>c. (c, k)) (children v). Suc (size (fst p))) \<le> size v"
proof (cases v)
  case (JList l)
  have "(\<Sum>p\<leftarrow>map (\<lambda>c. (c, k)) l. Suc (size (fst p))) = size_list size l" by (induction l) simp_all
  with JList show ?thesis by simp
next
  case (JObj ob)
  have "(\<Sum>p\<leftarrow>map (\<lambda>c. (c, k)) (map snd ob). Suc (size (fst p))) \<le> size_list (size_prod (\<lambda>_. 0) size) ob"
    by (induction ob) auto
  with JObj show ?thesis by simp
qed simp_all

text \<open>The worklist of \<^verbatim>\<open>_depth\<close>, popped and extended at its end.\<close>

function depth_loop :: "(json \<times> nat) list \<Rightarrow> nat \<Rightarrow> nat" where
  "depth_loop pending deepest =
    (if pending = [] then deepest
     else case last pending of (item, d) \<Rightarrow>
       if is_container item
       then depth_loop (butlast pending @ map (\<lambda>c. (c, Suc d)) (children item)) (max deepest d)
       else depth_loop (butlast pending) deepest)"
  by pat_completeness auto

lemma pending_split:
  assumes "pending \<noteq> []" and "(item, d) = last pending"
  shows "(\<Sum>p\<leftarrow>pending. Suc (size (fst p))) = (\<Sum>p\<leftarrow>butlast pending. Suc (size (fst p))) + Suc (size item)"
proof -
  have "pending = butlast pending @ [(item, d)]" using assms by simp
  then have "(\<Sum>p\<leftarrow>pending. Suc (size (fst p))) = (\<Sum>p\<leftarrow>butlast pending @ [(item, d)]. Suc (size (fst p)))"
    by simp
  then show ?thesis by simp
qed

termination depth_loop
proof (relation "measure (\<lambda>(pending, deepest). \<Sum>p\<leftarrow>pending. Suc (size (fst p)))")
  fix pending :: "(json \<times> nat) list" and deepest item d
  assume a: "pending \<noteq> []" "(item, d) = last pending"
  show "((butlast pending @ map (\<lambda>c. (c, Suc d)) (children item), max deepest d), pending, deepest)
      \<in> measure (\<lambda>(pending, deepest). \<Sum>p\<leftarrow>pending. Suc (size (fst p)))"
    using pending_split [OF a] children_measure [of "Suc d" item] by (simp add: o_def)
  show "((butlast pending, deepest), pending, deepest)
      \<in> measure (\<lambda>(pending, deepest). \<Sum>p\<leftarrow>pending. Suc (size (fst p)))"
    using pending_split [OF a] by simp
qed simp

declare depth_loop.simps [simp del]

definition depth :: "json \<Rightarrow> nat" where
  "depth v = depth_loop [(v, 1)] 0"

definition parse_json :: "(string \<Rightarrow> json_doc option) \<Rightarrow> string \<Rightarrow> json result" where
  "parse_json loads raw =
    (case Option.bind (loads raw) decode_doc of None \<Rightarrow> Inl Invalid_request
     | Some v \<Rightarrow> andthen (require (depth v \<le> MAX_DEPTH) Invalid_request) (\<lambda>_. Inr v))"

subsection \<open>Pictures\<close>

definition b64_value :: "char \<Rightarrow> nat option" where
  "b64_value c =
    (if CHR ''A'' \<le> c \<and> c \<le> CHR ''Z'' then Some (of_char c - 65)
     else if CHR ''a'' \<le> c \<and> c \<le> CHR ''z'' then Some (of_char c - 71)
     else if CHR ''0'' \<le> c \<and> c \<le> CHR ''9'' then Some (of_char c + 4)
     else if c = CHR ''+'' then Some 62 else if c = CHR ''/'' then Some 63 else None)"

text \<open>The bytes of whole and of left-over groups of six bits; a single left-over group is no byte.\<close>

fun b64_bytes :: "nat list \<Rightarrow> nat list" where
  "b64_bytes (a # b # c # d # rest) =
     (a * 4 + b div 16) # (b mod 16 * 16 + c div 4) # (c mod 4 * 64 + d) # b64_bytes rest"
| "b64_bytes [a, b, c] = [a * 4 + b div 16, b mod 16 * 16 + c div 4]"
| "b64_bytes [a, b] = [a * 4 + b div 16]"
| "b64_bytes _ = []"

text \<open>
  \<^verbatim>\<open>base64.b64decode(text, validate=True)\<close> of Python 3.12 on a text that \<^verbatim>\<open>PICTURE\<close> matched, that is,
  groups of six bits with at most two padding characters after them: a left-over of two or three
  groups needs exactly its padding, a left-over of one is refused, padding after whole groups is
  passed over, and padding alone is refused.
\<close>

definition b64decode :: "string \<Rightarrow> nat list option" where
  "b64decode text =
    (let body = takeWhile (\<lambda>c. b64_value c \<noteq> None) text; pad = length text - length body;
         left = length body mod 4
     in if (left = 0 \<and> (body \<noteq> [] \<or> pad = 0)) \<or> (left = 2 \<and> pad = 2) \<or> (left = 3 \<and> pad = 1)
        then Some (b64_bytes (map (\<lambda>c. the (b64_value c)) body)) else None)"

definition strip_prefix :: "string \<Rightarrow> string \<Rightarrow> string option" where
  "strip_prefix p s = (if take (length p) s = p then Some (drop (length p) s) else None)"

definition b64_text :: "string \<Rightarrow> bool" where
  "b64_text t \<longleftrightarrow>
    dropWhile (\<lambda>c. b64_value c \<noteq> None) t \<in> {[], ''='', ''==''}"

text \<open>\<^verbatim>\<open>PICTURE.fullmatch(url)\<close>: the type it names and its base64 text.\<close>

definition picture_match :: "string \<Rightarrow> (string \<times> string) option" where
  "picture_match url =
    (case strip_prefix ''data:image/'' url of None \<Rightarrow> None
     | Some rest \<Rightarrow>
       (case find (\<lambda>k. strip_prefix (k @ '';base64,'') rest \<noteq> None) [''png'', ''jpeg'', ''webp''] of None \<Rightarrow> None
        | Some k \<Rightarrow> (let t = the (strip_prefix (k @ '';base64,'') rest)
            in if b64_text t then Some (k, t) else None)))"

definition SIGNATURES :: "(string \<times> nat list) list" where
  "SIGNATURES = [(''png'', [137, 80, 78, 71, 13, 10, 26, 10]), (''jpeg'', [255, 216, 255])]"

definition picture_kind :: "nat list \<Rightarrow> string option" where
  "picture_kind data =
    (if take 4 data = [82, 73, 70, 70] \<and> take 4 (drop 8 data) = [87, 69, 66, 80] then Some ''webp''
     else map_option fst (find (\<lambda>(name, sig). take (length sig) data = sig) SIGNATURES))"

definition picture :: "json \<Rightarrow> bool" where
  "picture image_url =
    (case (case image_url of JObj ob \<Rightarrow> jget ''url'' ob | _ \<Rightarrow> JNull) of
       JStr url \<Rightarrow>
         (case picture_match url of None \<Rightarrow> False
          | Some (named, text) \<Rightarrow>
             (case b64decode text of None \<Rightarrow> False
              | Some data \<Rightarrow> length data \<le> PICTURE_BYTES \<and> picture_kind data = Some named))
     | _ \<Rightarrow> False)"

definition keys_are :: "string set \<Rightarrow> (string \<times> json) list \<Rightarrow> bool" where
  "keys_are ns ob \<longleftrightarrow> set (map fst ob) = ns"

definition part_ok :: "json \<Rightarrow> bool" where
  "part_ok part =
    (case part of JObj ob \<Rightarrow>
       if keys_are {''type'', ''text''} ob
       then jget ''type'' ob = JStr ''text'' \<and> as_str (jget ''text'' ob) \<noteq> None
       else keys_are {''type'', ''image_url''} ob \<and> jget ''type'' ob = JStr ''image_url'' \<and>
         picture (jget ''image_url'' ob)
     | _ \<Rightarrow> False)"

definition parts_ok :: "json \<Rightarrow> bool" where
  "parts_ok content = (case content of JList parts \<Rightarrow> parts \<noteq> [] \<and> list_all part_ok parts | _ \<Rightarrow> False)"

text \<open>A content as the engine gets it. The fields read here are there: the parts were checked.\<close>

definition field :: "string \<Rightarrow> json \<Rightarrow> json" where
  "field name v = (case v of JObj ob \<Rightarrow> jget name ob | _ \<Rightarrow> JNull)"

definition forward_part :: "json \<Rightarrow> json" where
  "forward_part part =
    (if field ''type'' part = JStr ''text''
     then JObj [(''type'', JStr ''text''), (''text'', field ''text'' part)]
     else JObj [(''type'', JStr ''image_url''),
        (''image_url'', JObj [(''url'', field ''url'' (field ''image_url'' part))])])"

definition forward_content :: "json \<Rightarrow> json" where
  "forward_content content =
    (case content of JList parts \<Rightarrow> JList (map forward_part parts) | _ \<Rightarrow> content)"

definition picture_parts :: "json \<Rightarrow> json list" where
  "picture_parts content =
    (case content of JList parts \<Rightarrow> filter (\<lambda>p. field ''type'' p = JStr ''image_url'') parts | _ \<Rightarrow> [])"

subsection \<open>A body of generation or counting\<close>

record chat_request =
  r_messages :: "json list"
  r_max_tokens :: int
  r_sampling :: "(string \<times> json) list"
  r_response_format :: "json option"
  r_enable_thinking :: bool
  r_thinking_token_budget :: "int option"
  r_pictures :: int

definition ROLES :: "string list" where
  "ROLES = [''system'', ''user'', ''assistant'']"

definition valid :: "bool \<Rightarrow> unit result" where
  "valid b = require b Invalid_request"

definition message_ok :: "bool \<Rightarrow> json \<Rightarrow> bool" where
  "message_ok vision m =
    (case m of JObj ob \<Rightarrow>
       jget ''role'' ob \<in> JStr ` set ROLES \<and>
       (as_str (jget ''content'' ob) \<noteq> None \<or>
        vision \<and> jget ''role'' ob = JStr ''user'' \<and> parts_ok (jget ''content'' ob))
     | _ \<Rightarrow> False)"

definition sampling_checks :: "(string \<times> (json \<Rightarrow> bool)) list" where
  "sampling_checks =
    [(''temperature'', number_in (\<lambda>q. 0 \<le> q \<and> q \<le> 2)),
     (''top_p'', number_in (\<lambda>q. 0 < q \<and> q \<le> 1)),
     (''top_k'', integer_in (\<lambda>n. n \<ge> 1)),
     (''min_p'', number_in (\<lambda>q. 0 \<le> q \<and> q \<le> 1)),
     (''repetition_penalty'', number_in (\<lambda>q. 0 < q \<and> q \<le> 2)),
     (''seed'', is_integer)]"

fun sampling_loop :: "(string \<times> (json \<Rightarrow> bool)) list \<Rightarrow> (string \<times> json) list \<Rightarrow> (string \<times> json) list result"
where
  "sampling_loop [] body = Inr []"
| "sampling_loop ((name, check) # rest) body =
     (case map_of body name of None \<Rightarrow> sampling_loop rest body
      | Some v \<Rightarrow> andthen (valid (check v)) (\<lambda>_.
          andthen (sampling_loop rest body) (\<lambda>found. Inr ((name, v) # found))))"

definition response_format :: "(string \<times> json) list \<Rightarrow> json option result" where
  "response_format body =
    (case map_of body ''response_format'' of None \<Rightarrow> Inr None
     | Some v \<Rightarrow>
        let schema = field ''json_schema'' v
        in andthen (valid (as_obj v \<noteq> None \<and> field ''type'' v = JStr ''json_schema'')) (\<lambda>_.
           andthen (valid (as_obj schema \<noteq> None \<and> as_str (field ''name'' schema) \<noteq> None \<and>
             (\<exists>b \<in> {True, False}. field ''strict'' schema = JBool b) \<and>
             as_obj (field ''schema'' schema) \<noteq> None)) (\<lambda>_.
           Inr (Some v))))"

definition enable_thinking :: "(string \<times> json) list \<Rightarrow> bool result" where
  "enable_thinking body =
    (case map_of body ''chat_template_kwargs'' of None \<Rightarrow> Inr False
     | Some (JObj ob) \<Rightarrow>
         (case map_of ob ''enable_thinking'' of None \<Rightarrow> Inr False
          | Some (JBool b) \<Rightarrow> Inr b | Some _ \<Rightarrow> Inl Invalid_request)
     | Some _ \<Rightarrow> Inl Invalid_request)"

definition thinking_token_budget :: "(string \<times> json) list \<Rightarrow> int option result" where
  "thinking_token_budget body =
    (case map_of body ''thinking_token_budget'' of None \<Rightarrow> Inr None
     | Some v \<Rightarrow> andthen (valid (integer_in (\<lambda>n. n \<ge> 0) v)) (\<lambda>_. Inr (as_int v)))"

definition forward_message :: "json \<Rightarrow> json" where
  "forward_message m = JObj [(''role'', field ''role'' m), (''content'', forward_content (field ''content'' m))]"

definition check_chat :: "json \<Rightarrow> string \<Rightarrow> bool \<Rightarrow> chat_request result" where
  "check_chat v alias vision =
    (case v of JObj body \<Rightarrow>
       andthen (require (\<not> has_unknown_field v (if vision then VISION_SHAPE else CHAT_SHAPE))
         Unsupported_field) (\<lambda>_.
       andthen (valid (jget ''model'' body = JStr alias)) (\<lambda>_.
       case jget ''messages'' body of
         JList messages \<Rightarrow>
           andthen (valid (messages \<noteq> [])) (\<lambda>_.
           andthen (valid (list_all (message_ok vision) messages)) (\<lambda>_.
           let pictures = int (length (concat (map (picture_parts \<circ> field ''content'') messages)))
           in andthen (valid (pictures \<le> 1)) (\<lambda>_.
           case jget ''max_tokens'' body of
             JInt max_tokens \<Rightarrow>
               andthen (valid (max_tokens \<ge> 1)) (\<lambda>_.
               andthen (valid (jget ''stream'' body = JBool True)) (\<lambda>_.
               andthen (valid (field ''include_usage'' (jget ''stream_options'' body) = JBool True)) (\<lambda>_.
               andthen (sampling_loop sampling_checks body) (\<lambda>sampling.
               andthen (response_format body) (\<lambda>format.
               andthen (enable_thinking body) (\<lambda>thinking.
               andthen (thinking_token_budget body) (\<lambda>budget.
               Inr \<lparr>r_messages = map forward_message messages, r_max_tokens = max_tokens,
                 r_sampling = sampling, r_response_format = format, r_enable_thinking = thinking,
                 r_thinking_token_budget = budget, r_pictures = pictures\<rparr>)))))))
           | _ \<Rightarrow> Inl Invalid_request)))
       | _ \<Rightarrow> Inl Invalid_request))
     | _ \<Rightarrow> Inl Invalid_request)"

subsection \<open>The bodies of the control routes\<close>

definition control_body :: "json \<Rightarrow> bool \<Rightarrow> (string \<times> int option) result" where
  "control_body v with_generation =
    (case v of JObj body \<Rightarrow>
       andthen (require (set (map fst body) \<subseteq>
         (if with_generation then {''boot_id'', ''drain_generation''} else {''boot_id''})) Unsupported_field) (\<lambda>_.
       case jget ''boot_id'' body of
         JStr boot \<Rightarrow>
           if with_generation
           then andthen (valid (integer_in (\<lambda>n. n \<ge> 0) (jget ''drain_generation'' body))) (\<lambda>_.
             Inr (boot, as_int (jget ''drain_generation'' body)))
           else Inr (boot, None)
       | _ \<Rightarrow> Inl Invalid_request)
     | _ \<Rightarrow> Inl Invalid_request)"

definition check_boot :: "json \<Rightarrow> string result" where
  "check_boot v = andthen (control_body v False) (\<lambda>(boot, _). Inr boot)"

definition check_open :: "json \<Rightarrow> (string \<times> int) result" where
  "check_open v = andthen (control_body v True) (\<lambda>(boot, g). Inr (boot, the g))"

subsection \<open>The worklist counts the nesting\<close>

fun nesting :: "json \<Rightarrow> nat" where
  "nesting (JList l) = Suc (foldr max (map nesting l) 0)"
| "nesting (JObj ob) = Suc (foldr max (map (\<lambda>(n, v). nesting v) ob) 0)"
| "nesting _ = 0"

lemma nesting_container:
  "is_container v \<Longrightarrow> nesting v = Suc (foldr max (map nesting (children v)) 0)"
  by (cases v) (simp_all add: comp_def case_prod_unfold)

lemma nesting_scalar: "\<not> is_container v \<Longrightarrow> nesting v = 0"
  by (cases v) simp_all

definition reach :: "json \<times> nat \<Rightarrow> nat \<Rightarrow> nat" where
  "reach p m = max (if nesting (fst p) = 0 then 0 else snd p + nesting (fst p) - 1) m"

lemma reach_children:
  "d \<le> m \<Longrightarrow> foldr reach (map (\<lambda>c. (c, Suc d)) cs) m = max m (d + foldr max (map nesting cs) 0)"
  by (induction cs) (auto simp: reach_def)

lemma depth_loop_reach: "depth_loop pending deepest = foldr reach pending deepest"
proof (induction pending deepest rule: depth_loop.induct)
  case (1 pending deepest)
  show ?case
  proof (cases "pending = []")
    case True
    then show ?thesis by (simp add: depth_loop.simps)
  next
    case False
    obtain item d where l: "last pending = (item, d)" by fastforce
    have p: "foldr reach pending deepest = foldr reach (butlast pending) (reach (item, d) deepest)"
      using append_butlast_last_id [OF False] l by (metis foldr.simps foldr_append comp_def id_apply)
    show ?thesis
    proof (cases "is_container item")
      case True
      have "foldr reach (map (\<lambda>c. (c, Suc d)) (children item)) (max deepest d) = reach (item, d) deepest"
        by (simp add: reach_children reach_def nesting_container [OF True])
      with 1(1) [OF False l [symmetric] True] False l True p show ?thesis
        by (simp add: depth_loop.simps [of pending])
    next
      case False
      note sc = False
      have "reach (item, d) deepest = deepest" by (simp add: reach_def nesting_scalar [OF sc])
      with 1(2) [OF \<open>pending \<noteq> []\<close> l [symmetric] sc] \<open>pending \<noteq> []\<close> l sc p show ?thesis
        by (simp add: depth_loop.simps [of pending])
    qed
  qed
qed

lemma depth_eq_nesting: "depth v = nesting v"
  by (simp add: depth_def depth_loop_reach reach_def)

lemma those_Some_iff: "those xs = Some ys \<longleftrightarrow> list_all2 (\<lambda>x y. x = Some y) xs ys"
  by (induction xs arbitrary: ys) (auto split: option.splits simp: list_all2_Cons1)

lemma decode_doc_wf: "decode_doc d = Some v \<Longrightarrow> json_wf v"
proof (induction d arbitrary: v rule: decode_doc.induct)
  case (7 l)
  then obtain vs where v: "v = JList vs" and th: "those (map decode_doc l) = Some vs"
    by (auto split: option.splits)
  have a: "list_all2 (\<lambda>d w. decode_doc d = Some w) l vs"
    using th by (simp add: those_Some_iff list_all2_map1)
  have "json_wf w" if "w \<in> set vs" for w
  proof -
    from that obtain i where i: "i < length vs" "w = vs ! i" by (metis in_set_conv_nth)
    with a have "i < length l" "decode_doc (l ! i) = Some w" by (auto simp: list_all2_conv_all_nth)
    with 7(1) [of "l ! i" w] show ?thesis by simp
  qed
  with v show ?case by (simp add: list_all_iff)
next
  case (8 ob)
  then obtain vs where th: "those (map (\<lambda>(n, d). decode_doc d) ob) = Some vs"
    and d: "distinct (map fst ob)" and v: "v = JObj (zip (map fst ob) vs)"
    by (auto split: option.splits if_splits)
  have a: "list_all2 (\<lambda>(n, d) w. decode_doc d = Some w) ob vs"
    using th by (simp add: those_Some_iff list_all2_map1 case_prod_unfold)
  then have "json_wf w" if "w \<in> set vs" for w
  proof -
    from that obtain i where i: "i < length vs" "w = vs ! i" by (metis in_set_conv_nth)
    with a have "i < length ob" "decode_doc (snd (ob ! i)) = Some w"
      by (auto simp: list_all2_conv_all_nth case_prod_beta)
    with 8(1) [of "ob ! i" "fst (ob ! i)" "snd (ob ! i)" w] show ?thesis by simp
  qed
  with d v list_all2_lengthD [OF a] show ?case
    by (auto simp: list_all_iff dest: set_zip_rightD)
qed (auto split: option.splits)

subsection \<open>Properties\<close>


text \<open>What an accepted chat body held, from the guards of \<open>check_chat\<close>.\<close>

lemma valid_iff [simp]: "valid b = Inr u \<longleftrightarrow> b" "valid b = Inl e \<longleftrightarrow> \<not> b \<and> e = Invalid_request"
  by (auto simp: valid_def)

lemma check_chat_Inr:
  assumes "check_chat v alias vision = Inr r"
  obtains body messages where "v = JObj body"
    "\<not> has_unknown_field v (if vision then VISION_SHAPE else CHAT_SHAPE)"
    "jget ''model'' body = JStr alias" "jget ''messages'' body = JList messages" "messages \<noteq> []"
    "list_all (message_ok vision) messages"
    "int (length (concat (map (picture_parts \<circ> field ''content'') messages))) \<le> 1"
    "jget ''max_tokens'' body = JInt (r_max_tokens r)" "1 \<le> r_max_tokens r"
    "jget ''stream'' body = JBool True"
    "sampling_loop sampling_checks body = Inr (r_sampling r)"
    "response_format body = Inr (r_response_format r)"
    "thinking_token_budget body = Inr (r_thinking_token_budget r)"
    "r_messages r = map forward_message messages"
    "r_pictures r = int (length (concat (map (picture_parts \<circ> field ''content'') messages)))"
  using assms
  by (auto simp: check_chat_def Let_def intro!: that split: json.splits)

lemma sampling_loop_Inr:
  "sampling_loop checks body = Inr found \<Longrightarrow>
   found = map (\<lambda>(n, c). (n, the (map_of body n))) (filter (\<lambda>(n, c). jhas n body) checks) \<and>
   list_all (\<lambda>(n, c). \<forall>v. map_of body n = Some v \<longrightarrow> c v) checks"
  by (induction checks body arbitrary: found rule: sampling_loop.induct)
    (auto simp: jhas_def split: option.splits)

lemma sampling_loop_Inl: "sampling_loop checks body = Inl e \<Longrightarrow> e = Invalid_request"
  by (induction checks body rule: sampling_loop.induct)
    (auto simp: andthen_Inl_iff split: option.splits)

lemma check_chat_errors:
  "response_format body = Inl e \<Longrightarrow> e = Invalid_request"
  "enable_thinking body = Inl e \<Longrightarrow> e = Invalid_request"
  "thinking_token_budget body = Inl e \<Longrightarrow> e = Invalid_request"
  by (auto simp: response_format_def enable_thinking_def thinking_token_budget_def andthen_Inl_iff
      Let_def split: option.splits json.splits)

text \<open>
  The two errors of a chat body. A field outside the contract, at any depth the shape knows,
  is \<open>Unsupported_field\<close> before anything else is looked at, and every other refusal is
  \<open>Invalid_request\<close>.
\<close>

theorem check_chat_error:
  assumes "check_chat v alias vision = Inl e"
  shows "e = (case v of JObj _ \<Rightarrow>
      if has_unknown_field v (if vision then VISION_SHAPE else CHAT_SHAPE) then Unsupported_field
      else Invalid_request | _ \<Rightarrow> Invalid_request)"
  using assms
  by (cases v)
    (auto simp: check_chat_def andthen_Inl_iff Let_def dest: sampling_loop_Inl check_chat_errors
      split: json.splits)

subsection \<open>What the engine is sent\<close>

text \<open>A data URL whose bytes are at most two MiB and begin as its type says.\<close>

definition data_picture :: "string \<Rightarrow> bool" where
  "data_picture url \<longleftrightarrow>
    (\<exists>kind text data. picture_match url = Some (kind, text) \<and> b64decode text = Some data \<and>
       length data \<le> 2097152 \<and> picture_kind data = Some kind)"

definition clean_part :: "json \<Rightarrow> bool" where
  "clean_part p \<longleftrightarrow>
    (\<exists>t. p = JObj [(''type'', JStr ''text''), (''text'', JStr t)]) \<or>
    (\<exists>url. p = JObj [(''type'', JStr ''image_url''), (''image_url'', JObj [(''url'', JStr url)])] \<and>
       data_picture url)"

definition clean_message :: "bool \<Rightarrow> json \<Rightarrow> bool" where
  "clean_message vision m \<longleftrightarrow>
    (\<exists>role content. m = JObj [(''role'', JStr role), (''content'', content)] \<and> role \<in> set ROLES \<and>
       ((\<exists>s. content = JStr s) \<or>
        vision \<and> role = ''user'' \<and>
        (\<exists>parts. content = JList parts \<and> parts \<noteq> [] \<and> list_all clean_part parts)))"

lemma picture_data: "picture u \<Longrightarrow> \<exists>url. field ''url'' u = JStr url \<and> data_picture url"
  by (cases u) (auto simp: picture_def field_def data_picture_def PICTURE_BYTES_def
      split: json.splits option.splits)

lemma part_clean: "part_ok p \<Longrightarrow> clean_part (forward_part p)"
  by (cases p)
    (auto simp: part_ok_def clean_part_def forward_part_def field_def [of "''type''"]
      field_def [of "''text''"] field_def [of "''image_url''"] dest: picture_data split: if_splits)

lemma message_clean: "message_ok vision m \<Longrightarrow> clean_message vision (forward_message m)"
proof -
  assume m: "message_ok vision m"
  then obtain ob role where ob: "m = JObj ob" "jget ''role'' ob = JStr role" "role \<in> set ROLES"
    by (auto simp: message_ok_def split: json.splits)
  show ?thesis
  proof (cases "\<exists>s. jget ''content'' ob = JStr s")
    case True
    with ob show ?thesis
      by (auto simp: clean_message_def forward_message_def field_def forward_content_def)
  next
    case False
    with m ob obtain parts where "vision" "role = ''user''" "jget ''content'' ob = JList parts"
      "parts \<noteq> []" "list_all part_ok parts"
      by (auto simp: message_ok_def parts_ok_def split: json.splits)
    with ob show ?thesis
      by (auto simp: clean_message_def forward_message_def field_def forward_content_def
          list_all_iff part_clean)
  qed
qed

lemma no_pictures_without_vision:
  "message_ok False m \<Longrightarrow> picture_parts (field ''content'' m) = []"
  by (auto simp: message_ok_def field_def picture_parts_def split: json.splits)


definition sample_body :: json where
  "sample_body = JObj [(''model'', JStr ''test-model''),
     (''messages'', JList [JObj [(''role'', JStr ''user''), (''content'', JStr ''hi'')]]),
     (''max_tokens'', JInt 16), (''stream'', JBool True),
     (''stream_options'', JObj [(''include_usage'', JBool True)])]"

definition sample_request :: chat_request where
  "sample_request = \<lparr>r_messages = [JObj [(''role'', JStr ''user''), (''content'', JStr ''hi'')]],
     r_max_tokens = 16, r_sampling = [], r_response_format = None, r_enable_thinking = False,
     r_thinking_token_budget = None, r_pictures = 0\<rparr>"

lemma sample_body_checked: "check_chat sample_body ''test-model'' False = Inr sample_request"
  by (simp add: check_chat_def sample_body_def sample_request_def CHAT_SHAPE_def CHAT_FIELDS_def jget_def
      message_ok_def ROLES_def picture_parts_def field_def Let_def sampling_checks_def response_format_def
      enable_thinking_def thinking_token_budget_def forward_message_def forward_content_def)


theorem check_chat_error_witness:
  "check_chat (JObj [(''tools'', JList [])]) ''test-model'' False = Inl Unsupported_field"
  using check_chat_error [of "JObj [(''tools'', JList [])]" "''test-model''" False Unsupported_field]
  by (simp add: check_chat_def CHAT_SHAPE_def CHAT_FIELDS_def andthen_Inl_iff)


end
