(* ===== verification/Text_Service.thy ===== *)
theory Text_Service
  imports Lifecycle Place_Owners Validation
begin

text \<open>
  The text lane's service and its work: the class \<^verbatim>\<open>Service\<close> of \<^verbatim>\<open>simple_serving/service.py\<close>,
  \<^verbatim>\<open>Work\<close>, \<^verbatim>\<open>Count\<close> and \<^verbatim>\<open>Generation\<close> of \<^verbatim>\<open>simple_serving/inference.py\<close>, and the handler
  \<^verbatim>\<open>_inference\<close> of \<^verbatim>\<open>simple_serving/routes.py\<close>.

  A coroutine runs from one \<^verbatim>\<open>await\<close> to the next without interruption, so the piece between two
  awaits is one operation on the service's state; \<open>phase\<close> names the await a request is at, and the
  step relation \<open>tstep\<close> lets any operation that is due come next. What the client and the engine
  answer is open: a count is any number, and a stream ends well or badly. The state of a
  request is the record \<open>work\<close>, found by its number. Measurements and log rows are left out.
\<close>

subsection \<open>State\<close>

datatype kind = Count_work | Generation_work

text \<open>How a task ended: with its result, with a \<^verbatim>\<open>ServiceError\<close>, with another exception, cancelled.\<close>

datatype outcome = Ended_ok | Ended_error error_code | Ended_exception | Ended_cancelled

datatype phase =
    Absent | Reading
  | Started | Count_wait | Counting | Place_wait | Opening | Streaming
  | Task_done outcome
  | Answering outcome
  | Over

record work =
  w_kind :: kind
  w_caller :: caller
  w_request :: "chat_request option"
  w_phase :: phase
  w_accepted_at :: "seconds option"
  w_stop_reason :: "stop_reason option"
  w_stopped_at :: "seconds option"
  w_cancel :: bool
  w_count_place :: "ticket option"
  w_ticket :: "ticket option"
  w_stream :: bool
  w_input_tokens :: "int option"

text \<open>\<open>w_cancel\<close>: the task was cancelled and has not met it yet. \<open>w_stream\<close>: an engine request is open.\<close>

record text_service = lifecycle +
  s_engine_length :: "int option"
  s_context_tokens :: "int option"
  s_admission :: admission
  s_counts :: count_places
  s_works :: "nat \<Rightarrow> work"
  s_next :: nat

definition no_work :: work where
  "no_work = \<lparr>w_kind = Count_work,
     w_caller = \<lparr>ca_key = \<lparr>k_digest = '''', k_label = '''', k_classes = {}, k_default = None,
         k_scopes = False, k_control = False, k_metrics = False, k_vision = False\<rparr>,
       ca_cls = Reader, ca_scope = None\<rparr>,
     w_request = None, w_phase = Absent, w_accepted_at = None, w_stop_reason = None,
     w_stopped_at = None, w_cancel = False, w_count_place = None, w_ticket = None, w_stream = False,
     w_input_tokens = None\<rparr>"

definition service_init :: "string \<Rightarrow> text_service" where
  "service_init boot = lifecycle.extend (lifecycle_init boot)
    \<lparr>s_engine_length = None, s_context_tokens = None, s_admission = adm_init, s_counts = cp_init,
     s_works = (\<lambda>_. no_work), s_next = 0\<rparr>"

definition set_work :: "nat \<Rightarrow> (work \<Rightarrow> work) \<Rightarrow> text_service \<Rightarrow> text_service" where
  "set_work w f s = s\<lparr>s_works := (s_works s)(w := f (s_works s w))\<rparr>"

definition set_phase :: "nat \<Rightarrow> phase \<Rightarrow> text_service \<Rightarrow> text_service" where
  "set_phase w p = set_work w (\<lambda>k. k\<lparr>w_phase := p\<rparr>)"

text \<open>\<^verbatim>\<open>_task is not None\<close>, and \<^verbatim>\<open>not _task.done()\<close>.\<close>

definition has_task :: "work \<Rightarrow> bool" where
  "has_task k \<longleftrightarrow> w_phase k \<noteq> Absent \<and> w_phase k \<noteq> Reading"

definition task_runs :: "work \<Rightarrow> bool" where
  "task_runs k \<longleftrightarrow> w_phase k \<in> {Started, Count_wait, Counting, Place_wait, Opening, Streaming}"

definition work_active :: "nat \<Rightarrow> text_service \<Rightarrow> bool" where
  "work_active w s =
    (case w_kind (s_works s w) of
       Count_work \<Rightarrow> (case w_count_place (s_works s w) of None \<Rightarrow> False | Some t \<Rightarrow> active (s_counts s) t)
     | Generation_work \<Rightarrow> (case w_ticket (s_works s w) of None \<Rightarrow> False | Some t \<Rightarrow> active (s_admission s) t))"

definition work_waiting :: "nat \<Rightarrow> text_service \<Rightarrow> bool" where
  "work_waiting w s \<longleftrightarrow> task_runs (s_works s w) \<and> \<not> work_active w s"

definition work_outside :: "nat \<Rightarrow> text_service \<Rightarrow> bool" where
  "work_outside w s \<longleftrightarrow> outside (ca_key (w_caller (s_works s w)))"

subsection \<open>The service's own checks\<close>

definition MIN_P_EPS :: rat where
  "MIN_P_EPS = 1 / 100000"

definition check_max_tokens :: "config \<Rightarrow> caller \<Rightarrow> chat_request \<Rightarrow> unit result" where
  "check_max_tokens cfg ca r =
    require (\<not> r_max_tokens r > cl_max_tokens (c_limits cfg (ca_cls ca))) Limit_exceeded"

definition min_p_refused :: "config \<Rightarrow> bool" where
  "min_p_refused cfg \<longleftrightarrow> c_speculative cfg \<and> \<not> c_min_p_while_drafting cfg"

definition sampled :: "string \<Rightarrow> rat \<Rightarrow> chat_request \<Rightarrow> rat" where
  "sampled name dflt r =
    (case map_of (r_sampling r) name of None \<Rightarrow> dflt
     | Some v \<Rightarrow> (case as_number v of None \<Rightarrow> dflt | Some q \<Rightarrow> q))"

definition check_min_p :: "config \<Rightarrow> chat_request \<Rightarrow> unit result" where
  "check_min_p cfg r =
    require (\<not> (min_p_refused cfg \<and> sampled ''min_p'' 0 r > MIN_P_EPS \<and> sampled ''temperature'' 1 r \<noteq> 0))
      Min_p_unavailable"

definition check_thinking_budget :: "config \<Rightarrow> caller \<Rightarrow> chat_request \<Rightarrow> unit result" where
  "check_thinking_budget cfg ca r =
    (case r_thinking_token_budget r of None \<Rightarrow> Inr ()
     | Some budget \<Rightarrow>
         andthen (require (c_thinking_budget cfg) Thinking_budget_unavailable) (\<lambda>_.
           require (\<not> budget > cl_max_tokens (c_limits cfg (ca_cls ca))) Invalid_request))"

text \<open>Without a verified engine the assertion of \<^verbatim>\<open>check_input\<close> fails, an exception of its own.\<close>

definition check_input :: "config \<Rightarrow> caller \<Rightarrow> int \<Rightarrow> int \<Rightarrow> text_service \<Rightarrow> outcome + unit" where
  "check_input cfg ca input_tokens max_tokens s =
    (if (case cl_input_tokens (c_limits cfg (ca_cls ca)) of None \<Rightarrow> False | Some limit \<Rightarrow> input_tokens > limit)
     then Inl (Ended_error Limit_exceeded)
     else case s_context_tokens s of None \<Rightarrow> Inl Ended_exception
       | Some context \<Rightarrow> require (\<not> input_tokens + max_tokens > context) (Ended_error Context_limit))"

definition models :: "config \<Rightarrow> text_service \<Rightarrow> (string \<times> int) result" where
  "models cfg s = (case s_context_tokens s of None \<Rightarrow> Inl Starting_code | Some n \<Rightarrow> Inr (c_alias cfg, n))"

record control_state =
  cs_sleep_requested :: bool
  cs_active :: "(cls \<times> int) list"
  cs_waiting :: "(cls \<times> int) list"
  cs_unavailable_fields :: "string list"

record state_answer =
  st_boot_id :: string
  st_status :: service_status
  st_model :: string
  st_context_tokens :: "int option"
  st_drain_generation :: int
  st_control :: "control_state option"

definition state_of :: "config \<Rightarrow> bool \<Rightarrow> text_service \<Rightarrow> state_answer" where
  "state_of cfg control s =
    \<lparr>st_boot_id = l_boot_id s, st_status = status s, st_model = c_alias cfg,
     st_context_tokens = s_context_tokens s, st_drain_generation = l_drain_generation s,
     st_control = (if control
       then Some \<lparr>cs_sleep_requested = l_sleep_requested s, cs_active = adm_active_counts (s_admission s),
         cs_waiting = adm_waiting_counts (s_admission s),
         cs_unavailable_fields = (if min_p_refused cfg then [''min_p''] else [])\<rparr>
       else None)\<rparr>"

subsection \<open>Stopping a work\<close>

text \<open>
  \<open>adm_leave\<close> and \<open>cp_leave\<close> always return on the desks that the service can reach
  (\<open>gens.leave_returns\<close>, \<open>cnts.leave_returns\<close>); a desk they raised on would be left as it is.
\<close>

definition leave_place :: "config \<Rightarrow> ticket \<Rightarrow> text_service \<Rightarrow> text_service" where
  "leave_place cfg t s =
    (case adm_leave cfg t (s_admission s) of None \<Rightarrow> s | Some a \<Rightarrow> s\<lparr>s_admission := a\<rparr>)"

definition leave_count :: "config \<Rightarrow> ticket \<Rightarrow> text_service \<Rightarrow> text_service" where
  "leave_count cfg t s =
    (case cp_leave cfg t (s_counts s) of None \<Rightarrow> s | Some p \<Rightarrow> s\<lparr>s_counts := p\<rparr>)"

text \<open>\<^verbatim>\<open>Generation._stopping\<close>, then \<^verbatim>\<open>task.cancel()\<close>, which also cancels the future that is awaited.\<close>

definition stopping :: "config \<Rightarrow> nat \<Rightarrow> text_service \<Rightarrow> text_service" where
  "stopping cfg w s =
    (case w_ticket (s_works s w) of None \<Rightarrow> s
     | Some t \<Rightarrow> if waiting (s_admission s) t then leave_place cfg t s else s)"

definition cancel_task :: "nat \<Rightarrow> text_service \<Rightarrow> text_service" where
  "cancel_task w s =
    (let s1 = set_work w (\<lambda>k. k\<lparr>w_cancel := True\<rparr>) s
     in case (w_phase (s_works s w), w_count_place (s_works s w), w_ticket (s_works s w)) of
          (Count_wait, Some t, _) \<Rightarrow> s1\<lparr>s_counts := cancel_wait t (s_counts s1)\<rparr>
        | (Place_wait, _, Some t) \<Rightarrow> s1\<lparr>s_admission := cancel_wait t (s_admission s1)\<rparr>
        | _ \<Rightarrow> s1)"

definition stop_work :: "config \<Rightarrow> seconds \<Rightarrow> stop_reason \<Rightarrow> nat \<Rightarrow> text_service \<Rightarrow> text_service" where
  "stop_work cfg now reason w s =
    (if \<not> has_task (s_works s w) \<or> w_stop_reason (s_works s w) \<noteq> None then s
     else
       let s1 = set_work w (\<lambda>k. k\<lparr>w_stop_reason := Some reason, w_stopped_at := Some now\<rparr>) s
       in if task_runs (s_works s w) then cancel_task w (stopping cfg w s1) else s1)"

text \<open>
  The moment at which a terminal message is given up: \<^verbatim>\<open>asyncio.timeout_at(self._stopped_at)\<close>, and
  \<^verbatim>\<open>reschedule\<close> where the stop comes while it is sent.
\<close>

definition send_deadline :: "work \<Rightarrow> seconds option" where
  "send_deadline k = w_stopped_at k"

definition text_lane :: "config \<Rightarrow> text_service lane" where
  "text_lane cfg =
    \<lparr>ln_keys = c_keys cfg, ln_drain_deadline_s = c_drain_deadline_s cfg,
     ln_idle_timeout_s = c_idle_timeout_s cfg, ln_health_interval_s = c_health_interval_s cfg,
     ln_stop = stop_work cfg, ln_waiting = work_waiting, ln_outside = work_outside\<rparr>"

subsection \<open>A request until its acceptance\<close>

definition arrive :: "kind \<Rightarrow> caller \<Rightarrow> text_service \<Rightarrow> text_service" where
  "arrive kd ca s =
    ours_begin ca (s\<lparr>s_next := Suc (s_next s), s_works := (s_works s)(s_next s :=
      no_work\<lparr>w_kind := kd, w_caller := ca, w_phase := Reading\<rparr>)\<rparr>)"

definition prepare :: "config \<Rightarrow> (string \<Rightarrow> json_doc option) \<Rightarrow> kind \<Rightarrow> caller \<Rightarrow> string \<Rightarrow> chat_request result" where
  "prepare cfg loads kd ca raw =
    andthen (parse_json loads raw) (\<lambda>v.
    andthen (check_chat v (c_alias cfg) (c_vision cfg)) (\<lambda>r.
    andthen (require (\<not> (r_pictures r \<noteq> 0 \<and> \<not> k_vision (ca_key ca))) Vision_not_allowed) (\<lambda>_.
    andthen (if kd = Generation_work
        then andthen (check_max_tokens cfg ca r) (\<lambda>_.
             andthen (check_min_p cfg r) (\<lambda>_. check_thinking_budget cfg ca r))
        else Inr ()) (\<lambda>_.
    Inr r))))"

text \<open>
  From the body to the acceptance and the start of the task there is no await. A refusal, a body
  that comes too slowly and a client that leaves end the request.
\<close>

definition submit ::
  "config \<Rightarrow> (string \<Rightarrow> json_doc option) \<Rightarrow> seconds \<Rightarrow> string \<Rightarrow> nat \<Rightarrow> text_service \<Rightarrow> text_service result"
where
  "submit cfg loads now raw w s =
    andthen (prepare cfg loads (w_kind (s_works s w)) (w_caller (s_works s w)) raw) (\<lambda>r.
    andthen (accept w s) (\<lambda>s1.
    Inr (set_work w (\<lambda>k. k\<lparr>w_request := Some r, w_accepted_at := Some now, w_phase := Started\<rparr>) s1)))"

definition give_up :: "seconds \<Rightarrow> nat \<Rightarrow> text_service \<Rightarrow> text_service" where
  "give_up now w s = ours_end now (w_caller (s_works s w)) (set_phase w Over s)"

subsection \<open>The task of a request\<close>

text \<open>\<^verbatim>\<open>TextWork.count\<close> up to its first await, and the step from the grant to the engine's call.\<close>

definition count_enter :: "config \<Rightarrow> nat \<Rightarrow> text_service \<Rightarrow> text_service" where
  "count_enter cfg w s =
    (let ca = w_caller (s_works s w)
     in case cp_enter cfg (ca_cls ca) (outside_key ca) (s_counts s) of
          Inl e \<Rightarrow> set_phase w (Task_done (Ended_error e)) s
        | Inr (t, p) \<Rightarrow>
            set_work w (\<lambda>k. k\<lparr>w_count_place := Some t, w_phase := Count_wait\<rparr>) (s\<lparr>s_counts := p\<rparr>))"

text \<open>The \<^verbatim>\<open>finally\<close> of \<^verbatim>\<open>count\<close>.\<close>

definition count_leave :: "config \<Rightarrow> nat \<Rightarrow> text_service \<Rightarrow> text_service" where
  "count_leave cfg w s =
    (case w_count_place (s_works s w) of None \<Rightarrow> s | Some t \<Rightarrow> leave_count cfg t s)"

text \<open>The engine's count has come back: \<^verbatim>\<open>Count.run\<close> ends, \<^verbatim>\<open>Generation.run\<close> asks for a place.\<close>

definition counted :: "config \<Rightarrow> int \<Rightarrow> nat \<Rightarrow> text_service \<Rightarrow> text_service" where
  "counted cfg n w s =
    (let s1 = set_work w (\<lambda>k. k\<lparr>w_input_tokens := Some n\<rparr>) (count_leave cfg w s);
         ca = w_caller (s_works s w)
     in case w_kind (s_works s w) of
          Count_work \<Rightarrow> set_phase w (Task_done Ended_ok) s1
        | Generation_work \<Rightarrow>
            (case check_input cfg ca n (case w_request (s_works s w) of None \<Rightarrow> 0 | Some r \<Rightarrow> r_max_tokens r) s1 of
               Inl out \<Rightarrow> set_phase w (Task_done out) s1
             | Inr _ \<Rightarrow>
                 (case adm_enter cfg (ca_cls ca) (outside_key ca) (s_admission s1) of
                    Inl e \<Rightarrow> set_phase w (Task_done (Ended_error e)) s1
                  | Inr (t, a) \<Rightarrow>
                      set_work w (\<lambda>k. k\<lparr>w_ticket := Some t, w_phase := Place_wait\<rparr>) (s1\<lparr>s_admission := a\<rparr>))))"

definition count_failed :: "config \<Rightarrow> outcome \<Rightarrow> nat \<Rightarrow> text_service \<Rightarrow> text_service" where
  "count_failed cfg out w s = set_phase w (Task_done out) (count_leave cfg w s)"

text \<open>The place is granted: the engine is asked for the generation, which opens a stream or fails.\<close>

definition generate :: "nat \<Rightarrow> text_service \<Rightarrow> text_service" where
  "generate w s = set_work w (\<lambda>k. k\<lparr>w_phase := Opening, w_stream := True\<rparr>) s"

definition generate_failed :: "outcome \<Rightarrow> nat \<Rightarrow> text_service \<Rightarrow> text_service" where
  "generate_failed out w s = set_work w (\<lambda>k. k\<lparr>w_phase := Task_done out, w_stream := False\<rparr>) s"

text \<open>The cancellation arrives at the await where the task is.\<close>

definition cancelled :: "config \<Rightarrow> nat \<Rightarrow> text_service \<Rightarrow> text_service" where
  "cancelled cfg w s =
    (case w_phase (s_works s w) of
       Count_wait \<Rightarrow> count_failed cfg Ended_cancelled w s
     | Counting \<Rightarrow> count_failed cfg Ended_cancelled w s
     | Opening \<Rightarrow> generate_failed Ended_cancelled w s
     | _ \<Rightarrow> set_phase w (Task_done Ended_cancelled) s)"

text \<open>\<^verbatim>\<open>Generation.cleanup\<close>: the stream is closed, which is the abort, and then the place is freed.\<close>

definition cleanup :: "config \<Rightarrow> outcome \<Rightarrow> nat \<Rightarrow> text_service \<Rightarrow> text_service" where
  "cleanup cfg out w s =
    (let s1 = set_work w (\<lambda>k. k\<lparr>w_stream := False, w_phase := Answering out\<rparr>) s
     in case w_ticket (s_works s1 w) of None \<Rightarrow> s1 | Some t \<Rightarrow> leave_place cfg t s1)"

text \<open>
  What the terminal message holds: the answer, an error's code, or nothing. A stop names the code of
  \<^verbatim>\<open>STOP_CODES\<close>, and a client that left is told nothing.
\<close>

definition STOP_CODES :: "stop_reason \<Rightarrow> error_code option" where
  "STOP_CODES r =
    (case r of By_timeout \<Rightarrow> Some Timeout_code | By_draining \<Rightarrow> Some Draining_code
     | By_engine_changed \<Rightarrow> Some Engine_unavailable | _ \<Rightarrow> None)"

datatype terminal = Send_answer | Send_code error_code | Send_nothing

definition answer_outcome :: "outcome \<Rightarrow> work \<Rightarrow> terminal" where
  "answer_outcome out k =
    (case out of
       Ended_cancelled \<Rightarrow> (case Option.bind (w_stop_reason k) STOP_CODES of None \<Rightarrow> Send_nothing | Some c \<Rightarrow> Send_code c)
     | Ended_ok \<Rightarrow> Send_answer
     | Ended_error e \<Rightarrow> Send_code e
     | Ended_exception \<Rightarrow> Send_code Internal_error)"

text \<open>The terminal message was sent or given up: the service lets the work and the request go.\<close>

definition answered :: "seconds \<Rightarrow> nat \<Rightarrow> text_service \<Rightarrow> text_service" where
  "answered now w s = ours_end now (w_caller (s_works s w)) (release w (set_phase w Over s))"

subsection \<open>The engine's checks\<close>

definition engine_answered :: "config \<Rightarrow> seconds \<Rightarrow> int option \<Rightarrow> text_service \<Rightarrow> text_service" where
  "engine_answered cfg now len s =
    (case s_engine_length s of
       None \<Rightarrow>
         (case len of None \<Rightarrow> s
          | Some n \<Rightarrow>
              let s1 = s\<lparr>s_engine_length := Some n, s_context_tokens := Some
                    (case c_context_tokens cfg of None \<Rightarrow> n | Some limit \<Rightarrow> min n limit)\<rparr>
              in engine_ready (first_verified (text_lane cfg) now s1))
     | Some l \<Rightarrow>
         if len \<noteq> Some l then engine_changes (text_lane cfg) now s else engine_ready s)"

end
