(* ===== verification/Text_Steps.thy ===== *)
theory Text_Steps
  imports Text_Service
begin

text \<open>
  The runs of the text service: the step relation \<open>tstep\<close> over the operations of \<open>Text_Service\<close> and
  \<open>Lifecycle\<close>, the states \<open>reached\<close> by it, and the invariant of their places and of their books.
  The clock never goes back, and a timer's operation comes no earlier than the timer is due.
\<close>

subsection \<open>Steps\<close>

definition awaits :: "nat \<Rightarrow> phase \<Rightarrow> text_service \<Rightarrow> bool" where
  "awaits w p s \<longleftrightarrow> w_phase (s_works s w) = p \<and> \<not> w_cancel (s_works s w)"

definition by_itself :: "outcome \<Rightarrow> bool" where
  "by_itself out \<longleftrightarrow> out \<noteq> Ended_cancelled"

definition wall_over :: "config \<Rightarrow> seconds \<Rightarrow> work \<Rightarrow> bool" where
  "wall_over cfg now k = (case w_accepted_at k of None \<Rightarrow> False
     | Some a \<Rightarrow> a + cl_wall_s (c_limits cfg (ca_cls (w_caller k))) \<le> now)"

inductive tstep :: "config \<Rightarrow> seconds \<Rightarrow> text_service \<Rightarrow> text_service \<Rightarrow> bool" for cfg now s where
  arrives: "authorize sha256 (c_keys cfg) auth ch sh s = Inr ca \<Longrightarrow> tstep cfg now s (arrive kd ca s)"
| gives_up: "w_phase (s_works s w) = Reading \<Longrightarrow> tstep cfg now s (give_up now w s)"
| submits: "w_phase (s_works s w) = Reading \<Longrightarrow> submit cfg loads now raw w s = Inr s' \<Longrightarrow> tstep cfg now s s'"
| count_enters: "awaits w Started s \<Longrightarrow> tstep cfg now s (count_enter cfg w s)"
| count_granted: "awaits w Count_wait s \<Longrightarrow> w_count_place (s_works s w) = Some t \<Longrightarrow> has_grant (s_counts s) t \<Longrightarrow>
    tstep cfg now s (set_phase w Counting s)"
| counts: "awaits w Counting s \<Longrightarrow> 1 \<le> n \<Longrightarrow> tstep cfg now s (counted cfg n w s)"
| count_fails: "awaits w Counting s \<Longrightarrow> by_itself out \<Longrightarrow> tstep cfg now s (count_failed cfg out w s)"
| place_granted: "awaits w Place_wait s \<Longrightarrow> w_ticket (s_works s w) = Some t \<Longrightarrow> has_grant (s_admission s) t \<Longrightarrow>
    tstep cfg now s (generate w s)"
| generated: "awaits w Opening s \<Longrightarrow> tstep cfg now s (set_phase w Streaming s)"
| generate_fails: "awaits w Opening s \<Longrightarrow> by_itself out \<Longrightarrow> tstep cfg now s (generate_failed out w s)"
| stream_ends: "awaits w Streaming s \<Longrightarrow> by_itself out \<Longrightarrow> tstep cfg now s (set_phase w (Task_done out) s)"
| cancels: "task_runs (s_works s w) \<Longrightarrow> w_cancel (s_works s w) \<Longrightarrow> tstep cfg now s (cancelled cfg w s)"
| cleans: "w_phase (s_works s w) = Task_done out \<Longrightarrow> tstep cfg now s (cleanup cfg out w s)"
| answers: "w_phase (s_works s w) = Answering out \<Longrightarrow> tstep cfg now s (answered now w s)"
| stops: "r \<in> {By_disconnect, By_shutdown} \<or> r = By_timeout \<and> wall_over cfg now (s_works s w) \<Longrightarrow>
    w \<in> set (l_work s) \<Longrightarrow> tstep cfg now s (stop_work cfg now r w s)"
| drains: "drain (text_lane cfg) now boot s = Inr s' \<Longrightarrow> tstep cfg now s s'"
| sleeps: "sleep (text_lane cfg) now boot s = Inr s' \<Longrightarrow> tstep cfg now s s'"
| opens: "open_service boot g s = Inr s' \<Longrightarrow> tstep cfg now s s'"
| idle_due: "l_idle s = Some d \<Longrightarrow> d \<le> now \<Longrightarrow> tstep cfg now s (idle_check (text_lane cfg) now s)"
| deadline_due: "l_deadline s = Some d \<Longrightarrow> d \<le> now \<Longrightarrow> tstep cfg now s (drain_deadline (text_lane cfg) now s)"
| sleep_task: "sleep_then_stop now s = Some s' \<Longrightarrow> tstep cfg now s s'"
| check_fails: "tstep cfg now s (check_failed s)"
| engine_answers: "tstep cfg now s (engine_answered cfg now n s)"

inductive reached :: "config \<Rightarrow> string \<Rightarrow> seconds \<Rightarrow> text_service \<Rightarrow> bool" for cfg boot where
  boots: "0 \<le> t \<Longrightarrow> reached cfg boot t (service_init boot)"
| steps: "reached cfg boot t s \<Longrightarrow> t \<le> t' \<Longrightarrow> tstep cfg t' s s' \<Longrightarrow> reached cfg boot t' s'"

text \<open>From one state on, with the same clock.\<close>

inductive trun :: "config \<Rightarrow> seconds \<Rightarrow> text_service \<Rightarrow> seconds \<Rightarrow> text_service \<Rightarrow> bool" for cfg t s where
  trun_start: "trun cfg t s t s"
| trun_step: "trun cfg t s t1 s1 \<Longrightarrow> t1 \<le> t2 \<Longrightarrow> tstep cfg t2 s1 s2 \<Longrightarrow> trun cfg t s t2 s2"

lemma reached_trun: "trun cfg t s t' s' \<Longrightarrow> reached cfg boot t s \<Longrightarrow> reached cfg boot t' s'"
  by (induction rule: trun.induct) (auto intro: reached.steps)

subsection \<open>The invariant of the places\<close>

definition count_left :: "count_places \<Rightarrow> work \<Rightarrow> bool" where
  "count_left p k \<longleftrightarrow> (\<forall>t. w_count_place k = Some t \<longrightarrow> d_state p t = Left)"

definition place_left :: "admission \<Rightarrow> work \<Rightarrow> bool" where
  "place_left a k \<longleftrightarrow> (\<forall>t. w_ticket k = Some t \<longrightarrow> d_state a t = Left)"

definition counts_now :: "tstate set \<Rightarrow> count_places \<Rightarrow> work \<Rightarrow> bool" where
  "counts_now S p k \<longleftrightarrow> (\<exists>t. w_count_place k = Some t \<and> d_state p t \<in> S)"

definition holds_place :: "admission \<Rightarrow> work \<Rightarrow> bool" where
  "holds_place a k \<longleftrightarrow> (\<exists>t. w_ticket k = Some t \<and> d_state a t = Active)"

definition waits_no_more :: "admission \<Rightarrow> work \<Rightarrow> bool" where
  "waits_no_more a k \<longleftrightarrow> (\<forall>t. w_ticket k = Some t \<longrightarrow> d_state a t \<noteq> Waiting)"

text \<open>What a request holds at each of its awaits.\<close>

fun phase_ok :: "phase \<Rightarrow> admission \<Rightarrow> count_places \<Rightarrow> work \<Rightarrow> bool" where
  "phase_ok Count_wait a p k \<longleftrightarrow> counts_now {Waiting, Active} p k \<and> w_ticket k = None \<and> \<not> w_stream k"
| "phase_ok Counting a p k \<longleftrightarrow> counts_now {Active} p k \<and> w_ticket k = None \<and> \<not> w_stream k"
| "phase_ok Place_wait a p k \<longleftrightarrow> count_left p k \<and> \<not> w_stream k \<and> w_kind k = Generation_work \<and>
     (\<exists>t. w_ticket k = Some t \<and> (if w_cancel k then d_state a t \<noteq> Waiting else d_state a t \<noteq> Left))"
| "phase_ok Opening a p k \<longleftrightarrow> count_left p k \<and> holds_place a k \<and> w_kind k = Generation_work"
| "phase_ok Streaming a p k \<longleftrightarrow> count_left p k \<and> holds_place a k \<and> w_kind k = Generation_work"
| "phase_ok (Task_done out) a p k \<longleftrightarrow> count_left p k \<and> (w_stream k \<longrightarrow> holds_place a k) \<and> waits_no_more a k"
| "phase_ok (Answering out) a p k \<longleftrightarrow> count_left p k \<and> place_left a k \<and> \<not> w_stream k"
| "phase_ok Over a p k \<longleftrightarrow> count_left p k \<and> place_left a k \<and> \<not> w_stream k"
| "phase_ok _ a p k \<longleftrightarrow> w_count_place k = None \<and> w_ticket k = None \<and> \<not> w_stream k"

definition tickets_ok :: "work \<Rightarrow> bool" where
  "tickets_ok k \<longleftrightarrow>
     (\<forall>t. w_ticket k = Some t \<or> w_count_place k = Some t \<longrightarrow>
        t_cls t = ca_cls (w_caller k) \<and> t_owner t = outside_key (w_caller k))"

definition work_ok :: "admission \<Rightarrow> count_places \<Rightarrow> work \<Rightarrow> bool" where
  "work_ok a p k \<longleftrightarrow> phase_ok (w_phase k) a p k \<and> tickets_ok k"

definition places_inv :: "config \<Rightarrow> admission \<Rightarrow> count_places \<Rightarrow> (nat \<Rightarrow> work) \<Rightarrow> bool" where
  "places_inv cfg a p f \<longleftrightarrow>
     adm_sound cfg a \<and> cp_sound cfg p \<and>
     owned d_state d_next a (\<lambda>w. w_ticket (f w)) \<and> owned d_state d_next p (\<lambda>w. w_count_place (f w)) \<and>
     (\<forall>w. work_ok a p (f w))"

definition moved :: "'a desk_scheme \<Rightarrow> 'a desk_scheme \<Rightarrow> ticket \<Rightarrow> bool" where
  "moved d d' t \<longleftrightarrow> d_state d' t = d_state d t \<or> d_state d t = Waiting \<and> d_state d' t = Active"

lemma phase_ok_moved:
  assumes "phase_ok ph a p k"
    and "\<And>t. w_ticket k = Some t \<Longrightarrow> moved a a' t" and "\<And>t. w_count_place k = Some t \<Longrightarrow> moved p p' t"
  shows "phase_ok ph a' p' k"
proof -
  have c: "count_left p' k" if "count_left p k"
    using that assms(3) by (force simp: count_left_def moved_def)
  have l: "place_left a' k" if "place_left a k"
    using that assms(2) by (force simp: place_left_def moved_def)
  have h: "holds_place a' k" if "holds_place a k"
    using that assms(2) by (force simp: holds_place_def moved_def)
  have w: "counts_now {Waiting, Active} p' k" if "counts_now {Waiting, Active} p k"
    using that assms(3) by (force simp: counts_now_def moved_def)
  have n: "counts_now {Active} p' k" if "counts_now {Active} p k"
    using that assms(3) by (force simp: counts_now_def moved_def)
  have t: "\<exists>t. w_ticket k = Some t \<and> (if w_cancel k then d_state a' t \<noteq> Waiting else d_state a' t \<noteq> Left)"
    if "\<exists>t. w_ticket k = Some t \<and> (if w_cancel k then d_state a t \<noteq> Waiting else d_state a t \<noteq> Left)"
    using that assms(2) by (force simp: moved_def split: if_splits)
  have z: "waits_no_more a' k" if "waits_no_more a k"
    using that assms(2) by (force simp: waits_no_more_def moved_def)
  show ?thesis using assms(1) by (cases ph) (simp_all add: c l h w n t z)
qed

lemma work_ok_moved:
  assumes "work_ok a p k"
    and "\<And>t. w_ticket k = Some t \<Longrightarrow> moved a a' t" and "\<And>t. w_count_place k = Some t \<Longrightarrow> moved p p' t"
  shows "work_ok a' p' k"
  using assms phase_ok_moved by (auto simp: work_ok_def)

lemma moved_refl [simp]: "moved d d t"
  by (simp add: moved_def)

text \<open>One work changes, and the desks change around the tickets of the others.\<close>

lemma places_upd:
  assumes "places_inv cfg a p f" and "adm_sound cfg a'" and "cp_sound cfg p'"
    and "owned d_state d_next a' (\<lambda>v. w_ticket ((f(w := k)) v))"
    and "owned d_state d_next p' (\<lambda>v. w_count_place ((f(w := k)) v))"
    and "work_ok a' p' k"
    and "\<And>v t. v \<noteq> w \<Longrightarrow> w_ticket (f v) = Some t \<Longrightarrow> moved a a' t"
    and "\<And>v t. v \<noteq> w \<Longrightarrow> w_count_place (f v) = Some t \<Longrightarrow> moved p p' t"
  shows "places_inv cfg a' p' (f(w := k))"
proof -
  have "work_ok a' p' ((f(w := k)) v)" for v
    using assms(1,6-8) by (cases "v = w") (auto simp: places_inv_def intro: work_ok_moved)
  with assms show ?thesis by (simp add: places_inv_def)
qed

text \<open>The desks stay, and the work keeps its tickets.\<close>

lemma places_upd_work:
  assumes "places_inv cfg a p f" and "w_ticket k = w_ticket (f w)" and "w_count_place k = w_count_place (f w)"
    and "work_ok a p k"
  shows "places_inv cfg a p (f(w := k))"
proof -
  have "(\<lambda>v. w_ticket ((f(w := k)) v)) = (\<lambda>v. w_ticket (f v))"
    "(\<lambda>v. w_count_place ((f(w := k)) v)) = (\<lambda>v. w_count_place (f v))"
    using assms(2,3) by auto
  with assms(1,4) show ?thesis
    by (intro places_upd) (auto simp: places_inv_def simp del: fun_upd_apply)
qed

subsection \<open>Entering and leaving a desk\<close>

lemma places_leave:
  assumes "places_inv cfg a p f" and "w_ticket (f w) = Some t" and "adm_leave cfg t a = Some a'"
    and "w_ticket k = Some t" and "w_count_place k = w_count_place (f w)" and "work_ok a' p k"
  shows "places_inv cfg a' p (f(w := k))"
proof -
  have s: "adm_sound cfg a" and o: "owned d_state d_next a (\<lambda>w. w_ticket (f w))"
    and p: "cp_sound cfg p" "owned d_state d_next p (\<lambda>w. w_count_place (f w))"
    using assms(1) by (simp_all add: places_inv_def)
  have f: "(\<lambda>v. w_ticket ((f(w := k)) v)) = (\<lambda>v. w_ticket (f v))"
    "(\<lambda>v. w_count_place ((f(w := k)) v)) = (\<lambda>v. w_count_place (f v))"
    using assms(2,4,5) by auto
  show ?thesis
  proof (rule places_upd [OF assms(1) _ p(1) _ _ assms(6)])
    show "adm_sound cfg a'" by (rule gens.leave_inv [OF s assms(3)])
    show "owned d_state d_next a' (\<lambda>v. w_ticket ((f(w := k)) v))"
      unfolding f by (rule gens.owned_leave [OF s o assms(3)])
    show "owned d_state d_next p (\<lambda>v. w_count_place ((f(w := k)) v))" unfolding f by (rule p(2))
    fix v u
    assume v: "v \<noteq> w" "w_ticket (f v) = Some u"
    then have "u \<noteq> t" using gens.owned_other [OF o, of w t v u] assms(2) by simp
    then show "moved a a' u" using gens.leave_frame [OF s assms(3)] by (simp add: moved_def)
  qed simp
qed

lemma counts_leave:
  assumes "places_inv cfg a p f" and "w_count_place (f w) = Some t" and "cp_leave cfg t p = Some p'"
    and "w_count_place k = Some t" and "w_ticket k = w_ticket (f w)" and "work_ok a p' k"
  shows "places_inv cfg a p' (f(w := k))"
proof -
  have s: "cp_sound cfg p" and o: "owned d_state d_next p (\<lambda>w. w_count_place (f w))"
    and a: "adm_sound cfg a" "owned d_state d_next a (\<lambda>w. w_ticket (f w))"
    using assms(1) by (simp_all add: places_inv_def)
  have f: "(\<lambda>v. w_ticket ((f(w := k)) v)) = (\<lambda>v. w_ticket (f v))"
    "(\<lambda>v. w_count_place ((f(w := k)) v)) = (\<lambda>v. w_count_place (f v))"
    using assms(2,4,5) by auto
  show ?thesis
  proof (rule places_upd [OF assms(1) a(1) _ _ _ assms(6)])
    show "cp_sound cfg p'" by (rule cnts.leave_inv [OF s assms(3)])
    show "owned d_state d_next p' (\<lambda>v. w_count_place ((f(w := k)) v))"
      unfolding f by (rule cnts.owned_leave [OF s o assms(3)])
    show "owned d_state d_next a (\<lambda>v. w_ticket ((f(w := k)) v))" unfolding f by (rule a(2))
    fix v u
    assume v: "v \<noteq> w" "w_count_place (f v) = Some u"
    then have "u \<noteq> t" using cnts.owned_other [OF o, of w t v u] assms(2) by simp
    then show "moved p p' u" using cnts.leave_frame [OF s assms(3)] by (simp add: moved_def)
  qed simp
qed

lemma places_enter:
  assumes "places_inv cfg a p f" and "w_ticket (f w) = None" and "adm_enter cfg c ow a = Inr (t, a')"
    and "w_ticket k = Some t" and "w_count_place k = w_count_place (f w)" and "work_ok a' p k"
  shows "places_inv cfg a' p (f(w := k))"
proof -
  have s: "adm_sound cfg a" and o: "owned d_state d_next a (\<lambda>w. w_ticket (f w))"
    and p: "cp_sound cfg p" "owned d_state d_next p (\<lambda>w. w_count_place (f w))"
    using assms(1) by (simp_all add: places_inv_def)
  have f: "(\<lambda>v. w_ticket ((f(w := k)) v)) = (\<lambda>v. w_ticket (f v))(w := Some t)"
    "(\<lambda>v. w_count_place ((f(w := k)) v)) = (\<lambda>v. w_count_place (f v))"
    using assms(4,5) by auto
  show ?thesis
  proof (rule places_upd [OF assms(1) _ p(1) _ _ assms(6)])
    show "adm_sound cfg a'" by (rule gens.enter_inv [OF s assms(3)])
    show "owned d_state d_next a' (\<lambda>v. w_ticket ((f(w := k)) v))"
      unfolding f by (rule gens.owned_enter [OF s o assms(3)]) (rule assms(2))
    show "owned d_state d_next p (\<lambda>v. w_count_place ((f(w := k)) v))" unfolding f by (rule p(2))
    fix v u
    assume v: "v \<noteq> w" "w_ticket (f v) = Some u"
    then have "t_id u < d_next a" using o by (auto simp: owned_def)
    then have "u \<noteq> t" using gens.enter_number [OF s assms(3)] by auto
    then show "moved a a' u" using gens.enter_frame [OF s assms(3)] by (simp add: moved_def)
  qed simp
qed

lemma counts_enter:
  assumes "places_inv cfg a p f" and "w_count_place (f w) = None" and "cp_enter cfg c ow p = Inr (t, p')"
    and "w_count_place k = Some t" and "w_ticket k = w_ticket (f w)" and "work_ok a p' k"
  shows "places_inv cfg a p' (f(w := k))"
proof -
  have s: "cp_sound cfg p" and o: "owned d_state d_next p (\<lambda>w. w_count_place (f w))"
    and a: "adm_sound cfg a" "owned d_state d_next a (\<lambda>w. w_ticket (f w))"
    using assms(1) by (simp_all add: places_inv_def)
  have f: "(\<lambda>v. w_ticket ((f(w := k)) v)) = (\<lambda>v. w_ticket (f v))"
    "(\<lambda>v. w_count_place ((f(w := k)) v)) = (\<lambda>v. w_count_place (f v))(w := Some t)"
    using assms(4,5) by auto
  show ?thesis
  proof (rule places_upd [OF assms(1) a(1) _ _ _ assms(6)])
    show "cp_sound cfg p'" by (rule cnts.enter_inv [OF s assms(3)])
    show "owned d_state d_next p' (\<lambda>v. w_count_place ((f(w := k)) v))"
      unfolding f by (rule cnts.owned_enter [OF s o assms(3)]) (rule assms(2))
    show "owned d_state d_next a (\<lambda>v. w_ticket ((f(w := k)) v))" unfolding f by (rule a(2))
    fix v u
    assume v: "v \<noteq> w" "w_count_place (f v) = Some u"
    then have "t_id u < d_next p" using o by (auto simp: owned_def)
    then have "u \<noteq> t" using cnts.enter_number [OF s assms(3)] by auto
    then show "moved p p' u" using cnts.enter_frame [OF s assms(3)] by (simp add: moved_def)
  qed simp
qed

lemma owned_states:
  assumes "d_state d' = d_state d" "d_next d' = d_next d"
  shows "owned d_state d_next d' f = owned d_state d_next d f"
  using assms by (simp add: owned_def)

text \<open>A cancelled wait changes no state of a ticket.\<close>

lemma places_cancel:
  assumes "places_inv cfg a p f"
  shows "places_inv cfg (cancel_wait t a) p f" and "places_inv cfg a (cancel_wait t p) f"
proof -
  have a: "adm_sound cfg (cancel_wait t a)" and p: "cp_sound cfg (cancel_wait t p)"
    using assms gens.cancel_inv cnts.cancel_inv by (auto simp: places_inv_def)
  have k: "work_ok a p (f v)" for v using assms by (simp add: places_inv_def)
  have "work_ok (cancel_wait t a) p (f v)" "work_ok a (cancel_wait t p) (f v)" for v
    by (rule work_ok_moved [OF k]; simp add: moved_def)+
  with assms a p show "places_inv cfg (cancel_wait t a) p f" "places_inv cfg a (cancel_wait t p) f"
    by (simp_all add: places_inv_def owned_states [of "cancel_wait t a" a] owned_states [of "cancel_wait t p" p])
qed

subsection \<open>Every operation keeps the places\<close>

abbreviation places :: "config \<Rightarrow> text_service \<Rightarrow> bool" where
  "places cfg s \<equiv> places_inv cfg (s_admission s) (s_counts s) (s_works s)"

lemma places_work: "places cfg s \<Longrightarrow> work_ok (s_admission s) (s_counts s) (s_works s w)"
  by (simp add: places_inv_def)

lemma set_work_places:
  assumes "places cfg s" and "w_ticket (g (s_works s w)) = w_ticket (s_works s w)"
    and "w_count_place (g (s_works s w)) = w_count_place (s_works s w)"
    and "work_ok (s_admission s) (s_counts s) (g (s_works s w))"
  shows "places cfg (set_work w g s)"
  using places_upd_work [OF assms(1-4)] by (simp add: set_work_def)

text \<open>Leaving a place: the desk's state and what stays as it was.\<close>

lemma leave_place_eq:
  assumes "places cfg s"
  obtains a where "leave_place cfg t s = s\<lparr>s_admission := a\<rparr>" "adm_leave cfg t (s_admission s) = Some a"
    "d_state a t = Left"
proof -
  have a: "adm_sound cfg (s_admission s)" using assms by (simp add: places_inv_def)
  from gens.leave_returns [OF a] obtain a' where "adm_leave cfg t (s_admission s) = Some a'" by blast
  with gens.leave_left [OF a this] that show ?thesis by (simp add: leave_place_def)
qed

lemma leave_count_eq:
  assumes "places cfg s"
  obtains p where "leave_count cfg t s = s\<lparr>s_counts := p\<rparr>" "cp_leave cfg t (s_counts s) = Some p"
    "d_state p t = Left"
proof -
  have p: "cp_sound cfg (s_counts s)" using assms by (simp add: places_inv_def)
  from cnts.leave_returns [OF p] obtain p' where "cp_leave cfg t (s_counts s) = Some p'" by blast
  with cnts.leave_left [OF p this] that show ?thesis by (simp add: leave_count_def)
qed

lemma leave_place_set_places:
  assumes "places cfg s" and "w_ticket (s_works s w) = Some t"
    and "w_ticket (g (s_works s w)) = Some t" "w_count_place (g (s_works s w)) = w_count_place (s_works s w)"
    and "\<And>a. d_state a t = Left \<Longrightarrow> work_ok a (s_counts s) (g (s_works s w))"
  shows "places cfg (set_work w g (leave_place cfg t s))"
proof -
  obtain a where a: "leave_place cfg t s = s\<lparr>s_admission := a\<rparr>"
    "adm_leave cfg t (s_admission s) = Some a" "d_state a t = Left"
    by (rule leave_place_eq [OF assms(1)])
  have "places_inv cfg a (s_counts s) ((s_works s)(w := g (s_works s w)))"
    by (rule places_leave [OF assms(1,2) a(2) assms(3,4)]) (rule assms(5) [OF a(3)])
  with a(1) show ?thesis by (simp add: set_work_def)
qed

lemma leave_count_set_places:
  assumes "places cfg s" and "w_count_place (s_works s w) = Some t"
    and "w_count_place (g (s_works s w)) = Some t" "w_ticket (g (s_works s w)) = w_ticket (s_works s w)"
    and "\<And>p. d_state p t = Left \<Longrightarrow> work_ok (s_admission s) p (g (s_works s w))"
  shows "places cfg (set_work w g (leave_count cfg t s))"
proof -
  obtain p where p: "leave_count cfg t s = s\<lparr>s_counts := p\<rparr>"
    "cp_leave cfg t (s_counts s) = Some p" "d_state p t = Left"
    by (rule leave_count_eq [OF assms(1)])
  have "places_inv cfg (s_admission s) p ((s_works s)(w := g (s_works s w)))"
    by (rule counts_leave [OF assms(1,2) p(2) assms(3,4)]) (rule assms(5) [OF p(3)])
  with p(1) show ?thesis by (simp add: set_work_def)
qed

lemma set_work_set_work: "set_work w g (set_work w h s) = set_work w (g \<circ> h) s"
  by (simp add: set_work_def)

lemma leave_place_commute:
  "leave_place cfg t (set_work w g s) = set_work w g (leave_place cfg t s)"
  by (simp add: leave_place_def set_work_def split: option.splits)

lemma leave_count_commute:
  "leave_count cfg t (set_work w g s) = set_work w g (leave_count cfg t s)"
  by (simp add: leave_count_def set_work_def split: option.splits)

lemma cancel_task_places:
  assumes "places cfg (set_work w (\<lambda>k. k\<lparr>w_cancel := True\<rparr>) s)"
  shows "places cfg (cancel_task w s)"
  using assms places_cancel [OF assms]
  by (auto simp: cancel_task_def Let_def split: phase.splits option.splits)

lemma work_ok_fields:
  "work_ok a p (k\<lparr>w_stop_reason := r, w_stopped_at := u\<rparr>) = work_ok a p k"
  "work_ok a p (k\<lparr>w_input_tokens := n\<rparr>) = work_ok a p k"
  by (cases "w_phase k"; simp add: work_ok_def tickets_ok_def count_left_def place_left_def
      counts_now_def holds_place_def waits_no_more_def)+

lemma work_ok_cancel:
  "work_ok a p k \<Longrightarrow> (\<And>t. w_ticket k = Some t \<Longrightarrow> d_state a t \<noteq> Waiting) \<Longrightarrow> work_ok a p (k\<lparr>w_cancel := True\<rparr>)"
  by (cases "w_phase k"; auto simp: work_ok_def tickets_ok_def count_left_def place_left_def
      counts_now_def holds_place_def waits_no_more_def)

lemma stop_work_places:
  assumes "places cfg s"
  shows "places cfg (stop_work cfg now r w s)"
proof (cases "\<not> has_task (s_works s w) \<or> w_stop_reason (s_works s w) \<noteq> None")
  case True
  with assms show ?thesis by (auto simp: stop_work_def)
next
  case False
  let ?g = "\<lambda>k. k\<lparr>w_stop_reason := Some r, w_stopped_at := Some now\<rparr>"
  let ?c = "\<lambda>k. k\<lparr>w_cancel := True\<rparr>"
  let ?s = "set_work w ?g s"
  have s1: "places cfg ?s"
    by (rule set_work_places [OF assms]) (simp_all add: work_ok_fields places_work [OF assms])
  show ?thesis
  proof (cases "task_runs (s_works s w)")
    case False
    with s1 \<open>\<not> (\<not> has_task (s_works s w) \<or> w_stop_reason (s_works s w) \<noteq> None)\<close> show ?thesis
      by (auto simp: stop_work_def Let_def)
  next
    case True
    have "places cfg (set_work w ?c (stopping cfg w ?s))"
    proof (cases "\<exists>t. w_ticket (s_works ?s w) = Some t \<and> waiting (s_admission ?s) t")
      case False
      then have "stopping cfg w ?s = ?s" by (auto simp: stopping_def split: option.splits)
      moreover have "places cfg (set_work w ?c ?s)"
        by (rule set_work_places [OF s1])
          (use False in \<open>auto simp: waiting_def intro!: work_ok_cancel places_work [OF s1]\<close>)
      ultimately show ?thesis by simp
    next
      case True
      then obtain t where t: "w_ticket (s_works ?s w) = Some t" "waiting (s_admission ?s) t" by blast
      have k: "work_ok (s_admission ?s) (s_counts ?s) (s_works ?s w)" by (rule places_work [OF s1])
      have "w_phase (s_works ?s w) = Place_wait"
        using k t \<open>task_runs (s_works s w)\<close>
        by (auto simp: work_ok_def task_runs_def waiting_def set_work_def holds_place_def)
      with k t have "work_ok a (s_counts ?s) (?c (s_works ?s w))" if "d_state a t = Left" for a
        using that by (auto simp: work_ok_def tickets_ok_def count_left_def)
      from leave_place_set_places [OF s1 t(1), of ?c, OF _ _ this] t show ?thesis
        by (simp add: stopping_def)
    qed
    from cancel_task_places [OF this] \<open>task_runs (s_works s w)\<close> False show ?thesis
      by (auto simp: stop_work_def Let_def)
  qed
qed

lemmas work_ok_defs = work_ok_def tickets_ok_def count_left_def place_left_def counts_now_def holds_place_def
  waits_no_more_def

lemma set_phase_places:
  assumes "places cfg s" and "phase_ok ph (s_admission s) (s_counts s) ((s_works s w)\<lparr>w_phase := ph\<rparr>)"
  shows "places cfg (set_phase w ph s)"
  unfolding set_phase_def
  by (rule set_work_places [OF assms(1)])
    (use assms(2) places_work [OF assms(1), of w] in \<open>simp_all add: work_ok_def tickets_ok_def\<close>)

lemma count_enter_places:
  assumes "places cfg s" and "w_phase (s_works s w) = Started"
  shows "places cfg (count_enter cfg w s)"
proof -
  let ?k = "s_works s w"
  have k: "w_count_place ?k = None" "w_ticket ?k = None" "\<not> w_stream ?k"
    using places_work [OF assms(1), of w] assms(2) by (simp_all add: work_ok_def)
  have p: "cp_sound cfg (s_counts s)" using assms(1) by (simp add: places_inv_def)
  show ?thesis
  proof (cases "cp_enter cfg (ca_cls (w_caller ?k)) (outside_key (w_caller ?k)) (s_counts s)")
    case (Inl e)
    with k show ?thesis
      by (simp add: count_enter_def Let_def) (rule set_phase_places [OF assms(1)], simp add: count_left_def waits_no_more_def)
  next
    case (Inr r)
    then obtain t p' where e: "cp_enter cfg (ca_cls (w_caller ?k)) (outside_key (w_caller ?k)) (s_counts s)
        = Inr (t, p')" by (cases r) simp
    have t: "t_cls t = ca_cls (w_caller ?k)" "t_owner t = outside_key (w_caller ?k)" "d_state p' t \<noteq> Left"
      using cnts.enter_new [OF p e] by simp_all
    have "places_inv cfg (s_admission s) p'
        ((s_works s)(w := ?k\<lparr>w_count_place := Some t, w_phase := Count_wait\<rparr>))"
      by (rule counts_enter [OF assms(1) k(1) e])
        (use k t tstate.exhaust [of "d_state p' t"] in \<open>auto simp: work_ok_def tickets_ok_def counts_now_def\<close>)
    with e show ?thesis by (simp add: count_enter_def set_work_def)
  qed
qed

lemma count_leave_set_places:
  assumes "places cfg s" and "w_phase (s_works s w) \<in> {Count_wait, Counting}"
    and "w_count_place (g (s_works s w)) = w_count_place (s_works s w)"
    and "w_ticket (g (s_works s w)) = None" and "w_caller (g (s_works s w)) = w_caller (s_works s w)"
    and "\<And>p. count_left p (s_works s w) \<Longrightarrow> phase_ok (w_phase (g (s_works s w))) (s_admission s) p (g (s_works s w))"
  shows "places cfg (set_work w g (count_leave cfg w s))"
proof -
  have k: "work_ok (s_admission s) (s_counts s) (s_works s w)" by (rule places_work [OF assms(1)])
  with assms(2) obtain t where t: "w_count_place (s_works s w) = Some t" and n: "w_ticket (s_works s w) = None"
    by (auto simp: work_ok_def counts_now_def)
  have "places cfg (set_work w g (leave_count cfg t s))"
  proof (rule leave_count_set_places [OF assms(1) t])
    fix p :: count_places
    assume "d_state p t = Left"
    then have "count_left p (s_works s w)" using t by (simp add: count_left_def)
    with assms(3-6) k t show "work_ok (s_admission s) p (g (s_works s w))"
      by (simp add: work_ok_def tickets_ok_def)
  qed (use assms(3,4) t n in simp_all)
  with t show ?thesis by (simp add: count_leave_def)
qed

lemma count_failed_places:
  assumes "places cfg s" and "w_phase (s_works s w) \<in> {Count_wait, Counting}"
  shows "places cfg (count_failed cfg out w s)"
  unfolding count_failed_def set_phase_def
  using places_work [OF assms(1), of w] assms(2)
  by (intro count_leave_set_places [OF assms]) (auto simp: work_ok_def count_left_def waits_no_more_def)

lemma count_leave_works [simp]:
  "s_works (count_leave cfg w s) = s_works s" "s_admission (count_leave cfg w s) = s_admission s"
  by (simp_all add: count_leave_def leave_count_def split: option.splits)

lemma counted_places:
  assumes "places cfg s" and "w_phase (s_works s w) = Counting" and "\<not> w_cancel (s_works s w)"
  shows "places cfg (counted cfg n w s)"
proof -
  let ?k = "s_works s w" and ?in = "\<lambda>k. k\<lparr>w_input_tokens := Some n\<rparr>"
  let ?s1 = "set_work w ?in (count_leave cfg w s)"
  have k: "w_ticket ?k = None" "\<not> w_stream ?k"
    using places_work [OF assms(1), of w] assms(2) by (simp_all add: work_ok_def)
  have fin: "places cfg (set_phase w (Task_done out) ?s1)" for out
    unfolding set_phase_def set_work_set_work
    using assms(2) k by (intro count_leave_set_places [OF assms(1)]) (auto simp: count_left_def waits_no_more_def)
  show ?thesis
  proof (cases "w_kind ?k")
    case Count_work
    with fin show ?thesis by (simp add: counted_def Let_def)
  next
    case Generation_work
    let ?m = "case w_request ?k of None \<Rightarrow> 0 | Some r \<Rightarrow> r_max_tokens r"
    show ?thesis
    proof (cases "check_input cfg (w_caller ?k) n ?m ?s1")
      case (Inl e)
      with Generation_work fin show ?thesis by (simp add: counted_def Let_def)
    next
      case (Inr u)
      note ci = Inr
      show ?thesis
      proof (cases "adm_enter cfg (ca_cls (w_caller ?k)) (outside_key (w_caller ?k)) (s_admission ?s1)")
        case (Inl e)
        with ci Generation_work fin show ?thesis by (simp add: counted_def Let_def)
      next
        case (Inr r)
        then obtain t a where e: "adm_enter cfg (ca_cls (w_caller ?k)) (outside_key (w_caller ?k)) (s_admission ?s1)
            = Inr (t, a)" by (cases r) simp
        let ?s2 = "set_phase w (Task_done Ended_ok) ?s1"
        let ?f = "\<lambda>k. k\<lparr>w_ticket := Some t, w_phase := Place_wait\<rparr>"
        have s2: "places cfg ?s2" by (rule fin)
        then have a: "adm_sound cfg (s_admission ?s2)" by (simp add: places_inv_def)
        have sa: "s_admission ?s1 = s_admission ?s2" by (simp add: set_phase_def set_work_def)
        have w2: "s_works ?s2 w = ?k\<lparr>w_input_tokens := Some n, w_phase := Task_done Ended_ok\<rparr>"
          by (simp add: set_phase_def set_work_def)
        have e2: "adm_enter cfg (ca_cls (w_caller ?k)) (outside_key (w_caller ?k)) (s_admission ?s2) = Inr (t, a)"
          using e sa by simp
        have t: "t_cls t = ca_cls (w_caller ?k)" "t_owner t = outside_key (w_caller ?k)" "d_state a t \<noteq> Left"
          using gens.enter_new [OF a e2] by simp_all
        have "places_inv cfg a (s_counts ?s2) ((s_works ?s2)(w := ?f (s_works ?s2 w)))"
        proof (rule places_enter [OF s2 _ e2])
          show "w_ticket (s_works ?s2 w) = None" using k by (simp add: w2)
          show "work_ok a (s_counts ?s2) (?f (s_works ?s2 w))"
            using places_work [OF s2, of w] t k assms(3) Generation_work
            by (auto simp: w2 work_ok_def tickets_ok_def count_left_def)
        qed simp_all
        then have "places cfg (set_work w ?f (?s2\<lparr>s_admission := a\<rparr>))" by (simp add: set_work_def)
        moreover have "counted cfg n w s = set_work w ?f (?s1\<lparr>s_admission := a\<rparr>)"
          using ci e Generation_work by (simp add: counted_def Let_def)
        moreover have "set_work w ?f (?s1\<lparr>s_admission := a\<rparr>) = set_work w ?f (?s2\<lparr>s_admission := a\<rparr>)"
          by (simp add: set_phase_def set_work_def)
        ultimately show ?thesis by simp
      qed
    qed
  qed
qed

lemma generate_places:
  assumes "places cfg s" and "awaits w Place_wait s" and "w_ticket (s_works s w) = Some t"
    and "has_grant (s_admission s) t"
  shows "places cfg (generate w s)"
proof -
  have a: "adm_sound cfg (s_admission s)" using assms(1) by (simp add: places_inv_def)
  have k: "work_ok (s_admission s) (s_counts s) (s_works s w)" by (rule places_work [OF assms(1)])
  then have "d_state (s_admission s) t = Active"
    using assms(2,3) gens.grant_active [OF a assms(4)]
    by (cases "d_state (s_admission s) t") (auto simp: work_ok_def awaits_def)
  with assms k show ?thesis
    unfolding generate_def
    by (intro set_work_places) (auto simp: work_ok_defs awaits_def)
qed

lemma count_granted_places:
  assumes "places cfg s" and "awaits w Count_wait s" and "w_count_place (s_works s w) = Some t"
    and "has_grant (s_counts s) t"
  shows "places cfg (set_phase w Counting s)"
proof -
  have p: "cp_sound cfg (s_counts s)" using assms(1) by (simp add: places_inv_def)
  have k: "work_ok (s_admission s) (s_counts s) (s_works s w)" by (rule places_work [OF assms(1)])
  then show ?thesis
    using assms(2,3) cnts.grant_active [OF p assms(4)]
    by (intro set_phase_places [OF assms(1)]) (auto simp: work_ok_defs awaits_def)
qed

lemma generate_failed_places:
  assumes "places cfg s" and "w_phase (s_works s w) = Opening"
  shows "places cfg (generate_failed out w s)"
  unfolding generate_failed_def
  using places_work [OF assms(1), of w] assms(2)
  by (intro set_work_places [OF assms(1)]) (auto simp: work_ok_defs)

lemma stream_places:
  assumes "places cfg s" and "w_phase (s_works s w) = Opening"
  shows "places cfg (set_phase w Streaming s)"
  using places_work [OF assms(1), of w] assms(2)
  by (intro set_phase_places [OF assms(1)]) (auto simp: work_ok_defs)

lemma task_ends_places:
  assumes "places cfg s" and "w_phase (s_works s w) \<in> {Started, Streaming} \<or>
      w_phase (s_works s w) = Place_wait \<and> w_cancel (s_works s w)"
  shows "places cfg (set_phase w (Task_done out) s)"
  using places_work [OF assms(1), of w] assms(2)
  by (intro set_phase_places [OF assms(1)]) (auto simp: work_ok_defs)

lemma cancelled_places:
  assumes "places cfg s" and "task_runs (s_works s w)" and "w_cancel (s_works s w)"
  shows "places cfg (cancelled cfg w s)"
  using assms(2,3)
  by (auto simp: task_runs_def cancelled_def
      intro: count_failed_places [OF assms(1)] generate_failed_places [OF assms(1)] task_ends_places [OF assms(1)])

lemma cleanup_places:
  assumes "places cfg s" and "w_phase (s_works s w) = Task_done out"
  shows "places cfg (cleanup cfg out w s)"
proof -
  let ?g = "\<lambda>k. k\<lparr>w_stream := False, w_phase := Answering out\<rparr>"
  have k: "work_ok (s_admission s) (s_counts s) (s_works s w)" by (rule places_work [OF assms(1)])
  have e: "w_ticket (s_works (set_work w ?g s) w) = w_ticket (s_works s w)" by (simp add: set_work_def)
  show ?thesis
  proof (cases "w_ticket (s_works s w)")
    case None
    then have "cleanup cfg out w s = set_work w ?g s" by (simp add: cleanup_def e)
    moreover have "places cfg (set_work w ?g s)"
      using k assms(2) None by (intro set_work_places [OF assms(1)]) (auto simp: work_ok_defs)
    ultimately show ?thesis by simp
  next
    case (Some t)
    then have "cleanup cfg out w s = set_work w ?g (leave_place cfg t s)"
      by (simp add: cleanup_def e leave_place_commute)
    moreover have "places cfg (set_work w ?g (leave_place cfg t s))"
      using k assms(2) Some
      by (intro leave_place_set_places [OF assms(1) Some]) (auto simp: work_ok_defs)
    ultimately show ?thesis by simp
  qed
qed

text \<open>Operations on the lifecycle's fields alone.\<close>

definition own_fields :: "text_service \<Rightarrow> text_service \<Rightarrow> bool" where
  "own_fields s s' \<longleftrightarrow> s_admission s' = s_admission s \<and> s_counts s' = s_counts s \<and> s_works s' = s_works s \<and>
     s_next s' = s_next s"

lemma own_fields_places: "own_fields s s' \<Longrightarrow> places cfg s \<Longrightarrow> places cfg s'"
  by (simp add: own_fields_def)

lemma own_fields_life:
  "own_fields s (ours_begin ca s)" "own_fields s (ours_end now ca s)" "own_fields s (release w s)"
  "own_fields s (check_failed s)" "own_fields s (engine_ready s)"
  "accept w s = Inr s' \<Longrightarrow> own_fields s s'" "open_service boot g s = Inr s' \<Longrightarrow> own_fields s s'"
  "sleep_then_stop now s = Some s' \<Longrightarrow> own_fields s s'"
  by (auto simp: own_fields_def ours_begin_def ours_end_def release_def check_failed_def engine_ready_def
      accept_Inr_iff open_service_Inr_iff sleep_then_stop_def Let_def split: sleep_task.splits if_splits)

lemma finished_places:
  assumes "places cfg s" and "w_phase (s_works s w) = Reading \<or> (\<exists>out. w_phase (s_works s w) = Answering out)"
  shows "places cfg (set_phase w Over s)"
  using places_work [OF assms(1), of w] assms(2)
  by (intro set_phase_places [OF assms(1)]) (auto simp: work_ok_defs)

lemma foldl_keeps: "(\<And>s w. P s \<Longrightarrow> P (f s w)) \<Longrightarrow> P s \<Longrightarrow> P (foldl f s ws)"
  by (induction ws arbitrary: s) auto

text \<open>
  Whatever each stop keeps, and the lifecycle's own fields do not touch, every operation of the
  lifecycle keeps.
\<close>

locale kept_by_stops =
  fixes cfg :: config and P :: "text_service \<Rightarrow> bool"
  assumes stop_keeps: "P s \<Longrightarrow> P (stop_work cfg now r w s)"
    and fields_keep: "own_fields s s' \<Longrightarrow> l_work s' = l_work s \<Longrightarrow> l_ours_inflight s' = l_ours_inflight s \<Longrightarrow>
        P s \<Longrightarrow> P s'"
begin

lemma stops_keep: "P s \<Longrightarrow> P (foldl (\<lambda>s w. ln_stop (text_lane cfg) now r w s) s ws)"
  by (rule foldl_keeps [of P]) (simp add: text_lane_def stop_keeps)

lemma close_keeps: "P s \<Longrightarrow> P (close (text_lane cfg) now s)"
proof -
  assume "P s"
  let ?s1 = "s\<lparr>l_draining := True, l_drain_generation := l_drain_generation s + 1\<rparr>"
  have "P ?s1" by (rule fields_keep [OF _ _ _ \<open>P s\<close>]) (simp_all add: own_fields_def)
  then have "P (foldl (\<lambda>s w. if ln_waiting (text_lane cfg) w s \<or> ln_outside (text_lane cfg) w s
      then ln_stop (text_lane cfg) now By_draining w s else s) ?s1 (l_work ?s1))" (is "P ?s2")
    by (rule foldl_keeps [of P, rotated]) (simp add: text_lane_def stop_keeps)
  then have "P (?s2\<lparr>l_deadline := d\<rparr>)" for d
    by (rule fields_keep [rotated -1]) (simp_all add: own_fields_def)
  with \<open>P s\<close> show ?thesis by (simp add: close_def)
qed

lemma fall_asleep_keeps: "P s \<Longrightarrow> P (fall_asleep (text_lane cfg) now s)"
proof -
  assume "P s"
  then have "P (s\<lparr>l_sleep_requested := True, l_idle := None\<rparr>)"
    by (rule fields_keep [rotated -1]) (simp_all add: own_fields_def)
  from close_keeps [OF this]
  have "P ((close (text_lane cfg) now (s\<lparr>l_sleep_requested := True, l_idle := None\<rparr>))\<lparr>l_sleep := t\<rparr>)" for t
    by (rule fields_keep [rotated -1]) (simp_all add: own_fields_def)
  with \<open>P s\<close> show ?thesis by (simp add: fall_asleep_def)
qed

lemma idle_check_keeps: "P s \<Longrightarrow> P (idle_check (text_lane cfg) now s)"
proof -
  assume "P s"
  then have "P (s\<lparr>l_idle := d\<rparr>)" for d
    by (rule fields_keep [rotated -1]) (simp_all add: own_fields_def)
  with fall_asleep_keeps [OF \<open>P s\<close>] show ?thesis by (simp add: idle_check_def Let_def)
qed

lemma drain_deadline_keeps: "P s \<Longrightarrow> P (drain_deadline (text_lane cfg) now s)"
proof -
  assume "P s"
  then have "P (s\<lparr>l_deadline := None\<rparr>)"
    by (rule fields_keep [rotated -1]) (simp_all add: own_fields_def)
  from stops_keep [OF this] show ?thesis by (simp add: drain_deadline_def)
qed

lemma engine_ready_keeps: "P s \<Longrightarrow> P (engine_ready s)"
  by (rule fields_keep [rotated -1]) (simp_all add: own_fields_def engine_ready_def)

lemma engine_answered_keeps: "P s \<Longrightarrow> P (engine_answered cfg now n s)"
proof -
  assume p: "P s"
  have "P (s\<lparr>l_engine_changed := True, l_engine_status := Eng_failed\<rparr>)"
    by (rule fields_keep [OF _ _ _ p]) (simp_all add: own_fields_def)
  from stops_keep [OF this] p have "P (engine_changes (text_lane cfg) now s)"
    by (simp add: engine_changes_def)
  moreover have "P (engine_ready (first_verified (text_lane cfg) now (s\<lparr>s_engine_length := l, s_context_tokens := c\<rparr>)))" for l c
    unfolding first_verified_def
    by (intro engine_ready_keeps idle_check_keeps fields_keep [OF _ _ _ p]) (simp_all add: own_fields_def)
  ultimately show ?thesis using p engine_ready_keeps [OF p]
    by (simp add: engine_answered_def split: option.split)
qed

end

interpretation places_kept: kept_by_stops cfg "places cfg" for cfg
  by unfold_locales (auto intro: stop_work_places own_fields_places)

lemma tstep_places:
  assumes "tstep cfg now s s'" and p: "places cfg s" and new: "w_phase (s_works s (s_next s)) = Absent"
  shows "places cfg s'"
  using assms(1)
proof (cases rule: tstep.cases)
  case (arrives sha256 auth ch sh ca kd)
  let ?k = "no_work\<lparr>w_kind := kd, w_caller := ca, w_phase := Reading\<rparr>"
  have "w_ticket (s_works s (s_next s)) = None" "w_count_place (s_works s (s_next s)) = None"
    using places_work [OF p, of "s_next s"] new by (simp_all add: work_ok_def)
  then have "places_inv cfg (s_admission s) (s_counts s) ((s_works s)(s_next s := ?k))"
    by (intro places_upd_work [OF p]) (simp_all add: work_ok_def tickets_ok_def no_work_def)
  then have "places cfg (s\<lparr>s_next := Suc (s_next s), s_works := (s_works s)(s_next s := ?k)\<rparr>)" by simp
  from own_fields_places [OF own_fields_life(1) this] arrives show ?thesis by (simp add: arrive_def)
next
  case (gives_up w)
  then show ?thesis
    using own_fields_places [OF own_fields_life(2) finished_places [OF p]] by (simp add: give_up_def)
next
  case (submits w loads raw)
  then obtain s1 r where a: "accept w s = Inr s1" and s': "s' = set_work w (\<lambda>k. k\<lparr>w_request := Some r,
      w_accepted_at := Some now, w_phase := Started\<rparr>) s1" by (auto simp: submit_def)
  have s1: "places cfg s1" "s_works s1 = s_works s"
    using own_fields_life(6) [OF a] p by (simp_all add: own_fields_def)
  show ?thesis unfolding s'
    using places_work [OF s1(1), of w] submits(1) s1(2)
    by (intro set_work_places [OF s1(1)]) (auto simp: work_ok_defs)
next
  case (count_enters w)
  then show ?thesis by (simp add: count_enter_places p awaits_def)
next
  case (count_granted w t)
  then show ?thesis by (simp add: count_granted_places p)
next
  case (counts w n)
  then show ?thesis by (simp add: counted_places p awaits_def)
next
  case (count_fails w out)
  then show ?thesis by (simp add: count_failed_places p awaits_def)
next
  case (place_granted w t)
  then show ?thesis by (simp add: generate_places p)
next
  case (generated w)
  then show ?thesis by (simp add: stream_places p awaits_def)
next
  case (generate_fails w out)
  then show ?thesis by (simp add: generate_failed_places p awaits_def)
next
  case (stream_ends w out)
  then show ?thesis by (simp add: task_ends_places p awaits_def)
next
  case (cancels w)
  then show ?thesis by (simp add: cancelled_places p)
next
  case (cleans w out)
  then show ?thesis by (simp add: cleanup_places p)
next
  case (answers w out)
  then show ?thesis
    using own_fields_places [OF own_fields_life(2) own_fields_places [OF own_fields_life(3) finished_places [OF p]]]
    by (simp add: answered_def)
next
  case (stops r w)
  then show ?thesis by (simp add: stop_work_places p)
next
  case (opens boot g)
  then show ?thesis using own_fields_places [OF own_fields_life(7) p] by blast
next
  case sleep_task
  then show ?thesis using own_fields_places [OF own_fields_life(8) p] by blast
next
  case check_fails
  then show ?thesis using own_fields_places [OF own_fields_life(4) p] by simp
qed (use p in \<open>auto simp: drain_Inr_iff sleep_Inr_iff places_kept.close_keeps places_kept.fall_asleep_keeps
    places_kept.idle_check_keeps places_kept.drain_deadline_keeps places_kept.engine_answered_keeps\<close>)

subsection \<open>The books: work in hand and requests of ours\<close>

datatype req_stage = Not_yet | Before | In_hand | Gone

fun stage :: "phase \<Rightarrow> req_stage" where
  "stage Absent = Not_yet"
| "stage Reading = Before"
| "stage Over = Gone"
| "stage _ = In_hand"

abbreviation stage_of :: "text_service \<Rightarrow> nat \<Rightarrow> req_stage" where
  "stage_of s w \<equiv> stage (w_phase (s_works s w))"

definition our_request :: "text_service \<Rightarrow> nat \<Rightarrow> bool" where
  "our_request s w \<longleftrightarrow> stage_of s w \<in> {Before, In_hand} \<and> \<not> outside (ca_key (w_caller (s_works s w)))"

definition books_ok :: "text_service \<Rightarrow> bool" where
  "books_ok s \<longleftrightarrow>
     (\<forall>w. s_next s \<le> w \<longleftrightarrow> stage_of s w = Not_yet) \<and> distinct (l_work s) \<and>
     (\<forall>w. w \<in> set (l_work s) \<longleftrightarrow> stage_of s w = In_hand) \<and>
     l_ours_inflight s = int (card {w. our_request s w})"

definition same_books :: "text_service \<Rightarrow> text_service \<Rightarrow> bool" where
  "same_books s s' \<longleftrightarrow> s_next s' = s_next s \<and> l_work s' = l_work s \<and> l_ours_inflight s' = l_ours_inflight s \<and>
     (\<forall>w. stage_of s' w = stage_of s w \<and> w_caller (s_works s' w) = w_caller (s_works s w))"

lemma same_books_ok: "same_books s s' \<Longrightarrow> books_ok s \<Longrightarrow> books_ok s'"
  by (simp add: same_books_def books_ok_def our_request_def)

lemma same_books_refl [simp]: "same_books s s"
  by (simp add: same_books_def)

lemma same_books_trans: "same_books s s1 \<Longrightarrow> same_books s1 s2 \<Longrightarrow> same_books s s2"
  by (simp add: same_books_def)

lemma same_books_set_work:
  assumes "stage (w_phase (g (s_works s w))) = stage_of s w" and "w_caller (g (s_works s w)) = w_caller (s_works s w)"
  shows "same_books s (set_work w g s)"
  using assms by (simp add: same_books_def set_work_def)

lemma same_books_desks:
  "same_books s (leave_place cfg t s)" "same_books s (leave_count cfg t s)" "same_books s (count_leave cfg w s)"
  "same_books s (s\<lparr>s_admission := a\<rparr>)" "same_books s (s\<lparr>s_counts := p\<rparr>)"
  by (simp_all add: same_books_def leave_place_def leave_count_def count_leave_def split: option.splits)

lemma same_books_cancel: "same_books s (cancel_task w s)"
proof -
  have "same_books s (set_work w (\<lambda>k. k\<lparr>w_cancel := True\<rparr>) s)" by (rule same_books_set_work) simp_all
  then show ?thesis
    by (auto simp: cancel_task_def Let_def same_books_def split: phase.splits option.splits)
qed

lemma same_books_stop: "same_books s (stop_work cfg now r w s)"
proof -
  let ?s = "set_work w (\<lambda>k. k\<lparr>w_stop_reason := Some r, w_stopped_at := Some now\<rparr>) s"
  have 1: "same_books s ?s" by (rule same_books_set_work) simp_all
  moreover have "same_books ?s (stopping cfg w ?s)"
    by (auto simp: stopping_def same_books_desks split: option.split)
  moreover note same_books_cancel [of "stopping cfg w ?s" w]
  ultimately show ?thesis by (auto simp: stop_work_def Let_def intro: same_books_trans)
qed

lemma books_finite: "books_ok s \<Longrightarrow> finite {w. our_request s w}"
proof -
  assume b: "books_ok s"
  then have "{w. our_request s w} \<subseteq> {..<s_next s}"
    by (auto simp: books_ok_def our_request_def) (metis not_le req_stage.distinct(1,3))+
  then show ?thesis by (rule finite_subset) simp
qed

lemma card_our_add:
  assumes "books_ok s" and "\<not> our_request s w"
  shows "int (card {v. v = w \<or> our_request s v}) = l_ours_inflight s + 1"
  using card_Collect_insert [OF books_finite [OF assms(1)] assms(2)] assms(1) by (simp add: books_ok_def)

lemma arrive_books:
  assumes "books_ok s"
  shows "books_ok (arrive kd ca s)"
proof -
  let ?n = "s_next s" and ?s = "arrive kd ca s"
  have new: "stage_of s ?n = Not_yet" using assms unfolding books_ok_def by blast
  have st: "stage_of ?s w = (if w = ?n then Before else stage_of s w)"
    "w_caller (s_works ?s w) = (if w = ?n then ca else w_caller (s_works s w))" for w
    by (simp_all add: arrive_def ours_begin_def)
  have our: "our_request ?s w \<longleftrightarrow> (if w = ?n then \<not> outside (ca_key ca) else our_request s w)" for w
    using st by (simp add: our_request_def)
  have no: "\<not> our_request s ?n" using new by (simp add: our_request_def)
  have "l_ours_inflight ?s = int (card {w. our_request ?s w})"
  proof (cases "outside (ca_key ca)")
    case True
    with no have "our_request ?s w = our_request s w" for w by (auto simp: our)
    with True assms show ?thesis by (simp add: arrive_def ours_begin_def books_ok_def)
  next
    case False
    then have "{w. our_request ?s w} = {v. v = ?n \<or> our_request s v}" by (auto simp: our)
    with False card_our_add [OF assms no] show ?thesis by (simp add: arrive_def ours_begin_def)
  qed
  moreover have "(s_next ?s \<le> w) = (stage_of ?s w = Not_yet)" for w
  proof -
    have "s_next ?s = Suc ?n" by (simp add: arrive_def ours_begin_def)
    moreover have "(?n \<le> w) = (stage_of s w = Not_yet)" using assms by (simp add: books_ok_def)
    ultimately show ?thesis by (auto simp: st)
  qed
  moreover have "l_work ?s = l_work s" by (simp add: arrive_def ours_begin_def)
  moreover have "?n \<notin> set (l_work s)" using assms new by (simp add: books_ok_def)
  ultimately show ?thesis using assms by (auto simp: books_ok_def st)
qed

text \<open>A request that ends, from either stage.\<close>

lemma ends_books:
  assumes "books_ok s" and "stage_of s w = Before \<or> stage_of s w = In_hand"
    and "\<And>v. stage_of s' v = (if v = w then Gone else stage_of s v)"
    and "\<And>v. w_caller (s_works s' v) = w_caller (s_works s v)"
    and "s_next s' = s_next s" and "l_work s' = removeAll w (l_work s)"
    and "l_ours_inflight s' = l_ours_inflight s - (if outside (ca_key (w_caller (s_works s w))) then 0 else 1)"
  shows "books_ok s'"
proof -
  have our: "our_request s' v \<longleftrightarrow> v \<noteq> w \<and> our_request s v" for v
    using assms(3,4) by (auto simp: our_request_def)
  have "l_ours_inflight s' = int (card {v. our_request s' v})"
  proof (cases "outside (ca_key (w_caller (s_works s w)))")
    case True
    then have "our_request s' v = our_request s v" for v by (auto simp: our) (simp add: our_request_def)
    with True assms(1,7) show ?thesis by (simp add: books_ok_def)
  next
    case False
    then have w: "our_request s w" using assms(2) by (auto simp: our_request_def)
    from card_Collect_remove [OF books_finite [OF assms(1)] w] False assms(1,7) show ?thesis
      by (simp add: our books_ok_def)
  qed
  with assms show ?thesis by (auto simp: books_ok_def distinct_removeAll split: if_splits)
qed

lemma same_books_own:
  "own_fields s s' \<Longrightarrow> l_work s' = l_work s \<Longrightarrow> l_ours_inflight s' = l_ours_inflight s \<Longrightarrow> same_books s s'"
  by (simp add: own_fields_def same_books_def)

interpretation books_kept: kept_by_stops cfg books_ok for cfg
  by unfold_locales (auto intro: same_books_ok [OF same_books_stop] same_books_ok [OF same_books_own])

lemma same_books_phase:
  "stage_of s w = stage ph \<Longrightarrow> same_books s (set_phase w ph s)"
  unfolding set_phase_def by (rule same_books_set_work) simp_all

lemma same_books_counted:
  assumes "w_phase (s_works s w) = Counting"
  shows "same_books s (counted cfg n w s)"
proof -
  let ?s1 = "set_work w (\<lambda>k. k\<lparr>w_input_tokens := Some n\<rparr>) (count_leave cfg w s)"
  have 1: "same_books s ?s1"
    by (rule same_books_trans [OF same_books_desks(3) same_books_set_work]) simp_all
  have st: "stage_of ?s1 w = In_hand" using assms by (simp add: set_work_def)
  then have 2: "same_books s (set_phase w (Task_done out) ?s1)" for out
    by (intro same_books_trans [OF 1 same_books_phase]) simp
  have 3: "same_books s (set_work w (\<lambda>k. k\<lparr>w_ticket := Some t, w_phase := Place_wait\<rparr>) (?s1\<lparr>s_admission := a\<rparr>))"
    for t a
    by (rule same_books_trans [OF same_books_trans [OF 1 same_books_desks(4)] same_books_set_work])
      (use st in simp_all)
  show ?thesis
    using 2 3 by (simp add: counted_def Let_def split: kind.split sum.split prod.split)
qed

lemma same_books_enter:
  assumes "w_phase (s_works s w) = Started"
  shows "same_books s (count_enter cfg w s)"
proof -
  have "same_books s (set_work w (\<lambda>k. k\<lparr>w_count_place := Some t, w_phase := Count_wait\<rparr>) (s\<lparr>s_counts := p\<rparr>))"
    for t p
    by (rule same_books_trans [OF same_books_desks(5) same_books_set_work]) (use assms in simp_all)
  moreover have "same_books s (set_phase w (Task_done out) s)" for out
    by (rule same_books_phase) (use assms in simp)
  ultimately show ?thesis by (simp add: count_enter_def Let_def split: sum.split prod.split)
qed

lemma same_books_fail:
  assumes "w_phase (s_works s w) \<in> {Count_wait, Counting}"
  shows "same_books s (count_failed cfg out w s)"
  unfolding count_failed_def
  by (rule same_books_trans [OF same_books_desks(3) same_books_phase]) (use assms in auto)

lemma same_books_generate_failed:
  "w_phase (s_works s w) = Opening \<Longrightarrow> same_books s (generate_failed out w s)"
  unfolding generate_failed_def by (rule same_books_set_work) simp_all

lemma same_books_cancelled:
  assumes "task_runs (s_works s w)"
  shows "same_books s (cancelled cfg w s)"
  using assms
  by (auto simp: task_runs_def cancelled_def
      intro!: same_books_fail same_books_generate_failed same_books_phase)

lemma same_books_cleanup:
  assumes "w_phase (s_works s w) = Task_done out"
  shows "same_books s (cleanup cfg out w s)"
proof -
  let ?s1 = "set_work w (\<lambda>k. k\<lparr>w_stream := False, w_phase := Answering out\<rparr>) s"
  have 1: "same_books s ?s1" by (rule same_books_set_work) (use assms in simp_all)
  then show ?thesis
    by (auto simp: cleanup_def Let_def intro: same_books_trans [OF 1 same_books_desks(1)] split: option.split)
qed

lemma submit_books:
  assumes "books_ok s" and "w_phase (s_works s w) = Reading" and "submit cfg loads now raw w s = Inr s'"
  shows "books_ok s'"
proof -
  from assms(3) obtain r where s': "s' = set_work w (\<lambda>k. k\<lparr>w_request := Some r,
      w_accepted_at := Some now, w_phase := Started\<rparr>)
      (s\<lparr>l_work := List.insert w (l_work s), l_no_work := False\<rparr>)"
    by (auto simp: submit_def accept_Inr_iff)
  have st: "stage_of s' v = (if v = w then In_hand else stage_of s v)"
    "w_caller (s_works s' v) = w_caller (s_works s v)" for v
    by (simp_all add: s' set_work_def)
  then have "our_request s' v = our_request s v" for v using assms(2) by (simp add: our_request_def)
  with assms(1,2) st show ?thesis by (auto simp: books_ok_def s' set_work_def)
qed

lemma tstep_books:
  assumes "tstep cfg now s s'" and b: "books_ok s"
  shows "books_ok s'"
  using assms(1)
proof (cases rule: tstep.cases)
  case (arrives sha256 auth ch sh ca kd)
  then show ?thesis by (simp add: arrive_books b)
next
  case (gives_up w)
  moreover have "w \<notin> set (l_work s)" using b gives_up(2) by (simp add: books_ok_def)
  ultimately show ?thesis
    by (intro ends_books [OF b, of w])
      (auto simp: give_up_def ours_end_def set_phase_def set_work_def removeAll_id)
next
  case (submits w loads raw)
  then show ?thesis using submit_books [OF b] by blast
next
  case (count_enters w)
  then show ?thesis by (simp add: same_books_ok [OF same_books_enter b] awaits_def)
next
  case (count_granted w t)
  then show ?thesis by (simp add: same_books_ok [OF same_books_phase b] awaits_def)
next
  case (counts w n)
  then show ?thesis by (simp add: same_books_ok [OF same_books_counted b] awaits_def)
next
  case (count_fails w out)
  then show ?thesis by (simp add: same_books_ok [OF same_books_fail b] awaits_def)
next
  case (place_granted w t)
  then have "same_books s s'" by (auto simp: generate_def awaits_def intro: same_books_set_work)
  then show ?thesis by (rule same_books_ok [OF _ b])
next
  case (generated w)
  then show ?thesis by (simp add: same_books_ok [OF same_books_phase b] awaits_def)
next
  case (generate_fails w out)
  then show ?thesis by (simp add: same_books_ok [OF same_books_generate_failed b] awaits_def)
next
  case (stream_ends w out)
  then show ?thesis by (simp add: same_books_ok [OF same_books_phase b] awaits_def)
next
  case (cancels w)
  then show ?thesis by (simp add: same_books_ok [OF same_books_cancelled b])
next
  case (cleans w out)
  then show ?thesis by (simp add: same_books_ok [OF same_books_cleanup b])
next
  case (answers w out)
  then show ?thesis
    by (intro ends_books [OF b, of w])
      (auto simp: answered_def ours_end_def release_def set_phase_def set_work_def Let_def)
next
  case (stops r w)
  then show ?thesis by (simp add: same_books_ok [OF same_books_stop b])
next
  case (opens boot g)
  then have "same_books s s'" by (auto simp: open_service_Inr_iff same_books_def)
  then show ?thesis by (rule same_books_ok [OF _ b])
next
  case sleep_task
  then have "same_books s s'"
    by (auto simp: sleep_then_stop_def same_books_def split: sleep_task.splits if_splits)
  then show ?thesis by (rule same_books_ok [OF _ b])
next
  case check_fails
  then have "same_books s s'" by (auto simp: check_failed_def same_books_def)
  then show ?thesis by (rule same_books_ok [OF _ b])
qed (use b in \<open>auto simp: drain_Inr_iff sleep_Inr_iff books_kept.close_keeps books_kept.fall_asleep_keeps
    books_kept.idle_check_keeps books_kept.drain_deadline_keeps books_kept.engine_answered_keeps\<close>)

end
