(* ===== verification/Text_Properties.thy ===== *)
theory Text_Properties
  imports Text_Steps
begin

text \<open>
  The properties of the text service over all its runs: what the engine can be asked at once, whose
  every place is, what drained means, that a sleep is final, when the service may fall asleep, what
  an open can undo, and what a drain stops. The lifecycle's laws come from the interpretation of
  \<open>lane_work\<close> on the text lane.
\<close>

subsection \<open>The lane's contract\<close>

definition halted :: "nat \<Rightarrow> text_service \<Rightarrow> bool" where
  "halted w s \<longleftrightarrow> \<not> has_task (s_works s w) \<or> w_stop_reason (s_works s w) \<noteq> None"

lemma truncate_own [simp]:
  "lifecycle.truncate (s\<lparr>s_admission := a\<rparr>) = lifecycle.truncate s"
  "lifecycle.truncate (s\<lparr>s_counts := p\<rparr>) = lifecycle.truncate s"
  "lifecycle.truncate (s\<lparr>s_works := f\<rparr>) = lifecycle.truncate s"
  "lifecycle.truncate (s\<lparr>s_next := n\<rparr>) = lifecycle.truncate s"
  "lifecycle.truncate (s\<lparr>s_engine_length := l\<rparr>) = lifecycle.truncate s"
  "lifecycle.truncate (s\<lparr>s_context_tokens := l\<rparr>) = lifecycle.truncate s"
  by (simp_all add: lifecycle.truncate_def)

lemma truncate_ops [simp]:
  "lifecycle.truncate (set_work w g s) = lifecycle.truncate s"
  "lifecycle.truncate (set_phase w ph s) = lifecycle.truncate s"
  "lifecycle.truncate (leave_place cfg t s) = lifecycle.truncate s"
  "lifecycle.truncate (leave_count cfg t s) = lifecycle.truncate s"
  "lifecycle.truncate (count_leave cfg w s) = lifecycle.truncate s"
  "lifecycle.truncate (stopping cfg w s) = lifecycle.truncate s"
  "lifecycle.truncate (cancel_task w s) = lifecycle.truncate s"
  by (auto simp: set_phase_def set_work_def leave_place_def leave_count_def count_leave_def stopping_def
      cancel_task_def Let_def split: option.splits phase.splits)

lemma truncate_task_ops [simp]:
  "lifecycle.truncate (stop_work cfg now r w s) = lifecycle.truncate s"
  "lifecycle.truncate (count_enter cfg w s) = lifecycle.truncate s"
  "lifecycle.truncate (counted cfg n w s) = lifecycle.truncate s"
  "lifecycle.truncate (count_failed cfg out w s) = lifecycle.truncate s"
  "lifecycle.truncate (generate w s) = lifecycle.truncate s"
  "lifecycle.truncate (generate_failed out w s) = lifecycle.truncate s"
  "lifecycle.truncate (cancelled cfg w s) = lifecycle.truncate s"
  "lifecycle.truncate (cleanup cfg out w s) = lifecycle.truncate s"
  by (simp_all add: stop_work_def count_enter_def counted_def count_failed_def generate_def
      generate_failed_def cancelled_def cleanup_def Let_def
      split: option.split phase.split sum.split prod.split kind.split)

lemma works_of_desks [simp]:
  "s_works (leave_place cfg t s) = s_works s" "s_works (leave_count cfg t s) = s_works s"
  "s_works (stopping cfg w s) = s_works s"
  by (simp_all add: leave_place_def leave_count_def stopping_def split: option.split)

lemma cancel_task_works:
  "s_works (cancel_task w s) = (s_works s)(w := (s_works s w)\<lparr>w_cancel := True\<rparr>)"
  by (simp add: cancel_task_def set_work_def Let_def split: option.split phase.split)

text \<open>A stop changes one work, and of that work its stop and its cancellation only.\<close>

lemma stop_work_works:
  "s_works (stop_work cfg now r w s) v =
    (if v = w \<and> has_task (s_works s w) \<and> w_stop_reason (s_works s w) = None
     then (s_works s w)\<lparr>w_stop_reason := Some r, w_stopped_at := Some now,
       w_cancel := w_cancel (s_works s w) \<or> task_runs (s_works s w)\<rparr>
     else s_works s v)"
  by (auto simp: stop_work_def Let_def cancel_task_works set_work_def)

interpretation tlane: lane_work "text_lane cfg" halted for cfg
proof
  fix now r w s v d
  show "lifecycle.truncate (ln_stop (text_lane cfg) now r w s) = lifecycle.truncate s"
    by (simp add: text_lane_def)
  show "halted w (ln_stop (text_lane cfg) now r w s)"
    by (simp add: text_lane_def halted_def stop_work_works)
  show "halted v s \<Longrightarrow> halted v (ln_stop (text_lane cfg) now r w s)"
    by (auto simp: text_lane_def halted_def stop_work_works has_task_def)
  show "halted v (s\<lparr>l_deadline := d\<rparr>) = halted v s" by (simp add: halted_def)
qed

subsection \<open>Every step is a run of the lifecycle\<close>

lemma life_runI: "life_step lane now s s' \<Longrightarrow> life_run lane now s now s'"
  by (rule life_run_one) simp_all

lemma life_run_two:
  "life_step lane now s s1 \<Longrightarrow> life_step lane now s1 s2 \<Longrightarrow> life_run lane now s now s2"
  by (rule life_run.step [OF life_runI]) simp_all

lemma our_request_inflight: "books_ok s \<Longrightarrow> our_request s w \<Longrightarrow> 0 < l_ours_inflight s"
  using books_finite [of s] by (auto simp: books_ok_def card_gt_0_iff)

lemma life_ends:
  assumes "books_ok s" and "stage_of s w \<in> {Before, In_hand}" and "l_ours_inflight s1 = l_ours_inflight s"
  shows "life_step lane now s1 (ours_end now (w_caller (s_works s w)) s1)"
  using our_request_inflight [OF assms(1), of w] assms(2,3)
  by (intro life_step.ends) (auto simp: our_request_def)

text \<open>The engine's length is known exactly once the service has left \<open>starting\<close>.\<close>

definition verified_ok :: "text_service \<Rightarrow> bool" where
  "verified_ok s \<longleftrightarrow> (s_engine_length s = None \<longleftrightarrow> l_engine_status s = Eng_starting) \<and>
     (s_context_tokens s = None \<longleftrightarrow> s_engine_length s = None)"

definition lengths :: "text_service \<Rightarrow> int option \<times> int option" where
  "lengths s = (s_engine_length s, s_context_tokens s)"

lemma lengths_ops [simp]:
  "lengths (set_work w g s) = lengths s" "lengths (leave_place cfg t s) = lengths s"
  "lengths (leave_count cfg t s) = lengths s" "lengths (count_leave cfg w s) = lengths s"
  "lengths (set_phase w ph s) = lengths s" "lengths (stopping cfg w s) = lengths s"
  "lengths (cancel_task w s) = lengths s"
  by (auto simp: lengths_def set_phase_def set_work_def leave_place_def leave_count_def count_leave_def
      stopping_def cancel_task_def Let_def split: option.splits phase.splits)

lemma lengths_desks [simp]:
  "lengths (s\<lparr>s_admission := a\<rparr>) = lengths s" "lengths (s\<lparr>s_counts := p\<rparr>) = lengths s"
  by (simp_all add: lengths_def)

lemma lengths_task_ops [simp]:
  "lengths (stop_work cfg now r w s) = lengths s" "lengths (count_enter cfg w s) = lengths s"
  "lengths (counted cfg n w s) = lengths s" "lengths (count_failed cfg out w s) = lengths s"
  "lengths (generate w s) = lengths s" "lengths (generate_failed out w s) = lengths s"
  "lengths (cancelled cfg w s) = lengths s" "lengths (cleanup cfg out w s) = lengths s"
  by (simp_all add: stop_work_def count_enter_def counted_def count_failed_def generate_def
      generate_failed_def cancelled_def cleanup_def Let_def
      split: option.split phase.split sum.split prod.split kind.split)

lemma lengths_stops [simp]:
  "lengths (foldl (\<lambda>s w. ln_stop (text_lane cfg) now r w s) s ws) = lengths s"
  "lengths (foldl (\<lambda>s w. if P w s then ln_stop (text_lane cfg) now r w s else s) s ws) = lengths s"
  by (induction ws arbitrary: s) (simp_all add: text_lane_def)

lemma lengths_fields [simp]:
  "lengths (s\<lparr>l_draining := xdraining\<rparr>) = lengths s"
  "lengths (s\<lparr>l_drain_generation := xdrain_generation\<rparr>) = lengths s"
  "lengths (s\<lparr>l_deadline := xdeadline\<rparr>) = lengths s"
  "lengths (s\<lparr>l_sleep_requested := xsleep_requested\<rparr>) = lengths s"
  "lengths (s\<lparr>l_idle := xidle\<rparr>) = lengths s"
  "lengths (s\<lparr>l_sleep := xsleep\<rparr>) = lengths s"
  "lengths (s\<lparr>l_engine_changed := xengine_changed\<rparr>) = lengths s"
  "lengths (s\<lparr>l_engine_status := xengine_status\<rparr>) = lengths s"
  "lengths (s\<lparr>l_idle_since := xidle_since\<rparr>) = lengths s"
  "lengths (s\<lparr>l_work := xwork\<rparr>) = lengths s"
  "lengths (s\<lparr>l_no_work := xno_work\<rparr>) = lengths s"
  "lengths (s\<lparr>l_ours_inflight := xours_inflight\<rparr>) = lengths s"
  by (simp_all add: lengths_def)

lemma lengths_life [simp]:
  "lengths (close (text_lane cfg) now s) = lengths s" "lengths (fall_asleep (text_lane cfg) now s) = lengths s"
  "lengths (idle_check (text_lane cfg) now s) = lengths s"
  "lengths (drain_deadline (text_lane cfg) now s) = lengths s"
  "lengths (engine_changes (text_lane cfg) now s) = lengths s" "lengths (engine_ready s) = lengths s"
proof -
  show c: "lengths (close (text_lane cfg) now s) = lengths s" for s by (simp add: close_def Let_def)
  show f: "lengths (fall_asleep (text_lane cfg) now s) = lengths s" by (simp add: fall_asleep_def Let_def c)
  then show "lengths (idle_check (text_lane cfg) now s) = lengths s" by (simp add: idle_check_def Let_def)
  show "lengths (drain_deadline (text_lane cfg) now s) = lengths s" by (simp add: drain_deadline_def Let_def)
  show "lengths (engine_changes (text_lane cfg) now s) = lengths s" by (simp add: engine_changes_def Let_def)
  show "lengths (engine_ready s) = lengths s" by (simp add: engine_ready_def)
qed

lemma verified_ok_cong:
  "lengths s' = lengths s \<Longrightarrow> l_engine_status s' = l_engine_status s \<Longrightarrow> verified_ok s' = verified_ok s"
  by (simp add: verified_ok_def lengths_def)

lemma verified_ok_own:
  "lengths s' = lengths s \<Longrightarrow> lifecycle.truncate s' = lifecycle.truncate s \<Longrightarrow> verified_ok s \<Longrightarrow> verified_ok s'"
  using verified_ok_cong truncate_eqD(5) by blast

lemma idle_check_status: "l_engine_status (idle_check (text_lane cfg) now s) = l_engine_status s"
  by (rule tlane.idle_check_cases [where s = s and now = now and cfg = cfg])
    (simp_all add: same_drainD [OF tlane.fall_asleep_fields(2)])

lemma tstep_verified:
  assumes "tstep cfg now s s'" and v: "verified_ok s"
  shows "verified_ok s'"
  using assms(1)
proof (cases rule: tstep.cases)
  case (engine_answers n)
  have r: "verified_ok (engine_ready s1)" if "s_engine_length s1 \<noteq> None" "s_context_tokens s1 \<noteq> None" for s1
    using that by (auto simp: verified_ok_def engine_ready_def)
  show ?thesis
  proof (cases "s_engine_length s")
    case None
    have l: "lengths (first_verified (text_lane cfg) now (s\<lparr>s_engine_length := Some x, s_context_tokens := Some y\<rparr>))
        = (Some x, Some y)" for x y
      by (simp add: first_verified_def) (simp add: lengths_def)
    have "verified_ok (engine_ready (first_verified (text_lane cfg) now (s\<lparr>s_engine_length := Some x, s_context_tokens := Some y\<rparr>)))"
      for x y
      by (rule r) (use l [where x = x and y = y] in \<open>simp_all add: lengths_def\<close>)
    with None v show ?thesis unfolding engine_answers by (simp add: engine_answered_def Let_def split: option.split)
  next
    case (Some l)
    have "verified_ok (engine_changes (text_lane cfg) now s)"
      using lengths_life(5) [of cfg now s] v Some truncate_eqD(5) [OF tlane.engine_changes_fields(1), of cfg now s]
      by (auto simp: verified_ok_def lengths_def split: if_splits)
    with Some v r show ?thesis unfolding engine_answers by (auto simp: engine_answered_def verified_ok_def)
  qed
next
  case (drains boot)
  then show ?thesis using v verified_ok_cong [OF lengths_life(1) same_drainD(6) [OF tlane.close_fields(2)]]
    by (simp add: drain_Inr_iff)
next
  case (sleeps boot)
  then show ?thesis using v verified_ok_cong [OF lengths_life(2) same_drainD(6) [OF tlane.fall_asleep_fields(2)]]
    by (simp add: sleep_Inr_iff)
next
  case (idle_due d)
  then show ?thesis using v verified_ok_cong [OF lengths_life(3) idle_check_status] by simp
next
  case (deadline_due d)
  then show ?thesis using v truncate_eqD(5) [OF tlane.drain_deadline_fields(1)]
    by (simp add: verified_ok_cong [OF lengths_life(4)])
next
  case (submits w loads raw)
  then show ?thesis using v
    by (auto simp: submit_def accept_Inr_iff verified_ok_def set_work_def)
next
  case sleep_task
  then show ?thesis using v by (auto simp: sleep_then_stop_def verified_ok_def split: sleep_task.splits if_splits)
next
  case (opens boot g)
  then show ?thesis using v by (auto simp: open_service_Inr_iff verified_ok_def)
next
  case check_fails
  then show ?thesis using v by (auto simp: check_failed_def verified_ok_def)
next
  case (arrives sha256 auth ch sh ca kd)
  then show ?thesis using v by (simp add: arrive_def ours_begin_def verified_ok_def)
next
  case (gives_up w)
  then show ?thesis using v by (simp add: give_up_def ours_end_def set_phase_def set_work_def verified_ok_def)
next
  case (answers w out)
  then show ?thesis using v
    by (simp add: answered_def ours_end_def release_def Let_def set_phase_def set_work_def verified_ok_def)
qed (auto intro!: verified_ok_own [OF _ _ v])

lemma tstep_life:
  assumes "tstep cfg now s s'" and b: "books_ok s" and v: "verified_ok s"
  shows "life_run (text_lane cfg) now s now s'"
  using assms(1)
proof (cases rule: tstep.cases)
  case (arrives sha256 auth ch sh ca kd)
  show ?thesis unfolding arrives(1) arrive_def
    by (rule life_run_two [OF life_step.own life_step.begins]) (simp add: lifecycle.truncate_def)
next
  case (gives_up w)
  show ?thesis unfolding gives_up(1) give_up_def
    by (rule life_run_two [OF life_step.own life_ends [OF b]])
      (use gives_up(2) truncate_eqD(8) [OF truncate_ops(2)] in simp_all)
next
  case (submits w loads raw)
  then obtain s1 r where a: "accept w s = Inr s1" and s': "s' = set_work w (\<lambda>k. k\<lparr>w_request := Some r,
      w_accepted_at := Some now, w_phase := Started\<rparr>) s1" by (auto simp: submit_def)
  show ?thesis unfolding s'
    by (rule life_run_two [OF life_step.accepts [OF a] life_step.own]) simp
next
  case (answers w out)
  show ?thesis unfolding answers(1) answered_def
  proof (rule life_run_trans [OF life_runI life_run_two])
    show "life_step (text_lane cfg) now s (set_phase w Over s)" by (rule life_step.own) simp
    show "life_step (text_lane cfg) now (set_phase w Over s) (release w (set_phase w Over s))"
      by (rule life_step.releases)
    show "life_step (text_lane cfg) now (release w (set_phase w Over s))
        (ours_end now (w_caller (s_works s w)) (release w (set_phase w Over s)))"
      by (rule life_ends [OF b])
        (use answers(2) truncate_eqD(8) [OF truncate_ops(2)] in \<open>simp_all add: release_def Let_def\<close>)
  qed
next
  case (engine_answers n)
  show ?thesis
  proof (cases "s_engine_length s")
    case None
    with v have "l_engine_status s = Eng_starting" by (simp add: verified_ok_def)
    then have "life_run (text_lane cfg) now s now
        (engine_ready (first_verified (text_lane cfg) now (s\<lparr>s_engine_length := x, s_context_tokens := y\<rparr>)))" for x y
      by (intro life_run_two [OF life_step.own life_step.verified]) simp_all
    with None show ?thesis unfolding engine_answers
      by (simp add: engine_answered_def Let_def life_run.start split: option.split)
  next
    case (Some l)
    with v have "l_engine_status s \<noteq> Eng_starting" by (simp add: verified_ok_def)
    with Some show ?thesis unfolding engine_answers
      by (auto simp: engine_answered_def intro!: life_runI life_step.readies life_step.changes)
  qed
qed (auto intro!: life_runI intro: life_step.intros)

subsection \<open>The invariant of every reachable state\<close>

definition text_inv :: "config \<Rightarrow> text_service \<Rightarrow> bool" where
  "text_inv cfg s \<longleftrightarrow> places cfg s \<and> books_ok s \<and> verified_ok s \<and> drain_ok s"

lemma service_init_fields:
  "s_works (service_init boot) = (\<lambda>_. no_work)" "s_admission (service_init boot) = adm_init"
  "s_counts (service_init boot) = cp_init" "s_next (service_init boot) = 0"
  "s_engine_length (service_init boot) = None" "s_context_tokens (service_init boot) = None"
  "l_work (service_init boot) = []" "l_ours_inflight (service_init boot) = 0"
  "l_engine_status (service_init boot) = Eng_starting" "l_sleep_requested (service_init boot) = False"
  "l_draining (service_init boot) = False" "l_sleep (service_init boot) = No_sleep"
  "l_no_work (service_init boot) = True" "l_deadline (service_init boot) = None"
  "l_idle_since (service_init boot) = 0" "l_drain_generation (service_init boot) = 0"
  by (simp_all add: service_init_def lifecycle.extend_def lifecycle_init_def)

lemma no_work_absent: "w_phase no_work = Absent" "w_ticket no_work = None" "w_count_place no_work = None"
  by (simp_all add: no_work_def)

lemma init_inv:
  assumes "limits_ok cfg"
  shows "text_inv cfg (service_init boot)"
proof -
  have g: "granted_ok adm_init" "granted_ok cp_init" by (simp_all add: granted_ok_def adm_init_def cp_init_def)
  have "places cfg (service_init boot)"
    using adm_init_ok [OF assms] cp_init_inv [OF assms] g
    by (simp add: places_inv_def adm_sound_def cp_sound_def service_init_fields owned_def no_work_absent
        work_ok_def tickets_ok_def) (simp add: adm_init_def cp_init_def no_work_def)
  moreover have "books_ok (service_init boot)"
    by (simp add: books_ok_def service_init_fields no_work_absent our_request_def)
  ultimately show ?thesis
    by (simp add: text_inv_def verified_ok_def drain_ok_def service_init_fields)
qed

lemma text_inv_step:
  assumes "tstep cfg now s s'" and "text_inv cfg s"
  shows "text_inv cfg s'"
proof -
  have i: "places cfg s" "books_ok s" "verified_ok s" "drain_ok s" using assms(2) by (simp_all add: text_inv_def)
  have "stage_of s (s_next s) = Not_yet" using i(2) unfolding books_ok_def by blast
  then have "w_phase (s_works s (s_next s)) = Absent" by (cases "w_phase (s_works s (s_next s))") simp_all
  then show ?thesis
    using tstep_places [OF assms(1) i(1)] tstep_books [OF assms(1) i(2)] tstep_verified [OF assms(1) i(3)]
      tlane.run_drain_ok [OF tstep_life [OF assms(1) i(2,3)] i(4)]
    by (simp add: text_inv_def)
qed

lemma reached_inv: "reached cfg boot t s \<Longrightarrow> limits_ok cfg \<Longrightarrow> text_inv cfg s"
  by (induction rule: reached.induct) (auto intro: init_inv text_inv_step)

lemma trun_life:
  "trun cfg t s t' s' \<Longrightarrow> text_inv cfg s \<Longrightarrow> life_run (text_lane cfg) t s t' s' \<and> text_inv cfg s'"
proof (induction rule: trun.induct)
  case trun_start
  then show ?case by (simp add: life_run.start)
next
  case (trun_step t1 s1 t2 s2)
  then have i: "text_inv cfg s1" and r: "life_run (text_lane cfg) t s t1 s1" by simp_all
  have "life_run (text_lane cfg) t2 s1 t2 s2"
    using tstep_life [OF trun_step.hyps(3)] i by (simp add: text_inv_def)
  from life_run_trans [OF this life_run_wait [OF r trun_step.hyps(2)]] show ?case
    using text_inv_step [OF trun_step.hyps(3) i] by simp
qed

subsection \<open>What the engine can be asked at once\<close>

lemma sound_caps:
  assumes "adm_sound cfg a"
  shows "finite {t. d_state a t = Active \<and> P t}"
    and "int (card {t. d_state a t = Active \<and> t_cls t = c}) \<le> cl_active (c_limits cfg c)"
    and "int (card {t. d_state a t = Active \<and> t_owner t = Some key}) \<le> c_per_key_active cfg"
    and "int (card {t. d_state a t = Active \<and> t_cls t \<noteq> Reader}) \<le> c_shared_places cfg"
proof -
  have i: "desk_inv a" "counts_ok a" "caps_ok cfg a"
    using assms by (simp_all add: adm_sound_def adm_ok_def adm_inv_def adm_inv0_def)
  show fin: "finite {t. d_state a t = Active \<and> P t}" for P
    using i(1) by (auto simp: desk_inv_def intro: finite_tally)
  show "int (card {t. d_state a t = Active \<and> t_cls t = c}) \<le> cl_active (c_limits cfg c)"
    using i(2,3) by (simp add: counts_ok_def caps_ok_def tally_def by_cls_def)
  show "int (card {t. d_state a t = Active \<and> t_owner t = Some key}) \<le> c_per_key_active cfg"
    using i(2,3) by (simp add: counts_ok_def caps_ok_def tally_def by_owner_def)
  have "{t. d_state a t = Active \<and> t_cls t \<noteq> Reader} =
      {t. d_state a t = Active \<and> t_cls t = Agent} \<union> ({t. d_state a t = Active \<and> t_cls t = Internal} \<union>
      {t. d_state a t = Active \<and> t_cls t = External})"
    by (auto intro: cls.exhaust)
  then have "int (card {t. d_state a t = Active \<and> t_cls t \<noteq> Reader}) = (\<Sum>c\<leftarrow>SHARED. a_active a c)"
    using fin i(2)
    by (simp add: SHARED_def counts_ok_def tally_def by_cls_def card_Un_disjoint disjoint_iff)
  then show "int (card {t. d_state a t = Active \<and> t_cls t \<noteq> Reader}) \<le> c_shared_places cfg"
    using i(3) by (simp add: caps_ok_def)
qed

lemma streams_inject:
  assumes "places cfg s"
    and "\<And>w t. w_ticket (s_works s w) = Some t \<Longrightarrow> Q w \<Longrightarrow> P t"
  shows "card {w. w_stream (s_works s w) \<and> Q w} \<le> card {t. d_state (s_admission s) t = Active \<and> P t}"
proof -
  have h: "holds_place (s_admission s) (s_works s w)" if "w_stream (s_works s w)" for w
    using places_work [OF assms(1), of w] that by (cases "w_phase (s_works s w)") (auto simp: work_ok_def)
  have o: "owned d_state d_next (s_admission s) (\<lambda>w. w_ticket (s_works s w))"
    and a: "adm_sound cfg (s_admission s)" using assms(1) by (simp_all add: places_inv_def)
  let ?t = "\<lambda>w. the (w_ticket (s_works s w))"
  show ?thesis
  proof (rule card_inj_on_le [of ?t])
    show "inj_on ?t {w. w_stream (s_works s w) \<and> Q w}"
      using h o by (intro inj_onI) (auto simp: holds_place_def owned_def, metis option.sel)
    show "?t ` {w. w_stream (s_works s w) \<and> Q w} \<subseteq> {t. d_state (s_admission s) t = Active \<and> P t}"
      using h assms(2) by (fastforce simp: holds_place_def)
    show "finite {t. d_state (s_admission s) t = Active \<and> P t}" by (rule sound_caps(1) [OF a])
  qed
qed

subsection \<open>Properties\<close>

text \<open>
  C1: In every state that the service can reach, however requests, the clock, the engine and the
  control routes interleave, the open engine generations stay within the limits: those of a class
  within its Active places, those of the agent, internal and external classes together within the
  shared places, and those of one outside key within its own Active places.
\<close>

theorem engine_generations_capped:
  assumes "limits_ok cfg" and "reached cfg boot t s"
  shows "int (card {w. w_stream (s_works s w) \<and> ca_cls (w_caller (s_works s w)) = c})
      \<le> cl_active (c_limits cfg c) \<and>
    int (card {w. w_stream (s_works s w) \<and> ca_cls (w_caller (s_works s w)) \<noteq> Reader}) \<le> c_shared_places cfg \<and>
    int (card {w. w_stream (s_works s w) \<and> outside_key (w_caller (s_works s w)) = Some key})
      \<le> c_per_key_active cfg"
proof -
  have p: "places cfg s" using reached_inv [OF assms(2,1)] by (simp add: text_inv_def)
  then have a: "adm_sound cfg (s_admission s)" by (simp add: places_inv_def)
  have k: "t_cls u = ca_cls (w_caller (s_works s w)) \<and> t_owner u = outside_key (w_caller (s_works s w))"
    if "w_ticket (s_works s w) = Some u" for u w
    using places_work [OF p, of w] that by (auto simp: work_ok_def tickets_ok_def)
  note le = order_trans [OF iffD2 [OF of_nat_le_iff]]
  show ?thesis
    by (intro conjI le [OF streams_inject [OF p] sound_caps(2) [OF a]]
        le [OF streams_inject [OF p] sound_caps(4) [OF a]] le [OF streams_inject [OF p] sound_caps(3) [OF a]])
      (use k in auto)
qed

text \<open>
  C3: No place leaks. In every reachable state each ticket that waits or is active, for a count or
  for a generation, is the ticket of exactly one request that is accepted and has not answered yet;
  while a drain is complete no task runs, no engine generation is open and every place is free.
\<close>

theorem places_belong_to_work:
  assumes "limits_ok cfg" and "reached cfg boot t s"
  shows "(d_state (s_admission s) u \<noteq> Left \<longrightarrow>
       (\<exists>!w. w_ticket (s_works s w) = Some u) \<and> (\<exists>w \<in> set (l_work s). w_ticket (s_works s w) = Some u)) \<and>
    (d_state (s_counts s) u \<noteq> Left \<longrightarrow>
       (\<exists>!w. w_count_place (s_works s w) = Some u) \<and> (\<exists>w \<in> set (l_work s). w_count_place (s_works s w) = Some u)) \<and>
    (status s = Drained \<longrightarrow> \<not> task_runs (s_works s w) \<and> \<not> w_stream (s_works s w) \<and>
       d_state (s_admission s) u = Left \<and> d_state (s_counts s) u = Left \<and> l_no_work s)"
proof -
  have i: "places cfg s" "books_ok s" "drain_ok s"
    using reached_inv [OF assms(2,1)] by (simp_all add: text_inv_def)
  have hand: "w \<in> set (l_work s)" if "\<not> place_left (s_admission s) (s_works s w) \<or>
      \<not> count_left (s_counts s) (s_works s w) \<or> w_stream (s_works s w) \<or> task_runs (s_works s w)" for w
  proof -
    have "stage_of s w = In_hand"
      using places_work [OF i(1), of w] that
      by (cases "w_phase (s_works s w)") (auto simp: work_ok_def place_left_def count_left_def task_runs_def)
    then show ?thesis using i(2) by (simp add: books_ok_def)
  qed
  have a: "(\<exists>!w. w_ticket (s_works s w) = Some u) \<and> (\<exists>w \<in> set (l_work s). w_ticket (s_works s w) = Some u)"
    if u: "d_state (s_admission s) u \<noteq> Left"
  proof -
    have o: "owned d_state d_next (s_admission s) (\<lambda>w. w_ticket (s_works s w))"
      using i(1) by (simp add: places_inv_def)
    with u obtain w where w: "w_ticket (s_works s w) = Some u" by (auto simp: owned_def)
    with u have "w \<in> set (l_work s)" by (intro hand) (auto simp: place_left_def)
    with w o show ?thesis by (auto simp: owned_def)
  qed
  have c: "(\<exists>!w. w_count_place (s_works s w) = Some u) \<and> (\<exists>w \<in> set (l_work s). w_count_place (s_works s w) = Some u)"
    if u: "d_state (s_counts s) u \<noteq> Left"
  proof -
    have o: "owned d_state d_next (s_counts s) (\<lambda>w. w_count_place (s_works s w))"
      using i(1) by (simp add: places_inv_def)
    with u obtain w where w: "w_count_place (s_works s w) = Some u" by (auto simp: owned_def)
    with u have "w \<in> set (l_work s)" by (intro hand) (auto simp: count_left_def)
    with w o show ?thesis by (auto simp: owned_def)
  qed
  have e: "d_state (s_admission s) u = Left" "d_state (s_counts s) u = Left" if "l_work s = []"
    using a c that by fastforce+
  have r: "status s = Drained \<Longrightarrow> l_work s = [] \<and> l_no_work s"
    using i(3) by (simp add: status_drained_iff drain_ok_def)
  have n: "\<not> task_runs (s_works s w) \<and> \<not> w_stream (s_works s w)" if "l_work s = []"
    using hand [of w] that by auto
  from a c e r n show ?thesis by blast
qed

text \<open>
  C5: A sleep is final. Once a state has a sleep requested, whatever happens after it, the service
  stays draining or drained, accepts no work, and answers every open with an error.
\<close>

theorem sleep_is_final:
  assumes "limits_ok cfg" and "reached cfg boot t s" and "l_sleep_requested s" and "trun cfg t s t' s'"
  shows "l_sleep_requested s' \<and> status s' \<in> {Draining, Drained} \<and>
    (\<exists>e. submit cfg loads now raw w s' = Inl e) \<and> (\<exists>e. open_service b g s' = Inl e)"
proof -
  have i: "text_inv cfg s" by (rule reached_inv [OF assms(2,1)])
  then have d: "drain_ok s" by (simp add: text_inv_def)
  have r: "life_run (text_lane cfg) t s t' s'" using trun_life [OF assms(4) i] by simp
  note f = tlane.asleep_for_good [OF r d assms(3)]
  have "status s' \<in> {Draining, Drained}" using f [of w b g] by (simp add: status_def)
  moreover have "\<exists>e. submit cfg loads now raw w s' = Inl e"
    using f [of w b g]
    by (cases "prepare cfg loads (w_kind (s_works s' w)) (w_caller (s_works s' w)) raw") (auto simp: submit_def)
  ultimately show ?thesis using f [of w b g] by blast
qed

text \<open>
  An open cannot undo a drain that its sender has not seen. The generation never goes back, and
  an open with the generation that some earlier state showed succeeds in a later, draining state
  only if the earlier state was draining already, in the same boot.
\<close>

theorem open_undoes_seen_drain:
  assumes "limits_ok cfg" and "reached cfg boot t s" and "trun cfg t s t' s'"
  shows "l_drain_generation s \<le> l_drain_generation s' \<and> l_boot_id s' = l_boot_id s \<and>
    (\<forall>s''. open_service b (l_drain_generation s) s' = Inr s'' \<and> l_draining s' \<longrightarrow>
       l_draining s \<and> b = l_boot_id s \<and> \<not> l_draining s'' \<and> l_deadline s'' = None)"
proof -
  have r: "life_run (text_lane cfg) t s t' s'"
    using trun_life [OF assms(3) reached_inv [OF assms(2,1)]] by simp
  have "\<not> l_draining s'' \<and> l_deadline s'' = None"
    if "open_service b (l_drain_generation s) s' = Inr s''" "l_draining s'" for s''
    using that by (auto simp: open_service_Inr_iff)
  with tlane.run_later [OF r] tlane.open_fenced [OF r] show ?thesis by (auto simp: later_def)
qed

lemma reached_run: "reached cfg boot t s \<Longrightarrow> \<exists>t0 \<ge> 0. trun cfg t0 (service_init boot) t s"
  by (induction rule: reached.induct) (auto intro: trun.intros)

lemma reached_idle_ok:
  assumes "limits_ok cfg" and "reached cfg boot t s" and "0 \<le> c_idle_timeout_s cfg"
  shows "idle_ok (text_lane cfg) t s"
proof -
  from reached_run [OF assms(2)] obtain t0 where t0: "0 \<le> t0" "trun cfg t0 (service_init boot) t s" by blast
  have i: "idle_ok (text_lane cfg) t0 (service_init boot)"
    using t0(1) by (simp add: idle_ok_def service_init_fields)
  have "life_run (text_lane cfg) t0 (service_init boot) t s"
    using trun_life [OF t0(2) init_inv [OF assms(1)]] by simp
  from tlane.run_idle_ok [OF this i] assms(3) show ?thesis by (simp add: text_lane_def)
qed

text \<open>
  The idle interval ends. Once the engine was verified, and until a sleep, the idle timer is
  armed; while no request of ours is in flight, counted by the requests themselves, it is due at the
  latest one interval after the last of them ended, and otherwise one interval from now.
\<close>

theorem idle_timer_armed:
  assumes "limits_ok cfg" and "reached cfg boot t s" and "0 \<le> c_idle_timeout_s cfg"
    and "l_engine_status s \<noteq> Eng_starting" and "\<not> l_sleep_requested s"
  shows "\<exists>d. l_idle s = Some d \<and>
    d \<le> (if {w. our_request s w} = {} then l_idle_since s else t) + c_idle_timeout_s cfg"
proof -
  have b: "books_ok s" using reached_inv [OF assms(2,1)] by (simp add: text_inv_def)
  then have "l_ours_inflight s = 0 \<longleftrightarrow> {w. our_request s w} = {}"
    using books_finite [OF b] by (simp add: books_ok_def)
  with reached_idle_ok [OF assms(1-3)] assms(4,5) show ?thesis
    by (simp add: idle_ok_def text_lane_def)
qed


subsection \<open>The properties at a concrete run\<close>

text \<open>The service boots, its engine is verified after a second, and at the end of the idle interval it sleeps.\<close>

definition sample_verified :: text_service where
  "sample_verified = engine_answered sample_config 1 (Some 8192) (service_init ''b'')"

definition sample_asleep :: text_service where
  "sample_asleep = idle_check (text_lane sample_config) 781 sample_verified"

lemma sample_timeout: "c_idle_timeout_s sample_config = 780"
  by (simp add: sample_simps)

lemma sample_boots: "reached sample_config ''b'' 0 (service_init ''b'')"
  by (rule reached.boots) simp

lemma sample_verified_reached: "reached sample_config ''b'' 1 sample_verified"
  unfolding sample_verified_def by (rule reached.steps [OF sample_boots _ tstep.engine_answers]) simp

lemma sample_verified_fields:
  "l_idle sample_verified = Some 781" "l_idle_since sample_verified = 1" "l_ours_inflight sample_verified = 0"
  "\<not> l_sleep_requested sample_verified" "l_engine_status sample_verified = Eng_ready"
  "l_draining sample_verified = False" "s_works sample_verified = (\<lambda>_. no_work)"
  by (simp_all add: sample_verified_def engine_answered_def service_init_fields engine_ready_def
      first_verified_def idle_check_def text_lane_def sample_timeout Let_def)

lemma sample_step: "tstep sample_config 781 sample_verified sample_asleep"
  unfolding sample_asleep_def by (rule tstep.idle_due [OF sample_verified_fields(1)]) simp

lemma sample_asleep_reached: "reached sample_config ''b'' 781 sample_asleep"
  by (rule reached.steps [OF sample_verified_reached _ sample_step]) simp

lemma sample_asleep_eq: "sample_asleep = fall_asleep (text_lane sample_config) 781 sample_verified"
  unfolding sample_asleep_def
  by (rule tlane.idle_check_asleep) (simp add: sample_verified_fields text_lane_def sample_timeout)

lemma sample_asleep_requested: "l_sleep_requested sample_asleep"
  unfolding sample_asleep_eq by (rule tlane.fall_asleep_fields(1))

theorem engine_generations_capped_witness:
  "int (card {w. w_stream (s_works sample_asleep w) \<and> ca_cls (w_caller (s_works sample_asleep w)) = Reader}) \<le> 4"
  using engine_generations_capped [OF sample_limits_ok sample_asleep_reached, of Reader sample_outside]
  by (simp add: sample_config_def PROVISIONAL_def)

theorem places_belong_to_work_witness:
  "d_state (s_admission sample_asleep) \<lparr>t_id = 0, t_cls = Reader, t_owner = None\<rparr> = Left"
proof -
  have "l_work sample_verified = []"
    by (simp add: sample_verified_def engine_answered_def service_init_fields engine_ready_def
        first_verified_def idle_check_def text_lane_def sample_timeout Let_def)
  then have "status sample_asleep = Drained"
    using sample_asleep_eq sample_asleep_requested reached_inv [OF sample_asleep_reached sample_limits_ok]
      same_drainD(2) [OF tlane.fall_asleep_fields(2) [where cfg = sample_config and s = sample_verified and now = 781]]
    by (simp add: status_drained_iff text_inv_def drain_ok_def)
  with places_belong_to_work [OF sample_limits_ok sample_asleep_reached, of "\<lparr>t_id = 0, t_cls = Reader, t_owner = None\<rparr>"]
  show ?thesis by blast
qed

theorem sleep_is_final_witness:
  "\<exists>e. open_service ''b'' 1 sample_asleep = Inl e"
  using sleep_is_final [OF sample_limits_ok sample_asleep_reached sample_asleep_requested trun.trun_start, of _ 0 "''x''" 0 "''b''" 1]
  by blast

theorem open_undoes_seen_drain_witness:
  "l_drain_generation sample_verified \<le> l_drain_generation sample_asleep"
  using open_undoes_seen_drain [OF sample_limits_ok sample_verified_reached
      trun.trun_step [OF trun.trun_start _ sample_step], of "''b''"] by simp

theorem idle_timer_armed_witness: "\<exists>d. l_idle sample_verified = Some d \<and> d \<le> 781"
proof -
  have "{w. our_request sample_verified w} = {}"
    by (simp add: our_request_def sample_verified_fields no_work_absent)
  with idle_timer_armed [OF sample_limits_ok sample_verified_reached, unfolded sample_timeout]
  show ?thesis by (simp add: sample_verified_fields)
qed


end
