(* ===== verification/Text_Drain.thy ===== *)
theory Text_Drain
  imports Text_Properties
begin

text \<open>
  What a drain does to the text lane's work: from the step that begins it, every task that runs and
  was not stopped has its main call at the engine, so nothing that waits is ever promoted, and no
  ticket is made for a generation while it lasts. The first stop of a work is the one that counts.
\<close>

subsection \<open>A stop reaches its task\<close>

definition stop_ok :: "text_service \<Rightarrow> bool" where
  "stop_ok s \<longleftrightarrow> (\<forall>w. (task_runs (s_works s w) \<longrightarrow> (w_cancel (s_works s w) \<longleftrightarrow> w_stop_reason (s_works s w) \<noteq> None)) \<and>
     (\<not> has_task (s_works s w) \<longrightarrow> \<not> w_cancel (s_works s w) \<and> w_stop_reason (s_works s w) = None))"

definition settled :: "nat \<Rightarrow> text_service \<Rightarrow> bool" where
  "settled w s \<longleftrightarrow>
     (task_runs (s_works s w) \<and> w_stop_reason (s_works s w) = None \<longrightarrow> work_active w s)"

definition calm :: "text_service \<Rightarrow> bool" where
  "calm s \<longleftrightarrow> (\<forall>w. settled w s)"

lemma task_runs_has: "task_runs k \<Longrightarrow> has_task k"
  by (auto simp: task_runs_def has_task_def)

lemma stop_ok_stop: "stop_ok s \<Longrightarrow> stop_ok (stop_work cfg now r w s)"
  by (auto simp: stop_ok_def stop_work_works task_runs_def has_task_def)

text \<open>The desks only move tickets from waiting to active, or let the leaver's own go.\<close>

lemma active_cong:
  assumes "w_kind (s_works s' w) = w_kind (s_works s w)" "w_ticket (s_works s' w) = w_ticket (s_works s w)"
    "w_count_place (s_works s' w) = w_count_place (s_works s w)"
    and "\<And>t. w_ticket (s_works s w) = Some t \<Longrightarrow> d_state (s_admission s) t = Active \<Longrightarrow> d_state (s_admission s') t = Active"
    and "\<And>t. w_count_place (s_works s w) = Some t \<Longrightarrow> d_state (s_counts s) t = Active \<Longrightarrow> d_state (s_counts s') t = Active"
    and "work_active w s"
  shows "work_active w s'"
  using assms by (auto simp: work_active_def active_def split: kind.splits option.splits)

lemma leave_place_states:
  assumes "places cfg s"
  shows "u \<noteq> t \<Longrightarrow> d_state (s_admission s) u = Active \<Longrightarrow> d_state (s_admission (leave_place cfg t s)) u = Active"
    and "s_counts (leave_place cfg t s) = s_counts s"
proof -
  have a: "adm_sound cfg (s_admission s)" using assms by (simp add: places_inv_def)
  obtain a' where l: "leave_place cfg t s = s\<lparr>s_admission := a'\<rparr>" "adm_leave cfg t (s_admission s) = Some a'"
    using leave_place_eq [OF assms] by metis
  show "u \<noteq> t \<Longrightarrow> d_state (s_admission s) u = Active \<Longrightarrow> d_state (s_admission (leave_place cfg t s)) u = Active"
    using gens.leave_keeps_active [OF a l(2)] l(1) by simp
  show "s_counts (leave_place cfg t s) = s_counts s" using l(1) by simp
qed

lemma leave_count_states:
  assumes "places cfg s"
  shows "u \<noteq> t \<Longrightarrow> d_state (s_counts s) u = Active \<Longrightarrow> d_state (s_counts (leave_count cfg t s)) u = Active"
    and "s_admission (leave_count cfg t s) = s_admission s"
proof -
  have a: "cp_sound cfg (s_counts s)" using assms by (simp add: places_inv_def)
  obtain p' where l: "leave_count cfg t s = s\<lparr>s_counts := p'\<rparr>" "cp_leave cfg t (s_counts s) = Some p'"
    using leave_count_eq [OF assms] by metis
  show "u \<noteq> t \<Longrightarrow> d_state (s_counts s) u = Active \<Longrightarrow> d_state (s_counts (leave_count cfg t s)) u = Active"
    using cnts.leave_keeps_active [OF a l(2)] l(1) by simp
  show "s_admission (leave_count cfg t s) = s_admission s" using l(1) by simp
qed

lemma other_ticket:
  assumes "places cfg s" "w_ticket (s_works s w) = Some t" "v \<noteq> w" "w_ticket (s_works s v) = Some u"
  shows "u \<noteq> t"
  using assms gens.owned_other [of "s_admission s" "\<lambda>w. w_ticket (s_works s w)" w t v u]
  by (simp add: places_inv_def)

lemma other_count:
  assumes "places cfg s" "w_count_place (s_works s w) = Some t" "v \<noteq> w" "w_count_place (s_works s v) = Some u"
  shows "u \<noteq> t"
  using assms cnts.owned_other [of "s_counts s" "\<lambda>w. w_count_place (s_works s w)" w t v u]
  by (simp add: places_inv_def)

text \<open>An operation on one work that ends it, or keeps its call, leaves every other settled.\<close>

lemma settled_frame:
  assumes "places cfg s" and "settled v s" and "s_works s' v = s_works s v"
    and "\<And>t. w_ticket (s_works s v) = Some t \<Longrightarrow> d_state (s_admission s) t = Active \<Longrightarrow> d_state (s_admission s') t = Active"
    and "\<And>t. w_count_place (s_works s v) = Some t \<Longrightarrow> d_state (s_counts s) t = Active \<Longrightarrow> d_state (s_counts s') t = Active"
  shows "settled v s'"
  using assms active_cong [of s' v s] by (auto simp: settled_def)

lemma cancel_task_states:
  "d_state (s_admission (cancel_task w s)) = d_state (s_admission s)"
  "d_state (s_counts (cancel_task w s)) = d_state (s_counts s)"
  by (auto simp: cancel_task_def Let_def set_work_def split: phase.splits option.splits)

lemma stop_work_states:
  assumes "places cfg s"
  shows "v \<noteq> w \<Longrightarrow> w_ticket (s_works s v) = Some u \<Longrightarrow> d_state (s_admission s) u = Active \<Longrightarrow>
      d_state (s_admission (stop_work cfg now r w s)) u = Active"
    and "d_state (s_counts (stop_work cfg now r w s)) = d_state (s_counts s)"
proof -
  let ?s1 = "set_work w (\<lambda>k. k\<lparr>w_stop_reason := Some r, w_stopped_at := Some now\<rparr>) s"
  have s1: "places cfg ?s1"
    by (rule set_work_places [OF assms]) (simp_all add: work_ok_fields places_work [OF assms])
  have f: "s_admission ?s1 = s_admission s" "s_counts ?s1 = s_counts s" by (simp_all add: set_work_def)
  have c: "s_counts (stopping cfg w ?s1) = s_counts s"
    using leave_place_states(2) [OF s1] f by (simp add: stopping_def split: option.split)
  then show "d_state (s_counts (stop_work cfg now r w s)) = d_state (s_counts s)"
    using f by (simp add: stop_work_def Let_def cancel_task_states)
  assume v: "v \<noteq> w" "w_ticket (s_works s v) = Some u" "d_state (s_admission s) u = Active"
  have "d_state (s_admission (stopping cfg w ?s1)) u = Active"
  proof (cases "w_ticket (s_works ?s1 w)")
    case (Some t)
    then have "w_ticket (s_works s w) = Some t" by (simp add: set_work_def)
    then have "u \<noteq> t" using other_ticket [OF assms _ v(1,2)] by simp
    with leave_place_states(1) [OF s1] v(3) f Some show ?thesis by (simp add: stopping_def)
  qed (use v f in \<open>simp add: stopping_def\<close>)
  with v(3) f show "d_state (s_admission (stop_work cfg now r w s)) u = Active"
    by (simp add: stop_work_def Let_def cancel_task_states)
qed

lemma settled_stop_other:
  assumes "places cfg s" and "settled v s"
  shows "settled v (stop_work cfg now r w s)"
proof (cases "v = w \<and> has_task (s_works s w) \<and> w_stop_reason (s_works s w) = None")
  case True
  then show ?thesis by (simp add: settled_def stop_work_works)
next
  case False
  then have e: "s_works (stop_work cfg now r w s) v = s_works s v" by (auto simp: stop_work_works)
  show ?thesis
  proof (cases "v = w")
    case True
    with False have "stop_work cfg now r w s = s" by (auto simp: stop_work_def)
    with assms show ?thesis by simp
  next
    case False
    show ?thesis
      by (rule settled_frame [OF assms e])
        (use stop_work_states [OF assms(1)] False in auto)
  qed
qed

lemma settled_stopped: "settled w (stop_work cfg now r w s)"
  by (auto simp: settled_def stop_work_works task_runs_has)

subsection \<open>Where a drain begins\<close>

lemma work_active_own: "own_fields s s' \<Longrightarrow> work_active w s' = work_active w s"
  by (auto simp: own_fields_def work_active_def active_def split: kind.split option.split)

lemma work_active_set_other: "v \<noteq> w \<Longrightarrow> work_active v (set_work w g s) = work_active v s"
  by (auto simp: set_work_def work_active_def active_def split: kind.split option.split)

lemma work_active_set_same:
  assumes "w_kind (g (s_works s w)) = w_kind (s_works s w)" "w_ticket (g (s_works s w)) = w_ticket (s_works s w)"
    "w_count_place (g (s_works s w)) = w_count_place (s_works s w)"
  shows "work_active w (set_work w g s) = work_active w s"
  using assms by (auto simp: set_work_def work_active_def active_def split: kind.split option.split)

lemma settled_fields:
  "own_fields s s' \<Longrightarrow> settled w s' = settled w s" "own_fields s s' \<Longrightarrow> stop_ok s' = stop_ok s"
  by (simp_all add: settled_def work_active_own) (simp_all add: own_fields_def stop_ok_def)

lemma not_waiting_settled: "\<not> work_waiting w s \<Longrightarrow> settled w s"
  by (simp add: work_waiting_def settled_def)

lemma drain_loop_settles:
  assumes "places cfg s" and "v \<in> set ws \<or> settled v s"
  shows "settled v (foldl (\<lambda>s w. if ln_waiting (text_lane cfg) w s \<or> ln_outside (text_lane cfg) w s
      then ln_stop (text_lane cfg) now By_draining w s else s) s ws)"
  using assms
proof (induction ws arbitrary: s)
  case (Cons w ws)
  let ?s = "if ln_waiting (text_lane cfg) w s \<or> ln_outside (text_lane cfg) w s
      then ln_stop (text_lane cfg) now By_draining w s else s"
  have p: "places cfg ?s" using Cons.prems(1) by (simp add: text_lane_def stop_work_places)
  have "settled w ?s" by (simp add: text_lane_def settled_stopped not_waiting_settled)
  moreover have "settled v ?s" if "settled v s"
    using that Cons.prems(1) by (simp add: text_lane_def settled_stop_other)
  ultimately have "v \<in> set ws \<or> settled v ?s" using Cons.prems(2) by auto
  from Cons.IH [OF p this] show ?case by simp
qed simp

lemma running_in_hand: "books_ok s \<Longrightarrow> task_runs (s_works s w) \<Longrightarrow> w \<in> set (l_work s)"
  by (cases "w_phase (s_works s w)") (auto simp: books_ok_def task_runs_def)

lemma close_calms:
  assumes "places cfg s" and "books_ok s" and "\<not> l_draining s"
  shows "calm (close (text_lane cfg) now s)"
proof -
  let ?s1 = "s\<lparr>l_draining := True, l_drain_generation := l_drain_generation s + 1\<rparr>"
  have o: "own_fields s ?s1" by (simp add: own_fields_def)
  have "settled v (foldl (\<lambda>s w. if ln_waiting (text_lane cfg) w s \<or> ln_outside (text_lane cfg) w s
      then ln_stop (text_lane cfg) now By_draining w s else s) ?s1 (l_work ?s1))" (is "settled v ?s2") for v
  proof (rule drain_loop_settles)
    show "places cfg ?s1" by (rule own_fields_places [OF o assms(1)])
    have "settled v s" if "v \<notin> set (l_work s)"
      using running_in_hand [OF assms(2)] that by (auto simp: settled_def)
    then show "v \<in> set (l_work ?s1) \<or> settled v ?s1" using settled_fields(1) [OF o] by auto
  qed
  then have "settled v (?s2\<lparr>l_deadline := d\<rparr>)" for v d
    by (subst settled_fields(1) [of ?s2]) (simp_all add: own_fields_def)
  with assms(3) show ?thesis by (simp add: close_def calm_def)
qed

lemma stop_calm: "places cfg s \<and> calm s \<Longrightarrow> places cfg (stop_work cfg now r w s) \<and> calm (stop_work cfg now r w s)"
  by (simp add: stop_work_places calm_def settled_stop_other)

interpretation calm_kept: kept_by_stops cfg "\<lambda>s. places cfg s \<and> calm s" for cfg
proof
  fix s s' now r w
  show "places cfg s \<and> calm s \<Longrightarrow> places cfg (stop_work cfg now r w s) \<and> calm (stop_work cfg now r w s)"
    by (rule stop_calm)
  show "own_fields s s' \<Longrightarrow> places cfg s \<and> calm s \<Longrightarrow> places cfg s' \<and> calm s'"
    using own_fields_places settled_fields(1) by (simp add: calm_def)
qed

interpretation stop_kept: kept_by_stops cfg stop_ok for cfg
  by unfold_locales (simp_all add: stop_ok_stop settled_fields(2))

lemma fall_asleep_calms:
  assumes "places cfg s" and "books_ok s" and "l_draining s \<longrightarrow> calm s" and "\<not> l_sleep_requested s"
  shows "calm (fall_asleep (text_lane cfg) now s)"
proof -
  let ?s = "s\<lparr>l_sleep_requested := True, l_idle := None\<rparr>"
  have o: "own_fields s ?s" by (simp add: own_fields_def)
  have b: "books_ok ?s" by (rule same_books_ok [OF same_books_own [OF o] assms(2)]) simp_all
  have "calm (close (text_lane cfg) now ?s)"
  proof (cases "l_draining s")
    case True
    with assms(3) settled_fields(1) [OF o] show ?thesis by (simp add: close_draining calm_def)
  next
    case False
    with close_calms [OF own_fields_places [OF o assms(1)] b] show ?thesis by simp
  qed
  moreover have "own_fields (close (text_lane cfg) now ?s) ((close (text_lane cfg) now ?s)\<lparr>l_sleep := Awaiting_drain now\<rparr>)"
    by (simp add: own_fields_def)
  ultimately have "calm ((close (text_lane cfg) now ?s)\<lparr>l_sleep := Awaiting_drain now\<rparr>)"
    using settled_fields(1) by (simp add: calm_def)
  with assms(4) show ?thesis by (simp add: fall_asleep_def)
qed

subsection \<open>What a drain keeps\<close>

lemma settled_phase_other: "v \<noteq> w \<Longrightarrow> settled v (set_work w g s) = settled v s"
  by (simp add: settled_def work_active_set_other) (simp add: set_work_def)

lemma calm_done:
  assumes "calm s" and "\<not> task_runs (g (s_works s w))"
  shows "calm (set_work w g s)"
proof -
  have "settled v (set_work w g s)" for v
    using assms by (cases "v = w") (auto simp: calm_def settled_phase_other, simp add: settled_def set_work_def)
  then show ?thesis by (simp add: calm_def)
qed

lemma calm_goes_on:
  assumes "calm s" and "work_active w s" and "w_kind (g (s_works s w)) = w_kind (s_works s w)"
    "w_ticket (g (s_works s w)) = w_ticket (s_works s w)" "w_count_place (g (s_works s w)) = w_count_place (s_works s w)"
  shows "calm (set_work w g s)"
proof -
  have "work_active w (set_work w g s)" using assms(2) work_active_set_same [of g s w] assms(3-5) by simp
  then have "settled v (set_work w g s)" for v
    using assms(1) by (cases "v = w") (auto simp: calm_def settled_phase_other, simp add: settled_def)
  then show ?thesis by (simp add: calm_def)
qed

lemma calm_leave_place:
  assumes "places cfg s" and "calm s" and "w_ticket (s_works s w) = Some t" and "\<not> task_runs (g (s_works s w))"
  shows "calm (set_work w g (leave_place cfg t s))"
proof -
  have "settled v (leave_place cfg t s)" if "v \<noteq> w" for v
    by (rule settled_frame [OF assms(1)])
      (use assms(2) leave_place_states [OF assms(1)] other_ticket [OF assms(1,3) that] in \<open>auto simp: calm_def\<close>)
  then have "settled v (set_work w g (leave_place cfg t s))" for v
    using assms(4) by (cases "v = w") (simp_all add: settled_phase_other, simp add: settled_def set_work_def)
  then show ?thesis by (simp add: calm_def)
qed

lemma calm_leave_count:
  assumes "places cfg s" and "calm s" and "\<not> task_runs (g (s_works s w))"
  shows "calm (set_work w g (count_leave cfg w s))"
proof (cases "w_count_place (s_works s w)")
  case None
  with calm_done [where s = s and g = g and w = w] assms(2,3) show ?thesis by (simp add: count_leave_def)
next
  case (Some t)
  have "settled v (leave_count cfg t s)" if "v \<noteq> w" for v
    by (rule settled_frame [OF assms(1)])
      (use assms(2) leave_count_states [OF assms(1)] other_count [OF assms(1) Some that] in \<open>auto simp: calm_def\<close>)
  then have "settled v (set_work w g (leave_count cfg t s))" for v
    using assms(3) by (cases "v = w") (simp_all add: settled_phase_other, simp add: settled_def set_work_def)
  with Some show ?thesis by (simp add: calm_def count_leave_def)
qed

lemma unstopped_active:
  assumes "calm s" and "stop_ok s" and "task_runs (s_works s w)" and "\<not> w_cancel (s_works s w)"
  shows "work_active w s"
  using assms by (auto simp: calm_def settled_def stop_ok_def)

lemma not_running [simp]:
  "\<not> task_runs (k\<lparr>w_phase := Task_done out\<rparr>)" "\<not> task_runs (k\<lparr>w_phase := Over\<rparr>)"
  "\<not> task_runs (k\<lparr>w_phase := Answering out\<rparr>)"
  by (simp_all add: task_runs_def)

text \<open>A generation without a ticket has no call at the engine, so in a calm state none is on its way.\<close>

lemma no_place_to_ask:
  assumes "calm s" and "stop_ok s" and "places cfg s" and "awaits w ph s" and "ph \<in> {Started, Count_wait, Counting}"
  shows "ph \<noteq> Started \<and> w_kind (s_works s w) = Count_work"
proof -
  have r: "task_runs (s_works s w)" "\<not> w_cancel (s_works s w)" "w_phase (s_works s w) = ph"
    using assms(4,5) by (auto simp: awaits_def task_runs_def)
  from unstopped_active [OF assms(1,2) r(1,2)] places_work [OF assms(3), of w] r(3) assms(5)
  show ?thesis by (auto simp: work_active_def work_ok_def split: kind.splits option.splits)
qed

lemma calm_counted:
  assumes "calm s" and "stop_ok s" and "places cfg s" and "awaits w Counting s"
  shows "calm (counted cfg n w s)"
proof -
  have "w_kind (s_works s w) = Count_work" using no_place_to_ask [OF assms] by simp
  then have "counted cfg n w s = set_work w ((\<lambda>k. k\<lparr>w_phase := Task_done Ended_ok\<rparr>) \<circ>
      (\<lambda>k. k\<lparr>w_input_tokens := Some n\<rparr>)) (count_leave cfg w s)"
    by (simp add: counted_def set_phase_def set_work_set_work)
  then show ?thesis
    using calm_leave_count [OF assms(3,1), where w = w] by (simp add: task_runs_def)
qed

lemma calm_cleanup:
  assumes "calm s" and "places cfg s"
  shows "calm (cleanup cfg out w s)"
proof -
  let ?g = "\<lambda>k. k\<lparr>w_stream := False, w_phase := Answering out\<rparr>"
  have e: "w_ticket (s_works (set_work w ?g s) w) = w_ticket (s_works s w)" by (simp add: set_work_def)
  show ?thesis
  proof (cases "w_ticket (s_works s w)")
    case None
    with calm_done [OF assms(1), of ?g w] show ?thesis by (simp add: cleanup_def e task_runs_def)
  next
    case (Some t)
    with calm_leave_place [OF assms(2,1) Some, of ?g] show ?thesis
      by (simp add: cleanup_def e leave_place_commute task_runs_def)
  qed
qed

lemma calm_cancelled:
  assumes "calm s" and "places cfg s"
  shows "calm (cancelled cfg w s)"
proof -
  have "calm (set_phase w (Task_done out) s)" for out
    unfolding set_phase_def by (rule calm_done [OF assms(1)]) simp
  moreover have "calm (count_failed cfg out w s)" for out
    unfolding count_failed_def set_phase_def by (rule calm_leave_count [OF assms(2,1)]) simp
  moreover have "calm (generate_failed out w s)" for out
    unfolding generate_failed_def by (rule calm_done [OF assms(1)]) (simp add: task_runs_def)
  ultimately show ?thesis by (simp add: cancelled_def split: phase.split)
qed

lemma calm_own: "own_fields s s' \<Longrightarrow> calm s' = calm s"
  by (simp add: calm_def settled_fields)

lemma arrive_calm: "calm s \<Longrightarrow> calm (arrive kd ca s)"
proof -
  assume c: "calm s"
  let ?s = "s\<lparr>s_next := Suc (s_next s), s_works := (s_works s)(s_next s :=
      no_work\<lparr>w_kind := kd, w_caller := ca, w_phase := Reading\<rparr>)\<rparr>"
  have "work_active v ?s = work_active v s" if "v \<noteq> s_next s" for v
    using that by (auto simp: work_active_def active_def split: kind.split option.split)
  then have "settled v ?s" for v
    using c by (cases "v = s_next s") (simp_all add: calm_def settled_def, simp add: task_runs_def)
  then have "calm ?s" by (simp add: calm_def)
  then show ?thesis unfolding arrive_def using calm_own [OF own_fields_life(1)] by blast
qed

text \<open>One step of a draining service.\<close>

lemma tstep_calm:
  assumes "tstep cfg now s s'" and "text_inv cfg s" and so: "stop_ok s"
    and c: "l_draining s \<longrightarrow> calm s" and d: "l_draining s'"
  shows "calm s'"
proof -
  have p: "places cfg s" and b: "books_ok s" and dr: "drain_ok s" using assms(2) by (simp_all add: text_inv_def)
  note same = truncate_eqD(3) [OF truncate_task_ops(1)] truncate_eqD(3) [OF truncate_task_ops(2)]
    truncate_eqD(3) [OF truncate_task_ops(3)] truncate_eqD(3) [OF truncate_task_ops(4)]
    truncate_eqD(3) [OF truncate_task_ops(5)] truncate_eqD(3) [OF truncate_task_ops(6)]
    truncate_eqD(3) [OF truncate_task_ops(7)] truncate_eqD(3) [OF truncate_task_ops(8)]
    truncate_eqD(3) [OF truncate_ops(2)]
  have over: "calm s \<Longrightarrow> calm (set_phase w Over s)" for w
    unfolding set_phase_def by (rule calm_done) simp_all
  have sleeps: "calm (fall_asleep (text_lane cfg) now s)" if "l_draining (fall_asleep (text_lane cfg) now s)"
  proof (cases "l_sleep_requested s")
    case True
    with c dr show ?thesis by (simp add: tlane.fall_asleep_fields drain_ok_def)
  next
    case False
    with fall_asleep_calms [OF p b c] show ?thesis by simp
  qed
  have idle: "calm (idle_check (text_lane cfg) now s1)"
    if o: "own_fields s s1" "l_draining s1 = l_draining s" "l_sleep_requested s1 = l_sleep_requested s"
      "l_work s1 = l_work s" "l_ours_inflight s1 = l_ours_inflight s"
      and dd: "l_draining (idle_check (text_lane cfg) now s1)" for s1
  proof (cases "l_sleep_requested s \<or> l_draining s")
    case True
    with c dr have "calm s" by (auto simp: drain_ok_def)
    with p o(1) have "places cfg s1 \<and> calm s1" by (simp add: own_fields_places calm_own)
    from calm_kept.idle_check_keeps [OF this] show ?thesis by simp
  next
    case False
    have b1: "books_ok s1" by (rule same_books_ok [OF same_books_own [OF o(1,4,5)] b])
    show ?thesis
    proof (rule tlane.idle_check_cases [where cfg = cfg and s = s1 and now = now])
      fix x assume "idle_check (text_lane cfg) now s1 = s1\<lparr>l_idle := Some x\<rparr>"
      with dd o(2) False show ?thesis by simp
    next
      assume "idle_check (text_lane cfg) now s1 = fall_asleep (text_lane cfg) now s1"
      with fall_asleep_calms [OF own_fields_places [OF o(1) p] b1] False o(2,3) show ?thesis by simp
    qed
  qed
  show ?thesis using assms(1)
  proof (cases rule: tstep.cases)
    case (arrives sha256 auth ch sh ca kd)
    moreover have "l_draining (arrive kd ca s) = l_draining s" by (simp add: arrive_def ours_begin_def)
    ultimately show ?thesis using c d arrive_calm by simp
  next
    case (gives_up w)
    with c d over show ?thesis
      by (auto simp: give_up_def calm_own [OF own_fields_life(2)] same) (simp add: ours_end_def same split: if_splits)
  next
    case (submits w loads raw)
    with d show ?thesis by (auto simp: submit_def accept_Inr_iff set_work_def)
  next
    case (count_enters w)
    with c d same no_place_to_ask [OF _ so p, of w Started] show ?thesis by auto
  next
    case (count_granted w t)
    with c d same so have "calm s" "work_active w s"
      using unstopped_active [OF _ so, of w] by (auto simp: awaits_def task_runs_def)
    then show ?thesis unfolding count_granted(1) set_phase_def by (rule calm_goes_on) simp_all
  next
    case (counts w n)
    with c d same calm_counted [OF _ so p] show ?thesis by simp
  next
    case (count_fails w out)
    with c d same have "calm s" by simp
    then show ?thesis unfolding count_fails(1) count_failed_def set_phase_def
      by (intro calm_leave_count [OF p]) simp_all
  next
    case (place_granted w t)
    with c d same so have "calm s" "work_active w s"
      using unstopped_active [OF _ so, of w] by (auto simp: awaits_def task_runs_def)
    then show ?thesis unfolding place_granted(1) generate_def by (rule calm_goes_on) simp_all
  next
    case (generated w)
    with c d same so have "calm s" "work_active w s"
      using unstopped_active [OF _ so, of w] by (auto simp: awaits_def task_runs_def)
    then show ?thesis unfolding generated(1) set_phase_def by (rule calm_goes_on) simp_all
  next
    case (generate_fails w out)
    with c d same have "calm s" by simp
    then show ?thesis unfolding generate_fails(1) generate_failed_def by (rule calm_done) (simp add: task_runs_def)
  next
    case (stream_ends w out)
    with c d same have "calm s" by simp
    then show ?thesis unfolding stream_ends(1) set_phase_def by (rule calm_done) simp
  next
    case (cancels w)
    with c d same calm_cancelled [OF _ p] show ?thesis by simp
  next
    case (cleans w out)
    with c d same calm_cleanup [OF _ p] show ?thesis by simp
  next
    case (answers w out)
    then have "l_draining s" using d same
      by (simp add: answered_def ours_end_def release_def Let_def split: if_splits)
    with c over [of w] answers calm_own [OF own_fields_life(2)] calm_own [OF own_fields_life(3)] show ?thesis
      by (simp add: answered_def)
  next
    case (stops r w)
    with c d same stop_calm [of cfg s] p show ?thesis by simp
  next
    case (drains boot)
    with c close_calms [OF p b] show ?thesis by (cases "l_draining s") (simp_all add: drain_Inr_iff close_draining)
  next
    case (sleeps boot)
    with d \<open>\<lbrakk>l_draining (fall_asleep (text_lane cfg) now s)\<rbrakk> \<Longrightarrow> calm (fall_asleep (text_lane cfg) now s)\<close>
    show ?thesis by (simp add: sleep_Inr_iff)
  next
    case (opens boot g)
    with c d show ?thesis by (auto simp: open_service_Inr_iff split: if_splits)
  next
    case (idle_due x)
    with d idle [of s] show ?thesis by (simp add: own_fields_def)
  next
    case (deadline_due x)
    with c d truncate_eqD(3) [OF tlane.drain_deadline_fields(1)] have "places cfg s \<and> calm s" using p by simp
    from calm_kept.drain_deadline_keeps [OF this] deadline_due show ?thesis by simp
  next
    case sleep_task
    then have "l_draining s' = l_draining s"
      by (auto simp: sleep_then_stop_def split: sleep_task.splits if_splits)
    with c d calm_own [OF own_fields_life(8) [OF sleep_task]] show ?thesis by simp
  next
    case check_fails
    with c d calm_own [OF own_fields_life(4)] show ?thesis by (simp add: check_failed_def split: if_splits)
  next
    case (engine_answers n)
    show ?thesis
    proof (cases "l_draining s")
      case True
      with c p have "places cfg s \<and> calm s" by simp
      from calm_kept.engine_answered_keeps [OF this] engine_answers show ?thesis by simp
    next
      case False
      have r: "l_draining (engine_ready x) = l_draining x" "calm (engine_ready x) = calm x" for x
        by (simp add: engine_ready_def) (rule calm_own [OF own_fields_life(5)])
      have e: "l_draining (engine_changes (text_lane cfg) now s) = l_draining s"
        using truncate_eqD(3) [OF tlane.engine_changes_fields(1)] by simp
      have "calm (engine_ready (first_verified (text_lane cfg) now (s\<lparr>s_engine_length := x, s_context_tokens := y\<rparr>)))"
        if "l_draining (engine_ready (first_verified (text_lane cfg) now (s\<lparr>s_engine_length := x, s_context_tokens := y\<rparr>)))"
        for x y
        using that idle [of "s\<lparr>s_engine_length := x, s_context_tokens := y, l_idle_since := now\<rparr>"]
        by (simp add: r first_verified_def own_fields_def)
      with False d e show ?thesis unfolding engine_answers
        by (auto simp: engine_answered_def r Let_def split: option.splits if_splits)
    qed
  qed
qed

subsection \<open>Stops and cancellations stay together\<close>

text \<open>What a step may do to a work's stop: nothing, unless it is the stop of a work that had none.\<close>

definition stops_kept :: "text_service \<Rightarrow> text_service \<Rightarrow> bool" where
  "stops_kept s s' \<longleftrightarrow> (\<forall>w. let k = s_works s w; k' = s_works s' w in
     w_stop_reason k' = w_stop_reason k \<and> w_cancel k' = w_cancel k \<and>
     (task_runs k' \<longrightarrow> task_runs k \<or> \<not> has_task k) \<and> (has_task k \<longrightarrow> has_task k'))"

lemma stops_kept_ok: "stops_kept s s' \<Longrightarrow> stop_ok s \<Longrightarrow> stop_ok s'"
  unfolding stops_kept_def stop_ok_def Let_def by (metis task_runs_has)

lemma stops_kept_set_work:
  assumes "w_stop_reason (g (s_works s w)) = w_stop_reason (s_works s w)"
    "w_cancel (g (s_works s w)) = w_cancel (s_works s w)"
    "task_runs (g (s_works s w)) \<Longrightarrow> task_runs (s_works s w) \<or> \<not> has_task (s_works s w)"
    "has_task (s_works s w) \<Longrightarrow> has_task (g (s_works s w))"
  shows "stops_kept s (set_work w g s)"
  using assms by (simp add: stops_kept_def set_work_def Let_def)

lemma stops_kept_works: "s_works s' = s_works s1 \<Longrightarrow> stops_kept s s1 \<Longrightarrow> stops_kept s s'"
  by (simp add: stops_kept_def)

lemma own_stops_kept: "own_fields s s' \<Longrightarrow> stops_kept s s'"
  by (simp add: own_fields_def stops_kept_def)

lemma stops_kept_trans: "stops_kept s s1 \<Longrightarrow> stops_kept s1 s2 \<Longrightarrow> stops_kept s s2"
  by (simp add: stops_kept_def Let_def) blast

lemma works_after:
  "s_works (count_failed cfg out w s) = (s_works s)(w := (s_works s w)\<lparr>w_phase := Task_done out\<rparr>)"
  "s_works (cleanup cfg out w s) = (s_works s)(w := (s_works s w)\<lparr>w_stream := False, w_phase := Answering out\<rparr>)"
  "s_works (set_phase w ph s) = (s_works s)(w := (s_works s w)\<lparr>w_phase := ph\<rparr>)"
  "s_works (generate w s) = (s_works s)(w := (s_works s w)\<lparr>w_phase := Opening, w_stream := True\<rparr>)"
  "s_works (generate_failed out w s) = (s_works s)(w := (s_works s w)\<lparr>w_phase := Task_done out, w_stream := False\<rparr>)"
  "s_works (ours_end now ca s) = s_works s" "s_works (release w s) = s_works s"
  by (simp_all add: count_failed_def cleanup_def set_phase_def generate_def generate_failed_def set_work_def
      ours_end_def release_def Let_def split: option.split)

lemma stops_kept_upd:
  assumes "s_works s' = (s_works s)(w := k')"
    "w_stop_reason k' = w_stop_reason (s_works s w)" "w_cancel k' = w_cancel (s_works s w)"
    "task_runs k' \<Longrightarrow> task_runs (s_works s w) \<or> \<not> has_task (s_works s w)" "has_task k'"
  shows "stops_kept s s'"
  using assms by (simp add: stops_kept_def Let_def)

lemma counted_works:
  "\<exists>k'. s_works (counted cfg n w s) = (s_works s)(w := k') \<and> w_stop_reason k' = w_stop_reason (s_works s w) \<and>
     w_cancel k' = w_cancel (s_works s w) \<and> has_task k'"
  by (auto simp: counted_def Let_def set_phase_def set_work_def has_task_def fun_upd_upd
      split: kind.split sum.split prod.split)

lemma count_enter_works:
  "\<exists>k'. s_works (count_enter cfg w s) = (s_works s)(w := k') \<and> w_stop_reason k' = w_stop_reason (s_works s w) \<and>
     w_cancel k' = w_cancel (s_works s w) \<and> has_task k'"
  by (auto simp: count_enter_def Let_def set_phase_def set_work_def has_task_def
      split: sum.split prod.split)

lemma cancelled_works:
  "\<exists>k'. s_works (cancelled cfg w s) = (s_works s)(w := k') \<and> w_stop_reason k' = w_stop_reason (s_works s w) \<and>
     w_cancel k' = w_cancel (s_works s w) \<and> has_task k' \<and> \<not> task_runs k'"
  by (auto simp: cancelled_def works_after has_task_def task_runs_def split: phase.split)

text \<open>Every step either keeps the stops, or is made of stops and of the lifecycle's own fields.\<close>

lemma tstep_kept:
  assumes "tstep cfg now s s'" and new: "w_phase (s_works s (s_next s)) = Absent" and so: "stop_ok s"
    and k: "kept_by_stops cfg P" and P: "P s" and keeps: "\<And>s1. stops_kept s s1 \<Longrightarrow> P s1"
  shows "P s'"
  using assms(1)
proof (cases rule: tstep.cases)
  case (arrives sha256 auth ch sh ca kd)
  have "w_stop_reason (s_works s (s_next s)) = None" "\<not> w_cancel (s_works s (s_next s))"
    using so new by (simp_all add: stop_ok_def has_task_def)
  then have "stops_kept s s'"
    unfolding arrives by (simp add: stops_kept_def Let_def arrive_def ours_begin_def no_work_def
        task_runs_def has_task_def new)
  then show ?thesis by (rule keeps)
next
  case (gives_up w)
  then show ?thesis
    by (intro keeps stops_kept_upd [where w = w and k' = "(s_works s w)\<lparr>w_phase := Over\<rparr>"])
      (simp_all add: give_up_def works_after has_task_def task_runs_def)
next
  case (submits w loads raw)
  then obtain r where e: "s_works s' = (s_works s)(w := (s_works s w)\<lparr>w_request := Some r,
      w_accepted_at := Some now, w_phase := Started\<rparr>)"
    by (auto simp: submit_def accept_Inr_iff set_work_def)
  with submits show ?thesis
    by (intro keeps stops_kept_upd [OF e]) (simp_all add: has_task_def)
next
  case (count_enters w)
  obtain k' where e: "s_works s' = (s_works s)(w := k')" and "w_stop_reason k' = w_stop_reason (s_works s w)"
    "w_cancel k' = w_cancel (s_works s w)" "has_task k'"
    using count_enter_works [of cfg w s] count_enters(1) by blast
  with count_enters(2) show ?thesis
    by (intro keeps stops_kept_upd [OF e]) (simp_all add: awaits_def task_runs_def)
next
  case (counts w n)
  obtain k' where e: "s_works s' = (s_works s)(w := k')" and "w_stop_reason k' = w_stop_reason (s_works s w)"
    "w_cancel k' = w_cancel (s_works s w)" "has_task k'"
    using counted_works [of cfg n w s] counts(1) by blast
  with counts(2) show ?thesis
    by (intro keeps stops_kept_upd [OF e]) (simp_all add: awaits_def task_runs_def)
next
  case (cancels w)
  obtain k' where e: "s_works s' = (s_works s)(w := k')" and "w_stop_reason k' = w_stop_reason (s_works s w)"
    "w_cancel k' = w_cancel (s_works s w)" "has_task k'"
    using cancelled_works [of cfg w s] cancels(1) by blast
  with cancels(2) show ?thesis by (intro keeps stops_kept_upd [OF e]) simp_all
next
  case (answers w out)
  then show ?thesis
    by (intro keeps stops_kept_upd [where w = w and k' = "(s_works s w)\<lparr>w_phase := Over\<rparr>"])
      (simp_all add: answered_def works_after has_task_def task_runs_def)
next
  case (opens boot g)
  then show ?thesis by (intro keeps own_stops_kept own_fields_life(7))
next
  case sleep_task
  then show ?thesis by (intro keeps own_stops_kept own_fields_life(8))
next
  case check_fails
  then show ?thesis by (simp add: keeps own_stops_kept own_fields_life(4))
next
  case (stops r w)
  then show ?thesis using kept_by_stops.stop_keeps [OF k P] by simp
next
  case (drains boot)
  then show ?thesis using kept_by_stops.close_keeps [OF k P] by (simp add: drain_Inr_iff)
next
  case (sleeps boot)
  then show ?thesis using kept_by_stops.fall_asleep_keeps [OF k P] by (simp add: sleep_Inr_iff)
next
  case (idle_due d)
  then show ?thesis using kept_by_stops.idle_check_keeps [OF k P] by simp
next
  case (deadline_due d)
  then show ?thesis using kept_by_stops.drain_deadline_keeps [OF k P] by simp
next
  case (engine_answers n)
  then show ?thesis using kept_by_stops.engine_answered_keeps [OF k P] by simp
qed (auto intro!: keeps stops_kept_upd [OF works_after(1)] stops_kept_upd [OF works_after(2)]
    stops_kept_upd [OF works_after(3)] stops_kept_upd [OF works_after(4)] stops_kept_upd [OF works_after(5)]
    simp: awaits_def task_runs_def has_task_def)

lemma tstep_stop_ok:
  assumes "tstep cfg now s s'" and "w_phase (s_works s (s_next s)) = Absent" and "stop_ok s"
  shows "stop_ok s'"
  using tstep_kept [OF assms stop_kept.kept_by_stops_axioms assms(3)] stops_kept_ok [OF _ assms(3)] by blast

lemma new_absent: "text_inv cfg s \<Longrightarrow> w_phase (s_works s (s_next s)) = Absent"
proof -
  assume "text_inv cfg s"
  then have "stage_of s (s_next s) = Not_yet" unfolding text_inv_def books_ok_def by blast
  then show ?thesis by (cases "w_phase (s_works s (s_next s))") simp_all
qed

definition drain_inv :: "config \<Rightarrow> text_service \<Rightarrow> bool" where
  "drain_inv cfg s \<longleftrightarrow> text_inv cfg s \<and> stop_ok s \<and> (l_draining s \<longrightarrow> calm s)"

lemma drain_inv_step: "tstep cfg now s s' \<Longrightarrow> drain_inv cfg s \<Longrightarrow> drain_inv cfg s'"
  using text_inv_step tstep_stop_ok new_absent tstep_calm by (auto simp: drain_inv_def)

lemma reached_drain_inv: "reached cfg boot t s \<Longrightarrow> limits_ok cfg \<Longrightarrow> drain_inv cfg s"
proof (induction rule: reached.induct)
  case (boots t)
  then show ?case
    by (simp add: drain_inv_def init_inv service_init_fields) (simp add: stop_ok_def service_init_fields no_work_def task_runs_def)
qed (blast intro: drain_inv_step)

lemma trun_drain_inv: "trun cfg t s t' s' \<Longrightarrow> drain_inv cfg s \<Longrightarrow> drain_inv cfg s'"
  by (induction rule: trun.induct) (auto intro: drain_inv_step)

subsection \<open>Properties\<close>

lemma no_waiting_ticket:
  assumes "drain_inv cfg s" and "l_draining s"
  shows "d_state (s_admission s) u \<noteq> Waiting"
proof
  assume u: "d_state (s_admission s) u = Waiting"
  have p: "places cfg s" and so: "stop_ok s" and c: "calm s"
    using assms by (simp_all add: drain_inv_def text_inv_def)
  from u have "d_state (s_admission s) u \<noteq> Left" by simp
  with p obtain w where w: "w_ticket (s_works s w) = Some u" unfolding places_inv_def owned_def by blast
  have "w_phase (s_works s w) = Place_wait \<and> \<not> w_cancel (s_works s w) \<and> w_kind (s_works s w) = Generation_work"
    using places_work [OF p, of w] u w
    by (cases "w_phase (s_works s w)") (auto simp: work_ok_defs split: if_splits)
  then have "work_active w s" by (intro unstopped_active [OF c so]) (simp_all add: task_runs_def)
  with w u \<open>w_phase _ = _ \<and> _\<close> show False by (simp add: work_active_def active_def)
qed

text \<open>
  What a drain leaves running. In every reachable draining state each task that runs and was
  not stopped has its main call at the engine, a generation its place, a count its count place, and
  no ticket for a generation waits: nothing that waits can be promoted while the drain lasts.
\<close>

theorem drain_leaves_active_work:
  assumes "limits_ok cfg" and "reached cfg boot t s" and "l_draining s"
  shows "(task_runs (s_works s w) \<and> w_stop_reason (s_works s w) = None \<longrightarrow> work_active w s) \<and>
    d_state (s_admission s) u \<noteq> Waiting"
proof -
  have i: "drain_inv cfg s" by (rule reached_drain_inv [OF assms(2,1)])
  then have "calm s" using assms(3) by (simp add: drain_inv_def)
  then show ?thesis using no_waiting_ticket [OF i assms(3)] by (auto simp: calm_def settled_def)
qed

text \<open>The places only shrink where no ticket is made.\<close>

definition confined :: "ticket set \<Rightarrow> text_service \<Rightarrow> bool" where
  "confined A s \<longleftrightarrow> {u. d_state (s_admission s) u \<noteq> Left} \<subseteq> A"

lemma leave_place_confined:
  assumes "places cfg s" and "confined A s"
  shows "confined A (leave_place cfg t s)"
proof -
  have a: "adm_sound cfg (s_admission s)" using assms(1) by (simp add: places_inv_def)
  obtain a' where l: "leave_place cfg t s = s\<lparr>s_admission := a'\<rparr>" "adm_leave cfg t (s_admission s) = Some a'"
    using leave_place_eq [OF assms(1)] by metis
  show ?thesis using gens.leave_present [OF a l(2)] assms(2) l(1) by (auto simp: confined_def)
qed

lemma confined_cong: "d_state (s_admission s') = d_state (s_admission s) \<Longrightarrow> confined A s' = confined A s"
  by (simp add: confined_def)

lemma stop_work_confined:
  assumes "places cfg s" and "confined A s"
  shows "confined A (stop_work cfg now r w s)"
proof -
  let ?s1 = "set_work w (\<lambda>k. k\<lparr>w_stop_reason := Some r, w_stopped_at := Some now\<rparr>) s"
  have s1: "places cfg ?s1"
    by (rule set_work_places [OF assms(1)]) (simp_all add: work_ok_fields places_work [OF assms(1)])
  have w1: "confined A ?s1" using assms(2) by (simp add: confined_def set_work_def)
  have "confined A (stopping cfg w ?s1)"
    using leave_place_confined [OF s1 w1] w1 by (simp add: stopping_def split: option.split)
  then have "confined A (cancel_task w (stopping cfg w ?s1))"
    using confined_cong [OF cancel_task_states(1)] by blast
  with assms(2) w1 show ?thesis by (simp add: stop_work_def Let_def)
qed

interpretation confined_kept: kept_by_stops cfg "\<lambda>s. places cfg s \<and> confined A s" for cfg A
proof
  fix s s' now r w
  show "places cfg s \<and> confined A s \<Longrightarrow> places cfg (stop_work cfg now r w s) \<and> confined A (stop_work cfg now r w s)"
    by (simp add: stop_work_places stop_work_confined)
  show "own_fields s s' \<Longrightarrow> places cfg s \<and> confined A s \<Longrightarrow> places cfg s' \<and> confined A s'"
    by (simp add: own_fields_places) (simp add: own_fields_def confined_def)
qed

lemma admission_after:
  "s_admission (set_work w g s) = s_admission s" "s_admission (set_phase w ph s) = s_admission s"
  "s_admission (count_enter cfg w s) = s_admission s" "s_admission (count_failed cfg out w s) = s_admission s"
  "s_admission (generate w s) = s_admission s" "s_admission (generate_failed out w s) = s_admission s"
  "s_admission (cancelled cfg w s) = s_admission s" "s_admission (arrive kd ca s) = s_admission s"
  "s_admission (ours_end now ca s) = s_admission s" "s_admission (release w s) = s_admission s"
  by (simp_all add: set_work_def set_phase_def count_enter_def count_failed_def generate_def
      generate_failed_def cancelled_def arrive_def ours_begin_def ours_end_def release_def Let_def
      split: phase.split sum.split prod.split)

lemma tstep_work_draining:
  assumes "tstep cfg now s s'" and "l_draining s"
  shows "set (l_work s') \<subseteq> set (l_work s)"
proof -
  note same = truncate_eqD(7) [OF truncate_task_ops(1)] truncate_eqD(7) [OF truncate_task_ops(2)]
    truncate_eqD(7) [OF truncate_task_ops(3)] truncate_eqD(7) [OF truncate_task_ops(4)]
    truncate_eqD(7) [OF truncate_task_ops(5)] truncate_eqD(7) [OF truncate_task_ops(6)]
    truncate_eqD(7) [OF truncate_task_ops(7)] truncate_eqD(7) [OF truncate_task_ops(8)]
    truncate_eqD(7) [OF truncate_ops(2)]
  have idle: "l_work (idle_check (text_lane cfg) now s1) = l_work s1" for s1
    by (simp add: idle_check_def Let_def same_drainD [OF tlane.fall_asleep_fields(2)])
  have ready: "l_work (engine_ready s1) = l_work s1" for s1 :: text_service by (simp add: engine_ready_def)
  have verified: "l_work (first_verified (text_lane cfg) now s1) = l_work s1" for s1
    by (simp add: first_verified_def idle)
  have changes: "l_work (engine_changes (text_lane cfg) now s) = l_work s"
    using truncate_eqD(7) [OF tlane.engine_changes_fields(1)] by simp
  show ?thesis using assms(1)
  proof (cases rule: tstep.cases)
    case (submits w loads raw)
    with assms(2) show ?thesis by (simp add: submit_def accept_Inr_iff)
  next
    case (deadline_due d)
    then show ?thesis using truncate_eqD(7) [OF tlane.drain_deadline_fields(1)] by simp
  next
    case (engine_answers n)
    then show ?thesis
      by (auto simp: engine_answered_def ready verified changes Let_def split: option.split)
  next
    case sleep_task
    then show ?thesis by (auto simp: sleep_then_stop_def split: sleep_task.splits if_splits)
  next
    case (answers w out)
    then show ?thesis by (auto simp: answered_def ours_end_def release_def Let_def same split: if_splits)
  qed (auto simp: same idle drain_Inr_iff sleep_Inr_iff open_service_Inr_iff check_failed_def
      same_drainD [OF tlane.close_fields(2)] same_drainD [OF tlane.fall_asleep_fields(2)]
      arrive_def ours_begin_def give_up_def ours_end_def split: if_splits)
qed

text \<open>
  C4: While a drain is on, no step makes a ticket for a generation and no step accepts work: the
  places that are taken or waited for afterwards were before, and so was the work in hand.
\<close>

theorem drain_admits_nothing:
  assumes "limits_ok cfg" and "reached cfg boot t s" and "l_draining s" and "t \<le> now"
    and "tstep cfg now s s'"
  shows "{u. d_state (s_admission s') u \<noteq> Left} \<subseteq> {u. d_state (s_admission s) u \<noteq> Left} \<and>
    set (l_work s') \<subseteq> set (l_work s)"
proof -
  let ?A = "{u. d_state (s_admission s) u \<noteq> Left}"
  have i: "drain_inv cfg s" by (rule reached_drain_inv [OF assms(2,1)])
  then have p: "places cfg s" and so: "stop_ok s" and c: "calm s" and b: "books_ok s"
    using assms(3) by (simp_all add: drain_inv_def text_inv_def)
  have PA: "places cfg s \<and> confined ?A s" using p by (simp add: confined_def)
  have "confined ?A s'" using assms(5)
  proof (cases rule: tstep.cases)
    case (counts w n)
    with no_place_to_ask [OF c so p, of w Counting] show ?thesis
      by (simp add: counted_def Let_def confined_def admission_after)
  next
    case (submits w loads raw)
    with assms(3) show ?thesis by (auto simp: submit_def accept_Inr_iff)
  next
    case (cleans w out)
    let ?s1 = "set_work w (\<lambda>k. k\<lparr>w_stream := False, w_phase := Answering out\<rparr>) s"
    have t: "w_ticket (s_works ?s1 w) = w_ticket (s_works s w)" by (simp add: set_work_def)
    have "s_admission (cleanup cfg out w s) = (case w_ticket (s_works s w) of None \<Rightarrow> s_admission s
        | Some u \<Rightarrow> s_admission (leave_place cfg u s))"
      by (simp add: cleanup_def t leave_place_commute admission_after split: option.split)
    with PA leave_place_confined [OF p] show ?thesis unfolding cleans
      by (simp add: confined_def split: option.split)
  next
    case (stops r w)
    with PA confined_kept.stop_keeps show ?thesis by blast
  next
    case (drains boot)
    with PA confined_kept.close_keeps show ?thesis by (auto simp: drain_Inr_iff)
  next
    case (sleeps boot)
    with PA confined_kept.fall_asleep_keeps show ?thesis by (auto simp: sleep_Inr_iff)
  next
    case (idle_due d)
    with PA confined_kept.idle_check_keeps show ?thesis by blast
  next
    case (deadline_due d)
    with PA confined_kept.drain_deadline_keeps show ?thesis by blast
  next
    case (engine_answers n)
    with PA confined_kept.engine_answered_keeps show ?thesis by blast
  next
    case (opens boot g)
    then show ?thesis using own_fields_life(7) by (auto simp: confined_def own_fields_def)
  next
    case sleep_task
    then show ?thesis using own_fields_life(8) by (auto simp: confined_def own_fields_def)
  next
    case check_fails
    then show ?thesis using own_fields_life(4) by (auto simp: confined_def own_fields_def)
  qed (simp_all add: confined_def admission_after give_up_def answered_def)
  moreover have "set (l_work s') \<subseteq> set (l_work s)"
    by (rule tstep_work_draining [OF assms(5,3)])
  ultimately show ?thesis by (simp add: confined_def)
qed

text \<open>
  The deadline of a drain and a change of the engine reach everything. After the deadline's
  timer has run, and after a check found another engine than the one verified, each work in hand has
  a stop, and each task that still runs is cancelled.
\<close>

theorem deadline_stops_everything:
  assumes "limits_ok cfg" and "reached cfg boot t s" and "w \<in> set (l_work s)"
    and "s' = drain_deadline (text_lane cfg) now s \<or>
      s' = engine_changes (text_lane cfg) now s \<and> \<not> l_engine_changed s"
  shows "w_stop_reason (s_works s' w) \<noteq> None \<and> (task_runs (s_works s' w) \<longrightarrow> w_cancel (s_works s' w))"
proof -
  have i: "drain_inv cfg s" by (rule reached_drain_inv [OF assms(2,1)])
  then have b: "books_ok s" and so: "stop_ok s" by (simp_all add: drain_inv_def text_inv_def)
  let ?e = "s\<lparr>l_engine_changed := True, l_engine_status := Eng_failed\<rparr>"
  have o: "own_fields s ?e" by (simp add: own_fields_def)
  have "books_ok ?e" by (rule same_books_ok [OF same_books_own [OF o] b]) simp_all
  moreover have "stop_ok ?e" using so settled_fields(2) [OF o] by simp
  ultimately have "books_ok s' \<and> stop_ok s'"
    using assms(4) books_kept.drain_deadline_keeps [OF b] stop_kept.drain_deadline_keeps [OF so]
      books_kept.stops_keep [of ?e] stop_kept.stops_keep [of ?e]
    by (auto simp: engine_changes_def)
  moreover have "halted w s'"
    using assms(3,4) tlane.drain_deadline_fields(2) tlane.engine_changes_fields(2) by blast
  moreover have "l_work s' = l_work s"
    using assms(4) truncate_eqD(7) [OF tlane.drain_deadline_fields(1)] truncate_eqD(7) [OF tlane.engine_changes_fields(1)]
    by auto
  ultimately show ?thesis
    using assms(3) by (auto simp: halted_def stop_ok_def books_ok_def has_task_def)
qed

lemma first_stop_kept:
  "kept_by_stops cfg (\<lambda>x. \<forall>w r. w_stop_reason (f w) = Some r \<longrightarrow> w_stop_reason (s_works x w) = Some r)"
  by unfold_locales (auto simp: stop_work_works own_fields_def)

text \<open>
  The first stop of a work is the one that counts. Whatever comes later, another stop, a drain,
  its deadline, a change of the engine, the reason stays, and with it the code that a cancelled
  request's client is told.
\<close>

theorem first_stop_counts:
  assumes "limits_ok cfg" and "reached cfg boot t s" and "trun cfg t s t' s'"
    and "w_stop_reason (s_works s w) = Some r"
  shows "w_stop_reason (s_works s' w) = Some r \<and>
    answer_outcome Ended_cancelled (s_works s' w) =
      (case STOP_CODES r of None \<Rightarrow> Send_nothing | Some c \<Rightarrow> Send_code c)"
proof -
  let ?P = "\<lambda>x. \<forall>w r. w_stop_reason (s_works s w) = Some r \<longrightarrow> w_stop_reason (s_works x w) = Some r"
  have "?P s' \<and> drain_inv cfg s'" using assms(3)
  proof (induction rule: trun.induct)
    case trun_start
    then show ?case using reached_drain_inv [OF assms(2,1)] by simp
  next
    case (trun_step t1 s1 t2 s2)
    then have i: "drain_inv cfg s1" and P: "?P s1" by simp_all
    have "?P x" if "stops_kept s1 x" for x
      using that P unfolding stops_kept_def Let_def by simp
    moreover have "w_phase (s_works s1 (s_next s1)) = Absent" "stop_ok s1"
      using i new_absent by (auto simp: drain_inv_def)
    ultimately have "?P s2"
      using tstep_kept [OF trun_step.hyps(3) _ _ first_stop_kept [of cfg "s_works s"] P] by blast
    with drain_inv_step [OF trun_step.hyps(3) i] show ?case by simp
  qed
  with assms(4) show ?thesis by (simp add: answer_outcome_def)
qed

subsection \<open>The properties at a concrete run\<close>

text \<open>A reader's generation arrives, is accepted, and its client leaves; then the service drains.\<close>

definition sample_caller :: caller where
  "sample_caller = \<lparr>ca_key = sample_key, ca_cls = Reader, ca_scope = Some ''reader.abcdefgh''\<rparr>"

definition sample_doc :: json_doc where
  "sample_doc = DObj [(''model'', DStr ''test-model''),
     (''messages'', DList [DObj [(''role'', DStr ''user''), (''content'', DStr ''hi'')]]),
     (''max_tokens'', DInt 16), (''stream'', DBool True),
     (''stream_options'', DObj [(''include_usage'', DBool True)])]"

definition sample_arrived :: text_service where
  "sample_arrived = arrive Generation_work sample_caller sample_verified"

definition sample_accepted :: text_service where
  "sample_accepted = (case submit sample_config (\<lambda>_. Some sample_doc) 3 ''x'' 0 sample_arrived of
     Inl e \<Rightarrow> sample_arrived | Inr s \<Rightarrow> s)"

definition sample_left :: text_service where
  "sample_left = stop_work sample_config 4 By_disconnect 0 sample_accepted"

definition sample_draining :: text_service where
  "sample_draining = close (text_lane sample_config) 5 sample_left"

lemma sample_authorized:
  "authorize id (c_keys sample_config) (Some ''bearer d1'') (Some ''reader'') (Some ''reader.abcdefgh'') sample_verified
   = Inr sample_caller"
  by (simp add: authorize_def authenticate_def find_key_def bytes_lower_def less_eq_char_def sample_simps
      check_serving_def status_def sample_verified_fields resolve_def outside_def cls_of_name_def CLASSES_def
      reader_scope_def scope_char_def sample_caller_def)

lemma sample_prepared:
  "prepare sample_config (\<lambda>_. Some sample_doc) Generation_work sample_caller ''x'' = Inr sample_request"
proof -
  have "decode_doc sample_doc = Some sample_body" by (simp add: sample_doc_def sample_body_def)
  moreover have "depth sample_body \<le> MAX_DEPTH" by (simp add: depth_eq_nesting MAX_DEPTH_def sample_body_def)
  moreover have "c_alias sample_config = ''test-model''" "\<not> c_vision sample_config" "\<not> c_speculative sample_config"
    by (simp_all add: sample_simps)
  moreover have "cl_max_tokens (c_limits sample_config Reader) = 8192" by (simp add: sample_simps)
  ultimately show ?thesis
    using sample_body_checked
    by (simp add: prepare_def parse_json_def check_max_tokens_def check_min_p_def min_p_refused_def
        check_thinking_budget_def sample_caller_def) (simp add: sample_request_def)
qed

lemma sample_arrived_works: "s_works sample_arrived 0 = no_work\<lparr>w_kind := Generation_work, w_caller := sample_caller, w_phase := Reading\<rparr>"
  and sample_arrived_fields: "l_draining sample_arrived = False" "l_engine_status sample_arrived = Eng_ready"
    "l_work sample_arrived = []" "l_boot_id sample_arrived = ''b''"
  by (simp_all add: sample_arrived_def arrive_def ours_begin_def sample_verified_def engine_answered_def
      service_init_fields engine_ready_def first_verified_def idle_check_def text_lane_def sample_timeout Let_def)
    (simp_all add: service_init_def lifecycle.extend_def lifecycle_init_def)

lemma sample_submit: "submit sample_config (\<lambda>_. Some sample_doc) 3 ''x'' 0 sample_arrived = Inr sample_accepted"
  and sample_accepted_works: "w_phase (s_works sample_accepted 0) = Started" "w_stop_reason (s_works sample_accepted 0) = None"
  and sample_accepted_fields: "l_work sample_accepted = [0]" "l_draining sample_accepted = False"
    "l_boot_id sample_accepted = ''b''"
  using sample_prepared
  by (simp_all add: sample_accepted_def submit_def sample_arrived_works accept_def check_serving_def status_def
      sample_arrived_fields set_work_def no_work_def List.insert_def)

lemma sample_left_fields: "w_stop_reason (s_works sample_left 0) = Some By_disconnect"
  "l_work sample_left = [0]" "l_draining sample_left = False" "l_boot_id sample_left = ''b''"
  using truncate_eqD [OF truncate_task_ops(1) [of sample_config 4 By_disconnect 0 sample_accepted]]
  by (simp_all add: sample_left_def stop_work_works has_task_def sample_accepted_works sample_accepted_fields)

lemma sample_reached:
  "reached sample_config ''b'' 2 sample_arrived" "reached sample_config ''b'' 3 sample_accepted"
  "reached sample_config ''b'' 4 sample_left" "reached sample_config ''b'' 5 sample_draining"
proof -
  show a: "reached sample_config ''b'' 2 sample_arrived"
    unfolding sample_arrived_def
    by (rule reached.steps [OF sample_verified_reached _ tstep.arrives [OF sample_authorized]]) simp
  have "tstep sample_config 3 sample_arrived sample_accepted"
    by (rule tstep.submits [OF _ sample_submit]) (simp add: sample_arrived_works)
  then show b: "reached sample_config ''b'' 3 sample_accepted" by (rule reached.steps [OF a, rotated]) simp
  have "tstep sample_config 4 sample_accepted sample_left"
    unfolding sample_left_def by (rule tstep.stops) (simp_all add: sample_accepted_fields)
  then show c: "reached sample_config ''b'' 4 sample_left" by (rule reached.steps [OF b, rotated]) simp
  have "tstep sample_config 5 sample_left sample_draining"
    by (rule tstep.drains [of _ _ "''b''"]) (simp add: drain_Inr_iff sample_draining_def sample_left_fields)
  then show "reached sample_config ''b'' 5 sample_draining" by (rule reached.steps [OF c, rotated]) simp
qed

lemma sample_draining_on: "l_draining sample_draining"
  by (simp add: sample_draining_def tlane.close_fields)

text \<open>Its tokens are counted and its place granted: the engine is called when the drain comes.\<close>

definition sample_counting :: text_service where
  "sample_counting = set_phase 0 Counting (count_enter sample_config 0 sample_accepted)"

definition sample_opening :: text_service where
  "sample_opening = generate 0 (counted sample_config 5 0 sample_counting)"

definition sample_busy_drain :: text_service where
  "sample_busy_drain = close (text_lane sample_config) 5 sample_opening"

definition busy_ticket :: ticket where
  "busy_ticket = \<lparr>t_id = 0, t_cls = Reader, t_owner = None\<rparr>"

lemma sample_verified_state: "s_counts sample_verified = cp_init" "s_admission sample_verified = adm_init"
  "s_context_tokens sample_verified = Some 4096"
  by (simp_all add: sample_verified_def engine_answered_def service_init_fields engine_ready_def
      first_verified_def idle_check_def text_lane_def sample_timeout Let_def)
    (simp_all add: sample_simps)

lemma sample_arrived_state: "s_counts sample_arrived = cp_init" "s_admission sample_arrived = adm_init"
  "s_context_tokens sample_arrived = Some 4096"
  by (simp_all add: sample_arrived_def arrive_def ours_begin_def sample_verified_state)

lemma sample_accepted_state: "s_counts sample_accepted = cp_init" "s_admission sample_accepted = adm_init"
  "s_context_tokens sample_accepted = Some 4096"
  "s_works sample_accepted 0 = no_work\<lparr>w_kind := Generation_work, w_caller := sample_caller, w_phase := Started,
     w_request := Some sample_request, w_accepted_at := Some 3\<rparr>"
  using sample_submit sample_prepared sample_arrived_state
  by (simp_all add: sample_accepted_def submit_def sample_arrived_works accept_def check_serving_def status_def
      sample_arrived_fields set_work_def no_work_def)

lemma sample_no_owner: "outside_key sample_caller = None" "ca_cls sample_caller = Reader" "\<not> outside (ca_key sample_caller)"
  by (simp_all add: sample_caller_def outside_key_def outside_def sample_key_def)

lemma sample_count_enter:
  "s_works (count_enter sample_config 0 sample_accepted) 0 =
     (s_works sample_accepted 0)\<lparr>w_count_place := Some busy_ticket, w_phase := Count_wait\<rparr>"
  "has_grant (s_counts (count_enter sample_config 0 sample_accepted)) busy_ticket"
  by (simp_all add: count_enter_def sample_accepted_state no_work_def sample_no_owner cp_enter_def cp_init_def
      new_ticket_def Let_def inc_owner_def running_def CLASSES_def sample_simps set_work_def busy_ticket_def
      has_grant_def grant_def)

lemma sample_counting_state:
  "s_works sample_counting 0 = (s_works sample_accepted 0)\<lparr>w_count_place := Some busy_ticket, w_phase := Counting\<rparr>"
  "s_admission sample_counting = adm_init" "s_context_tokens sample_counting = Some 4096"
  "s_counts sample_counting = s_counts (count_enter sample_config 0 sample_accepted)"
  by (simp_all add: sample_counting_def set_phase_def set_work_def sample_count_enter)
    (simp_all add: count_enter_def sample_accepted_state set_work_def set_phase_def split: sum.split prod.split)

lemma sample_left_count:
  "s_works (count_leave sample_config 0 sample_counting) = s_works sample_counting"
  "s_admission (count_leave sample_config 0 sample_counting) = adm_init"
  "s_context_tokens (count_leave sample_config 0 sample_counting) = Some 4096"
  by (simp_all add: count_leave_def leave_count_def sample_counting_state split: option.split)

lemma sample_place:
  "adm_enter sample_config Reader None adm_init = Inr (busy_ticket, activate busy_ticket (snd (new_ticket Reader None adm_init)))"
  by (simp add: adm_enter_def adm_init_def new_ticket_def Let_def has_room_def CLASSES_def SHARED_def sample_simps
      activate_def bump_def grant_def busy_ticket_def)

lemma sample_input: "s_context_tokens x = Some 4096 \<Longrightarrow> check_input sample_config sample_caller 5 16 x = Inr ()"
  by (simp add: check_input_def sample_no_owner) (simp add: sample_simps)

lemma sample_placed_eq:
  "counted sample_config 5 0 sample_counting =
    set_work 0 (\<lambda>k. k\<lparr>w_ticket := Some busy_ticket, w_phase := Place_wait\<rparr>)
      (set_work 0 (\<lambda>k. k\<lparr>w_input_tokens := Some 5\<rparr>) (count_leave sample_config 0 sample_counting)
        \<lparr>s_admission := activate busy_ticket (snd (new_ticket Reader None adm_init))\<rparr>)"
proof -
  have "r_max_tokens sample_request = 16" by (simp add: sample_request_def)
  then show ?thesis
    by (simp add: counted_def sample_left_count sample_counting_state sample_accepted_state no_work_def sample_no_owner
        Let_def sample_input set_work_def sample_place)
qed

lemma sample_opening_state:
  "w_phase (s_works sample_opening 0) = Opening" "w_kind (s_works sample_opening 0) = Generation_work"
  "w_ticket (s_works sample_opening 0) = Some busy_ticket" "d_state (s_admission sample_opening) busy_ticket = Active"
  "w_stop_reason (s_works sample_opening 0) = None" "w_caller (s_works sample_opening 0) = sample_caller"
  by (simp_all add: sample_opening_def generate_def sample_placed_eq set_work_def sample_left_count
      sample_counting_state sample_accepted_state no_work_def activate_def grant_def)

lemma sample_opening_reached: "reached sample_config ''b'' 4 sample_opening"
proof -
  have st: "tstep sample_config 3 sample_accepted (count_enter sample_config 0 sample_accepted)"
    by (rule tstep.count_enters) (simp add: awaits_def sample_accepted_state no_work_def)
  have a: "reached sample_config ''b'' 3 (count_enter sample_config 0 sample_accepted)"
    by (rule reached.steps [OF sample_reached(2) _ st]) simp
  have st: "tstep sample_config 3 (count_enter sample_config 0 sample_accepted) sample_counting"
    unfolding sample_counting_def
    by (rule tstep.count_granted [OF _ _ sample_count_enter(2)])
      (simp_all add: awaits_def sample_count_enter(1) sample_accepted_state no_work_def)
  have b: "reached sample_config ''b'' 3 sample_counting" by (rule reached.steps [OF a _ st]) simp
  have st: "tstep sample_config 4 sample_counting (counted sample_config 5 0 sample_counting)"
    by (rule tstep.counts) (simp_all add: awaits_def sample_counting_state sample_accepted_state no_work_def)
  have c: "reached sample_config ''b'' 4 (counted sample_config 5 0 sample_counting)"
    by (rule reached.steps [OF b _ st]) simp
  have st: "tstep sample_config 4 (counted sample_config 5 0 sample_counting) sample_opening"
    unfolding sample_opening_def
    by (rule tstep.place_granted [of _ _ busy_ticket])
      (simp_all add: awaits_def sample_placed_eq set_work_def sample_left_count sample_counting_state
        sample_accepted_state no_work_def has_grant_def activate_def grant_def new_ticket_def adm_init_def busy_ticket_def Let_def)
  show ?thesis by (rule reached.steps [OF c _ st]) simp
qed

lemma sample_opening_life: "l_work sample_opening = [0]" "l_draining sample_opening = False" "l_boot_id sample_opening = ''b''"
proof -
  have "l_work sample_counting = [0]" "l_draining sample_counting = False" "l_boot_id sample_counting = ''b''"
    by (simp_all add: sample_counting_def set_phase_def count_enter_def sample_accepted_fields set_work_def Let_def
        split: option.split sum.split prod.split)
  then show "l_work sample_opening = [0]" "l_draining sample_opening = False" "l_boot_id sample_opening = ''b''"
    by (simp_all add: sample_opening_def generate_def sample_placed_eq set_work_def count_leave_def leave_count_def
        split: option.split)
qed

lemma sample_busy_reached: "reached sample_config ''b'' 5 sample_busy_drain"
proof -
  have st: "tstep sample_config 5 sample_opening sample_busy_drain"
    by (rule tstep.drains [of _ _ "''b''"]) (simp add: drain_Inr_iff sample_busy_drain_def sample_opening_life)
  show ?thesis by (rule reached.steps [OF sample_opening_reached _ st]) simp
qed

lemma sample_busy_drain_eq:
  "s_works sample_busy_drain = s_works sample_opening" "s_admission sample_busy_drain = s_admission sample_opening"
  by (simp_all add: sample_busy_drain_def close_def Let_def sample_opening_life text_lane_def work_waiting_def
      work_active_def sample_opening_state active_def work_outside_def sample_no_owner)

theorem drain_leaves_active_work_witness:
  "l_draining sample_busy_drain \<and> task_runs (s_works sample_busy_drain 0) \<and> work_active 0 sample_busy_drain"
proof -
  have d: "l_draining sample_busy_drain" by (simp add: sample_busy_drain_def tlane.close_fields)
  have "task_runs (s_works sample_busy_drain 0)" "w_stop_reason (s_works sample_busy_drain 0) = None"
    by (simp_all add: sample_busy_drain_eq sample_opening_state task_runs_def)
  with drain_leaves_active_work [OF sample_limits_ok sample_busy_reached d] d show ?thesis by blast
qed

theorem drain_admits_nothing_witness:
  "set (l_work (drain_deadline (text_lane sample_config) 65 sample_draining)) \<subseteq> set (l_work sample_draining)"
proof -
  have "c_drain_deadline_s sample_config = 60" by (simp add: sample_simps)
  then have "l_deadline sample_draining = Some 65"
    using tlane.close_fields(7) [where cfg = sample_config and s = sample_left and now = 5] sample_left_fields(3)
    by (simp add: sample_draining_def text_lane_def)
  then have "tstep sample_config 65 sample_draining (drain_deadline (text_lane sample_config) 65 sample_draining)"
    by (rule tstep.deadline_due) simp
  from drain_admits_nothing [OF sample_limits_ok sample_reached(4) sample_draining_on _ this] show ?thesis by simp
qed

theorem deadline_stops_everything_witness:
  "w_stop_reason (s_works (drain_deadline (text_lane sample_config) 65 sample_accepted) 0) \<noteq> None"
  using deadline_stops_everything [OF sample_limits_ok sample_reached(2), of 0
      "drain_deadline (text_lane sample_config) 65 sample_accepted" 65]
  by (simp add: sample_accepted_fields)

theorem first_stop_counts_witness:
  "w_stop_reason (s_works sample_draining 0) = Some By_disconnect"
proof -
  have "tstep sample_config 5 sample_left sample_draining"
    by (rule tstep.drains [of _ _ "''b''"]) (simp add: drain_Inr_iff sample_draining_def sample_left_fields)
  then have "trun sample_config 4 sample_left 5 sample_draining"
    by (rule trun.trun_step [OF trun.trun_start, rotated]) simp
  from first_stop_counts [OF sample_limits_ok sample_reached(3) this sample_left_fields(1)] show ?thesis by simp
qed

end
