(* ===== verification/Python_Values.thy ===== *)
theory Python_Values
  imports Json_Values "HOL-Library.Char_ord" "HOL-Library.List_Lexorder"
begin

text \<open>
  What the components use of Python's numbers, texts and dictionaries: decimal and hexadecimal digits,
  \<^verbatim>\<open>float\<close> of an integer, \<^verbatim>\<open>split\<close> and \<^verbatim>\<open>join\<close>, and the reading and updating of a dictionary.
  Texts and bytes are strings of bytes and ordered byte by byte, which orders UTF-8 as Python orders texts.
\<close>

subsection \<open>Numbers and texts\<close>

fun bit_count :: "nat \<Rightarrow> nat" where
  "bit_count n = (if n = 0 then 0 else Suc (bit_count (n div 2)))"

declare bit_count.simps [simp del]

text \<open>\<^verbatim>\<open>float(n)\<close>: the nearest double, half to even, \<open>None\<close> where it is an \<^verbatim>\<open>OverflowError\<close>.\<close>

definition float_of_nat :: "nat \<Rightarrow> rat option" where
  "float_of_nat n =
    (if n < 2 ^ 53 then Some (of_nat n)
     else
       let e = bit_count n - 53; q = n div 2 ^ e; r = n mod 2 ^ e;
           up = (2 * r > 2 ^ e \<or> 2 * r = 2 ^ e \<and> odd q);
           m = (if up then Suc q else q) * 2 ^ e
       in if m < 2 ^ 1024 then Some (of_nat m) else None)"

definition float_of_int :: "int \<Rightarrow> rat option" where
  "float_of_int n = (if n < 0 then map_option uminus (float_of_nat (nat (- n))) else float_of_nat (nat n))"

fun digits_of :: "nat \<Rightarrow> string" where
  "digits_of n = (if n < 10 then [char_of (48 + n)] else digits_of (n div 10) @ [char_of (48 + n mod 10)])"

declare digits_of.simps [simp del]

definition is_digit :: "char \<Rightarrow> bool" where
  "is_digit c \<longleftrightarrow> CHR ''0'' \<le> c \<and> c \<le> CHR ''9''"

definition is_lower_hex :: "char \<Rightarrow> bool" where
  "is_lower_hex c \<longleftrightarrow> is_digit c \<or> CHR ''a'' \<le> c \<and> c \<le> CHR ''f''"

definition is_hex :: "char \<Rightarrow> bool" where
  "is_hex c \<longleftrightarrow> is_lower_hex c \<or> CHR ''A'' \<le> c \<and> c \<le> CHR ''F''"

definition hex_value :: "char \<Rightarrow> nat" where
  "hex_value c =
    (if is_digit c then of_char c - 48 else if CHR ''a'' \<le> c then of_char c - 87 else of_char c - 55)"

text \<open>The expression \<^verbatim>\<open>[1-9][0-9]*\<close>, matched in full.\<close>

definition is_count :: "string \<Rightarrow> bool" where
  "is_count s \<longleftrightarrow> s \<noteq> [] \<and> list_all is_digit s \<and> hd s \<noteq> CHR ''0''"

text \<open>\<^verbatim>\<open>bytes.fromhex\<close> of a text of pairs of digits, and \<^verbatim>\<open>int(text, 10)\<close> and \<^verbatim>\<open>int(text, 16)\<close> of digits.\<close>

fun from_hex :: "string \<Rightarrow> string" where
  "from_hex (a # b # s) = char_of (hex_value a * 16 + hex_value b) # from_hex s"
| "from_hex _ = []"

definition of_digits :: "nat \<Rightarrow> string \<Rightarrow> nat" where
  "of_digits base s = foldl (\<lambda>n c. n * base + hex_value c) 0 s"

fun split_on :: "char \<Rightarrow> string \<Rightarrow> string list" where
  "split_on c [] = [[]]"
| "split_on c (x # xs) =
    (if x = c then [] # split_on c xs
     else case split_on c xs of [] \<Rightarrow> [[x]] | p # ps \<Rightarrow> (x # p) # ps)"

lemma split_on_not_Nil [simp]: "split_on c s \<noteq> []"
  by (induction s) (auto split: list.split)

fun join_with :: "string \<Rightarrow> string list \<Rightarrow> string" where
  "join_with sep [] = []"
| "join_with sep [s] = s"
| "join_with sep (s # ss) = s @ sep @ join_with sep ss"

subsection \<open>Dictionaries\<close>

type_synonym obj = "(string \<times> json) list"

text \<open>\<^verbatim>\<open>value.get(name, fallback)\<close>.\<close>

definition jget_or :: "string \<Rightarrow> json \<Rightarrow> obj \<Rightarrow> json" where
  "jget_or name fallback ob = (case map_of ob name of None \<Rightarrow> fallback | Some v \<Rightarrow> v)"

text \<open>\<^verbatim>\<open>data.update\<close>: a field that is there keeps its position.\<close>

definition jput :: "string \<Rightarrow> json \<Rightarrow> obj \<Rightarrow> obj" where
  "jput n v ob = (if jhas n ob then map (\<lambda>(m, w). (m, if m = n then v else w)) ob else ob @ [(n, v)])"

subsection \<open>Facts about them\<close>

lemma map_of_jput: "map_of (jput n v ob) m = (if m = n then Some v else map_of ob m)"
proof (cases "jhas n ob")
  case True
  have "map_of (map (\<lambda>(k, w). (k, if k = n then v else w)) ob) m = (if m = n then map_option (\<lambda>_. v) (map_of ob n) else map_of ob m)" for m
    by (induction ob) auto
  with True show ?thesis by (auto simp: jput_def jhas_def)
next
  case False
  then show ?thesis by (auto simp: jput_def jhas_def map_add_def split: option.split)
qed

lemma bit_count_bounds: "m < 2 ^ bit_count m \<and> (0 < m \<longrightarrow> 2 ^ (bit_count m - 1) \<le> m)"
proof (induction m rule: bit_count.induct)
  case (1 m)
  show ?case
  proof (cases "m = 0")
    case False
    then have i: "m div 2 < 2 ^ bit_count (m div 2)"
      and j: "0 < m div 2 \<Longrightarrow> 2 ^ (bit_count (m div 2) - 1) \<le> m div 2" using 1 by auto
    have s: "bit_count m = Suc (bit_count (m div 2))" using False by (simp add: bit_count.simps)
    have "m < 2 * 2 ^ bit_count (m div 2)" using i by presburger
    moreover have "2 ^ bit_count (m div 2) \<le> m"
    proof (cases "m div 2 = 0")
      case True
      with False show ?thesis by (simp add: bit_count.simps)
    next
      case pos: False
      then have "bit_count (m div 2) = Suc (bit_count (m div 2) - 1)" by (simp add: bit_count.simps)
      with j pos have "2 ^ bit_count (m div 2) \<le> 2 * (m div 2)" by (metis mult_le_mono2 not_gr_zero power_Suc)
      then show ?thesis by simp
    qed
    ultimately show ?thesis by (simp add: s)
  qed (simp add: bit_count.simps)
qed

lemma float_of_nat_pos: "float_of_nat n = Some q \<Longrightarrow> 0 < n \<Longrightarrow> 0 < q"
proof -
  assume f: "float_of_nat n = Some q" and n: "0 < n"
  show "0 < q"
  proof (cases "n < 2 ^ 53")
    case True
    with f n show ?thesis by (simp add: float_of_nat_def)
  next
    case False
    have "2 ^ (bit_count n - 53) \<le> n"
    proof -
      have "(2::nat) ^ (bit_count n - 53) \<le> 2 ^ (bit_count n - 1)" by (rule power_increasing) simp_all
      also have "\<dots> \<le> n" using bit_count_bounds [of n] n by blast
      finally show ?thesis .
    qed
    then have "0 < n div 2 ^ (bit_count n - 53)" by (simp add: div_greater_zero_iff)
    with f False show ?thesis
      by (auto simp: float_of_nat_def Let_def split: if_splits)
  qed
qed

lemma hex_value_digit: "d < 10 \<Longrightarrow> hex_value (char_of (48 + d)) = d \<and> is_digit (char_of (48 + d))"
  by (simp add: hex_value_def is_digit_def less_eq_char_def)

lemma of_digits_snoc: "of_digits b (s @ [c]) = of_digits b s * b + hex_value c"
  by (simp add: of_digits_def)

lemma digits_of_digits: "list_all is_digit (digits_of n) \<and> of_digits 10 (digits_of n) = n \<and> digits_of n \<noteq> []"
proof (induction n rule: digits_of.induct)
  case (1 n)
  show ?case
  proof (cases "n < 10")
    case True
    then show ?thesis using hex_value_digit [of n] by (simp add: digits_of.simps of_digits_def)
  next
    case False
    then show ?thesis
      using 1 hex_value_digit [of "n mod 10"] by (subst (1 2 3) digits_of.simps) (simp add: of_digits_snoc)
  qed
qed

lemma digits_of_length: "n < 1000 \<Longrightarrow> length (digits_of n) \<le> 3"
  by (simp add: digits_of.simps [of n] digits_of.simps [of "n div 10"] digits_of.simps [of "n div 10 div 10"])

lemma digits_of_leading: "0 < n \<Longrightarrow> hd (digits_of n) \<noteq> CHR ''0''"
proof (induction n rule: digits_of.induct)
  case (1 n)
  show ?case
  proof (cases "n < 10")
    case True
    have "char_of (48 + n) \<noteq> CHR ''0''"
    proof
      assume "char_of (48 + n) = CHR ''0''"
      then have "of_char (char_of (48 + n) :: char) = (of_char (CHR ''0'') :: nat)" by (rule arg_cong)
      with True 1(2) show False by simp
    qed
    with True show ?thesis by (simp add: digits_of.simps)
  next
    case False
    with 1 digits_of_digits [of "n div 10"] show ?thesis by (subst digits_of.simps) (simp add: hd_append)
  qed
qed

lemma split_on_join: "c \<notin> set p \<Longrightarrow> split_on c (p @ c # s) = p # split_on c s" "c \<notin> set p \<Longrightarrow> split_on c p = [p]"
  by (induction p) auto

end
