(* ===== verification/Config_Loading.thy ===== *)
theory Config_Loading
  imports Gateway_Config Python_Values
begin

text \<open>
  Loading the configuration, \<^verbatim>\<open>load\<close>, \<^verbatim>\<open>from_service_block\<close> and \<^verbatim>\<open>_config\<close> of
  \<^verbatim>\<open>simple_serving/config.py\<close>: the checks of every field in the order the code makes them, with
  the message of the \<^verbatim>\<open>ConfigError\<close> each of them raises. Two inputs escape the checks with another
  exception, which the model keeps: an unhashable entry of \<^verbatim>\<open>classes\<close> (\<open>Type_error\<close>) and an
  integer of seconds beyond the floats (\<open>Overflow_error\<close>). The file's document and
  \<^verbatim>\<open>urllib.parse.urlsplit\<close> are arguments; \<^verbatim>\<open>ipaddress.ip_address\<close> is written out.
\<close>

datatype config_failure = Config_error string | Type_error | Overflow_error

type_synonym 'a loaded = "config_failure + 'a"

subsection \<open>Loopback addresses\<close>

text \<open>\<^verbatim>\<open>IPv4Address\<close>: four parts, each of one to three digits without a leading zero, at most 255.\<close>

definition octet :: "string \<Rightarrow> nat option" where
  "octet s =
    (if s \<noteq> [] \<and> list_all is_digit s \<and> length s \<le> 3 \<and> (s = ''0'' \<or> hd s \<noteq> CHR ''0'') \<and> of_digits 10 s \<le> 255
     then Some (of_digits 10 s) else None)"

definition ipv4 :: "string \<Rightarrow> nat list option" where
  "ipv4 s = (let ps = split_on (CHR ''.'') s in if length ps = 4 then those (map octet ps) else None)"

definition hextet :: "string \<Rightarrow> nat option" where
  "hextet s = (if s \<noteq> [] \<and> list_all is_hex s \<and> length s \<le> 4 then Some (of_digits 16 s) else None)"

text \<open>
  \<^verbatim>\<open>IPv6Address\<close> without a scope: the parts between colons, where the last may be an IPv4 address
  and one empty part that is not at an end stands for the missing zeros. A part is \<open>None\<close> where it is
  empty, and \<open>Some None\<close> where it is no number of at most four hexadecimal digits.
\<close>

definition ipv6_parts :: "string \<Rightarrow> nat option option list option" where
  "ipv6_parts s =
    (let ps = split_on (CHR '':'') s; part = (\<lambda>p. if p = [] then None else Some (hextet p))
     in if length ps < 3 then None
        else if CHR ''.'' \<in> set (last ps)
        then (case ipv4 (last ps) of
            Some [a, b, c, d] \<Rightarrow>
              Some (map part (butlast ps) @ [Some (Some (a * 256 + b)), Some (Some (c * 256 + d))])
          | _ \<Rightarrow> None)
        else Some (map part ps))"

definition ipv6_words :: "nat option option list \<Rightarrow> nat list option" where
  "ipv6_words qs = those (map (\<lambda>q. Option.bind q (\<lambda>v. v)) qs)"

definition ipv6 :: "string \<Rightarrow> nat list option" where
  "ipv6 s =
    (case ipv6_parts s of None \<Rightarrow> None
     | Some qs \<Rightarrow>
         if length qs > 9 then None
         else (case filter (\<lambda>i. qs ! i = None) [1..<length qs - 1] of
             [] \<Rightarrow> if length qs = 8 then ipv6_words qs else None
           | [g] \<Rightarrow>
               let hi = (if hd qs = None then g - 1 else g);
                   lo = (if last qs = None then length qs - g - 2 else length qs - g - 1)
               in if hd qs = None \<and> hi \<noteq> 0 \<or> last qs = None \<and> lo \<noteq> 0 \<or> hi + lo > 7 then None
                  else (case (ipv6_words (take hi qs), ipv6_words (drop (length qs - lo) qs)) of
                      (Some h, Some l) \<Rightarrow> Some (h @ replicate (8 - hi - lo) 0 @ l)
                    | _ \<Rightarrow> None)
           | _ \<Rightarrow> None))"

definition is_loopback :: "string option \<Rightarrow> bool" where
  "is_loopback host =
    (let h = (case host of None \<Rightarrow> [] | Some h \<Rightarrow> h)
     in case ipv4 h of
          Some ns \<Rightarrow> hd ns = 127
        | None \<Rightarrow> CHR ''%'' \<notin> set h \<and> ipv6 h = Some [0, 0, 0, 0, 0, 0, 0, 1])"

subsection \<open>The checks of single fields\<close>

definition refuse :: "bool \<Rightarrow> string \<Rightarrow> unit loaded" where
  "refuse b message = require (\<not> b) (Config_error message)"

definition cfg_object :: "json \<Rightarrow> string \<Rightarrow> obj loaded" where
  "cfg_object v path = (case v of JObj ob \<Rightarrow> Inr ob | _ \<Rightarrow> Inl (Config_error (path @ '' must be an object'')))"

definition cfg_fields :: "json \<Rightarrow> string \<Rightarrow> string list \<Rightarrow> obj loaded" where
  "cfg_fields v path known =
    andthen (cfg_object v path) (\<lambda>ob.
    let unknown = sort (filter (\<lambda>n. n \<notin> set known) (map fst ob))
    in andthen (refuse (unknown \<noteq> []) (path @ '' has unknown fields: '' @ join_with '', '' unknown)) (\<lambda>_.
    Inr ob))"

definition cfg_string :: "json \<Rightarrow> string \<Rightarrow> string loaded" where
  "cfg_string v path =
    (case v of JStr s \<Rightarrow> if s \<noteq> [] then Inr s else Inl (Config_error (path @ '' must be a non-empty string''))
     | _ \<Rightarrow> Inl (Config_error (path @ '' must be a non-empty string'')))"

definition cfg_boolean :: "json \<Rightarrow> string \<Rightarrow> bool loaded" where
  "cfg_boolean v path =
    (case v of JBool b \<Rightarrow> Inr b | _ \<Rightarrow> Inl (Config_error (path @ '' must be true or false'')))"

text \<open>The minimum of an integer is 0 or 1, or there is none.\<close>

definition cfg_integer :: "json \<Rightarrow> string \<Rightarrow> nat option \<Rightarrow> int loaded" where
  "cfg_integer v path minimum =
    (let message = path @ '' must be an integer'' @
           (case minimum of None \<Rightarrow> [] | Some m \<Rightarrow> '' of at least '' @ digits_of m)
     in case v of
          JInt n \<Rightarrow> if (case minimum of None \<Rightarrow> False | Some m \<Rightarrow> n < int m) then Inl (Config_error message) else Inr n
        | _ \<Rightarrow> Inl (Config_error message))"

definition cfg_optional_integer :: "json \<Rightarrow> string \<Rightarrow> nat \<Rightarrow> int option loaded" where
  "cfg_optional_integer v path minimum =
    (if v = JNull then Inr None else andthen (cfg_integer v path (Some minimum)) (\<lambda>n. Inr (Some n)))"

definition cfg_seconds :: "json \<Rightarrow> string \<Rightarrow> seconds loaded" where
  "cfg_seconds v path =
    (let message = path @ '' must be a positive number of seconds''
     in case v of
          JInt n \<Rightarrow>
            (case float_of_int n of None \<Rightarrow> Inl Overflow_error
             | Some q \<Rightarrow> if n \<le> 0 then Inl (Config_error message) else Inr q)
        | JFloat q \<Rightarrow> if q \<le> 0 then Inl (Config_error message) else Inr q
        | _ \<Rightarrow> Inl (Config_error message))"

definition cfg_class_limits :: "json \<Rightarrow> string \<Rightarrow> class_limits loaded" where
  "cfg_class_limits v path =
    andthen (cfg_fields v path [''active'', ''waiting'', ''input_tokens'', ''max_tokens'', ''wall_s'']) (\<lambda>ob.
    andthen (cfg_integer (jget ''active'' ob) (path @ ''.active'') (Some 1)) (\<lambda>ac.
    andthen (cfg_integer (jget ''waiting'' ob) (path @ ''.waiting'') (Some 0)) (\<lambda>wa.
    andthen (cfg_optional_integer (jget ''input_tokens'' ob) (path @ ''.input_tokens'') 1) (\<lambda>inp.
    andthen (cfg_integer (jget ''max_tokens'' ob) (path @ ''.max_tokens'') (Some 1)) (\<lambda>mx.
    andthen (cfg_seconds (jget ''wall_s'' ob) (path @ ''.wall_s'')) (\<lambda>wall.
    Inr \<lparr>cl_active = ac, cl_waiting = wa, cl_input_tokens = inp, cl_max_tokens = mx, cl_wall_s = wall\<rparr>))))))"

text \<open>What \<^verbatim>\<open>urlsplit\<close> reads: the scheme and the host, or a \<^verbatim>\<open>ValueError\<close>.\<close>

type_synonym url_split = "string \<Rightarrow> (string \<times> string option) option"

definition cfg_engine_url :: "url_split \<Rightarrow> json \<Rightarrow> string loaded" where
  "cfg_engine_url urlsplit v =
    andthen (cfg_string v ''engine_url'') (\<lambda>url.
    andthen (refuse (\<not> (case urlsplit url of None \<Rightarrow> False
        | Some (scheme, host) \<Rightarrow> scheme \<in> {''http'', ''https''} \<and> is_loopback host))
      ''engine_url must be an http URL whose host is a loopback IP address, 127.0.0.0/8 or ::1'') (\<lambda>_.
    Inr url))"

definition cfg_listener :: "json \<Rightarrow> string \<Rightarrow> bool \<Rightarrow> listener loaded" where
  "cfg_listener v path loopback =
    andthen (cfg_fields v path [''host'', ''port'']) (\<lambda>ob.
    andthen (cfg_string (jget ''host'' ob) (path @ ''.host'')) (\<lambda>host.
    andthen (refuse (loopback \<and> \<not> is_loopback (Some host))
      (path @ ''.host must be a loopback IP address, 127.0.0.0/8 or ::1'')) (\<lambda>_.
    andthen (cfg_integer (jget ''port'' ob) (path @ ''.port'') (Some 0)) (\<lambda>port.
    andthen (refuse (port > 65535) (path @ ''.port must be at most 65535'')) (\<lambda>_.
    Inr \<lparr>li_host = host, li_port = port\<rparr>)))))"

subsection \<open>Keys\<close>

definition key_classes :: "json \<Rightarrow> string \<Rightarrow> cls list loaded" where
  "key_classes v path =
    (let message = path @ ''.classes must list distinct classes''
     in case v of
          JList l \<Rightarrow>
            if list_ex is_container l then Inl Type_error
            else (case those (map as_str l) of None \<Rightarrow> Inl (Config_error message)
              | Some names \<Rightarrow>
                  (case those (map cls_of_name names) of None \<Rightarrow> Inl (Config_error message)
                   | Some cs \<Rightarrow> if distinct names then Inr cs else Inl (Config_error message)))
        | _ \<Rightarrow> Inl (Config_error message))"

definition key_default :: "json \<Rightarrow> cls list \<Rightarrow> string \<Rightarrow> cls option loaded" where
  "key_default v cs path =
    (let message = path @ ''.default must be one of the key's classes, or null''
     in case v of
          JNull \<Rightarrow> Inr None
        | JStr s \<Rightarrow> (case cls_of_name s of None \<Rightarrow> Inl (Config_error message)
            | Some c \<Rightarrow> if c \<in> set cs then Inr (Some c) else Inl (Config_error message))
        | _ \<Rightarrow> Inl (Config_error message))"

definition cfg_key :: "string \<Rightarrow> json \<Rightarrow> string \<Rightarrow> key loaded" where
  "cfg_key digest entry path =
    andthen (cfg_fields entry path
      [''label'', ''classes'', ''default'', ''scopes'', ''control'', ''metrics'', ''vision'']) (\<lambda>ob.
    andthen (key_classes (jget ''classes'' ob) path) (\<lambda>cs.
    andthen (key_default (jget ''default'' ob) cs path) (\<lambda>df.
    andthen (cfg_string (jget ''label'' ob) (path @ ''.label'')) (\<lambda>label.
    andthen (cfg_boolean (jget ''scopes'' ob) (path @ ''.scopes'')) (\<lambda>scopes.
    andthen (cfg_boolean (jget ''control'' ob) (path @ ''.control'')) (\<lambda>control.
    andthen (cfg_boolean (jget_or ''metrics'' (JBool False) ob) (path @ ''.metrics'')) (\<lambda>metrics.
    andthen (cfg_boolean (jget_or ''vision'' (JBool False) ob) (path @ ''.vision'')) (\<lambda>vision.
    let key = \<lparr>k_digest = digest, k_label = label, k_classes = set cs, k_default = df, k_scopes = scopes,
          k_control = control, k_metrics = metrics, k_vision = vision\<rparr>
    in andthen (refuse (outside key \<and> (k_classes key \<noteq> {External} \<or> k_scopes key))
         (path @ '': an outside key may use the class external only and may not name scopes'')) (\<lambda>_.
       andthen (refuse (outside key \<and> k_vision key)
         (path @ '': an outside key may not use vision while encoder cache isolation is pending'')) (\<lambda>_.
       Inr key))))))))))"

subsection \<open>The whole configuration\<close>

definition FIELDS :: "string list" where
  "FIELDS = [''alias'', ''engine_url'', ''listen'', ''context_tokens'', ''body_limit_bytes'', ''max_connections'',
     ''keys'', ''limits'', ''count_limits'', ''engine_priority'', ''drain_deadline_s'', ''idle_timeout_s'',
     ''health_interval_s'', ''versions'', ''warm_up'']"

definition DRAFTED_TOKENS :: string where "DRAFTED_TOKENS = ''mtp_speculative_tokens''"
definition MIN_P_WHILE_DRAFTING :: string where "MIN_P_WHILE_DRAFTING = ''min_p_while_drafting''"
definition THINKING_BUDGET :: string where "THINKING_BUDGET = ''thinking_budget''"
definition VISION :: string where "VISION = ''vision''"

definition string_values :: "obj \<Rightarrow> (string \<times> string) list option" where
  "string_values ob = those (map (\<lambda>(n, v). map_option (Pair n) (as_str v)) ob)"

definition quoted_on :: string where
  "quoted_on = CHR 0x22 # ''on'' @ [CHR 0x22]"

definition cfg_versions :: "json \<Rightarrow> key list \<Rightarrow> (string \<times> string) list loaded" where
  "cfg_versions v keys =
    andthen (cfg_object v ''versions'') (\<lambda>ob.
    case string_values ob of None \<Rightarrow> Inl (Config_error ''versions must map names to strings'')
    | Some vs \<Rightarrow>
        let drafted = map_of vs DRAFTED_TOKENS; not_on = (\<lambda>n. map_of vs n \<notin> {None, Some ''on''})
        in andthen (refuse (case drafted of None \<Rightarrow> False | Some d \<Rightarrow> \<not> is_count d)
             (''versions.'' @ DRAFTED_TOKENS @ '' must be a count above 0, or left out while nothing drafts'')) (\<lambda>_.
           andthen (refuse (not_on MIN_P_WHILE_DRAFTING \<or>
               MIN_P_WHILE_DRAFTING \<in> set (map fst vs) \<and> drafted = None)
             (''versions.'' @ MIN_P_WHILE_DRAFTING @ '' must be '' @ quoted_on @ '' beside '' @ DRAFTED_TOKENS @
              '', or left out'')) (\<lambda>_.
           andthen (refuse (not_on THINKING_BUDGET)
             (''versions.'' @ THINKING_BUDGET @ '' must be '' @ quoted_on @ '', or left out while the budget is off'')) (\<lambda>_.
           andthen (refuse (map_of vs VISION \<notin> {None, Some ''1''})
             (''versions.'' @ VISION @ '' must be 1, or left out while the engine takes no pictures'')) (\<lambda>_.
           andthen (refuse (map_of vs VISION = None \<and> list_ex k_vision keys)
             (''a key may have the right vision only while versions.'' @ VISION @ '' is 1'')) (\<lambda>_.
           Inr vs))))))"

definition rstrip_slashes :: "string \<Rightarrow> string" where
  "rstrip_slashes s = rev (dropWhile (\<lambda>c. c = CHR ''/'') (rev s))"

text \<open>A dictionary over the classes, in their order.\<close>

definition per_class :: "(string \<Rightarrow> json \<Rightarrow> 'a loaded) \<Rightarrow> obj \<Rightarrow> (cls \<Rightarrow> 'a) loaded" where
  "per_class f ob =
    andthen (map_res (\<lambda>c. f (cls_name c) (jget (cls_name c) ob)) CLASSES) (\<lambda>vs.
    Inr (\<lambda>c. vs ! cls_rank c))"

definition config_of :: "url_split \<Rightarrow> obj \<Rightarrow> key list \<Rightarrow> config loaded" where
  "config_of urlsplit data keys =
    andthen (cfg_fields (JObj data) ''the configuration'' FIELDS) (\<lambda>_.
    andthen (refuse (keys = []) ''keys must hold at least one key'') (\<lambda>_.
    andthen (refuse (\<not> distinct (map k_digest keys) \<or> \<not> distinct (map k_label keys))
      ''keys must differ from each other, and so must their labels'') (\<lambda>_.
    andthen (cfg_fields (jget ''limits'' data) ''limits'' (map cls_name CLASSES @ [''external_per_key'', ''shared''])) (\<lambda>limits.
    andthen (cfg_fields (jget ''external_per_key'' limits) ''limits.external_per_key'' [''active'', ''waiting'']) (\<lambda>per_key.
    andthen (cfg_fields (jget ''shared'' limits) ''limits.shared'' [''active'']) (\<lambda>shared.
    andthen (cfg_fields (jget ''count_limits'' data) ''count_limits'' [''active'', ''per_outside_key'']) (\<lambda>counts.
    andthen (cfg_fields (jget ''engine_priority'' data) ''engine_priority'' (map cls_name CLASSES)) (\<lambda>priority.
    andthen (cfg_fields (jget ''listen'' data) ''listen'' [''public'', ''control'']) (\<lambda>listen.
    andthen (cfg_engine_url urlsplit (jget ''engine_url'' data)) (\<lambda>url.
    andthen (cfg_versions (jget_or ''versions'' (JObj []) data) keys) (\<lambda>vs.
    andthen (cfg_string (jget ''alias'' data) ''alias'') (\<lambda>alias.
    andthen (cfg_optional_integer (jget ''context_tokens'' data) ''context_tokens'' 1) (\<lambda>context.
    andthen (cfg_integer (jget_or ''body_limit_bytes'' (JInt (4 * 2 ^ 20)) data) ''body_limit_bytes'' (Some 1)) (\<lambda>body.
    andthen (per_class (\<lambda>n v. cfg_class_limits v (''limits.'' @ n)) limits) (\<lambda>cls_limits.
    andthen (cfg_integer (jget ''active'' per_key) ''limits.external_per_key.active'' (Some 1)) (\<lambda>pk_active.
    andthen (cfg_integer (jget ''waiting'' per_key) ''limits.external_per_key.waiting'' (Some 0)) (\<lambda>pk_waiting.
    andthen (cfg_integer (jget ''active'' shared) ''limits.shared.active'' (Some 1)) (\<lambda>shared_places.
    andthen (cfg_integer (jget ''active'' counts) ''count_limits.active'' (Some 1)) (\<lambda>count_active.
    andthen (cfg_integer (jget ''per_outside_key'' counts) ''count_limits.per_outside_key'' (Some 1)) (\<lambda>per_outside.
    andthen (per_class (\<lambda>n v. cfg_integer v (''engine_priority.'' @ n) None) priority) (\<lambda>priorities.
    andthen (cfg_seconds (jget ''drain_deadline_s'' data) ''drain_deadline_s'') (\<lambda>drain_s.
    andthen (cfg_seconds (jget_or ''idle_timeout_s'' (JInt 780) data) ''idle_timeout_s'') (\<lambda>idle_s.
    andthen (cfg_listener (jget ''public'' listen) ''listen.public'' False) (\<lambda>public.
    andthen (cfg_listener (jget ''control'' listen) ''listen.control'' True) (\<lambda>control.
    andthen (cfg_integer (jget_or ''max_connections'' (JInt 64) data) ''max_connections'' (Some 1)) (\<lambda>connections.
    andthen (cfg_seconds (jget_or ''health_interval_s'' (JInt 5) data) ''health_interval_s'') (\<lambda>health_s.
    andthen (cfg_boolean (jget_or ''warm_up'' (JBool False) data) ''warm_up'') (\<lambda>warm_up.
    Inr \<lparr>c_alias = alias, c_engine_url = rstrip_slashes url, c_context_tokens = context, c_body_limit_bytes = body,
      c_keys = keys, c_limits = cls_limits, c_per_key_active = pk_active, c_per_key_waiting = pk_waiting,
      c_shared_places = shared_places, c_count_active = count_active, c_count_per_outside_key = per_outside,
      c_engine_priority = priorities, c_drain_deadline_s = drain_s, c_idle_timeout_s = idle_s,
      c_public = public, c_control_listener = control, c_max_connections = connections,
      c_health_interval_s = health_s, c_versions = vs,
      c_speculative = (map_of vs DRAFTED_TOKENS \<noteq> None), c_thinking_budget = (map_of vs THINKING_BUDGET \<noteq> None),
      c_vision = (map_of vs VISION \<noteq> None), c_warm_up = warm_up,
      c_min_p_while_drafting = (map_of vs MIN_P_WHILE_DRAFTING \<noteq> None)\<rparr>))))))))))))))))))))))))))))"

text \<open>The file's document is \<open>None\<close> where it cannot be read; the message names the exception.\<close>

definition load_key :: "nat \<times> json \<Rightarrow> key loaded" where
  "load_key = (\<lambda>(index, entry).
    let path = ''keys['' @ digits_of index @ '']''
    in andthen (cfg_object entry path) (\<lambda>ob.
       case jget ''sha256'' ob of
         JStr digest \<Rightarrow>
           andthen (refuse (\<not> (length digest = 64 \<and> list_all is_lower_hex digest))
             (path @ ''.sha256 must be 64 lowercase hex digits'')) (\<lambda>_.
           cfg_key (from_hex digest) (JObj (filter (\<lambda>(n, v). n \<noteq> ''sha256'') ob)) path)
       | _ \<Rightarrow> Inl (Config_error (path @ ''.sha256 must be 64 lowercase hex digits''))))"

definition load :: "url_split \<Rightarrow> string + json \<Rightarrow> config loaded" where
  "load urlsplit document =
    (case document of
       Inl exception \<Rightarrow> Inl (Config_error (''cannot read the configuration file ('' @ exception @ '')''))
     | Inr v \<Rightarrow>
         andthen (cfg_object v ''configuration'') (\<lambda>data.
         case jget ''keys'' data of
           JList entries \<Rightarrow>
             andthen (map_res load_key (zip [0..<length entries] entries)) (\<lambda>keys. config_of urlsplit data keys)
         | _ \<Rightarrow> Inl (Config_error ''keys must be a list'')))"

definition listener_json :: "listener \<Rightarrow> json" where
  "listener_json l = JObj [(''host'', JStr (li_host l)), (''port'', JInt (li_port l))]"

definition from_service_block ::
  "url_split \<Rightarrow> (string \<Rightarrow> string) \<Rightarrow> json \<Rightarrow> string \<Rightarrow> listener option \<Rightarrow> listener option \<Rightarrow> obj \<Rightarrow> config loaded"
where
  "from_service_block urlsplit sha256 block engine_url public control extra =
    andthen (cfg_object block ''service'') (\<lambda>data.
    andthen (cfg_object (jget ''keys'' data) ''keys'') (\<lambda>entries.
    andthen (map_res (\<lambda>(index, raw, entry). cfg_key (sha256 raw) entry (''keys['' @ digits_of index @ '']''))
      (zip [0..<length entries] entries)) (\<lambda>keys.
    let any = \<lparr>li_host = ''127.0.0.1'', li_port = 0\<rparr>;
        listen = JObj [(''public'', listener_json (case public of None \<Rightarrow> any | Some l \<Rightarrow> l)),
          (''control'', listener_json (case control of None \<Rightarrow> any | Some l \<Rightarrow> l))]
    in config_of urlsplit
         (foldl (\<lambda>ob (n, v). jput n v ob) (filter (\<lambda>(n, v). n \<noteq> ''keys'') data)
           ([(''engine_url'', JStr engine_url), (''listen'', listen)] @ extra)) keys)))"

subsection \<open>What the checks of a field let through\<close>

lemma refuse_Inr [simp]: "refuse b m = Inr u \<longleftrightarrow> \<not> b"
  by (simp add: refuse_def)

lemma cfg_object_Inr [simp]: "cfg_object v path = Inr ob \<longleftrightarrow> v = JObj ob"
  by (cases v) (auto simp: cfg_object_def)

lemma cfg_fields_Inr: "cfg_fields v path known = Inr ob \<longleftrightarrow> v = JObj ob \<and> set (map fst ob) \<subseteq> set known"
  by (auto simp: cfg_fields_def filter_empty_conv simp flip: set_empty)

lemma cfg_string_Inr: "cfg_string v path = Inr s \<longleftrightarrow> v = JStr s \<and> s \<noteq> []"
  by (cases v) (auto simp: cfg_string_def)

lemma cfg_boolean_Inr: "cfg_boolean v path = Inr b \<longleftrightarrow> v = JBool b"
  by (cases v) (auto simp: cfg_boolean_def)

lemma cfg_integer_Inr: "cfg_integer v path m = Inr n \<longleftrightarrow> v = JInt n \<and> (\<forall>k. m = Some k \<longrightarrow> int k \<le> n)"
  by (cases v) (auto simp: cfg_integer_def Let_def split: option.splits)

lemma cfg_optional_integer_Inr:
  "cfg_optional_integer v path m = Inr r \<longleftrightarrow> v = JNull \<and> r = None \<or> (\<exists>n. v = JInt n \<and> r = Some n \<and> int m \<le> n)"
  by (auto simp: cfg_optional_integer_def cfg_integer_Inr)

lemma cfg_seconds_pos: "cfg_seconds v path = Inr q \<Longrightarrow> 0 < q"
  by (cases v) (auto simp: cfg_seconds_def Let_def float_of_int_def dest: float_of_nat_pos split: option.splits if_splits)

lemma cfg_class_limits_Inr:
  "cfg_class_limits v path = Inr l \<Longrightarrow> 1 \<le> cl_active l \<and> 0 \<le> cl_waiting l \<and> 1 \<le> cl_max_tokens l \<and>
     (\<forall>n. cl_input_tokens l = Some n \<longrightarrow> 1 \<le> n) \<and> 0 < cl_wall_s l"
  by (auto simp: cfg_class_limits_def cfg_integer_Inr cfg_optional_integer_Inr dest: cfg_seconds_pos)

lemma cfg_listener_Inr:
  "cfg_listener v path lb = Inr l \<Longrightarrow> 0 \<le> li_port l \<and> li_port l \<le> 65535 \<and> li_host l \<noteq> [] \<and>
     (lb \<longrightarrow> is_loopback (Some (li_host l)))"
  by (auto simp: cfg_listener_def cfg_integer_Inr cfg_string_Inr)

lemma per_class_Inr:
  assumes "per_class f ob = Inr g"
  shows "f (cls_name c) (jget (cls_name c) ob) = Inr (g c)"
proof -
  obtain vs where vs: "list_all2 (\<lambda>c v. f (cls_name c) (jget (cls_name c) ob) = Inr v) CLASSES vs"
    and g: "g = (\<lambda>c. vs ! cls_rank c)"
    using assms by (auto simp: per_class_def map_res_Inr_iff)
  have "CLASSES ! cls_rank c = c" "cls_rank c < length CLASSES" by (cases c; simp add: CLASSES_def)+
  with list_all2_nthD [OF vs, of "cls_rank c"] show ?thesis by (simp add: g)
qed

lemma cfg_key_Inr:
  assumes "cfg_key d entry path = Inr k"
  shows "k_digest k = d \<and> k_label k \<noteq> [] \<and> (\<forall>c. k_default k = Some c \<longrightarrow> c \<in> k_classes k) \<and>
    (outside k \<longrightarrow> k_classes k = {External} \<and> \<not> k_scopes k \<and> \<not> k_vision k)"
proof -
  have "c \<in> set cs" if "key_default v cs p = Inr (Some c)" for v cs p c
    using that by (cases v) (auto simp: key_default_def Let_def split: option.splits if_splits)
  with assms show ?thesis by (auto simp: cfg_key_def Let_def cfg_string_Inr)
qed

definition key_sound :: "key \<Rightarrow> bool" where
  "key_sound k \<longleftrightarrow> k_label k \<noteq> [] \<and> (\<forall>c. k_default k = Some c \<longrightarrow> c \<in> k_classes k) \<and>
    (outside k \<longrightarrow> k_classes k = {External} \<and> \<not> k_scopes k \<and> \<not> k_vision k)"

definition config_sound :: "config \<Rightarrow> bool" where
  "config_sound cfg \<longleftrightarrow>
    limits_ok cfg \<and> (\<forall>c. 1 \<le> cl_max_tokens (c_limits cfg c) \<and> 0 < cl_wall_s (c_limits cfg c)) \<and>
    c_keys cfg \<noteq> [] \<and> distinct (map k_digest (c_keys cfg)) \<and> distinct (map k_label (c_keys cfg)) \<and>
    list_all key_sound (c_keys cfg) \<and> (\<not> c_vision cfg \<longrightarrow> \<not> list_ex k_vision (c_keys cfg)) \<and>
    0 < c_drain_deadline_s cfg \<and> 0 < c_idle_timeout_s cfg \<and> 0 < c_health_interval_s cfg \<and>
    1 \<le> c_max_connections cfg \<and> 1 \<le> c_body_limit_bytes cfg \<and>
    (\<forall>n. c_context_tokens cfg = Some n \<longrightarrow> 1 \<le> n) \<and>
    is_loopback (Some (li_host (c_control_listener cfg))) \<and>
    {li_port (c_public cfg), li_port (c_control_listener cfg)} \<subseteq> {0..65535} \<and>
    (c_min_p_while_drafting cfg \<longrightarrow> c_speculative cfg)"

lemma cfg_versions_Inr:
  assumes "cfg_versions v keys = Inr vs"
  shows "(map_of vs MIN_P_WHILE_DRAFTING \<noteq> None \<longrightarrow> map_of vs DRAFTED_TOKENS \<noteq> None) \<and>
    (map_of vs VISION = None \<longrightarrow> \<not> list_ex k_vision keys)"
proof -
  obtain ob vs' where "string_values ob = Some vs'" and
    "\<not> (MIN_P_WHILE_DRAFTING \<in> set (map fst vs') \<and> map_of vs' DRAFTED_TOKENS = None)"
    "\<not> (map_of vs' VISION = None \<and> list_ex k_vision keys)" "vs' = vs"
    using assms unfolding cfg_versions_def Let_def by (auto elim!: andthenE split: option.splits simp del: andthen_Inr_iff)
  then show ?thesis by (auto simp: map_of_eq_None_iff)
qed

lemma config_of_limits:
  "per_class (\<lambda>n v. cfg_class_limits v (''limits.'' @ n)) ob = Inr g \<Longrightarrow>
    \<forall>c. 1 \<le> cl_active (g c) \<and> 0 \<le> cl_waiting (g c) \<and> 1 \<le> cl_max_tokens (g c) \<and> 0 < cl_wall_s (g c)"
  by (blast dest: per_class_Inr cfg_class_limits_Inr)

lemma config_of_sound:
  assumes "config_of urlsplit data keys = Inr cfg" and "list_all key_sound keys"
  shows "config_sound cfg \<and> c_keys cfg = keys"
  using assms(1) unfolding config_of_def
  apply (elim andthenE)
  apply (drule config_of_limits cfg_listener_Inr cfg_versions_Inr)+
  apply (drule cfg_seconds_pos)+
  apply (simp only: refuse_Inr sum.inject cfg_integer_Inr)
  apply (elim conjE)
  apply (hypsubst)
  apply (simp add: config_sound_def limits_ok_def assms(2) cfg_optional_integer_Inr)
  by auto

lemma load_key_sound:
  assumes "load_key p = Inr k"
  shows "key_sound k \<and> length (k_digest k) = 32"
proof -
  have hex: "length (from_hex s) = length s div 2" for s by (induction s rule: from_hex.induct) simp_all
  obtain i v where p: "p = (i, v)" by (cases p)
  with assms obtain digest entry path where "length digest = 64" and k: "cfg_key (from_hex digest) entry path = Inr k"
    by (auto simp: load_key_def Let_def elim!: andthenE simp del: andthen_Inr_iff split: json.splits)
  with cfg_key_Inr [OF k] hex [of digest] show ?thesis by (simp add: key_sound_def)
qed

lemma json_list_case:
  "(case v of JList l \<Rightarrow> f l | _ \<Rightarrow> Inl e) = Inr c \<Longrightarrow> \<exists>l. v = JList l \<and> f l = Inr c"
  by (cases v) simp_all

lemma map_res_all: "map_res f xs = Inr ys \<Longrightarrow> (\<And>x y. f x = Inr y \<Longrightarrow> P y) \<Longrightarrow> list_all P ys"
  by (induction xs arbitrary: ys) auto

text \<open>
  C11: What \<^verbatim>\<open>load\<close> returns is a configuration the service can run on. The limits that admission and
  the counts rely on hold, keys and labels differ, an outside key has the class external only, names
  no scopes and sends no pictures, no key sends pictures while the engine takes none, all durations are
  positive, ports fit in 16 bits, and the control listener is on a loopback address.
\<close>

theorem load_sound:
  assumes "load urlsplit document = Inr cfg"
  shows "config_sound cfg \<and> list_all (\<lambda>k. length (k_digest k) = 32) (c_keys cfg)"
proof -
  obtain v where d: "document = Inr v" using assms by (cases document) (simp_all add: load_def)
  obtain data where r: "(case jget ''keys'' data of
      JList entries \<Rightarrow> andthen (map_res load_key (zip [0..<length entries] entries)) (\<lambda>keys. config_of urlsplit data keys)
    | _ \<Rightarrow> Inl (Config_error ''keys must be a list'')) = Inr cfg"
    using assms [unfolded d load_def sum.case] by (rule andthenE)
  obtain entries where e: "andthen (map_res load_key (zip [0..<length entries] entries))
      (\<lambda>keys. config_of urlsplit data keys) = Inr cfg"
    using json_list_case [OF r] by (elim exE conjE)
  obtain keys where k: "map_res load_key (zip [0..<length entries] entries) = Inr keys"
    and c: "config_of urlsplit data keys = Inr cfg"
    using e by (rule andthenE)
  have "list_all key_sound keys" "list_all (\<lambda>k. length (k_digest k) = 32) keys"
    by (rule map_res_all [OF k], drule load_key_sound, simp)+
  with config_of_sound [OF c] show ?thesis by simp
qed

lemma service_block_sound:
  assumes "from_service_block urlsplit sha256 block url public control extra = Inr cfg"
  shows "config_sound cfg"
proof -
  obtain data keys entries where c: "config_of urlsplit data keys = Inr cfg"
    and k: "map_res (\<lambda>(index, raw, entry). cfg_key (sha256 raw) entry (''keys['' @ digits_of index @ '']'')) entries = Inr keys"
    using assms by (auto simp: from_service_block_def Let_def)
  have "list_all key_sound keys"
    by (rule map_res_all [OF k]) (auto simp: key_sound_def dest: cfg_key_Inr)
  with config_of_sound [OF c] show ?thesis by simp
qed

subsection \<open>A concrete file\<close>

definition sample_limits_json :: "int \<Rightarrow> json \<Rightarrow> json" where
  "sample_limits_json n inp = JObj [(''active'', JInt n), (''waiting'', JInt 2), (''input_tokens'', inp),
     (''max_tokens'', JInt 1024), (''wall_s'', JInt 300)]"

definition sample_file :: json where
  "sample_file = JObj [(''alias'', JStr ''test-model''), (''engine_url'', JStr ''http://127.0.0.1:8000/''),
     (''keys'', JList [JObj [(''sha256'', JStr (replicate 64 (CHR ''a''))), (''label'', JStr ''guest''),
        (''classes'', JList [JStr ''external'']), (''default'', JStr ''external''), (''scopes'', JBool False),
        (''control'', JBool False)]]),
     (''limits'', JObj [(''reader'', sample_limits_json 4 JNull), (''agent'', sample_limits_json 1 JNull),
        (''internal'', sample_limits_json 2 JNull), (''external'', sample_limits_json 2 (JInt 8192)),
        (''external_per_key'', JObj [(''active'', JInt 1), (''waiting'', JInt 2)]),
        (''shared'', JObj [(''active'', JInt 4)])]),
     (''count_limits'', JObj [(''active'', JInt 8), (''per_outside_key'', JInt 2)]),
     (''engine_priority'', JObj [(''reader'', JInt 0), (''agent'', JInt 1), (''internal'', JInt 2), (''external'', JInt 3)]),
     (''drain_deadline_s'', JInt 60),
     (''listen'', JObj [(''public'', JObj [(''host'', JStr ''0.0.0.0''), (''port'', JInt 8080)]),
        (''control'', JObj [(''host'', JStr ''::1''), (''port'', JInt 8081)])])]"

definition sample_split :: url_split where
  "sample_split = (\<lambda>_. Some (''http'', Some ''127.0.0.1''))"

lemma cfg_seconds_small: "0 < n \<Longrightarrow> n < 2 ^ 53 \<Longrightarrow> cfg_seconds (JInt n) path = Inr (of_int n)"
proof -
  assume "0 < n" and "n < 2 ^ 53"
  then have "nat n < 2 ^ 53" by (simp add: nat_less_iff)
  with \<open>0 < n\<close> show ?thesis by (simp add: cfg_seconds_def float_of_int_def float_of_nat_def)
qed

lemma sample_control_loopback: "is_loopback (Some ''::1'')" "is_loopback (Some ''127.0.0.1'')"
  by (simp_all add: is_loopback_def ipv4_def ipv6_def ipv6_parts_def ipv6_words_def Let_def octet_def hextet_def
      is_digit_def is_hex_def is_lower_hex_def of_digits_def hex_value_def upt_rec less_eq_char_def)
    (simp add: eval_nat_numeral)

lemma sample_limits_loads:
  "cfg_class_limits (sample_limits_json n inp) path = Inr l \<longleftrightarrow> 1 \<le> n \<and>
    (\<exists>i. cfg_optional_integer inp (path @ ''.input_tokens'') 1 = Inr i \<and>
      l = \<lparr>cl_active = n, cl_waiting = 2, cl_input_tokens = i, cl_max_tokens = 1024, cl_wall_s = 300\<rparr>)"
  by (auto simp: cfg_class_limits_def sample_limits_json_def cfg_fields_Inr jget_def cfg_integer_Inr cfg_seconds_small)

lemma sample_key_loads: "\<exists>k. load_key (i, JObj [(''sha256'', JStr (replicate 64 (CHR ''a''))), (''label'', JStr ''guest''),
        (''classes'', JList [JStr ''external'']), (''default'', JStr ''external''), (''scopes'', JBool False),
        (''control'', JBool False)]) = Inr k \<and> \<not> k_vision k"
  by (simp add: load_key_def jget_def is_lower_hex_def is_digit_def less_eq_char_def cfg_key_def cfg_fields_def
      cfg_object_def refuse_def require_def key_classes_def key_default_def cls_of_name_def CLASSES_def cfg_string_def
      cfg_boolean_def jget_or_def outside_def Let_def list_all_iff)

lemma sample_file_loads: "\<exists>cfg. load sample_split (Inr sample_file) = Inr cfg"
proof -
  obtain k where k: "load_key (0, JObj [(''sha256'', JStr (replicate 64 (CHR ''a''))), (''label'', JStr ''guest''),
        (''classes'', JList [JStr ''external'']), (''default'', JStr ''external''), (''scopes'', JBool False),
        (''control'', JBool False)]) = Inr k" and "\<not> k_vision k"
    using sample_key_loads by blast
  have l: "cfg_class_limits (sample_limits_json n JNull) path =
      Inr \<lparr>cl_active = n, cl_waiting = 2, cl_input_tokens = None, cl_max_tokens = 1024, cl_wall_s = 300\<rparr>"
    "cfg_class_limits (sample_limits_json n (JInt 8192)) path =
      Inr \<lparr>cl_active = n, cl_waiting = 2, cl_input_tokens = Some 8192, cl_max_tokens = 1024, cl_wall_s = 300\<rparr>"
    if "1 \<le> n" for n path
    using that by (simp_all add: sample_limits_loads cfg_optional_integer_Inr)
  show ?thesis
    by (simp add: load_def sample_file_def k config_of_def jget_def jget_or_def cfg_fields_def cfg_object_def FIELDS_def
        CLASSES_def refuse_def require_def cfg_engine_url_def cfg_string_def sample_split_def sample_control_loopback
        cfg_versions_def string_values_def DRAFTED_TOKENS_def MIN_P_WHILE_DRAFTING_def THINKING_BUDGET_def VISION_def
        cfg_optional_integer_def cfg_integer_def per_class_def l cfg_seconds_small cfg_listener_def cfg_boolean_def Let_def
        \<open>\<not> k_vision k\<close> upt_rec)
qed

theorem load_sound_witness: "\<exists>cfg. load sample_split (Inr sample_file) = Inr cfg \<and> limits_ok cfg"
proof -
  obtain cfg where c: "load sample_split (Inr sample_file) = Inr cfg"
    using sample_file_loads by (cases "load sample_split (Inr sample_file)") simp_all
  with load_sound [OF c] show ?thesis by (simp add: config_sound_def)
qed

subsection \<open>Dotted addresses\<close>

lemma octet_digits_of: "n \<le> 255 \<Longrightarrow> octet (digits_of n) = Some n"
  using digits_of_digits [of n] digits_of_length [of n] digits_of_leading [of n]
  by (cases "n = 0") (auto simp: octet_def digits_of.simps [of 0])

definition dotted :: "nat list \<Rightarrow> string" where
  "dotted ns = join_with ''.'' (map digits_of ns)"

text \<open>
  A dotted address reads back as its four numbers, and it is a loopback address exactly where the
  first of them is 127.
\<close>

theorem ipv4_dotted:
  assumes "a \<le> 255" and "b \<le> 255" and "c \<le> 255" and "d \<le> 255"
  shows "ipv4 (dotted [a, b, c, d]) = Some [a, b, c, d] \<and> (is_loopback (Some (dotted [a, b, c, d])) \<longleftrightarrow> a = 127)"
proof -
  have n: "CHR ''.'' \<notin> set (digits_of n)" for n
    using digits_of_digits [of n] by (auto simp: list_all_iff is_digit_def less_eq_char_def)
  have "ipv4 (dotted [a, b, c, d]) = Some [a, b, c, d]"
    using assms by (simp add: ipv4_def dotted_def split_on_join n octet_digits_of)
  then show ?thesis by (simp add: is_loopback_def)
qed

theorem ipv4_dotted_witness: "is_loopback (Some (dotted [127, 0, 0, 1])) \<and> \<not> is_loopback (Some (dotted [10, 0, 0, 1]))"
  using ipv4_dotted [of 127 0 0 1] ipv4_dotted [of 10 0 0 1] by simp

text \<open>Two inputs that no \<^verbatim>\<open>ConfigError\<close> answers.\<close>

lemma unhashable_class: "key_classes (JList [JList []]) path = Inl Type_error"
  by (simp add: key_classes_def Let_def)

lemma huge_seconds:
  assumes "2 ^ 1024 \<le> n"
  shows "cfg_seconds (JInt (int n)) path = Inl Overflow_error"
proof -
  define k e where "k = bit_count n" and "e = k - 53"
  have n: "n < 2 ^ k" "2 ^ (k - 1) \<le> n" using bit_count_bounds [of n] assms by (auto simp: k_def intro: gr_zeroI)
  have "(2::nat) ^ 1024 < 2 ^ k" using assms n(1) by (rule le_less_trans)
  then have k: "1024 < k" by (rule power_less_imp_less_exp [rotated]) simp
  then have s: "k - 1 = 52 + e" by (simp add: e_def)
  have "2 ^ 52 \<le> n div 2 ^ e" using n(2) unfolding s power_add by (simp add: less_eq_div_iff_mult_less_eq)
  then have "2 ^ 52 * 2 ^ e \<le> n div 2 ^ e * 2 ^ e" by (rule mult_le_mono1)
  moreover have "(2::nat) ^ 1024 \<le> 2 ^ 52 * 2 ^ e"
    unfolding power_add [symmetric] by (rule power_increasing) (use k in \<open>simp_all add: e_def\<close>)
  ultimately have "2 ^ 1024 \<le> n div 2 ^ e * 2 ^ e" by (rule order_trans [rotated])
  moreover have "(2::nat) ^ 53 \<le> 2 ^ 1024" by (rule power_increasing) simp_all
  then have "2 ^ 53 \<le> n" using assms by (rule order_trans)
  ultimately show ?thesis
    by (auto simp: cfg_seconds_def float_of_int_def float_of_nat_def Let_def simp flip: k_def e_def)
qed

end
