(* ===== verification/Engine_Client.thy ===== *)
theory Engine_Client
  imports Validation Python_Values
begin

text \<open>
  The client of the engine, \<^verbatim>\<open>simple_serving/engine.py\<close>: the bodies it sends, what it makes of the
  engine's statuses and answers, and the lines and events of a stream. HTTP and the decoder
  \<^verbatim>\<open>json.loads(data.decode("utf-8"))\<close> are arguments: an answer is \<open>None\<close> where httpx raises, and a
  body's chunks come with whether it ends or fails (\<open>body_end\<close>). Every \<^verbatim>\<open>EngineError\<close> is its code.
\<close>

subsection \<open>What it sends\<close>

definition refusal :: "int \<Rightarrow> error_code" where
  "refusal status = (if status = 400 \<or> status = 422 then Invalid_request else Engine_unavailable)"

definition template_kwargs :: "chat_request \<Rightarrow> json" where
  "template_kwargs r = JObj [(''enable_thinking'', JBool (r_enable_thinking r))]"

definition tokenize_payload :: "string \<Rightarrow> chat_request \<Rightarrow> obj" where
  "tokenize_payload alias r =
    [(''model'', JStr alias), (''messages'', JList (r_messages r)), (''add_generation_prompt'', JBool True),
     (''add_special_tokens'', JBool False), (''chat_template_kwargs'', template_kwargs r)]"

text \<open>A later entry of a dictionary display keeps the position of the first with its name.\<close>

definition puts :: "obj \<Rightarrow> obj \<Rightarrow> obj" where
  "puts ob entries = foldl (\<lambda>ob (n, v). jput n v ob) ob entries"

definition generation_payload :: "string \<Rightarrow> chat_request \<Rightarrow> int \<Rightarrow> string \<Rightarrow> obj" where
  "generation_payload alias r priority salt =
    (let payload = puts []
       ([(''model'', JStr alias), (''messages'', JList (r_messages r)), (''max_tokens'', JInt (r_max_tokens r)),
         (''stream'', JBool True), (''stream_options'', JObj [(''include_usage'', JBool True)])] @
        r_sampling r @
        [(''add_generation_prompt'', JBool True), (''add_special_tokens'', JBool False),
         (''chat_template_kwargs'', template_kwargs r), (''priority'', JInt priority), (''cache_salt'', JStr salt)]);
       payload1 = (case r_response_format r of None \<Rightarrow> payload | Some f \<Rightarrow> jput ''response_format'' f payload)
     in case r_thinking_token_budget r of None \<Rightarrow> payload1
        | Some b \<Rightarrow> jput ''thinking_token_budget'' (JInt b) payload1)"

definition WARM_SALT :: string where
  "WARM_SALT = ''simple-serving-warm-up''"

definition WARM_REQUEST :: chat_request where
  "WARM_REQUEST = \<lparr>
    r_messages = [JObj [(''role'', JStr ''user''), (''content'', JStr ''Answer with ok.'')]],
    r_max_tokens = 8, r_sampling = [(''temperature'', JInt 0)],
    r_response_format = Some (JObj [(''type'', JStr ''json_schema''), (''json_schema'', JObj [
      (''name'', JStr ''warm''), (''strict'', JBool True), (''schema'', JObj [
        (''type'', JStr ''object''), (''additionalProperties'', JBool False), (''required'', JList [JStr ''ok'']),
        (''properties'', JObj [(''ok'', JObj [(''type'', JStr ''boolean'')])])])])]),
    r_enable_thinking = False, r_thinking_token_budget = None, r_pictures = 0\<rparr>"

subsection \<open>Answers\<close>

record http_answer =
  ha_status :: int
  ha_body :: string

type_synonym loads = "string \<Rightarrow> json option"

definition engine_call :: "http_answer option \<Rightarrow> string result" where
  "engine_call answer =
    (case answer of None \<Rightarrow> Inl Engine_unavailable
     | Some a \<Rightarrow> if ha_status a \<noteq> 200 then Inl (refusal (ha_status a)) else Inr (ha_body a))"

definition engine_json :: "loads \<Rightarrow> http_answer option \<Rightarrow> json result" where
  "engine_json loads answer =
    andthen (engine_call answer) (\<lambda>body. case loads body of None \<Rightarrow> Inl Engine_unavailable | Some v \<Rightarrow> Inr v)"

definition engine_object :: "json \<Rightarrow> obj result" where
  "engine_object v = (case v of JObj ob \<Rightarrow> Inr ob | _ \<Rightarrow> Inl Engine_unavailable)"

definition is_card_of :: "string \<Rightarrow> json \<Rightarrow> bool" where
  "is_card_of alias v = (case v of JObj ob \<Rightarrow> jget ''id'' ob = JStr alias | _ \<Rightarrow> False)"

definition card_length :: "json \<Rightarrow> int result" where
  "card_length v =
    (case jget ''max_model_len'' (the (as_obj v)) of
       JInt n \<Rightarrow> if n < 1 then Inl Engine_unavailable else Inr n
     | _ \<Rightarrow> Inl Engine_unavailable)"

definition context_length :: "loads \<Rightarrow> http_answer option \<Rightarrow> http_answer option \<Rightarrow> string \<Rightarrow> int option result" where
  "context_length loads health answer alias =
    andthen (engine_call health) (\<lambda>_.
    andthen (engine_json loads answer) (\<lambda>v.
    andthen (engine_object v) (\<lambda>ob.
    case jget ''data'' ob of
      JList cards \<Rightarrow>
        (case find (is_card_of alias) cards of None \<Rightarrow> Inr None
         | Some c \<Rightarrow> andthen (card_length c) (\<lambda>n. Inr (Some n)))
    | _ \<Rightarrow> Inl Engine_unavailable)))"

text \<open>The count itself, or the length of the list of tokens where there is no count.\<close>

definition engine_count :: "loads \<Rightarrow> http_answer option \<Rightarrow> int result" where
  "engine_count loads answer =
    andthen (engine_json loads answer) (\<lambda>v.
    andthen (engine_object v) (\<lambda>ob.
    let count = (case (jget ''count'' ob, jget ''tokens'' ob) of
          (JInt n, _) \<Rightarrow> Some n
        | (_, JList tokens) \<Rightarrow> Some (int (length tokens))
        | _ \<Rightarrow> None)
    in case count of None \<Rightarrow> Inl Engine_unavailable
       | Some n \<Rightarrow> if n < 1 then Inl Engine_unavailable else Inr n))"

subsection \<open>Bodies that are streamed\<close>

datatype body_end = Body_ends | Body_fails

definition METRICS_LIMIT_BYTES :: nat where
  "METRICS_LIMIT_BYTES = 8000000"

definition MAX_LINE_BYTES :: nat where
  "MAX_LINE_BYTES = 1000000"

fun read_limited :: "nat \<Rightarrow> string \<Rightarrow> string list \<Rightarrow> body_end \<Rightarrow> string result" where
  "read_limited limit body [] Body_ends = Inr body"
| "read_limited limit body [] Body_fails = Inl Engine_unavailable"
| "read_limited limit body (chunk # chunks) e =
    (if length (body @ chunk) > limit then Inl Engine_unavailable else read_limited limit (body @ chunk) chunks e)"

definition starts_with :: "string \<Rightarrow> string \<Rightarrow> bool" where
  "starts_with s p \<longleftrightarrow> take (length p) s = p"

definition engine_metrics :: "(int \<times> string \<times> string list \<times> body_end) option \<Rightarrow> (string \<times> string) result" where
  "engine_metrics answer =
    (case answer of None \<Rightarrow> Inl Engine_unavailable
     | Some (status, content_type, chunks, e) \<Rightarrow>
         if status \<noteq> 200 \<or> \<not> starts_with content_type ''text/plain'' then Inl Engine_unavailable
         else andthen (read_limited METRICS_LIMIT_BYTES [] chunks e) (\<lambda>body. Inr (body, content_type)))"

text \<open>
  The generator \<^verbatim>\<open>_lines\<close>: the lines it yields, and whether the iteration then ends or raises. A chunk
  is split once it is appended to what was pending; what is left over has to stay below the limit.
\<close>

definition strip_cr :: "string \<Rightarrow> string" where
  "strip_cr line = (if line \<noteq> [] \<and> last line = CHR 0x0D then butlast line else line)"

abbreviation newline :: char where
  "newline \<equiv> CHR 0x0A"

fun body_lines :: "string \<Rightarrow> string list \<Rightarrow> body_end \<Rightarrow> string list \<times> body_end" where
  "body_lines pending [] Body_ends = (if pending \<noteq> [] then [pending] else [], Body_ends)"
| "body_lines pending [] Body_fails = ([], Body_fails)"
| "body_lines pending (chunk # chunks) e =
    (let ps = split_on newline (pending @ chunk); ls = map strip_cr (butlast ps)
     in if length (last ps) > MAX_LINE_BYTES then (ls, Body_fails)
        else case body_lines (last ps) chunks e of (ls', e') \<Rightarrow> (ls @ ls', e'))"

subsection \<open>Events\<close>

definition engine_event :: "loads \<Rightarrow> string \<Rightarrow> obj option result" where
  "engine_event loads data =
    (if data = ''[DONE]'' then Inr None
     else case loads data of None \<Rightarrow> Inl Engine_unavailable
        | Some v \<Rightarrow> andthen (engine_object v) (\<lambda>ob. Inr (Some ob)))"

definition event_data :: "string \<Rightarrow> string" where
  "event_data line = (let s = drop 5 line in if s \<noteq> [] \<and> hd s = CHR '' '' then tl s else s)"

text \<open>
  \<^verbatim>\<open>next_event\<close> over the lines that are left, with the lines it leaves. A body that ended or failed
  breaks the stream either way.
\<close>

fun next_data :: "string list \<Rightarrow> string list \<Rightarrow> string result \<times> string list" where
  "next_data data [] = (Inl Engine_unavailable, [])"
| "next_data data (line # rest) =
    (if starts_with line ''data:'' then next_data (data @ [event_data line]) rest
     else if starts_with line '':'' then next_data data rest
     else if line \<noteq> [] then (Inl Engine_unavailable, rest)
     else if data \<noteq> [] then (Inr (join_with [newline] data), rest)
     else next_data data rest)"

definition next_event :: "loads \<Rightarrow> string list \<Rightarrow> obj option result \<times> string list" where
  "next_event loads ls =
    (case next_data [] ls of (r, rest) \<Rightarrow> (andthen r (engine_event loads), rest))"

lemma next_data_shorter: "next_data data ls = (Inr d, rest) \<Longrightarrow> length rest < length ls"
  by (induction data ls rule: next_data.induct) (auto split: if_splits)

lemma next_event_shorter: "next_event loads ls = (Inr x, rest) \<Longrightarrow> length rest < length ls"
  by (auto simp: next_event_def dest: next_data_shorter split: prod.splits)

text \<open>\<^verbatim>\<open>generate\<close>: a stream's lines, or the refusal of its status.\<close>

definition engine_generate :: "(int \<times> string list \<times> body_end) option \<Rightarrow> string list result" where
  "engine_generate answer =
    (case answer of None \<Rightarrow> Inl Engine_unavailable
     | Some (status, chunks, e) \<Rightarrow> if status \<noteq> 200 then Inl (refusal status) else Inr (fst (body_lines [] chunks e)))"

text \<open>The events of a stream up to \<^verbatim>\<open>[DONE]\<close>, or up to the error that breaks it.\<close>

function events_of :: "loads \<Rightarrow> string list \<Rightarrow> obj list \<times> unit result" where
  "events_of loads ls =
    (case next_event loads ls of
       (Inl e, rest) \<Rightarrow> ([], Inl e)
     | (Inr None, rest) \<Rightarrow> ([], Inr ())
     | (Inr (Some ev), rest) \<Rightarrow> (case events_of loads rest of (evs, r) \<Rightarrow> (ev # evs, r)))"
  by pat_completeness auto
termination events_of
  by (relation "measure (\<lambda>(loads, ls). length ls)") (auto dest: next_event_shorter [OF sym])

declare events_of.simps [simp del]

text \<open>\<^verbatim>\<open>warm\<close>: one generation read to its end. Its timeout and its close are not part of the result.\<close>

definition warm_payload :: "string \<Rightarrow> int \<Rightarrow> obj" where
  "warm_payload alias priority = generation_payload alias WARM_REQUEST priority WARM_SALT"

definition warm :: "loads \<Rightarrow> (obj \<Rightarrow> (int \<times> string list \<times> body_end) option) \<Rightarrow> string \<Rightarrow> int \<Rightarrow> unit result" where
  "warm loads post alias priority =
    andthen (engine_generate (post (warm_payload alias priority))) (\<lambda>ls. snd (events_of loads ls))"

subsection \<open>Lines do not depend on the chunks\<close>

lemma split_on_append:
  "split_on c (a @ b) = butlast (split_on c a) @ split_on c (last (split_on c a) @ b)"
proof (induction a)
  case (Cons x a)
  show ?case
  proof (cases "x = c")
    case True
    with Cons show ?thesis by simp
  next
    case False
    obtain p ps where s: "split_on c a = p # ps" by (cases "split_on c a") auto
    with Cons False show ?thesis by (cases ps) (auto split: list.split)
  qed
qed simp

lemma split_on_last: "c \<notin> set (last (split_on c s))"
  by (induction s) (auto split: list.split)

lemma split_on_hd: "c \<notin> set p \<Longrightarrow> \<exists>q. hd (split_on c (p @ s)) = p @ q"
  by (induction p) (auto split: list.split)

definition whole_lines :: "string \<Rightarrow> body_end \<Rightarrow> string list" where
  "whole_lines s e =
    (let ps = split_on newline s
     in map strip_cr (butlast ps) @ (if e = Body_ends \<and> last ps \<noteq> [] then [last ps] else []))"

definition short_lines :: "string \<Rightarrow> bool" where
  "short_lines s \<longleftrightarrow> list_all (\<lambda>p. length p \<le> MAX_LINE_BYTES) (split_on newline s)"

lemma body_lines_pending:
  assumes "newline \<notin> set pending" and "short_lines (pending @ concat chunks)"
  shows "body_lines pending chunks e = (whole_lines (pending @ concat chunks) e, e)"
  using assms
proof (induction chunks arbitrary: pending)
  case Nil
  then show ?case by (cases e) (auto simp: whole_lines_def split_on_join(2))
next
  case (Cons chunk chunks)
  let ?ps = "split_on newline (pending @ chunk)"
  have eq: "split_on newline (pending @ concat (chunk # chunks)) =
      butlast ?ps @ split_on newline (last ?ps @ concat chunks)"
    using split_on_append [of newline "pending @ chunk" "concat chunks"] by simp
  have s: "short_lines (last ?ps @ concat chunks)" using Cons.prems(2) unfolding short_lines_def eq by simp
  obtain q where q: "hd (split_on newline (last ?ps @ concat chunks)) = last ?ps @ q"
    using split_on_hd [OF split_on_last] by blast
  then have "length (last ?ps @ q) \<le> MAX_LINE_BYTES"
    using s list.set_sel(1) [OF split_on_not_Nil] unfolding short_lines_def list_all_iff by metis
  then have "\<not> length (last ?ps) > MAX_LINE_BYTES" by simp
  moreover have "whole_lines (pending @ concat (chunk # chunks)) e =
      map strip_cr (butlast ?ps) @ whole_lines (last ?ps @ concat chunks) e"
    unfolding whole_lines_def Let_def eq by (simp add: butlast_append)
  ultimately show ?case using Cons.IH [OF split_on_last s] by (simp add: Let_def)
qed

text \<open>
  C12: While no line is longer than the limit, the lines that the engine's client reads from a body are
  the lines of the whole body, however the connection has cut it into chunks.
\<close>

theorem lines_of_chunks:
  assumes "short_lines (concat chunks)"
  shows "body_lines [] chunks e = (whole_lines (concat chunks) e, e)"
  using body_lines_pending [of "[]" chunks e] assms by simp

theorem lines_of_chunks_witness:
  "body_lines [] [''data: {}'' @ [CHR 0x0D], newline # ''da'', ''ta: [DONE]'' @ [newline, newline]] Body_ends =
    ([''data: {}'', ''data: [DONE]'', []], Body_ends)"
  by (subst lines_of_chunks) (simp_all add: short_lines_def MAX_LINE_BYTES_def whole_lines_def strip_cr_def)

end
