(* ===== verification/Asgi_Exchange.thy ===== *)
theory Asgi_Exchange
  imports Engine_Client
begin

text \<open>
  One request and its response, \<^verbatim>\<open>simple_serving/asgi.py\<close>: the headers by name, the body read under a
  limit, and the messages that answer it. A send takes one message after the other; \<open>taken\<close> is how many
  of them the connection takes before the send is given up, so an operation that is not cut short has a
  large one. \<^verbatim>\<open>json.dumps\<close> is written out but for the digits of a float, which are an argument.
\<close>

subsection \<open>JSON texts\<close>

definition hex_digit :: "nat \<Rightarrow> char" where
  "hex_digit d = (if d < 10 then char_of (48 + d) else char_of (87 + d))"

definition escape_char :: "char \<Rightarrow> string" where
  "escape_char c =
    (if c = CHR 0x22 then [CHR 0x5C, CHR 0x22] else if c = CHR 0x5C then [CHR 0x5C, CHR 0x5C]
     else if c = CHR 0x0A then CHR 0x5C # ''n'' else if c = CHR 0x0D then CHR 0x5C # ''r''
     else if c = CHR 0x09 then CHR 0x5C # ''t'' else if c = CHR 0x08 then CHR 0x5C # ''b''
     else if c = CHR 0x0C then CHR 0x5C # ''f''
     else if of_char c < (32 :: nat) then CHR 0x5C # ''u00'' @ [hex_digit (of_char c div 16), hex_digit (of_char c mod 16)]
     else [c])"

definition quote :: "string \<Rightarrow> string" where
  "quote s = CHR 0x22 # concat (map escape_char s) @ [CHR 0x22]"

definition int_text :: "int \<Rightarrow> string" where
  "int_text n = (if n < 0 then CHR ''-'' # digits_of (nat (- n)) else digits_of (nat n))"

text \<open>The separators are those between items and after a key.\<close>

fun dumps :: "(rat \<Rightarrow> string) \<Rightarrow> string \<Rightarrow> string \<Rightarrow> json \<Rightarrow> string" where
  "dumps repr isep ksep JNull = ''null''"
| "dumps repr isep ksep (JBool b) = (if b then ''true'' else ''false'')"
| "dumps repr isep ksep (JInt n) = int_text n"
| "dumps repr isep ksep (JFloat q) = repr q"
| "dumps repr isep ksep (JNonfinite name) = name"
| "dumps repr isep ksep (JStr s) = quote s"
| "dumps repr isep ksep (JList l) = ''['' @ join_with isep (map (dumps repr isep ksep) l) @ '']''"
| "dumps repr isep ksep (JObj ob) =
     ''{'' @ join_with isep (map (\<lambda>(n, v). quote n @ ksep @ dumps repr isep ksep v) ob) @ ''}''"

definition dumps_default :: "(rat \<Rightarrow> string) \<Rightarrow> json \<Rightarrow> string" where
  "dumps_default repr = dumps repr '', '' '': ''"

definition dumps_compact :: "(rat \<Rightarrow> string) \<Rightarrow> json \<Rightarrow> string" where
  "dumps_compact repr = dumps repr '','' '':''"

subsection \<open>The request\<close>

text \<open>\<^verbatim>\<open>bytes.decode("latin-1").lower()\<close>.\<close>

definition latin_lower :: "string \<Rightarrow> string" where
  "latin_lower = map (\<lambda>c. let n = of_char c :: nat
     in if 65 \<le> n \<and> n \<le> 90 \<or> 192 \<le> n \<and> n \<le> 222 \<and> n \<noteq> 215 then char_of (n + 32) else c)"

definition header_map :: "(string \<times> string) list \<Rightarrow> (string \<times> string) list" where
  "header_map raw = foldl (\<lambda>headers (name, value).
     let key = latin_lower name
     in case map_of headers key of
          None \<Rightarrow> headers @ [(key, value)]
        | Some _ \<Rightarrow> map (\<lambda>(k, v). (k, if k = key then v @ '','' @ value else v)) headers) [] raw"

datatype receive_message = Request_body string bool | Disconnect

datatype body_read = Body string | Too_large | Client_gone | Awaiting

text \<open>The loop of \<^verbatim>\<open>read_body\<close> over the messages that have come. \<open>Awaiting\<close> awaits another one.\<close>

fun read_messages :: "nat \<Rightarrow> string \<Rightarrow> receive_message list \<Rightarrow> body_read" where
  "read_messages limit chunks [] = Awaiting"
| "read_messages limit chunks (Disconnect # ms) = Client_gone"
| "read_messages limit chunks (Request_body chunk goes_on # ms) =
    (if length (chunks @ chunk) > limit then Too_large
     else if goes_on then read_messages limit (chunks @ chunk) ms
     else Body (chunks @ chunk))"

definition read_body :: "nat \<Rightarrow> (string \<times> string) list \<Rightarrow> receive_message list \<Rightarrow> body_read" where
  "read_body limit headers ms =
    (let len = (case map_of headers ''content-length'' of None \<Rightarrow> [] | Some v \<Rightarrow> v)
     in if len \<noteq> [] \<and> list_all is_digit len \<and> of_digits 10 len > limit then Too_large
        else read_messages limit [] ms)"

subsection \<open>The response\<close>

datatype send_message =
    Response_start nat "(string \<times> string) list"
  | Response_body string bool

record exchange =
  x_started :: bool
  x_ending :: bool
  x_sent :: "send_message list"
  x_code :: "error_code option"

definition new_exchange :: exchange where
  "new_exchange = \<lparr>x_started = False, x_ending = False, x_sent = [], x_code = None\<rparr>"

definition send_all :: "nat \<Rightarrow> send_message list \<Rightarrow> exchange \<Rightarrow> exchange" where
  "send_all taken ms x = x\<lparr>x_sent := x_sent x @ take taken ms\<rparr>"

definition begin_answer :: "exchange \<Rightarrow> exchange" where
  "begin_answer x = x\<lparr>x_started := True, x_ending := True\<rparr>"

definition text_response :: "nat \<Rightarrow> string \<Rightarrow> string \<Rightarrow> (string \<times> string) list \<Rightarrow> send_message list" where
  "text_response status body content_type headers =
    [Response_start status ([(''content-type'', content_type), (''content-length'', digits_of (length body))] @ headers),
     Response_body body False]"

definition json_response :: "(rat \<Rightarrow> string) \<Rightarrow> nat \<Rightarrow> json \<Rightarrow> (string \<times> string) list \<Rightarrow> send_message list" where
  "json_response repr status payload headers =
    text_response status (dumps_default repr payload) ''application/json'' headers"

definition send_json :: "(rat \<Rightarrow> string) \<Rightarrow> nat \<Rightarrow> nat \<Rightarrow> json \<Rightarrow> exchange \<Rightarrow> exchange" where
  "send_json repr taken status payload x = send_all taken (json_response repr status payload []) (begin_answer x)"

definition send_empty :: "nat \<Rightarrow> nat \<Rightarrow> exchange \<Rightarrow> exchange" where
  "send_empty taken status x = send_all taken [Response_start status [], Response_body [] False] (begin_answer x)"

definition send_text :: "nat \<Rightarrow> nat \<Rightarrow> string \<Rightarrow> string \<Rightarrow> exchange \<Rightarrow> exchange" where
  "send_text taken status body content_type x = send_all taken (text_response status body content_type []) (begin_answer x)"

text \<open>A start that the connection does not take leaves \<^verbatim>\<open>started\<close> as it was.\<close>

definition start_stream :: "nat \<Rightarrow> exchange \<Rightarrow> exchange" where
  "start_stream taken x =
    (let x1 = send_all taken [Response_start 200 [(''content-type'', ''text/event-stream''),
           (''cache-control'', ''no-cache''), (''x-accel-buffering'', ''no'')]] x
     in if 1 \<le> taken then x1\<lparr>x_started := True\<rparr> else x1)"

definition event_text :: "string \<Rightarrow> string" where
  "event_text t = ''data: '' @ t @ [newline, newline]"

definition send_event :: "nat \<Rightarrow> string \<Rightarrow> bool \<Rightarrow> exchange \<Rightarrow> exchange" where
  "send_event taken t last_one x =
    send_all taken [Response_body (event_text t) (\<not> last_one)] (if last_one then x\<lparr>x_ending := True\<rparr> else x)"

definition error_body :: "error_code \<Rightarrow> json" where
  "error_body c = JObj [(''error'', JObj [(''code'', JStr (code_name c))])]"

definition send_error :: "(rat \<Rightarrow> string) \<Rightarrow> nat \<Rightarrow> error_code \<Rightarrow> exchange \<Rightarrow> exchange" where
  "send_error repr taken c x =
    (if x_ending x then x
     else let x1 = x\<lparr>x_code := Some c\<rparr>
       in if x_started x then send_event taken (dumps_compact repr (error_body c)) True x1
          else send_json repr taken (status_of c) (error_body c) x1)"

definition end_stream :: "nat \<Rightarrow> exchange \<Rightarrow> exchange" where
  "end_stream taken x =
    (if x_started x \<and> \<not> x_ending x then send_all taken [Response_body [] False] (x\<lparr>x_ending := True\<rparr>) else x)"

subsection \<open>The order of the messages\<close>

text \<open>
  What the handlers do with an exchange: an answer goes out while nothing has been started, a stream is
  started once, an event is sent while it runs; an error and the end of a stream may come at any time.
\<close>

inductive xstep :: "(rat \<Rightarrow> string) \<Rightarrow> exchange \<Rightarrow> exchange \<Rightarrow> bool" for repr x where
  answers_json: "\<not> x_started x \<Longrightarrow> xstep repr x (send_json repr taken status payload x)"
| answers_empty: "\<not> x_started x \<Longrightarrow> xstep repr x (send_empty taken status x)"
| answers_text: "\<not> x_started x \<Longrightarrow> xstep repr x (send_text taken status body content_type x)"
| starts_stream: "\<not> x_started x \<Longrightarrow> xstep repr x (start_stream taken x)"
| sends_event: "x_started x \<Longrightarrow> \<not> x_ending x \<Longrightarrow> xstep repr x (send_event taken t last_one x)"
| sends_error: "xstep repr x (send_error repr taken c x)"
| ends_stream: "xstep repr x (end_stream taken x)"

inductive exchanged :: "(rat \<Rightarrow> string) \<Rightarrow> exchange \<Rightarrow> bool" for repr where
  fresh: "exchanged repr new_exchange"
| further: "exchanged repr x \<Longrightarrow> xstep repr x y \<Longrightarrow> exchanged repr y"

inductive_cases xstepE: "xstep repr x y"

fun goes_on :: "send_message \<Rightarrow> bool" where
  "goes_on (Response_body body b) = b"
| "goes_on (Response_start status headers) = False"

fun is_body :: "send_message \<Rightarrow> bool" where
  "is_body (Response_body body b) = True"
| "is_body (Response_start status headers) = False"

text \<open>A response as ASGI defines it, whole or cut short after any message.\<close>

definition response_prefix :: "send_message list \<Rightarrow> bool" where
  "response_prefix ms \<longleftrightarrow>
     (case ms of [] \<Rightarrow> True
      | m # rest \<Rightarrow> \<not> is_body m \<and> list_all is_body rest \<and> (rest \<noteq> [] \<longrightarrow> list_all goes_on (butlast rest)))"

definition open_response :: "send_message list \<Rightarrow> bool" where
  "open_response ms \<longleftrightarrow> (\<exists>m rest. ms = m # rest \<and> \<not> is_body m \<and> list_all (\<lambda>b. is_body b \<and> goes_on b) rest)"

definition exchange_ok :: "exchange \<Rightarrow> bool" where
  "exchange_ok x \<longleftrightarrow>
     (if x_ending x then x_started x \<and> response_prefix (x_sent x)
      else if x_started x then open_response (x_sent x) else x_sent x = [])"

lemma open_prefix: "open_response ms \<Longrightarrow> response_prefix ms"
    "open_response ms \<Longrightarrow> is_body b \<Longrightarrow> response_prefix (ms @ [b])"
  by (auto simp: open_response_def response_prefix_def list_all_iff dest!: in_set_butlastD)

lemma answer_prefix: "response_prefix (take taken [Response_start s h, Response_body b False])"
  by (cases taken; cases "taken - 1") (auto simp: response_prefix_def take_Cons')

lemma take_one: "take taken [a] = [] \<or> take taken [a] = [a]"
  by (cases taken) simp_all

lemma send_event_ok:
  assumes "x_started x" and "open_response (x_sent x)" and "\<not> x_ending x"
  shows "exchange_ok (send_event taken t last_one x)"
  using take_one [of taken "Response_body (event_text t) (\<not> last_one)"] assms open_prefix(1) [OF assms(2)]
    open_prefix(2) [OF assms(2), of "Response_body (event_text t) (\<not> last_one)"]
  by (auto simp: exchange_ok_def send_event_def send_all_def open_response_def)

lemma answer_ok:
  assumes "\<not> x_started x" and "exchange_ok x"
  shows "exchange_ok (send_all taken [Response_start s h, Response_body b False] (begin_answer x))"
proof -
  have "x_sent x = []" using assms by (auto simp: exchange_ok_def split: if_splits)
  then show ?thesis by (simp add: exchange_ok_def send_all_def begin_answer_def answer_prefix)
qed

lemma xstep_ok: "xstep repr x y \<Longrightarrow> exchange_ok x \<Longrightarrow> exchange_ok y"
proof (induction rule: xstep.induct)
  case (sends_error taken c)
  show ?case
  proof (cases "x_ending x \<or> \<not> x_started x")
    case True
    with sends_error answer_ok [of "x\<lparr>x_code := Some c\<rparr>"] show ?thesis
      by (auto simp: send_error_def send_json_def json_response_def text_response_def exchange_ok_def)
  next
    case False
    with sends_error have "exchange_ok (send_event taken t True (x\<lparr>x_code := Some c\<rparr>))" for t
      by (intro send_event_ok) (simp_all add: exchange_ok_def)
    with False show ?thesis by (simp add: send_error_def)
  qed
next
  case (sends_event taken t last_one)
  then show ?case using send_event_ok by (simp add: exchange_ok_def)
next
  case (ends_stream taken)
  show ?case
  proof (cases "x_started x \<and> \<not> x_ending x")
    case True
    with ends_stream have "open_response (x_sent x)" by (simp add: exchange_ok_def)
    with True take_one [of taken "Response_body [] False"] open_prefix show ?thesis
      by (auto simp: end_stream_def exchange_ok_def send_all_def)
  next
    case False
    with ends_stream show ?thesis by (auto simp: end_stream_def)
  qed
next
  case (starts_stream taken)
  then show ?case by (cases taken) (auto simp: start_stream_def exchange_ok_def send_all_def open_response_def Let_def)
qed (simp_all add: send_json_def json_response_def send_text_def send_empty_def text_response_def answer_ok)

lemma exchanged_ok: "exchanged repr x \<Longrightarrow> exchange_ok x"
proof (induction rule: exchanged.induct)
  case fresh
  show ?case by (simp add: exchange_ok_def new_exchange_def)
next
  case (further x y)
  then show ?case using xstep_ok by blast
qed

text \<open>
  Whatever the handlers do with an exchange and wherever their sends are cut short, the messages that
  go out are a response of ASGI or the beginning of one: the start first and once, then bodies, of which
  only the last one ends the response. An error is never sent behind a terminal message.
\<close>

theorem response_in_order:
  assumes "exchanged repr x"
  shows "response_prefix (x_sent x) \<and> (x_ending x \<longrightarrow> send_error repr taken c x = x)"
proof -
  have o: "response_prefix ms" if "open_response ms" for ms using that by (rule open_prefix)
  have "exchange_ok x" using assms by (rule exchanged_ok)
  then have "response_prefix (x_sent x)"
    using o by (auto simp: exchange_ok_def response_prefix_def split: if_splits)
  then show ?thesis by (simp add: send_error_def)
qed

definition sample_exchange :: exchange where
  "sample_exchange = send_error (\<lambda>_. ''0'') 1 Timeout_code (send_event 1 ''x'' False (start_stream 1 new_exchange))"

lemma sample_exchanged: "exchanged (\<lambda>_. ''0'') sample_exchange"
  unfolding sample_exchange_def
  by (rule further [OF further [OF further [OF fresh starts_stream] sends_event] sends_error])
    (simp_all add: new_exchange_def start_stream_def send_all_def)

theorem response_in_order_witness: "response_prefix (x_sent sample_exchange) \<and> length (x_sent sample_exchange) = 3"
  using response_in_order [OF sample_exchanged]
  by (simp add: sample_exchange_def send_error_def send_event_def start_stream_def send_all_def new_exchange_def Let_def)

subsection \<open>Reading an event stream\<close>

function texts_of :: "string list \<Rightarrow> string list" where
  "texts_of ls = (case next_data [] ls of (Inl e, rest) \<Rightarrow> [] | (Inr d, rest) \<Rightarrow> d # texts_of rest)"
  by pat_completeness auto
termination texts_of
  by (relation "measure length") (auto dest: next_data_shorter [OF sym])

declare texts_of.simps [simp del]

definition one_line :: "string \<Rightarrow> bool" where
  "one_line t \<longleftrightarrow> list_all (\<lambda>c. 32 \<le> (of_char c :: nat)) t"

lemma one_line_append [simp]: "one_line (s @ t) \<longleftrightarrow> one_line s \<and> one_line t" "one_line (c # t) \<longleftrightarrow> 32 \<le> (of_char c :: nat) \<and> one_line t"
  "one_line []"
  by (auto simp: one_line_def)

lemma one_line_escape: "one_line (escape_char c)"
proof -
  have "32 \<le> (of_char (hex_digit d) :: nat)" if "d < 16" for d using that by (simp add: hex_digit_def)
  moreover have "(of_char c :: nat) div 16 < 16" if "of_char c < (32 :: nat)" using that by simp
  ultimately show ?thesis by (auto simp: escape_char_def not_less)
qed

lemma one_line_quote [simp]: "one_line (quote s)"
proof -
  have "one_line (concat (map escape_char s))" using one_line_escape by (induction s) auto
  then show ?thesis by (simp add: quote_def)
qed

lemma one_line_int [simp]: "one_line (int_text n)"
proof -
  have "one_line (digits_of m)" for m
    using digits_of_digits [of m] by (auto simp: one_line_def list_all_iff is_digit_def less_eq_char_def)
  then show ?thesis by (simp add: int_text_def)
qed

lemma one_line_join: "one_line sep \<Longrightarrow> list_all one_line ss \<Longrightarrow> one_line (join_with sep ss)"
  by (induction sep ss rule: join_with.induct) simp_all

fun finite_json :: "json \<Rightarrow> bool" where
  "finite_json (JNonfinite name) \<longleftrightarrow> False"
| "finite_json (JList l) \<longleftrightarrow> list_all finite_json l"
| "finite_json (JObj ob) \<longleftrightarrow> list_all (\<lambda>(n, v). finite_json v) ob"
| "finite_json _ \<longleftrightarrow> True"

lemma dumps_one_line:
  assumes "\<And>q. one_line (repr q)" and "one_line isep" and "one_line ksep"
  shows "finite_json v \<Longrightarrow> one_line (dumps repr isep ksep v)"
proof (induction v)
  case (JList l)
  then have "list_all one_line (map (dumps repr isep ksep) l)" by (auto simp: list_all_iff)
  with one_line_join [OF assms(2)] show ?case by simp
next
  case (JObj ob)
  then have "list_all one_line (map (\<lambda>(n, v). quote n @ ksep @ dumps repr isep ksep v) ob)"
    using assms(3) by (auto simp: list_all_iff)
  with one_line_join [OF assms(2)] show ?case by simp
qed (simp_all add: assms)

lemma one_line_no_newline: "one_line t \<Longrightarrow> newline \<notin> set t \<and> CHR 0x0D \<notin> set t"
  by (auto simp: one_line_def list_all_iff)

lemma events_split:
  assumes "list_all one_line ts"
  shows "split_on newline (concat (map event_text ts)) = concat (map (\<lambda>t. [''data: '' @ t, []]) ts) @ [[]]"
  using assms
proof (induction ts)
  case (Cons t ts)
  then have "newline \<notin> set (''data: '' @ t)" by (simp add: one_line_no_newline)
  from split_on_join(1) [OF this] Cons show ?case by (simp add: event_text_def)
qed simp

lemma events_texts:
  assumes "list_all one_line ts"
  shows "texts_of (concat (map (\<lambda>t. [strip_cr (''data: '' @ t), []]) ts)) = ts"
  using assms
proof (induction ts)
  case Nil
  show ?case by (simp add: texts_of.simps)
next
  case (Cons t ts)
  then have "CHR 0x0D \<notin> set (''data: '' @ t)" by (simp add: one_line_no_newline)
  then have "strip_cr (''data: '' @ t) = ''data: '' @ t"
    unfolding strip_cr_def using last_in_set [of "''data: '' @ t"] by auto
  with Cons show ?case by (subst texts_of.simps) (simp add: starts_with_def event_data_def)
qed

text \<open>
  The events that the gateway sends are framed so that a reader of server-sent events gets their
  texts back, one by one, wherever the connection cuts the stream: a text of \<^verbatim>\<open>json.dumps\<close> is one line.
\<close>

theorem events_round_trip:
  assumes "\<And>q. one_line (repr q)" and "list_all finite_json vs"
    and "list_all (\<lambda>v. length (dumps_compact repr v) + 6 \<le> MAX_LINE_BYTES) vs"
    and "concat chunks = concat (map (event_text \<circ> dumps_compact repr) vs)"
  shows "texts_of (fst (body_lines [] chunks e)) = map (dumps_compact repr) vs"
proof -
  let ?ts = "map (dumps_compact repr) vs"
  have l: "list_all one_line ?ts"
    using dumps_one_line [of repr] assms(1,2) by (simp add: list_all_iff dumps_compact_def)
  have c: "concat chunks = concat (map event_text ?ts)" using assms(4) by simp
  have "short_lines (concat chunks)"
    using assms(3) unfolding short_lines_def c events_split [OF l] by (auto simp: list_all_iff MAX_LINE_BYTES_def)
  then have "fst (body_lines [] chunks e) = whole_lines (concat chunks) e" by (simp add: lines_of_chunks)
  also have "\<dots> = concat (map (\<lambda>t. [strip_cr (''data: '' @ t), []]) ?ts)"
    unfolding whole_lines_def Let_def c events_split [OF l] by (simp add: map_concat o_def strip_cr_def)
  finally show ?thesis using events_texts [OF l] by simp
qed

theorem events_round_trip_witness:
  "texts_of (fst (body_lines [] [''data: {'' @ [CHR 0x22], ''a'' @ [CHR 0x22] @ '':1}'' @ [newline], [newline]] Body_ends)) =
    [CHR ''{'' # CHR 0x22 # ''a'' @ [CHR 0x22] @ '':1}'']"
proof -
  have "dumps_compact (\<lambda>_. ''0'') (JObj [(''a'', JInt 1)]) = CHR ''{'' # CHR 0x22 # ''a'' @ [CHR 0x22] @ '':1}''"
    by code_simp
  with events_round_trip [of "\<lambda>_. ''0''" "[JObj [(''a'', JInt 1)]]"
      "[''data: {'' @ [CHR 0x22], ''a'' @ [CHR 0x22] @ '':1}'' @ [newline], [newline]]" Body_ends]
  show ?thesis by (simp add: event_text_def MAX_LINE_BYTES_def)
qed

end
