(* ===== verification/Vast_Client.thy ===== *)
theory Vast_Client
  imports Asgi_Exchange
begin

text \<open>
  The instance through the Vast API, \<^verbatim>\<open>simple_serving/vast.py\<close>. What one request meets is an argument
  (\<open>vast_reply\<close>): an exception of httpx, or a status and a body that is read in chunks and may break.
  The loop \<^verbatim>\<open>stop_until_accepted\<close> runs over the outcomes of its attempts.
\<close>

datatype break = Timed_out | Network_failed

datatype vast_reply = No_reply break | Reply int "string list" "break option"

text \<open>A \<^verbatim>\<open>VastError\<close> is its category and status; any other exception is its class.\<close>

datatype attempt_error = Vast_error string "int option" | Attempt_timeout | Other_error string

type_synonym 'a attempt = "attempt_error + 'a"

definition ATTEMPT_S :: rat where "ATTEMPT_S = 20"
definition RETRY_S :: rat where "RETRY_S = 30"
definition MAX_ANSWER_BYTES :: nat where "MAX_ANSWER_BYTES = 200000"

fun broken_off :: "break \<Rightarrow> attempt_error" where
  "broken_off Timed_out = Vast_error ''timeout'' None"
| "broken_off Network_failed = Vast_error ''network'' None"

fun read_answer :: "string \<Rightarrow> string list \<Rightarrow> break option \<Rightarrow> string attempt" where
  "read_answer got [] None = Inr got"
| "read_answer got [] (Some b) = Inl (broken_off b)"
| "read_answer got (chunk # chunks) e =
    (if length (got @ chunk) > MAX_ANSWER_BYTES then Inl (Vast_error ''answer'' None)
     else read_answer (got @ chunk) chunks e)"

definition vast_call :: "loads \<Rightarrow> vast_reply \<Rightarrow> obj attempt" where
  "vast_call loads reply =
    (case reply of
       No_reply b \<Rightarrow> Inl (broken_off b)
     | Reply status chunks e \<Rightarrow>
         if \<not> (200 \<le> status \<and> status < 300)
         then Inl (Vast_error (if status = 401 \<or> status = 403 then ''forbidden'' else ''http'') (Some status))
         else andthen (read_answer [] chunks e) (\<lambda>body.
           case loads body of Some (JObj ob) \<Rightarrow> Inr ob | _ \<Rightarrow> Inl (Vast_error ''answer'' None)))"

text \<open>What is sent: the method, the body and the address, whose instance is the caller's.\<close>

record vast_request =
  vr_method :: string
  vr_instance :: string
  vr_key :: string
  vr_body :: json

definition vast_put ::
  "loads \<Rightarrow> (vast_request \<Rightarrow> vast_reply) \<Rightarrow> string \<Rightarrow> string \<Rightarrow> string \<Rightarrow> unit attempt"
where
  "vast_put loads ask inst key state =
    andthen (vast_call loads (ask \<lparr>vr_method = ''PUT'', vr_instance = inst, vr_key = key,
      vr_body = JObj [(''state'', JStr state)]\<rparr>)) (\<lambda>ob.
    require (jget ''success'' ob = JBool True) (Vast_error ''answer'' None))"

definition vast_stop :: "loads \<Rightarrow> (vast_request \<Rightarrow> vast_reply) \<Rightarrow> string \<Rightarrow> string \<Rightarrow> unit attempt" where
  "vast_stop loads ask inst key = vast_put loads ask inst key ''stopped''"

definition vast_resume :: "loads \<Rightarrow> (vast_request \<Rightarrow> vast_reply) \<Rightarrow> string \<Rightarrow> string \<Rightarrow> unit attempt" where
  "vast_resume loads ask inst key = vast_put loads ask inst key ''running''"

text \<open>\<^verbatim>\<open>str\<close> of an identifier that is a number or a text; nothing else prints as digits.\<close>

definition id_text :: "json \<Rightarrow> string option" where
  "id_text v = (case v of JInt n \<Rightarrow> Some (int_text n) | JStr s \<Rightarrow> Some s | _ \<Rightarrow> None)"

datatype instance_state = Stopped | Going_down | Running | Coming_up

definition state_name :: "instance_state \<Rightarrow> string" where
  "state_name s = (case s of Stopped \<Rightarrow> ''stopped'' | Going_down \<Rightarrow> ''stopping'' | Running \<Rightarrow> ''running'' | Coming_up \<Rightarrow> ''starting'')"

definition read_state :: "json \<Rightarrow> json \<Rightarrow> instance_state" where
  "read_state actual intended =
    (if intended = JStr ''stopped''
     then (if actual = JStr ''stopped'' \<or> actual = JStr ''exited'' then Stopped else Going_down)
     else if actual = JStr ''running'' \<and> intended = JStr ''running'' then Running else Coming_up)"

definition vast_show ::
  "loads \<Rightarrow> (vast_request \<Rightarrow> vast_reply) \<Rightarrow> string \<Rightarrow> string \<Rightarrow> instance_state attempt"
where
  "vast_show loads ask inst key =
    andthen (vast_call loads (ask \<lparr>vr_method = ''GET'', vr_instance = inst, vr_key = key, vr_body = JNull\<rparr>)) (\<lambda>ob.
    case jget ''instances'' ob of
      JObj found \<Rightarrow>
        andthen (require (id_text (jget ''id'' found) = Some inst) (Vast_error ''answer'' None)) (\<lambda>_.
        Inr (read_state (jget ''actual_status'' found) (jget ''intended_status'' found)))
    | _ \<Rightarrow> Inl (Vast_error ''answer'' None))"

text \<open>The stop of this container's instance: its two values, or \<^verbatim>\<open>unconfigured\<close>.\<close>

definition from_environment :: "(string \<rightharpoonup> string) \<Rightarrow> (string \<times> string) option" where
  "from_environment environ =
    (let value = (\<lambda>n. case environ n of None \<Rightarrow> [] | Some v \<Rightarrow> v);
         inst = value ''CONTAINER_ID''; key = value ''CONTAINER_API_KEY''
     in if \<not> is_count inst \<or> key = [] \<or> CHR 0x0D \<in> set key \<or> newline \<in> set key then None else Some (inst, key))"

definition environment_stop :: "loads \<Rightarrow> (vast_request \<Rightarrow> vast_reply) \<Rightarrow> (string \<rightharpoonup> string) \<Rightarrow> unit attempt" where
  "environment_stop loads ask environ =
    (case from_environment environ of None \<Rightarrow> Inl (Vast_error ''unconfigured'' None)
     | Some (inst, key) \<Rightarrow> vast_stop loads ask inst key)"

definition failure_row :: "attempt_error \<Rightarrow> obj" where
  "failure_row e =
    (case e of
       Vast_error code status \<Rightarrow>
         (''code'', JStr code) # (case status of None \<Rightarrow> [] | Some n \<Rightarrow> [(''status'', JInt n)])
     | Attempt_timeout \<Rightarrow> [(''code'', JStr ''timeout'')]
     | Other_error name \<Rightarrow> [(''exception'', JStr name)])"

text \<open>
  The rows that are logged, the seconds slept between the attempts, and whether an attempt has been
  accepted; where none has, the loop still runs and awaits the next outcome.
\<close>

fun stop_until_accepted :: "unit attempt list \<Rightarrow> obj list \<times> rat \<times> bool" where
  "stop_until_accepted [] = ([], 0, False)"
| "stop_until_accepted (Inr u # rest) = ([[(''event'', JStr ''stop_accepted'')]], 0, True)"
| "stop_until_accepted (Inl e # rest) =
    (case stop_until_accepted rest of (rows, slept, accepted) \<Rightarrow>
       (((''event'', JStr ''stop_failed'') # failure_row e) # rows, RETRY_S + slept, accepted))"

subsection \<open>What is known of an attempt\<close>

definition CATEGORIES :: "string list" where
  "CATEGORIES = [''unconfigured'', ''forbidden'', ''http'', ''answer'', ''timeout'', ''network'']"

fun fixed_category :: "attempt_error \<Rightarrow> bool" where
  "fixed_category (Vast_error code status) \<longleftrightarrow>
     code \<in> set CATEGORIES \<and> (status \<noteq> None \<longrightarrow> code = ''forbidden'' \<or> code = ''http'')"
| "fixed_category _ \<longleftrightarrow> False"

lemma fixed_broken: "fixed_category (broken_off b)"
  by (cases b) (simp_all add: CATEGORIES_def)

lemma fixed_errors: "fixed_category (Vast_error ''answer'' None)" "fixed_category (Vast_error ''unconfigured'' None)"
    "fixed_category (Vast_error ''forbidden'' s)" "fixed_category (Vast_error ''http'' s)"
  by (simp_all add: CATEGORIES_def)

lemma read_answer_fixed: "fails_in fixed_category (read_answer got chunks e)"
  by (induction got chunks e rule: read_answer.induct) (auto intro: fixed_errors fixed_broken)

lemma vast_call_fixed: "fails_in fixed_category (vast_call loads reply)"
  unfolding vast_call_def
  by (auto intro!: fails_in_intros(4) read_answer_fixed split: vast_reply.split option.split json.split)
    (auto intro: fixed_errors fixed_broken)

lemma environment_stop_fixed: "fails_in fixed_category (environment_stop loads ask environ)"
  unfolding environment_stop_def vast_stop_def vast_put_def
  by (auto intro!: fails_in_intros(3,4) vast_call_fixed fixed_errors split: option.split)

lemma read_answer_whole: "read_answer got chunks e = Inr body \<Longrightarrow> e = None"
  by (induction got chunks e rule: read_answer.induct) (auto split: if_splits)

lemma vast_call_Inr:
  "vast_call loads reply = Inr ob \<longleftrightarrow>
    (\<exists>status chunks body. reply = Reply status chunks None \<and> 200 \<le> status \<and> status < 300 \<and>
      read_answer [] chunks None = Inr body \<and> loads body = Some (JObj ob))"
proof -
  have j: "(case v of Some (JObj ob) \<Rightarrow> Inr ob | _ \<Rightarrow> Inl e) = Inr ob \<longleftrightarrow> v = Some (JObj ob)" for v :: "json option" and e :: attempt_error
    by (auto split: option.split json.split)
  show ?thesis
    by (cases reply) (auto simp: vast_call_def j dest: read_answer_whole)
qed


text \<open>The stop is tried again until it is accepted, whatever failed, and each failure is a row.\<close>

lemma stop_until_accepted_rows:
  "stop_until_accepted (map Inl es @ Inr u # rest) =
    (map (\<lambda>e. (''event'', JStr ''stop_failed'') # failure_row e) es @ [[(''event'', JStr ''stop_accepted'')]],
     of_nat (length es) * RETRY_S, True)"
  by (induction es) (simp_all add: algebra_simps)

end
