(* ===== verification/Request_Metrics.thy ===== *)
theory Request_Metrics
  imports Text_Service Asgi_Exchange "HOL-Library.Product_Lexorder"
begin

text \<open>
  The gateway's log rows and metrics, \<^verbatim>\<open>simple_serving/log.py\<close> and \<^verbatim>\<open>simple_serving/metrics.py\<close>: the
  record of a request and its row, the outcome and code it is counted by, the histograms of the stages
  and the text of the exposition. The digits of a float that is no whole number are an argument.
\<close>

subsection \<open>Rows\<close>

text \<open>The fields of a request's record that its outcome and its row are made of.\<close>

record request_record =
  rr_listener :: string
  rr_route :: "string option"
  rr_method :: "string option"
  rr_key :: "string option"
  rr_cls :: "cls option"
  rr_scope :: "string option"
  rr_status :: "nat option"
  rr_code :: "error_code option"
  rr_cancelled :: bool
  rr_finish :: "string option"
  rr_input_tokens :: "int option"
  rr_output_tokens :: "int option"
  rr_thinking_budget :: "int option"
  rr_cached_tokens :: "int option"
  rr_count_matches :: "bool option"
  rr_wait_ms :: "int option"
  rr_first_token_ms :: "int option"
  rr_total_ms :: "int option"
  rr_exception :: "string option"
  rr_picture :: "(string \<times> json) list"
  rr_accepted :: bool
  rr_stop :: "stop_reason option"

definition FIELDS_logged :: "string list" where
  "FIELDS_logged = [''event'', ''listener'', ''route'', ''method'', ''key'', ''class'', ''scope'', ''status'', ''code'',
     ''cancelled'', ''finish'', ''input_tokens'', ''output_tokens'', ''cached_tokens'', ''count_matches'', ''wait_ms'',
     ''first_token_ms'', ''total_ms'', ''exception'', ''boot_id'', ''service_status'', ''drain_generation'',
     ''context_tokens'', ''port'', ''reason'', ''process'', ''exit_code'', ''load_ms'', ''weights_mib'',
     ''weights_load_ms'', ''kv_cache_mib'', ''kv_cache_tokens'', ''concurrency_x100'', ''thinking_budget'', ''value'',
     ''head_dim'', ''capture_ms'', ''graph_mib'', ''lane'', ''nodes'', ''images'', ''image_bytes'', ''upload_bytes'',
     ''references'', ''queue_ms'', ''draw_ms'', ''partial_loads'', ''oom'', ''stop_confirmed'', ''socket'', ''jobs'',
     ''grace_s'', ''file_cap_s'', ''history_cap_s'', ''files'', ''failed_files'', ''records'', ''count'']"

definition given :: "string \<Rightarrow> ('a \<Rightarrow> json) \<Rightarrow> 'a option \<Rightarrow> obj" where
  "given name f v = (case v of None \<Rightarrow> [] | Some x \<Rightarrow> [(name, f x)])"

text \<open>\<^verbatim>\<open>emit\<close>: every field that is set but the two that stay out of the row. A picture's own are in \<open>rr_picture\<close>.\<close>

definition row_fields :: "request_record \<Rightarrow> obj" where
  "row_fields r =
    [(''event'', JStr ''request''), (''listener'', JStr (rr_listener r))] @
    given ''route'' JStr (rr_route r) @ given ''method'' JStr (rr_method r) @ given ''key'' JStr (rr_key r) @
    given ''class'' (JStr \<circ> cls_name) (rr_cls r) @ given ''scope'' JStr (rr_scope r) @
    given ''status'' (JInt \<circ> int) (rr_status r) @ given ''code'' (JStr \<circ> code_name) (rr_code r) @
    [(''cancelled'', JBool (rr_cancelled r))] @ given ''finish'' JStr (rr_finish r) @
    given ''input_tokens'' JInt (rr_input_tokens r) @ given ''output_tokens'' JInt (rr_output_tokens r) @
    given ''thinking_budget'' JInt (rr_thinking_budget r) @ given ''cached_tokens'' JInt (rr_cached_tokens r) @
    given ''count_matches'' JBool (rr_count_matches r) @ given ''wait_ms'' JInt (rr_wait_ms r) @
    given ''first_token_ms'' JInt (rr_first_token_ms r) @ given ''total_ms'' JInt (rr_total_ms r) @
    given ''exception'' JStr (rr_exception r) @ rr_picture r"

text \<open>\<^verbatim>\<open>JsonFormatter.format\<close>: only listed fields of a row; of another record its logger and level.\<close>

definition format_row :: "string \<Rightarrow> obj + string \<times> string \<Rightarrow> string option \<Rightarrow> obj" where
  "format_row time source exc =
    (let line = (case source of
         Inl fs \<Rightarrow> puts [(''time'', JStr time)] (filter (\<lambda>(n, v). n \<in> set FIELDS_logged) fs)
       | Inr (logger, level) \<Rightarrow> [(''time'', JStr time), (''logger'', JStr logger), (''level'', JStr level)])
     in case exc of None \<Rightarrow> line | Some name \<Rightarrow> jput ''exception'' (JStr name) line)"

subsection \<open>Outcomes\<close>

datatype outcome_name =
    Success | Rejected | Unavailable | Drained_outcome | Timed_out_outcome | Engine_error_outcome
  | Internal_outcome | Client_disconnect | Client_cancelled

text \<open>The catalog \<^verbatim>\<open>OUTCOMES\<close>; \<open>None\<close> is the code \<^verbatim>\<open>none\<close>.\<close>

fun OUTCOMES :: "outcome_name \<Rightarrow> error_code option list" where
  "OUTCOMES Success = [None]"
| "OUTCOMES Rejected = map Some [Invalid_request, Unsupported_field, Limit_exceeded, Context_limit, Min_p_unavailable,
     Thinking_budget_unavailable, Vision_not_allowed, Unauthorized, Class_not_allowed, Scope_not_allowed,
     Body_too_large, Queue_full, Timeout_code, Graph_refused, Graph_rejected, Forbidden, Not_found, Stale_boot,
     Stale_generation, Sleep_pending]"
| "OUTCOMES Unavailable = [Some Starting_code, Some Engine_unavailable, Some Socket_unavailable, None]"
| "OUTCOMES Drained_outcome = [Some Draining_code, Some Drained_code]"
| "OUTCOMES Timed_out_outcome = [Some Timeout_code]"
| "OUTCOMES Engine_error_outcome = map Some [Engine_unavailable, Socket_unavailable, Picture_failed, Stop_unconfirmed]"
| "OUTCOMES Internal_outcome = [Some Internal_error]"
| "OUTCOMES Client_disconnect = [None]"
| "OUTCOMES Client_cancelled = [None]"

definition all_outcomes :: "outcome_name list" where
  "all_outcomes = [Success, Rejected, Unavailable, Drained_outcome, Timed_out_outcome, Engine_error_outcome,
     Internal_outcome, Client_disconnect, Client_cancelled]"

definition outcome_of :: "error_code \<Rightarrow> bool \<Rightarrow> outcome_name" where
  "outcome_of c accepted =
    (if c = Timeout_code then (if accepted then Timed_out_outcome else Rejected)
     else if c \<in> {Engine_unavailable, Socket_unavailable} then (if accepted then Engine_error_outcome else Unavailable)
     else if c \<in> {Picture_failed, Stop_unconfirmed} then Engine_error_outcome
     else if c \<in> {Draining_code, Drained_code} then Drained_outcome
     else if c = Starting_code then Unavailable
     else if c = Internal_error then Internal_outcome
     else Rejected)"

definition request_outcome :: "request_record \<Rightarrow> bool \<Rightarrow> outcome_name \<times> error_code option" where
  "request_outcome r escaped =
    (let code = (if rr_code r = None \<and> rr_cancelled r then Option.bind (rr_stop r) STOP_CODES else rr_code r);
         code1 = (if code = None \<and> escaped then Some Internal_error else code)
     in case code1 of
          Some c \<Rightarrow> (outcome_of c (rr_accepted r), Some c)
        | None \<Rightarrow>
            if rr_cancelled r \<and> rr_stop r = Some By_client_stop then (Client_cancelled, None)
            else if rr_cancelled r then (if rr_stop r = Some By_shutdown then Unavailable else Client_disconnect, None)
            else (Success, None))"

subsection \<open>Histograms\<close>

definition BUCKETS :: "rat list" where
  "BUCKETS = [5/1000, 1/100, 25/1000, 5/100, 1/10, 25/100, 5/10, 1, 25/10, 5, 10, 20, 30, 60, 120, 300, 600, 900]"

record histogram =
  hi_buckets :: "nat list"
  hi_sum :: rat
  hi_count :: nat

definition new_histogram :: histogram where
  "new_histogram = \<lparr>hi_buckets = replicate (Suc (length BUCKETS)) 0, hi_sum = 0, hi_count = 0\<rparr>"

text \<open>\<^verbatim>\<open>bisect_left\<close> of a sorted list.\<close>

definition bisect_left :: "rat list \<Rightarrow> rat \<Rightarrow> nat" where
  "bisect_left bounds v = length (takeWhile (\<lambda>b. b < v) bounds)"

definition hist_observe :: "rat \<Rightarrow> histogram \<Rightarrow> histogram" where
  "hist_observe seconds h =
    (let v = max 0 seconds; i = bisect_left BUCKETS v
     in h\<lparr>hi_buckets := (hi_buckets h)[i := Suc (hi_buckets h ! i)], hi_sum := hi_sum h + v,
          hi_count := Suc (hi_count h)\<rparr>)"

text \<open>The running totals of the exposition, one for each bound and one above all of them.\<close>

fun running_totals :: "nat \<Rightarrow> nat list \<Rightarrow> nat list" where
  "running_totals sofar [] = []"
| "running_totals sofar (n # ns) = (sofar + n) # running_totals (sofar + n) ns"

subsection \<open>The counters\<close>

text \<open>A stage's help is left out; the flag is whether it has the route label.\<close>

definition STAGES :: "(string \<times> bool) list" where
  "STAGES = [(''count_place_wait'', True), (''count'', True), (''generation_place_wait'', False), (''wait'', False),
     (''time_to_first_token'', False), (''total'', False)]"

definition TOKENS :: "string list" where
  "TOKENS = [''input_tokens'', ''output_tokens'', ''cached_tokens'', ''count_mismatches'']"

definition GENERATION :: string where "GENERATION = ''/v1/chat/completions''"
definition COUNT :: string where "COUNT = ''/v1/chat/completions/input_tokens''"
definition PICTURE :: string where "PICTURE = ''/v1/pictures''"

definition PICTURE_METHODS :: "(string \<times> string list) list" where
  "PICTURE_METHODS = [(PICTURE, [''POST'']), (''/v1/pictures/{job}/stop'', [''POST'']),
     (''/v1/pictures/uploads/{name}'', [''PUT'', ''DELETE'']), (''/v1/pictures/inputs/{name}'', [''PUT''])]"

definition TEXT_METHODS :: "(string \<times> string list) list" where
  "TEXT_METHODS = [(GENERATION, [''POST'']), (COUNT, [''POST''])]"

definition ROUTES :: "string list" where
  "ROUTES = [GENERATION, COUNT] @ map fst PICTURE_METHODS @ [''/v1/pictures/engine'', ''/v1/models'', ''/v1/state'',
     ''/v1/control/drain'', ''/v1/control/sleep'', ''/v1/control/open'', ''/metrics'', ''/metrics/engine'']"

definition HTTP_STATUSES :: "string list" where
  "HTTP_STATUSES = map digits_of (sort (remdups ([200, 201, 202, 204] @ map status_of all_codes))) @ [''none'']"

type_synonym series = "string \<times> string \<times> string \<times> string"

record metrics =
  me_methods :: "(string \<times> string list) list"
  me_definitions :: "(string \<times> bool) list"
  me_requests :: "(series \<times> nat) list"
  me_responses :: "((string \<times> string \<times> string) \<times> nat) list"
  me_stages :: "((string \<times> string \<times> cls) \<times> histogram) list"
  me_tokens :: "((string \<times> cls) \<times> int) list"

definition cls_label :: "cls option \<Rightarrow> string" where
  "cls_label c = (case c of None \<Rightarrow> ''none'' | Some k \<Rightarrow> cls_name k)"

definition code_label :: "error_code option \<Rightarrow> string" where
  "code_label c = (case c of None \<Rightarrow> ''none'' | Some e \<Rightarrow> code_name e)"

fun outcome_label :: "outcome_name \<Rightarrow> string" where
  "outcome_label Success = ''success''"
| "outcome_label Rejected = ''rejected''"
| "outcome_label Unavailable = ''unavailable''"
| "outcome_label Drained_outcome = ''draining''"
| "outcome_label Timed_out_outcome = ''timeout''"
| "outcome_label Engine_error_outcome = ''engine_error''"
| "outcome_label Internal_outcome = ''internal_error''"
| "outcome_label Client_disconnect = ''client_disconnect''"
| "outcome_label Client_cancelled = ''client_cancelled''"

definition outcome_pairs :: "(outcome_name \<times> error_code option) list" where
  "outcome_pairs = concat (map (\<lambda>out. map (Pair out) (OUTCOMES out)) all_outcomes)"

definition class_labels :: "cls option list" where
  "class_labels = map Some CLASSES @ [None]"

definition series_of :: "string \<Rightarrow> cls option \<Rightarrow> outcome_name \<times> error_code option \<Rightarrow> series" where
  "series_of route c p = (route, cls_label c, outcome_label (fst p), code_label (snd p))"

definition request_series :: "(string \<times> string list) list \<Rightarrow> series list" where
  "request_series methods = [series_of route c p. route \<leftarrow> map fst methods, c \<leftarrow> class_labels, p \<leftarrow> outcome_pairs]"

definition stage_series :: "(string \<times> bool) list \<Rightarrow> (string \<times> string \<times> cls) list" where
  "stage_series stages =
    [(stage, route, c). (stage, routed) \<leftarrow> stages, route \<leftarrow> (if routed then [GENERATION, COUNT] else [GENERATION]), c \<leftarrow> CLASSES]"

definition metrics_init :: "(string \<times> string list) list \<Rightarrow> (string \<times> bool) list \<Rightarrow> string list \<Rightarrow> metrics" where
  "metrics_init methods stages tokens =
    \<lparr>me_methods = methods, me_definitions = stages, me_requests = map (\<lambda>k. (k, 0)) (request_series methods), me_responses = [],
     me_stages = map (\<lambda>k. (k, new_histogram)) (stage_series stages),
     me_tokens = [((name, c), 0). name \<leftarrow> tokens, c \<leftarrow> CLASSES]\<rparr>"

definition text_metrics :: metrics where
  "text_metrics = metrics_init TEXT_METHODS STAGES TOKENS"

definition picture_metrics :: metrics where
  "picture_metrics = metrics_init PICTURE_METHODS [] []"

definition known_route :: "string option \<Rightarrow> string" where
  "known_route r = (case r of None \<Rightarrow> ''other'' | Some p \<Rightarrow> if p \<in> set ROUTES then p else ''other'')"

text \<open>A dictionary in the order of its keys' first insertion.\<close>

definition put_with :: "'k \<Rightarrow> 'v \<Rightarrow> ('v \<Rightarrow> 'v) \<Rightarrow> ('k \<times> 'v) list \<Rightarrow> ('k \<times> 'v) list" where
  "put_with k start f al =
    (if k \<in> set (map fst al) then map (\<lambda>(k', v). (k', if k' = k then f v else v)) al else al @ [(k, f start)])"

definition metrics_listener :: "string \<Rightarrow> string list \<Rightarrow> metrics \<Rightarrow> metrics" where
  "metrics_listener name paths m =
    m\<lparr>me_responses := foldl (\<lambda>r (route, st). put_with (name, known_route (Some route), st) 0 id r) (me_responses m)
        [(route, st). route \<leftarrow> paths @ [''other''], st \<leftarrow> HTTP_STATUSES]\<rparr>"

text \<open>A stage that is not the lane's own would be a \<^verbatim>\<open>KeyError\<close>: \<open>None\<close>.\<close>

definition observe :: "string \<Rightarrow> cls \<Rightarrow> rat \<Rightarrow> string option \<Rightarrow> metrics \<Rightarrow> metrics option" where
  "observe stage c seconds route m =
    (case map_of (me_definitions m) stage of None \<Rightarrow> None
     | Some routed \<Rightarrow>
         let k = (stage, (if routed then (case route of None \<Rightarrow> GENERATION | Some r \<Rightarrow> if r = [] then GENERATION else r) else GENERATION), c)
         in if k \<in> set (map fst (me_stages m))
            then Some (m\<lparr>me_stages := put_with k new_histogram (hist_observe seconds) (me_stages m)\<rparr>) else None)"

definition opt0 :: "int option \<Rightarrow> int" where
  "opt0 v = (case v of None \<Rightarrow> 0 | Some n \<Rightarrow> n)"

definition count_tokens :: "request_record \<Rightarrow> cls \<Rightarrow> int \<Rightarrow> metrics \<Rightarrow> metrics" where
  "count_tokens r c n m =
    m\<lparr>me_tokens := foldl (\<lambda>al (name, v). put_with (name, c) 0 (\<lambda>x. x + v) al) (me_tokens m)
        [(''input_tokens'', opt0 (rr_input_tokens r)), (''output_tokens'', n),
         (''cached_tokens'', opt0 (rr_cached_tokens r)),
         (''count_mismatches'', if rr_count_matches r = Some False then 1 else 0)]\<rparr>"

definition request_ended :: "request_record \<Rightarrow> bool \<Rightarrow> metrics \<Rightarrow> metrics" where
  "request_ended r escaped m =
    (let route = known_route (rr_route r);
         st = (case rr_status r of None \<Rightarrow> ''none'' | Some n \<Rightarrow> digits_of n);
         m1 = m\<lparr>me_responses := put_with (rr_listener r, route, st) 0 Suc (me_responses m)\<rparr>;
         counted_methods = (case map_of (me_methods m) route of None \<Rightarrow> [] | Some ms \<Rightarrow> ms)
     in if (case rr_method r of None \<Rightarrow> True | Some method \<Rightarrow> method \<notin> set counted_methods) then m1
        else
          let m2 = m1\<lparr>me_requests := put_with (series_of route (rr_cls r) (request_outcome r escaped)) 0 Suc (me_requests m1)\<rparr>
          in case (rr_cls r, rr_output_tokens r) of
               (Some c, Some n) \<Rightarrow> if route = GENERATION then count_tokens r c n m2 else m2
             | _ \<Rightarrow> m2)"

subsection \<open>The exposition\<close>

definition PREFIX :: string where "PREFIX = ''simple_serving_''"

text \<open>\<^verbatim>\<open>str.replace\<close> of one character by a text.\<close>

definition replace_char :: "char \<Rightarrow> string \<Rightarrow> string \<Rightarrow> string" where
  "replace_char c r s = concat (map (\<lambda>x. if x = c then r else [x]) s)"

definition metric_escape :: "bool \<Rightarrow> string \<Rightarrow> string" where
  "metric_escape q s =
    (let s1 = replace_char newline [CHR 0x5C, CHR ''n''] (replace_char (CHR 0x5C) [CHR 0x5C, CHR 0x5C] s)
     in if q then replace_char (CHR 0x22) [CHR 0x5C, CHR 0x22] s1 else s1)"

definition labels_text :: "(string \<times> string) list \<Rightarrow> string" where
  "labels_text labels =
    (if labels = [] then []
     else ''{'' @ join_with '','' (map (\<lambda>(n, v). n @ ''='' @ [CHR 0x22] @ metric_escape True v @ [CHR 0x22]) labels) @ ''}'')"

text \<open>\<^verbatim>\<open>_number\<close>: a bound above all others is \<open>None\<close>.\<close>

definition number_text :: "(rat \<Rightarrow> string) \<Rightarrow> rat option \<Rightarrow> string" where
  "number_text repr v =
    (case v of None \<Rightarrow> ''+Inf'' | Some q \<Rightarrow> if q = of_int \<lfloor>q\<rfloor> then int_text \<lfloor>q\<rfloor> else repr q)"

definition head_lines :: "string \<Rightarrow> string \<Rightarrow> string \<Rightarrow> string list" where
  "head_lines name kind help =
    [''# HELP '' @ PREFIX @ name @ '' '' @ metric_escape False help, ''# TYPE '' @ PREFIX @ name @ '' '' @ kind]"

type_synonym samples = "((string \<times> string) list \<times> rat) list"

definition family_lines :: "(rat \<Rightarrow> string) \<Rightarrow> string \<Rightarrow> string \<Rightarrow> string \<Rightarrow> samples \<Rightarrow> string list" where
  "family_lines repr name kind help samples =
    head_lines name kind help @
    map (\<lambda>(labels, v). PREFIX @ name @ labels_text labels @ '' '' @ number_text repr (Some v)) samples"

definition histogram_lines ::
  "(rat \<Rightarrow> string) \<Rightarrow> string \<Rightarrow> string \<Rightarrow> ((string \<times> string) list \<times> histogram) list \<Rightarrow> string list"
where
  "histogram_lines repr name help series =
    head_lines name ''histogram'' help @
    concat (map (\<lambda>(labels, h).
      map (\<lambda>(bound, total). PREFIX @ name @ ''_bucket'' @ labels_text (labels @ [(''le'', number_text repr bound)]) @
          '' '' @ digits_of total) (zip (map Some BUCKETS @ [None]) (running_totals 0 (hi_buckets h))) @
      [PREFIX @ name @ ''_sum'' @ labels_text labels @ '' '' @ number_text repr (Some (hi_sum h)),
       PREFIX @ name @ ''_count'' @ labels_text labels @ '' '' @ digits_of (hi_count h)]) series)"

definition exposition_text :: "string list \<Rightarrow> string" where
  "exposition_text ls = join_with [newline] ls @ [newline]"

text \<open>The help of every family is an argument, and so is the lane's part of the gauges.\<close>

definition render ::
  "(rat \<Rightarrow> string) \<Rightarrow> (string \<Rightarrow> string) \<Rightarrow> string list \<Rightarrow> string list \<Rightarrow> metrics \<Rightarrow> string"
where
  "render repr help tokens gauges m = exposition_text (
     family_lines repr ''requests_total'' ''counter'' (help ''requests_total'')
       (map (\<lambda>((route, c, out, code), v). ([(''route'', route), (''class'', c), (''outcome'', out), (''code'', code)], of_nat v))
         (sort (me_requests m))) @
     family_lines repr ''http_responses_total'' ''counter'' (help ''http_responses_total'')
       (map (\<lambda>((listener, route, st), v). ([(''listener'', listener), (''route'', route), (''status'', st)], of_nat v))
         (sort (me_responses m))) @
     concat (map (\<lambda>(stage, routed). histogram_lines repr (stage @ ''_seconds'') (help stage)
       [((if routed then [(''route'', route), (''class'', cls_name c)] else [(''class'', cls_name c)]), h).
          ((name, route, c), h) \<leftarrow> me_stages m, name = stage]) (me_definitions m)) @
     concat (map (\<lambda>name. family_lines repr (name @ ''_total'') ''counter'' (help name)
       [([(''class'', cls_name c)], of_int (case map_of (me_tokens m) (name, c) of None \<Rightarrow> 0 | Some v \<Rightarrow> v)). c \<leftarrow> CLASSES]) tokens) @
     gauges)"

definition gauge_lines :: "(rat \<Rightarrow> string) \<Rightarrow> (string \<Rightarrow> string) \<Rightarrow> string \<Rightarrow> samples \<Rightarrow> string list" where
  "gauge_lines repr help name samples = family_lines repr name ''gauge'' (help name) samples"

fun status_name :: "service_status \<Rightarrow> string" where
  "status_name Starting = ''starting''"
| "status_name Ready = ''ready''"
| "status_name Draining = ''draining''"
| "status_name Drained = ''drained''"
| "status_name Failed = ''failed''"

definition SERVICE_STATUSES :: "service_status list" where
  "SERVICE_STATUSES = [Starting, Ready, Draining, Drained, Failed]"

definition flag :: "bool \<Rightarrow> rat" where
  "flag b = (if b then 1 else 0)"

definition per_cls :: "(cls \<Rightarrow> rat) \<Rightarrow> samples" where
  "per_cls f = map (\<lambda>c. ([(''class'', cls_name c)], f c)) CLASSES"

text \<open>The route of a work is its request's, the timeouts are the configuration's.\<close>

definition common_gauges ::
  "(rat \<Rightarrow> string) \<Rightarrow> (string \<Rightarrow> string) \<Rightarrow> (string \<times> string list) list \<Rightarrow> (nat \<Rightarrow> string) \<Rightarrow> (cls \<Rightarrow> rat) \<Rightarrow>
   rat \<Rightarrow> rat \<Rightarrow> rat \<Rightarrow> bool \<Rightarrow> 'a lifecycle_scheme \<Rightarrow> string list"
where
  "common_gauges repr help methods route_of wall_s start_time idle_timeout now verified s =
    (let idle = (if l_ours_inflight s \<noteq> 0 \<or> \<not> verified then 0 else now - l_idle_since s);
         g = gauge_lines repr help
     in g ''start_time_seconds'' [([], start_time)] @
        g ''status'' (map (\<lambda>n. ([(''status'', status_name n)], flag (n = status s))) SERVICE_STATUSES) @
        g ''sleep_requested'' [([], flag (l_sleep_requested s))] @
        g ''drain_generation'' [([], of_int (l_drain_generation s))] @
        g ''accepted_in_flight'' (map (\<lambda>(route, ms). ([(''route'', route)],
            of_nat (length (filter (\<lambda>w. route_of w = route) (l_work s))))) methods) @
        g ''ours_in_flight'' [([], of_int (l_ours_inflight s))] @
        g ''idle_seconds'' [([], max 0 idle)] @
        g ''idle_timeout_seconds'' [([], idle_timeout)] @
        g ''wall_time_limit_seconds'' (per_cls wall_s))"

definition count_of :: "(cls \<times> int) list \<Rightarrow> cls \<Rightarrow> rat" where
  "count_of counts c = of_int (case map_of counts c of None \<Rightarrow> 0 | Some n \<Rightarrow> n)"

definition text_gauges ::
  "(rat \<Rightarrow> string) \<Rightarrow> (string \<Rightarrow> string) \<Rightarrow> config \<Rightarrow> rat \<Rightarrow> rat \<Rightarrow> text_service \<Rightarrow> string list"
where
  "text_gauges repr help cfg start_time now s =
    (let g = gauge_lines repr help;
         route_of = (\<lambda>w. case w_kind (s_works s w) of Generation_work \<Rightarrow> GENERATION | Count_work \<Rightarrow> COUNT)
     in common_gauges repr help TEXT_METHODS route_of (\<lambda>c. cl_wall_s (c_limits cfg c)) start_time (c_idle_timeout_s cfg) now
          (s_context_tokens s \<noteq> None) s @
        g ''generations_active'' (per_cls (count_of (adm_active_counts (s_admission s)))) @
        g ''generations_waiting'' (per_cls (count_of (adm_waiting_counts (s_admission s)))) @
        g ''counts_active'' (per_cls (count_of (cp_active_counts (s_counts s)))) @
        g ''counts_waiting'' (per_cls (count_of (cp_waiting_counts (s_counts s)))) @
        g ''generation_active_limit'' (per_cls (\<lambda>c. of_int (cl_active (c_limits cfg c)))) @
        g ''generation_waiting_limit'' (per_cls (\<lambda>c. of_int (cl_waiting (c_limits cfg c)))) @
        g ''generation_shared_limit'' [([], of_int (c_shared_places cfg))] @
        g ''count_active_limit'' [([], of_int (c_count_active cfg))])"

subsection \<open>Every request is counted once\<close>

lemma outcome_known: "request_outcome r escaped \<in> set outcome_pairs"
proof -
  have o: "(outcome_of c b, Some c) \<in> set outcome_pairs" for c b
    by (cases c; cases b) (simp_all add: outcome_of_def outcome_pairs_def all_outcomes_def)
  have n: "(Success, None) \<in> set outcome_pairs" "(Client_cancelled, None) \<in> set outcome_pairs"
    "(Unavailable, None) \<in> set outcome_pairs" "(Client_disconnect, None) \<in> set outcome_pairs"
    by (simp_all add: outcome_pairs_def all_outcomes_def)
  show ?thesis unfolding request_outcome_def Let_def by (auto simp: o n split: option.split)
qed

lemma in_request_series:
  "route \<in> set (map fst methods) \<Longrightarrow> c \<in> set class_labels \<Longrightarrow> p \<in> set outcome_pairs \<Longrightarrow>
    series_of route c p \<in> set (request_series methods)"
  by (induction methods) (auto simp: request_series_def)

lemma series_known:
  assumes "route \<in> set (map fst methods)"
  shows "series_of route (rr_cls r) (request_outcome r escaped) \<in> set (request_series methods)"
proof -
  have "rr_cls r \<in> set class_labels" by (cases "rr_cls r") (simp_all add: class_labels_def)
  with assms outcome_known show ?thesis by (intro in_request_series)
qed

lemma put_with_keys: "k \<in> set (map fst al) \<Longrightarrow> map fst (put_with k v f al) = map fst al"
  by (simp add: put_with_def o_def case_prod_unfold)

lemma put_with_sum:
  assumes "distinct (map fst al)" and "k \<in> set (map fst al)"
  shows "sum_list (map snd (put_with k v Suc al)) = Suc (sum_list (map snd al))"
  using assms
proof (induction al)
  case (Cons p al)
  show ?case
  proof (cases "fst p = k")
    case True
    then have "map (\<lambda>(k', v). (k', if k' = k then Suc v else v)) al = al"
      using Cons.prems(1) by (intro map_idI) (auto simp: rev_image_eqI)
    with True show ?thesis by (simp add: put_with_def case_prod_unfold)
  next
    case False
    with Cons show ?thesis by (auto simp: put_with_def case_prod_unfold)
  qed
qed simp

lemma code_label_inj: "code_label c = code_label d \<longleftrightarrow> c = d"
proof -
  have "code_name e \<noteq> ''none''" "''none'' \<noteq> code_name e" for e by (cases e; simp)+
  then show ?thesis by (auto simp: code_label_def split: option.splits)
qed

lemma outcome_label_inj: "outcome_label a = outcome_label b \<Longrightarrow> a = b"
  by (cases a; cases b) simp_all

lemma cls_label_inj: "cls_label a = cls_label b \<Longrightarrow> a = b"
proof -
  have "cls_name k \<noteq> ''none''" "''none'' \<noteq> cls_name k" for k by (cases k; simp)+
  then show "cls_label a = cls_label b \<Longrightarrow> a = b" by (auto simp: cls_label_def split: option.splits)
qed

lemma series_of_inj: "series_of route c p = series_of route' c' p' \<longleftrightarrow> route = route' \<and> c = c' \<and> p = p'"
  by (auto simp: series_of_def code_label_inj prod_eq_iff dest: outcome_label_inj cls_label_inj)

lemma distinct_concat_map:
  assumes "distinct xs" and "distinct ys" and "\<And>x y x' y'. f x y = f x' y' \<Longrightarrow> x = x' \<and> y = y'"
  shows "distinct (concat (map (\<lambda>x. map (f x) ys) xs))"
  using assms(1)
proof (induction xs)
  case (Cons x xs)
  have "distinct (map (f x) ys)" using assms(2,3) by (auto simp: distinct_map inj_on_def)
  with Cons show ?case using assms(3) by auto
qed simp

lemma distinct_request_series:
  assumes "distinct (map fst methods)"
  shows "distinct (request_series methods)"
proof -
  have p: "distinct outcome_pairs" by (simp add: outcome_pairs_def all_outcomes_def)
  have c: "distinct class_labels" by (simp add: class_labels_def distinct_map)
  have "request_series methods = concat (map (\<lambda>route. map (\<lambda>(c, p). series_of route c p) (List.product class_labels outcome_pairs)) (map fst methods))"
    by (simp add: request_series_def product_concat_map map_concat o_def)
  also have "distinct \<dots>"
    by (rule distinct_concat_map [OF assms distinct_product [OF c p]]) (auto simp: series_of_inj)
  finally show ?thesis .
qed

definition counted_request :: "metrics \<Rightarrow> request_record \<Rightarrow> bool" where
  "counted_request m r \<longleftrightarrow> (\<exists>method ms. rr_method r = Some method \<and>
     map_of (me_methods m) (known_route (rr_route r)) = Some ms \<and> method \<in> set ms)"

definition requests_sum :: "metrics \<Rightarrow> nat" where
  "requests_sum m = sum_list (map snd (me_requests m))"

lemma request_ended_fields:
  "me_methods (request_ended r escaped m) = me_methods m"
  "me_requests (request_ended r escaped m) =
    (if counted_request m r
     then put_with (series_of (known_route (rr_route r)) (rr_cls r) (request_outcome r escaped)) 0 Suc (me_requests m)
     else me_requests m)"
  by (auto simp: request_ended_def counted_request_def count_tokens_def Let_def split: option.splits)

lemma request_ended_counts:
  assumes "map fst (me_requests m) = request_series (me_methods m)" and "distinct (map fst (me_methods m))"
  shows "map fst (me_requests (request_ended r escaped m)) = request_series (me_methods m) \<and>
    requests_sum (request_ended r escaped m) = requests_sum m + (if counted_request m r then 1 else 0)"
proof (cases "counted_request m r")
  case True
  then have "known_route (rr_route r) \<in> set (map fst (me_methods m))"
    by (force simp: counted_request_def dest: map_of_SomeD)
  from series_known [OF this] have k: "series_of (known_route (rr_route r)) (rr_cls r) (request_outcome r escaped)
      \<in> set (map fst (me_requests m))" by (simp only: assms(1))
  have "distinct (map fst (me_requests m))" using distinct_request_series [OF assms(2)] by (simp only: assms(1))
  with True put_with_keys [OF k] put_with_sum [OF _ k] assms(1) show ?thesis
    by (simp only: request_ended_fields requests_sum_def if_True) simp
qed (simp add: request_ended_fields requests_sum_def assms(1))

text \<open>
  Over any sequence of finished requests, every inference request (a picture mutation in the
  picture lane) is counted exactly once, in a series that was there at 0 when the gateway started: no
  outcome, code or class leads outside the catalog.
\<close>

theorem requests_counted_once:
  fixes rs :: "(request_record \<times> bool) list"
  shows "map fst (me_requests (foldl (\<lambda>m (r, escaped). request_ended r escaped m) text_metrics rs)) = request_series TEXT_METHODS \<and>
    requests_sum (foldl (\<lambda>m (r, escaped). request_ended r escaped m) text_metrics rs) =
      length (filter (\<lambda>(r, escaped). counted_request text_metrics r) rs)"
proof (induction rs rule: rev_induct)
  case Nil
  have "sum_list (map snd (map (\<lambda>k. (k, 0 :: nat)) ks)) = 0" for ks :: "series list" by (induction ks) simp_all
  then show ?case by (simp add: text_metrics_def metrics_init_def requests_sum_def o_def)
next
  case (snoc p rs)
  obtain r escaped where p: "p = (r, escaped)" by (cases p)
  let ?m = "foldl (\<lambda>m (r, escaped). request_ended r escaped m) text_metrics rs"
  have "me_methods ?m = me_methods text_metrics"
    by (induction rs rule: rev_induct) (auto simp: request_ended_fields split: prod.split)
  then have m: "me_methods ?m = TEXT_METHODS" "counted_request ?m r = counted_request text_metrics r"
    by (simp_all add: counted_request_def text_metrics_def metrics_init_def)
  have "distinct (map fst TEXT_METHODS)" by (simp add: TEXT_METHODS_def GENERATION_def COUNT_def)
  with snoc m request_ended_counts [of ?m r escaped] show ?case by (simp add: p)
qed

subsection \<open>The histograms count what was observed\<close>

lemma bisect_left_le: "j < length bs \<Longrightarrow> sorted_wrt (<) bs \<Longrightarrow> bisect_left bs v \<le> j \<longleftrightarrow> v \<le> bs ! j"
proof (induction bs arbitrary: j)
  case (Cons b bs)
  show ?case
  proof (cases "b < v")
    case True
    with Cons show ?thesis by (cases j) (auto simp: bisect_left_def)
  next
    case False
    then have "v \<le> b" by simp
    moreover have "b < bs ! k" if "k < length bs" for k using that Cons.prems(2) by simp
    ultimately have "v \<le> bs ! k" if "k < length bs" for k using that by (meson less_le_trans less_imp_le order_trans)
    with False Cons.prems show ?thesis by (cases j) (auto simp: bisect_left_def)
  qed
qed simp

lemma running_totals_length [simp]: "length (running_totals s ns) = length ns"
  by (induction s ns rule: running_totals.induct) simp_all

lemma running_totals_nth: "j < length ns \<Longrightarrow> running_totals s ns ! j = s + sum_list (take (Suc j) ns)"
  by (induction ns arbitrary: s j) (auto simp: nth_Cons split: nat.split)

lemma sum_list_bump: "i < length ns \<Longrightarrow> sum_list (take k (ns[i := Suc (ns ! i)])) = sum_list (take k ns) + (if i < k then 1 else 0)"
proof (induction ns arbitrary: i k)
  case (Cons n ns)
  then show ?case by (cases i; cases k) auto
qed simp

definition observe_all :: "rat list \<Rightarrow> histogram" where
  "observe_all vs = foldl (\<lambda>h v. hist_observe v h) new_histogram vs"

lemma sorted_BUCKETS: "sorted_wrt (<) BUCKETS"
  by (simp add: BUCKETS_def)

lemma bisect_bound: "bisect_left BUCKETS v < Suc (length BUCKETS)"
  by (simp add: bisect_left_def length_takeWhile_le less_Suc_eq_le)

lemma observe_all_snoc: "observe_all (vs @ [v]) = hist_observe v (observe_all vs)"
  by (simp add: observe_all_def)

lemma observe_all_length: "length (hi_buckets (observe_all vs)) = Suc (length BUCKETS)"
  by (induction vs rule: rev_induct)
    (simp_all add: observe_all_snoc hist_observe_def Let_def, simp add: observe_all_def new_histogram_def)

lemma observe_totals:
  assumes "j < Suc (length BUCKETS)"
  shows "running_totals 0 (hi_buckets (observe_all (vs @ [v]))) ! j =
    running_totals 0 (hi_buckets (observe_all vs)) ! j + (if bisect_left BUCKETS (max 0 v) \<le> j then 1 else 0)"
proof -
  have "hi_buckets (observe_all (vs @ [v])) = (hi_buckets (observe_all vs))[bisect_left BUCKETS (max 0 v) :=
      Suc (hi_buckets (observe_all vs) ! bisect_left BUCKETS (max 0 v))]"
    by (simp add: observe_all_snoc hist_observe_def Let_def)
  with assms bisect_bound [of "max 0 v"] observe_all_length [of vs] show ?thesis
    by (simp add: running_totals_nth sum_list_bump)
qed

lemma no_totals: "j < Suc (length BUCKETS) \<Longrightarrow> running_totals 0 (hi_buckets (observe_all [])) ! j = 0"
proof -
  have "running_totals 0 (replicate n 0) = replicate n 0" for n by (induction n) simp_all
  then show "j < Suc (length BUCKETS) \<Longrightarrow> ?thesis"
    by (simp add: observe_all_def new_histogram_def del: replicate_Suc)
qed

lemma bound_totals:
  "j < length BUCKETS \<Longrightarrow>
    running_totals 0 (hi_buckets (observe_all vs)) ! j = length (filter (\<lambda>v. max 0 v \<le> BUCKETS ! j) vs)"
proof (induction vs rule: rev_induct)
  case Nil
  then show ?case by (simp add: no_totals)
next
  case (snoc v vs)
  then show ?case
    using observe_totals [of j vs v] bisect_left_le [OF snoc.prems sorted_BUCKETS, of "max 0 v"] by simp
qed

lemma last_total: "running_totals 0 (hi_buckets (observe_all vs)) ! length BUCKETS = length vs"
proof (induction vs rule: rev_induct)
  case Nil
  then show ?case by (simp add: no_totals)
next
  case (snoc v vs)
  then show ?case using observe_totals [of "length BUCKETS" vs v] bisect_bound [of "max 0 v"] by simp
qed

text \<open>
  A histogram's exposition is cumulative and complete: the line of each bound counts the
  observations at or below it, a negative one as 0, the last line counts all of them, and the sum is theirs.
\<close>

theorem histogram_cumulative:
  "running_totals 0 (hi_buckets (observe_all vs)) = map (\<lambda>b. length (filter (\<lambda>v. max 0 v \<le> b) vs)) BUCKETS @ [length vs] \<and>
    hi_count (observe_all vs) = length vs \<and> hi_sum (observe_all vs) = sum_list (map (max 0) vs)"
proof
  show "running_totals 0 (hi_buckets (observe_all vs)) = map (\<lambda>b. length (filter (\<lambda>v. max 0 v \<le> b) vs)) BUCKETS @ [length vs]"
    by (rule nth_equalityI) (auto simp: observe_all_length nth_append bound_totals less_Suc_eq last_total)
  show "hi_count (observe_all vs) = length vs \<and> hi_sum (observe_all vs) = sum_list (map (max 0) vs)"
    by (induction vs rule: rev_induct) (simp_all add: observe_all_snoc hist_observe_def Let_def,
        simp_all add: observe_all_def new_histogram_def)
qed

end
