(* ===== verification/Relay_Stream.thy ===== *)
theory Relay_Stream
  imports Engine_Client
begin

text \<open>
  The stream that the gateway sends, \<^verbatim>\<open>simple_serving/stream.py\<close>, and \<^verbatim>\<open>Generation._relay\<close>: each event
  of the engine is checked and new chunks are built from it. A translator that raised is not used
  again, so a call returns the chunks with the new translator, or the code. The identifier and the
  moment in the head of a chunk are fields of the translator; the relay's clock is left out of it, and
  \<open>measure\<close> has the moments as its arguments.
\<close>

subsection \<open>The translator\<close>

definition CHUNK_OBJECT :: string where
  "CHUNK_OBJECT = ''chat.completion.chunk''"

definition FINISH_REASONS :: "string list" where
  "FINISH_REASONS = [''stop'', ''length'']"

definition REASONING_FIELDS :: "string list" where
  "REASONING_FIELDS = [''reasoning_content'', ''reasoning'']"

definition DELTA_FIELDS :: "string list" where
  "DELTA_FIELDS = [''role'', ''content''] @ REASONING_FIELDS"

record usage =
  u_prompt :: int
  u_completion :: int
  u_cached :: "int option"

record translator =
  tr_alias :: string
  tr_head :: obj
  tr_finish :: "string option"
  tr_usage :: "usage option"
  tr_generated :: bool

definition new_translator :: "string \<Rightarrow> string \<Rightarrow> int \<Rightarrow> translator" where
  "new_translator alias token now =
    \<lparr>tr_alias = alias,
     tr_head = [(''id'', JStr (''chatcmpl-'' @ token)), (''object'', JStr CHUNK_OBJECT), (''created'', JInt now),
       (''model'', JStr alias)],
     tr_finish = None, tr_usage = None, tr_generated = False\<rparr>"

definition broken :: "'a result" where
  "broken = Inl Engine_unavailable"

definition as_count :: "json \<Rightarrow> int option" where
  "as_count v = (case v of JInt n \<Rightarrow> if 0 \<le> n then Some n else None | _ \<Rightarrow> None)"

definition usage_of :: "json \<Rightarrow> usage result" where
  "usage_of v =
    andthen (engine_object v) (\<lambda>ob.
    andthen (case jget ''prompt_tokens_details'' ob of JNull \<Rightarrow> Inr [] | d \<Rightarrow> engine_object d) (\<lambda>details.
    let cached = jget ''cached_tokens'' details
    in case (as_count (jget ''prompt_tokens'' ob), as_count (jget ''completion_tokens'' ob)) of
         (Some p, Some c) \<Rightarrow>
           if cached = JNull then Inr \<lparr>u_prompt = p, u_completion = c, u_cached = None\<rparr>
           else (case as_count cached of None \<Rightarrow> broken
             | Some n \<Rightarrow> Inr \<lparr>u_prompt = p, u_completion = c, u_cached = Some n\<rparr>)
       | _ \<Rightarrow> broken))"

text \<open>A delta as deltas of one field each. A null field is left out, and so is empty text.\<close>

definition text_field :: "string \<Rightarrow> obj \<Rightarrow> string" where
  "text_field name fs = (case jget name fs of JStr s \<Rightarrow> s | _ \<Rightarrow> [])"

definition reasoning_text :: "obj \<Rightarrow> string" where
  "reasoning_text fs =
    (case find (\<lambda>n. jhas n fs) REASONING_FIELDS of None \<Rightarrow> [] | Some n \<Rightarrow> text_field n fs)"

definition part_of :: "string \<Rightarrow> string \<Rightarrow> obj list" where
  "part_of name s = (if s \<noteq> [] then [[(name, JStr s)]] else [])"

definition delta_fields :: "obj \<Rightarrow> obj" where
  "delta_fields ob = filter (\<lambda>(n, v). v \<noteq> JNull) ob"

definition delta_parts :: "json \<Rightarrow> obj list result" where
  "delta_parts delta =
    andthen (engine_object delta) (\<lambda>ob.
    let fs = delta_fields ob
    in if \<not> set (map fst fs) \<subseteq> set DELTA_FIELDS \<or> jget_or ''role'' (JStr ''assistant'') fs \<noteq> JStr ''assistant''
       then broken
       else if list_ex (\<lambda>(n, v). n \<noteq> ''role'' \<and> as_str v = None) fs then broken
       else Inr ((if jhas ''role'' fs then [[(''role'', JStr ''assistant'')]] else []) @
              part_of ''reasoning_content'' (reasoning_text fs) @
              part_of ''content'' (text_field ''content'' fs)))"

definition chunk_of :: "obj \<Rightarrow> json \<Rightarrow> obj \<Rightarrow> json" where
  "chunk_of head finish delta =
    JObj (puts head [(''choices'', JList [JObj [(''index'', JInt 0), (''delta'', JObj delta), (''finish_reason'', finish)]])])"

definition finished_with :: "json \<Rightarrow> string option result" where
  "finished_with reason =
    (case reason of JNull \<Rightarrow> Inr None
     | JStr s \<Rightarrow> if s \<in> set FINISH_REASONS then Inr (Some s) else broken
     | _ \<Rightarrow> broken)"

text \<open>\<^verbatim>\<open>_choice\<close>. The last of the chunks carries the reason.\<close>

definition choice_chunks :: "translator \<Rightarrow> json \<Rightarrow> (json list \<times> translator) result" where
  "choice_chunks tr choice =
    andthen (engine_object choice) (\<lambda>ob.
    andthen (require (jget ''index'' ob = JInt 0) Engine_unavailable) (\<lambda>_.
    andthen (delta_parts (jget ''delta'' ob)) (\<lambda>parts.
    let reason = jget ''finish_reason'' ob
    in if tr_finish tr \<noteq> None
       then (if parts \<noteq> [] \<or> reason \<noteq> JNull then broken else Inr ([], tr))
       else andthen (finished_with reason) (\<lambda>finish.
         let tr1 = (if list_ex (\<lambda>p. map fst p \<noteq> [''role'']) parts then tr\<lparr>tr_generated := True\<rparr> else tr);
             ds = (if parts = [] then [[]] else parts)
         in Inr (map (chunk_of (tr_head tr) JNull) (butlast ds) @ [chunk_of (tr_head tr) reason (last ds)],
              (case finish of None \<Rightarrow> tr1 | Some f \<Rightarrow> tr1\<lparr>tr_finish := Some f\<rparr>))))))"

definition tr_chunks :: "translator \<Rightarrow> obj \<Rightarrow> (json list \<times> translator) result" where
  "tr_chunks tr ev =
    (if jhas ''error'' ev \<or> jget ''object'' ev \<noteq> JStr CHUNK_OBJECT \<or> jget ''model'' ev \<noteq> JStr (tr_alias tr) then broken
     else andthen (if jget ''usage'' ev = JNull then Inr tr
         else andthen (usage_of (jget ''usage'' ev)) (\<lambda>u. Inr (tr\<lparr>tr_usage := Some u\<rparr>))) (\<lambda>tr1.
       case jget ''choices'' ev of
         JList [] \<Rightarrow> Inr ([], tr1)
       | JList [c] \<Rightarrow> choice_chunks tr1 c
       | _ \<Rightarrow> broken))"

definition stream_end :: "translator \<Rightarrow> usage result" where
  "stream_end tr =
    (case (tr_finish tr, tr_usage tr) of (Some _, Some u) \<Rightarrow> Inr u | _ \<Rightarrow> broken)"

definition usage_chunk :: "translator \<Rightarrow> usage \<Rightarrow> obj \<Rightarrow> json" where
  "usage_chunk tr u measurements =
    JObj (puts (tr_head tr) [(''choices'', JList []), (''usage'', JObj (
      [(''prompt_tokens'', JInt (u_prompt u)), (''completion_tokens'', JInt (u_completion u))] @
      (case u_cached u of None \<Rightarrow> [] | Some n \<Rightarrow> [(''prompt_tokens_details'', JObj [(''cached_tokens'', JInt n)])]) @
      [(''simple_serving'', JObj measurements)]))])"

definition first_error :: "json \<Rightarrow> error_code" where
  "first_error error =
    (case error of
       JObj ob \<Rightarrow> (case jget ''code'' ob of JInt n \<Rightarrow> refusal n | _ \<Rightarrow> Engine_unavailable)
     | _ \<Rightarrow> Engine_unavailable)"

subsection \<open>The relay\<close>

text \<open>
  The events of the engine, with how they end, become the chunks that are sent after the head of the
  response, which goes out once the first event is found good, and the translator and the usage at the end.
\<close>

fun relay_loop :: "translator \<Rightarrow> obj list \<Rightarrow> unit result \<Rightarrow> json list \<times> (translator \<times> usage) result" where
  "relay_loop tr [] e = ([], andthen e (\<lambda>_. andthen (stream_end tr) (\<lambda>u. Inr (tr, u))))"
| "relay_loop tr (ev # evs) e =
    (case tr_chunks tr ev of
       Inl c \<Rightarrow> ([], Inl c)
     | Inr (cs, tr1) \<Rightarrow> (case relay_loop tr1 evs e of (sent, r) \<Rightarrow> (cs @ sent, r)))"

definition relay :: "translator \<Rightarrow> obj list \<Rightarrow> unit result \<Rightarrow> bool \<times> json list \<times> (translator \<times> usage) result" where
  "relay tr evs e =
    (case evs of
       [] \<Rightarrow> (False, [], andthen e (\<lambda>_. broken))
     | ev # _ \<Rightarrow>
         if jhas ''error'' ev then (False, [], Inl (first_error (jget ''error'' ev)))
         else (case tr_chunks tr ev of
             Inl c \<Rightarrow> (False, [], Inl c)
           | Inr _ \<Rightarrow> (True, relay_loop tr evs e)))"

text \<open>Whole milliseconds from the acceptance; a step not reached ends at the end.\<close>

definition ms_since :: "rat \<Rightarrow> rat \<Rightarrow> int" where
  "ms_since accepted moment = \<lfloor>(moment - accepted) * 1000\<rfloor>"

definition measure_times :: "rat \<Rightarrow> rat option \<Rightarrow> rat option \<Rightarrow> rat \<Rightarrow> obj" where
  "measure_times accepted handed first finish =
    (let ms = (\<lambda>m. JInt (ms_since accepted (case m of None \<Rightarrow> finish | Some x \<Rightarrow> x)))
     in [(''wait_ms'', ms handed), (''first_token_ms'', ms first), (''total_ms'', ms (Some finish))])"

subsection \<open>What the client reads\<close>

text \<open>The text that an event of the engine, and a chunk that is sent, hold in a field.\<close>

definition only_choice :: "obj \<Rightarrow> obj" where
  "only_choice ev = (case jget ''choices'' ev of JList [JObj c] \<Rightarrow> c | _ \<Rightarrow> [])"

definition sent_text :: "string \<Rightarrow> json \<Rightarrow> string" where
  "sent_text name chunk =
    (case chunk of JObj ob \<Rightarrow> (case jget ''delta'' (only_choice ob) of JObj d \<Rightarrow> text_field name d | _ \<Rightarrow> []) | _ \<Rightarrow> [])"

definition engine_text :: "obj \<Rightarrow> string" where
  "engine_text ev =
    (case jget ''delta'' (only_choice ev) of JObj d \<Rightarrow> text_field ''content'' (delta_fields d) | _ \<Rightarrow> [])"

definition engine_reasoning :: "obj \<Rightarrow> string" where
  "engine_reasoning ev =
    (case jget ''delta'' (only_choice ev) of JObj d \<Rightarrow> reasoning_text (delta_fields d) | _ \<Rightarrow> [])"

definition good_delta :: "obj \<Rightarrow> bool" where
  "good_delta d \<longleftrightarrow> d = [] \<or> d = [(''role'', JStr ''assistant'')] \<or>
    (\<exists>n s. n \<in> {''reasoning_content'', ''content''} \<and> s \<noteq> [] \<and> d = [(n, JStr s)])"

text \<open>A chunk built on the translator's head, with one of the deltas of contract section 4.\<close>

definition good_chunk :: "obj \<Rightarrow> bool \<Rightarrow> json \<Rightarrow> bool" where
  "good_chunk head last_one c \<longleftrightarrow> (\<exists>f d. c = chunk_of head f d \<and> good_delta d \<and>
     (if last_one then f \<in> JStr ` set FINISH_REASONS else f = JNull))"

definition good_head :: "obj \<Rightarrow> bool" where
  "good_head head \<longleftrightarrow> \<not> jhas ''choices'' head"

lemma jget_chunk: "good_head head \<Longrightarrow> only_choice (puts head [(''choices'', JList [JObj c])]) = c"
  by (simp add: good_head_def only_choice_def puts_def jput_def jget_def jhas_def map_add_def split: option.split)

lemma sent_text_chunk: "good_head head \<Longrightarrow> sent_text name (chunk_of head f d) = text_field name d"
  by (simp add: sent_text_def chunk_of_def jget_chunk) (simp add: jget_def)

lemma part_of_facts: "n \<in> {''reasoning_content'', ''content''} \<Longrightarrow> list_all good_delta (part_of n s)"
  "[] \<notin> set (part_of n s)" "concat (map (text_field m) (part_of n s)) = (if m = n then s else [])"
  by (auto simp: part_of_def good_delta_def text_field_def jget_def)

lemma delta_parts_Inr:
  assumes "delta_parts delta = Inr parts"
  obtains ob where "delta = JObj ob" "list_all good_delta parts" "[] \<notin> set parts"
    "concat (map (text_field ''content'') parts) = text_field ''content'' (delta_fields ob)"
    "concat (map (text_field ''reasoning_content'') parts) = reasoning_text (delta_fields ob)"
proof -
  obtain ob where ob: "delta = JObj ob"
    and p: "parts = (if jhas ''role'' (delta_fields ob) then [[(''role'', JStr ''assistant'')]] else []) @
              part_of ''reasoning_content'' (reasoning_text (delta_fields ob)) @
              part_of ''content'' (text_field ''content'' (delta_fields ob))"
    using assms by (cases delta) (auto simp: delta_parts_def engine_object_def broken_def Let_def split: if_splits)
  show thesis
    by (rule that [OF ob]) (auto simp: p part_of_facts good_delta_def text_field_def jget_def)
qed

definition chunks_ok :: "translator \<Rightarrow> translator \<Rightarrow> json list \<Rightarrow> bool" where
  "chunks_ok tr tr1 cs \<longleftrightarrow>
    (if tr_finish tr \<noteq> None then cs = [] \<and> tr_finish tr1 = tr_finish tr
     else if tr_finish tr1 = None then list_all (good_chunk (tr_head tr) False) cs
     else cs \<noteq> [] \<and> list_all (good_chunk (tr_head tr) False) (butlast cs) \<and> good_chunk (tr_head tr) True (last cs))"

definition same_texts :: "obj list \<Rightarrow> json list \<Rightarrow> bool" where
  "same_texts evs cs \<longleftrightarrow>
    concat (map (sent_text ''content'') cs) = concat (map engine_text evs) \<and>
    concat (map (sent_text ''reasoning_content'') cs) = concat (map engine_reasoning evs)"

lemma choice_chunks_Inr:
  assumes "choice_chunks tr choice = Inr (cs, tr1)" and "good_head (tr_head tr)"
    and "jget ''choices'' ev = JList [choice]"
  shows "tr_head tr1 = tr_head tr \<and> chunks_ok tr tr1 cs \<and> same_texts [ev] cs"
proof -
  obtain ob parts where ob: "choice = JObj ob" and p: "delta_parts (jget ''delta'' ob) = Inr parts"
    and r: "(if tr_finish tr \<noteq> None
       then (if parts \<noteq> [] \<or> jget ''finish_reason'' ob \<noteq> JNull then broken else Inr ([], tr))
       else andthen (finished_with (jget ''finish_reason'' ob)) (\<lambda>finish.
         let tr1 = (if list_ex (\<lambda>p. map fst p \<noteq> [''role'']) parts then tr\<lparr>tr_generated := True\<rparr> else tr);
             ds = (if parts = [] then [[]] else parts)
         in Inr (map (chunk_of (tr_head tr) JNull) (butlast ds) @ [chunk_of (tr_head tr) (jget ''finish_reason'' ob) (last ds)],
              (case finish of None \<Rightarrow> tr1 | Some f \<Rightarrow> tr1\<lparr>tr_finish := Some f\<rparr>)))) = Inr (cs, tr1)"
    using assms(1) by (cases choice) (auto simp: choice_chunks_def engine_object_def Let_def)
  obtain d where d: "jget ''delta'' ob = JObj d" "list_all good_delta parts"
    "concat (map (text_field ''content'') parts) = text_field ''content'' (delta_fields d)"
    "concat (map (text_field ''reasoning_content'') parts) = reasoning_text (delta_fields d)"
    using delta_parts_Inr [OF p] by blast
  have c: "only_choice ev = ob" using assms(3) ob by (simp add: only_choice_def)
  then have t: "engine_text ev = concat (map (text_field ''content'') parts)"
    "engine_reasoning ev = concat (map (text_field ''reasoning_content'') parts)"
    by (simp_all add: engine_text_def engine_reasoning_def d)
  show ?thesis
  proof (cases "tr_finish tr")
    case (Some f)
    with r have "parts = []" "cs = []" "tr1 = tr" by (auto simp: broken_def split: if_splits)
    with Some t show ?thesis by (simp add: chunks_ok_def same_texts_def)
  next
    case None
    define ds where "ds = (if parts = [] then [[]] else parts)"
    have ds: "ds \<noteq> []" "list_all good_delta ds" "concat (map (text_field n) ds) = concat (map (text_field n) parts)" for n
      using d(2) by (auto simp: ds_def good_delta_def text_field_def jget_def)
    obtain finish where f: "finished_with (jget ''finish_reason'' ob) = Inr finish"
      using None r by (cases "finished_with (jget ''finish_reason'' ob)") simp_all
    have cs: "cs = map (chunk_of (tr_head tr) JNull) (butlast ds) @ [chunk_of (tr_head tr) (jget ''finish_reason'' ob) (last ds)]"
      using r None f by (simp add: Let_def ds_def)
    have tr1: "tr_head tr1 = tr_head tr" "tr_finish tr1 = finish"
      using r None f by (cases finish; auto simp: Let_def)+
    have g: "list_all good_delta (butlast ds)" "good_delta (last ds)"
      using ds(1,2) by (auto simp: list_all_iff dest: in_set_butlastD)
    have "good_chunk (tr_head tr) (finish \<noteq> None) (last cs)"
    proof -
      have "(if finish \<noteq> None then jget ''finish_reason'' ob \<in> JStr ` set FINISH_REASONS
          else jget ''finish_reason'' ob = JNull)"
        using f by (cases "jget ''finish_reason'' ob") (auto simp: finished_with_def broken_def split: if_splits)
      with g(2) show ?thesis unfolding good_chunk_def cs last_snoc by blast
    qed
    moreover have "list_all (good_chunk (tr_head tr) False) (butlast cs)"
      using g(1) unfolding cs by (auto simp: list_all_iff good_chunk_def)
    moreover have "cs = butlast cs @ [last cs]" using cs by simp
    then have "list_all (good_chunk (tr_head tr) False) cs \<longleftrightarrow>
        list_all (good_chunk (tr_head tr) False) (butlast cs) \<and> good_chunk (tr_head tr) False (last cs)"
      by (metis list_all_append list.pred_inject)
    moreover have "concat (map (sent_text n) cs) = concat (map (text_field n) ds)" for n
    proof -
      have "concat (map (sent_text n) cs) = concat (map (text_field n) (butlast ds @ [last ds]))"
        unfolding cs using assms(2) by (simp add: sent_text_chunk o_def)
      with ds(1) show ?thesis by simp
    qed
    ultimately show ?thesis
      using None tr1 t ds(3) by (cases finish) (simp_all add: chunks_ok_def same_texts_def cs)
  qed
qed

lemma tr_chunks_Inr:
  assumes "tr_chunks tr ev = Inr (cs, tr1)" and "good_head (tr_head tr)"
  shows "tr_head tr1 = tr_head tr \<and> chunks_ok tr tr1 cs \<and> same_texts [ev] cs"
proof -
  obtain tr0 where u: "(if jget ''usage'' ev = JNull then Inr tr
         else andthen (usage_of (jget ''usage'' ev)) (\<lambda>u. Inr (tr\<lparr>tr_usage := Some u\<rparr>))) = Inr tr0"
    and r: "(case jget ''choices'' ev of JList [] \<Rightarrow> Inr ([], tr0) | JList [c] \<Rightarrow> choice_chunks tr0 c | _ \<Rightarrow> broken) = Inr (cs, tr1)"
    using assms(1) unfolding tr_chunks_def by (auto simp: broken_def simp del: andthen_Inr_iff elim: andthenE split: if_splits)
  from u have tr0: "tr_head tr0 = tr_head tr" "tr_finish tr0 = tr_finish tr" by (auto split: if_splits)
  obtain l where l: "jget ''choices'' ev = JList l" using r by (cases "jget ''choices'' ev") (simp_all add: broken_def)
  show ?thesis
  proof (cases l)
    case Nil
    with r l have e: "cs = []" "tr1 = tr0" by simp_all
    from l Nil have "only_choice ev = []" by (simp add: only_choice_def)
    with e tr0 show ?thesis
      by (simp add: chunks_ok_def same_texts_def engine_text_def engine_reasoning_def jget_def)
  next
    case (Cons c l')
    with r l have c: "choice_chunks tr0 c = Inr (cs, tr1)" and "l' = []"
      by (cases l'; simp add: broken_def)+
    with l Cons choice_chunks_Inr [OF c, of ev] assms(2) tr0 show ?thesis by (auto simp: chunks_ok_def split: if_splits)
  qed
qed

lemma relay_loop_Inr:
  assumes "relay_loop tr evs e = (sent, Inr (tr1, u))" and "good_head (tr_head tr)"
  shows "same_texts evs sent \<and> tr_finish tr1 \<noteq> None \<and> tr_usage tr1 = Some u \<and> tr_head tr1 = tr_head tr \<and> chunks_ok tr tr1 sent"
  using assms
proof (induction evs arbitrary: tr sent)
  case Nil
  then show ?case
    by (auto simp: same_texts_def chunks_ok_def stream_end_def broken_def split: option.splits)
next
  case (Cons ev evs)
  obtain cs tr0 where c: "tr_chunks tr ev = Inr (cs, tr0)"
    using Cons.prems(1) by (cases "tr_chunks tr ev") auto
  then obtain sent' where s: "relay_loop tr0 evs e = (sent', Inr (tr1, u))" and sent: "sent = cs @ sent'"
    using Cons.prems(1) by (auto split: prod.splits)
  note t = tr_chunks_Inr [OF c Cons.prems(2)]
  have i: "same_texts evs sent'" "tr_finish tr1 \<noteq> None" "tr_usage tr1 = Some u" "tr_head tr1 = tr_head tr0" "chunks_ok tr0 tr1 sent'"
    using Cons.IH [OF s] t Cons.prems(2) by simp_all
  have "same_texts (ev # evs) sent" using t i(1) by (simp add: same_texts_def sent)
  moreover have "chunks_ok tr tr1 sent"
    using t i(2,5) by (auto simp: chunks_ok_def sent butlast_append split: if_splits)
  ultimately show ?case using t i by simp
qed

text \<open>
  C13: A stream that ends well tells the client what the engine told the gateway, and nothing else. The
  texts of \<^verbatim>\<open>content\<close> and of the reasoning, in order, are the engine's; every chunk is built on the
  gateway's own head with an empty delta or one allowed field; the last chunk carries the finish
  reason, and no other does.
\<close>

theorem relay_faithful:
  assumes "relay (new_translator alias token now) evs e = (True, sent, Inr (tr, u))"
  shows "concat (map (sent_text ''content'') sent) = concat (map engine_text evs) \<and>
    concat (map (sent_text ''reasoning_content'') sent) = concat (map engine_reasoning evs) \<and>
    sent \<noteq> [] \<and> list_all (good_chunk (tr_head tr) False) (butlast sent) \<and> good_chunk (tr_head tr) True (last sent) \<and>
    tr_head tr = tr_head (new_translator alias token now)"
proof -
  let ?tr = "new_translator alias token now"
  have h: "good_head (tr_head ?tr)" "tr_finish ?tr = None" by (simp_all add: new_translator_def good_head_def jhas_def)
  have "relay_loop ?tr evs e = (sent, Inr (tr, u))"
    using assms by (auto simp: relay_def split: list.splits if_splits sum.splits)
  from relay_loop_Inr [OF this h(1)] h(2) show ?thesis by (simp add: same_texts_def chunks_ok_def)
qed

lemma engine_object_fails [intro]: "only_fails Engine_unavailable (engine_object v)"
  unfolding engine_object_def by (auto split: json.split)

lemma usage_of_fails [intro]: "only_fails Engine_unavailable (usage_of v)"
  unfolding usage_of_def Let_def broken_def by (intro fails_in_intros(4)) (auto split: json.split option.split)

lemma delta_parts_fails [intro]: "only_fails Engine_unavailable (delta_parts v)"
  unfolding delta_parts_def Let_def broken_def by (intro fails_in_intros(4)) auto

lemma finished_with_fails [intro]: "only_fails Engine_unavailable (finished_with v)"
  unfolding finished_with_def broken_def by (auto split: json.split)

lemma choice_chunks_fails [intro]: "only_fails Engine_unavailable (choice_chunks tr v)"
  unfolding choice_chunks_def Let_def broken_def by (intro fails_in_intros(4)) (auto split: option.split)

lemma tr_chunks_fails: "only_fails Engine_unavailable (tr_chunks tr ev)"
  unfolding tr_chunks_def broken_def by (auto split: json.split list.split intro!: fails_in_intros(4))

text \<open>
  What the client of a generation is told when its stream fails before the first chunk: the status
  that the engine names in an error event decides as a status of its own does, and all else the engine
  sends there makes the engine unavailable.
\<close>

theorem relay_refused:
  assumes "relay (new_translator alias token now) evs e = (False, sent, r)"
  shows "sent = [] \<and> (\<exists>c. r = Inl c \<and> (e = Inl c \<and> evs = [] \<or> c = Engine_unavailable \<or>
    c = Invalid_request \<and> (\<exists>ev rest ob n. evs = ev # rest \<and> jget ''error'' ev = JObj ob \<and>
      jget ''code'' ob = JInt n \<and> n \<in> {400, 422})))"
proof -
  have b: "c = Engine_unavailable" if "tr_chunks tr ev = Inl c" for tr ev c
    using tr_chunks_fails that by (rule fails_inD)
  show ?thesis
  proof (cases evs)
    case Nil
    with assms show ?thesis by (cases e) (auto simp: relay_def broken_def)
  next
    case (Cons ev rest)
    show ?thesis
    proof (cases "jhas ''error'' ev")
      case True
      have "first_error v = Engine_unavailable \<or> first_error v = Invalid_request \<and>
          (\<exists>ob n. v = JObj ob \<and> jget ''code'' ob = JInt n \<and> n \<in> {400, 422})" for v
        by (auto simp: first_error_def refusal_def split: json.splits)
      with True Cons assms show ?thesis by (auto simp: relay_def)
    next
      case False
      with Cons assms show ?thesis by (auto simp: relay_def split: sum.splits dest: b)
    qed
  qed
qed

subsection \<open>A concrete stream\<close>

definition sample_event :: "json \<Rightarrow> json \<Rightarrow> obj" where
  "sample_event delta reason = [(''object'', JStr CHUNK_OBJECT), (''model'', JStr ''m''),
     (''choices'', JList [JObj [(''index'', JInt 0), (''delta'', delta), (''finish_reason'', reason)]])]"

definition sample_events :: "obj list" where
  "sample_events =
    [sample_event (JObj [(''role'', JStr ''assistant''), (''content'', JStr ''he'')]) JNull,
     sample_event (JObj [(''content'', JStr ''llo'')]) (JStr ''stop''),
     [(''object'', JStr CHUNK_OBJECT), (''model'', JStr ''m''), (''choices'', JList []),
      (''usage'', JObj [(''prompt_tokens'', JInt 3), (''completion_tokens'', JInt 2)])]]"

lemma sample_relay:
  "(case relay (new_translator ''m'' ''t'' 0) sample_events (Inr ()) of
      (b, sent, Inr (tr, u)) \<Rightarrow> b \<and> length sent = 3 \<and> u = \<lparr>u_prompt = 3, u_completion = 2, u_cached = None\<rparr>
    | _ \<Rightarrow> False)"
  by code_simp

theorem relay_faithful_witness:
  "\<exists>sent r. relay (new_translator ''m'' ''t'' 0) sample_events (Inr ()) = (True, sent, r) \<and>
    concat (map (sent_text ''content'') sent) = ''hello''"
proof -
  obtain sent tr u where r: "relay (new_translator ''m'' ''t'' 0) sample_events (Inr ()) = (True, sent, Inr (tr, u))"
    using sample_relay by (auto split: prod.splits sum.splits)
  have "concat (map engine_text sample_events) = ''hello''"
    by (simp add: sample_events_def sample_event_def engine_text_def only_choice_def jget_def text_field_def delta_fields_def)
  with relay_faithful [OF r] r show ?thesis by simp
qed

theorem relay_refused_witness:
  "\<exists>r. relay (new_translator ''m'' ''t'' 0) [[(''error'', JObj [(''code'', JInt 400)])]] (Inr ()) = (False, [], r)"
proof -
  have "\<exists>sent r. relay (new_translator ''m'' ''t'' 0) [[(''error'', JObj [(''code'', JInt 400)])]] (Inr ()) = (False, sent, r)"
    by (simp add: relay_def jhas_def)
  then show ?thesis using relay_refused by blast
qed

end
