(* ===== verification/Control_Routes.thy ===== *)
theory Control_Routes
  imports Request_Metrics Relay_Stream
begin

text \<open>
  The routes that do no inference, \<^verbatim>\<open>simple_serving/routes.py\<close>, with the answers of
  \<^verbatim>\<open>simple_serving/service.py\<close>, and the last resort around every request, \<^verbatim>\<open>Guard\<close> of
  \<^verbatim>\<open>simple_serving/app.py\<close>. A route takes the request's headers and the messages of its body and returns
  the exchange with its answer; a control route also returns the service's new state. \<open>repr\<close>, \<open>loads\<close>
  and \<open>sha256\<close> are the digits of a float, the decoder and the digest. The sends of these routes are
  not cut short here.
\<close>

definition whole :: nat where
  "whole = 2"

definition answer_error :: "(rat \<Rightarrow> string) \<Rightarrow> error_code \<Rightarrow> exchange \<Rightarrow> exchange" where
  "answer_error repr c x = send_error repr whole c x"

subsection \<open>Answers of the service\<close>

definition CONTRACT :: string where
  "CONTRACT = ''2''"

definition counts_json :: "(cls \<times> int) list \<Rightarrow> json" where
  "counts_json counts = JObj (map (\<lambda>(c, n). (cls_name c, JInt n)) counts)"

definition models_json :: "string \<times> int \<Rightarrow> json" where
  "models_json = (\<lambda>(alias, n). JObj [(''object'', JStr ''list''), (''data'', JList [JObj
     [(''id'', JStr alias), (''object'', JStr ''model''), (''max_model_len'', JInt n)]])])"

definition opt_int :: "int option \<Rightarrow> json" where
  "opt_int v = (case v of None \<Rightarrow> JNull | Some n \<Rightarrow> JInt n)"

text \<open>\<^verbatim>\<open>_versions\<close>: the packages' and Python's own, which the configuration's entries override.\<close>

definition versions_of :: "config \<Rightarrow> (string \<times> string) list \<Rightarrow> string \<Rightarrow> obj" where
  "versions_of cfg packages python =
    puts [] (map (\<lambda>(n, v). (n, JStr v)) (packages @ [(''python'', python)] @ c_versions cfg))"

definition state_json :: "obj \<Rightarrow> state_answer \<Rightarrow> json" where
  "state_json versions a = JObj (
    [(''contract'', JStr CONTRACT), (''boot_id'', JStr (st_boot_id a)), (''status'', JStr (status_name (st_status a))),
     (''model'', JStr (st_model a)), (''context_tokens'', opt_int (st_context_tokens a)),
     (''drain_generation'', JInt (st_drain_generation a))] @
    (case st_control a of None \<Rightarrow> []
     | Some c \<Rightarrow>
         [(''sleep_requested'', JBool (cs_sleep_requested c)), (''active'', counts_json (cs_active c)),
          (''waiting'', counts_json (cs_waiting c)), (''versions'', JObj versions)] @
         (if cs_unavailable_fields c = [] then []
          else [(''unavailable_fields'', JList (map JStr (cs_unavailable_fields c)))])))"

definition control_json :: "service_status \<times> string \<times> int \<Rightarrow> json" where
  "control_json = (\<lambda>(st, boot, generation).
     JObj [(''status'', JStr (status_name st)), (''boot_id'', JStr boot), (''drain_generation'', JInt generation)])"

definition service_payload ::
  "(string \<Rightarrow> string \<Rightarrow> string) \<Rightarrow> string \<Rightarrow> config \<Rightarrow> caller \<Rightarrow> chat_request \<Rightarrow> obj"
where
  "service_payload hmac secret cfg ca r =
    generation_payload (c_alias cfg) r (c_engine_priority cfg (ca_cls ca)) (cache_salt hmac secret ca)"

subsection \<open>Routes\<close>

record request =
  rq_headers :: "(string \<times> string) list"
  rq_messages :: "receive_message list"

definition authorization :: "request \<Rightarrow> string option" where
  "authorization rq = map_of (rq_headers rq) ''authorization''"

definition answered_with :: "(rat \<Rightarrow> string) \<Rightarrow> ('a \<Rightarrow> exchange \<Rightarrow> exchange) \<Rightarrow> 'a result \<Rightarrow> exchange \<Rightarrow> exchange" where
  "answered_with repr send r x = (case r of Inl c \<Rightarrow> answer_error repr c x | Inr v \<Rightarrow> send v x)"

definition models_route ::
  "(rat \<Rightarrow> string) \<Rightarrow> (string \<Rightarrow> string) \<Rightarrow> config \<Rightarrow> request \<Rightarrow> text_service \<Rightarrow> exchange \<Rightarrow> exchange"
where
  "models_route repr sha256 cfg rq s =
    answered_with repr (\<lambda>v. send_json repr whole 200 (models_json v))
      (andthen (authenticate sha256 (c_keys cfg) (authorization rq)) (\<lambda>_. models cfg s))"

definition state_route ::
  "(rat \<Rightarrow> string) \<Rightarrow> (string \<Rightarrow> string) \<Rightarrow> config \<Rightarrow> obj \<Rightarrow> request \<Rightarrow> text_service \<Rightarrow> exchange \<Rightarrow> exchange"
where
  "state_route repr sha256 cfg versions rq s =
    answered_with repr (\<lambda>k. send_json repr whole 200 (state_json versions (state_of cfg (k_control k) s)))
      (authenticate sha256 (c_keys cfg) (authorization rq))"

definition may_read_metrics :: "(string \<Rightarrow> string) \<Rightarrow> key list \<Rightarrow> request \<Rightarrow> unit result" where
  "may_read_metrics sha256 ks rq =
    andthen (authenticate sha256 ks (authorization rq)) (\<lambda>k. require (k_metrics k \<or> k_control k) Forbidden)"

definition metrics_route ::
  "(rat \<Rightarrow> string) \<Rightarrow> (string \<Rightarrow> string) \<Rightarrow> key list \<Rightarrow> string \<Rightarrow> request \<Rightarrow> exchange \<Rightarrow> exchange"
where
  "metrics_route repr sha256 ks rendered rq =
    answered_with repr (\<lambda>_. send_text whole 200 rendered ''text/plain; version=0.0.4; charset=utf-8'')
      (may_read_metrics sha256 ks rq)"

definition engine_metrics_route ::
  "(rat \<Rightarrow> string) \<Rightarrow> (string \<Rightarrow> string) \<Rightarrow> key list \<Rightarrow> (int \<times> string \<times> string list \<times> body_end) option \<Rightarrow>
   request \<Rightarrow> exchange \<Rightarrow> exchange"
where
  "engine_metrics_route repr sha256 ks answer rq =
    answered_with repr (\<lambda>(body, content_type). send_text whole 200 body content_type)
      (andthen (may_read_metrics sha256 ks rq) (\<lambda>_. engine_metrics answer))"

text \<open>
  A control route. \<open>None\<close> is a request whose client has left or whose body has not come yet; the action
  takes effect before its answer is sent.
\<close>

definition CONTROL_BODY_LIMIT :: nat where
  "CONTROL_BODY_LIMIT = 4096"

definition control_body_of :: "(string \<Rightarrow> json_doc option) \<Rightarrow> request \<Rightarrow> json result option" where
  "control_body_of loads rq =
    (case read_body CONTROL_BODY_LIMIT (rq_headers rq) (rq_messages rq) of
       Body b \<Rightarrow> Some (parse_json loads b)
     | Too_large \<Rightarrow> Some (Inl Body_too_large)
     | _ \<Rightarrow> None)"

definition control_key :: "(string \<Rightarrow> string) \<Rightarrow> key list \<Rightarrow> request \<Rightarrow> unit result" where
  "control_key sha256 ks rq =
    andthen (authenticate sha256 ks (authorization rq)) (\<lambda>k. require (k_control k) Forbidden)"

definition control_route ::
  "(rat \<Rightarrow> string) \<Rightarrow> (string \<Rightarrow> string) \<Rightarrow> (string \<Rightarrow> json_doc option) \<Rightarrow> key list \<Rightarrow> nat \<Rightarrow>
   (json \<Rightarrow> 'a lifecycle_scheme \<Rightarrow> 'a lifecycle_scheme result) \<Rightarrow>
   request \<Rightarrow> 'a lifecycle_scheme \<Rightarrow> exchange \<Rightarrow> 'a lifecycle_scheme \<times> exchange"
where
  "control_route repr sha256 loads ks ok act rq s x =
    (case control_key sha256 ks rq of
       Inl c \<Rightarrow> (s, answer_error repr c x)
     | Inr _ \<Rightarrow>
         (case control_body_of loads rq of
            None \<Rightarrow> (s, x)
          | Some r \<Rightarrow>
              (case andthen r (\<lambda>v. act v s) of
                 Inl c \<Rightarrow> (s, answer_error repr c x)
               | Inr s1 \<Rightarrow> (s1, send_json repr whole ok (control_json (control_answer s1)) x))))"

definition drain_route where
  "drain_route repr sha256 loads lane now =
    control_route repr sha256 loads (ln_keys lane) 202 (\<lambda>v s. andthen (check_boot v) (\<lambda>boot. drain lane now boot s))"

definition sleep_route where
  "sleep_route repr sha256 loads lane now =
    control_route repr sha256 loads (ln_keys lane) 202 (\<lambda>v s. andthen (check_boot v) (\<lambda>boot. sleep lane now boot s))"

definition open_route where
  "open_route repr sha256 loads lane =
    control_route repr sha256 loads (ln_keys lane) 200
      (\<lambda>v s. andthen (check_open v) (\<lambda>(boot, generation). open_service boot generation s))"

text \<open>
  A refusal of an inference request: past the deadline only what the connection takes at once goes out
  (\<open>taken\<close>), and a refusal that is given up marks the request as cancelled.
\<close>

definition refuse_request :: "(rat \<Rightarrow> string) \<Rightarrow> nat \<Rightarrow> error_code \<Rightarrow> exchange \<Rightarrow> exchange \<times> bool" where
  "refuse_request repr taken c x = (send_error repr taken c x, taken < whole \<and> \<not> x_ending x)"

subsection \<open>The outermost layer\<close>

text \<open>
  What the application does with a request: it returns or it raises an exception, after the messages
  it has sent. The guard notes the status and answers itself where it refuses the connection, and where
  an exception comes before any status. A last answer that fails is suppressed (\<open>None\<close>).
\<close>

record guard_result =
  gr_sent :: "send_message list"
  gr_status :: "nat option"
  gr_code :: "error_code option"
  gr_exception :: "string option"
  gr_escaped :: bool

definition status_noted :: "send_message list \<Rightarrow> nat option" where
  "status_noted ms = (case [st. Response_start st headers \<leftarrow> ms] of [] \<Rightarrow> None | sts \<Rightarrow> Some (last sts))"

definition guard_answer :: "(rat \<Rightarrow> string) \<Rightarrow> error_code \<Rightarrow> bool \<Rightarrow> send_message list" where
  "guard_answer repr c closing =
    json_response repr (status_of c) (error_body c) (if closing then [(''connection'', ''close'')] else [])"

definition guard_call ::
  "(rat \<Rightarrow> string) \<Rightarrow> nat option \<Rightarrow> nat \<Rightarrow> send_message list \<times> error_code option \<times> string option \<Rightarrow> guard_result"
where
  "guard_call repr max_connections open_now outcome =
    (if (case max_connections of None \<Rightarrow> False | Some n \<Rightarrow> open_now > n)
     then \<lparr>gr_sent = guard_answer repr Queue_full True, gr_status = Some (status_of Queue_full),
       gr_code = Some Queue_full, gr_exception = None, gr_escaped = False\<rparr>
     else case outcome of (sent, code, exc) \<Rightarrow>
       let st = status_noted sent
       in if exc = None
          then \<lparr>gr_sent = sent, gr_status = st, gr_code = code, gr_exception = None, gr_escaped = False\<rparr>
          else if st = None
          then \<lparr>gr_sent = sent @ guard_answer repr Internal_error False, gr_status = Some 500,
            gr_code = Some Internal_error, gr_exception = exc, gr_escaped = True\<rparr>
          else \<lparr>gr_sent = sent, gr_status = st, gr_code = code, gr_exception = exc, gr_escaped = True\<rparr>)"

text \<open>\<^verbatim>\<open>_http_error\<close>: the code for an exception of the routing, an unknown path or a method that a route does not serve.\<close>

definition http_error_code :: "int \<Rightarrow> error_code" where
  "http_error_code st =
    (if st = 404 \<or> st = 405 then Not_found else if st < 500 then Invalid_request else Internal_error)"

subsection \<open>Authority\<close>

lemma control_route_Inr:
  "control_route repr sha256 loads ks ok act rq s x = (s1, y) \<Longrightarrow> s1 \<noteq> s \<Longrightarrow>
    \<exists>k v. find_key sha256 ks (authorization rq) = Some k \<and> k_control k \<and>
      control_body_of loads rq = Some (Inr v) \<and> act v s = Inr s1 \<and>
      y = send_json repr whole ok (control_json (control_answer s1)) x"
  by (auto simp: control_route_def control_key_def authenticate_def andthen_Inl_iff split: sum.splits option.splits)


definition sample_drain_request :: request where
  "sample_drain_request = \<lparr>rq_headers = [(''authorization'', ''bearer d3'')], rq_messages = [Request_body ''{}'' False]\<rparr>"

definition sample_drain_body :: "string \<Rightarrow> json_doc option" where
  "sample_drain_body = (\<lambda>_. Some (DObj [(''boot_id'', DStr ''b'')]))"

lemma sample_drain_effect:
  "\<exists>s1 y. drain_route (\<lambda>_. ''0'') id sample_drain_body (text_lane sample_config) 5 sample_drain_request (service_init ''b'')
    new_exchange = (s1, y) \<and> l_draining s1"
proof -
  have "control_key id (c_keys sample_config) sample_drain_request = Inr ()"
    by (simp add: control_key_def authenticate_def authorization_def sample_drain_request_def find_key_def bytes_lower_def
        less_eq_char_def sample_simps require_def)
  moreover have "control_body_of sample_drain_body sample_drain_request = Some (Inr (JObj [(''boot_id'', JStr ''b'')]))"
    by (simp add: control_body_of_def read_body_def sample_drain_request_def CONTROL_BODY_LIMIT_def parse_json_def
        sample_drain_body_def depth_eq_nesting MAX_DEPTH_def require_def)
  moreover have "check_boot (JObj [(''boot_id'', JStr ''b'')]) = Inr ''b''"
    by (simp add: check_boot_def control_body_def require_def jget_def)
  moreover have "ln_keys (text_lane sample_config) = c_keys sample_config" by (simp add: text_lane_def)
  moreover have "drain (text_lane sample_config) 5 ''b'' (service_init ''b'') =
      Inr (close (text_lane sample_config) 5 (service_init ''b''))"
    by (simp add: drain_def check_boot_id_def require_def service_init_def lifecycle.extend_def lifecycle_init_def)
  moreover have "l_draining (close (text_lane sample_config) 5 (service_init ''b''))"
    by (simp add: close_def service_init_def lifecycle.extend_def lifecycle_init_def Let_def)
  ultimately show ?thesis by (simp add: drain_route_def control_route_def)
qed


subsection \<open>The last resort\<close>

lemma status_noted_prefix:
  "response_prefix ms \<Longrightarrow> status_noted ms = None \<longleftrightarrow> ms = []"
  by (cases ms) (auto simp: response_prefix_def status_noted_def split: list.splits send_message.splits
      elim: is_body.elims)

text \<open>
  C17: No exception of a handler leaves the client of a listener without an answer: where nothing was sent,
  the guard sends \<^verbatim>\<open>internal_error\<close>, and where a response had begun it adds nothing, so that what goes out
  is still a response of ASGI or the beginning of one, and the status in the row is the one that was sent.
\<close>

theorem guard_last_resort:
  assumes "response_prefix sent" and "guard_call repr limit open_now (sent, code, exc) = r"
  shows "response_prefix (gr_sent r) \<and> gr_status r = status_noted (gr_sent r) \<and>
    (exc \<noteq> None \<longrightarrow> gr_status r \<noteq> None)"
proof -
  have g: "response_prefix (guard_answer repr c b)" "status_noted (guard_answer repr c b) = Some (status_of c)" for c b
    by (simp_all add: guard_answer_def json_response_def text_response_def response_prefix_def status_noted_def)
  have "status_noted sent = None \<Longrightarrow> sent = []" using status_noted_prefix [OF assms(1)] by simp
  then show ?thesis using assms g by (auto simp: guard_call_def Let_def split: if_splits)
qed

theorem guard_last_resort_witness:
  "gr_status (guard_call (\<lambda>_. ''0'') (Some 64) 1 ([], None, Some ''KeyError'')) \<noteq> None"
proof -
  have "response_prefix []" by (simp add: response_prefix_def)
  from guard_last_resort [OF this refl, of "\<lambda>_. ''0''" "Some 64" 1 None "Some ''KeyError''"] show ?thesis by blast
qed

end
