(* ===== verification/Python_Floats.thy ===== *)
theory Python_Floats
  imports Python_Values Policy
begin

text \<open>
  Python's floats where a result depends on their rounding: the nearest double of a rational, half to
  even, \<^verbatim>\<open>round\<close> and \<^verbatim>\<open>math.ceil\<close> of a quotient, \<^verbatim>\<open>float\<close> of a decimal numeral and \<^verbatim>\<open>int\<close> of a
  text; and readers of texts, from which the expressions of \<^verbatim>\<open>re\<close> are written. A value at or above \<open>2 ^ 1024\<close> stands for an infinity.
\<close>

definition round_half_even :: "rat \<Rightarrow> int" where
  "round_half_even q =
    (let f = \<lfloor>q\<rfloor>; d = q - of_int f
     in if d < 1 / 2 then f else if 1 / 2 < d then f + 1 else if even f then f else f + 1)"

definition pow2 :: "int \<Rightarrow> rat" where
  "pow2 e = (if 0 \<le> e then 2 ^ nat e else 1 / 2 ^ nat (- e))"

text \<open>Doubles have 53 bits, and none below the exponent -1074.\<close>

definition pos_near :: "rat \<Rightarrow> rat" where
  "pos_near q =
    (case quotient_of q of (a, b) \<Rightarrow>
       let e0 = int (bit_count (nat a)) - int (bit_count (nat b));
           e = max (if q < pow2 e0 then e0 - 53 else e0 - 52) (- 1074)
       in of_int (round_half_even (q / pow2 e)) * pow2 e)"

definition float_near :: "rat \<Rightarrow> rat" where
  "float_near q = (if q = 0 then 0 else if q < 0 then - pos_near (- q) else pos_near q)"

text \<open>\<^verbatim>\<open>math.ceil(a / b)\<close> of two integers: their quotient is a float.\<close>

definition ceil_quotient :: "int \<Rightarrow> int \<Rightarrow> int" where
  "ceil_quotient a b = \<lceil>float_near (of_int a / of_int b)\<rceil>"

text \<open>\<^verbatim>\<open>float\<close> of a numeral: a sign, digits, and a point with digits after it.\<close>

definition decimal :: "string \<Rightarrow> rat option" where
  "decimal s =
    (let whole = takeWhile is_digit s; rest = dropWhile is_digit s
     in if whole = [] then None
        else (case rest of
            [] \<Rightarrow> Some (of_nat (of_digits 10 whole))
          | c # part \<Rightarrow>
              if c = CHR ''.'' \<and> part \<noteq> [] \<and> list_all is_digit part
              then Some (of_nat (of_digits 10 (whole @ part)) / 10 ^ length part) else None))"

definition float_text :: "string \<Rightarrow> rat option" where
  "float_text s =
    (case s of [] \<Rightarrow> None
     | c # r \<Rightarrow> if c = CHR ''-'' then map_option (\<lambda>q. - float_near q) (decimal r) else map_option float_near (decimal s))"

text \<open>\<^verbatim>\<open>str.strip\<close> and \<^verbatim>\<open>str.split\<close> at spaces, and \<^verbatim>\<open>int(text)\<close>: spaces around, a sign, and digits with
  single underscores between them.\<close>

definition is_space :: "char \<Rightarrow> bool" where
  "is_space c \<longleftrightarrow> of_char c \<in> {9, 10, 11, 12, 13, 28, 29, 30, 31, 32 :: nat}"

definition lstrip :: "string \<Rightarrow> string" where
  "lstrip s = dropWhile is_space s"

definition strip :: "string \<Rightarrow> string" where
  "strip s = rev (lstrip (rev (lstrip s)))"

definition digits_int :: "string \<Rightarrow> int option" where
  "digits_int s =
    (let ps = split_on (CHR ''_'') s
     in if list_all (\<lambda>p. p \<noteq> [] \<and> list_all is_digit p) ps then Some (int (of_digits 10 (concat ps))) else None)"

definition py_int :: "string \<Rightarrow> int option" where
  "py_int text =
    (case strip text of
       [] \<Rightarrow> None
     | c # s \<Rightarrow> if c = CHR ''-'' then map_option uminus (digits_int s)
         else if c = CHR ''+'' then digits_int s else digits_int (c # s))"

definition words :: "string \<Rightarrow> string list" where
  "words s = filter (\<lambda>w. w \<noteq> []) (split_on (CHR '' '') (map (\<lambda>c. if is_space c then CHR '' '' else c) s))"

text \<open>\<^verbatim>\<open>str.startswith\<close>, \<^verbatim>\<open>needle in text\<close> and \<^verbatim>\<open>str.lower\<close> of ASCII.\<close>

fun starts :: "string \<Rightarrow> string \<Rightarrow> bool" where
  "starts [] s = True"
| "starts (c # cs) [] = False"
| "starts (c # cs) (x # xs) = (c = x \<and> starts cs xs)"

fun contains :: "string \<Rightarrow> string \<Rightarrow> bool" where
  "contains needle [] = (needle = [])"
| "contains needle (x # xs) = (starts needle (x # xs) \<or> contains needle xs)"

definition lower_char :: "char \<Rightarrow> char" where
  "lower_char c = (if CHR ''A'' \<le> c \<and> c \<le> CHR ''Z'' then char_of (of_char c + (32 :: nat)) else c)"

definition lower :: "string \<Rightarrow> string" where
  "lower = map lower_char"

definition is_letter :: "char \<Rightarrow> bool" where
  "is_letter c \<longleftrightarrow> (let x = lower_char c in CHR ''a'' \<le> x \<and> x \<le> CHR ''z'')"

definition is_word :: "char \<Rightarrow> bool" where
  "is_word c \<longleftrightarrow> is_letter c \<or> is_digit c \<or> c = CHR ''_''"

definition is_digits :: "string \<Rightarrow> bool" where
  "is_digits s \<longleftrightarrow> s \<noteq> [] \<and> list_all is_digit s"

subsection \<open>Readers of texts\<close>

definition span :: "(char \<Rightarrow> bool) \<Rightarrow> string \<Rightarrow> string \<times> string" where
  "span p s = (takeWhile p s, dropWhile p s)"

definition after :: "string \<Rightarrow> string \<Rightarrow> string option" where
  "after prefix s = (if starts prefix s then Some (drop (length prefix) s) else None)"

definition some_span :: "(char \<Rightarrow> bool) \<Rightarrow> string \<Rightarrow> (string \<times> string) option" where
  "some_span p s = (if takeWhile p s = [] then None else Some (span p s))"

text \<open>\<^verbatim>\<open>\d+(?:\.\d+)?\<close> at the start of a text, with a sign where one may stand.\<close>

definition unsigned :: "string \<Rightarrow> (string \<times> string) option" where
  "unsigned s =
    Option.bind (some_span is_digit s) (\<lambda>(whole, rest).
    case rest of
      [] \<Rightarrow> Some (whole, rest)
    | c # r \<Rightarrow>
        if c = CHR ''.''
        then (case some_span is_digit r of None \<Rightarrow> Some (whole, rest) | Some (part, r') \<Rightarrow> Some (whole @ ''.'' @ part, r'))
        else Some (whole, rest))"

definition signed_number :: "string \<Rightarrow> (string \<times> string) option" where
  "signed_number s =
    (case after ''-'' s of None \<Rightarrow> unsigned s | Some r \<Rightarrow> map_option (\<lambda>(n, q). (CHR ''-'' # n, q)) (unsigned r))"

text \<open>Digits, or groups of three after one to three with commas between them.\<close>

definition counted_digits :: "string \<Rightarrow> (string \<times> string) option" where
  "counted_digits s =
    Option.bind (some_span (\<lambda>c. is_digit c \<or> c = CHR '','') s) (\<lambda>(w, rest).
    let ps = split_on (CHR '','') w
    in if is_digits w \<or> length ps > 1 \<and> is_digits (hd ps) \<and> length (hd ps) \<le> 3 \<and>
          list_all (\<lambda>p. is_digits p \<and> length p = 3) (tl ps)
       then Some (w, rest) else None)"

text \<open>The whole text, or what stands between a prefix and a suffix.\<close>

definition enclosed :: "string \<Rightarrow> string \<Rightarrow> string \<Rightarrow> string option" where
  "enclosed prefix suffix s =
    Option.bind (after prefix s) (\<lambda>r.
    let n = length r - length suffix
    in if length suffix < length r \<and> drop n r = suffix then Some (take n r) else None)"

definition enclosed_word :: "(char \<Rightarrow> bool) \<Rightarrow> string \<Rightarrow> string \<Rightarrow> string \<Rightarrow> string option" where
  "enclosed_word p prefix suffix s = Option.bind (enclosed prefix suffix s) (\<lambda>w. if list_all p w then Some w else None)"

fun first_some :: "'a option list \<Rightarrow> 'a option" where
  "first_some [] = None"
| "first_some (Some x # xs) = Some x"
| "first_some (None # xs) = first_some xs"

subsection \<open>Facts about them\<close>

lemma starts_append: "starts p s \<longleftrightarrow> (\<exists>r. s = p @ r)"
  by (induction p s rule: starts.induct) auto

lemma contains_append: "contains p s \<longleftrightarrow> (\<exists>a b. s = a @ p @ b)"
proof (induction s)
  case Nil
  then show ?case by auto
next
  case (Cons x xs)
  have "(\<exists>a b. x # xs = a @ p @ b) \<longleftrightarrow> (\<exists>b. x # xs = p @ b) \<or> (\<exists>a b. xs = a @ p @ b)" (is "?l \<longleftrightarrow> ?r1 \<or> ?r2")
  proof
    assume ?l
    then obtain a b where ab: "x # xs = a @ p @ b" by blast
    then show "?r1 \<or> ?r2" by (cases a) auto
  next
    assume "?r1 \<or> ?r2"
    then show ?l
    proof
      assume ?r1
      then show ?l by (metis append_Nil)
    next
      assume ?r2
      then show ?l by (metis append_Cons)
    qed
  qed
  then show ?case using Cons by (simp add: starts_append)
qed

lemma round_half_even_near: "\<bar>of_int (round_half_even q) - q\<bar> \<le> 1 / 2"
proof -
  have "of_int \<lfloor>q\<rfloor> \<le> q" "q < of_int \<lfloor>q\<rfloor> + 1" by linarith+
  then show ?thesis by (auto simp: round_half_even_def Let_def abs_le_iff)
qed

lemma round_half_even_of_int [simp]: "round_half_even (of_int n) = n"
  by (simp add: round_half_even_def Let_def)

end
