(* ===== verification/Card_Manifest.thy ===== *)
theory Card_Manifest
  imports Config_Loading Asgi_Exchange Python_Floats
begin

text \<open>
  The card's manifest and what the launcher makes of it, \<^verbatim>\<open>simple_serving/card.py\<close>: the manifest as its
  model profile reads it, the engine's command with the arguments of every switch, the gateway's
  command, and the gateway's configuration with its keys, limits and pinned versions. A name that the
  manifest lacks is a \<^verbatim>\<open>KeyError\<close> and a text that is no integer a \<^verbatim>\<open>ValueError\<close>: both are \<open>None\<close>. The
  process's environment, the files of the state directory and the digits of a float are arguments.
\<close>

subsection \<open>The manifest\<close>

type_synonym manifest = "string \<rightharpoonup> string"

definition int_at :: "manifest \<Rightarrow> string \<Rightarrow> int option" where
  "int_at m name = Option.bind (m name) py_int"

definition int_or_0 :: "manifest \<Rightarrow> string \<Rightarrow> int option" where
  "int_or_0 m name = (case m name of None \<Rightarrow> Some 0 | Some v \<Rightarrow> py_int v)"

definition QWEN :: string where "QWEN = ''qwen''"
definition SMALL :: string where "SMALL = ''small''"

definition PROFILES :: "string \<rightharpoonup> string" where
  "PROFILES = [QWEN \<mapsto> ''QWEN_'', SMALL \<mapsto> ''SMALL_'']"

definition profile_of :: "manifest \<Rightarrow> string" where
  "profile_of m = (case m ''MODEL_PROFILE'' of None \<Rightarrow> [] | Some p \<Rightarrow> p)"

definition profiled :: "manifest \<Rightarrow> manifest" where
  "profiled m =
    (case PROFILES (profile_of m) of None \<Rightarrow> m
     | Some prefix \<Rightarrow> (\<lambda>name. case m (prefix @ name) of None \<Rightarrow> m name | Some v \<Rightarrow> Some v))"

text \<open>A file of \<^verbatim>\<open>NAME=value\<close> lines, where a later line wins.\<close>

definition manifest_line :: "string \<Rightarrow> (string \<times> string) option" where
  "manifest_line line =
    (case partition_at (CHR ''='') (strip line) of
       (name, value) \<Rightarrow> if name = [] \<or> hd name = CHR ''#'' then None else Some (name, value))"

definition read_manifest :: "string list \<Rightarrow> manifest" where
  "read_manifest lines = profiled (map_of (rev (List.map_filter manifest_line lines)))"

subsection \<open>Commands\<close>

record card =
  cd_code :: string
  cd_state :: string
  cd_manifest :: manifest
  cd_credential :: "string \<rightharpoonup> string"

record command =
  co_argv :: "string list"
  co_env :: "string \<rightharpoonup> string"
  co_cwd :: "string option"

definition ENGINE_ENV :: "string \<rightharpoonup> string" where
  "ENGINE_ENV = [''VLLM_NO_USAGE_STATS'' \<mapsto> ''1'', ''DO_NOT_TRACK'' \<mapsto> ''1'', ''HF_HUB_OFFLINE'' \<mapsto> ''1'',
     ''TRANSFORMERS_OFFLINE'' \<mapsto> ''1'']"

definition THOUGHT_MARKERS :: json where
  "THOUGHT_MARKERS = JObj [(''reasoning_start_str'', JStr ''<|channel>''), (''reasoning_end_str'', JStr ''<channel|>'')]"

definition QWEN_THOUGHT_MARKERS :: json where
  "QWEN_THOUGHT_MARKERS = JObj [(''reasoning_start_str'', JStr ''<think>''), (''reasoning_end_str'', JStr ''</think>'')]"

definition port_at :: "card \<Rightarrow> string \<Rightarrow> int option" where
  "port_at c name = int_at (cd_manifest c) name"

definition min_p_while_drafting :: "manifest \<Rightarrow> bool option" where
  "min_p_while_drafting m =
    Option.bind (int_at (profiled m) ''MTP_SPECULATIVE_TOKENS'') (\<lambda>n.
    if n = 0 then Some False else map_option (\<lambda>k. k \<noteq> 0) (int_at m ''MIN_P_WHILE_DRAFTING''))"

definition runner :: "card \<Rightarrow> (string \<rightharpoonup> string) option" where
  "runner c = map_option (\<lambda>on. if on then [''VLLM_USE_V2_MODEL_RUNNER'' \<mapsto> ''1''] else Map.empty)
     (min_p_while_drafting (cd_manifest c))"

definition dumps_flat :: "json \<Rightarrow> string" where
  "dumps_flat = dumps_default (\<lambda>_. [])"

text \<open>The objects that are dumped here hold texts and integers alone, so no float is printed.\<close>

definition speculation :: "card \<Rightarrow> string list option" where
  "speculation c =
    (let m = profiled (cd_manifest c)
     in Option.bind (int_at m ''MTP_SPECULATIVE_TOKENS'') (\<lambda>tokens.
        if tokens = 0 then Some []
        else if profile_of m = QWEN
        then Some [''--speculative-config'', dumps_flat (JObj [(''method'', JStr ''mtp''), (''num_speculative_tokens'', JInt tokens)])]
        else map_option (\<lambda>rev. [''--speculative-config'', dumps_flat (JObj [(''method'', JStr ''mtp''),
            (''model'', JStr (cd_state c @ ''/drafters/'' @ rev)), (''num_speculative_tokens'', JInt tokens)])])
          (m ''DRAFTER_REVISION'')))"

definition offloading :: "card \<Rightarrow> string list option" where
  "offloading c = map_option (\<lambda>gib. if gib \<noteq> 0 then [''--kv-offloading-size'', int_text gib] else [])
     (int_at (cd_manifest c) ''KV_OFFLOADING_GIB'')"

definition reasoning :: "card \<Rightarrow> string list option" where
  "reasoning c = map_option (\<lambda>on. if on = 0 then []
       else [''--reasoning-config'', dumps_flat (if profile_of (cd_manifest c) = QWEN then QWEN_THOUGHT_MARKERS else THOUGHT_MARKERS)])
     (int_at (cd_manifest c) ''THINKING_BUDGET'')"

definition matching :: "card \<Rightarrow> string list option" where
  "matching c = map_option (\<lambda>u. if u \<noteq> 0 then [''--prefix-match-unit'', int_text u] else [])
     (int_or_0 (profiled (cd_manifest c)) ''PREFIX_MATCH_UNIT'')"

definition kv_cache :: "card \<Rightarrow> string list option" where
  "kv_cache c = map_option (\<lambda>mib. if mib \<noteq> 0 then [''--kv-cache-memory-bytes'', int_text (mib * 2 ^ 20)] else [])
     (int_or_0 (profiled (cd_manifest c)) ''KV_CACHE_MEMORY_MIB'')"

definition vision_args :: "card \<Rightarrow> string list option" where
  "vision_args c = map_option (\<lambda>on. if on = 0 \<or> PROFILES (profile_of (cd_manifest c)) \<noteq> None then [''--language-model-only'']
       else [''--limit-mm-per-prompt'', dumps_flat (JObj [(''image'', JInt 1), (''video'', JInt 0), (''audio'', JInt 0)]),
         ''--mm-processor-cache-gb'', ''0''])
     (int_at (cd_manifest c) ''VISION'')"

definition engine_argv :: "card \<Rightarrow> string list option" where
  "engine_argv c =
    (let m = profiled (cd_manifest c); state = cd_state c; fixed = map Some; arg = (\<lambda>name. m name);
         tokenizer = (if PROFILES (profile_of m) \<noteq> None
           then map_option (\<lambda>r. state @ ''/tokenizers/'' @ r) (m ''TOKENIZER_REVISION'') else Some (state @ ''/tokenizer''))
     in Option.bind (those (
          [Some (state @ ''/vllm/bin/vllm''), Some ''serve'', map_option (\<lambda>r. state @ ''/models/'' @ r) (m ''MODEL_REVISION''),
           Some ''--served-model-name'', arg ''MODEL_ALIAS'', Some ''--host'', Some ''127.0.0.1'', Some ''--port'', arg ''ENGINE_PORT'',
           Some ''--tokenizer'', tokenizer, Some ''--max-model-len'', arg ''CONTEXT_TOKENS'',
           Some ''--max-num-seqs'', arg ''MAX_NUM_SEQS'', Some ''--max-num-batched-tokens'', arg ''MAX_NUM_BATCHED_TOKENS'',
           Some ''--gpu-memory-utilization'', arg ''GPU_MEMORY_UTILIZATION'', Some ''--kv-cache-dtype'', arg ''KV_CACHE_DTYPE''] @
          fixed [''--scheduling-policy'', ''priority'', ''--enable-prefix-caching'', ''--enable-prompt-tokens-details'',
            ''--prefix-cache-retention-interval'', ''None'', ''--reasoning-parser'',
            if profile_of m = QWEN then ''qwen3'' else ''gemma4'',
            ''--structured-outputs-config'', dumps_flat (JObj [(''backend'', JStr ''xgrammar'')])])) (\<lambda>first.
        Option.bind (vision_args c) (\<lambda>vision.
        Option.bind (speculation c) (\<lambda>drafts.
        Option.bind (offloading c) (\<lambda>copies.
        Option.bind (reasoning c) (\<lambda>thinks.
        Option.bind (matching c) (\<lambda>units.
        Option.bind (kv_cache c) (\<lambda>cache.
        Some (first @ vision @ [''--generation-config'', ''vllm'', ''--disable-uvicorn-access-log'', ''--uvicorn-log-level'', ''warning''] @
          drafts @ copies @ thinks @ units @ cache)))))))))"

definition engine_command :: "(string \<rightharpoonup> string) \<Rightarrow> card \<Rightarrow> command option" where
  "engine_command environ c =
    Option.bind (engine_argv c) (\<lambda>argv.
    Option.bind (runner c) (\<lambda>extra.
    Some \<lparr>co_argv = argv, co_env = environ(''CONTAINER_API_KEY'' := None) ++ ENGINE_ENV ++ extra, co_cwd = None\<rparr>))"

definition gateway_command :: "(string \<rightharpoonup> string) \<Rightarrow> card \<Rightarrow> command" where
  "gateway_command environ c =
    \<lparr>co_argv = [cd_state c @ ''/gateway/bin/python'', ''-m'', ''simple_serving''],
     co_env = (environ ++ cd_credential c)(''SIMPLE_SERVING_CONFIG'' \<mapsto> cd_state c @ ''/gateway.json''),
     co_cwd = Some (cd_code c)\<rparr>"

subsection \<open>The gateway's configuration\<close>

definition pins_when :: "int option \<Rightarrow> obj option \<Rightarrow> obj option" where
  "pins_when n pins = Option.bind n (\<lambda>k. if k = 0 then Some [] else pins)"

definition text_pin :: "string \<Rightarrow> string option \<Rightarrow> obj option" where
  "text_pin name v = map_option (\<lambda>s. [(name, JStr s)]) v"

definition pinned_versions :: "manifest \<Rightarrow> obj option" where
  "pinned_versions m0 =
    (let m = profiled m0; qwen = (profile_of m = QWEN) in
     map_option (\<lambda>parts. puts [] (concat parts)) (those
      [text_pin ''vllm'' (m ''VLLM_VERSION''), text_pin ''model_revision'' (m ''MODEL_REVISION''),
       text_pin ''tokenizer_revision'' (m ''TOKENIZER_REVISION''),
       Some (if PROFILES (profile_of m) \<noteq> None then [(''model_profile'', JStr (profile_of m))] else []),
       pins_when (int_or_0 m ''KV_CACHE_MEMORY_MIB'') (text_pin ''kv_cache_memory_mib'' (m ''KV_CACHE_MEMORY_MIB'')),
       pins_when (int_or_0 m ''GENERATIONS_AT_ONCE'') (text_pin ''generations_at_once'' (m ''GENERATIONS_AT_ONCE'')),
       pins_when (int_at m ''MTP_SPECULATIVE_TOKENS'')
         (if qwen then Some [] else text_pin ''drafter_revision'' (m ''DRAFTER_REVISION'')),
       pins_when (int_at m ''MTP_SPECULATIVE_TOKENS'') (text_pin DRAFTED_TOKENS (m ''MTP_SPECULATIVE_TOKENS'')),
       map_option (\<lambda>on. if on then [(MIN_P_WHILE_DRAFTING, JStr ''on'')] else []) (min_p_while_drafting m),
       pins_when (int_at m ''KV_OFFLOADING_GIB'') (text_pin ''kv_offloading_gib'' (m ''KV_OFFLOADING_GIB'')),
       pins_when (int_at m ''THINKING_BUDGET'') (Some [(THINKING_BUDGET, JStr ''on'')]),
       pins_when (int_at m ''VISION'') (text_pin VISION (m ''VISION''))]))"

definition provisional_class :: "int \<Rightarrow> int \<Rightarrow> json \<Rightarrow> int \<Rightarrow> int \<Rightarrow> json" where
  "provisional_class ac wa inp mx wall = JObj [(''active'', JInt ac), (''waiting'', JInt wa), (''input_tokens'', inp),
     (''max_tokens'', JInt mx), (''wall_s'', JInt wall)]"

text \<open>The provisional limits, or \<open>n\<close> generations at once over all classes and for each of our three.\<close>

definition card_limits :: "int option \<Rightarrow> json" where
  "card_limits at_once =
    (let n = (\<lambda>d. case at_once of None \<Rightarrow> d | Some k \<Rightarrow> k)
     in JObj [(''reader'', provisional_class (n 4) 8 JNull 8192 300), (''agent'', provisional_class (n 1) 2 JNull 8192 900),
          (''internal'', provisional_class (n 2) 8 JNull 8192 900), (''external'', provisional_class 2 4 (JInt 8192) 1024 120),
          (''external_per_key'', JObj [(''active'', JInt 1), (''waiting'', JInt 2)]),
          (''shared'', JObj [(''active'', JInt (n 4))])])"

definition provisional_json :: "json \<Rightarrow> obj" where
  "provisional_json limits =
    [(''body_limit_bytes'', JInt (4 * 2 ^ 20)), (''limits'', limits),
     (''count_limits'', JObj [(''active'', JInt 8), (''per_outside_key'', JInt 2)]),
     (''engine_priority'', JObj [(''reader'', JInt 0), (''agent'', JInt 1), (''internal'', JInt 2), (''external'', JInt 3)]),
     (''drain_deadline_s'', JInt 60)]"

definition limits_of :: "card \<Rightarrow> json option" where
  "limits_of c = map_option (\<lambda>n. card_limits (if n = 0 then None else Some n))
     (int_or_0 (profiled (cd_manifest c)) ''GENERATIONS_AT_ONCE'')"

text \<open>The digests that the preparation keeps: the client's, the control key's, and the metrics key's where there is one.\<close>

record key_digests =
  kd_client :: string
  kd_control :: string
  kd_metrics :: "string option"

definition card_key :: "string \<Rightarrow> string \<Rightarrow> string list \<Rightarrow> json \<Rightarrow> bool \<Rightarrow> bool \<Rightarrow> obj" where
  "card_key digest label classes df scopes control =
    [(''sha256'', JStr digest), (''label'', JStr label), (''classes'', JList (map JStr classes)), (''default'', df),
     (''scopes'', JBool scopes), (''control'', JBool control)]"

definition card_keys :: "key_digests \<Rightarrow> bool \<Rightarrow> json list" where
  "card_keys d vision =
    [JObj (card_key (kd_client d) ''client'' [''reader'', ''agent'', ''internal''] (JStr ''internal'') True False @
       (if vision then [(''vision'', JBool True)] else [])),
     JObj (card_key (kd_control d) ''control'' [] JNull False True)] @
    (case kd_metrics d of None \<Rightarrow> []
     | Some m \<Rightarrow> [JObj (card_key m ''metrics'' [] JNull False False @ [(''metrics'', JBool True)])])"

definition listen_json :: "int \<Rightarrow> int \<Rightarrow> json" where
  "listen_json public control =
    JObj [(''public'', JObj [(''host'', JStr ''127.0.0.1''), (''port'', JInt public)]),
      (''control'', JObj [(''host'', JStr ''127.0.0.1''), (''port'', JInt control)])]"

definition card_config :: "card \<Rightarrow> key_digests \<Rightarrow> json option" where
  "card_config c d =
    (let m = profiled (cd_manifest c) in
     Option.bind (int_at m ''VISION'') (\<lambda>vision.
     Option.bind (limits_of c) (\<lambda>limits.
     Option.bind (m ''MODEL_ALIAS'') (\<lambda>alias.
     Option.bind (int_at m ''CONTEXT_TOKENS'') (\<lambda>context.
     Option.bind (m ''ENGINE_PORT'') (\<lambda>engine.
     Option.bind (port_at c ''PUBLIC_PORT'') (\<lambda>public.
     Option.bind (port_at c ''CONTROL_PORT'') (\<lambda>control.
     Option.bind (port_at c ''ENGINE_PORT'') (\<lambda>_.
     Option.bind (pinned_versions m) (\<lambda>versions.
     Some (JObj (provisional_json limits @
       [(''alias'', JStr alias), (''context_tokens'', JInt context), (''engine_url'', JStr (''http://127.0.0.1:'' @ engine)),
        (''listen'', listen_json public control), (''keys'', JList (card_keys d (vision \<noteq> 0))), (''versions'', JObj versions),
        (''warm_up'', JBool (m ''WARM_UP'' = Some ''1''))]))))))))))))"

end
