(* ===== verification/Card_Consistency.thy ===== *)
theory Card_Consistency
  imports Card_Manifest Engine_Client
begin

text \<open>
  The two processes of a card agree: the gateway's configuration that the launcher writes is one that
  \<^verbatim>\<open>config.py\<close> loads, and what it tells the gateway of the engine is what the engine's command line
  and environment say. The engine never sees the instance's key.
\<close>

subsection \<open>Pins that are there or not\<close>

definition opt :: "bool \<Rightarrow> string \<Rightarrow> string \<Rightarrow> obj" where
  "opt b n s = (if b then [(n, JStr s)] else [])"

definition row_of :: "(bool \<times> string \<times> string) list \<Rightarrow> obj" where
  "row_of L = concat (map (\<lambda>(b, n, s). opt b n s) L)"

definition kept :: "(bool \<times> string \<times> string) list \<Rightarrow> (string \<times> string) list" where
  "kept L = map snd (filter fst L)"

lemma row_of_names: "fst ` set (row_of L) \<subseteq> (fst \<circ> snd) ` set L"
  by (auto simp: row_of_def opt_def split: if_splits) force

lemma row_of_distinct: "distinct (map (fst \<circ> snd) L) \<Longrightarrow> distinct (map fst (row_of L))"
proof (induction L)
  case (Cons x L)
  obtain b n s where x: "x = (b, n, s)" by (cases x)
  have "n \<notin> fst ` set (row_of L)" using row_of_names [of L] Cons.prems by (auto simp: x)
  moreover have "row_of (x # L) = opt b n s @ row_of L" by (simp add: row_of_def x)
  ultimately show ?case using Cons by (simp add: opt_def)
qed (simp add: row_of_def)

lemma row_of_strings: "string_values (row_of L) = Some (kept L)"
proof (induction L)
  case (Cons x L)
  obtain b n s where x: "x = (b, n, s)" by (cases x)
  have "row_of (x # L) = opt b n s @ row_of L" by (simp add: row_of_def x)
  with Cons show ?case by (simp add: opt_def kept_def x string_values_def)
qed (simp add: row_of_def string_values_def kept_def)

lemma kept_lookup:
  "distinct (map (fst \<circ> snd) L) \<Longrightarrow> (b, n, s) \<in> set L \<Longrightarrow> map_of (kept L) n = (if b then Some s else None)"
proof (induction L)
  case (Cons x L)
  obtain b' n' s' where x: "x = (b', n', s')" by (cases x)
  have d: "(fst \<circ> snd) x \<notin> (fst \<circ> snd) ` set L" using Cons.prems(1) by (simp add: comp_def)
  have "n' \<notin> fst ` set (kept L)" using d by (force simp: kept_def x)
  then have g: "map_of (kept L) n' = None" by (simp add: map_of_eq_None_iff)
  show ?case
  proof (cases "x = (b, n, s)")
    case True
    with g show ?thesis by (simp add: x kept_def)
  next
    case False
    then have i: "(b, n, s) \<in> set L" using Cons.prems(2) by auto
    with d have "n \<noteq> n'" by (force simp: x)
    with Cons i show ?thesis by (simp add: x kept_def)
  qed
qed simp

lemma puts_distinct_append: "distinct (map fst (ob @ xs)) \<Longrightarrow> puts ob xs = ob @ xs"
proof (induction xs arbitrary: ob)
  case (Cons p xs)
  obtain n v where p: "p = (n, v)" by (cases p)
  have "jput n v ob = ob @ [(n, v)]"
    using Cons.prems by (auto simp: p jput_def jhas_def image_iff)
  then show ?case using Cons by (simp add: p puts_def)
qed (simp add: puts_def)

lemma puts_distinct: "distinct (map fst xs) \<Longrightarrow> puts [] xs = xs"
  using puts_distinct_append [of "[]" xs] by simp

lemma text_pin_Some: "text_pin n v = Some part \<longleftrightarrow> (\<exists>s. v = Some s \<and> part = opt True n s)"
  by (auto simp: text_pin_def opt_def)

lemma pins_when_Some:
  "pins_when n (text_pin name v) = Some part \<Longrightarrow>
    \<exists>k s. n = Some k \<and> part = opt (k \<noteq> 0) name s \<and> (k \<noteq> 0 \<longrightarrow> v = Some s)"
  by (auto simp: pins_when_def text_pin_Some bind_eq_Some_conv opt_def split: if_splits)

lemma pins_when_const:
  "pins_when n (Some [(name, JStr s)]) = Some part \<Longrightarrow> \<exists>k. n = Some k \<and> part = opt (k \<noteq> 0) name s"
  by (auto simp: pins_when_def bind_eq_Some_conv opt_def split: if_splits)

lemma pins_drafter:
  "pins_when n (if q then Some [] else text_pin name v) = Some part \<Longrightarrow> \<exists>b s. part = opt b name s"
  by (auto simp: pins_when_def text_pin_Some bind_eq_Some_conv split: if_splits) (auto simp: opt_def)


lemma those_Cons: "those (x # xs) = Some ys \<longleftrightarrow> (\<exists>y zs. ys = y # zs \<and> x = Some y \<and> those xs = Some zs)"
  by (auto split: option.splits)

definition pin_names :: "string list" where
  "pin_names = [''vllm'', ''model_revision'', ''tokenizer_revision'', ''model_profile'', ''kv_cache_memory_mib'',
     ''generations_at_once'', ''drafter_revision'', DRAFTED_TOKENS, MIN_P_WHILE_DRAFTING, ''kv_offloading_gib'',
     THINKING_BUDGET, VISION]"

lemma pin_names_distinct: "distinct pin_names"
  by code_simp

lemma distinct_pins:
  assumes ob: "ob = puts [] (concat [opt True ''vllm'' v1, opt True ''model_revision'' v2, opt True ''tokenizer_revision'' v3,
      opt b4 ''model_profile'' v4, opt b5 ''kv_cache_memory_mib'' v5, opt b6 ''generations_at_once'' v6,
      opt b7 ''drafter_revision'' v7, opt b8 DRAFTED_TOKENS v8, opt b9 MIN_P_WHILE_DRAFTING v9,
      opt b10 ''kv_offloading_gib'' v10, opt b11 THINKING_BUDGET v11, opt b12 VISION v12])"
  shows "\<exists>vs. string_values ob = Some vs \<and> map_of vs DRAFTED_TOKENS = (if b8 then Some v8 else None) \<and>
    map_of vs MIN_P_WHILE_DRAFTING = (if b9 then Some v9 else None) \<and>
    map_of vs THINKING_BUDGET = (if b11 then Some v11 else None) \<and> map_of vs VISION = (if b12 then Some v12 else None)"
proof -
  define L where "L = [(True, ''vllm'', v1), (True, ''model_revision'', v2), (True, ''tokenizer_revision'', v3),
      (b4, ''model_profile'', v4), (b5, ''kv_cache_memory_mib'', v5), (b6, ''generations_at_once'', v6),
      (b7, ''drafter_revision'', v7), (b8, DRAFTED_TOKENS, v8), (b9, MIN_P_WHILE_DRAFTING, v9),
      (b10, ''kv_offloading_gib'', v10), (b11, THINKING_BUDGET, v11), (b12, VISION, v12)]"
  have "map (fst \<circ> snd) L = pin_names" by (simp only: L_def pin_names_def list.map comp_def fst_conv snd_conv)
  then have d: "distinct (map (fst \<circ> snd) L)" by (simp only: pin_names_distinct)
  have "ob = puts [] (row_of L)" by (simp only: ob row_of_def L_def list.map prod.case)
  then have "ob = row_of L" using puts_distinct [OF row_of_distinct [OF d]] by (simp only:)
  then have "string_values ob = Some (kept L)" by (simp only: row_of_strings)
  moreover have "(b8, DRAFTED_TOKENS, v8) \<in> set L" "(b9, MIN_P_WHILE_DRAFTING, v9) \<in> set L"
    "(b11, THINKING_BUDGET, v11) \<in> set L" "(b12, VISION, v12) \<in> set L"
    by (simp_all only: L_def list.set insert_iff simp_thms)
  ultimately show ?thesis using kept_lookup [OF d] by blast
qed

lemma pinned_switches:
  assumes "pinned_versions m0 = Some ob" and m: "m = profiled m0"
  obtains t bw th vi vs where "int_at m ''MTP_SPECULATIVE_TOKENS'' = Some t" and "min_p_while_drafting m = Some bw"
    and "int_at m ''THINKING_BUDGET'' = Some th" and "int_at m ''VISION'' = Some vi"
    and "string_values ob = Some vs" and "map_of vs DRAFTED_TOKENS = (if t \<noteq> 0 then m ''MTP_SPECULATIVE_TOKENS'' else None)"
    and "map_of vs MIN_P_WHILE_DRAFTING = (if bw then Some ''on'' else None)"
    and "map_of vs THINKING_BUDGET = (if th \<noteq> 0 then Some ''on'' else None)"
    and "map_of vs VISION = (if vi \<noteq> 0 then m ''VISION'' else None)"
proof -
  obtain p1 p2 p3 p4 p5 p6 p7 p8 p9 p10 p11 p12 where
    ob: "ob = puts [] (concat [p1, p2, p3, p4, p5, p6, p7, p8, p9, p10, p11, p12])" and
    s: "text_pin ''vllm'' (m ''VLLM_VERSION'') = Some p1" "text_pin ''model_revision'' (m ''MODEL_REVISION'') = Some p2"
    "text_pin ''tokenizer_revision'' (m ''TOKENIZER_REVISION'') = Some p3"
    "p4 = (if PROFILES (profile_of m) \<noteq> None then [(''model_profile'', JStr (profile_of m))] else [])"
    "pins_when (int_or_0 m ''KV_CACHE_MEMORY_MIB'') (text_pin ''kv_cache_memory_mib'' (m ''KV_CACHE_MEMORY_MIB'')) = Some p5"
    "pins_when (int_or_0 m ''GENERATIONS_AT_ONCE'') (text_pin ''generations_at_once'' (m ''GENERATIONS_AT_ONCE'')) = Some p6"
    "pins_when (int_at m ''MTP_SPECULATIVE_TOKENS'')
       (if profile_of m = QWEN then Some [] else text_pin ''drafter_revision'' (m ''DRAFTER_REVISION'')) = Some p7"
    "pins_when (int_at m ''MTP_SPECULATIVE_TOKENS'') (text_pin DRAFTED_TOKENS (m ''MTP_SPECULATIVE_TOKENS'')) = Some p8"
    "map_option (\<lambda>on. if on then [(MIN_P_WHILE_DRAFTING, JStr ''on'')] else []) (min_p_while_drafting m) = Some p9"
    "pins_when (int_at m ''KV_OFFLOADING_GIB'') (text_pin ''kv_offloading_gib'' (m ''KV_OFFLOADING_GIB'')) = Some p10"
    "pins_when (int_at m ''THINKING_BUDGET'') (Some [(THINKING_BUDGET, JStr ''on'')]) = Some p11"
    "pins_when (int_at m ''VISION'') (text_pin VISION (m ''VISION'')) = Some p12"
    using assms(1) unfolding pinned_versions_def m [symmetric] Let_def map_option_eq_Some those_Cons those.simps(1) option.inject
    by blast
  obtain v1 v2 v3 where p1: "p1 = opt True ''vllm'' v1" "p2 = opt True ''model_revision'' v2" "p3 = opt True ''tokenizer_revision'' v3"
    using s(1-3) by (auto simp: text_pin_Some)
  have p4: "p4 = opt (PROFILES (profile_of m) \<noteq> None) ''model_profile'' (profile_of m)" using s(4) by (simp add: opt_def)
  obtain k5 v5 where p5: "p5 = opt (k5 \<noteq> (0::int)) ''kv_cache_memory_mib'' v5" using pins_when_Some [OF s(5)] by blast
  obtain k6 v6 where p6: "p6 = opt (k6 \<noteq> (0::int)) ''generations_at_once'' v6" using pins_when_Some [OF s(6)] by blast
  obtain b7 v7 where p7: "p7 = opt b7 ''drafter_revision'' v7" using pins_drafter [OF s(7)] by blast
  obtain t v8 where p8: "p8 = opt (t \<noteq> 0) DRAFTED_TOKENS v8" and t: "int_at m ''MTP_SPECULATIVE_TOKENS'' = Some t"
    and v8: "t \<noteq> 0 \<Longrightarrow> m ''MTP_SPECULATIVE_TOKENS'' = Some v8" using pins_when_Some [OF s(8)] by blast
  obtain bw where p9: "p9 = opt bw MIN_P_WHILE_DRAFTING ''on''" and bw: "min_p_while_drafting m = Some bw"
    using s(9) by (auto simp: opt_def)
  obtain k10 v10 where p10: "p10 = opt (k10 \<noteq> (0::int)) ''kv_offloading_gib'' v10" using pins_when_Some [OF s(10)] by blast
  obtain th where p11: "p11 = opt (th \<noteq> 0) THINKING_BUDGET ''on''" and th: "int_at m ''THINKING_BUDGET'' = Some th"
    using pins_when_const [OF s(11)] by blast
  obtain vi v12 where p12: "p12 = opt (vi \<noteq> 0) VISION v12" and vi: "int_at m ''VISION'' = Some vi"
    and v12: "vi \<noteq> 0 \<Longrightarrow> m ''VISION'' = Some v12" using pins_when_Some [OF s(12)] by blast
  obtain vs where "string_values ob = Some vs" "map_of vs DRAFTED_TOKENS = (if t \<noteq> 0 then Some v8 else None)"
    "map_of vs MIN_P_WHILE_DRAFTING = (if bw then Some ''on'' else None)"
    "map_of vs THINKING_BUDGET = (if th \<noteq> 0 then Some ''on'' else None)" "map_of vs VISION = (if vi \<noteq> 0 then Some v12 else None)"
    using distinct_pins [OF ob [unfolded p1 p4 p5 p6 p7 p8 p9 p10 p11 p12]] by (elim exE conjE) (rule that)
  with t bw th vi v8 v12 that show ?thesis by simp
qed

subsection \<open>The configuration loads\<close>

definition digest_ok :: "string \<Rightarrow> bool" where
  "digest_ok s \<longleftrightarrow> length s = 64 \<and> list_all is_lower_hex s"

text \<open>What the preparation of a card checks of its manifest and keeps of its keys.\<close>

definition card_checked :: "card \<Rightarrow> key_digests \<Rightarrow> bool" where
  "card_checked c d \<longleftrightarrow>
    (let m = cd_manifest c; at_least = (\<lambda>n v. case v of None \<Rightarrow> False | Some k \<Rightarrow> n \<le> (k::int));
         ds = [kd_client d, kd_control d] @ (case kd_metrics d of None \<Rightarrow> [] | Some s \<Rightarrow> [s])
     in profiled m = m \<and> list_all digest_ok ds \<and> distinct (map from_hex ds) \<and> m ''MODEL_ALIAS'' \<noteq> Some [] \<and>
        at_least 1 (int_at m ''CONTEXT_TOKENS'') \<and> at_least 0 (int_or_0 m ''GENERATIONS_AT_ONCE'') \<and>
        list_all (\<lambda>p. at_least 0 (int_at m p) \<and> \<not> at_least 65536 (int_at m p)) [''PUBLIC_PORT'', ''CONTROL_PORT''] \<and>
        (int_at m ''MTP_SPECULATIVE_TOKENS'' = Some 0 \<or> (case m ''MTP_SPECULATIVE_TOKENS'' of None \<Rightarrow> False | Some s \<Rightarrow> is_count s)) \<and>
        m ''VISION'' \<in> {Some ''0'', Some ''1''})"

definition loaded_key :: "string \<Rightarrow> string \<Rightarrow> cls set \<Rightarrow> cls option \<Rightarrow> bool \<Rightarrow> bool \<Rightarrow> bool \<Rightarrow> bool \<Rightarrow> key" where
  "loaded_key s label cs df scopes control metrics vision =
    \<lparr>k_digest = from_hex s, k_label = label, k_classes = cs, k_default = df, k_scopes = scopes, k_control = control,
      k_metrics = metrics, k_vision = vision\<rparr>"

lemma card_keys_load:
  assumes "digest_ok s"
  shows "load_key (i, JObj (card_key s ''client'' [''reader'', ''agent'', ''internal''] (JStr ''internal'') True False @
      (if vision then [(''vision'', JBool True)] else []))) =
      Inr (loaded_key s ''client'' {Reader, Agent, Internal} (Some Internal) True False False vision)"
    and "load_key (i, JObj (card_key s ''control'' [] JNull False True)) =
      Inr (loaded_key s ''control'' {} None False True False False)"
    and "load_key (i, JObj (card_key s ''metrics'' [] JNull False False @ [(''metrics'', JBool True)])) =
      Inr (loaded_key s ''metrics'' {} None False False True False)"
  using assms
  by (simp_all add: load_key_def jget_def cfg_key_def cfg_fields_def digest_ok_def card_key_def loaded_key_def
      cfg_object_def refuse_def require_def key_classes_def key_default_def cls_of_name_def CLASSES_def cfg_string_def
      cfg_boolean_def jget_or_def outside_def Let_def)
    (rule exI [of _ False], simp)

definition digests_ok :: "key_digests \<Rightarrow> bool" where
  "digests_ok d \<longleftrightarrow>
    (let ds = [kd_client d, kd_control d] @ (case kd_metrics d of None \<Rightarrow> [] | Some s \<Rightarrow> [s])
     in list_all digest_ok ds \<and> distinct (map from_hex ds))"

definition keys_loaded :: "key_digests \<Rightarrow> bool \<Rightarrow> key list" where
  "keys_loaded d vision =
    [loaded_key (kd_client d) ''client'' {Reader, Agent, Internal} (Some Internal) True False False vision,
     loaded_key (kd_control d) ''control'' {} None False True False False] @
    (case kd_metrics d of None \<Rightarrow> [] | Some k \<Rightarrow> [loaded_key k ''metrics'' {} None False False True False])"

lemma card_keys_loaded:
  assumes "digests_ok d"
  shows "map_res load_key (zip [0..<length (card_keys d vision)] (card_keys d vision)) = Inr (keys_loaded d vision) \<and>
    distinct (map k_digest (keys_loaded d vision)) \<and> distinct (map k_label (keys_loaded d vision)) \<and> keys_loaded d vision \<noteq> [] \<and>
    (list_ex k_vision (keys_loaded d vision) \<longleftrightarrow> vision) \<and> \<not> list_ex outside (keys_loaded d vision)"
proof -
  have dg: "digest_ok (kd_client d)" "digest_ok (kd_control d)" "\<And>k. kd_metrics d = Some k \<Longrightarrow> digest_ok k"
    and dis: "from_hex (kd_client d) \<noteq> from_hex (kd_control d)"
      "\<And>k. kd_metrics d = Some k \<Longrightarrow> from_hex k \<noteq> from_hex (kd_client d) \<and> from_hex k \<noteq> from_hex (kd_control d)"
    using assms by (auto simp: digests_ok_def Let_def)
  have "map_res load_key (zip [0..<length (card_keys d vision)] (card_keys d vision)) = Inr (keys_loaded d vision)"
    by (cases "kd_metrics d") (simp_all add: card_keys_def card_keys_load dg keys_loaded_def upt_rec)
  moreover have "distinct (map k_digest (keys_loaded d vision))"
    using dis by (cases "kd_metrics d") (auto simp: keys_loaded_def loaded_key_def)
  moreover have "distinct (map k_label (keys_loaded d vision))" "list_ex k_vision (keys_loaded d vision) \<longleftrightarrow> vision"
    "\<not> list_ex outside (keys_loaded d vision)"
    by (cases "kd_metrics d"; auto simp: keys_loaded_def loaded_key_def outside_def)+
  ultimately show ?thesis by (simp add: keys_loaded_def)
qed

lemma provisional_class_loads:
  assumes "1 \<le> ac" and "0 \<le> wa" and "1 \<le> mx" and "0 < wall" and "wall < 2 ^ 53"
  shows "cfg_class_limits (provisional_class ac wa JNull mx wall) path =
      Inr \<lparr>cl_active = ac, cl_waiting = wa, cl_input_tokens = None, cl_max_tokens = mx, cl_wall_s = of_int wall\<rparr>"
    and "cfg_class_limits (provisional_class ac wa (JInt 8192) mx wall) path =
      Inr \<lparr>cl_active = ac, cl_waiting = wa, cl_input_tokens = Some 8192, cl_max_tokens = mx, cl_wall_s = of_int wall\<rparr>"
  using assms
  by (simp_all add: cfg_class_limits_def provisional_class_def cfg_fields_def cfg_object_def refuse_def require_def jget_def
      cfg_integer_def cfg_optional_integer_def cfg_seconds_small Let_def)

lemma card_config_parts:
  assumes "card_config c d = Some doc" and "card_checked c d"
  obtains m al ctx engine public control versions n vision where "m = cd_manifest c"
    and "m ''MODEL_ALIAS'' = Some al" and "al \<noteq> []" and "int_at m ''CONTEXT_TOKENS'' = Some ctx" and "1 \<le> ctx"
    and "public \<in> {0..65535}" and "control \<in> {0..65535}" and "pinned_versions m = Some versions"
    and "int_at m ''VISION'' = Some (if vision then 1 else 0)" and "m ''VISION'' = Some (if vision then ''1'' else ''0'')"
    and "n = None \<or> (\<exists>k \<ge> 1. n = Some k)"
    and "doc = JObj (provisional_json (card_limits n) @
       [(''alias'', JStr al), (''context_tokens'', JInt ctx), (''engine_url'', JStr (''http://127.0.0.1:'' @ engine)),
        (''listen'', listen_json public control), (''keys'', JList (card_keys d vision)), (''versions'', JObj versions),
        (''warm_up'', JBool (m ''WARM_UP'' = Some ''1''))])"
proof -
  define m where "m = cd_manifest c"
  have p: "profiled m = m" using assms(2) by (simp add: card_checked_def Let_def m_def)
  obtain vision limits al ctx engine public control versions where
    v: "int_at m ''VISION'' = Some vision" and l: "limits_of c = Some limits" and a: "m ''MODEL_ALIAS'' = Some al"
    and x: "int_at m ''CONTEXT_TOKENS'' = Some ctx" and pu: "int_at m ''PUBLIC_PORT'' = Some public"
    and co: "int_at m ''CONTROL_PORT'' = Some control" and ve: "pinned_versions m = Some versions"
    and doc: "doc = JObj (provisional_json limits @
       [(''alias'', JStr al), (''context_tokens'', JInt ctx), (''engine_url'', JStr (''http://127.0.0.1:'' @ engine)),
        (''listen'', listen_json public control), (''keys'', JList (card_keys d (vision \<noteq> 0))), (''versions'', JObj versions),
        (''warm_up'', JBool (m ''WARM_UP'' = Some ''1''))])"
    using assms(1) unfolding card_config_def Let_def bind_eq_Some_conv port_at_def m_def [symmetric] p option.inject
    by blast
  obtain g where g: "int_or_0 m ''GENERATIONS_AT_ONCE'' = Some g" and lim: "limits = card_limits (if g = 0 then None else Some g)"
    using l by (auto simp: limits_of_def m_def [symmetric] p)
  have c: "al \<noteq> []" "1 \<le> ctx" "0 \<le> g" "public \<in> {0..65535}" "control \<in> {0..65535}" "m ''VISION'' \<in> {Some ''0'', Some ''1''}"
    using assms(2) by (simp_all add: card_checked_def Let_def m_def [symmetric] a x g pu co)
  have "py_int ''0'' = Some 0" "py_int ''1'' = Some 1" by code_simp+
  then have "vision = (if vision \<noteq> 0 then 1 else 0)" "m ''VISION'' = Some (if vision \<noteq> 0 then ''1'' else ''0'')"
    using v c(6) by (auto simp: int_at_def)
  with c that [of m al ctx public control versions "vision \<noteq> 0" "if g = 0 then None else Some g" engine] show ?thesis
    using v a x ve doc lim by (auto simp: m_def)
qed

lemma card_config_loaded:
  assumes doc: "card_config c d = Some doc" and ok: "card_checked c d"
    and url: "\<And>p. urlsplit (''http://127.0.0.1:'' @ p) = Some (''http'', Some ''127.0.0.1'')"
  shows "\<exists>cfg vs ob. load urlsplit (Inr doc) = Inr cfg \<and> Some (c_alias cfg) = cd_manifest c ''MODEL_ALIAS'' \<and>
    c_context_tokens cfg = int_at (cd_manifest c) ''CONTEXT_TOKENS'' \<and>
    pinned_versions (cd_manifest c) = Some ob \<and> string_values ob = Some vs \<and> c_versions cfg = vs \<and>
    c_speculative cfg = (map_of vs DRAFTED_TOKENS \<noteq> None) \<and> c_thinking_budget cfg = (map_of vs THINKING_BUDGET \<noteq> None) \<and>
    c_vision cfg = (map_of vs VISION \<noteq> None) \<and> c_min_p_while_drafting cfg = (map_of vs MIN_P_WHILE_DRAFTING \<noteq> None)"
proof -
  from doc ok obtain m al ctx engine public control versions n vision where m: "m = cd_manifest c"
    and a: "m ''MODEL_ALIAS'' = Some al" "al \<noteq> []" and x: "int_at m ''CONTEXT_TOKENS'' = Some ctx" "1 \<le> ctx"
    and ports: "public \<in> {0..65535}" "control \<in> {0..65535}" and ve: "pinned_versions m = Some versions"
    and vi: "int_at m ''VISION'' = Some (if vision then 1 else 0)" "m ''VISION'' = Some (if vision then ''1'' else ''0'')"
    and n: "n = None \<or> (\<exists>k \<ge> 1. n = Some k)"
    and d: "doc = JObj (provisional_json (card_limits n) @
       [(''alias'', JStr al), (''context_tokens'', JInt ctx), (''engine_url'', JStr (''http://127.0.0.1:'' @ engine)),
        (''listen'', listen_json public control), (''keys'', JList (card_keys d vision)), (''versions'', JObj versions),
        (''warm_up'', JBool (m ''WARM_UP'' = Some ''1''))])"
    by (rule card_config_parts)
  have p: "profiled m = m" using ok by (simp add: card_checked_def Let_def m)
  obtain t bw th vi' vs where sw: "int_at m ''MTP_SPECULATIVE_TOKENS'' = Some t" "min_p_while_drafting m = Some bw"
    and vi': "int_at m ''VISION'' = Some vi'"
    and vs0: "string_values versions = Some vs" "map_of vs DRAFTED_TOKENS = (if t \<noteq> 0 then m ''MTP_SPECULATIVE_TOKENS'' else None)"
      "map_of vs MIN_P_WHILE_DRAFTING = (if bw then Some ''on'' else None)"
      "map_of vs THINKING_BUDGET = (if th \<noteq> (0::int) then Some ''on'' else None)"
      "map_of vs VISION = (if vi' \<noteq> 0 then m ''VISION'' else None)"
    by (rule pinned_switches [OF ve p [symmetric]])
  have "map_of vs VISION = (if vision then Some ''1'' else None)" using vs0(5) vi vi' by (cases vision) auto
  note vs = vs0(1-4) this
  have bw: "bw \<Longrightarrow> t \<noteq> 0" using sw by (auto simp: min_p_while_drafting_def p)
  obtain s where s: "m ''MTP_SPECULATIVE_TOKENS'' = Some s" using sw(1) by (auto simp: int_at_def bind_eq_Some_conv)
  have cnt: "t \<noteq> 0 \<Longrightarrow> is_count s" using ok sw(1) s by (simp add: card_checked_def Let_def m [symmetric])
  define keys where "keys = keys_loaded d vision"
  have "digests_ok d" using ok by (simp add: card_checked_def digests_ok_def Let_def)
  from card_keys_loaded [OF this, of vision] have ks: "map_res load_key (zip [0..<length (card_keys d vision)] (card_keys d vision)) = Inr keys"
    and dk: "distinct (map k_digest keys)" "distinct (map k_label keys)" "keys \<noteq> []" "list_ex k_vision keys \<longleftrightarrow> vision"
    unfolding keys_def by blast+
  have mp: "MIN_P_WHILE_DRAFTING \<in> fst ` set vs \<longleftrightarrow> bw" using vs(3) by (metis map_of_eq_None_iff option.distinct(1))
  have v: "cfg_versions (JObj versions) keys = Inr vs"
    by (cases "t = 0"; cases bw)
      (use bw cnt in \<open>simp_all add: cfg_versions_def cfg_object_def vs dk mp refuse_def require_def Let_def s\<close>)
  have nn: "1 \<le> (case n of None \<Rightarrow> k | Some j \<Rightarrow> j)" if "1 \<le> k" for k :: int using n that by auto
  have lo: "is_loopback (Some ''127.0.0.1'')" by (rule sample_control_loopback)
  define rows where "rows = [(''reader'', provisional_class (case n of None \<Rightarrow> 4 | Some j \<Rightarrow> j) 8 JNull 8192 300),
      (''agent'', provisional_class (case n of None \<Rightarrow> 1 | Some j \<Rightarrow> j) 2 JNull 8192 900),
      (''internal'', provisional_class (case n of None \<Rightarrow> 2 | Some j \<Rightarrow> j) 8 JNull 8192 900),
      (''external'', provisional_class 2 4 (JInt 8192) 1024 120),
      (''external_per_key'', JObj [(''active'', JInt 1), (''waiting'', JInt 2)]),
      (''shared'', JObj [(''active'', JInt (case n of None \<Rightarrow> 4 | Some j \<Rightarrow> j))])]"
  obtain g where g: "per_class (\<lambda>n v. cfg_class_limits v (''limits.'' @ n)) rows = Inr g"
    by (simp add: per_class_def CLASSES_def jget_def provisional_class_loads nn rows_def)
  obtain h where h: "per_class (\<lambda>n v. cfg_integer v (''engine_priority.'' @ n) None)
      [(''reader'', JInt 0), (''agent'', JInt 1), (''internal'', JInt 2), (''external'', JInt 3)] = Inr h"
    by (simp add: per_class_def CLASSES_def jget_def cfg_integer_def)
  have rows: "cfg_fields (JObj rows) ''limits'' (map cls_name CLASSES @ [''external_per_key'', ''shared'']) = Inr rows"
    "jget ''external_per_key'' rows = JObj [(''active'', JInt 1), (''waiting'', JInt 2)]"
    "\<exists>j \<ge> 1. jget ''shared'' rows = JObj [(''active'', JInt j)]"
    using nn [of 4] by (simp_all add: cfg_fields_def cfg_object_def refuse_def require_def rows_def jget_def CLASSES_def Let_def)
  then obtain j where j: "1 \<le> j" "jget ''shared'' rows = JObj [(''active'', JInt j)]" by blast
  have l: "card_limits n = JObj rows" by (simp add: card_limits_def rows_def Let_def)
  have u: "cfg_engine_url urlsplit (JStr (''http://127.0.0.1:'' @ engine)) = Inr (''http://127.0.0.1:'' @ engine)"
    by (simp add: cfg_engine_url_def cfg_string_def refuse_def require_def url [of engine, simplified] lo)
  have li: "cfg_listener (JObj [(''host'', JStr ''127.0.0.1''), (''port'', JInt k)]) path b =
      Inr \<lparr>li_host = ''127.0.0.1'', li_port = k\<rparr>" if "k \<in> {0..65535}" for k path b
    using that lo by (simp add: cfg_listener_def cfg_fields_def cfg_object_def refuse_def require_def cfg_string_def jget_def
        cfg_integer_def Let_def)
  have c: "cfg_optional_integer (JInt ctx) ''context_tokens'' 1 = Inr (Some ctx)" "cfg_string (JStr al) ''alias'' = Inr al"
    using x a by (simp_all add: cfg_optional_integer_def cfg_integer_def cfg_string_def Let_def)
  have ci: "cfg_integer (JInt k) path None = Inr k" "int i \<le> k \<Longrightarrow> cfg_integer (JInt k) path (Some i) = Inr k" for k path i
    by (simp_all add: cfg_integer_def Let_def)
  have cl: "cls_name ` set CLASSES = {''reader'', ''agent'', ''internal'', ''external''}" by (simp add: CLASSES_def)
  show ?thesis
    by (simp add: load_def d provisional_json_def jget_def [of _ "_ # _"] ks config_of_def jget_or_def cfg_fields_def [of "JObj (_ # _)"]
        cfg_object_def FIELDS_def cl refuse_def require_def u [simplified] dk v listen_json_def g [simplified] h [simplified]
        rows [simplified] j l c [simplified] a x li [simplified] ports [simplified] ci cfg_seconds_small cfg_boolean_def Let_def ve vs(1)
        m [symmetric])
qed

subsection \<open>Gateway and engine\<close>


definition sample_manifest :: manifest where
  "sample_manifest = map_of
    [(''MODEL_PROFILE'', ''gemma''), (''MODEL_ALIAS'', ''gemma''), (''CONTEXT_TOKENS'', ''32768''), (''ENGINE_PORT'', ''8000''),
     (''PUBLIC_PORT'', ''8080''), (''CONTROL_PORT'', ''8081''), (''VISION'', ''1''), (''MTP_SPECULATIVE_TOKENS'', ''4''),
     (''MIN_P_WHILE_DRAFTING'', ''1''), (''THINKING_BUDGET'', ''0''), (''KV_OFFLOADING_GIB'', ''0''), (''VLLM_VERSION'', ''0.30.0''),
     (''MODEL_REVISION'', ''a1''), (''TOKENIZER_REVISION'', ''b2''), (''DRAFTER_REVISION'', ''c3''), (''MAX_NUM_SEQS'', ''8''),
     (''MAX_NUM_BATCHED_TOKENS'', ''4096''), (''GPU_MEMORY_UTILIZATION'', ''0.9''), (''KV_CACHE_DTYPE'', ''fp8'')]"

definition sample_card :: card where
  "sample_card = \<lparr>cd_code = ''/c'', cd_state = ''/s'', cd_manifest = sample_manifest, cd_credential = [''CONTAINER_API_KEY'' \<mapsto> ''k'']\<rparr>"

definition sample_digests :: key_digests where
  "sample_digests = \<lparr>kd_client = replicate 64 (CHR ''a''), kd_control = replicate 64 (CHR ''b''), kd_metrics = None\<rparr>"

lemma sample_lookup:
  "sample_manifest ''MODEL_PROFILE'' = Some ''gemma''"
  "sample_manifest ''MODEL_ALIAS'' = Some ''gemma''"
  "sample_manifest ''CONTEXT_TOKENS'' = Some ''32768''"
  "sample_manifest ''ENGINE_PORT'' = Some ''8000''"
  "sample_manifest ''PUBLIC_PORT'' = Some ''8080''"
  "sample_manifest ''CONTROL_PORT'' = Some ''8081''"
  "sample_manifest ''VISION'' = Some ''1''"
  "sample_manifest ''MTP_SPECULATIVE_TOKENS'' = Some ''4''"
  "sample_manifest ''MIN_P_WHILE_DRAFTING'' = Some ''1''"
  "sample_manifest ''THINKING_BUDGET'' = Some ''0''"
  "sample_manifest ''KV_OFFLOADING_GIB'' = Some ''0''"
  "sample_manifest ''VLLM_VERSION'' = Some ''0.30.0''"
  "sample_manifest ''MODEL_REVISION'' = Some ''a1''"
  "sample_manifest ''TOKENIZER_REVISION'' = Some ''b2''"
  "sample_manifest ''DRAFTER_REVISION'' = Some ''c3''"
  "sample_manifest ''MAX_NUM_SEQS'' = Some ''8''"
  "sample_manifest ''MAX_NUM_BATCHED_TOKENS'' = Some ''4096''"
  "sample_manifest ''GPU_MEMORY_UTILIZATION'' = Some ''0.9''"
  "sample_manifest ''KV_CACHE_DTYPE'' = Some ''fp8''"
  "sample_manifest ''GENERATIONS_AT_ONCE'' = None"
  "sample_manifest ''KV_CACHE_MEMORY_MIB'' = None"
  "sample_manifest ''PREFIX_MATCH_UNIT'' = None"
  by code_simp+

lemma sample_profile: "profiled sample_manifest = sample_manifest" "profile_of sample_manifest = ''gemma''"
  by (simp_all add: profiled_def profile_of_def sample_lookup PROFILES_def QWEN_def SMALL_def)

lemma sample_ints:
  "py_int ''0'' = Some 0" "py_int ''1'' = Some 1" "py_int ''4'' = Some 4" "py_int ''32768'' = Some 32768"
  "py_int ''8080'' = Some 8080" "py_int ''8081'' = Some 8081" "py_int ''8000'' = Some 8000"
  by (simp_all add: py_int_def strip_def lstrip_def is_space_def digits_int_def of_digits_def hex_value_def is_digit_def less_eq_char_def)

lemma sample_int_at:
  "int_at sample_manifest ''CONTEXT_TOKENS'' = Some 32768" "int_or_0 sample_manifest ''GENERATIONS_AT_ONCE'' = Some 0"
  "int_or_0 sample_manifest ''KV_CACHE_MEMORY_MIB'' = Some 0" "int_or_0 sample_manifest ''PREFIX_MATCH_UNIT'' = Some 0"
  "int_at sample_manifest ''PUBLIC_PORT'' = Some 8080" "int_at sample_manifest ''CONTROL_PORT'' = Some 8081"
  "int_at sample_manifest ''ENGINE_PORT'' = Some 8000" "int_at sample_manifest ''VISION'' = Some 1"
  "int_at sample_manifest ''MTP_SPECULATIVE_TOKENS'' = Some 4" "int_at sample_manifest ''MIN_P_WHILE_DRAFTING'' = Some 1"
  "int_at sample_manifest ''THINKING_BUDGET'' = Some 0" "int_at sample_manifest ''KV_OFFLOADING_GIB'' = Some 0"
  by (simp_all add: int_at_def int_or_0_def sample_lookup sample_ints)

lemma sample_digest_ok: "digest_ok (replicate 64 (CHR ''a''))" "digest_ok (replicate 64 (CHR ''b''))"
  "from_hex (replicate 64 (CHR ''a'')) \<noteq> from_hex (replicate 64 (CHR ''b''))"
proof -
  show "digest_ok (replicate 64 (CHR ''a''))" "digest_ok (replicate 64 (CHR ''b''))"
    by (simp_all add: digest_ok_def is_lower_hex_def less_eq_char_def list_all_iff)
  have r: "replicate 64 x = x # x # replicate 62 x" for x :: char by (simp add: numeral_eq_Suc)
  show "from_hex (replicate 64 (CHR ''a'')) \<noteq> from_hex (replicate 64 (CHR ''b''))"
    unfolding r by (simp add: hex_value_def is_digit_def less_eq_char_def)
qed

lemma sample_checked: "card_checked sample_card sample_digests"
  by (simp add: card_checked_def sample_card_def sample_digests_def sample_profile sample_int_at sample_digest_ok Let_def
      sample_lookup is_count_def is_digit_def less_eq_char_def)

lemma sample_made:
  "\<exists>doc. card_config sample_card sample_digests = Some doc" "\<exists>e. engine_command Map.empty sample_card = Some e"
  by (simp_all add: card_config_def limits_of_def pinned_versions_def min_p_while_drafting_def engine_command_def engine_argv_def
      vision_args_def speculation_def offloading_def reasoning_def matching_def kv_cache_def runner_def port_at_def
      pins_when_def text_pin_def sample_card_def sample_profile sample_int_at sample_lookup Let_def)


text \<open>
  C19: The engine serves model texts from a process that holds no credential of ours: whatever the
  launcher's environment, the engine's has no key of the instance and is offline, its command line is
  the manifest's alone and serves the loopback address, and the gateway, which has to stop the
  instance, gets the key.
\<close>

theorem engine_has_no_credential:
  assumes "engine_command environ c = Some e"
  shows "co_env e ''CONTAINER_API_KEY'' = None \<and> co_env e ''HF_HUB_OFFLINE'' = Some ''1'' \<and>
    co_env e ''TRANSFORMERS_OFFLINE'' = Some ''1'' \<and> Some (co_argv e) = engine_argv c \<and>
    (\<exists>al before after. profiled (cd_manifest c) ''MODEL_ALIAS'' = Some al \<and>
      co_argv e = before @ [al, ''--host'', ''127.0.0.1'', ''--port''] @ after) \<and>
    (\<forall>key. cd_credential c ''CONTAINER_API_KEY'' = Some key \<longrightarrow>
      co_env (gateway_command environ c) ''CONTAINER_API_KEY'' = Some key)"
proof -
  obtain argv extra where a: "engine_argv c = Some argv" and r: "runner c = Some extra"
    and e: "e = \<lparr>co_argv = argv, co_env = environ(''CONTAINER_API_KEY'' := None) ++ ENGINE_ENV ++ extra, co_cwd = None\<rparr>"
    using assms unfolding engine_command_def bind_eq_Some_conv by auto
  have x: "extra n = None" if "n \<noteq> ''VLLM_USE_V2_MODEL_RUNNER''" for n
    using r that by (auto simp: runner_def split: if_splits)
  have env: "co_env e ''CONTAINER_API_KEY'' = None" "co_env e ''HF_HUB_OFFLINE'' = Some ''1''"
    "co_env e ''TRANSFORMERS_OFFLINE'' = Some ''1''"
    by (simp_all add: e x map_add_def ENGINE_ENV_def)
  have l: "\<exists>al before after. a5 = Some al \<and> first = before @ [al, s6, s7, s8] @ after"
    if h: "those ([a1, Some s2, a3, Some s4, a5, Some s6, Some s7, Some s8] @ r) = Some first"
    for a1 a3 a5 :: "string option" and s2 s4 s6 s7 s8 r first
  proof -
    obtain b1 b3 al q where f: "a5 = Some al" "first = [b1, s2, b3, s4] @ [al, s6, s7, s8] @ q"
      using h by (auto simp: those_Cons simp del: those.simps(2))
    then show ?thesis by blast
  qed
  obtain first q where f: "those ([Some (cd_state c @ ''/vllm/bin/vllm''), Some ''serve'', map_option (\<lambda>r. cd_state c @ ''/models/'' @ r)
      (profiled (cd_manifest c) ''MODEL_REVISION''), Some ''--served-model-name'', profiled (cd_manifest c) ''MODEL_ALIAS'',
      Some ''--host'', Some ''127.0.0.1'', Some ''--port''] @ q) = Some first" and "\<exists>q. argv = first @ q"
    using a unfolding engine_argv_def Let_def bind_eq_Some_conv append.simps by blast
  with l [OF f] have "\<exists>al before after. profiled (cd_manifest c) ''MODEL_ALIAS'' = Some al \<and>
      argv = before @ [al, ''--host'', ''127.0.0.1'', ''--port''] @ after" by fastforce
  with env a show ?thesis by (auto simp: e gateway_command_def)
qed

theorem engine_has_no_credential_witness:
  "\<exists>e. engine_command [''CONTAINER_API_KEY'' \<mapsto> ''k''] sample_card = Some e \<and> co_env e ''CONTAINER_API_KEY'' = None"
proof -
  obtain e where "engine_command [''CONTAINER_API_KEY'' \<mapsto> ''k''] sample_card = Some e"
    using sample_made(2) by (auto simp: engine_command_def bind_eq_Some_conv)
  with engine_has_no_credential [OF this] show ?thesis by blast
qed

end
