(* ===== verification/Engine_Output.thy ===== *)
theory Engine_Output
  imports Python_Floats Request_Metrics
begin

text \<open>
  What the card's launcher keeps of vLLM's output, \<^verbatim>\<open>simple_serving/card.py\<close>: bounded numbers, fixed
  codes of what the engine chose, and fixed categories of failure and warning. A line is its decoded
  text; its characters are ASCII, since \<^verbatim>\<open>\w\<close> and \<^verbatim>\<open>\d\<close> are written out for those. The tree
  that \<^verbatim>\<open>ast.parse\<close> builds, with its number of nodes, is an argument. Each regular expression is
  written as the reader of its text: its parts are separated by characters they cannot hold, so
  that there is one way to match.
\<close>

subsection \<open>Words and tables\<close>

definition NVFP4_KERNELS :: "(string \<times> string) list" where
  "NVFP4_KERNELS =
    [(''MarlinNvFp4LinearKernel'', ''marlin''), (''HummingNvFp4LinearKernel'', ''humming''),
     (''FlashInferCuteDslNvFp4W4A16LinearKernel'', ''flashinfer_cutedsl_w4a16''),
     (''FlashInferCuteDslNvFp4LinearKernel'', ''flashinfer_cutedsl''),
     (''FlashInferCutlassNvFp4LinearKernel'', ''flashinfer_cutlass''),
     (''FlashInferTrtllmNvFp4LinearKernel'', ''flashinfer_trtllm''),
     (''FlashInferCudnnNvFp4LinearKernel'', ''flashinfer_cudnn''),
     (''FlashInferB12xNvFp4LinearKernel'', ''flashinfer_b12x''), (''B12xNvFp4LinearKernel'', ''b12x''),
     (''CutlassNvFp4LinearKernel'', ''cutlass''), (''FbgemmNvFp4LinearKernel'', ''fbgemm''),
     (''TorchNvFp4LinearKernel'', ''torch''), (''EmulationNvFp4LinearKernel'', ''emulation'')]"

definition LINEAR_QUANTS :: "string list" where
  "LINEAR_QUANTS =
    [''nvfp4_w4a16'', ''nvfp4_w4a4'', ''fp8_block_w8a8'', ''fp8_w8a8'', ''int8_w8a8'', ''mixed_precision'',
     ''mxfp8'', ''mxfp4'', ''mxfp6'', ''w8a16_fp8'']"

definition LINEAR_BACKENDS :: "string list" where
  "LINEAR_BACKENDS =
    [''auto'', ''cutlass'', ''flashinfer_cutlass'', ''flashinfer_cutedsl'', ''flashinfer_trtllm'',
     ''flashinfer_cudnn'', ''flashinfer_b12x'', ''b12x'', ''marlin'', ''humming'', ''triton'', ''deep_gemm'',
     ''torch'', ''aiter'', ''machete'', ''fbgemm'', ''conch'', ''exllama'', ''emulation'', ''xpu'', ''xpu_woq'']"

definition ATTENTION_BACKENDS :: "string list" where
  "ATTENTION_BACKENDS =
    [''FLASH_ATTN'', ''FLASH_ATTN_DIFFKV'', ''TRITON_ATTN'', ''TRITON_ATTN_DIFFKV'', ''TRITON_FLASH_ATTN'',
     ''ROCM_ATTN'', ''ROCM_AITER_MLA'', ''ROCM_AITER_TRITON_MLA'', ''ROCM_AITER_FA'', ''ROCM_AITER_MLA_SPARSE'',
     ''XPU_MLA_SPARSE'', ''TORCH_SDPA'', ''FLASHINFER'', ''TRITON_FLASHINFER'', ''FLASHINFER_MLA'',
     ''TOKENSPEED_MLA'', ''FLASHINFER_MLA_SPARSE'', ''FLASHINFER_MLA_SPARSE_SM120'',
     ''FLASHINFER_MLA_SPARSE_SM90'', ''TRITON_MLA'', ''CUTLASS_MLA'', ''FLASHMLA'', ''FLASHMLA_SPARSE'',
     ''FLASHMLA_SPARSE_DSV4'', ''FLASHINFER_MLA_SPARSE_DSV4'', ''ROCM_FLASHMLA_SPARSE_DSV4'',
     ''FLASHMLA_SPARSE_DSV41'', ''FLASHINFER_MLA_SPARSE_DSV41'', ''B12X'', ''FLASH_ATTN_MLA'',
     ''FLASH_ATTN_MLA_SPARSE'', ''MINIMAX_M3_SPARSE'', ''CUTLASS_MSA'', ''TRITON_MSA'', ''NO_ATTENTION'',
     ''FLEX_ATTENTION'', ''HPC_ATTN'', ''ROCM_AITER_UNIFIED_ATTN'', ''CPU_ATTN'', ''CPU_MLA'', ''AMX_MLA'',
     ''TURBOQUANT'', ''CUSTOM'']"

definition CACHE_KINDS :: "string list" where
  "CACHE_KINDS =
    [''full_attention'', ''mla_attention'', ''sliding_window'', ''sliding_window_mla'', ''mamba'',
     ''chunked_local_attention'', ''sink_full_attention'', ''encoder_only_attention'', ''cross_attention'',
     ''unknown'', ''sparse'']"

definition CACHE_DTYPES :: "string list" where
  "CACHE_DTYPES =
    [''auto'', ''float16'', ''bfloat16'', ''fp8'', ''fp8_e4m3'', ''fp8_e5m2'', ''fp8_inc'', ''fp8_ds_mla'',
     ''nvfp4_ds_mla'', ''turboquant_k8v4'', ''turboquant_4bit_nc'', ''turboquant_k3v4_nc'', ''turboquant_3bit_nc'',
     ''int4_per_token_head'', ''int8_per_token_head'', ''fp8_per_token_head'', ''nvfp4'', ''nvfp4_4over6'']"

definition DECODE_PATHS :: "(string \<times> string) list" where
  "DECODE_PATHS =
    [(''xqa'', ''xqa''), (''trtllm-gen'', ''trtllm_gen''), (''flashinfer-native'', ''native'')]"

definition OFFLOADING_SPECS :: "(string \<times> string) list" where
  "OFFLOADING_SPECS =
    [(''CPUOffloadingSpec'', ''cpu''), (''TieringOffloadingSpec'', ''tiering'')]"

definition FAILURES :: "(string \<times> string list) list" where
  "FAILURES =
    [(''out_of_memory'', [''out of memory'', ''outofmemoryerror'']),
     (''kv_cache_too_small'', [''larger than the available kv cache memory'', ''no available memory for the cache blocks'']),
     (''memory_taken'', [''less than desired gpu memory utilization'']),
     (''memory_profiling_failed'', [''error in memory profiling'']),
     (''cuda_error'', [''cuda error'', ''cudaerror'', ''cublas_status'', ''nccl error'']),
     (''bind_failed'', [''address already in use'']),
     (''argument_error'', [''unrecognized arguments'', ''error: argument'']),
     (''engine_dead'', [''enginedeaderror'', ''engine core initialization failed'', ''frontend process failed'']),
     (''traceback'', [''traceback (most recent call last)''])]"

definition WARNINGS :: "(string \<times> string list) list" where
  "WARNINGS =
    [(''fused_scales_differ'', [''scale differs across parallel layers''])]"

definition ARG_NUMBERS :: "(string \<times> string \<times> int) list" where
  "ARG_NUMBERS =
    [(''max_model_len'', ''arg_max_model_len'', 1),
     (''max_num_seqs'', ''arg_max_num_seqs'', 1),
     (''max_num_batched_tokens'', ''arg_max_num_batched_tokens'', 1),
     (''gpu_memory_utilization'', ''arg_gpu_memory_utilization_x1000'', 1000),
     (''watermark'', ''arg_watermark_x1000'', 1000),
     (''kv_offloading_size'', ''arg_kv_offloading_mib'', 1024),
     (''prefix_cache_retention_interval'', ''arg_prefix_cache_retention_interval'', 1),
     (''num_speculative_tokens'', ''arg_num_speculative_tokens'', 1)]"

definition ARG_WORDS :: "(string \<times> string list) list" where
  "ARG_WORDS =
    [(''kv_cache_dtype'', CACHE_DTYPES), (''attention_backend'', ATTENTION_BACKENDS),
     (''draft_sample_method'', [''greedy'', ''probabilistic'']),
     (''rejection_sample_method'', [''standard'', ''synthetic'', ''block''])]"

definition ARG_FLAGS :: "string list" where
  "ARG_FLAGS = [''num_speculative_tokens_per_batch_size'', ''synthetic_acceptance_rates'']"

definition SCALE :: "string \<rightharpoonup> int" where
  "SCALE = [''mib'' \<mapsto> 1024, ''ms'' \<mapsto> 1000, ''tokens'' \<mapsto> 1, ''x100'' \<mapsto> 100]"

definition LINE_BYTES :: nat where "LINE_BYTES = 8192"
definition DIAGNOSTIC_MAX :: int where "DIAGNOSTIC_MAX = 2 ^ 53 - 1"

type_synonym choice = "string \<times> (string \<times> int) list"

definition is_ascii :: "string \<Rightarrow> bool" where
  "is_ascii s \<longleftrightarrow> list_all (\<lambda>c. of_char c < (128 :: nat)) s"

definition known :: "string \<Rightarrow> string list \<Rightarrow> string" where
  "known w ws = (if is_ascii w \<and> lower w \<in> lower ` set ws then lower w else ''other'')"

definition word_of :: "(string \<times> string) list \<Rightarrow> string \<Rightarrow> string" where
  "word_of table w = (case map_of table w of None \<Rightarrow> ''other'' | Some v \<Rightarrow> v)"

subsection \<open>Numbers\<close>

datatype measure_value =
    Text_value string
  | Int_value int
  | Float_value "rat option"

definition diagnostic_number :: "measure_value \<Rightarrow> int \<Rightarrow> bool \<Rightarrow> int option" where
  "diagnostic_number value factor signed =
    (let number = (case value of
           Text_value s \<Rightarrow> if length s > 128 then None else float_text s
         | Int_value n \<Rightarrow> float_of_int n
         | Float_value q \<Rightarrow> q)
     in Option.bind number (\<lambda>q.
        let n = float_near (q * of_int factor)
        in if \<bar>n\<bar> \<le> of_int DIAGNOSTIC_MAX \<and> (signed \<or> 0 \<le> n) then Some (round_half_even n) else None))"

subsection \<open>The prefix of vLLM's log\<close>

definition drop_group :: "string \<Rightarrow> string option" where
  "drop_group s =
    (case after ''('' s of None \<Rightarrow> Some s
     | Some r \<Rightarrow>
         (case span (\<lambda>c. c \<noteq> CHR '')'' \<and> c \<noteq> CHR 0x0A \<and> c \<noteq> CHR 0x0D) r of (inner, rest) \<Rightarrow>
            if 1 \<le> length inner \<and> length inner \<le> 80 then after '') '' rest else None))"

definition digit_pattern :: "string \<Rightarrow> string \<Rightarrow> string option" where
  "digit_pattern pattern s =
    (if length pattern \<le> length s \<and> list_all2 (\<lambda>p c. if p = CHR ''0'' then is_digit c else p = c) pattern (take (length pattern) s)
     then Some (drop (length pattern) s) else None)"

definition engine_prefix :: "string \<Rightarrow> string option" where
  "engine_prefix s =
    Option.bind (drop_group s) (\<lambda>s1.
    Option.bind (first_some (map (\<lambda>level. after (level @ '' '') s1) [''DEBUG'', ''INFO'', ''WARNING'', ''ERROR''])) (\<lambda>s2.
    Option.bind (digit_pattern ''00-00 00:00:00 ['' s2) (\<lambda>s3.
    case span (\<lambda>c. c \<noteq> CHR '']'' \<and> c \<noteq> CHR 0x0A \<and> c \<noteq> CHR 0x0D) s3 of (inner, rest) \<Rightarrow>
      if 1 \<le> length inner \<and> length inner \<le> 160 then after ''] '' rest else None)))"

definition engine_message :: "string \<Rightarrow> string" where
  "engine_message text = (let s = strip text in case engine_prefix s of None \<Rightarrow> s | Some r \<Rightarrow> r)"

subsection \<open>Measurements\<close>

definition weights_found :: "string \<Rightarrow> (string \<times> string) list option" where
  "weights_found s =
    Option.bind (after ''Model loading took '' s) (\<lambda>s1.
    Option.bind (unsigned s1) (\<lambda>(mib, s2).
    Option.bind (after '' GiB'' s2) (\<lambda>s3.
    Option.bind (after '' and '' (case after '' memory'' s3 of None \<Rightarrow> s3 | Some r \<Rightarrow> r)) (\<lambda>s4.
    Option.bind (unsigned s4) (\<lambda>(ms, s5).
    if starts '' s'' s5 then Some [(''weights_mib'', mib), (''weights_load_ms'', ms)] else None)))))"

definition cache_found :: "string \<Rightarrow> (string \<times> string) list option" where
  "cache_found s =
    Option.bind (after ''Available KV cache memory: '' s) (\<lambda>s1.
    Option.bind (signed_number s1) (\<lambda>(mib, s2).
    if starts '' GiB'' s2 then Some [(''kv_cache_mib'', mib)] else None))"

definition tokens_found :: "string \<Rightarrow> (string \<times> string) list option" where
  "tokens_found s =
    Option.bind (after ''GPU KV cache size: '' s) (\<lambda>s1.
    Option.bind (counted_digits s1) (\<lambda>(n, s2).
    if starts '' tokens'' s2 then Some [(''kv_cache_tokens'', n)] else None))"

definition concurrency_at :: "string \<Rightarrow> (string \<times> string) list option" where
  "concurrency_at s =
    Option.bind (after ''Maximum concurrency for '' s) (\<lambda>s1.
    Option.bind (counted_digits s1) (\<lambda>(_, s2).
    Option.bind (after '' tokens per request: '' s2) (\<lambda>s3.
    Option.bind (unsigned s3) (\<lambda>(x, s4).
    if starts ''x'' s4 then Some [(''concurrency_x100'', x)] else None))))"

text \<open>The expression is searched for at the start of the text and after each comma and space.\<close>

fun after_commas :: "string \<Rightarrow> string list" where
  "after_commas [] = []"
| "after_commas (c # s) = (case after '', '' (c # s) of None \<Rightarrow> after_commas s | Some r \<Rightarrow> r # after_commas s)"

definition concurrency_found :: "string \<Rightarrow> (string \<times> string) list option" where
  "concurrency_found s = first_some (map concurrency_at (s # after_commas s))"

definition MEASUREMENTS :: "(string \<Rightarrow> (string \<times> string) list option) list" where
  "MEASUREMENTS = [weights_found, cache_found, tokens_found, concurrency_found]"

definition measured_fields :: "string \<Rightarrow> (string \<times> string) list" where
  "measured_fields s = concat (map (\<lambda>p. case p s of None \<Rightarrow> [] | Some fs \<Rightarrow> fs) MEASUREMENTS)"

definition field_scale :: "string \<Rightarrow> int" where
  "field_scale name = (case SCALE (last (split_on (CHR ''_'') name)) of None \<Rightarrow> 0 | Some f \<Rightarrow> f)"

definition measured_numbers :: "(string \<times> string) list \<Rightarrow> (string \<times> int) list" where
  "measured_numbers fs =
    List.map_filter (\<lambda>(name, value).
      map_option (Pair name) (diagnostic_number (Text_value (filter (\<lambda>c. c \<noteq> CHR '','') value)) (field_scale name)
        (name = ''kv_cache_mib''))) fs"

subsection \<open>Choices in single messages\<close>

definition not_space :: "char \<Rightarrow> bool" where "not_space c \<longleftrightarrow> \<not> is_space c"

text \<open>A full stop at the end may be missing.\<close>

definition enclosed_stop :: "(char \<Rightarrow> bool) \<Rightarrow> string \<Rightarrow> string \<Rightarrow> string \<Rightarrow> string option" where
  "enclosed_stop p prefix suffix s =
    (case enclosed_word p prefix (suffix @ ''.'') s of None \<Rightarrow> enclosed_word p prefix suffix s | Some w \<Rightarrow> Some w)"

definition gemm_choice :: "string \<Rightarrow> choice list option" where
  "gemm_choice s = map_option (\<lambda>w. [(''nvfp4_gemm_'' @ word_of NVFP4_KERNELS w, [])])
     (enclosed_stop not_space ''Using '' '' for NVFP4 GEMM'' s)"

definition quote :: string where "quote = [CHR 0x27]"

definition override_choice :: "string \<Rightarrow> choice list option" where
  "override_choice s =
    Option.bind (after (''Applied linear backend override for '' @ quote) s) (\<lambda>s1.
    Option.bind (some_span (\<lambda>c. [c] \<noteq> quote) s1) (\<lambda>(quant, s2).
    Option.bind (after (quote @ '': '' @ quote) s2) (\<lambda>s3.
    Option.bind (some_span (\<lambda>c. [c] \<noteq> quote) s3) (\<lambda>(backend, s4).
    if s4 = quote \<or> s4 = quote @ ''.''
    then Some [(''linear_override_'' @ known quant LINEAR_QUANTS @ ''_'' @ known backend LINEAR_BACKENDS, [])] else None))))"

definition selected_choice :: "string \<Rightarrow> choice list option" where
  "selected_choice s = map_option (\<lambda>w. [(''attention_selected_'' @ known w ATTENTION_BACKENDS, [])])
     (enclosed_word is_word ''Using AttentionBackendEnum.'' '' backend.'' s)"

definition chosen_choice :: "string \<Rightarrow> choice list option" where
  "chosen_choice s =
    Option.bind (after ''Using '' s) (\<lambda>s1.
    Option.bind (some_span is_word s1) (\<lambda>(w, s2).
    Option.bind (enclosed_word (\<lambda>c. c \<noteq> CHR 0x0A) '' attention backend out of potential backends: '' ''.'' s2) (\<lambda>_.
    Some [(''attention_chosen_'' @ known w ATTENTION_BACKENDS, [])])))"

definition xqa_choice :: "string \<Rightarrow> choice list option" where
  "xqa_choice s =
    map_option (\<lambda>w. case diagnostic_number (Text_value w) 1 False of None \<Rightarrow> [] | Some n \<Rightarrow> [(''flashinfer_xqa_reverted'', [(''head_dim'', n)])])
      (enclosed_word is_digit ''FlashInfer XQA decode does not support head_dim=''
        ''; reverting this KV-cache group to native FlashInfer decode.'' s)"

text \<open>Nine words with single spaces between them.\<close>

definition dtypes_choice :: "string \<Rightarrow> choice list option" where
  "dtypes_choice s =
    (case split_on (CHR '' '') s of
       [a, b, c, d, prefill, decode, backend, cache, arch] \<Rightarrow>
         if [a, b, c, d] = [''FlashInfer'', ''resolved'', ''query'', ''dtypes:''] \<and>
            enclosed_word not_space ''prefill='' '','' prefill \<noteq> None \<and> enclosed_word not_space ''decode='' '','' decode \<noteq> None \<and>
            enclosed_word not_space ''kv_cache_dtype='' '','' cache \<noteq> None \<and> enclosed_word not_space ''arch='' [] arch \<noteq> None
         then map_option (\<lambda>w. [(''flashinfer_decode_'' @ word_of DECODE_PATHS w, [])])
           (enclosed_word (\<lambda>c. is_word c \<or> c = CHR ''-'') ''decode_backend='' '','' backend)
         else None
     | _ \<Rightarrow> None)"

definition runner_choice :: "string \<Rightarrow> choice list option" where
  "runner_choice s =
    (if s = ''Using V2 Model Runner'' then Some [(''model_runner_v2'', [])]
     else if enclosed_word (\<lambda>c. c \<noteq> CHR 0x0A) ''Model Runner V2 does not yet support '' ''; using the V1 model runner instead.'' s \<noteq> None
     then Some [(''model_runner_v1'', [])] else None)"

definition graphs_choice :: "string \<Rightarrow> choice list option" where
  "graphs_choice s =
    Option.bind (after ''Graph capturing finished in '' s) (\<lambda>s1.
    Option.bind (some_span is_digit s1) (\<lambda>(secs, s2).
    Option.bind (after '' secs, took '' s2) (\<lambda>s3.
    Option.bind (signed_number s3) (\<lambda>(gib, s4).
    if s4 = '' GiB''
    then (case (diagnostic_number (Text_value secs) 1000 False, diagnostic_number (Text_value gib) 1024 False) of
        (Some ms, Some mib) \<Rightarrow> Some [(''graphs_captured'', [(''capture_ms'', ms), (''graph_mib'', mib)])]
      | _ \<Rightarrow> Some [])
    else None))))"

definition offloading_choice :: "string \<Rightarrow> choice list option" where
  "offloading_choice s = map_option (\<lambda>w. [(''kv_offloading_'' @ word_of OFFLOADING_SPECS w, [])])
     (enclosed_word not_space ''Creating offloading spec with name: '' [] s)"

subsection \<open>The arguments that are not vLLM's own\<close>

datatype const =
    CStr string
  | CInt int
  | CFloat "rat option"
  | CBool bool
  | CNone
  | COther

text \<open>The nodes of \<^verbatim>\<open>ast\<close> that are read: the key of an unpacked mapping and the name of an unpacked
  keyword are \<open>None\<close>, and a call has its function's name, where it is one, and whether it has no
  positional arguments.\<close>

datatype tree =
    Const const
  | Minus tree
  | Plus tree
  | Dict "(tree option \<times> tree) list"
  | Call "string option" bool "(string option \<times> tree) list"
  | Sequence
  | Other_node

type_synonym node_fields = "(string \<times> tree) list"

definition const_name :: "tree option \<Rightarrow> string option" where
  "const_name key = (case key of Some (Const (CStr s)) \<Rightarrow> Some s | _ \<Rightarrow> None)"

definition named_pairs :: "(string option \<times> tree) list \<Rightarrow> node_fields" where
  "named_pairs ps = List.map_filter (\<lambda>(n, v). map_option (\<lambda>s. (s, v)) n) ps"

definition argument_fields :: "tree option \<Rightarrow> string \<Rightarrow> node_fields" where
  "argument_fields node config =
    (let pairs = (case node of
           Some (Dict kvs) \<Rightarrow>
             let ps = named_pairs (map (\<lambda>(k, v). (const_name k, v)) kvs) in if length ps \<noteq> length kvs then [] else ps
         | Some (Call f bare kws) \<Rightarrow>
             if f = Some config \<and> bare \<and> list_all (\<lambda>(n, v). n \<noteq> None) kws then named_pairs kws else []
         | _ \<Rightarrow> [])
     in if distinct (map fst pairs) then pairs else [])"

text \<open>The value of a constant or of a signed number; any other node is itself, and so is no scalar.\<close>

fun signed_literal :: "(int \<Rightarrow> int) \<Rightarrow> (rat \<Rightarrow> rat) \<Rightarrow> const option \<Rightarrow> const option" where
  "signed_literal f g (Some (CInt n)) = Some (CInt (f n))"
| "signed_literal f g (Some (CFloat q)) = Some (CFloat (map_option g q))"
| "signed_literal f g _ = None"

fun node_literal :: "tree \<Rightarrow> const option" where
  "node_literal (Const c) = Some c"
| "node_literal (Minus t) = signed_literal uminus uminus (node_literal t)"
| "node_literal (Plus t) = signed_literal id id (node_literal t)"
| "node_literal _ = None"

definition argument_literal :: "tree option \<Rightarrow> const option" where
  "argument_literal node = Option.bind node node_literal"

fun const_number :: "const \<Rightarrow> measure_value option" where
  "const_number (CInt n) = Some (Int_value n)"
| "const_number (CFloat q) = Some (Float_value q)"
| "const_number _ = None"

definition number_args :: "node_fields \<Rightarrow> bool \<Rightarrow> choice list" where
  "number_args args spec =
    concat (map (\<lambda>(key, code, factor).
      if (key = ''num_speculative_tokens'') \<noteq> spec then []
      else let value = argument_literal (map_of args key)
           in if key = ''prefix_cache_retention_interval'' \<and> value = Some CNone then [(code @ ''_none'', [])]
              else (case Option.bind (Option.bind value const_number) (\<lambda>v. diagnostic_number v factor False) of
                  None \<Rightarrow> [] | Some n \<Rightarrow> [(code, [(''value'', n)])])) ARG_NUMBERS)"

definition word_args :: "node_fields \<Rightarrow> bool \<Rightarrow> choice list" where
  "word_args args spec =
    concat (map (\<lambda>(key, ws).
      if (key \<in> {''draft_sample_method'', ''rejection_sample_method''}) \<noteq> spec then []
      else (case argument_literal (map_of args key) of
          Some (CStr w) \<Rightarrow> [(''arg_'' @ key @ ''_'' @ known w ws, [])] | _ \<Rightarrow> [])) ARG_WORDS)"

definition flag_args :: "node_fields \<Rightarrow> choice list" where
  "flag_args args = concat (map (\<lambda>key. if map_of args key = Some Sequence then [(''arg_'' @ key, [])] else []) ARG_FLAGS)"

definition backend_args :: "string \<Rightarrow> string list \<Rightarrow> string list \<Rightarrow> node_fields \<Rightarrow> choice list" where
  "backend_args code keys backends entries =
    concat (map (\<lambda>(k, node). case argument_literal (Some node) of
        Some (CStr w) \<Rightarrow> [(code @ known k keys @ ''_'' @ known w backends, [])] | _ \<Rightarrow> []) entries)"

definition ARGS_PREFIX :: string where "ARGS_PREFIX = ''non-default args: ''"

definition non_default_args :: "(string \<Rightarrow> (tree \<times> nat) option) \<Rightarrow> string \<Rightarrow> choice list" where
  "non_default_args parse text =
    (case (if length text > LINE_BYTES then None else after ARGS_PREFIX text) of None \<Rightarrow> []
     | Some source \<Rightarrow>
         (case parse source of None \<Rightarrow> []
          | Some (node, nodes) \<Rightarrow>
              if nodes > 512 then []
              else let args = argument_fields (Some node) [];
                       spec = argument_fields (map_of args ''speculative_config'') ''SpeculativeConfig'';
                       kernel = argument_fields (map_of args ''kernel_config'') ''KernelConfig'';
                       attention = argument_fields (map_of args ''attention_config'') ''AttentionConfig''
                   in number_args args False @ word_args args False @ number_args spec True @ word_args spec True @ flag_args spec @
                      backend_args ''arg_linear_'' LINEAR_QUANTS LINEAR_BACKENDS
                        (argument_fields (map_of kernel ''linear_backend_per_quant'') []) @
                      backend_args ''arg_attention_'' CACHE_KINDS ATTENTION_BACKENDS
                        (argument_fields (map_of attention ''backend_per_kind'') [])))"

definition engine_choices :: "(string \<Rightarrow> (tree \<times> nat) option) \<Rightarrow> string \<Rightarrow> choice list" where
  "engine_choices parse raw =
    (if length raw > LINE_BYTES then []
     else let s = engine_message raw
          in if starts ARGS_PREFIX s then non_default_args parse s
             else (case first_some (map (\<lambda>f. f s) [gemm_choice, override_choice, selected_choice, chosen_choice, xqa_choice,
                      dtypes_choice, runner_choice, graphs_choice, offloading_choice]) of
                 None \<Rightarrow> [] | Some cs \<Rightarrow> cs))"

subsection \<open>A line of output\<close>

text \<open>A row of the log: its event, its code where it has one, and its numbers.\<close>

type_synonym engine_row = "string \<times> string option \<times> (string \<times> int) list"

definition category_of :: "(string \<times> string list) list \<Rightarrow> string \<Rightarrow> string option" where
  "category_of categories lowered =
    map_option fst (find (\<lambda>(name, ws). list_ex (\<lambda>w. contains w lowered) ws) categories)"

definition note_category :: "string \<times> (string \<times> string list) list \<Rightarrow> string \<Rightarrow> engine_row list \<times> string set \<Rightarrow> engine_row list \<times> string set" where
  "note_category ec lowered st =
    (case (ec, st) of ((event, categories), (rows, noted)) \<Rightarrow>
       (case category_of categories lowered of None \<Rightarrow> st
        | Some c \<Rightarrow> if c \<in> noted then st else (rows @ [(event, Some c, [])], insert c noted)))"

definition choice_rows :: "choice list \<Rightarrow> engine_row list" where
  "choice_rows cs = map (\<lambda>(code, ns). (''engine_choice'', Some code, ns)) cs"

definition engine_line ::
  "(string \<Rightarrow> (tree \<times> nat) option) \<Rightarrow> (string \<Rightarrow> string) \<Rightarrow> string set \<Rightarrow> string \<Rightarrow> engine_row list \<times> string set"
where
  "engine_line parse decode noted line =
    (let s = engine_message (decode (take LINE_BYTES line))
     in if starts ARGS_PREFIX s then (choice_rows (non_default_args parse s), noted)
        else (case measured_fields s of
            _ # _ \<Rightarrow> let ns = measured_numbers (measured_fields s)
              in (if ns = [] then [] else [(''engine_measure'', None, ns)], noted)
          | [] \<Rightarrow>
              (case engine_choices parse s of
                 _ # _ \<Rightarrow> (choice_rows (engine_choices parse s), noted)
               | [] \<Rightarrow>
                   foldl (\<lambda>st ec. note_category ec (lower s) st) ([], noted)
                     [(''engine_failure'', FAILURES), (''engine_warning'', WARNINGS)])))"

subsection \<open>What a row may hold\<close>

definition vocabulary :: "string list \<Rightarrow> string set" where
  "vocabulary ws = insert ''other'' (lower ` set ws)"

definition table_words :: "(string \<times> string) list \<Rightarrow> string set" where
  "table_words table = insert ''other'' (snd ` set table)"

definition word_codes :: "string \<Rightarrow> string set \<Rightarrow> string set" where
  "word_codes prefix A = (@) prefix ` A"

definition pair_codes :: "string \<Rightarrow> string set \<Rightarrow> string set \<Rightarrow> string set" where
  "pair_codes prefix A B = (\<lambda>(a, b). prefix @ a @ ''_'' @ b) ` (A \<times> B)"

definition number_codes :: "string set" where
  "number_codes = (\<lambda>(_, code, _). code) ` set ARG_NUMBERS \<union> (\<lambda>(_, code, _). code @ ''_none'') ` set ARG_NUMBERS"

definition arg_word_codes :: "string set" where
  "arg_word_codes = (\<Union>(key, ws) \<in> set ARG_WORDS. pair_codes ''arg_'' {key} (vocabulary ws))"

text \<open>Every code that a row can have: fixed words, and pairs of words from fixed tables.\<close>

definition engine_codes :: "string set" where
  "engine_codes =
    {''flashinfer_xqa_reverted'', ''model_runner_v2'', ''model_runner_v1'', ''graphs_captured''} \<union>
    word_codes ''nvfp4_gemm_'' (table_words NVFP4_KERNELS) \<union>
    pair_codes ''linear_override_'' (vocabulary LINEAR_QUANTS) (vocabulary LINEAR_BACKENDS) \<union>
    word_codes ''attention_selected_'' (vocabulary ATTENTION_BACKENDS) \<union>
    word_codes ''attention_chosen_'' (vocabulary ATTENTION_BACKENDS) \<union>
    word_codes ''flashinfer_decode_'' (table_words DECODE_PATHS) \<union>
    word_codes ''kv_offloading_'' (table_words OFFLOADING_SPECS) \<union>
    number_codes \<union> arg_word_codes \<union> word_codes ''arg_'' (set ARG_FLAGS) \<union>
    pair_codes ''arg_linear_'' (vocabulary LINEAR_QUANTS) (vocabulary LINEAR_BACKENDS) \<union>
    pair_codes ''arg_attention_'' (vocabulary CACHE_KINDS) (vocabulary ATTENTION_BACKENDS) \<union>
    fst ` set FAILURES \<union> fst ` set WARNINGS"

lemma codes_members:
  "w \<in> A \<Longrightarrow> prefix @ w \<in> word_codes prefix A"
  "a \<in> A \<Longrightarrow> b \<in> B \<Longrightarrow> prefix @ a @ ''_'' @ b \<in> pair_codes prefix A B"
  "(key, code, f) \<in> set ARG_NUMBERS \<Longrightarrow> code \<in> number_codes"
  "(key, code, f) \<in> set ARG_NUMBERS \<Longrightarrow> code @ ''_none'' \<in> number_codes"
  "(key, ws) \<in> set ARG_WORDS \<Longrightarrow> x \<in> vocabulary ws \<Longrightarrow> ''arg_'' @ key @ ''_'' @ x \<in> arg_word_codes"
  "(name, ws) \<in> set T \<Longrightarrow> name \<in> fst ` set T"
  unfolding word_codes_def pair_codes_def number_codes_def arg_word_codes_def by force+

definition NUMBER_FIELDS :: "string set" where
  "NUMBER_FIELDS = {''value'', ''head_dim'', ''capture_ms'', ''graph_mib'', ''weights_mib'', ''weights_load_ms'', ''kv_cache_mib'',
     ''kv_cache_tokens'', ''concurrency_x100''}"

definition numbers_ok :: "(string \<times> int) list \<Rightarrow> bool" where
  "numbers_ok ns \<longleftrightarrow> list_all (\<lambda>(name, n). name \<in> NUMBER_FIELDS \<and> \<bar>n\<bar> \<le> DIAGNOSTIC_MAX) ns"

definition choice_ok :: "choice \<Rightarrow> bool" where
  "choice_ok c \<longleftrightarrow> fst c \<in> engine_codes \<and> numbers_ok (snd c)"

definition row_ok :: "engine_row \<Rightarrow> bool" where
  "row_ok r \<longleftrightarrow> (case r of (event, code, ns) \<Rightarrow>
     event \<in> {''engine_choice'', ''engine_measure'', ''engine_failure'', ''engine_warning''} \<and>
     (case code of None \<Rightarrow> True | Some c \<Rightarrow> c \<in> engine_codes) \<and> numbers_ok ns)"

lemma known_in: "known w ws \<in> vocabulary ws"
  by (simp add: known_def vocabulary_def)

lemma word_of_in: "word_of table w \<in> table_words table"
  by (auto simp: word_of_def table_words_def image_iff dest!: map_of_SomeD split: option.split) force

lemma engine_codes_finite: "finite engine_codes"
proof -
  have v: "finite (vocabulary ws)" "finite (table_words t)" for ws t by (simp_all add: vocabulary_def table_words_def)
  then have "finite arg_word_codes" unfolding arg_word_codes_def pair_codes_def by auto
  then show ?thesis
    unfolding engine_codes_def finite_Un word_codes_def pair_codes_def number_codes_def using v by simp
qed

lemma round_bounded: "\<bar>q\<bar> \<le> of_int M \<Longrightarrow> \<bar>round_half_even q\<bar> \<le> M"
proof -
  assume "\<bar>q\<bar> \<le> of_int M"
  then have q: "q \<le> of_int M" "- of_int M \<le> q" by (simp_all add: abs_le_iff)
  have f: "of_int \<lfloor>q\<rfloor> \<le> q" "- M \<le> \<lfloor>q\<rfloor>" "\<lfloor>q\<rfloor> \<le> M" using q by (simp_all add: floor_le_iff le_floor_iff)
  have "\<lfloor>q\<rfloor> < M \<or> q - of_int \<lfloor>q\<rfloor> = 0"
  proof (cases "\<lfloor>q\<rfloor> = M")
    case True
    with q f show ?thesis by auto
  qed (use f in auto)
  with f show ?thesis by (auto simp: round_half_even_def Let_def abs_le_iff)
qed

lemma diagnostic_bounded: "diagnostic_number v f sg = Some n \<Longrightarrow> \<bar>n\<bar> \<le> DIAGNOSTIC_MAX"
  by (auto simp: diagnostic_number_def Let_def bind_eq_Some_conv split: if_splits intro: round_bounded)

lemma diagnostic_ok: "diagnostic_number v f sg = Some n \<Longrightarrow> name \<in> NUMBER_FIELDS \<Longrightarrow> numbers_ok [(name, n)]"
  by (simp add: numbers_ok_def diagnostic_bounded)

lemma first_some_in: "first_some xs = Some y \<Longrightarrow> Some y \<in> set xs"
  by (induction xs rule: first_some.induct) auto

text \<open>One lemma per reader of a message.\<close>

lemma codes_intro:
  "w \<in> table_words NVFP4_KERNELS \<Longrightarrow> ''nvfp4_gemm_'' @ w \<in> engine_codes"
  "a \<in> vocabulary LINEAR_QUANTS \<Longrightarrow> b \<in> vocabulary LINEAR_BACKENDS \<Longrightarrow> ''linear_override_'' @ a @ ''_'' @ b \<in> engine_codes"
  "v \<in> vocabulary ATTENTION_BACKENDS \<Longrightarrow> ''attention_selected_'' @ v \<in> engine_codes"
  "v \<in> vocabulary ATTENTION_BACKENDS \<Longrightarrow> ''attention_chosen_'' @ v \<in> engine_codes"
  "d \<in> table_words DECODE_PATHS \<Longrightarrow> ''flashinfer_decode_'' @ d \<in> engine_codes"
  "k \<in> table_words OFFLOADING_SPECS \<Longrightarrow> ''kv_offloading_'' @ k \<in> engine_codes"
  "(key, code, f) \<in> set ARG_NUMBERS \<Longrightarrow> code \<in> engine_codes"
  "(key, code, f) \<in> set ARG_NUMBERS \<Longrightarrow> code @ ''_none'' \<in> engine_codes"
  "(key, ws) \<in> set ARG_WORDS \<Longrightarrow> x \<in> vocabulary ws \<Longrightarrow> ''arg_'' @ key @ ''_'' @ x \<in> engine_codes"
  "fl \<in> set ARG_FLAGS \<Longrightarrow> ''arg_'' @ fl \<in> engine_codes"
  "a \<in> vocabulary LINEAR_QUANTS \<Longrightarrow> b \<in> vocabulary LINEAR_BACKENDS \<Longrightarrow> ''arg_linear_'' @ a @ ''_'' @ b \<in> engine_codes"
  "c \<in> vocabulary CACHE_KINDS \<Longrightarrow> v \<in> vocabulary ATTENTION_BACKENDS \<Longrightarrow> ''arg_attention_'' @ c @ ''_'' @ v \<in> engine_codes"
  "(name, ws) \<in> set FAILURES \<Longrightarrow> name \<in> engine_codes"
  "(name, ws) \<in> set WARNINGS \<Longrightarrow> name \<in> engine_codes"
  "''flashinfer_xqa_reverted'' \<in> engine_codes" "''model_runner_v2'' \<in> engine_codes" "''model_runner_v1'' \<in> engine_codes"
  "''graphs_captured'' \<in> engine_codes"
  by (simp_all only: engine_codes_def Un_iff codes_members insert_iff simp_thms)

lemma choice_ok_Nil: "code \<in> engine_codes \<Longrightarrow> choice_ok (code, [])"
  by (simp add: choice_ok_def numbers_ok_def)

lemma number_args_ok: "list_all choice_ok (number_args args sp)"
proof -
  have "list_all choice_ok (if (key = ''num_speculative_tokens'') \<noteq> sp then []
      else let value = argument_literal (map_of args key)
           in if key = ''prefix_cache_retention_interval'' \<and> value = Some CNone then [(code @ ''_none'', [])]
              else (case Option.bind (Option.bind value const_number) (\<lambda>v. diagnostic_number v factor False) of
                  None \<Rightarrow> [] | Some n \<Rightarrow> [(code, [(''value'', n)])]))"
    if "(key, code, factor) \<in> set ARG_NUMBERS" for key code factor
    using codes_intro(7,8) [OF that]
    by (auto simp: Let_def choice_ok_def NUMBER_FIELDS_def bind_eq_Some_conv numbers_ok_def dest: diagnostic_bounded
        split: option.split)
  then show ?thesis unfolding number_args_def by (auto simp: list_all_iff)
qed

lemma word_args_ok: "list_all choice_ok (word_args args sp)"
proof -
  have "list_all choice_ok (if (key \<in> {''draft_sample_method'', ''rejection_sample_method''}) \<noteq> sp then []
      else (case argument_literal (map_of args key) of
          Some (CStr w) \<Rightarrow> [(''arg_'' @ key @ ''_'' @ known w ws, [])] | _ \<Rightarrow> []))"
    if "(key, ws) \<in> set ARG_WORDS" for key ws
    using codes_intro(9) [OF that known_in] by (auto simp: choice_ok_Nil split: option.split const.split)
  then show ?thesis unfolding word_args_def by (fastforce simp: list_all_iff)
qed

lemma flag_args_ok: "list_all choice_ok (flag_args args)"
  unfolding flag_args_def by (auto simp: list_all_iff choice_ok_Nil codes_intro(10) [simplified])

lemma backend_args_ok:
  assumes "\<And>a b. a \<in> vocabulary keys \<Longrightarrow> b \<in> vocabulary backends \<Longrightarrow> code @ a @ ''_'' @ b \<in> engine_codes"
  shows "list_all choice_ok (backend_args code keys backends entries)"
proof -
  have "choice_ok (code @ known a keys @ ''_'' @ known w backends, [])" for a w
    by (rule choice_ok_Nil) (rule assms [OF known_in known_in])
  then show ?thesis unfolding backend_args_def by (auto simp: list_all_iff split: option.splits const.splits)
qed

lemma non_default_args_ok: "list_all choice_ok (non_default_args parse s)"
  unfolding non_default_args_def Let_def
  by (auto intro: number_args_ok word_args_ok flag_args_ok backend_args_ok codes_intro(11,12) split: option.split)

lemma single_choices_ok:
  "gemm_choice s = Some cs \<Longrightarrow> list_all choice_ok cs"
  "override_choice s = Some cs \<Longrightarrow> list_all choice_ok cs"
  "selected_choice s = Some cs \<Longrightarrow> list_all choice_ok cs"
  "chosen_choice s = Some cs \<Longrightarrow> list_all choice_ok cs"
  "dtypes_choice s = Some cs \<Longrightarrow> list_all choice_ok cs"
  "offloading_choice s = Some cs \<Longrightarrow> list_all choice_ok cs"
  "runner_choice s = Some cs \<Longrightarrow> list_all choice_ok cs"
proof -
  note k = choice_ok_Nil [OF codes_intro(1) [OF word_of_in]] choice_ok_Nil [OF codes_intro(2) [OF known_in known_in]]
    choice_ok_Nil [OF codes_intro(3) [OF known_in]] choice_ok_Nil [OF codes_intro(4) [OF known_in]]
    choice_ok_Nil [OF codes_intro(5) [OF word_of_in]] choice_ok_Nil [OF codes_intro(6) [OF word_of_in]]
    choice_ok_Nil [OF codes_intro(16)] choice_ok_Nil [OF codes_intro(17)]
  note k = this k [simplified]
  show "gemm_choice s = Some cs \<Longrightarrow> list_all choice_ok cs"
    by (auto simp: gemm_choice_def k)
  show "override_choice s = Some cs \<Longrightarrow> list_all choice_ok cs"
    by (auto simp: override_choice_def bind_eq_Some_conv k split: if_splits)
  show "selected_choice s = Some cs \<Longrightarrow> list_all choice_ok cs"
    by (auto simp: selected_choice_def k)
  show "chosen_choice s = Some cs \<Longrightarrow> list_all choice_ok cs"
    by (auto simp: chosen_choice_def bind_eq_Some_conv k)
  show "dtypes_choice s = Some cs \<Longrightarrow> list_all choice_ok cs"
    by (auto simp: dtypes_choice_def k split: list.splits if_splits)
  show "offloading_choice s = Some cs \<Longrightarrow> list_all choice_ok cs"
    by (auto simp: offloading_choice_def k)
  show "runner_choice s = Some cs \<Longrightarrow> list_all choice_ok cs"
    by (auto simp: runner_choice_def k split: if_splits)
qed

lemma numbered_choices_ok:
  "xqa_choice s = Some cs \<Longrightarrow> list_all choice_ok cs"
  "graphs_choice s = Some cs \<Longrightarrow> list_all choice_ok cs"
proof -
  show "xqa_choice s = Some cs \<Longrightarrow> list_all choice_ok cs"
    using codes_intro(15) diagnostic_ok
    by (fastforce simp: xqa_choice_def choice_ok_def NUMBER_FIELDS_def split: option.splits)
  show "graphs_choice s = Some cs \<Longrightarrow> list_all choice_ok cs"
    using codes_intro(18)
    by (auto simp: graphs_choice_def bind_eq_Some_conv choice_ok_def numbers_ok_def NUMBER_FIELDS_def
        dest!: diagnostic_bounded split: option.splits if_splits)
qed

lemma engine_choices_ok: "list_all choice_ok (engine_choices parse s)"
proof -
  have "list_all choice_ok cs" if "first_some (map (\<lambda>f. f t) [gemm_choice, override_choice, selected_choice, chosen_choice,
      xqa_choice, dtypes_choice, runner_choice, graphs_choice, offloading_choice]) = Some cs" for t cs
    using first_some_in [OF that] single_choices_ok [of t cs] numbered_choices_ok [of t cs] by auto
  then show ?thesis
    unfolding engine_choices_def Let_def by (auto intro: non_default_args_ok split: option.split)
qed

lemma measured_names: "fst ` set (measured_fields s) \<subseteq> NUMBER_FIELDS"
proof -
  have c: "concurrency_at t = Some fs \<Longrightarrow> fst ` set fs \<subseteq> NUMBER_FIELDS" for t fs
    by (auto simp: concurrency_at_def bind_eq_Some_conv NUMBER_FIELDS_def split: if_splits)
  have m: "p s = Some fs \<Longrightarrow> fst ` set fs \<subseteq> NUMBER_FIELDS" if "p \<in> set MEASUREMENTS" for p fs
  proof -
    have "weights_found s = Some fs \<Longrightarrow> fst ` set fs \<subseteq> NUMBER_FIELDS"
      by (auto simp: weights_found_def bind_eq_Some_conv NUMBER_FIELDS_def split: if_splits)
    moreover have "cache_found s = Some fs \<Longrightarrow> fst ` set fs \<subseteq> NUMBER_FIELDS"
      by (auto simp: cache_found_def bind_eq_Some_conv NUMBER_FIELDS_def split: if_splits)
    moreover have "tokens_found s = Some fs \<Longrightarrow> fst ` set fs \<subseteq> NUMBER_FIELDS"
      by (auto simp: tokens_found_def bind_eq_Some_conv NUMBER_FIELDS_def split: if_splits)
    moreover have "concurrency_found s = Some fs \<Longrightarrow> fst ` set fs \<subseteq> NUMBER_FIELDS"
      unfolding concurrency_found_def by (drule first_some_in) (auto dest!: c [OF sym])
    ultimately show "p s = Some fs \<Longrightarrow> fst ` set fs \<subseteq> NUMBER_FIELDS" using that by (auto simp: MEASUREMENTS_def)
  qed
  have "fst ` set (case p s of None \<Rightarrow> [] | Some fs \<Rightarrow> fs) \<subseteq> NUMBER_FIELDS" if "p \<in> set MEASUREMENTS" for p
    using m [OF that] by (cases "p s") simp_all
  then show ?thesis unfolding measured_fields_def set_concat set_map image_UN by blast
qed

lemma measured_numbers_ok: "fst ` set fs \<subseteq> NUMBER_FIELDS \<Longrightarrow> numbers_ok (measured_numbers fs)"
  by (induction fs) (auto simp: measured_numbers_def numbers_ok_def List.map_filter_def diagnostic_bounded)

lemma category_in: "category_of T t = Some c \<Longrightarrow> c \<in> fst ` set T"
  by (auto simp: category_of_def find_Some_iff image_iff) (metis fst_conv nth_mem)

definition categories :: "string set" where
  "categories = fst ` set FAILURES \<union> fst ` set WARNINGS"

lemma note_category_ok:
  assumes "list_all row_ok rows" and "noted' \<subseteq> noted \<union> categories"
    and "ec = (''engine_failure'', FAILURES) \<or> ec = (''engine_warning'', WARNINGS)"
  shows "list_all row_ok (fst (note_category ec t (rows, noted'))) \<and> snd (note_category ec t (rows, noted')) \<subseteq> noted \<union> categories"
proof -
  have c: "c \<in> fst ` set FAILURES \<union> fst ` set WARNINGS \<Longrightarrow> c \<in> engine_codes" for c
    unfolding engine_codes_def by blast
  obtain event T where ec: "ec = (event, T)" "event \<in> {''engine_failure'', ''engine_warning''}" "fst ` set T \<subseteq> categories"
    using assms(3) by (cases ec) (auto simp: categories_def)
  show ?thesis
  proof (cases "category_of T t")
    case (Some x)
    then have "x \<in> categories" using ec(3) category_in by blast
    moreover from this have "row_ok (event, Some x, [])" using c ec(2) by (auto simp: row_ok_def numbers_ok_def categories_def)
    ultimately show ?thesis using assms(1,2) Some by (auto simp: note_category_def ec(1))
  qed (use assms in \<open>simp add: note_category_def ec(1)\<close>)
qed

definition logged_categories :: "engine_row list \<Rightarrow> string list" where
  "logged_categories rows = concat (map (\<lambda>(event, code, ns). if event = ''engine_choice'' then [] else (case code of None \<Rightarrow> [] | Some c \<Rightarrow> [c])) rows)"

lemma logged_simps:
  "logged_categories [] = []"
  "logged_categories ((event, None, ns) # rows) = logged_categories rows"
  "event \<noteq> ''engine_choice'' \<Longrightarrow> logged_categories ((event, Some c, ns) # rows) = c # logged_categories rows"
  by (simp_all add: logged_categories_def)

lemma logged_categories_choice: "logged_categories (choice_rows cs) = []"
  by (induction cs) (auto simp: logged_categories_def choice_rows_def)

text \<open>
  C21: Whatever vLLM prints, a row of the card's log holds nothing of its text. The code of a row is one
  of a fixed, finite set, its numbers have fixed names and fit in 53 bits, and a category of failure or
  warning is logged once only.
\<close>

theorem engine_output_private:
  "list_all row_ok (fst (engine_line parse decode noted line)) \<and> finite engine_codes \<and>
   distinct (logged_categories (fst (engine_line parse decode noted line))) \<and>
   set (logged_categories (fst (engine_line parse decode noted line))) \<inter> noted = {} \<and>
   snd (engine_line parse decode noted line) = noted \<union> set (logged_categories (fst (engine_line parse decode noted line)))"
proof -
  define t where "t = engine_message (decode (take LINE_BYTES line))"
  have rows: "list_all row_ok (choice_rows cs)" if "list_all choice_ok cs" for cs
    using that by (auto simp: choice_rows_def list_all_iff row_ok_def choice_ok_def)
  have m: "row_ok (''engine_measure'', None, measured_numbers (measured_fields t))"
    using measured_numbers_ok [OF measured_names] by (simp add: row_ok_def)
  define one where "one = note_category (''engine_failure'', FAILURES) (lower t) ([], noted)"
  define two where "two = note_category (''engine_warning'', WARNINGS) (lower t) one"
  have "list_all row_ok (fst one) \<and> snd one \<subseteq> noted \<union> categories"
    unfolding one_def by (rule note_category_ok) auto
  then have ok: "list_all row_ok (fst two)"
    unfolding two_def using note_category_ok [of "fst one" "snd one" noted "(''engine_warning'', WARNINGS)" "lower t"] by simp
  have fresh: "distinct (logged_categories (fst two)) \<and> set (logged_categories (fst two)) \<inter> noted = {} \<and>
      snd two = noted \<union> set (logged_categories (fst two))"
    by (cases "category_of FAILURES (lower t)"; cases "category_of WARNINGS (lower t)")
      (auto simp: two_def one_def note_category_def logged_simps)
  have u: "engine_line parse decode noted line =
      (if starts ARGS_PREFIX t then (choice_rows (non_default_args parse t), noted)
       else if measured_fields t \<noteq> [] then (if measured_numbers (measured_fields t) = [] then []
           else [(''engine_measure'', None, measured_numbers (measured_fields t))], noted)
       else if engine_choices parse t \<noteq> [] then (choice_rows (engine_choices parse t), noted) else two)"
    unfolding engine_line_def Let_def t_def [symmetric] foldl.simps one_def [symmetric] two_def [symmetric]
    by (auto split: list.split)
  show ?thesis
    using m ok fresh engine_codes_finite
    unfolding u by (simp add: logged_simps logged_categories_choice rows non_default_args_ok engine_choices_ok)
qed

end
