(* ===== verification/Preflight.thy ===== *)
theory Preflight
  imports Engine_Client Python_Floats
begin

text \<open>
  What a container must have before a rented card loads anything, \<^verbatim>\<open>simple_serving/preflight.py\<close>: the
  sizes of the copy of the KV cache in RAM, of the GPU and of the disk, and the three commands with
  their lines of JSON. The texts of the system's files, the free space of disks and what \<^verbatim>\<open>nvidia-smi\<close>
  prints are arguments; a file that cannot be read is \<open>None\<close>.
\<close>

subsection \<open>Numbers of the container\<close>

definition UNFIT :: int where "UNFIT = 9"
definition MIB :: int where "MIB = 2 ^ 20"
definition GIB :: int where "GIB = 2 ^ 30"
definition SHM_MARGIN_MIB :: int where "SHM_MARGIN_MIB = 512"
definition ENGINE_RESERVE_MIB :: int where "ENGINE_RESERVE_MIB = 12 * 1024"
definition NO_LIMIT :: int where "NO_LIMIT = 2 ^ 60"
definition DENSE_KIB_PER_TOKEN :: int where "DENSE_KIB_PER_TOKEN = 440"

definition shm_free_mib :: "int option \<Rightarrow> int option" where
  "shm_free_mib disk = map_option (\<lambda>free. free div MIB) disk"

text \<open>The last MemTotal line counts; one that cannot be read leaves no total at all.\<close>

definition meminfo_step :: "int option option \<Rightarrow> string \<Rightarrow> int option option" where
  "meminfo_step acc line =
    Option.bind acc (\<lambda>total.
    if starts ''MemTotal:'' line
    then (case words line of _ # kb # _ \<Rightarrow> map_option (\<lambda>n. Some (n * 1024)) (py_int kb) | _ \<Rightarrow> None)
    else Some total)"

definition mem_total :: "string list option \<Rightarrow> int option" where
  "mem_total meminfo = Option.bind meminfo (\<lambda>lines. Option.bind (foldl meminfo_step (Some None) lines) id)"

text \<open>The first of the two files that can be read is the one that counts.\<close>

fun cgroup_limit :: "string option list \<Rightarrow> int option" where
  "cgroup_limit [] = None"
| "cgroup_limit (None # files) = cgroup_limit files"
| "cgroup_limit (Some file # files) =
    (let t = strip file; n = int (of_digits 10 t) in if is_digits t \<and> n < NO_LIMIT then Some n else None)"

definition memory_limit_mib :: "string list option \<Rightarrow> string option \<Rightarrow> string option \<Rightarrow> int option" where
  "memory_limit_mib meminfo v2 v1 =
    (case (mem_total meminfo, cgroup_limit [v2, v1]) of
       (None, None) \<Rightarrow> None
     | (Some t, None) \<Rightarrow> Some (t div MIB)
     | (None, Some l) \<Rightarrow> Some (l div MIB)
     | (Some t, Some l) \<Rightarrow> Some (min t l div MIB))"

subsection \<open>What fits\<close>

definition below :: "int option \<Rightarrow> int \<Rightarrow> bool" where
  "below have need = (case have of None \<Rightarrow> True | Some n \<Rightarrow> n < need)"

definition expandable :: "string \<Rightarrow> bool" where
  "expandable alloc_conf = contains ''expandable_segments:true'' (lower (filter (\<lambda>c. c \<noteq> CHR '' '') alloc_conf))"

definition offload_reasons :: "int \<Rightarrow> int option \<Rightarrow> int option \<Rightarrow> string \<Rightarrow> string list" where
  "offload_reasons gib shm_mib memory_mib alloc_conf =
    (if gib = 0 then []
     else (if below shm_mib (gib * 1024 + SHM_MARGIN_MIB) then [''shm_too_small''] else []) @
          (if below memory_mib (gib * 1024 + ENGINE_RESERVE_MIB) then [''memory_too_small''] else []) @
          (if expandable alloc_conf then [''expandable_segments''] else []))"

definition largest_offload_gib :: "int option \<Rightarrow> int option \<Rightarrow> int" where
  "largest_offload_gib shm_mib memory_mib =
    (case (shm_mib, memory_mib) of
       (Some s, Some m) \<Rightarrow> max 0 (min (s - SHM_MARGIN_MIB) (m - ENGINE_RESERVE_MIB) div 1024)
     | _ \<Rightarrow> 0)"

record needs =
  ne_offload_gib :: int
  ne_min_memory_mib :: int
  ne_min_ram_gb :: int
  ne_min_shm_mib :: int

definition offer_needs :: "int \<Rightarrow> needs" where
  "offer_needs gib =
    (let memory_mib = gib * 1024 + ENGINE_RESERVE_MIB
     in \<lparr>ne_offload_gib = gib, ne_min_memory_mib = memory_mib, ne_min_ram_gb = ceil_quotient (memory_mib * MIB) (10 ^ 9),
         ne_min_shm_mib = gib * 1024 + SHM_MARGIN_MIB\<rparr>)"

definition needs_json :: "bool \<Rightarrow> needs \<Rightarrow> obj" where
  "needs_json ram n =
    [(''offload_gib'', JInt (ne_offload_gib n)), (''min_memory_mib'', JInt (ne_min_memory_mib n))] @
    (if ram then [(''min_ram_gb'', JInt (ne_min_ram_gb n))] else []) @ [(''min_shm_mib'', JInt (ne_min_shm_mib n))]"

definition copy_gib :: "int \<Rightarrow> int \<Rightarrow> int \<Rightarrow> int" where
  "copy_gib sessions prompt_tokens kib_per_token = ceil_quotient (sessions * prompt_tokens * kib_per_token * 1024) GIB"

text \<open>The first line that \<^verbatim>\<open>nvidia-smi\<close> prints, two numbers with a comma between them.\<close>

definition gpu :: "string list option \<Rightarrow> (int \<times> int) option" where
  "gpu smi =
    (case smi of
       Some (line # _) \<Rightarrow>
         (case split_on (CHR '','') line of
            [capability, memory] \<Rightarrow>
              (case (float_text (strip capability), py_int memory) of
                 (Some q, Some n) \<Rightarrow> Some (round_half_even (float_near (q * 10)), n)
               | _ \<Rightarrow> None)
          | _ \<Rightarrow> None)
     | _ \<Rightarrow> None)"

definition gpu_reasons :: "(int \<times> int) option \<Rightarrow> int \<Rightarrow> int \<Rightarrow> string list" where
  "gpu_reasons found min_compute_cap min_gpu_mib =
    (case found of None \<Rightarrow> [''gpu_unknown'']
     | Some (cap, mib) \<Rightarrow>
         (if cap < min_compute_cap then [''gpu_compute_cap_too_low''] else []) @
         (if mib < min_gpu_mib then [''gpu_memory_too_small''] else []))"

text \<open>A file in place and its part, by name, each with its size where it is there.\<close>

definition missing_entry :: "(string \<Rightarrow> int option) \<Rightarrow> string \<Rightarrow> int option" where
  "missing_entry size_of entry =
    (case partition_at (CHR '':'') entry of
       (name, n) \<Rightarrow>
         let held = fold (\<lambda>path held. case size_of path of None \<Rightarrow> held | Some k \<Rightarrow> max held k)
               [name, ''.'' @ name @ ''.part''] 0
         in map_option (\<lambda>k. max 0 (k - held)) (py_int n))"

definition missing_bytes :: "(string \<Rightarrow> int option) \<Rightarrow> string \<Rightarrow> int option" where
  "missing_bytes size_of files = map_option sum_list (those (map (missing_entry size_of) (split_on (CHR '','') files)))"

text \<open>The free space of each path from the one asked for up to the root.\<close>

fun disk_free :: "int option list \<Rightarrow> int option" where
  "disk_free [] = None"
| "disk_free (None # parents) = disk_free parents"
| "disk_free (Some n # parents) = Some n"

subsection \<open>The launcher's question and the commands\<close>

record container =
  ct_shm :: "int option"
  ct_meminfo :: "string list option"
  ct_v2 :: "string option"
  ct_v1 :: "string option"
  ct_alloc_conf :: string
  ct_smi :: "string list option"
  ct_size_of :: "string \<Rightarrow> int option"
  ct_disks :: "int option list"

definition measured :: "container \<Rightarrow> int option \<times> int option" where
  "measured ct = (shm_free_mib (ct_shm ct), memory_limit_mib (ct_meminfo ct) (ct_v2 ct) (ct_v1 ct))"

definition offload_unfit :: "int \<Rightarrow> container \<Rightarrow> string list" where
  "offload_unfit gib ct =
    (if gib = 0 then []
     else case measured ct of (shm, memory) \<Rightarrow> offload_reasons gib shm memory (ct_alloc_conf ct))"

record preflight_args =
  pa_command :: string
  pa_offload_gib :: int
  pa_min_compute_cap :: "int option"
  pa_min_gpu_mib :: int
  pa_files :: string
  pa_into :: bool
  pa_sessions :: "int option"
  pa_prompt_tokens :: "int option"
  pa_kib_per_token :: int

datatype preflight_result =
    Usage string
  | Bad_size
  | Printed obj int

definition opt_int :: "int option \<Rightarrow> json" where
  "opt_int n = (case n of None \<Rightarrow> JNull | Some k \<Rightarrow> JInt k)"

definition plan :: "preflight_args \<Rightarrow> preflight_result" where
  "plan a =
    (case (pa_sessions a, pa_prompt_tokens a) of
       (None, None) \<Rightarrow> Printed (needs_json True (offer_needs (pa_offload_gib a))) 0
     | (Some s, Some p) \<Rightarrow>
         if pa_offload_gib a \<noteq> 0 \<or> min s (min p (pa_kib_per_token a)) < 1
         then Usage (''--sessions, --prompt-tokens and --kib-per-token are counts, and stand in place of '' @ ''--offload-gib'')
         else Printed (puts [(''sessions'', JInt s), (''prompt_tokens'', JInt p), (''kib_per_token'', JInt (pa_kib_per_token a))]
           (needs_json True (offer_needs (copy_gib s p (pa_kib_per_token a))))) 0
     | _ \<Rightarrow> Usage ''--sessions goes with --prompt-tokens'')"

definition found_json :: "(int \<times> int) option \<Rightarrow> obj" where
  "found_json found =
    [(''gpu_compute_cap'', opt_int (map_option fst found)), (''gpu_mib'', opt_int (map_option snd found))]"

definition report :: "container \<Rightarrow> obj" where
  "report ct =
    (case measured ct of (shm, memory) \<Rightarrow>
       puts [(''shm_free_mib'', opt_int shm), (''memory_limit_mib'', opt_int memory)]
         ([(''largest_offload_gib'', JInt (largest_offload_gib shm memory)),
           (''expandable_segments'', JBool (''expandable_segments'' \<in> set (offload_reasons 1 None None (ct_alloc_conf ct))))] @
          found_json (gpu (ct_smi ct))))"

text \<open>The checks after the copy: the GPU's where a capability is asked for, and the disk's for files to fetch.\<close>

definition check_gpu :: "preflight_args \<Rightarrow> container \<Rightarrow> obj \<times> string list" where
  "check_gpu a ct =
    (case pa_min_compute_cap a of None \<Rightarrow> ([], [])
     | Some cap \<Rightarrow> let found = gpu (ct_smi ct) in (found_json found, gpu_reasons found cap (pa_min_gpu_mib a)))"

definition check_disk :: "preflight_args \<Rightarrow> container \<Rightarrow> (obj \<times> string list) option" where
  "check_disk a ct =
    (if pa_files a = [] \<or> \<not> pa_into a then Some ([], [])
     else map_option (\<lambda>need.
       let free = disk_free (ct_disks ct)
       in ([(''need_disk_mib'', JInt (ceil_quotient need MIB)), (''disk_free_mib'', opt_int (map_option (\<lambda>n. n div MIB) free))],
           if below free (need + GIB) then [''disk_too_small''] else []))
       (missing_bytes (ct_size_of ct) (pa_files a)))"

definition check :: "preflight_args \<Rightarrow> container \<Rightarrow> preflight_result" where
  "check a ct =
    (case measured ct of (shm, memory) \<Rightarrow>
       let reasons = offload_reasons (pa_offload_gib a) shm memory (ct_alloc_conf ct);
           copy = (if pa_offload_gib a = 0 then [] else needs_json False (offer_needs (pa_offload_gib a)))
       in case (check_gpu a ct, check_disk a ct) of
            ((gpu_line, gpu_bad), Some (disk_line, disk_bad)) \<Rightarrow>
              let bad = reasons @ gpu_bad @ disk_bad
              in Printed (puts [(''shm_free_mib'', opt_int shm), (''memory_limit_mib'', opt_int memory)]
                   (copy @ gpu_line @ disk_line @ [(''ok'', JBool (bad = [])), (''reasons'', JList (map JStr bad))]))
                   (if bad = [] then 0 else UNFIT)
          | _ \<Rightarrow> Bad_size)"

definition preflight_main :: "preflight_args \<Rightarrow> container \<Rightarrow> preflight_result" where
  "preflight_main a ct =
    (if pa_offload_gib a < 0 then Usage ''--offload-gib is a count of GiB''
     else if pa_command a = ''plan'' then plan a
     else if pa_command a = ''report'' then Printed (report ct) 0
     else check a ct)"

subsection \<open>What fits is what the largest size says\<close>

lemma fits_iff:
  assumes "1 \<le> gib"
  shows "offload_reasons gib shm memory conf = [] \<longleftrightarrow> gib \<le> largest_offload_gib shm memory \<and> \<not> expandable conf"
proof -
  have q: "gib \<le> max 0 (min (s - k) (m - j) div 1024) \<longleftrightarrow> \<not> s < gib * 1024 + k \<and> \<not> m < gib * 1024 + j" for s k m j :: int
  proof -
    have d: "gib \<le> x div 1024 \<longleftrightarrow> gib * 1024 \<le> x" for x :: int
      using div_mult_mod_eq [of x 1024] pos_mod_bound [of 1024 x] pos_mod_sign [of 1024 x] by linarith
    have "gib \<le> max 0 (min (s - k) (m - j) div 1024) \<longleftrightarrow> gib * 1024 \<le> min (s - k) (m - j)"
      using assms d [of "min (s - k) (m - j)"] by linarith
    then show ?thesis by auto
  qed
  show ?thesis
    using assms by (cases shm; cases memory) (simp_all add: offload_reasons_def below_def largest_offload_gib_def q)
qed

text \<open>
  C20: The size that the report names as the largest is exact. The check of a size succeeds, and the
  launcher finds nothing unfit, exactly for the sizes up to it and without expandable segments; the
  exit code and the line's reasons say the same.
\<close>

theorem check_agrees_with_report:
  assumes "1 \<le> pa_offload_gib a" and "pa_command a = ''check''" and "pa_min_compute_cap a = None" and "pa_files a = []"
  shows "\<exists>line code. preflight_main a ct = Printed line code \<and>
    (code = 0 \<longleftrightarrow> pa_offload_gib a \<le> (case measured ct of (shm, memory) \<Rightarrow> largest_offload_gib shm memory) \<and>
      \<not> expandable (ct_alloc_conf ct)) \<and>
    (code = 0 \<longleftrightarrow> offload_unfit (pa_offload_gib a) ct = []) \<and> code \<in> {0, UNFIT} \<and>
    jget ''ok'' line = JBool (code = 0) \<and>
    jget ''reasons'' line = JList (map JStr (offload_unfit (pa_offload_gib a) ct)) \<and>
    jget ''largest_offload_gib'' (report ct) = JInt (case measured ct of (shm, memory) \<Rightarrow> largest_offload_gib shm memory)"
proof -
  obtain shm memory where m: "measured ct = (shm, memory)" by (cases "measured ct")
  define bad where "bad = offload_reasons (pa_offload_gib a) shm memory (ct_alloc_conf ct)"
  have u: "offload_unfit (pa_offload_gib a) ct = bad" using assms(1) by (simp add: offload_unfit_def m bad_def)
  have b: "bad = [] \<longleftrightarrow> pa_offload_gib a \<le> largest_offload_gib shm memory \<and> \<not> expandable (ct_alloc_conf ct)"
    using fits_iff [OF assms(1)] by (simp add: bad_def)
  have r: "preflight_main a ct = Printed (puts [(''shm_free_mib'', opt_int shm), (''memory_limit_mib'', opt_int memory)]
      (needs_json False (offer_needs (pa_offload_gib a)) @ [(''ok'', JBool (bad = [])), (''reasons'', JList (map JStr bad))]))
      (if bad = [] then 0 else UNFIT)"
    using assms by (simp add: preflight_main_def check_def m check_gpu_def check_disk_def bad_def Let_def)
  show ?thesis
    unfolding r u by (simp add: b m report_def UNFIT_def puts_def jput_def jhas_def jget_def needs_json_def found_json_def)
qed

definition sample_container :: container where
  "sample_container = \<lparr>ct_shm = Some (4 * GIB), ct_meminfo = Some [''MemTotal: 33554432 kB''], ct_v2 = None, ct_v1 = Some ''max'',
     ct_alloc_conf = [], ct_smi = None, ct_size_of = \<lambda>_. None, ct_disks = []\<rparr>"

definition sample_check :: preflight_args where
  "sample_check = \<lparr>pa_command = ''check'', pa_offload_gib = 3, pa_min_compute_cap = None, pa_min_gpu_mib = 0, pa_files = [],
     pa_into = False, pa_sessions = None, pa_prompt_tokens = None, pa_kib_per_token = 440\<rparr>"

theorem check_agrees_with_report_witness:
  "\<exists>line. preflight_main sample_check sample_container = Printed line 0 \<and> jget ''ok'' line = JBool True"
proof -
  have "offload_unfit 3 sample_container = []"
    by (simp add: offload_unfit_def measured_def sample_container_def shm_free_mib_def GIB_def MIB_def memory_limit_mib_def
        mem_total_def meminfo_step_def words_def is_space_def py_int_def strip_def lstrip_def digits_int_def of_digits_def
        hex_value_def is_digit_def less_eq_char_def offload_reasons_def below_def SHM_MARGIN_MIB_def ENGINE_RESERVE_MIB_def
        expandable_def lower_def is_digits_def)
  with check_agrees_with_report [of sample_check sample_container] show ?thesis by (auto simp: sample_check_def)
qed

end
