(* ===== verification/Card_Launcher.thy ===== *)
theory Card_Launcher
  imports Card_Consistency Engine_Output Preflight Vast_Client
begin

text \<open>
  The card's launcher, \<^verbatim>\<open>simple_serving/card.py\<close>: the commands that start, hold and stop it, the pair of
  vLLM and the gateway from their first lines of output to their end, the two markers of the state
  directory, and the stop of the instance. What the operating system decides is an argument: which
  files are there, which of several awaited events comes first, and what each process prints.
\<close>

subsection \<open>Logs\<close>

definition CARD_LOG_BYTES :: nat where "CARD_LOG_BYTES = 2 ^ 20"
definition GATEWAY_LOG_BYTES :: nat where "GATEWAY_LOG_BYTES = 8 * 2 ^ 20"

text \<open>A log file and the older one beside it.\<close>

record log_file =
  lf_text :: "string option"
  lf_older :: "string option"

definition write_line :: "nat \<Rightarrow> string \<Rightarrow> log_file \<Rightarrow> log_file" where
  "write_line max_bytes data lf =
    (case lf_text lf of
       None \<Rightarrow> lf\<lparr>lf_text := Some data\<rparr>
     | Some t \<Rightarrow>
         if length t + length data > max_bytes then \<lparr>lf_text = Some data, lf_older = Some t\<rparr>
         else lf\<lparr>lf_text := Some (t @ data)\<rparr>)"

definition GATEWAY_KEYS :: "string list" where
  "GATEWAY_KEYS = FIELDS_logged @ [''time'', ''logger'', ''level'']"

definition gateway_row :: "loads \<Rightarrow> string \<Rightarrow> obj option" where
  "gateway_row loads line =
    (case loads line of
       Some (JObj row) \<Rightarrow>
         if set (map fst row) \<subseteq> set GATEWAY_KEYS \<and> list_all (\<lambda>(n, v). \<not> is_container v) row then Some row else None
     | _ \<Rightarrow> None)"

text \<open>The pieces that the reader of a process's output yields: whole lines, a part of a long line, and at
  the end what has no newline or nothing.\<close>

definition ends_line :: "string \<Rightarrow> bool" where
  "ends_line piece \<longleftrightarrow> piece \<noteq> [] \<and> last piece = newline"

fun read_pieces :: "bool \<Rightarrow> string list \<Rightarrow> string list" where
  "read_pieces starts_line [] = []"
| "read_pieces starts_line (piece # pieces) =
    (if piece = [] then []
     else (if starts_line then [take LINE_BYTES piece] else []) @ read_pieces (ends_line piece) pieces)"

subsection \<open>The state of a card\<close>

record launcher_state =
  ls_given_up :: "string option"
  ls_unconfirmed :: "string option"
  ls_rows :: "obj list"
  ls_gateway_log :: log_file
  ls_ready :: bool
  ls_asleep :: bool
  ls_noted :: "string set"

definition GAVE_UP :: int where "GAVE_UP = 6"
definition NOT_PREPARED :: int where "NOT_PREPARED = 3"
definition PORT_TAKEN :: int where "PORT_TAKEN = 7"
definition STOP_UNCONFIRMED :: int where "STOP_UNCONFIRMED = 8"
definition POLL_S :: nat where "POLL_S = 2"
definition HOLD_START_S :: nat where "HOLD_START_S = 60"
definition STOP_WAIT_S :: nat where "STOP_WAIT_S = 60"

definition log_row :: "string \<Rightarrow> obj \<Rightarrow> launcher_state \<Rightarrow> launcher_state" where
  "log_row event fs ls = ls\<lparr>ls_rows := ls_rows ls @ [(''event'', JStr event) # fs]\<rparr>"

text \<open>A failed attempt to stop the instance: the first one since the launcher's start is noted.
  \<open>shown\<close> is \<^verbatim>\<open>str\<close> of a value that is no text.\<close>

definition unconfirmed :: "(json \<Rightarrow> string) \<Rightarrow> obj \<Rightarrow> launcher_state \<Rightarrow> launcher_state" where
  "unconfirmed shown failure ls =
    (if ls_unconfirmed ls \<noteq> None then ls
     else let code = (case jget_or ''code'' (JStr ''exception'') failure of JStr s \<Rightarrow> s | v \<Rightarrow> shown v)
          in log_row ''stop_unconfirmed'' (filter (\<lambda>(n, v). n \<in> {''code'', ''status'', ''exception''}) failure)
               (ls\<lparr>ls_unconfirmed := Some (code @ [newline])\<rparr>))"

subsection \<open>The pair\<close>

datatype pair_event =
    Engine_prints string
  | Gateway_prints string bool
  | Signalled
  | Engine_exits
  | Gateway_exits
  | Deadline
  | Load_wakes int

record world =
  wd_parse :: "string \<Rightarrow> (tree \<times> nat) option"
  wd_decode :: "string \<Rightarrow> string"
  wd_loads :: loads
  wd_shown :: "json \<Rightarrow> string"

definition row_obj :: "engine_row \<Rightarrow> string \<times> obj" where
  "row_obj r = (case r of (event, code, ns) \<Rightarrow>
     (event, (case code of None \<Rightarrow> [] | Some c \<Rightarrow> [(''code'', JStr c)]) @ map (\<lambda>(n, k). (n, JInt k)) ns))"

definition pair_engine_line :: "world \<Rightarrow> string \<Rightarrow> launcher_state \<Rightarrow> launcher_state" where
  "pair_engine_line w line ls =
    (case engine_line (wd_parse w) (wd_decode w) (ls_noted ls) line of (rows, noted) \<Rightarrow>
       foldl (\<lambda>s r. case row_obj r of (event, fs) \<Rightarrow> log_row event fs s) (ls\<lparr>ls_noted := noted\<rparr>) rows)"

definition rstrip_newlines :: "string \<Rightarrow> string" where
  "rstrip_newlines s = rev (dropWhile (\<lambda>c. c = newline) (rev s))"

text \<open>A line of the gateway, and whether the disk takes it.\<close>

definition pair_gateway_line :: "world \<Rightarrow> string \<Rightarrow> bool \<Rightarrow> launcher_state \<Rightarrow> launcher_state" where
  "pair_gateway_line w line disk ls =
    (case gateway_row (wd_loads w) line of
       None \<Rightarrow> log_row ''gateway_output'' [] ls
     | Some row \<Rightarrow>
         let event = jget ''event'' row;
             s1 = (if disk then ls\<lparr>ls_gateway_log := write_line GATEWAY_LOG_BYTES (rstrip_newlines line @ [newline]) (ls_gateway_log ls)\<rparr>
                   else ls);
             s2 = (if event = JStr ''engine'' \<and> jget ''service_status'' row = JStr ''ready'' then s1\<lparr>ls_ready := True\<rparr> else s1);
             s3 = (if event = JStr ''stop_failed'' then unconfirmed (wd_shown w) row s2 else s2)
         in s3\<lparr>ls_asleep := ls_asleep s3 \<or> event = JStr ''sleep''\<rparr>)"

fun prints :: "world \<Rightarrow> pair_event \<Rightarrow> launcher_state \<Rightarrow> launcher_state" where
  "prints w (Engine_prints line) ls = pair_engine_line w line ls"
| "prints w (Gateway_prints line disk) ls = pair_gateway_line w line disk ls"
| "prints w _ ls = ls"

text \<open>The task that waits for the gateway to be ready, when it wakes: it says so once, and at the deadline it
  ends only where the gateway is not ready.\<close>

definition load_wakes :: "int \<Rightarrow> launcher_state \<Rightarrow> launcher_state" where
  "load_wakes ms ls = (if ls_ready ls then log_row ''ready'' [(''load_ms'', JInt ms)] ls else ls)"

definition load_ends :: "launcher_state \<Rightarrow> bool" where
  "load_ends ls \<longleftrightarrow> \<not> ls_ready ls"

text \<open>Until the first of a signal, an exit or the load deadline; without one the pair still runs.\<close>

fun pair_wait :: "world \<Rightarrow> pair_event list \<Rightarrow> launcher_state \<Rightarrow> string option \<times> launcher_state" where
  "pair_wait w [] ls = (None, ls)"
| "pair_wait w (Signalled # es) ls = (Some ''signal'', ls)"
| "pair_wait w (Engine_exits # es) ls = (Some ''engine_exit'', ls)"
| "pair_wait w (Gateway_exits # es) ls = (Some ''gateway_exit'', ls)"
| "pair_wait w (Deadline # es) ls = (if load_ends ls then (Some ''load_deadline'', ls) else pair_wait w es ls)"
| "pair_wait w (Load_wakes ms # es) ls =
    pair_wait w es (load_wakes ms ls)"
| "pair_wait w (e # es) ls = pair_wait w es (prints w e ls)"

definition print_all :: "world \<Rightarrow> pair_event list \<Rightarrow> launcher_state \<Rightarrow> launcher_state" where
  "print_all w es ls = foldl (\<lambda>s e. prints w e s) ls es"

definition exit_row :: "string \<Rightarrow> int \<Rightarrow> launcher_state \<Rightarrow> launcher_state" where
  "exit_row name code ls = log_row ''exit'' [(''process'', JStr name), (''exit_code'', JInt code)] ls"

text \<open>The end of both, the gateway first, with what is printed before, between and after.\<close>

record pair_end =
  pe_before :: "pair_event list"
  pe_gateway_code :: int
  pe_between :: "pair_event list"
  pe_engine_code :: int
  pe_after :: "pair_event list"

definition end_pair :: "world \<Rightarrow> bool \<Rightarrow> bool \<Rightarrow> pair_end \<Rightarrow> launcher_state \<Rightarrow> launcher_state" where
  "end_pair w engine gateway e ls =
    (let s1 = print_all w (pe_before e) ls;
         s2 = (if gateway then print_all w (pe_between e) (exit_row ''gateway'' (pe_gateway_code e) s1) else s1);
         s3 = (if engine then exit_row ''engine'' (pe_engine_code e) s2 else s2)
     in print_all w (pe_after e) s3)"

datatype spawned =
    Both_run
  | Engine_not_found
  | Gateway_not_found

record launch_input =
  li_world :: world
  li_race :: nat
  li_unfit :: "string list"
  li_spawned :: spawned
  li_events :: "pair_event list"
  li_end :: pair_end
  li_attempts :: "unit attempt list"

text \<open>How the pair ends: an \<^verbatim>\<open>OSError\<close> of a process that cannot start is \<^verbatim>\<open>spawn_failed\<close>.\<close>

definition pair_run :: "launch_input \<Rightarrow> launcher_state \<Rightarrow> string option \<times> launcher_state" where
  "pair_run i ls =
    (let w = li_world i
     in case li_spawned i of
          Engine_not_found \<Rightarrow> (Some ''spawn_failed'', ls)
        | Gateway_not_found \<Rightarrow> (Some ''spawn_failed'', end_pair w True False (li_end i) ls)
        | Both_run \<Rightarrow>
            (case pair_wait w (li_events i) ls of
               (None, s) \<Rightarrow> (None, s)
             | (Some outcome, s) \<Rightarrow> (Some outcome, end_pair w True True (li_end i) s)))"

subsection \<open>The launcher\<close>

text \<open>With \<^verbatim>\<open>given-up\<close> there, the first of a signal, the idle interval's end and the marker's removal.\<close>

definition retried :: "nat \<Rightarrow> launcher_state \<Rightarrow> string option \<times> launcher_state" where
  "retried race ls =
    (if ls_given_up ls = None then (None, ls)
     else let s = log_row ''wait_for_retry'' [] ls
          in if race = 0 then (Some ''signal'', s) else if race = 1 then (Some ''given_up'', s)
             else (None, s\<lparr>ls_given_up := None\<rparr>))"

fun stop_instance :: "(json \<Rightarrow> string) \<Rightarrow> unit attempt list \<Rightarrow> launcher_state \<Rightarrow> launcher_state" where
  "stop_instance shown [] ls = ls"
| "stop_instance shown (Inr u # rest) ls = log_row ''stop_accepted'' [] ls"
| "stop_instance shown (Inl e # rest) ls =
    stop_instance shown rest (unconfirmed shown (failure_row e) (log_row ''stop_failed'' (failure_row e) ls))"

definition pair_outcome :: "launch_input \<Rightarrow> launcher_state \<Rightarrow> string option \<times> launcher_state" where
  "pair_outcome i ls =
    (if li_unfit i \<noteq> []
     then (Some ''unfit'', foldl (\<lambda>s reason. log_row ''unfit'' [(''code'', JStr reason)] s) ls (li_unfit i))
     else case pair_run i ls of
            (None, s) \<Rightarrow> (None, s)
          | (Some outcome, s) \<Rightarrow> (Some (if outcome \<noteq> ''signal'' \<and> ls_asleep s then ''asleep'' else outcome), s))"

text \<open>How the launch ends, the card's state then, and whether the stop of the instance was attempted;
  no outcome while the pair still runs.\<close>

definition launch :: "launch_input \<Rightarrow> launcher_state \<Rightarrow> string option \<times> launcher_state \<times> bool" where
  "launch i ls0 =
    (let ls = ls0\<lparr>ls_ready := False, ls_asleep := False, ls_noted := {}\<rparr>
     in case (case retried (li_race i) ls of (Some outcome, s) \<Rightarrow> (Some outcome, s) | (None, s) \<Rightarrow> pair_outcome i s) of
          (None, s) \<Rightarrow> (None, s, False)
        | (Some outcome, s) \<Rightarrow>
            let s1 = log_row ''pair_end'' [(''reason'', JStr outcome)] s
            in if outcome = ''signal'' then (Some outcome, s1, False)
               else let s2 = (if outcome \<notin> {''asleep'', ''given_up''} \<and> \<not> ls_ready s1
                          then s1\<lparr>ls_given_up := Some (outcome @ [newline])\<rparr> else s1)
                    in (Some outcome, stop_instance (wd_shown (li_world i)) (li_attempts i) s2, True))"

text \<open>Under the lock, after the configuration is written: a card without one ends with a traceback.\<close>

definition run_launcher :: "bool \<Rightarrow> card \<Rightarrow> key_digests \<Rightarrow> launch_input \<Rightarrow> launcher_state \<Rightarrow> launcher_state \<times> json option" where
  "run_launcher locked c d i ls =
    (if locked then (ls, None)
     else let s = ls\<lparr>ls_unconfirmed := None\<rparr>
          in case card_config c d of None \<Rightarrow> (s, None) | Some doc \<Rightarrow> (fst (snd (launch i s)), Some doc))"

subsection \<open>The commands\<close>

definition credential_of :: "(string \<rightharpoonup> string) \<Rightarrow> (string \<rightharpoonup> string) \<Rightarrow> string \<rightharpoonup> string" where
  "credential_of environ files =
    (\<lambda>name.
       let file = (if name = ''CONTAINER_ID'' then files ''.simple-chat-instance-id''
             else if name = ''CONTAINER_API_KEY'' then files ''.simple-chat-instance-api-key'' else None)
       in if name \<notin> {''CONTAINER_ID'', ''CONTAINER_API_KEY''} then None
          else case environ name of Some v \<Rightarrow> if v \<noteq> [] then Some v else file | None \<Rightarrow> file)"

definition RUNNING :: string where
  "RUNNING = ''simple_serving.card'' @ [CHR 0x00] @ ''--run''"

definition launcher_pid :: "string option \<Rightarrow> (int \<Rightarrow> string option) \<Rightarrow> int option" where
  "launcher_pid pid_file cmdline =
    Option.bind (Option.bind pid_file py_int) (\<lambda>pid.
    Option.bind (cmdline pid) (\<lambda>line. if contains RUNNING line then Some pid else None))"

definition prepared_card :: "string option \<Rightarrow> string option \<Rightarrow> bool \<Rightarrow> (string \<rightharpoonup> string) \<Rightarrow> bool" where
  "prepared_card digest stamp keys_file credential =
    (case (digest, stamp) of
       (Some h, Some t) \<Rightarrow> strip t = h \<and> keys_file \<and> from_environment credential \<noteq> None
     | _ \<Rightarrow> False)"

text \<open>The exit code, and whether a launcher was started in the background.\<close>

definition start :: "bool \<Rightarrow> bool \<Rightarrow> bool \<Rightarrow> bool \<Rightarrow> bool \<Rightarrow> int \<times> bool" where
  "start dry_run given_up live prepared taken =
    (if live then (if given_up then GAVE_UP else 0, False)
     else if \<not> given_up \<and> \<not> prepared then (NOT_PREPARED, False)
     else if \<not> given_up \<and> taken then (PORT_TAKEN, False)
     else (if given_up then GAVE_UP else 0, \<not> dry_run))"

definition marked :: "bool \<Rightarrow> bool \<Rightarrow> int" where
  "marked unconfirmed_file given_up = (if unconfirmed_file then STOP_UNCONFIRMED else if given_up then GAVE_UP else 0)"

text \<open>Each look at the card: what its markers say, and whether a launcher runs. \<open>None\<close> is a wait without end.\<close>

partial_function (option) hold_loop :: "(nat \<Rightarrow> int \<times> bool) \<Rightarrow> nat \<Rightarrow> nat \<Rightarrow> bool \<Rightarrow> int option" where
  "hold_loop look k waited seen =
    (case look k of (code, live) \<Rightarrow>
       if code \<noteq> 0 then Some code
       else if live then hold_loop look (Suc k) (waited + POLL_S) True
       else if seen \<or> waited \<ge> HOLD_START_S then Some 0
       else hold_loop look (Suc k) (waited + POLL_S) seen)"

declare hold_loop.simps [code]

text \<open>The exit code, and whether the line that the forwards are up was printed.\<close>

definition hold :: "(nat \<Rightarrow> int \<times> bool) \<Rightarrow> bool \<Rightarrow> (int \<times> bool) option" where
  "hold look prepared =
    (case look 0 of (code, live) \<Rightarrow>
       if code \<noteq> 0 then Some (code, False)
       else if \<not> live \<and> \<not> prepared then Some (NOT_PREPARED, False)
       else map_option (\<lambda>c. (c, True)) (hold_loop (\<lambda>k. look (Suc k)) 0 0 False))"

fun stop_loop :: "(nat \<Rightarrow> bool) \<Rightarrow> nat \<Rightarrow> nat \<Rightarrow> int" where
  "stop_loop live k 0 = 1"
| "stop_loop live k (Suc n) = (if \<not> live k then 0 else stop_loop live (Suc k) n)"

text \<open>Whether the launcher was told to end, and the exit code.\<close>

definition stop_pair :: "bool \<Rightarrow> (nat \<Rightarrow> bool) \<Rightarrow> bool \<times> int" where
  "stop_pair runs live = (runs, stop_loop live 0 (STOP_WAIT_S div POLL_S))"

datatype card_option =
    No_option
  | Hold_option
  | Stop_option
  | Retry_option
  | Dry_run_option
  | Inspect_option
  | Run_option

record card_view =
  cv_given_up :: bool
  cv_live :: bool
  cv_prepared :: bool
  cv_taken :: bool
  cv_looks :: "nat \<Rightarrow> int \<times> bool"
  cv_stopping :: "nat \<Rightarrow> bool"
  cv_report :: int

text \<open>The exit code, whether a launcher was started, and whether the card has given up then.\<close>

definition card_main :: "card_option \<Rightarrow> card_view \<Rightarrow> int option \<times> bool \<times> bool" where
  "card_main chosen cv =
    (let starting = (\<lambda>dry given_up. case start dry given_up (cv_live cv) (cv_prepared cv) (cv_taken cv) of
           (code, started) \<Rightarrow> (Some code, started, given_up))
     in case chosen of
          Stop_option \<Rightarrow> (Some (snd (stop_pair (cv_live cv) (cv_stopping cv))), False, cv_given_up cv)
        | Inspect_option \<Rightarrow> (Some (cv_report cv), False, cv_given_up cv)
        | Hold_option \<Rightarrow> (map_option fst (hold (cv_looks cv) (cv_prepared cv)), False, cv_given_up cv)
        | Run_option \<Rightarrow> (Some 0, False, cv_given_up cv)
        | Retry_option \<Rightarrow> if cv_live cv then (Some 0, False, False) else starting False False
        | Dry_run_option \<Rightarrow> starting True (cv_given_up cv)
        | No_option \<Rightarrow> starting False (cv_given_up cv))"

subsection \<open>What the pair leaves of the card's state\<close>

text \<open>Lines of output touch the logs, the two flags and the marker of the stop, never \<^verbatim>\<open>given-up\<close>.\<close>

lemma log_row_keeps [simp]:
  "ls_given_up (log_row e fs s) = ls_given_up s" "ls_unconfirmed (log_row e fs s) = ls_unconfirmed s"
  "ls_ready (log_row e fs s) = ls_ready s" "ls_asleep (log_row e fs s) = ls_asleep s"
  "ls_gateway_log (log_row e fs s) = ls_gateway_log s"
  by (simp_all add: log_row_def)

lemma unconfirmed_keeps [simp]:
  "ls_given_up (unconfirmed sh f s) = ls_given_up s" "ls_ready (unconfirmed sh f s) = ls_ready s"
  "ls_asleep (unconfirmed sh f s) = ls_asleep s" "ls_gateway_log (unconfirmed sh f s) = ls_gateway_log s"
  by (simp_all add: unconfirmed_def Let_def)

lemma unconfirmed_notes [simp]: "ls_unconfirmed (unconfirmed sh f s) \<noteq> None"
  by (simp add: unconfirmed_def Let_def)

lemma unconfirmed_first: "ls_unconfirmed s \<noteq> None \<Longrightarrow> unconfirmed sh f s = s"
  by (simp add: unconfirmed_def)

lemma engine_line_keeps:
  "ls_given_up (pair_engine_line w line s) = ls_given_up s \<and> ls_ready (pair_engine_line w line s) = ls_ready s \<and>
   ls_unconfirmed (pair_engine_line w line s) = ls_unconfirmed s \<and> ls_asleep (pair_engine_line w line s) = ls_asleep s"
proof -
  have "ls_given_up (foldl (\<lambda>s r. case row_obj r of (event, fs) \<Rightarrow> log_row event fs s) s rows) = ls_given_up s \<and>
      ls_ready (foldl (\<lambda>s r. case row_obj r of (event, fs) \<Rightarrow> log_row event fs s) s rows) = ls_ready s \<and>
      ls_unconfirmed (foldl (\<lambda>s r. case row_obj r of (event, fs) \<Rightarrow> log_row event fs s) s rows) = ls_unconfirmed s \<and>
      ls_asleep (foldl (\<lambda>s r. case row_obj r of (event, fs) \<Rightarrow> log_row event fs s) s rows) = ls_asleep s" for rows s
    by (induction rows arbitrary: s) (simp_all split: prod.split)
  then show ?thesis by (simp add: pair_engine_line_def split: prod.split)
qed

definition keeps_marks :: "launcher_state \<Rightarrow> launcher_state \<Rightarrow> bool" where
  "keeps_marks s s' \<longleftrightarrow> ls_given_up s' = ls_given_up s \<and> (ls_unconfirmed s \<noteq> None \<longrightarrow> ls_unconfirmed s' = ls_unconfirmed s)"

lemma keeps_marks_trans: "keeps_marks s s' \<Longrightarrow> keeps_marks s' s'' \<Longrightarrow> keeps_marks s s''"
  by (auto simp: keeps_marks_def)

lemma prints_keeps: "keeps_marks s (prints w e s)"
  by (cases e) (auto simp: keeps_marks_def engine_line_keeps pair_gateway_line_def Let_def unconfirmed_def split: option.split)

lemma keeps_marks_refl [simp]: "keeps_marks s s"
  by (simp add: keeps_marks_def)

lemma log_row_marks: "keeps_marks s s' \<Longrightarrow> keeps_marks s (log_row e fs s')"
  by (simp add: keeps_marks_def)

lemma prints_marks: "keeps_marks s s' \<Longrightarrow> keeps_marks s (prints w e s')"
  by (rule keeps_marks_trans [OF _ prints_keeps])

lemma pair_wait_keeps: "pair_wait w es s' = (r, s'') \<Longrightarrow> keeps_marks s s' \<Longrightarrow> keeps_marks s s''"
  by (induction w es s' arbitrary: r s'' rule: pair_wait.induct)
    (auto simp: load_wakes_def simp del: prints.simps split: if_splits intro: prints_marks log_row_marks)

lemma print_all_marks: "keeps_marks s s' \<Longrightarrow> keeps_marks s (print_all w es s')"
  by (induction es arbitrary: s') (simp_all add: print_all_def prints_marks)

lemma end_pair_marks: "keeps_marks s s' \<Longrightarrow> keeps_marks s (end_pair w a b e s')"
  by (simp add: end_pair_def Let_def exit_row_def print_all_marks log_row_marks)

lemma pair_run_marks: "pair_run i s = (r, s') \<Longrightarrow> keeps_marks s s'"
  by (auto simp: pair_run_def Let_def end_pair_marks split: spawned.splits option.splits prod.splits
      dest!: pair_wait_keeps [OF _ keeps_marks_refl])

lemma unfit_marks: "keeps_marks s (foldl (\<lambda>s reason. log_row ''unfit'' [(''code'', JStr reason)] s) s rs)"
proof -
  have "keeps_marks s' s'' \<Longrightarrow> keeps_marks s' (foldl (\<lambda>s reason. log_row ''unfit'' [(''code'', JStr reason)] s) s'' rs)" for s' s''
    by (induction rs arbitrary: s'') (simp_all add: log_row_marks)
  then show ?thesis by simp
qed

lemma pair_outcome_marks: "pair_outcome i s = (r, s') \<Longrightarrow> keeps_marks s s'"
  by (auto simp: pair_outcome_def unfit_marks split: if_splits option.splits prod.splits dest!: pair_run_marks)

lemma stop_instance_marks: "keeps_marks s s' \<Longrightarrow> keeps_marks s (stop_instance sh as s')"
proof (induction as arbitrary: s')
  case (Cons a as)
  have "keeps_marks s (unconfirmed sh f s'')" if "keeps_marks s s''" for f s''
    using that by (auto simp: keeps_marks_def unconfirmed_def Let_def)
  with Cons show ?case by (cases a) (simp_all add: log_row_marks)
qed simp

lemma stop_instance_ready:
  "ls_ready (stop_instance sh as s) = ls_ready s" "ls_gateway_log (stop_instance sh as s) = ls_gateway_log s"
  "ls_given_up (stop_instance sh as s) = ls_given_up s"
  by (induction sh as s rule: stop_instance.induct) simp_all

lemma stop_instance_notes: "ls_unconfirmed (stop_instance sh (Inl e # as) s) \<noteq> None"
  using stop_instance_marks [OF keeps_marks_refl, of "unconfirmed sh (failure_row e) (log_row ''stop_failed'' (failure_row e) s)" sh as]
  by (auto simp: keeps_marks_def)

text \<open>
  C22: How a launch ends. Unless a signal ended it, the launcher attempts to stop the instance, so that no
  card stays up with nothing to stop it. A card has given up afterwards exactly where it had and nobody
  retried, or where its pair ended before it was ready and the gateway had not begun to stop the
  instance. Where it had given up and nobody retried, no process ran. A stop whose first attempt fails
  leaves the mark that it is not confirmed.
\<close>

theorem launch_always_stops:
  assumes "launch i ls = (Some outcome, ls', stopped)"
  shows "(stopped \<longleftrightarrow> outcome \<noteq> ''signal'') \<and>
    (ls_given_up ls' \<noteq> None \<longleftrightarrow> ls_given_up ls \<noteq> None \<and> li_race i \<le> 1 \<or>
       outcome \<notin> {''signal'', ''asleep'', ''given_up''} \<and> \<not> ls_ready ls') \<and>
    (ls_given_up ls \<noteq> None \<and> li_race i \<le> 1 \<longrightarrow> outcome \<in> {''signal'', ''given_up''} \<and>
       ls_given_up ls' = ls_given_up ls \<and> ls_gateway_log ls' = ls_gateway_log ls) \<and>
    (stopped \<and> ls_unconfirmed ls' = None \<longrightarrow> (\<nexists>e rest. li_attempts i = Inl e # rest))"
proof -
  define s0 where "s0 = ls\<lparr>ls_ready := False, ls_asleep := False, ls_noted := {}\<rparr>"
  obtain y s where r': "(case retried (li_race i) s0 of (Some x, s) \<Rightarrow> (Some x, s) | (None, s) \<Rightarrow> pair_outcome i s) = (y, s)"
    by fastforce
  have "y = Some outcome"
    using assms unfolding launch_def Let_def s0_def [symmetric] r' by (auto split: option.splits if_splits)
  note r = r' [unfolded this]
  define s1 where "s1 = log_row ''pair_end'' [(''reason'', JStr outcome)] s"
  define s2 where "s2 = (if outcome \<notin> {''asleep'', ''given_up''} \<and> \<not> ls_ready s1
    then s1\<lparr>ls_given_up := Some (outcome @ [newline])\<rparr> else s1)"
  have l: "ls' = (if outcome = ''signal'' then s1 else stop_instance (wd_shown (li_world i)) (li_attempts i) s2)"
    "stopped = (outcome \<noteq> ''signal'')"
    using assms unfolding launch_def Let_def s0_def [symmetric] r by (auto simp: s1_def s2_def split: if_splits)
  have g: "ls_given_up ls' = (if outcome \<notin> {''signal'', ''asleep'', ''given_up''} \<and> \<not> ls_ready s
      then Some (outcome @ [newline]) else ls_given_up s)" "ls_ready ls' = ls_ready s" "ls_gateway_log ls' = ls_gateway_log s"
    by (auto simp: l s2_def s1_def stop_instance_ready)
  have u: "ls_unconfirmed ls' \<noteq> None" if "stopped" "li_attempts i = Inl e # rest" for e rest
    using that stop_instance_notes by (auto simp: l)
  show ?thesis
  proof (cases "ls_given_up ls \<noteq> None \<and> li_race i \<le> 1")
    case True
    then have "retried (li_race i) s0 = (Some (if li_race i = 0 then ''signal'' else ''given_up''), log_row ''wait_for_retry'' [] s0)"
      by (auto simp: retried_def s0_def Let_def)
    with r have "outcome = (if li_race i = 0 then ''signal'' else ''given_up'')" "s = log_row ''wait_for_retry'' [] s0" by simp_all
    with True g u l(2) show ?thesis by (auto simp: s0_def)
  next
    case False
    then obtain t where "retried (li_race i) s0 = (None, t)" "ls_given_up t = None"
      by (cases "ls_given_up ls = None") (auto simp: retried_def s0_def Let_def)
    with r have p: "pair_outcome i t = (Some outcome, s)" "ls_given_up t = None" by simp_all
    then have "ls_given_up s = None" using pair_outcome_marks [OF p(1)] by (simp add: keeps_marks_def)
    with False g u l(2) show ?thesis by auto
  qed
qed

definition sample_world :: world where
  "sample_world = \<lparr>wd_parse = \<lambda>_. None, wd_decode = id,
     wd_loads = \<lambda>s. if s = ''ready'' then Some (JObj [(''event'', JStr ''engine''), (''service_status'', JStr ''ready'')]) else None,
     wd_shown = \<lambda>_. []\<rparr>"

definition sample_launch :: "pair_event list \<Rightarrow> launch_input" where
  "sample_launch es = \<lparr>li_world = sample_world, li_race = 1, li_unfit = [], li_spawned = Both_run, li_events = es,
     li_end = \<lparr>pe_before = [], pe_gateway_code = 0, pe_between = [], pe_engine_code = 1, pe_after = []\<rparr>,
     li_attempts = [Inl Attempt_timeout, Inr ()]\<rparr>"

definition sample_state :: launcher_state where
  "sample_state = \<lparr>ls_given_up = None, ls_unconfirmed = None, ls_rows = [], ls_gateway_log = \<lparr>lf_text = None, lf_older = None\<rparr>,
     ls_ready = False, ls_asleep = False, ls_noted = {}\<rparr>"

lemma sample_launch_ends:
  "fst (launch (sample_launch [Gateway_prints ''ready'' True, Deadline, Engine_exits]) sample_state) = Some ''engine_exit''"
  "fst (launch (sample_launch [Deadline]) sample_state) = Some ''load_deadline''"
  by (simp_all add: launch_def sample_launch_def sample_state_def retried_def pair_outcome_def pair_run_def pair_gateway_line_def
      gateway_row_def sample_world_def GATEWAY_KEYS_def FIELDS_logged_def Let_def jget_def end_pair_def print_all_def exit_row_def
      log_row_def load_ends_def)

theorem launch_always_stops_witness:
  "\<exists>s t. launch (sample_launch [Gateway_prints ''ready'' True, Deadline, Engine_exits]) sample_state = (Some ''engine_exit'', s, True) \<and>
     launch (sample_launch [Deadline]) sample_state = (Some ''load_deadline'', t, True) \<and> ls_unconfirmed t \<noteq> None"
proof -
  obtain s a where s: "launch (sample_launch [Gateway_prints ''ready'' True, Deadline, Engine_exits]) sample_state = (Some ''engine_exit'', s, a)"
    using sample_launch_ends(1) by (metis prod.collapse)
  obtain t b where t: "launch (sample_launch [Deadline]) sample_state = (Some ''load_deadline'', t, b)"
    using sample_launch_ends(2) by (metis prod.collapse)
  show ?thesis
    using s t launch_always_stops [OF s] launch_always_stops [OF t] by (auto simp: sample_launch_def)
qed

subsection \<open>Waiting and logging\<close>

lemma hold_loop_ends:
  assumes "\<And>k. n \<le> k \<Longrightarrow> fst (look k) \<noteq> 0 \<or> \<not> snd (look k)"
  shows "\<exists>c. hold_loop look k waited seen = Some c"
proof (induction "(n - k) + (HOLD_START_S - waited)" arbitrary: k waited seen rule: less_induct)
  case less
  obtain code live where l: "look k = (code, live)" by (cases "look k")
  show ?case
  proof (cases "code \<noteq> 0 \<or> \<not> live \<and> (seen \<or> waited \<ge> HOLD_START_S)")
    case True
    then show ?thesis by (subst hold_loop.simps) (auto simp: l)
  next
    case False
    then have "live \<Longrightarrow> k < n" using assms [of k] l by (force simp: not_less [symmetric])
    with False have "n - Suc k + (HOLD_START_S - (waited + POLL_S)) < n - k + (HOLD_START_S - waited)"
      by (cases live) (auto simp: POLL_S_def HOLD_START_S_def)
    from less [OF this, of True] less [OF this, of seen] False show ?thesis
      by (subst hold_loop.simps) (auto simp: l)
  qed
qed

lemma hold_loop_result:
  assumes "hold_loop look k waited seen = Some c"
  shows "(\<exists>k. look k \<noteq> (0, True)) \<and> (c = 0 \<or> (\<exists>k. fst (look k) = c))"
proof (rule hold_loop.raw_induct [OF _ assms, where P = "\<lambda>look k w s c. (\<exists>k. look k \<noteq> (0, True)) \<and> (c = 0 \<or> (\<exists>k. fst (look k) = c))"])
  fix f :: "(nat \<Rightarrow> int \<times> bool) \<Rightarrow> nat \<Rightarrow> nat \<Rightarrow> bool \<Rightarrow> int option" and look k w s c
  assume IH: "\<And>look k w s c. f look k w s = Some c \<Longrightarrow> (\<exists>k. look k \<noteq> (0, True)) \<and> (c = 0 \<or> (\<exists>k. fst (look k) = c))"
    and b: "(case look k of (code, live) \<Rightarrow>
       if code \<noteq> 0 then Some code
       else if live then f look (Suc k) (w + POLL_S) True
       else if s \<or> w \<ge> HOLD_START_S then Some 0
       else f look (Suc k) (w + POLL_S) s) = Some c"
  obtain code live where l: "look k = (code, live)" by (cases "look k")
  show "(\<exists>k. look k \<noteq> (0, True)) \<and> (c = 0 \<or> (\<exists>k. fst (look k) = c))"
  proof (cases "code \<noteq> 0")
    case True
    then have "look k \<noteq> (0, True)" "fst (look k) = c" using b by (auto simp: l)
    then show ?thesis by blast
  next
    case False
    show ?thesis
    proof (cases live)
      case True
      then show ?thesis using b False IH by (auto simp: l)
    next
      case dead: False
      then have "look k \<noteq> (0, True)" by (simp add: l)
      moreover have "c = 0 \<or> (\<exists>k. fst (look k) = c)" using b False dead IH by (auto simp: l split: if_splits)
      ultimately show ?thesis by blast
    qed
  qed
qed

text \<open>
  C23: The remote command of a tunnel ends when its pair does: once no launcher runs any more, \<^verbatim>\<open>--hold\<close>
  returns, with one of its four exit codes, and it returns 0 only after the line that tells of the
  forwards. While a launcher runs on a card without a mark it never returns.
\<close>

theorem hold_returns:
  assumes "\<And>k. n \<le> k \<Longrightarrow> \<not> live k"
  shows "(\<exists>c printed. hold (\<lambda>k. (marked (unc k) (given_up k), live k)) prepared = Some (c, printed) \<and>
      c \<in> {0, NOT_PREPARED, GAVE_UP, STOP_UNCONFIRMED} \<and> (c = 0 \<longrightarrow> printed)) \<and>
    hold (\<lambda>k. (marked False False, True)) prepared = None"
proof -
  define look where "look = (\<lambda>k. (marked (unc k) (given_up k), live k))"
  have m: "marked u g \<in> {0, GAVE_UP, STOP_UNCONFIRMED}" for u g by (simp add: marked_def)
  obtain c where c: "hold_loop (\<lambda>k. look (Suc k)) 0 0 False = Some c"
    using hold_loop_ends [of n "\<lambda>k. look (Suc k)" 0 0 False] assms by (auto simp: look_def)
  have "c \<in> {0, GAVE_UP, STOP_UNCONFIRMED}" using hold_loop_result [OF c] m by (auto simp: look_def)
  with c have "\<exists>c printed. hold look prepared = Some (c, printed) \<and> c \<in> {0, NOT_PREPARED, GAVE_UP, STOP_UNCONFIRMED} \<and> (c = 0 \<longrightarrow> printed)"
    using m [of "unc 0" "given_up 0"] by (auto simp: hold_def NOT_PREPARED_def look_def split: prod.split)
  moreover have "hold_loop (\<lambda>k. (0, True)) 0 0 False = None"
    using hold_loop_result [of "\<lambda>k. (0, True)"] by (cases "hold_loop (\<lambda>k. (0, True)) 0 0 False") auto
  ultimately show ?thesis by (simp add: look_def hold_def marked_def)
qed

theorem hold_returns_witness:
  "\<exists>c printed. hold (\<lambda>k. (marked False (3 \<le> k), k < 2)) True = Some (c, printed) \<and> c \<in> {0, NOT_PREPARED, GAVE_UP, STOP_UNCONFIRMED}"
  using hold_returns [of 2 "\<lambda>k. k < 2" "\<lambda>_. False" "\<lambda>k. 3 \<le> k" True] by auto

definition lf_size :: "log_file \<Rightarrow> nat" where
  "lf_size lf = (case lf_text lf of None \<Rightarrow> 0 | Some t \<Rightarrow> length t)"

definition lf_content :: "log_file \<Rightarrow> string" where
  "lf_content lf = (case lf_older lf of None \<Rightarrow> [] | Some t \<Rightarrow> t) @ (case lf_text lf of None \<Rightarrow> [] | Some t \<Rightarrow> t)"

text \<open>
  C24: A log of the card stays bounded and loses only its oldest lines: after any lines that are
  no longer than its limit, the file is within the limit, and the file with the older one beside it is
  the end of all that was written.
\<close>

theorem log_bounded:
  assumes "\<And>line. line \<in> set lines \<Longrightarrow> length line \<le> n" and "n \<le> max_bytes"
  shows "lf_size (foldl (\<lambda>lf line. write_line max_bytes line lf) \<lparr>lf_text = None, lf_older = None\<rparr> lines) \<le> max_bytes \<and>
    (\<exists>gone. concat lines = gone @ lf_content (foldl (\<lambda>lf line. write_line max_bytes line lf) \<lparr>lf_text = None, lf_older = None\<rparr> lines))"
  using assms(1)
proof (induction lines rule: rev_induct)
  case Nil
  then show ?case by (simp add: lf_size_def lf_content_def)
next
  case (snoc line lines)
  define lf where "lf = foldl (\<lambda>lf line. write_line max_bytes line lf) \<lparr>lf_text = None, lf_older = None\<rparr> lines"
  obtain gone where g: "lf_size lf \<le> max_bytes" "concat lines = gone @ lf_content lf"
    using snoc unfolding lf_def by auto
  have "length line \<le> max_bytes" using snoc.prems [of line] assms(2) by simp
  with g have "lf_size (write_line max_bytes line lf) \<le> max_bytes"
    by (cases "lf_text lf") (auto simp: write_line_def lf_size_def)
  moreover have "\<exists>gone'. lf_content lf @ line = gone' @ lf_content (write_line max_bytes line lf)"
    by (cases "lf_text lf") (auto simp: write_line_def lf_content_def)
  ultimately show ?case using g(2) unfolding foldl_append foldl.simps lf_def [symmetric] by auto
qed

theorem log_bounded_witness:
  "lf_size (foldl (\<lambda>lf line. write_line 5 line lf) \<lparr>lf_text = None, lf_older = None\<rparr> [''abc'', ''def'', ''g'']) \<le> 5"
  by (rule conjunct1 [OF log_bounded [of "[''abc'', ''def'', ''g'']" 3 5]]) auto

end
