(* ===== verification/Card_Inspection.thy ===== *)
theory Card_Inspection
  imports Card_Launcher
begin

text \<open>
  The report that \<^verbatim>\<open>--inspect\<close> gives of a card, \<^verbatim>\<open>simple_serving/card.py\<close>: how many launchers and
  processes run, the deadline of the trial guard, and counts over the logs. The entries of
  \<^verbatim>\<open>/proc\<close> and the files of the logs, piece by piece, are arguments.
\<close>

definition LOGS :: "string list" where
  "LOGS = [''card.jsonl'', ''card.jsonl.1'', ''gateway.jsonl'', ''gateway.jsonl.1'']"

subsection \<open>Processes\<close>

text \<open>An entry: its name, and its two files, \<open>None\<close> where a file cannot be read.\<close>

record proc_entry =
  pe_name :: string
  pe_cmdline :: "string option"
  pe_stat :: "string option"

definition after_last :: "char \<Rightarrow> string \<Rightarrow> string option" where
  "after_last c s = (if c \<in> set s then Some (rev (takeWhile (\<lambda>x. x \<noteq> c) (rev s))) else None)"

definition parent_of :: "string \<Rightarrow> int option" where
  "parent_of stat =
    Option.bind (after_last (CHR '')'') stat) (\<lambda>rest. case words rest of _ # p # _ \<Rightarrow> py_int p | _ \<Rightarrow> None)"

definition scan_entry :: "proc_entry \<Rightarrow> (int \<times> nat) list \<times> int list \<Rightarrow> (int \<times> nat) list \<times> int list" where
  "scan_entry e st =
    (case st of (found, parents) \<Rightarrow>
       if \<not> is_digits (pe_name e) then st
       else (case pe_cmdline e of None \<Rightarrow> st
         | Some line \<Rightarrow>
             let pid = int (of_digits 10 (pe_name e));
                 found' = (if contains RUNNING line then found @ [(pid, 0)] else found)
             in (case Option.bind (pe_stat e) parent_of of None \<Rightarrow> (found', parents) | Some p \<Rightarrow> (found', parents @ [p]))))"

text \<open>The launchers that run, each with the number of its processes.\<close>

definition launchers :: "proc_entry list \<Rightarrow> (int \<times> nat) list" where
  "launchers entries =
    (case foldl (\<lambda>st e. scan_entry e st) ([], []) entries of (found, parents) \<Rightarrow>
       map (\<lambda>(pid, n). (pid, length (filter (\<lambda>p. p = pid) parents))) found)"

subsection \<open>The guard's deadline and the logs\<close>

definition trial_deadline :: "string option \<Rightarrow> int option" where
  "trial_deadline file =
    Option.bind file (\<lambda>t. let s = strip t
      in if is_count s \<and> length s \<le> 12 then Some (int (of_digits 10 s)) else None)"

text \<open>\<^verbatim>\<open>bytes.count\<close>: occurrences that do not overlap, from the left.\<close>

function count_in :: "string \<Rightarrow> string \<Rightarrow> nat" where
  "count_in needle s =
    (if needle = [] \<or> s = [] then 0
     else if starts needle s then Suc (count_in needle (drop (length needle) s)) else count_in needle (tl s))"
  by pat_completeness auto
termination count_in
  by (relation "measure (\<lambda>(needle, s). length s)") (auto simp: neq_Nil_conv)

declare count_in.simps [simp del]

text \<open>\<^verbatim>\<open>s[-n:]\<close>, which is all of \<open>s\<close> for 0.\<close>

definition keep_tail :: "nat \<Rightarrow> string \<Rightarrow> string" where
  "keep_tail n s = (if n = 0 then s else drop (length s - n) s)"

fun scan_pieces :: "string \<Rightarrow> string \<Rightarrow> string list \<Rightarrow> nat \<times> nat" where
  "scan_pieces needle tail [] = (0, 0)"
| "scan_pieces needle tail (piece # pieces) =
    (let n = length (filter (\<lambda>c. c = newline) piece); s = tail @ piece
     in if needle = [] then (case scan_pieces needle tail pieces of (rows, found) \<Rightarrow> (n + rows, found))
        else (case scan_pieces needle (keep_tail (length needle - 1) s) pieces of
            (rows, found) \<Rightarrow> (n + rows, count_in needle s + found)))"

definition scan :: "string option \<Rightarrow> string list \<Rightarrow> nat \<times> nat" where
  "scan marker pieces = scan_pieces (case marker of None \<Rightarrow> [] | Some m \<Rightarrow> m) [] pieces"

text \<open>The cancelled flag of each chat request after the first \<open>since\<close> rows.\<close>

definition cancelled_after :: "loads \<Rightarrow> string option \<Rightarrow> nat \<Rightarrow> bool list option" where
  "cancelled_after loads file since =
    (let lines = (case file of None \<Rightarrow> [] | Some t \<Rightarrow> butlast (split_on newline t))
     in if length lines < since then None
        else Some (List.map_filter (\<lambda>line. case gateway_row loads line of None \<Rightarrow> None
            | Some row \<Rightarrow>
                if jget ''event'' row = JStr ''request'' \<and> jget ''route'' row = JStr ''/v1/chat/completions''
                then Some (jget ''cancelled'' row = JBool True) else None) (drop since lines)))"

text \<open>A file below the logs: whether it is directly in them, its name and its pieces.\<close>

definition log_name :: "bool \<times> string \<times> string list \<Rightarrow> string" where
  "log_name f = (case f of (direct, name, pieces) \<Rightarrow> if direct \<and> name \<in> set LOGS then name else ''other'')"

definition log_entry :: "string option \<Rightarrow> (bool \<times> string \<times> string list) list \<Rightarrow> string \<Rightarrow> string \<times> json" where
  "log_entry marker files name =
    (let counts = map (\<lambda>f. scan marker (snd (snd f))) (filter (\<lambda>f. log_name f = name) files)
     in (name, JObj ((''rows'', JInt (int (sum_list (map fst counts)))) #
          (if marker = None then [] else [(''found'', JInt (int (sum_list (map snd counts))))]))))"

record inspection =
  in_entries :: "proc_entry list"
  in_deadline :: "string option"
  in_now :: int
  in_files :: "(bool \<times> string \<times> string list) list"
  in_gateway :: "string option"

definition inspect :: "loads \<Rightarrow> inspection \<Rightarrow> string option \<Rightarrow> nat option \<Rightarrow> obj" where
  "inspect loads c marker since =
    (let started = launchers (in_entries c)
     in [(''launchers'', JInt (int (length started))), (''children'', JInt (int (sum_list (map snd started)))),
         (''deadline'', opt_int (trial_deadline (in_deadline c))), (''now'', JInt (in_now c)),
         (''logs'', JObj (map (log_entry marker (in_files c)) (LOGS @ [''other''])))] @
        (case since of None \<Rightarrow> []
         | Some n \<Rightarrow> [(''cancelled'', case cancelled_after loads (in_gateway c) n of
               None \<Rightarrow> JNull | Some flags \<Rightarrow> JList (map JBool flags))]))"

definition is_marker :: "string \<Rightarrow> bool" where
  "is_marker s \<longleftrightarrow> length s = 32 \<and> list_all is_lower_hex s"

text \<open>The request: \<open>None\<close> is the exit code 2 without a line.\<close>

definition inspect_command :: "loads \<Rightarrow> inspection \<Rightarrow> json option \<Rightarrow> obj option" where
  "inspect_command loads c request =
    (case request of
       Some (JObj ob) \<Rightarrow>
         if \<not> set (map fst ob) \<subseteq> {''marker'', ''since''} then None
         else (case (jget ''marker'' ob, jget_or ''since'' (JInt 0) ob) of
             (JNull, JInt n) \<Rightarrow> if n < 0 then None
               else Some (inspect loads c None (if jhas ''since'' ob then Some (nat n) else None))
           | (JStr m, JInt n) \<Rightarrow> if n < 0 \<or> \<not> is_marker m then None
               else Some (inspect loads c (Some m) (if jhas ''since'' ob then Some (nat n) else None))
           | _ \<Rightarrow> None)
     | _ \<Rightarrow> None)"

end
