(* ===== verification/Picture_Engine.thy ===== *)
theory Picture_Engine
  imports Python_Floats
begin

text \<open>
  The picture lane's client of ComfyUI, \<^verbatim>\<open>simple_serving/pictures/comfy.py\<close>: what each route's answer
  is read as, the stop of a job with its confirmation, the count of partial loads in the log, the memory
  of the card while a job draws, the fingerprint of the engine and the state of the one socket. What ComfyUI
  answers is an argument. SHA-256, and Python's \<^verbatim>\<open>str\<close> of a JSON value, are arguments.
\<close>

definition STOP_POLLS :: nat where "STOP_POLLS = 10"
definition MIB_BYTES :: rat where "MIB_BYTES = 1048576"
definition ATTENTION_NODE :: string where "ATTENTION_NODE = ''ModelAttentionBackend''"
definition KITCHEN_ATTENTION :: string where "KITCHEN_ATTENTION = ''comfy kitchen attention''"

subsection \<open>Requests and answers\<close>

text \<open>The kinds of a \<^verbatim>\<open>ComfyError\<close>, the class \<^verbatim>\<open>Rejected\<close>, and last an exception that is neither, which
  \<^verbatim>\<open>suppress(ComfyError)\<close> lets pass.\<close>

datatype comfy_error =
    Unreachable
  | Failed_request
  | Rejected
  | Not_comfy

datatype comfy_reply =
    Refused_connection
  | Http_error
  | Comfy_answers nat "json option" string

fun comfy_request :: "comfy_reply \<Rightarrow> comfy_error + nat \<times> json option \<times> string" where
  "comfy_request Refused_connection = Inl Unreachable"
| "comfy_request Http_error = Inl Failed_request"
| "comfy_request (Comfy_answers st v data) = Inr (st, v, data)"

definition comfy_json :: "comfy_reply \<Rightarrow> comfy_error + json" where
  "comfy_json r =
    andthen (comfy_request r) (\<lambda>(st, v, _).
    andthen (require (st = 200) Failed_request) (\<lambda>_.
    case v of None \<Rightarrow> Inl Failed_request | Some j \<Rightarrow> Inr j))"

definition comfy_object :: "comfy_reply \<Rightarrow> comfy_error + obj" where
  "comfy_object r = andthen (comfy_json r) (\<lambda>v. case v of JObj ob \<Rightarrow> Inr ob | _ \<Rightarrow> Inl Failed_request)"

definition system_stats :: "comfy_reply \<Rightarrow> comfy_error + obj" where
  "system_stats r = comfy_object r"

definition attention_list :: "json \<Rightarrow> json option" where
  "attention_list attention =
    (case attention of
       JList (first # rest) \<Rightarrow>
         (case first of
            JList _ \<Rightarrow> Some first
          | _ \<Rightarrow> (case rest of JObj second # _ \<Rightarrow> Some (jget ''options'' second) | _ \<Rightarrow> None))
     | _ \<Rightarrow> None)"

text \<open>An \<^verbatim>\<open>input\<close> that is no object is an \<^verbatim>\<open>AttributeError\<close>.\<close>

definition attention_offered :: "comfy_reply \<Rightarrow> comfy_error + bool" where
  "attention_offered r =
    andthen (comfy_json r) (\<lambda>info.
    andthen (case (case info of JObj ob \<Rightarrow> jget ATTENTION_NODE ob | _ \<Rightarrow> JNull) of
        JObj node \<Rightarrow>
          (case jget_or ''input'' (JObj []) node of JObj i \<Rightarrow> Inr (jget_or ''required'' (JObj []) i) | _ \<Rightarrow> Inl Not_comfy)
      | _ \<Rightarrow> Inr (JObj [])) (\<lambda>required.
    Inr (case attention_list (case required of JObj ob \<Rightarrow> jget ''attention'' ob | _ \<Rightarrow> JNull) of
        Some (JList options) \<Rightarrow> JStr KITCHEN_ATTENTION \<in> set options
      | _ \<Rightarrow> False)))"

definition submitted :: "string \<Rightarrow> comfy_reply \<Rightarrow> comfy_error + unit" where
  "submitted prompt_id r =
    andthen (comfy_request r) (\<lambda>(st, v, _).
    andthen (require (st \<noteq> 400) Rejected) (\<lambda>_.
    andthen (require (st = 200) Failed_request) (\<lambda>_.
    case v of Some (JObj ob) \<Rightarrow> require (jget ''prompt_id'' ob = JStr prompt_id) Failed_request
    | _ \<Rightarrow> Inl Failed_request)))"

text \<open>\<^verbatim>\<open>_number\<close>: \<^verbatim>\<open>math.isfinite\<close> of an integer beyond the floats is an \<^verbatim>\<open>OverflowError\<close>. The result is
  the value, and \<^verbatim>\<open>float(value)\<close>.\<close>

fun finite_number :: "json \<Rightarrow> comfy_error + (json \<times> rat) option" where
  "finite_number (JInt n) = (case float_of_int n of None \<Rightarrow> Inl Not_comfy | Some q \<Rightarrow> Inr (Some (JInt n, q)))"
| "finite_number (JFloat q) = Inr (Some (JFloat q, q))"
| "finite_number _ = Inr None"

record card_queue =
  q_pending :: "(rat \<times> string) list"
  q_running :: "string list"

definition holds :: "card_queue \<Rightarrow> string \<Rightarrow> bool" where
  "holds q prompt_id \<longleftrightarrow> prompt_id \<in> set (q_running q) \<or> list_ex (\<lambda>(_, one). one = prompt_id) (q_pending q)"

fun pending_entry :: "json \<Rightarrow> comfy_error + (rat \<times> string) option" where
  "pending_entry (JList (n # i # _)) =
    andthen (finite_number n) (\<lambda>v. Inr (case (v, i) of (Some (_, q), JStr s) \<Rightarrow> Some (q, s) | _ \<Rightarrow> None))"
| "pending_entry _ = Inr None"

fun running_entry :: "json \<Rightarrow> string option" where
  "running_entry (JList (_ # JStr s # _)) = Some s"
| "running_entry _ = None"

definition queue_of :: "comfy_reply \<Rightarrow> comfy_error + card_queue" where
  "queue_of r =
    andthen (comfy_json r) (\<lambda>seen.
    let entry = (\<lambda>name. case seen of JObj ob \<Rightarrow> jget name ob | _ \<Rightarrow> JNull)
    in case (entry ''queue_running'', entry ''queue_pending'') of
         (JList running, JList pending) \<Rightarrow>
           andthen (map_res pending_entry pending) (\<lambda>ps.
           Inr \<lparr>q_pending = List.map_filter (\<lambda>p. p) ps, q_running = List.map_filter running_entry running\<rparr>)
       | _ \<Rightarrow> Inl Failed_request)"

definition history_of :: "string \<Rightarrow> comfy_reply \<Rightarrow> comfy_error + obj option" where
  "history_of prompt_id r =
    andthen (comfy_object r) (\<lambda>seen. Inr (as_obj (jget prompt_id seen)))"

text \<open>\<^verbatim>\<open>forget\<close> and \<^verbatim>\<open>cancel\<close> only look whether ComfyUI answered.\<close>

definition done_by :: "comfy_reply \<Rightarrow> comfy_error + unit" where
  "done_by r = andthen (comfy_json r) (\<lambda>_. Inr ())"

fun falsy :: "json \<Rightarrow> bool" where
  "falsy JNull = True"
| "falsy (JBool b) = (\<not> b)"
| "falsy (JInt n) = (n = 0)"
| "falsy (JFloat q) = (q = 0)"
| "falsy (JStr s) = (s = [])"
| "falsy (JList l) = (l = [])"
| "falsy (JObj ob) = (ob = [])"
| "falsy (JNonfinite _) = False"

definition view_params :: "(json \<Rightarrow> string) \<Rightarrow> obj \<Rightarrow> (string \<times> string) list" where
  "view_params str img =
    [(''filename'', str (jget_or ''filename'' (JStr []) img)),
     (''subfolder'', if falsy (jget ''subfolder'' img) then [] else str (jget ''subfolder'' img)),
     (''type'', if falsy (jget ''type'' img) then ''output'' else str (jget ''type'' img))]"

definition viewed :: "comfy_reply \<Rightarrow> comfy_error + string" where
  "viewed r = andthen (comfy_request r) (\<lambda>(st, _, data). andthen (require (st = 200) Failed_request) (\<lambda>_. Inr data))"

definition uploaded :: "string \<Rightarrow> string \<Rightarrow> string \<Rightarrow> comfy_reply \<Rightarrow> comfy_error + unit" where
  "uploaded name kind subfolder r =
    andthen (comfy_object r) (\<lambda>answer.
    require (jget ''name'' answer = JStr name \<and>
      (if falsy (jget ''subfolder'' answer) then JStr [] else jget ''subfolder'' answer) = JStr subfolder \<and>
      jget ''type'' answer = JStr kind) Failed_request)"

definition log_lines :: "(json \<Rightarrow> string) \<Rightarrow> comfy_reply \<Rightarrow> comfy_error + string list" where
  "log_lines str r =
    andthen (comfy_json r) (\<lambda>seen.
    case (case seen of JObj ob \<Rightarrow> jget ''entries'' ob | _ \<Rightarrow> JNull) of
      JList entries \<Rightarrow> Inr (List.map_filter (\<lambda>v. case v of
          JObj ob \<Rightarrow> Some (str (jget ''t'' ob) @ [CHR 0x00] @ str (jget ''m'' ob)) | _ \<Rightarrow> None) entries)
    | _ \<Rightarrow> Inl Failed_request)"

subsection \<open>The stop of a job\<close>

text \<open>One poll: the read of the queue, and the read of the record where the queue does not hold the job.\<close>

record poll =
  po_queue :: "comfy_error + card_queue"
  po_record :: "comfy_error + obj option"

fun stop_polls :: "string \<Rightarrow> nat \<Rightarrow> poll list \<Rightarrow> comfy_error + bool" where
  "stop_polls prompt_id missing [] = Inr False"
| "stop_polls prompt_id missing (p # ps) =
    (case andthen (po_queue p) (\<lambda>q. if holds q prompt_id then Inr None else andthen (po_record p) (\<lambda>r. Inr (Some r))) of
       Inl e \<Rightarrow> if e = Not_comfy then Inl Not_comfy else stop_polls prompt_id missing ps
     | Inr None \<Rightarrow> stop_polls prompt_id 0 ps
     | Inr (Some (Some _)) \<Rightarrow> Inr True
     | Inr (Some None) \<Rightarrow> if Suc missing > 1 then Inr True else stop_polls prompt_id (Suc missing) ps)"

definition stop_job :: "string \<Rightarrow> comfy_error + unit \<Rightarrow> (nat \<Rightarrow> poll) \<Rightarrow> comfy_error + bool" where
  "stop_job prompt_id cancel polls =
    (case cancel of
       Inl e \<Rightarrow> if e = Not_comfy then Inl Not_comfy else stop_polls prompt_id 0 (map polls [0..<STOP_POLLS])
     | Inr _ \<Rightarrow> stop_polls prompt_id 0 (map polls [0..<STOP_POLLS]))"

subsection \<open>The log\<close>

definition PARTIAL_LOAD :: "string \<Rightarrow> bool" where
  "PARTIAL_LOAD line \<longleftrightarrow> contains ''loaded partially'' line \<or> contains ''Unloaded partially'' line"

definition log_cursor :: "(string \<Rightarrow> string) \<Rightarrow> string list \<Rightarrow> string" where
  "log_cursor sha256 ls = (if ls = [] then [] else sha256 (last ls))"

text \<open>The lines past the last one whose hash is the cursor.\<close>

definition past_cursor :: "(string \<Rightarrow> string) \<Rightarrow> string \<Rightarrow> string list \<Rightarrow> string list" where
  "past_cursor sha256 cursor ls =
    (if cursor \<noteq> [] then rev (takeWhile (\<lambda>l. sha256 l \<noteq> cursor) (rev ls)) else ls)"

definition partial_loads_after :: "(string \<Rightarrow> string) \<Rightarrow> string \<Rightarrow> string list \<Rightarrow> nat" where
  "partial_loads_after sha256 cursor ls = length (filter PARTIAL_LOAD (past_cursor sha256 cursor ls))"

subsection \<open>The memory of the card\<close>

text \<open>The difference and the sum of two numbers of JSON: of integers exact, else of floats.\<close>

definition combine :: "(int \<Rightarrow> int \<Rightarrow> int) \<Rightarrow> (rat \<Rightarrow> rat \<Rightarrow> rat) \<Rightarrow> json \<times> rat \<Rightarrow> json \<times> rat \<Rightarrow> json" where
  "combine f g a b =
    (case (fst a, fst b) of
       (JInt m, JInt n) \<Rightarrow> JInt (f m n)
     | _ \<Rightarrow> JFloat (float_near (g (snd a) (snd b))))"

text \<open>\<^verbatim>\<open>_mib\<close>: \<^verbatim>\<open>math.floor\<close> of an infinity is an \<^verbatim>\<open>OverflowError\<close>.\<close>

definition mib :: "json \<Rightarrow> comfy_error + int" where
  "mib amount =
    (case amount of
       JInt n \<Rightarrow> Inr \<lfloor>float_near (float_near (of_int n / MIB_BYTES) + 1 / 2)\<rfloor>
     | JFloat q \<Rightarrow> if \<bar>q\<bar> < 2 ^ 1024 then Inr \<lfloor>float_near (float_near (q / MIB_BYTES) + 1 / 2)\<rfloor> else Inl Not_comfy
     | _ \<Rightarrow> Inl Not_comfy)"

record vram =
  v_index :: int
  v_total :: int
  v_used_max :: int
  v_occupied_max :: "int option"

record card_memory =
  m_vram :: "vram list"
  m_samples :: nat
  m_ram :: "(int \<times> int) option"

definition memory_init :: card_memory where
  "memory_init = \<lparr>m_vram = [], m_samples = 0, m_ram = None\<rparr>"

definition device_number :: "obj \<Rightarrow> string \<Rightarrow> comfy_error + (json \<times> rat) option" where
  "device_number device name = finite_number (jget name device)"

text \<open>A device of a read, with its place in the list; \<open>None\<close> for one whose memory is not told.\<close>

definition device_seen :: "nat \<times> json \<Rightarrow> comfy_error + vram option" where
  "device_seen = (\<lambda>(order, v).
    case v of
      JObj device \<Rightarrow>
        andthen (device_number device ''vram_total'') (\<lambda>total.
        case total of None \<Rightarrow> Inr None
        | Some t \<Rightarrow>
            andthen (device_number device ''vram_free'') (\<lambda>free.
            case free of None \<Rightarrow> Inr None
            | Some f \<Rightarrow>
                let used = combine (-) (-) t f
                in andthen (mib (fst t)) (\<lambda>total_mib.
                   andthen (mib used) (\<lambda>used_mib.
                   andthen (device_number device ''torch_vram_free'') (\<lambda>torch.
                   andthen (case torch of None \<Rightarrow> Inr None
                       | Some x \<Rightarrow> andthen (mib (combine (+) (+) (used, (case used of JFloat q \<Rightarrow> q | JInt n \<Rightarrow> float_near (of_int n) | _ \<Rightarrow> 0)) x))
                           (\<lambda>n. Inr (Some n))) (\<lambda>occupied.
                   Inr (Some \<lparr>v_index = (case jget ''index'' device of JInt n \<Rightarrow> n | _ \<Rightarrow> int order),
                     v_total = total_mib, v_used_max = used_mib, v_occupied_max = occupied\<rparr>)))))))
    | _ \<Rightarrow> Inr None)"

definition merge_known :: "vram \<Rightarrow> vram \<Rightarrow> vram" where
  "merge_known known one =
    known\<lparr>v_used_max := max (v_used_max known) (v_used_max one),
      v_occupied_max := (case v_occupied_max one of None \<Rightarrow> v_occupied_max known
        | Some n \<Rightarrow> Some (max (case v_occupied_max known of None \<Rightarrow> 0 | Some k \<Rightarrow> k) n))\<rparr>"

fun merge_device :: "vram \<Rightarrow> vram list \<Rightarrow> vram list" where
  "merge_device one [] = [one]"
| "merge_device one (known # rest) =
    (if v_index known = v_index one then merge_known known one # rest else known # merge_device one rest)"

definition merge_ram :: "int \<Rightarrow> (int \<times> int) option \<Rightarrow> (int \<times> int) option" where
  "merge_ram ram seen = (case seen of None \<Rightarrow> Some (ram, ram) | Some (lo, hi) \<Rightarrow> Some (min lo ram, max hi ram))"

text \<open>A read of the statistics, added; the second value is false where it raised, past the devices or before them.\<close>

definition merge_stats :: "obj \<Rightarrow> bool \<Rightarrow> card_memory \<Rightarrow> card_memory \<times> bool" where
  "merge_stats stats during m =
    (let devices = (case jget ''devices'' stats of JList l \<Rightarrow> l | _ \<Rightarrow> [])
     in case map_res device_seen (zip [0..<length devices] devices) of
          Inl _ \<Rightarrow> (m, False)
        | Inr found \<Rightarrow>
            let seen = List.map_filter (\<lambda>x. x) found;
                m1 = m\<lparr>m_samples := (if seen \<noteq> [] \<and> during then Suc (m_samples m) else m_samples m),
                  m_vram := fold merge_device seen (m_vram m)\<rparr>
            in case jget ''system'' stats of
                 JObj system \<Rightarrow>
                   (case andthen (device_number system ''ram_total'') (\<lambda>total.
                        case total of None \<Rightarrow> Inr None
                        | Some t \<Rightarrow>
                            andthen (device_number system ''ram_free'') (\<lambda>free.
                            case free of None \<Rightarrow> Inr None
                            | Some f \<Rightarrow> andthen (mib (combine (-) (-) t f)) (\<lambda>n. Inr (Some n)))) of
                      Inl _ \<Rightarrow> (m1, False)
                    | Inr None \<Rightarrow> (m1, True)
                    | Inr (Some ram) \<Rightarrow> (m1\<lparr>m_ram := merge_ram ram (m_ram m)\<rparr>, True))
               | _ \<Rightarrow> (m1, True))"

definition vram_event :: "vram \<Rightarrow> json" where
  "vram_event v =
    JObj ([(''index'', JInt (v_index v)), (''total_mib'', JInt (v_total v)), (''used_mib_max'', JInt (v_used_max v))] @
      (case v_occupied_max v of None \<Rightarrow> [] | Some n \<Rightarrow> [(''occupied_mib_max'', JInt n)]))"

definition memory_event :: "card_memory \<Rightarrow> json" where
  "memory_event m =
    JObj ([(''vram'', JList (map vram_event (m_vram m))), (''samples'', JInt (int (m_samples m)))] @
      (case m_ram m of None \<Rightarrow> []
       | Some (lo, hi) \<Rightarrow> [(''ram_mib'', JObj [(''min'', JInt lo), (''max'', JInt hi)])]))"

subsection \<open>The engine's fingerprint and the socket\<close>

record fingerprint =
  f_comfyui :: "string option"
  f_pytorch :: "string option"
  f_triton :: bool
  f_card :: "string option"

definition some_text :: "json \<Rightarrow> string option" where
  "some_text v = (case v of JStr s \<Rightarrow> if s \<noteq> [] then Some s else None | _ \<Rightarrow> None)"

definition fingerprint_of :: "obj \<Rightarrow> fingerprint" where
  "fingerprint_of stats =
    (let system = (case jget ''system'' stats of JObj ob \<Rightarrow> ob | _ \<Rightarrow> []);
         first = (case jget ''devices'' stats of JList (JObj ob # _) \<Rightarrow> ob | _ \<Rightarrow> []);
         flags = (case jget ''argv'' system of JList l \<Rightarrow> l | _ \<Rightarrow> [])
     in \<lparr>f_comfyui = some_text (jget ''comfyui_version'' system), f_pytorch = some_text (jget ''pytorch_version'' system),
         f_triton = (JStr ''--enable-triton-backend'' \<in> set flags \<and> JStr ''--disable-triton-backend'' \<notin> set flags),
         f_card = some_text (jget ''name'' first)\<rparr>)"

text \<open>The one socket: each time it opens it has a new id and the next epoch.\<close>

record socket =
  so_client_id :: string
  so_epoch :: nat
  so_open :: bool

definition socket_init :: socket where
  "socket_init = \<lparr>so_client_id = [], so_epoch = 0, so_open = False\<rparr>"

definition socket_opens :: "string \<Rightarrow> socket \<Rightarrow> socket" where
  "socket_opens client_id s = s\<lparr>so_client_id := client_id, so_epoch := Suc (so_epoch s), so_open := True\<rparr>"

definition socket_drops :: "socket \<Rightarrow> socket" where
  "socket_drops s = s\<lparr>so_open := False\<rparr>"

definition socket_message :: "(string \<Rightarrow> json option) \<Rightarrow> string \<Rightarrow> socket \<Rightarrow> (obj \<times> nat) option" where
  "socket_message loads raw s = (case loads raw of Some (JObj message) \<Rightarrow> Some (message, so_epoch s) | _ \<Rightarrow> None)"

subsection \<open>When a stop is confirmed\<close>

datatype look = Held | Recorded | Absent | Silent | Raised

definition look_of :: "string \<Rightarrow> poll \<Rightarrow> look" where
  "look_of prompt_id p =
    (case po_queue p of
       Inl e \<Rightarrow> if e = Not_comfy then Raised else Silent
     | Inr q \<Rightarrow>
         if holds q prompt_id then Held
         else (case po_record p of Inl e \<Rightarrow> if e = Not_comfy then Raised else Silent
           | Inr None \<Rightarrow> Absent | Inr (Some _) \<Rightarrow> Recorded))"

lemma stop_polls_Cons:
  "stop_polls prompt_id missing (p # ps) =
    (case look_of prompt_id p of
       Held \<Rightarrow> stop_polls prompt_id 0 ps
     | Recorded \<Rightarrow> Inr True
     | Absent \<Rightarrow> if Suc missing > 1 then Inr True else stop_polls prompt_id (Suc missing) ps
     | Silent \<Rightarrow> stop_polls prompt_id missing ps
     | Raised \<Rightarrow> Inl Not_comfy)"
  by (cases "po_queue p"; cases "po_record p") (auto simp: look_of_def split: option.splits)

text \<open>A record, or two looks that found the job nowhere with none between them that found it in the queue; the
  first of the two may be before the list, as the flag says.\<close>

definition gone_at :: "string \<Rightarrow> bool \<Rightarrow> poll list \<Rightarrow> nat \<Rightarrow> bool" where
  "gone_at prompt_id before ps j \<longleftrightarrow>
    look_of prompt_id (ps ! j) = Recorded \<or>
    look_of prompt_id (ps ! j) = Absent \<and>
      (before \<and> (\<forall>k<j. look_of prompt_id (ps ! k) \<noteq> Held) \<or>
       (\<exists>i<j. look_of prompt_id (ps ! i) = Absent \<and> (\<forall>k. i < k \<longrightarrow> k < j \<longrightarrow> look_of prompt_id (ps ! k) \<noteq> Held)))"

lemma gone_at_0: "gone_at prompt_id before (p # ps) 0 \<longleftrightarrow>
    look_of prompt_id p = Recorded \<or> before \<and> look_of prompt_id p = Absent"
  by (auto simp: gone_at_def)

lemma gone_at_Suc: "gone_at prompt_id before (p # ps) (Suc j) \<longleftrightarrow>
    gone_at prompt_id (before \<and> look_of prompt_id p \<noteq> Held \<or> look_of prompt_id p = Absent) ps j"
proof -
  let ?l = "\<lambda>p. look_of prompt_id p"
  have a: "(\<forall>k<Suc j. ?l ((p # ps) ! k) \<noteq> Held) \<longleftrightarrow> ?l p \<noteq> Held \<and> (\<forall>k<j. ?l (ps ! k) \<noteq> Held)"
    by (auto simp: less_Suc_eq_0_disj)
  have b: "(\<forall>k. Suc i < k \<longrightarrow> k < Suc j \<longrightarrow> ?l ((p # ps) ! k) \<noteq> Held) \<longleftrightarrow> (\<forall>k. i < k \<longrightarrow> k < j \<longrightarrow> ?l (ps ! k) \<noteq> Held)" for i
    by (metis Suc_less_eq not0_implies_Suc nth_Cons_Suc not_less_zero)
  have b0: "(\<forall>k. 0 < k \<longrightarrow> k < Suc j \<longrightarrow> ?l ((p # ps) ! k) \<noteq> Held) \<longleftrightarrow> (\<forall>k<j. ?l (ps ! k) \<noteq> Held)"
    by (auto simp: less_Suc_eq_0_disj)
  have c: "(\<exists>i<Suc j. ?l ((p # ps) ! i) = Absent \<and> (\<forall>k. i < k \<longrightarrow> k < Suc j \<longrightarrow> ?l ((p # ps) ! k) \<noteq> Held)) \<longleftrightarrow>
      ?l p = Absent \<and> (\<forall>k<j. ?l (ps ! k) \<noteq> Held) \<or>
      (\<exists>i<j. ?l (ps ! i) = Absent \<and> (\<forall>k. i < k \<longrightarrow> k < j \<longrightarrow> ?l (ps ! k) \<noteq> Held))"
    using b b0 by (auto simp: less_Suc_eq_0_disj)
  show ?thesis unfolding gone_at_def nth_Cons_Suc a c by auto
qed

lemma stop_polls_iff:
  "stop_polls prompt_id missing ps = Inr b \<Longrightarrow> missing \<le> 1 \<Longrightarrow> b \<longleftrightarrow> (\<exists>j<length ps. gone_at prompt_id (0 < missing) ps j)"
proof (induction ps arbitrary: missing)
  case Nil
  then show ?case by simp
next
  case (Cons p ps)
  have e: "(\<exists>j<length (p # ps). gone_at prompt_id before (p # ps) j) \<longleftrightarrow> gone_at prompt_id before (p # ps) 0 \<or>
      (\<exists>j<length ps. gone_at prompt_id before (p # ps) (Suc j))" for before
    by (auto simp: less_Suc_eq_0_disj)
  show ?case
    using Cons.prems Cons.IH [of 0] Cons.IH [of missing] Cons.IH [of "Suc missing"]
    unfolding e gone_at_Suc gone_at_0 stop_polls_Cons
    by (cases "look_of prompt_id p") (auto split: if_splits)
qed

lemma stop_polls_raises: "stop_polls prompt_id missing ps = Inl e \<Longrightarrow> e = Not_comfy \<and> (\<exists>p \<in> set ps. look_of prompt_id p = Raised)"
proof (induction ps arbitrary: missing)
  case (Cons p ps)
  then show ?case
    unfolding stop_polls_Cons by (cases "look_of prompt_id p") (auto split: if_splits)
qed simp

text \<open>
  The stop of a job ends within ten polls, and says that it is confirmed exactly when one of them saw the job's
  record, or two of them saw it neither in the queue nor in the history and none between those saw it in the queue.
  Polls that ComfyUI did not answer confirm nothing.
\<close>

theorem stop_confirmed_iff:
  assumes "stop_job prompt_id cancel polls = Inr confirmed"
  shows "confirmed \<longleftrightarrow> (\<exists>j<STOP_POLLS. look_of prompt_id (polls j) = Recorded \<or>
    look_of prompt_id (polls j) = Absent \<and>
      (\<exists>i<j. look_of prompt_id (polls i) = Absent \<and> (\<forall>k. i < k \<and> k < j \<longrightarrow> look_of prompt_id (polls k) \<noteq> Held)))"
proof -
  let ?ps = "map polls [0..<STOP_POLLS]"
  have "stop_polls prompt_id 0 ?ps = Inr confirmed"
    using assms by (auto simp: stop_job_def split: sum.splits if_splits)
  from stop_polls_iff [OF this] have "confirmed \<longleftrightarrow> (\<exists>j<STOP_POLLS. gone_at prompt_id False ?ps j)" by simp
  moreover have "gone_at prompt_id False ?ps j \<longleftrightarrow> look_of prompt_id (polls j) = Recorded \<or>
    look_of prompt_id (polls j) = Absent \<and>
      (\<exists>i<j. look_of prompt_id (polls i) = Absent \<and> (\<forall>k. i < k \<and> k < j \<longrightarrow> look_of prompt_id (polls k) \<noteq> Held))"
    if j: "j < STOP_POLLS" for j
  proof -
    have n: "?ps ! k = polls k" if "k \<le> j" for k using that j by simp
    show ?thesis unfolding gone_at_def using n by (auto; metis less_imp_le less_trans)
  qed
  ultimately show ?thesis by blast
qed

definition sample_poll :: "nat \<Rightarrow> poll" where
  "sample_poll n = \<lparr>po_queue = (if n = 1 then Inl Failed_request
     else Inr \<lparr>q_pending = [], q_running = (if n = 0 then [''job''] else [])\<rparr>), po_record = Inr None\<rparr>"

theorem stop_confirmed_iff_witness:
  "stop_job ''job'' (Inr ()) sample_poll = Inr True \<and> look_of ''job'' (sample_poll 1) = Silent \<and>
    (\<exists>j<STOP_POLLS. look_of ''job'' (sample_poll j) = Absent)"
proof -
  have s: "stop_job ''job'' (Inr ()) sample_poll = Inr True" by code_simp
  have l: "look_of ''job'' (sample_poll j) \<noteq> Recorded" for j by (simp add: look_of_def sample_poll_def)
  have "look_of ''job'' (sample_poll 1) = Silent" by (simp add: look_of_def sample_poll_def)
  with s stop_confirmed_iff [OF s] l show ?thesis by auto
qed

subsection \<open>What the memory and the log count\<close>

lemma partial_loads_of_new:
  assumes "old \<noteq> []" and "sha256 (last old) \<noteq> []" and "\<And>l. l \<in> set new \<Longrightarrow> sha256 l \<noteq> sha256 (last old)"
  shows "partial_loads_after sha256 (log_cursor sha256 old) (old @ new) = length (filter PARTIAL_LOAD new)"
proof -
  have "takeWhile (\<lambda>l. sha256 l \<noteq> sha256 (last old)) (rev new @ rev old) = rev new"
    using assms(1,3) by (subst takeWhile_append2) (auto simp: hd_rev takeWhile_eq_Nil_iff)
  then show ?thesis using assms(1,2) by (simp add: partial_loads_after_def past_cursor_def log_cursor_def)
qed

lemma merge_device_index: "set (map v_index (merge_device one vs)) = insert (v_index one) (set (map v_index vs))"
  by (induction vs) (auto simp: merge_known_def)

lemma merge_device_distinct: "distinct (map v_index vs) \<Longrightarrow> distinct (map v_index (merge_device one vs))"
  by (induction vs) (use merge_device_index in \<open>auto simp: merge_known_def\<close>)

lemma merge_device_used:
  "distinct (map v_index vs) \<Longrightarrow> v \<in> set (merge_device one vs) \<Longrightarrow>
    v_index v \<noteq> v_index one \<and> v \<in> set vs \<or>
    v_index v = v_index one \<and> v_used_max v = v_used_max one \<and> v_index one \<notin> v_index ` set vs \<or>
    v_index v = v_index one \<and> (\<exists>k \<in> set vs. v_index k = v_index one \<and> v_used_max v = max (v_used_max k) (v_used_max one))"
proof (induction vs)
  case (Cons a vs)
  show ?case
  proof (cases "v_index a = v_index one")
    case True
    then have "v = merge_known a one \<or> v \<in> set vs \<and> v_index v \<noteq> v_index one"
      using Cons.prems by (auto simp: image_iff)
    with True show ?thesis by (auto simp: merge_known_def)
  next
    case False
    then have "v = a \<or> v \<in> set (merge_device one vs)" using Cons.prems by auto
    with Cons False show ?thesis by auto
  qed
qed simp

text \<open>What is kept of several reads: one entry for each device seen, with the most of it that was in use.\<close>

lemma memory_maxima:
  "distinct (map v_index (fold merge_device seen [])) \<and> v_index ` set (fold merge_device seen []) = v_index ` set seen \<and>
   (\<forall>v \<in> set (fold merge_device seen []). v_used_max v = Max (v_used_max ` {d \<in> set seen. v_index d = v_index v}))"
proof (induction seen rule: rev_induct)
  case Nil
  then show ?case by simp
next
  case (snoc one seen)
  let ?m = "fold merge_device seen []"
  have d: "distinct (map v_index ?m)" and i: "v_index ` set ?m = v_index ` set seen"
    and u: "\<And>v. v \<in> set ?m \<Longrightarrow> v_used_max v = Max (v_used_max ` {d \<in> set seen. v_index d = v_index v})"
    using snoc by auto
  have "v_used_max v = Max (v_used_max ` {d \<in> set (seen @ [one]). v_index d = v_index v})"
    if v: "v \<in> set (merge_device one ?m)" for v
  proof (cases "v_index v = v_index one")
    case False
    with merge_device_used [OF d v] u have "v_used_max v = Max (v_used_max ` {d \<in> set seen. v_index d = v_index v})" by auto
    moreover have "{d \<in> set (seen @ [one]). v_index d = v_index v} = {d \<in> set seen. v_index d = v_index v}" using False by auto
    ultimately show ?thesis by simp
  next
    case True
    then have s: "{d \<in> set (seen @ [one]). v_index d = v_index v} = insert one {d \<in> set seen. v_index d = v_index one}" by auto
    show ?thesis
    proof (cases "v_index one \<in> v_index ` set seen")
      case False
      then have e: "{d \<in> set seen. v_index d = v_index one} = {}" by (auto simp: image_iff)
      have "k \<notin> set ?m" if "v_index k = v_index one" for k using i that False by (metis imageI)
      with merge_device_used [OF d v] True show ?thesis unfolding s e by auto
    next
      case in_seen: True
      with merge_device_used [OF d v] True i obtain k where k: "k \<in> set ?m" "v_index k = v_index one"
        "v_used_max v = max (v_used_max k) (v_used_max one)" by auto
      moreover have "{d \<in> set seen. v_index d = v_index one} \<noteq> {}" using in_seen by auto
      ultimately show ?thesis unfolding s using u [OF k(1)] by (simp add: max.commute)
    qed
  qed
  then show ?case using merge_device_distinct [OF d] merge_device_index [of one ?m] i by auto
qed

end
