(* ===== verification/Picture_Graphs.thy ===== *)
theory Picture_Graphs
  imports Python_Floats Validation
begin

text \<open>
  What a graph may be and touch on the card, by class, and the pictures on their way,
  \<^verbatim>\<open>simple_serving/pictures/graphs.py\<close>: the check of a graph and its copies, the nonce of its
  previews, a PNG without its text chunks, and which pictures of a record are shown. Bytes are
  strings; which uploads a caller owns is an argument.
\<close>

subsection \<open>Names\<close>

definition NODE_FIELDS :: "string list" where "NODE_FIELDS = [''class_type'', ''inputs'', ''_meta'']"
definition MAX_COPIES :: nat where "MAX_COPIES = 16"
definition TEMP :: string where "TEMP = '' [temp]''"

definition node_char :: "char \<Rightarrow> bool" where
  "node_char c \<longleftrightarrow> is_word c \<or> c \<in> set '':.-''"

definition NODE_ID :: "string \<Rightarrow> bool" where
  "NODE_ID s \<longleftrightarrow> 1 \<le> length s \<and> length s \<le> 64 \<and> list_all node_char s"

text \<open>Groups of hexadecimal digits with hyphens between them, and a suffix.\<close>

definition UPLOAD_NAME :: "string \<Rightarrow> string option" where
  "UPLOAD_NAME s =
    (case split_on (CHR ''.'') s of
       [base, kind] \<Rightarrow>
         if map length (split_on (CHR ''-'') base) = [8, 4, 4, 4, 12] \<and>
            list_all (list_all is_lower_hex) (split_on (CHR ''-'') base) \<and> kind \<in> {''png'', ''jpg'', ''webp''}
         then Some kind else None
     | _ \<Rightarrow> None)"

definition UPLOADED :: "string \<Rightarrow> string option" where
  "UPLOADED s = enclosed_word (\<lambda>c. c \<notin> set ''/[]'') ''bot-references/'' TEMP s"

definition INPUT_NAME :: "string \<Rightarrow> bool" where
  "INPUT_NAME s \<longleftrightarrow>
    (case enclosed_word is_lower_hex ''ref-'' ''.png'' s of None \<Rightarrow> False | Some w \<Rightarrow> length w = 16)"

definition PLAIN_INPUT :: "string \<Rightarrow> bool" where
  "PLAIN_INPUT s \<longleftrightarrow> s \<noteq> [] \<and> length s \<le> 128 \<and> (is_letter (hd s) \<or> is_digit (hd s)) \<and>
     list_all (\<lambda>c. is_word c \<or> c \<in> set ''.-'') s"

definition UPLOAD_TYPES :: "string \<rightharpoonup> string" where
  "UPLOAD_TYPES = [''png'' \<mapsto> ''image/png'', ''jpg'' \<mapsto> ''image/jpeg'', ''webp'' \<mapsto> ''image/webp'']"

definition ends_with :: "string \<Rightarrow> string \<Rightarrow> bool" where
  "ends_with suffix s \<longleftrightarrow> starts (rev suffix) (rev s)"

subsection \<open>The check of a graph\<close>

fun strings_of :: "json \<Rightarrow> string list" where
  "strings_of (JStr s) = [s]"
| "strings_of (JObj ob) = concat (map (\<lambda>(n, v). strings_of v) ob)"
| "strings_of (JList l) = concat (map strings_of l)"
| "strings_of _ = []"

text \<open>Whether a node is one of the caller's graph, and whether it reads one of the caller's uploads.\<close>

definition node_check :: "cls \<Rightarrow> string list \<Rightarrow> (string \<Rightarrow> bool) \<Rightarrow> string \<times> json \<Rightarrow> bool option" where
  "node_check cls reader_nodes owns = (\<lambda>(node_id, node).
    case node of
      JObj fs \<Rightarrow>
        if \<not> NODE_ID node_id \<or> \<not> set (map fst fs) \<subseteq> set NODE_FIELDS then None
        else (case (jget ''class_type'' fs, jget ''inputs'' fs) of
            (JStr kind, JObj inputs) \<Rightarrow>
              if cls \<noteq> Internal \<and> kind \<notin> set reader_nodes then None
              else
                let image = as_str (jget ''image'' inputs);
                    own = (case Option.bind image UPLOADED of None \<Rightarrow> False | Some n \<Rightarrow> owns n);
                    plain = (case image of None \<Rightarrow> False | Some s \<Rightarrow> PLAIN_INPUT s)
                in if kind = ''LoadImage'' \<and> \<not> own \<and> (cls \<noteq> Internal \<or> \<not> plain) then None
                   else if list_ex (\<lambda>s. ends_with TEMP s \<and> (case UPLOADED s of None \<Rightarrow> True | Some n \<Rightarrow> \<not> owns n))
                       (strings_of (JObj inputs)) then None
                   else Some (kind = ''LoadImage'' \<and> own)
          | _ \<Rightarrow> None)
    | _ \<Rightarrow> None)"

definition copies_check :: "obj \<Rightarrow> json \<Rightarrow> string list option" where
  "copies_check graph copies =
    (case copies of
       JNull \<Rightarrow> Some []
     | JList l \<Rightarrow>
         (case those (map as_str l) of
            None \<Rightarrow> None
          | Some names \<Rightarrow>
              if length l > MAX_COPIES \<or> \<not> distinct names \<or> \<not> set names \<subseteq> fst ` set graph then None else Some names)
     | _ \<Rightarrow> None)"

text \<open>The graph, its copies and how many of the caller's uploads it reads, or \<^verbatim>\<open>graph_refused\<close>.\<close>

definition check_graph ::
  "cls \<Rightarrow> string list \<Rightarrow> nat \<Rightarrow> (string \<Rightarrow> bool) \<Rightarrow> json \<Rightarrow> json \<Rightarrow> (obj \<times> string list \<times> nat) result"
where
  "check_graph cls reader_nodes max_nodes owns value copies =
    (case value of
       JObj graph \<Rightarrow>
         if graph = [] \<or> length graph > max_nodes then Inl Graph_refused
         else (case (those (map (node_check cls reader_nodes owns) graph), copies_check graph copies) of
             (Some reads, Some names) \<Rightarrow> Inr (graph, names, length (filter id reads))
           | _ \<Rightarrow> Inl Graph_refused)
     | _ \<Rightarrow> Inl Graph_refused)"

definition with_nonce :: "obj \<Rightarrow> string \<Rightarrow> obj" where
  "with_nonce graph nonce =
    map (\<lambda>(node_id, node). (node_id,
      case node of
        JObj fs \<Rightarrow>
          (case (jget ''class_type'' fs, jget ''inputs'' fs) of
             (JStr kind, JObj inputs) \<Rightarrow>
               if kind = ''PreviewImage'' then JObj (jput ''inputs'' (JObj (jput ''nonce'' (JStr nonce) inputs)) fs) else node
           | _ \<Rightarrow> node)
      | _ \<Rightarrow> node)) graph"

subsection \<open>Pictures\<close>

definition PNG_SIGNATURE :: string where
  "PNG_SIGNATURE = [CHR 0x89, CHR ''P'', CHR ''N'', CHR ''G'', CHR 0x0D, CHR 0x0A, CHR 0x1A, CHR 0x0A]"

definition KEPT_CHUNKS :: "string list" where
  "KEPT_CHUNKS = [''IHDR'', ''PLTE'', ''tRNS'', ''IDAT'', ''IEND'']"

definition from_bytes :: "string \<Rightarrow> nat" where
  "from_bytes s = foldl (\<lambda>n c. n * 256 + of_char c) 0 s"

definition chunk_kind :: "string \<Rightarrow> string" where
  "chunk_kind rest = take 4 (drop 4 rest)"

definition chunk_size :: "string \<Rightarrow> nat" where
  "chunk_size rest = 12 + from_bytes (take 4 rest)"

text \<open>The chunks kept of what follows the signature; none where one is cut short.\<close>

function kept_chunks :: "string \<Rightarrow> string list option" where
  "kept_chunks rest =
    (if length rest < 8 then Some []
     else if chunk_size rest > length rest then None
     else let this = (if chunk_kind rest \<in> set KEPT_CHUNKS then [take (chunk_size rest) rest] else [])
          in if chunk_kind rest = ''IEND'' then Some this
             else map_option ((@) this) (kept_chunks (drop (chunk_size rest) rest)))"
  by pat_completeness auto
termination kept_chunks
  by (relation "measure length") (auto simp: chunk_size_def)

declare kept_chunks.simps [simp del]

definition strip_png :: "string \<Rightarrow> string + string" where
  "strip_png data =
    (if take 8 data \<noteq> PNG_SIGNATURE then Inl ''not_a_png''
     else (case kept_chunks (drop 8 data) of
         None \<Rightarrow> Inl ''truncated_png''
       | Some cs \<Rightarrow> if Suc (length cs) < 3 then Inl ''not_a_png'' else Inr (PNG_SIGNATURE @ concat cs)))"

definition image_type :: "string \<Rightarrow> string option" where
  "image_type data =
    (if take 8 data = PNG_SIGNATURE then Some ''image/png''
     else if take 3 data = [CHR 0xFF, CHR 0xD8, CHR 0xFF] then Some ''image/jpeg''
     else if length data \<ge> 12 \<and> take 4 data = ''RIFF'' \<and> take 4 (drop 8 data) = ''WEBP'' then Some ''image/webp''
     else None)"

text \<open>Keys as a JavaScript object orders them: integers first, ascending, then the rest as they came.\<close>

definition integer_key :: "string \<Rightarrow> bool" where
  "integer_key key \<longleftrightarrow> is_digits key \<and> (key = ''0'' \<or> hd key \<noteq> CHR ''0'') \<and> of_digits 10 key < 2 ^ 32 - 1"

definition js_order :: "string list \<Rightarrow> string list" where
  "js_order keys = sort_key (of_digits 10) (filter integer_key keys) @ filter (\<lambda>k. \<not> integer_key k) keys"

definition node_images :: "obj \<Rightarrow> string \<Rightarrow> obj list" where
  "node_images outputs node =
    (case jget node outputs of
       JObj output \<Rightarrow>
         (case jget ''images'' output of
            JList found \<Rightarrow> List.map_filter (\<lambda>v. case v of JObj ob \<Rightarrow> Some ob | _ \<Rightarrow> None) found
          | _ \<Rightarrow> [])
     | _ \<Rightarrow> [])"

text \<open>The frame, and the first picture of each copy that has one, each with its node.\<close>

definition pictures_of :: "obj \<Rightarrow> string list \<Rightarrow> (string \<times> obj) option \<times> (string \<times> obj) list" where
  "pictures_of rec copies =
    (let outputs = (case jget ''outputs'' rec of JObj ob \<Rightarrow> ob | _ \<Rightarrow> []);
         frames = concat (map (\<lambda>node. if node \<in> set copies then [] else map (Pair node) (node_images outputs node))
           (js_order (map fst outputs)))
     in (case frames of [] \<Rightarrow> None | f # _ \<Rightarrow> Some f,
         concat (map (\<lambda>node. case node_images outputs node of [] \<Rightarrow> [] | img # _ \<Rightarrow> [(node, img)]) copies)))"

subsection \<open>What an accepted graph touches\<close>

lemma strings_of_size: "(n, v) \<in> set ob \<Longrightarrow> s \<in> set (strings_of v) \<Longrightarrow> s \<in> set (strings_of (JObj ob))"
  by force

definition reads_own :: "(string \<Rightarrow> bool) \<Rightarrow> string \<Rightarrow> bool" where
  "reads_own owns s \<longleftrightarrow> (\<exists>n. UPLOADED s = Some n \<and> owns n)"

text \<open>What a node may be for a class.\<close>

definition node_ok :: "cls \<Rightarrow> string list \<Rightarrow> (string \<Rightarrow> bool) \<Rightarrow> json \<Rightarrow> bool" where
  "node_ok cls reader_nodes owns node \<longleftrightarrow>
    (\<exists>fs kind inputs. node = JObj fs \<and> set (map fst fs) \<subseteq> set NODE_FIELDS \<and> jget ''class_type'' fs = JStr kind \<and>
       jget ''inputs'' fs = JObj inputs \<and> (cls = Internal \<or> kind \<in> set reader_nodes) \<and>
       (kind = ''LoadImage'' \<longrightarrow> (\<exists>s. jget ''image'' inputs = JStr s \<and> (reads_own owns s \<or> cls = Internal \<and> PLAIN_INPUT s))) \<and>
       (\<forall>s \<in> set (strings_of (JObj inputs)). ends_with TEMP s \<longrightarrow> reads_own owns s))"

lemma as_str_Some: "as_str v = Some s \<longleftrightarrow> v = JStr s"
  by (cases v) simp_all

lemma node_check_ok:
  assumes "node_check cls reader_nodes owns (node_id, node) = Some b"
  shows "node_ok cls reader_nodes owns node \<and> NODE_ID node_id"
proof -
  obtain fs where n: "node = JObj fs" using assms by (cases node) (simp_all add: node_check_def)
  obtain kind inputs where k: "jget ''class_type'' fs = JStr kind" "jget ''inputs'' fs = JObj inputs"
    using assms by (auto simp: node_check_def n split: if_splits json.splits)
  define own where "own = (case Option.bind (as_str (jget ''image'' inputs)) UPLOADED of None \<Rightarrow> False | Some n \<Rightarrow> owns n)"
  have c: "NODE_ID node_id" "set (map fst fs) \<subseteq> set NODE_FIELDS" "cls = Internal \<or> kind \<in> set reader_nodes"
    "kind = ''LoadImage'' \<Longrightarrow> own \<or> cls = Internal \<and> (case as_str (jget ''image'' inputs) of None \<Rightarrow> False | Some s \<Rightarrow> PLAIN_INPUT s)"
    "\<not> list_ex (\<lambda>s. ends_with TEMP s \<and> (case UPLOADED s of None \<Rightarrow> True | Some n \<Rightarrow> \<not> owns n)) (strings_of (JObj inputs))"
    using assms unfolding n node_check_def Let_def prod.case json.case k own_def [symmetric] by (auto split: if_splits)
  have o: "own \<Longrightarrow> \<exists>s. jget ''image'' inputs = JStr s \<and> reads_own owns s"
    by (auto simp: own_def reads_own_def as_str_Some bind_eq_Some_conv split: option.splits)
  have r: "reads_own owns s" if "s \<in> set (strings_of (JObj inputs))" "ends_with TEMP s" for s
    using c(5) that unfolding list_ex_iff reads_own_def
    by (cases "UPLOADED s") (auto simp del: strings_of.simps)
  show ?thesis
    unfolding node_ok_def using n k c(1-4) o r by (auto simp: as_str_Some simp del: strings_of.simps split: option.splits)
qed

lemma check_graph_nodes:
  assumes "check_graph cls reader_nodes max_nodes owns value copies = Inr (graph, names, references)"
  shows "list_all (\<lambda>(node_id, node). NODE_ID node_id \<and> node_ok cls reader_nodes owns node) graph"
proof -
  obtain reads where "those (map (node_check cls reader_nodes owns) graph) = Some reads"
    using assms by (auto simp: check_graph_def split: json.splits if_splits option.splits)
  then have l: "list_all2 (\<lambda>p b. node_check cls reader_nodes owns p = Some b) graph reads"
    by (simp add: those_Some_iff list_all2_map1)
  have "NODE_ID i \<and> node_ok cls reader_nodes owns node" if "(i, node) \<in> set graph" for i node
  proof -
    from that obtain j where j: "j < length graph" "graph ! j = (i, node)" by (auto simp: in_set_conv_nth)
    from list_all2_nthD [OF l j(1)] j(2) have "node_check cls reader_nodes owns (i, node) = Some (reads ! j)" by simp
    from node_check_ok [OF this] show ?thesis by simp
  qed
  then show ?thesis unfolding list_all_iff by blast
qed

text \<open>
  A graph that the gateway lets through touches nothing of another reader. Outside the experiments it
  has nodes of the allowlist alone and loads only the caller's own live uploads; in every class a text
  that names a temporary file names one of the caller's uploads; and its copies are distinct nodes of it.
\<close>

theorem graph_touches_own:
  assumes "check_graph cls reader_nodes max_nodes owns value copies = Inr (graph, names, references)"
  shows "value = JObj graph \<and> graph \<noteq> [] \<and> length graph \<le> max_nodes \<and>
    list_all (\<lambda>(node_id, node). NODE_ID node_id \<and> node_ok cls reader_nodes owns node) graph \<and>
    distinct names \<and> length names \<le> MAX_COPIES \<and> set names \<subseteq> fst ` set graph \<and> references \<le> length graph"
proof -
  obtain reads where v: "value = JObj graph" "graph \<noteq> []" "length graph \<le> max_nodes"
    and r: "those (map (node_check cls reader_nodes owns) graph) = Some reads" and c: "copies_check graph copies = Some names"
    and refs: "references = length (filter id reads)"
    using assms by (auto simp: check_graph_def split: json.splits if_splits option.splits)
  have l: "list_all2 (\<lambda>p b. node_check cls reader_nodes owns p = Some b) graph reads"
    using r by (simp add: those_Some_iff list_all2_map1)
  note check_graph_nodes [OF assms]
  moreover have "distinct names \<and> length names \<le> MAX_COPIES \<and> set names \<subseteq> fst ` set graph"
    using c by (auto simp: copies_check_def those_Some_iff list_all2_map1 MAX_COPIES_def split: json.splits if_splits option.splits
        dest: list_all2_lengthD)
  moreover have "references \<le> length graph" using list_all2_lengthD [OF l] by (metis length_filter_le refs)
  ultimately show ?thesis using v by auto
qed

definition sample_graph :: obj where
  "sample_graph =
    [(''1'', JObj [(''class_type'', JStr ''LoadImage''), (''inputs'', JObj [(''image'', JStr ''bot-references/a.png [temp]'')])]),
     (''2'', JObj [(''class_type'', JStr ''PreviewImage''), (''inputs'', JObj [(''images'', JList [JStr ''1'', JInt 0])])])]"

theorem graph_touches_own_witness:
  "\<exists>names references. check_graph Reader [''LoadImage'', ''PreviewImage''] 64 (\<lambda>n. n = ''a.png'') (JObj sample_graph) (JList [JStr ''2'']) =
      Inr (sample_graph, names, references) \<and> references \<le> 2 \<and>
    node_ok Reader [''LoadImage'', ''PreviewImage''] (\<lambda>n. n = ''a.png'') (snd (hd sample_graph))"
proof -
  have c: "check_graph Reader [''LoadImage'', ''PreviewImage''] 64 (\<lambda>n. n = ''a.png'') (JObj sample_graph) (JList [JStr ''2'']) =
      Inr (sample_graph, [''2''], 1)"
    by code_simp
  from graph_touches_own [OF this] have "1 \<le> length sample_graph"
    "node_ok Reader [''LoadImage'', ''PreviewImage''] (\<lambda>n. n = ''a.png'') (snd (hd sample_graph))"
    by (auto simp: sample_graph_def)
  with c show ?thesis by (intro exI conjI) auto
qed

subsection \<open>Stripped pictures\<close>

text \<open>A whole chunk of one of the kinds that stay, which are those that hold no text.\<close>

definition whole_chunk :: "string \<Rightarrow> bool" where
  "whole_chunk c \<longleftrightarrow> length c = chunk_size c \<and> chunk_kind c \<in> set KEPT_CHUNKS"

lemma chunk_size_take: "chunk_size rest \<le> length rest \<Longrightarrow> chunk_size (take (chunk_size rest) rest) = chunk_size rest"
  by (simp add: chunk_size_def min_def)

lemma chunk_kind_take: "chunk_size rest \<le> length rest \<Longrightarrow> chunk_kind (take (chunk_size rest) rest) = chunk_kind rest"
  by (simp add: chunk_kind_def chunk_size_def min_def drop_take)

lemma kept_chunks_cases:
  assumes "kept_chunks rest = Some cs"
  obtains "length rest < 8" "cs = []"
  | cs' where "8 \<le> length rest" "chunk_size rest \<le> length rest"
      "cs = (if chunk_kind rest \<in> set KEPT_CHUNKS then [take (chunk_size rest) rest] else []) @ cs'"
      "chunk_kind rest = ''IEND'' \<and> cs' = [] \<or> chunk_kind rest \<noteq> ''IEND'' \<and> kept_chunks (drop (chunk_size rest) rest) = Some cs'"
proof (cases "length rest < 8")
  case True
  with assms that(1) show ?thesis by (simp add: kept_chunks.simps)
next
  case False
  define this where "this = (if chunk_kind rest \<in> set KEPT_CHUNKS then [take (chunk_size rest) rest] else [])"
  have k: "chunk_size rest \<le> length rest"
    "(if chunk_kind rest = ''IEND'' then Some this else map_option ((@) this) (kept_chunks (drop (chunk_size rest) rest))) = Some cs"
    using assms False unfolding kept_chunks.simps [of rest] Let_def this_def by (auto split: if_splits)
  show ?thesis
  proof (cases "chunk_kind rest = ''IEND''")
    case True
    then show ?thesis using that(2) [of "[]"] False k by (simp add: this_def)
  next
    case dif: False
    then obtain cs' where "kept_chunks (drop (chunk_size rest) rest) = Some cs'" "cs = this @ cs'" using k(2) by auto
    then show ?thesis using that(2) [of cs'] False k(1) dif by (simp add: this_def)
  qed
qed

lemma kept_chunks_whole: "kept_chunks rest = Some cs \<Longrightarrow> list_all whole_chunk cs"
proof (induction "length rest" arbitrary: rest cs rule: less_induct)
  case less
  from less.prems show ?case
  proof (cases rule: kept_chunks_cases)
    case (2 cs')
    have "length (drop (chunk_size rest) rest) < length rest" using 2 by (simp add: chunk_size_def)
    from less.hyps [OF this] 2(4) have "list_all whole_chunk cs'" by auto
    then show ?thesis using 2 by (auto simp: whole_chunk_def chunk_size_take chunk_kind_take)
  qed simp
qed

lemma kept_chunks_append:
  assumes "whole_chunk c"
  shows "kept_chunks (c @ x) = (if chunk_kind c = ''IEND'' then Some [c] else map_option ((#) c) (kept_chunks x))"
proof -
  have l: "12 \<le> length c" using assms unfolding whole_chunk_def chunk_size_def by linarith
  then have "take 4 (c @ x) = take 4 c" "take 4 (drop 4 (c @ x)) = take 4 (drop 4 c)" by simp_all
  then have s: "chunk_size (c @ x) = length c" "chunk_kind (c @ x) = chunk_kind c"
    using assms unfolding whole_chunk_def chunk_size_def chunk_kind_def by (simp_all only:)
  have "\<not> length (c @ x) < 8" "\<not> length (c @ x) < length c" "chunk_kind c \<in> set KEPT_CHUNKS"
    using l assms by (simp_all add: whole_chunk_def)
  moreover have "(@) [c] = (#) c" by (simp add: fun_eq_iff)
  ultimately show ?thesis unfolding kept_chunks.simps [of "c @ x"] s Let_def by auto
qed

lemma kept_chunks_again: "kept_chunks rest = Some cs \<Longrightarrow> kept_chunks (concat cs) = Some cs"
proof (induction "length rest" arbitrary: rest cs rule: less_induct)
  case less
  from less.prems show ?case
  proof (cases rule: kept_chunks_cases)
    case 1
    then show ?thesis by (simp add: kept_chunks.simps)
  next
    case (2 cs')
    have "length (drop (chunk_size rest) rest) < length rest" using 2 by (simp add: chunk_size_def)
    from less.hyps [OF this] 2(4) have r: "chunk_kind rest \<noteq> ''IEND'' \<Longrightarrow> kept_chunks (concat cs') = Some cs'" by auto
    show ?thesis
    proof (cases "chunk_kind rest \<in> set KEPT_CHUNKS")
      case True
      then have "whole_chunk (take (chunk_size rest) rest)"
        using kept_chunks_whole [OF less.prems] 2(3) by simp
      with True r 2 show ?thesis by (auto simp: kept_chunks_append chunk_kind_take)
    next
      case False
      then have "chunk_kind rest \<noteq> ''IEND''" by (auto simp: KEPT_CHUNKS_def)
      with False r 2 show ?thesis by simp
    qed
  qed
qed

lemma stripped_png_again:
  assumes "strip_png data = Inr png"
  shows "strip_png png = Inr png"
proof -
  obtain cs where c: "kept_chunks (drop 8 data) = Some cs" "2 \<le> length cs" "png = PNG_SIGNATURE @ concat cs"
    using assms by (auto simp: strip_png_def split: if_splits option.splits)
  have l: "length PNG_SIGNATURE = 8" by (simp add: PNG_SIGNATURE_def)
  show ?thesis using c kept_chunks_again [OF c(1)] by (simp add: strip_png_def l)
qed

text \<open>
  C30: A picture that leaves the card holds none of its text chunks, where the whole prompt and graph are:
  it is the signature and whole chunks of the five kinds that stay, and it is a picture that is stripped
  already.
\<close>

theorem stripped_png_clean:
  assumes "strip_png data = Inr png"
  shows "(\<exists>cs. png = PNG_SIGNATURE @ concat cs \<and> list_all whole_chunk cs \<and> 2 \<le> length cs \<and>
      kept_chunks (drop 8 data) = Some cs) \<and> strip_png png = Inr png \<and> image_type png = Some ''image/png''"
proof -
  obtain cs where c: "kept_chunks (drop 8 data) = Some cs" "2 \<le> length cs" "png = PNG_SIGNATURE @ concat cs"
    using assms by (auto simp: strip_png_def split: if_splits option.splits)
  have l: "length PNG_SIGNATURE = 8" by (simp add: PNG_SIGNATURE_def)
  show ?thesis
    using c kept_chunks_whole [OF c(1)] kept_chunks_again [OF c(1)] by (simp add: strip_png_def image_type_def l)
qed

definition sample_chunk :: "string \<Rightarrow> string" where
  "sample_chunk kind = [CHR 0x00, CHR 0x00, CHR 0x00, CHR 0x00] @ kind @ [CHR 0x00, CHR 0x00, CHR 0x00, CHR 0x00]"

definition sample_png :: string where
  "sample_png = PNG_SIGNATURE @ sample_chunk ''IHDR'' @ sample_chunk ''tEXt'' @ sample_chunk ''IEND'' @ ''rest''"

theorem stripped_png_clean_witness:
  "strip_png sample_png = Inr (PNG_SIGNATURE @ sample_chunk ''IHDR'' @ sample_chunk ''IEND'') \<and>
   strip_png (PNG_SIGNATURE @ sample_chunk ''IHDR'' @ sample_chunk ''IEND'') =
     Inr (PNG_SIGNATURE @ sample_chunk ''IHDR'' @ sample_chunk ''IEND'')"
proof -
  have s: "strip_png sample_png = Inr (PNG_SIGNATURE @ sample_chunk ''IHDR'' @ sample_chunk ''IEND'')"
    by code_simp
  with stripped_png_clean [OF s] show ?thesis by simp
qed

end
