(* ===== verification/Picture_Jobs.thy ===== *)
theory Picture_Jobs
  imports Picture_Engine Picture_Graphs Text_Service
begin

text \<open>
  A picture, from its acceptance to its last event, \<^verbatim>\<open>simple_serving/pictures/jobs.py\<close>. The coroutine
  of a job is cut at its awaits: the submit, one round of \<^verbatim>\<open>_follow\<close>, \<^verbatim>\<open>_deliver\<close>, \<^verbatim>\<open>cleanup\<close> and the
  terminal message. What ComfyUI answers and the moments of the loop's clock are arguments; the clock
  is read once for the news and once for the rest of a round. \<open>j_events\<close> is what was
  sent to the client so far. Base64 and Python's \<^verbatim>\<open>str\<close> of a JSON value are arguments.
\<close>

subsection \<open>State\<close>

definition SOCKET_WAIT_S :: rat where "SOCKET_WAIT_S = 2"
definition PLACE_S :: rat where "PLACE_S = 2"
definition POLL_S :: rat where "POLL_S = 1 / 2"
definition VOUCHED_POLL_S :: rat where "VOUCHED_POLL_S = 5"
definition START_GRACE_S :: rat where "START_GRACE_S = 2"
definition RECORD_TRIES :: nat where "RECORD_TRIES = 3"

datatype job_phase = Preparing | Submitting | Pending | Drawing | Phase_over

definition WAITING :: "job_phase set" where "WAITING = {Preparing, Submitting, Pending}"

definition UNHEARD :: "stop_reason set" where "UNHEARD = {By_disconnect, By_client_stop, By_shutdown}"

record heard =
  h_started :: bool
  h_start_stamp :: "json option"
  h_succeeded :: bool
  h_end_stamp :: "json option"
  h_over :: bool
  h_oom :: bool
  h_outputs :: obj

definition heard_init :: heard where
  "heard_init = \<lparr>h_started = False, h_start_stamp = None, h_succeeded = False, h_end_stamp = None, h_over = False,
     h_oom = False, h_outputs = []\<rparr>"

definition heard_record :: "heard \<Rightarrow> obj option" where
  "heard_record h =
    (if h_started h \<and> h_succeeded h \<and> h_over h
     then Some [(''status'', JObj [(''completed'', JBool True), (''status_str'', JStr ''success'')]),
       (''outputs'', JObj (h_outputs h))]
     else None)"

text \<open>A read of the queue by the service; its number tells it from another of the same content.\<close>

record queue_view =
  qv_id :: nat
  qv_began :: rat
  qv_done :: rat
  qv_queue :: card_queue

record job =
  j_id :: string
  j_caller :: caller
  j_copies :: "string list"
  j_phase :: job_phase
  j_sent :: bool
  j_lost :: bool
  j_forgotten :: bool
  j_epoch :: "nat option"
  j_heard :: heard
  j_inbox :: "obj list"
  j_cursor :: "string option"
  j_memory :: card_memory
  j_drawn :: bool
  j_submitted_at :: "rat option"
  j_started_at :: "rat option"
  j_over_at :: "rat option"
  j_told_started :: bool
  j_view :: "nat option"
  j_before :: "nat option"
  j_drawing :: "(string \<times> rat) option"
  j_left_at :: "rat option"
  j_look :: bool
  j_missing :: nat
  j_failures :: nat
  j_stop_confirmed :: "bool option"
  j_stop_reason :: "stop_reason option"
  j_events :: "obj list"

definition new_job :: "string \<Rightarrow> caller \<Rightarrow> string list \<Rightarrow> job" where
  "new_job prompt_id ca copies =
    \<lparr>j_id = prompt_id, j_caller = ca, j_copies = copies, j_phase = Preparing, j_sent = False, j_lost = False,
     j_forgotten = False, j_epoch = None, j_heard = heard_init, j_inbox = [], j_cursor = None, j_memory = memory_init,
     j_drawn = False, j_submitted_at = None, j_started_at = None, j_over_at = None, j_told_started = False,
     j_view = None, j_before = None, j_drawing = None, j_left_at = None, j_look = False, j_missing = 0, j_failures = 0,
     j_stop_confirmed = None, j_stop_reason = None, j_events = []\<rparr>"

definition job_active :: "job \<Rightarrow> bool" where
  "job_active j \<longleftrightarrow> j_phase j \<in> {Drawing, Phase_over}"

definition owned_by :: "caller \<Rightarrow> job \<Rightarrow> bool" where
  "owned_by ca j \<longleftrightarrow> k_label (ca_key ca) = k_label (ca_key (j_caller j)) \<and> ca_scope ca = ca_scope (j_caller j)"

definition hear_job :: "obj \<Rightarrow> nat \<Rightarrow> job \<Rightarrow> job" where
  "hear_job message epoch j = (if Some epoch = j_epoch j then j\<lparr>j_inbox := j_inbox j @ [message]\<rparr> else j)"

text \<open>\<^verbatim>\<open>Picture.stop\<close>, then \<^verbatim>\<open>Work.stop\<close>, which the first stop of a running work passes.\<close>

definition stop_picture :: "bool \<Rightarrow> stop_reason \<Rightarrow> job \<Rightarrow> job" where
  "stop_picture tasked reason j =
    (if reason = By_draining \<and> j_phase j = Phase_over then j
     else if \<not> tasked \<or> j_stop_reason j \<noteq> None then j
     else j\<lparr>j_stop_reason := Some reason\<rparr>)"

definition tell :: "obj \<Rightarrow> job \<Rightarrow> job" where
  "tell ev j = j\<lparr>j_events := j_events j @ [ev]\<rparr>"

definition event :: "string \<Rightarrow> obj \<Rightarrow> obj" where
  "event name fs = (''event'', JStr name) # fs"

subsection \<open>The submit\<close>

text \<open>The socket as it is after the wait for it and, for an experiment, the read of the log.\<close>

definition prepare_job :: "bool \<Rightarrow> bool \<Rightarrow> (string \<Rightarrow> string) \<Rightarrow> comfy_error + string list \<Rightarrow> socket \<Rightarrow> string \<Rightarrow> job \<Rightarrow> (string \<times> job) result"
where
  "prepare_job require_socket opened sha256 ls so fresh j =
    andthen (require (opened \<or> \<not> require_socket) Socket_unavailable) (\<lambda>_.
    let cursor = (if ca_cls (j_caller j) = Internal then (case ls of Inl _ \<Rightarrow> None | Inr l \<Rightarrow> Some (log_cursor sha256 l)) else None)
    in Inr (if so_open so then so_client_id so else fresh,
        j\<lparr>j_cursor := cursor, j_epoch := (if so_open so then Some (so_epoch so) else None), j_phase := Submitting,
          j_sent := True\<rparr>))"

definition submit_answered :: "rat \<Rightarrow> comfy_error + unit \<Rightarrow> job \<Rightarrow> job \<times> unit result" where
  "submit_answered now r j =
    (case r of
       Inl e \<Rightarrow> (j\<lparr>j_sent := e \<notin> {Rejected, Unreachable}\<rparr>, Inl (if e = Rejected then Graph_rejected else Engine_unavailable))
     | Inr _ \<Rightarrow>
         (tell (event ''accepted'' [(''job'', JStr (j_id j)), (''socket'', JBool (j_epoch j \<noteq> None))])
            (j\<lparr>j_submitted_at := Some now, j_phase := Pending\<rparr>), Inr ()))"

subsection \<open>The socket's news\<close>

definition out_of_memory :: "(json \<Rightarrow> string) \<Rightarrow> obj \<Rightarrow> bool" where
  "out_of_memory str data =
    (let t = lower (str (jget ''exception_type'' data) @ '' '' @ str (jget ''exception_message'' data))
     in contains ''outofmemory'' t \<or> contains ''out of memory'' t)"

definition recorded_oom :: "(json \<Rightarrow> string) \<Rightarrow> obj \<Rightarrow> bool" where
  "recorded_oom str st =
    (case jget ''messages'' st of
       JList l \<Rightarrow> list_ex (\<lambda>v. case v of
           JList (kind # JObj data # _) \<Rightarrow> kind = JStr ''execution_error'' \<and> out_of_memory str data | _ \<Rightarrow> False) l
     | _ \<Rightarrow> False)"

definition start_job :: "rat \<Rightarrow> json option \<Rightarrow> job \<Rightarrow> job" where
  "start_job now stamp j =
    (if j_told_started j then j
     else
       let j1 = j\<lparr>j_told_started := True\<rparr>;
           j2 = (if j_phase j \<in> WAITING then j1\<lparr>j_started_at := Some now, j_phase := Drawing\<rparr> else j1)
       in tell (event ''started'' (case stamp of None \<Rightarrow> [] | Some v \<Rightarrow> [(''stamp'', v)])) j2)"

definition set_heard :: "(heard \<Rightarrow> heard) \<Rightarrow> job \<Rightarrow> job" where
  "set_heard f j = j\<lparr>j_heard := f (j_heard j)\<rparr>"

definition progress_told :: "obj \<Rightarrow> obj option" where
  "progress_told data =
    (case (jget ''value'' data, jget ''max'' data) of
       (JInt value, JInt most) \<Rightarrow>
         if value \<ge> 0 \<and> most > 0 \<and> value \<le> most then Some (event ''progress'' [(''value'', JInt value), (''max'', JInt most)])
         else None
     | _ \<Rightarrow> None)"

text \<open>A message that has an object of data, and the stamp it carries.\<close>

definition take_kind :: "(json \<Rightarrow> string) \<Rightarrow> rat \<Rightarrow> string \<Rightarrow> obj \<Rightarrow> json option \<Rightarrow> job \<Rightarrow> job" where
  "take_kind str now kind data stamp j =
    (if kind = ''execution_start'' then
       start_job now stamp (set_heard (\<lambda>h. h\<lparr>h_started := True, h_start_stamp := stamp\<rparr>) j)
     else if kind = ''execution_cached'' then
       (case jget ''nodes'' data of
          JList nodes \<Rightarrow> tell (event ''cached'' [(''nodes'', JList (map (\<lambda>n. JStr (str n)) nodes))]) j
        | _ \<Rightarrow> j)
     else if kind = ''executing'' then
       (case jget ''node'' data of
          JStr node \<Rightarrow> tell (event ''node'' [(''node'', JStr node)]) j
        | JNull \<Rightarrow> (set_heard (\<lambda>h. h\<lparr>h_over := True\<rparr>) j)\<lparr>j_look := True\<rparr>
        | _ \<Rightarrow> j)
     else if kind = ''executed'' then
       (case (jget ''node'' data, jget ''output'' data) of
          (JStr node, JObj output) \<Rightarrow> set_heard (\<lambda>h. h\<lparr>h_outputs := jput node (JObj output) (h_outputs h)\<rparr>) j
        | _ \<Rightarrow> j)
     else if kind = ''execution_success'' then set_heard (\<lambda>h. h\<lparr>h_succeeded := True, h_end_stamp := stamp\<rparr>) j
     else if kind = ''execution_error'' \<or> kind = ''execution_interrupted'' then
       (set_heard (\<lambda>h. h\<lparr>h_oom := h_oom h \<or> out_of_memory str data\<rparr>) j)\<lparr>j_look := True\<rparr>
     else if kind = ''progress'' then (case progress_told data of None \<Rightarrow> j | Some ev \<Rightarrow> tell ev j)
     else j)"

text \<open>The messages in the order they came; the second value is false where one raised.\<close>

fun take_news :: "(json \<Rightarrow> string) \<Rightarrow> rat \<Rightarrow> obj list \<Rightarrow> job \<Rightarrow> job \<times> bool" where
  "take_news str now [] j = (j, True)"
| "take_news str now (message # rest) j =
    (case jget ''data'' message of
       JObj data \<Rightarrow>
         (case finite_number (jget ''timestamp'' data) of
            Inl _ \<Rightarrow> (j\<lparr>j_inbox := rest\<rparr>, False)
          | Inr stamp \<Rightarrow>
              take_news str now rest (case jget ''type'' message of
                JStr kind \<Rightarrow> take_kind str now kind data (map_option fst stamp) j | _ \<Rightarrow> j))
     | _ \<Rightarrow> take_news str now rest j)"

definition take_inbox :: "(json \<Rightarrow> string) \<Rightarrow> rat \<Rightarrow> job \<Rightarrow> job \<times> bool" where
  "take_inbox str now j = take_news str now (j_inbox j) (j\<lparr>j_inbox := []\<rparr>)"

subsection \<open>The queue's news\<close>

definition take_view :: "queue_view option \<Rightarrow> job \<Rightarrow> job" where
  "take_view view j =
    (case (view, j_submitted_at j) of
       (Some v, Some submitted_at) \<Rightarrow>
         if j_view j = Some (qv_id v) \<or> qv_began v < submitted_at then j
         else
           let j1 = j\<lparr>j_view := Some (qv_id v)\<rparr>; q = qv_queue v
           in (case find (\<lambda>(_, one). one = j_id j) (q_pending q) of
                None \<Rightarrow>
                  let j2 = (if j_left_at j1 = None then j1\<lparr>j_left_at := Some (qv_done v)\<rparr> else j1)
                  in if j_id j \<notin> set (q_running q) then j2\<lparr>j_look := True\<rparr> else j2
              | Some (own, _) \<Rightarrow>
                  j1\<lparr>j_drawing := (case q_running q of [] \<Rightarrow> None
                      | first # _ \<Rightarrow>
                          (case j_drawing j1 of
                             Some (known, since) \<Rightarrow> if known = first then Some (known, since) else Some (first, qv_done v)
                           | None \<Rightarrow> Some (first, qv_done v))),
                    j_before := Some (length (filter (\<lambda>(number, one). number < own \<or> number = own \<and> one < j_id j)
                      (q_pending q)))\<rparr>)
     | _ \<Rightarrow> j)"

definition vouched :: "socket \<Rightarrow> job \<Rightarrow> bool" where
  "vouched so j \<longleftrightarrow> j_epoch j \<noteq> None \<and> so_open so \<and> j_epoch j = Some (so_epoch so)"

definition place_event :: "rat \<Rightarrow> job \<Rightarrow> job" where
  "place_event now j =
    (case j_before j of None \<Rightarrow> j
     | Some ahead \<Rightarrow>
         tell (event ''place'' [(''before'', JInt (int ahead)), (''drawing'', JBool (j_drawing j \<noteq> None)),
           (''drawing_ms'', JInt (case j_drawing j of None \<Rightarrow> 0
              | Some (_, since) \<Rightarrow> round_half_even (float_near (float_near (now - since) * 1000))))]) j)"

subsection \<open>A read of the record\<close>

text \<open>\<^verbatim>\<open>_poll\<close>: the record once it is over, nothing yet, or the end of the task.\<close>

definition poll_failed :: "comfy_error \<Rightarrow> job \<Rightarrow> job \<times> (outcome + obj option)" where
  "poll_failed e j =
    (if e = Not_comfy then (j, Inl Ended_exception)
     else let j1 = j\<lparr>j_failures := Suc (j_failures j)\<rparr>
       in (j1, if j_failures j1 > RECORD_TRIES then Inl (Ended_error Engine_unavailable) else Inr None))"

definition record_over :: "obj \<Rightarrow> bool" where
  "record_over rec \<longleftrightarrow>
    (case jget ''status'' rec of
       JObj st \<Rightarrow> jget ''completed'' st = JBool True \<or> jget ''status_str'' st = JStr ''error''
     | _ \<Rightarrow> False)"

definition poll_job ::
  "rat \<Rightarrow> comfy_error + card_queue \<Rightarrow> comfy_error + obj option \<Rightarrow> job \<Rightarrow> job \<times> (outcome + obj option)"
where
  "poll_job now queue history j =
    (case queue of
       Inl e \<Rightarrow> poll_failed e j
     | Inr q \<Rightarrow>
         if holds q (j_id j) then
           (j\<lparr>j_failures := 0, j_missing := 0,
              j_left_at := (if j_id j \<in> set (q_running q) \<and> j_left_at j = None then Some now else j_left_at j)\<rparr>, Inr None)
         else
           (case history of
              Inl e \<Rightarrow> poll_failed e j
            | Inr None \<Rightarrow>
                let j1 = j\<lparr>j_failures := 0, j_missing := Suc (j_missing j)\<rparr>
                in if j_missing j1 > 1 then (j1\<lparr>j_lost := True\<rparr>, Inl (Ended_error Engine_unavailable)) else (j1, Inr None)
            | Inr (Some rec) \<Rightarrow>
                (j\<lparr>j_failures := 0, j_missing := 0\<rparr>, Inr (if record_over rec then Some rec else None))))"

subsection \<open>One round of following a job\<close>

record follow_locals =
  fl_place_at :: rat
  fl_poll_at :: "rat option"

definition follow_start :: "rat \<Rightarrow> follow_locals" where
  "follow_start submitted_at = \<lparr>fl_place_at = submitted_at + PLACE_S, fl_poll_at = None\<rparr>"

record follow_input =
  fi_news_at :: rat
  fi_now :: rat
  fi_socket :: socket
  fi_later_socket :: socket
  fi_view :: "queue_view option"
  fi_queue :: "comfy_error + card_queue"
  fi_history :: "comfy_error + obj option"
  fi_polled_at :: rat

text \<open>The round goes on at once, waits for news until a moment, has the record, or ends the task.\<close>

datatype follow_out =
    Goes_on
  | Waits "rat option"
  | Has_record obj
  | Task_ends outcome

definition pending_round :: "follow_input \<Rightarrow> follow_locals \<Rightarrow> job \<Rightarrow> follow_locals \<times> job" where
  "pending_round i fl j =
    (if j_phase j \<noteq> Pending then (fl, j)
     else if (case j_left_at j of None \<Rightarrow> False
         | Some left \<Rightarrow> \<not> vouched (fi_socket i) j \<or> fi_now i \<ge> left + START_GRACE_S)
       then (fl, start_job (fi_now i) None j)
     else if fi_now i \<ge> fl_place_at fl
       then (fl\<lparr>fl_place_at := fl_place_at fl + PLACE_S * of_int \<lfloor>(fi_now i - fl_place_at fl) / PLACE_S + 1\<rfloor>\<rparr>,
             place_event (fi_now i) j)
     else (fl, j))"

definition plan_poll :: "follow_input \<Rightarrow> follow_locals \<Rightarrow> job \<Rightarrow> follow_locals" where
  "plan_poll i fl j =
    (if fl_poll_at fl = None \<and> (j_phase j = Drawing \<or> j_missing j \<noteq> 0)
     then fl\<lparr>fl_poll_at := Some (fi_now i + (if j_missing j \<noteq> 0 \<or> \<not> vouched (fi_later_socket i) j then POLL_S else VOUCHED_POLL_S))\<rparr>
     else fl)"

definition follow_moments :: "follow_locals \<Rightarrow> job \<Rightarrow> rat list" where
  "follow_moments fl j =
    (case fl_poll_at fl of None \<Rightarrow> [] | Some t \<Rightarrow> [t]) @
    (if j_phase j = Pending
     then fl_place_at fl # (case j_left_at j of None \<Rightarrow> [] | Some left \<Rightarrow> [left + START_GRACE_S]) else [])"

definition follow_round ::
  "(json \<Rightarrow> string) \<Rightarrow> follow_input \<Rightarrow> follow_locals \<Rightarrow> job \<Rightarrow> follow_locals \<times> job \<times> follow_out"
where
  "follow_round str i fl0 j0 =
    (case take_inbox str (fi_news_at i) j0 of
       (j1, False) \<Rightarrow> (fl0, j1, Task_ends Ended_exception)
     | (j1, True) \<Rightarrow>
         (case heard_record (j_heard j1) of
            Some rec \<Rightarrow> (fl0, j1, Has_record rec)
          | None \<Rightarrow>
              (case pending_round i fl0 (take_view (fi_view i) j1) of (fl1, j2) \<Rightarrow>
               let fl2 = plan_poll i fl1 j2
               in if j_look j2 \<or> (case fl_poll_at fl2 of None \<Rightarrow> False | Some t \<Rightarrow> fi_now i \<ge> t)
                  then (case poll_job (fi_polled_at i) (fi_queue i) (fi_history i) (j2\<lparr>j_look := False\<rparr>) of
                      (j3, r) \<Rightarrow> (fl2\<lparr>fl_poll_at := None\<rparr>, j3,
                        case r of Inl out \<Rightarrow> Task_ends out | Inr None \<Rightarrow> Goes_on | Inr (Some rec) \<Rightarrow> Has_record rec))
                  else (fl2, j2, Waits (case follow_moments fl2 j2 of [] \<Rightarrow> None | t # ts \<Rightarrow> Some (foldl min t ts))))))"

subsection \<open>The pictures\<close>

text \<open>How the task of a picture ends: with its pictures, with the error \<^verbatim>\<open>PictureFailed\<close>, or as any other.\<close>

datatype picture_outcome =
    Picture_drawn
  | Picture_failed_oom bool
  | Picture_ends outcome

record deliver_input =
  di_now :: rat
  di_stats :: "comfy_error + obj"
  di_log :: "comfy_error + string list"
  di_view :: "obj \<Rightarrow> comfy_error + string"

definition partial_loads :: "(string \<Rightarrow> string) \<Rightarrow> comfy_error + string list \<Rightarrow> job \<Rightarrow> nat option" where
  "partial_loads sha256 ls j =
    (if ca_cls (j_caller j) \<noteq> Internal then None
     else case (j_cursor j, ls) of
       (Some cursor, Inr l) \<Rightarrow> Some (partial_loads_after sha256 cursor l)
     | _ \<Rightarrow> None)"

definition last_sample :: "comfy_error + obj \<Rightarrow> job \<Rightarrow> job \<times> bool" where
  "last_sample stats j =
    (case stats of
       Inl e \<Rightarrow> (j, e \<noteq> Not_comfy)
     | Inr ob \<Rightarrow> (case merge_stats ob False (j_memory j) of (m, ok) \<Rightarrow> (j\<lparr>j_memory := m\<rparr>, ok)))"

definition sample_drawing :: "comfy_error + obj \<Rightarrow> job \<Rightarrow> job" where
  "sample_drawing stats j =
    (case stats of Inl _ \<Rightarrow> j | Inr ob \<Rightarrow> j\<lparr>j_memory := fst (merge_stats ob True (j_memory j))\<rparr>)"

definition over_event :: "(string \<Rightarrow> string) \<Rightarrow> comfy_error + string list \<Rightarrow> job \<Rightarrow> obj" where
  "over_event sha256 ls j =
    (let h = j_heard j
     in event ''over'' ([(''heard'', JBool (h_started h \<and> h_over h)), (''memory'', memory_event (j_memory j))] @
       (case (h_start_stamp h, h_end_stamp h) of
          (Some a, Some b) \<Rightarrow> [(''stamps'', JObj [(''start'', a), (''end'', b)])]
        | _ \<Rightarrow> []) @
       (if ca_cls (j_caller j) = Internal
        then [(''partial_loads'', case partial_loads sha256 ls j of None \<Rightarrow> JNull | Some n \<Rightarrow> JInt (int n))] else [])))"

text \<open>\<^verbatim>\<open>_forget\<close>: the delete of the record is sent, once.\<close>

definition forget_record :: "job \<Rightarrow> job" where
  "forget_record j = j\<lparr>j_forgotten := True\<rparr>"

fun deliver_pictures ::
  "(string \<Rightarrow> string) \<Rightarrow> (obj \<Rightarrow> comfy_error + string) \<Rightarrow> (string \<times> obj) list \<Rightarrow> job \<Rightarrow> job \<times> picture_outcome"
where
  "deliver_pictures b64 view [] j = (j, Picture_drawn)"
| "deliver_pictures b64 view ((node, img) # rest) j =
    (case view img of
       Inl e \<Rightarrow> (j, Picture_ends (if e = Not_comfy then Ended_exception else Ended_error Engine_unavailable))
     | Inr data \<Rightarrow>
         (case strip_png data of
            Inl _ \<Rightarrow> (j, Picture_failed_oom False)
          | Inr png \<Rightarrow>
              let j1 = (if rest = [] then forget_record j else j)
              in deliver_pictures b64 view rest
                   (tell (event ''image'' [(''node'', JStr node), (''png'', JStr (b64 png))]) j1)))"

definition deliver ::
  "(json \<Rightarrow> string) \<Rightarrow> (string \<Rightarrow> string) \<Rightarrow> (string \<Rightarrow> string) \<Rightarrow> deliver_input \<Rightarrow> obj \<Rightarrow> job \<Rightarrow> job \<times> picture_outcome"
where
  "deliver str sha256 b64 i rec j =
    (let j1 = start_job (di_now i) None (j\<lparr>j_phase := Phase_over, j_over_at := Some (di_now i), j_drawn := True\<rparr>);
         st = (case jget ''status'' rec of JObj ob \<Rightarrow> ob | _ \<Rightarrow> [])
     in case pictures_of rec (j_copies j) of (frame, copies) \<Rightarrow>
          if frame = None \<or> jget ''status_str'' st = JStr ''error''
          then (j1, Picture_failed_oom (h_oom (j_heard j1) \<or> recorded_oom str st))
          else (case last_sample (di_stats i) j1 of
              (j2, False) \<Rightarrow> (j2, Picture_ends Ended_exception)
            | (j2, True) \<Rightarrow>
                deliver_pictures b64 (di_view i) (the frame # copies) (tell (over_event sha256 (di_log i) j2) j2)))"

subsection \<open>Its end\<close>

datatype submit_end =
    Not_submitted
  | Submit_ended "comfy_error + unit"
  | Submit_cancelled

text \<open>What \<^verbatim>\<open>cleanup\<close> leaves: the job, whether its stop is given to the service as unresolved, and what a client
  that stopped it is told. \<open>stop\<close> is what \<open>stop_job\<close> says, which is asked only where it is used.\<close>

definition cleanup_job :: "submit_end \<Rightarrow> comfy_error + bool \<Rightarrow> job \<Rightarrow> job \<times> bool \<times> bool" where
  "cleanup_job sub stop j0 =
    (let j = j0\<lparr>j_drawn := True,
           j_sent := (case sub of Submit_ended (Inl e) \<Rightarrow> j_sent j0 \<and> e \<notin> {Rejected, Unreachable} | _ \<Rightarrow> j_sent j0)\<rparr>;
         (j1, unresolved) =
           (if j_sent j \<and> j_phase j \<noteq> Phase_over \<and> \<not> j_lost j
            then (case stop of
                Inl _ \<Rightarrow> (j, False)
              | Inr True \<Rightarrow> (forget_record (j\<lparr>j_stop_confirmed := Some True\<rparr>), False)
              | Inr False \<Rightarrow> (j\<lparr>j_stop_confirmed := Some False\<rparr>, True))
            else if j_phase j = Phase_over then (forget_record j, False) else (j, False))
     in (j1, unresolved, j_stop_confirmed j1 \<noteq> Some False))"

text \<open>The terminal message, and whether the stream is then ended without one.\<close>

datatype last_message =
    Last_done
  | Last_error error_code
  | Last_oom
  | Last_nothing

definition picture_terminal :: "outcome \<Rightarrow> job \<Rightarrow> last_message" where
  "picture_terminal out j =
    (case out of
       Ended_cancelled \<Rightarrow>
         (case Option.bind (j_stop_reason j) STOP_CODES of None \<Rightarrow> Last_nothing | Some c \<Rightarrow> Last_error c)
     | Ended_ok \<Rightarrow> Last_done
     | Ended_error c \<Rightarrow> Last_error c
     | Ended_exception \<Rightarrow> Last_error Internal_error)"

definition picture_answer :: "bool \<Rightarrow> picture_outcome \<Rightarrow> job \<Rightarrow> last_message \<times> bool" where
  "picture_answer ending out j =
    (if j_stop_confirmed j = Some False \<and> (case j_stop_reason j of None \<Rightarrow> True | Some r \<Rightarrow> r \<notin> UNHEARD)
     then (Last_error Stop_unconfirmed, False)
     else if out = Picture_failed_oom True \<and> \<not> ending then (Last_oom, False)
     else (picture_terminal (case out of Picture_drawn \<Rightarrow> Ended_ok | Picture_failed_oom _ \<Rightarrow> Ended_error Picture_failed
             | Picture_ends e \<Rightarrow> e) j, j_stop_reason j = Some By_client_stop))"

definition milliseconds :: "rat \<Rightarrow> rat \<Rightarrow> int" where
  "milliseconds a b =
    (let ms = float_near (float_near (b - a) * 1000) in if ms < 0 then - \<lfloor>- ms\<rfloor> else \<lfloor>ms\<rfloor>)"

definition record_times :: "job \<Rightarrow> int option \<times> int option" where
  "record_times j =
    ((case (j_submitted_at j, j_started_at j) of (Some a, Some b) \<Rightarrow> Some (milliseconds a b) | _ \<Rightarrow> None),
     (case (j_started_at j, j_over_at j) of (Some a, Some b) \<Rightarrow> Some (milliseconds a b) | _ \<Rightarrow> None))"

subsection \<open>Every order of operations\<close>

datatype run_state = Runs | Delivers obj | Ended | Cleaned

definition after_round :: "follow_out \<Rightarrow> run_state" where
  "after_round out = (case out of Has_record rec \<Rightarrow> Delivers rec | Task_ends _ \<Rightarrow> Ended | _ \<Rightarrow> Runs)"

text \<open>A job with what its task does. A task that is cancelled ends between two events.\<close>

inductive job_reached ::
  "(json \<Rightarrow> string) \<Rightarrow> (string \<Rightarrow> string) \<Rightarrow> (string \<Rightarrow> string) \<Rightarrow> job \<Rightarrow> run_state \<Rightarrow> bool"
  for str sha256 b64
where
  accepted: "job_reached str sha256 b64 (new_job prompt_id ca copies) Runs"
| prepared: "job_reached str sha256 b64 j Runs \<Longrightarrow> j_phase j = Preparing \<Longrightarrow>
    prepare_job require_socket opened sha256 ls so fresh j = Inr (cid, j') \<Longrightarrow> job_reached str sha256 b64 j' Runs"
| submitted: "job_reached str sha256 b64 j Runs \<Longrightarrow> j_phase j = Submitting \<Longrightarrow>
    submit_answered now r j = (j', res) \<Longrightarrow>
    job_reached str sha256 b64 j' (case res of Inl _ \<Rightarrow> Ended | Inr _ \<Rightarrow> Runs)"
| heard: "job_reached str sha256 b64 j r \<Longrightarrow> job_reached str sha256 b64 (hear_job message epoch j) r"
| sampled: "job_reached str sha256 b64 j r \<Longrightarrow> job_reached str sha256 b64 (sample_drawing stats j) r"
| stopped: "job_reached str sha256 b64 j r \<Longrightarrow> job_reached str sha256 b64 (stop_picture True reason j) r"
| followed: "job_reached str sha256 b64 j Runs \<Longrightarrow> j_phase j \<in> {Pending, Drawing} \<Longrightarrow>
    follow_round str i fl j = (fl', j', out) \<Longrightarrow> job_reached str sha256 b64 j' (after_round out)"
| delivered: "job_reached str sha256 b64 j (Delivers rec) \<Longrightarrow>
    deliver str sha256 b64 i rec j = (j', out) \<Longrightarrow> job_reached str sha256 b64 j' Ended"
| ended: "job_reached str sha256 b64 j r \<Longrightarrow> r \<noteq> Cleaned \<Longrightarrow> job_reached str sha256 b64 j Ended"
| cleaned: "job_reached str sha256 b64 j Ended \<Longrightarrow>
    cleanup_job sub stop j = (j', unresolved, told) \<Longrightarrow> job_reached str sha256 b64 j' Cleaned"

subsection \<open>The stream that a client reads\<close>

text \<open>The stages of the stream, and the events that each may have.\<close>

datatype stage = Nothing_told | Accepted_told | Started_told | Over_told

definition progress_ok :: "obj \<Rightarrow> bool" where
  "progress_ok ev \<longleftrightarrow>
    (\<exists>value most. jget ''value'' ev = JInt value \<and> jget ''max'' ev = JInt most \<and> 0 \<le> value \<and> value \<le> most \<and> 0 < most)"

definition image_ok :: "(string \<Rightarrow> string) \<Rightarrow> obj \<Rightarrow> bool" where
  "image_ok b64 ev \<longleftrightarrow> (\<exists>png. jget ''png'' ev = JStr (b64 png) \<and> strip_png png = Inr png)"

definition stage_after :: "(string \<Rightarrow> string) \<Rightarrow> stage \<Rightarrow> obj \<Rightarrow> stage option" where
  "stage_after b64 st ev =
    (let name = (case jget ''event'' ev of JStr s \<Rightarrow> s | _ \<Rightarrow> []);
         drawing_news = (name \<in> {''cached'', ''node''} \<or> name = ''progress'' \<and> progress_ok ev)
     in case st of
          Nothing_told \<Rightarrow> if name = ''accepted'' then Some Accepted_told else None
        | Accepted_told \<Rightarrow>
            if name = ''started'' then Some Started_told else if name = ''place'' \<or> drawing_news then Some st else None
        | Started_told \<Rightarrow> if name = ''over'' then Some Over_told else if drawing_news then Some st else None
        | Over_told \<Rightarrow> if name = ''image'' \<and> image_ok b64 ev then Some st else None)"

definition told_stage :: "(string \<Rightarrow> string) \<Rightarrow> obj list \<Rightarrow> stage option" where
  "told_stage b64 evs = foldl (\<lambda>st ev. Option.bind st (\<lambda>s. stage_after b64 s ev)) (Some Nothing_told) evs"

lemma told_stage_snoc: "told_stage b64 (evs @ [ev]) = Option.bind (told_stage b64 evs) (\<lambda>s. stage_after b64 s ev)"
  by (simp add: told_stage_def)

fun phase_stages :: "job_phase \<Rightarrow> stage set" where
  "phase_stages Preparing = {Nothing_told}"
| "phase_stages Submitting = {Nothing_told}"
| "phase_stages Pending = {Accepted_told}"
| "phase_stages Drawing = {Started_told}"
| "phase_stages Phase_over = {Started_told, Over_told}"

definition stream_ok :: "(string \<Rightarrow> string) \<Rightarrow> job \<Rightarrow> bool" where
  "stream_ok b64 j \<longleftrightarrow>
    (\<exists>st \<in> phase_stages (j_phase j). told_stage b64 (j_events j) = Some st \<and>
       (j_told_started j \<longleftrightarrow> st \<in> {Started_told, Over_told}))"

lemma event_simps [simp]: "jget ''event'' (event name fs) = JStr name" "name \<noteq> ''event'' \<Longrightarrow> jget name (event n fs) = jget name fs"
  by (simp_all add: event_def jget_def)

lemma stream_ok_unmoved:
  "j_events j' = j_events j \<Longrightarrow> j_phase j' = j_phase j \<Longrightarrow> j_told_started j' = j_told_started j \<Longrightarrow>
    stream_ok b64 j' \<longleftrightarrow> stream_ok b64 j"
  by (simp add: stream_ok_def)

lemma stream_ok_tell:
  assumes "stream_ok b64 j" "\<And>st. st \<in> phase_stages (j_phase j) \<Longrightarrow> stage_after b64 st ev = Some st"
  shows "stream_ok b64 (tell ev j)"
  using assms by (fastforce simp: stream_ok_def tell_def told_stage_snoc)

lemma stream_ok_start:
  assumes "stream_ok b64 j" "j_phase j \<in> {Pending, Drawing}"
  shows "stream_ok b64 (start_job now stamp j) \<and> j_phase (start_job now stamp j) = Drawing"
  using assms by (auto simp: stream_ok_def start_job_def tell_def told_stage_snoc stage_after_def WAITING_def Let_def)

lemma progress_told_ok: "progress_told data = Some ev \<Longrightarrow> progress_ok ev \<and> jget ''event'' ev = JStr ''progress''"
  by (auto simp: progress_told_def progress_ok_def jget_def event_def split: json.splits if_splits)

lemma stream_ok_take_kind:
  assumes "stream_ok b64 j" "j_phase j \<in> {Pending, Drawing}"
  shows "stream_ok b64 (take_kind str now kind data stamp j) \<and> j_phase (take_kind str now kind data stamp j) \<in> {Pending, Drawing}"
proof -
  have t: "stream_ok b64 (tell ev j) \<and> j_phase (tell ev j) \<in> {Pending, Drawing}"
    if "jget ''event'' ev \<in> {JStr ''cached'', JStr ''node''} \<or> jget ''event'' ev = JStr ''progress'' \<and> progress_ok ev" for ev
    using stream_ok_tell [OF assms(1), of ev] assms(2) that by (auto simp: stage_after_def Let_def tell_def)
  have h: "stream_ok b64 (set_heard f j) \<and> j_phase (set_heard f j) = j_phase j" for f
    using assms(1) by (simp add: set_heard_def stream_ok_def)
  have l: "stream_ok b64 (j'\<lparr>j_look := True\<rparr>) = stream_ok b64 j'" for j' by (simp add: stream_ok_def)
  show ?thesis
    unfolding take_kind_def
    using assms t h l stream_ok_start [OF conjunct1 [OF h]] progress_told_ok
    by (auto split: json.splits option.splits)
qed

definition follow_ok :: "(string \<Rightarrow> string) \<Rightarrow> job \<Rightarrow> bool" where
  "follow_ok b64 j \<longleftrightarrow> stream_ok b64 j \<and> j_phase j \<in> {Pending, Drawing}"

lemma follow_ok_unmoved:
  "follow_ok b64 j \<Longrightarrow> j_events j' = j_events j \<Longrightarrow> j_phase j' = j_phase j \<Longrightarrow> j_told_started j' = j_told_started j \<Longrightarrow>
    follow_ok b64 j'"
  by (simp add: follow_ok_def stream_ok_def)

lemma follow_ok_take_kind: "follow_ok b64 j \<Longrightarrow> follow_ok b64 (take_kind str now kind data stamp j)"
  using stream_ok_take_kind unfolding follow_ok_def by blast

lemma follow_ok_take_news: "follow_ok b64 j \<Longrightarrow> take_news str now ms j = (j', ok) \<Longrightarrow> follow_ok b64 j'"
proof (induction ms arbitrary: j)
  case (Cons message ms)
  have "j' = j\<lparr>j_inbox := ms\<rparr> \<or> (\<exists>j1. follow_ok b64 j1 \<and> take_news str now ms j1 = (j', ok))"
  proof (cases "\<exists>data. jget ''data'' message = JObj data")
    case True
    then obtain data where d: "jget ''data'' message = JObj data" by blast
    show ?thesis
    proof (cases "finite_number (jget ''timestamp'' data)")
      case (Inl e)
      with Cons.prems(2) d show ?thesis by simp
    next
      case (Inr stamp)
      have "follow_ok b64 (case jget ''type'' message of JStr kind \<Rightarrow> take_kind str now kind data (map_option fst stamp) j | _ \<Rightarrow> j)"
        using Cons.prems(1) follow_ok_take_kind by (cases "jget ''type'' message") simp_all
      moreover have "take_news str now ms
          (case jget ''type'' message of JStr kind \<Rightarrow> take_kind str now kind data (map_option fst stamp) j | _ \<Rightarrow> j) = (j', ok)"
        using Cons.prems(2) d Inr by simp
      ultimately show ?thesis by blast
    qed
  next
    case False
    then have "take_news str now ms j = (j', ok)" using Cons.prems(2) by (cases "jget ''data'' message") simp_all
    with Cons.prems(1) show ?thesis by blast
  qed
  with Cons.IH Cons.prems(1) follow_ok_unmoved [of b64 j j'] show ?case by auto
qed simp

lemma follow_ok_take_inbox: "follow_ok b64 j \<Longrightarrow> take_inbox str now j = (j', ok) \<Longrightarrow> follow_ok b64 j'"
  unfolding take_inbox_def by (erule follow_ok_take_news [rotated]) (simp add: follow_ok_unmoved)

lemma take_view_fields:
  "j_events (take_view v j) = j_events j" "j_phase (take_view v j) = j_phase j" "j_told_started (take_view v j) = j_told_started j"
  "j_forgotten (take_view v j) = j_forgotten j" "j_sent (take_view v j) = j_sent j" "j_lost (take_view v j) = j_lost j"
  "j_stop_confirmed (take_view v j) = j_stop_confirmed j"
  by (simp_all add: take_view_def Let_def split: option.splits)

lemma follow_ok_pending_round:
  assumes "follow_ok b64 j" "pending_round i fl j = (fl', j')"
  shows "follow_ok b64 j'"
proof -
  have s: "stream_ok b64 j" "j_phase j \<in> {Pending, Drawing}" using assms(1) by (simp_all add: follow_ok_def)
  have "follow_ok b64 (place_event (fi_now i) j)" if "j_phase j = Pending"
    using stream_ok_tell [OF s(1)] that s
    by (auto simp: follow_ok_def place_event_def stage_after_def Let_def tell_def split: option.splits)
  moreover have "follow_ok b64 (start_job (fi_now i) None j)" using stream_ok_start [OF s] by (simp add: follow_ok_def)
  ultimately show ?thesis using assms by (auto simp: pending_round_def split: if_splits)
qed

lemma poll_job_fields:
  assumes "poll_job now q h j = (j', res)"
  shows "j_events j' = j_events j" "j_phase j' = j_phase j" "j_told_started j' = j_told_started j"
    "j_forgotten j' = j_forgotten j" "j_sent j' = j_sent j" "j_stop_confirmed j' = j_stop_confirmed j"
  using assms by (auto simp: poll_job_def poll_failed_def Let_def split: sum.splits option.splits if_splits)

text \<open>The jobs of a round: after the news, after the queue, and after the read of the record.\<close>

lemma follow_roundE:
  assumes "follow_round str i fl j = (fl', j', out)"
  obtains (raised) "take_inbox str (fi_news_at i) j = (j', False)" "out = Task_ends Ended_exception"
  | (told) rec where "take_inbox str (fi_news_at i) j = (j', True)" "heard_record (j_heard j') = Some rec" "out = Has_record rec"
  | (polled) j1 fl1 j2 res where "take_inbox str (fi_news_at i) j = (j1, True)"
      "pending_round i fl (take_view (fi_view i) j1) = (fl1, j2)"
      "poll_job (fi_polled_at i) (fi_queue i) (fi_history i) (j2\<lparr>j_look := False\<rparr>) = (j', res)"
      "out = (case res of Inl end \<Rightarrow> Task_ends end | Inr None \<Rightarrow> Goes_on | Inr (Some rec) \<Rightarrow> Has_record rec)"
  | (waits) j1 fl1 where "take_inbox str (fi_news_at i) j = (j1, True)"
      "pending_round i fl (take_view (fi_view i) j1) = (fl1, j')" "fl' = plan_poll i fl1 j'"
      "\<not> j_look j'" "(case fl_poll_at fl' of None \<Rightarrow> True | Some t \<Rightarrow> fi_now i < t)"
      "out = Waits (case follow_moments fl' j' of [] \<Rightarrow> None | t # ts \<Rightarrow> Some (foldl min t ts))"
proof -
  obtain j1 ok where n: "take_inbox str (fi_news_at i) j = (j1, ok)" by fastforce
  obtain fl1 j2 where p: "pending_round i fl (take_view (fi_view i) j1) = (fl1, j2)" by fastforce
  obtain j3 res where q: "poll_job (fi_polled_at i) (fi_queue i) (fi_history i) (j2\<lparr>j_look := False\<rparr>) = (j3, res)" by fastforce
  define looks where "looks \<longleftrightarrow> j_look j2 \<or> (case fl_poll_at (plan_poll i fl1 j2) of None \<Rightarrow> False | Some t \<Rightarrow> fi_now i \<ge> t)"
  note r = assms [unfolded follow_round_def n p q prod.case Let_def looks_def [symmetric]]
  show ?thesis
  proof (cases ok)
    case False
    with r n raised show ?thesis by simp
  next
    case ok: True
    show ?thesis
    proof (cases "heard_record (j_heard j1)")
      case (Some rec)
      with r n ok told show ?thesis by simp
    next
      case None
      show ?thesis
      proof (cases looks)
        case True
        with r n p q ok None show ?thesis by (intro polled) auto
      next
        case False
        with r n p ok None show ?thesis
          by (intro waits) (auto simp: looks_def not_le split: option.splits)
      qed
    qed
  qed
qed

lemma follow_ok_round:
  assumes "follow_ok b64 j" "follow_round str i fl j = (fl', j', out)"
  shows "follow_ok b64 j'"
proof -
  have v: "follow_ok b64 j2" if "take_inbox str (fi_news_at i) j = (j1, True)" "pending_round i fl (take_view (fi_view i) j1) = (fl1, j2)"
    for j1 fl1 j2
  proof -
    have "follow_ok b64 (take_view (fi_view i) j1)"
      by (rule follow_ok_unmoved [OF follow_ok_take_inbox [OF assms(1) that(1)]]) (simp_all add: take_view_fields)
    from follow_ok_pending_round [OF this that(2)] show ?thesis .
  qed
  from assms(2) show ?thesis
  proof (cases rule: follow_roundE)
    case (polled j1 fl1 j2 res)
    show ?thesis by (rule follow_ok_unmoved [OF v [OF polled(1,2)]]) (simp_all add: poll_job_fields [OF polled(3)])
  next
    case raised
    show ?thesis by (rule follow_ok_take_inbox [OF assms(1) raised(1)])
  next
    case (told rec)
    show ?thesis by (rule follow_ok_take_inbox [OF assms(1) told(1)])
  next
    case (waits j1 fl1)
    show ?thesis by (rule v [OF waits(1,2)])
  qed
qed

lemma stream_ok_images:
  "stream_ok b64 j \<Longrightarrow> j_phase j = Phase_over \<Longrightarrow> told_stage b64 (j_events j) = Some Over_told \<Longrightarrow>
    deliver_pictures b64 view imgs j = (j', out) \<Longrightarrow> stream_ok b64 j' \<and> j_phase j' = Phase_over"
proof (induction b64 view imgs j rule: deliver_pictures.induct)
  case (2 b64 view node img rest j)
  show ?case
  proof (cases "view img")
    case (Inr data)
    show ?thesis
    proof (cases "strip_png data")
      case png: (Inr png)
      define j1 where "j1 = tell (event ''image'' [(''node'', JStr node), (''png'', JStr (b64 png))])
        (if rest = [] then forget_record j else j)"
      have "image_ok b64 (event ''image'' [(''node'', JStr node), (''png'', JStr (b64 png))])"
        using stripped_png_again [OF png] by (auto simp: image_ok_def jget_def event_def)
      then have "stage_after b64 Over_told (event ''image'' [(''node'', JStr node), (''png'', JStr (b64 png))]) = Some Over_told"
        by (simp add: stage_after_def)
      then have "told_stage b64 (j_events j1) = Some Over_told" "j_phase j1 = Phase_over" "stream_ok b64 j1"
        using 2(2-4) by (auto simp: j1_def tell_def told_stage_snoc forget_record_def stream_ok_def)
      with 2(1) [OF Inr png refl] 2(5) show ?thesis by (simp add: Inr png j1_def Let_def)
    qed (use 2 Inr in auto)
  qed (use 2 in auto)
qed auto

lemma deliverE:
  assumes "deliver str sha256 b64 i rec j = (j', out)"
  obtains j1 j2 ok where
    "j1 = start_job (di_now i) None (j\<lparr>j_phase := Phase_over, j_over_at := Some (di_now i), j_drawn := True\<rparr>)"
    "last_sample (di_stats i) j1 = (j2, ok)"
    "j' = j1 \<or> j' = j2 \<or>
      (\<exists>shown. deliver_pictures b64 (di_view i) shown (tell (over_event sha256 (di_log i) j2) j2) = (j', out))"
proof -
  define j1 where "j1 = start_job (di_now i) None (j\<lparr>j_phase := Phase_over, j_over_at := Some (di_now i), j_drawn := True\<rparr>)"
  obtain j2 ok where l: "last_sample (di_stats i) j1 = (j2, ok)" by fastforce
  obtain frame copies where f: "pictures_of rec (j_copies j) = (frame, copies)" by fastforce
  show ?thesis
    using assms that [OF j1_def l]
    unfolding deliver_def Let_def j1_def [symmetric] f prod.case l
    by (cases ok) (auto simp del: deliver_pictures.simps split: if_splits)
qed

lemma stream_ok_deliver:
  assumes "follow_ok b64 j" "deliver str sha256 b64 i rec j = (j', out)"
  shows "stream_ok b64 j' \<and> j_phase j' = Phase_over"
  using assms(2)
proof (cases rule: deliverE)
  case (1 j1 j2 ok)
  have s1: "told_stage b64 (j_events j1) = Some Started_told" "j_phase j1 = Phase_over" "j_told_started j1"
    using assms(1)
    by (auto simp: 1(1) follow_ok_def start_job_def stream_ok_def tell_def told_stage_snoc stage_after_def WAITING_def Let_def)
  then have s2: "told_stage b64 (j_events j2) = Some Started_told" "j_phase j2 = Phase_over" "j_told_started j2"
    using 1(2) by (auto simp: last_sample_def split: sum.splits prod.splits)
  define j3 where "j3 = tell (over_event sha256 (di_log i) j2) j2"
  have s3: "told_stage b64 (j_events j3) = Some Over_told" "j_phase j3 = Phase_over" "j_told_started j3"
    using s2 by (auto simp: j3_def tell_def told_stage_snoc over_event_def stage_after_def Let_def)
  then have "stream_ok b64 j1" "stream_ok b64 j2" "stream_ok b64 j3" using s1 s2 by (auto simp: stream_ok_def)
  with 1(3) s1(2) s2(2) s3 stream_ok_images [of b64 j3] show ?thesis unfolding j3_def [symmetric] by blast
qed

definition reached_ok :: "(string \<Rightarrow> string) \<Rightarrow> job \<Rightarrow> run_state \<Rightarrow> bool" where
  "reached_ok b64 j r \<longleftrightarrow>
    stream_ok b64 j \<and> (case r of Runs \<Rightarrow> j_phase j \<noteq> Phase_over | Delivers _ \<Rightarrow> j_phase j \<in> {Pending, Drawing} | _ \<Rightarrow> True)"

lemma reached_ok_unmoved:
  "reached_ok b64 j r \<Longrightarrow> j_events j' = j_events j \<Longrightarrow> j_phase j' = j_phase j \<Longrightarrow> j_told_started j' = j_told_started j \<Longrightarrow>
    reached_ok b64 j' r"
  by (cases r) (auto simp: reached_ok_def stream_ok_def)

lemma cleanup_job_fields:
  assumes "cleanup_job sub stop j = (j', unresolved, told)"
  shows "j_events j' = j_events j" "j_phase j' = j_phase j" "j_told_started j' = j_told_started j" "j_stop_reason j' = j_stop_reason j"
  using assms by (auto simp: cleanup_job_def Let_def forget_record_def split: if_splits sum.splits bool.splits prod.splits)

lemma reached_stream: "job_reached str sha256 b64 j r \<Longrightarrow> reached_ok b64 j r"
proof (induction rule: job_reached.induct)
  case (accepted prompt_id ca copies)
  then show ?case by (simp add: reached_ok_def stream_ok_def new_job_def told_stage_def)
next
  case (prepared j require_socket opened ls so fresh cid j')
  then show ?case by (auto simp: reached_ok_def stream_ok_def prepare_job_def Let_def)
next
  case (submitted j now a j' res)
  then show ?case
    by (auto simp: reached_ok_def submit_answered_def stream_ok_def tell_def told_stage_snoc stage_after_def Let_def split: sum.splits)
next
  case (heard j r message epoch)
  then show ?case by (elim reached_ok_unmoved) (simp_all add: hear_job_def)
next
  case (sampled j r stats)
  then show ?case by (elim reached_ok_unmoved) (simp_all add: sample_drawing_def split: sum.splits)
next
  case (stopped j r reason)
  then show ?case by (elim reached_ok_unmoved) (simp_all add: stop_picture_def)
next
  case (followed j i fl fl' j' out)
  then have "follow_ok b64 j" by (simp add: reached_ok_def follow_ok_def)
  from follow_ok_round [OF this followed(3)] show ?case
    by (auto simp: reached_ok_def follow_ok_def after_round_def split: follow_out.splits)
next
  case (delivered j rec i j' out)
  then have "follow_ok b64 j" by (simp add: reached_ok_def follow_ok_def)
  from stream_ok_deliver [OF this delivered(2)] show ?case by (simp add: reached_ok_def)
next
  case (ended j r)
  then show ?case by (simp add: reached_ok_def)
next
  case (cleaned j sub stop j' unresolved told)
  have "reached_ok b64 j Cleaned" using cleaned(3) by (simp add: reached_ok_def)
  then show ?case by (rule reached_ok_unmoved) (simp_all add: cleanup_job_fields [OF cleaned(2)])
qed

text \<open>
  C26: Whatever the socket, the queue and the reads tell, and in whichever order, the stream of a picture keeps to one
  protocol: it is accepted first, places come only before its one start, then cached nodes, nodes and steps that are
  within their number, then one \<^verbatim>\<open>over\<close>, and after it nothing but pictures, of which each is stripped of its text.
\<close>

theorem picture_stream_protocol:
  assumes "job_reached str sha256 b64 j r"
  shows "\<exists>st. told_stage b64 (j_events j) = Some st \<and> st \<in> phase_stages (j_phase j) \<and>
    (j_told_started j \<longleftrightarrow> st \<in> {Started_told, Over_told})"
  using reached_stream [OF assms] by (auto simp: reached_ok_def stream_ok_def)

definition sample_job :: job where
  "sample_job = new_job ''job'' (w_caller no_work) []"

definition sample_socket :: socket where
  "sample_socket = socket_opens ''c1'' socket_init"

definition sample_submitted :: job where
  "sample_submitted = fst (submit_answered 10 (Inr ())
     (case prepare_job False True (\<lambda>s. s) (Inl Failed_request) sample_socket ''c0'' sample_job of Inl _ \<Rightarrow> sample_job | Inr (_, j) \<Rightarrow> j))"

lemma sample_submitted_reached: "job_reached str sha256 b64 sample_submitted Runs"
proof -
  obtain cid j where p: "prepare_job False True (\<lambda>s. s) (Inl Failed_request) sample_socket ''c0'' sample_job = Inr (cid, j)"
    by (simp add: prepare_job_def Let_def)
  have i: "ca_cls (w_caller no_work) = Reader" by (simp add: no_work_def)
  have "prepare_job False True sha256 (Inl Failed_request) sample_socket ''c0'' sample_job = Inr (cid, j)"
    using p i by (simp add: prepare_job_def Let_def sample_job_def new_job_def)
  from prepared [OF accepted [of str sha256 b64 "''job''" "w_caller no_work" "[]", folded sample_job_def] _ this]
  have r: "job_reached str sha256 b64 j Runs" by (simp add: sample_job_def new_job_def)
  have "j_phase j = Submitting" using p by (auto simp: prepare_job_def Let_def)
  from submitted [OF r this, of 10 "Inr ()"] show ?thesis
    by (simp add: sample_submitted_def p submit_answered_def)
qed

theorem picture_stream_protocol_witness:
  "told_stage (\<lambda>s. s) (j_events sample_submitted) = Some Accepted_told \<and> \<not> j_told_started sample_submitted"
proof -
  have "j_phase sample_submitted = Pending" by (simp add: sample_submitted_def submit_answered_def tell_def)
  with picture_stream_protocol [OF sample_submitted_reached [of "\<lambda>v. []" "\<lambda>s. s" "\<lambda>s. s"]] show ?thesis by auto
qed

subsection \<open>The end of a job\<close>

text \<open>A record is deleted only of a job that is over or whose stop is confirmed, and ComfyUI holds what is followed.\<close>

definition card_ok :: "job \<Rightarrow> run_state \<Rightarrow> bool" where
  "card_ok j r \<longleftrightarrow>
    (j_forgotten j \<longrightarrow> j_phase j = Phase_over \<or> j_stop_confirmed j = Some True) \<and>
    (r \<noteq> Cleaned \<longrightarrow> j_stop_confirmed j = None \<and> (j_phase j \<in> {Pending, Drawing} \<longrightarrow> j_sent j)) \<and>
    (r = Runs \<and> j_phase j = Submitting \<longrightarrow> j_sent j)"

lemma take_kind_fields:
  "j_forgotten (take_kind str now kind data stamp j) = j_forgotten j" "j_sent (take_kind str now kind data stamp j) = j_sent j"
  "j_stop_confirmed (take_kind str now kind data stamp j) = j_stop_confirmed j"
  by (simp_all add: take_kind_def start_job_def set_heard_def tell_def Let_def split: json.splits option.splits)

lemma take_news_fields:
  "take_news str now ms j = (j', ok) \<Longrightarrow>
    j_forgotten j' = j_forgotten j \<and> j_sent j' = j_sent j \<and> j_stop_confirmed j' = j_stop_confirmed j"
proof (induction ms arbitrary: j)
  case (Cons message ms)
  from Cons.prems show ?case
    using Cons.IH take_kind_fields by (cases "jget ''data'' message") (auto split: sum.splits json.splits)
qed simp

lemma pending_round_fields:
  assumes "pending_round i fl j = (fl', j')"
  shows "j_forgotten j' = j_forgotten j" "j_sent j' = j_sent j" "j_stop_confirmed j' = j_stop_confirmed j"
  using assms
  by (auto simp: pending_round_def start_job_def place_event_def tell_def Let_def split: if_splits option.splits)

lemma follow_round_fields:
  assumes "follow_round str i fl j = (fl', j', out)"
  shows "j_forgotten j' = j_forgotten j \<and> j_sent j' = j_sent j \<and> j_stop_confirmed j' = j_stop_confirmed j"
proof -
  have n: "j_forgotten j1 = j_forgotten j \<and> j_sent j1 = j_sent j \<and> j_stop_confirmed j1 = j_stop_confirmed j"
    if "take_inbox str (fi_news_at i) j = (j1, ok)" for j1 ok
    using take_news_fields [OF that [unfolded take_inbox_def]] by simp
  from assms show ?thesis
  proof (cases rule: follow_roundE)
    case raised
    show ?thesis by (rule n [OF raised(1)])
  next
    case (told rec)
    show ?thesis by (rule n [OF told(1)])
  next
    case (polled j1 fl1 j2 res)
    with n [OF polled(1)] pending_round_fields [OF polled(2)] poll_job_fields [OF polled(3)] show ?thesis
      by (simp add: take_view_fields)
  next
    case (waits j1 fl1)
    with n [OF waits(1)] pending_round_fields [OF waits(2)] show ?thesis by (simp add: take_view_fields)
  qed
qed

lemma deliver_pictures_fields:
  "deliver_pictures b64 view imgs j = (j', out) \<Longrightarrow> j_phase j' = j_phase j \<and> j_stop_confirmed j' = j_stop_confirmed j"
proof (induction b64 view imgs j rule: deliver_pictures.induct)
  case (2 b64 view node img rest j)
  then show ?case by (auto simp: Let_def tell_def forget_record_def split: sum.splits if_splits)
qed simp

lemma deliver_fields:
  assumes "deliver str sha256 b64 i rec j = (j', out)"
  shows "j_phase j' = Phase_over" "j_stop_confirmed j' = j_stop_confirmed j"
proof -
  have "j_phase j' = Phase_over \<and> j_stop_confirmed j' = j_stop_confirmed j"
    using assms
  proof (cases rule: deliverE)
    case (1 j1 j2 ok)
    have "j_phase j1 = Phase_over" "j_stop_confirmed j1 = j_stop_confirmed j"
      by (simp_all add: 1(1) start_job_def WAITING_def tell_def Let_def)
    moreover from this have "j_phase j2 = Phase_over" "j_stop_confirmed j2 = j_stop_confirmed j"
      using 1(2) by (auto simp: last_sample_def split: sum.splits prod.splits)
    ultimately show ?thesis using 1(3) deliver_pictures_fields by (fastforce simp: tell_def)
  qed
  then show "j_phase j' = Phase_over" "j_stop_confirmed j' = j_stop_confirmed j" by simp_all
qed

text \<open>What a cleanup does, from what is known of the job before it.\<close>

lemma cleanup_job_cases:
  assumes "cleanup_job sub stop j = (j', unresolved, told)" "j_stop_confirmed j = None"
  shows "(j_forgotten j' \<longrightarrow> j_forgotten j \<or> j_phase j = Phase_over \<or> j_stop_confirmed j' = Some True)"
    "unresolved \<longleftrightarrow> j_stop_confirmed j' = Some False" "told \<longleftrightarrow> \<not> unresolved"
    "j_phase j = Phase_over \<Longrightarrow> j_forgotten j' \<and> \<not> unresolved"
    "j_sent j \<Longrightarrow> sub = Submit_ended (Inr ()) \<Longrightarrow> j_phase j \<noteq> Phase_over \<Longrightarrow> \<not> j_lost j \<Longrightarrow> stop = Inr b \<Longrightarrow>
      j_stop_confirmed j' = Some b \<and> (b \<longrightarrow> j_forgotten j')"
  using assms by (auto simp: cleanup_job_def Let_def forget_record_def split: if_splits sum.splits bool.splits prod.splits)

lemma reached_card: "job_reached str sha256 b64 j r \<Longrightarrow> card_ok j r"
proof (induction rule: job_reached.induct)
  case (accepted prompt_id ca copies)
  then show ?case by (simp add: card_ok_def new_job_def)
next
  case (prepared j require_socket opened ls so fresh cid j')
  then show ?case by (auto simp: card_ok_def prepare_job_def Let_def)
next
  case (submitted j now a j' res)
  then show ?case by (auto simp: card_ok_def submit_answered_def tell_def split: sum.splits)
next
  case (followed j i fl fl' j' out)
  then have "j_sent j" by (auto simp: card_ok_def)
  moreover have "j_phase j' \<in> {Pending, Drawing}"
    using follow_ok_round [OF _ followed(3)] reached_stream [OF followed(1)] followed(2) by (auto simp: reached_ok_def follow_ok_def)
  ultimately show ?case
    using followed(2,4) follow_round_fields [OF followed(3)]
    by (auto simp: card_ok_def after_round_def split: follow_out.splits)
next
  case (delivered j rec i j' out)
  then show ?case using deliver_fields [OF delivered(2)] by (auto simp: card_ok_def)
next
  case (cleaned j sub stop j' unresolved told)
  then show ?case
    using cleanup_job_cases [OF cleaned(2)] cleanup_job_fields [OF cleaned(2)] by (auto simp: card_ok_def)
qed (auto simp: card_ok_def hear_job_def sample_drawing_def stop_picture_def split: sum.splits)

text \<open>
  C27: The end of a picture leaves nothing behind silently. Its record, which holds the prompt, is deleted only once
  the picture is over or its stop is confirmed, and then it is. A job that ComfyUI took and that is neither over nor
  lost is stopped there: where that is confirmed its record goes, and where it is not the service keeps the job as
  unresolved, a client that asked for the stop is told that it is not stopped, and any other client that still listens
  hears \<^verbatim>\<open>stop_unconfirmed\<close>, however its task ended.
\<close>

theorem picture_end_safe:
  assumes "job_reached str sha256 b64 j Ended" and "cleanup_job sub stop j = (j', unresolved, told)"
  shows "(j_forgotten j' \<longrightarrow> j_phase j' = Phase_over \<or> j_stop_confirmed j' = Some True) \<and>
    (j_phase j' = Phase_over \<longrightarrow> j_forgotten j' \<and> \<not> unresolved) \<and>
    (unresolved \<longleftrightarrow> j_stop_confirmed j' = Some False) \<and> (told \<longleftrightarrow> \<not> unresolved) \<and>
    (j_phase j \<in> {Pending, Drawing} \<and> \<not> j_lost j \<and> sub = Submit_ended (Inr ()) \<longrightarrow>
      (stop = Inr True \<longrightarrow> j_forgotten j' \<and> told) \<and> (stop = Inr False \<longrightarrow> unresolved \<and> \<not> told)) \<and>
    (unresolved \<and> (\<forall>r \<in> UNHEARD. j_stop_reason j' \<noteq> Some r) \<longrightarrow>
      picture_answer ending out j' = (Last_error Stop_unconfirmed, False))"
proof -
  have k: "card_ok j Ended" "card_ok j' Cleaned" using reached_card assms cleaned by blast+
  then have n: "j_stop_confirmed j = None" "j_phase j \<in> {Pending, Drawing} \<Longrightarrow> j_sent j" by (auto simp: card_ok_def)
  note c = cleanup_job_cases [OF assms(2) n(1)] cleanup_job_fields [OF assms(2)]
  have s: "stop = Inr b \<Longrightarrow> j_stop_confirmed j' = Some b \<and> (b \<longrightarrow> j_forgotten j')"
    if "j_phase j \<in> {Pending, Drawing} \<and> \<not> j_lost j \<and> sub = Submit_ended (Inr ())" for b
    using c(5) that n(2) by auto
  have a: "picture_answer ending out j' = (Last_error Stop_unconfirmed, False)"
    if "unresolved" "\<forall>r \<in> UNHEARD. j_stop_reason j' \<noteq> Some r"
    using that c(2) by (auto simp: picture_answer_def split: option.splits)
  have f: "j_forgotten j' \<longrightarrow> j_phase j' = Phase_over \<or> j_stop_confirmed j' = Some True"
    using k(2) by (simp add: card_ok_def)
  have o: "j_phase j' = Phase_over \<longrightarrow> j_forgotten j' \<and> \<not> unresolved" using c(4,7) by simp
  have p: "j_phase j \<in> {Pending, Drawing} \<and> \<not> j_lost j \<and> sub = Submit_ended (Inr ()) \<longrightarrow>
      (stop = Inr True \<longrightarrow> j_forgotten j' \<and> told) \<and> (stop = Inr False \<longrightarrow> unresolved \<and> \<not> told)"
  proof
    assume h: "j_phase j \<in> {Pending, Drawing} \<and> \<not> j_lost j \<and> sub = Submit_ended (Inr ())"
    have "stop = Inr True \<Longrightarrow> j_forgotten j' \<and> told" "stop = Inr False \<Longrightarrow> unresolved \<and> \<not> told"
      using s [OF h, of True] s [OF h, of False] c(2,3) by simp_all
    then show "(stop = Inr True \<longrightarrow> j_forgotten j' \<and> told) \<and> (stop = Inr False \<longrightarrow> unresolved \<and> \<not> told)" by blast
  qed
  from f o c(2,3) p a show ?thesis by blast
qed

definition sample_stopped :: "job \<times> bool \<times> bool" where
  "sample_stopped = cleanup_job (Submit_ended (Inr ())) (Inr False) sample_submitted"

theorem picture_end_safe_witness:
  "\<exists>j. sample_stopped = (j, True, False) \<and> \<not> j_forgotten j \<and>
    picture_answer False (Picture_ends Ended_cancelled) j = (Last_error Stop_unconfirmed, False)"
proof -
  obtain j u t where s: "sample_stopped = (j, u, t)" by (cases sample_stopped)
  have f: "j_phase sample_submitted = Pending" "\<not> j_lost sample_submitted" "j_stop_reason sample_submitted = None" "\<not> j_forgotten sample_submitted"
    by (simp_all add: sample_submitted_def submit_answered_def tell_def prepare_job_def Let_def sample_job_def new_job_def require_def)
  have e: "job_reached (\<lambda>v. []) (\<lambda>s. s) (\<lambda>s. s) sample_submitted Ended" by (rule ended [OF sample_submitted_reached]) simp
  note c = picture_end_safe [OF e s [unfolded sample_stopped_def], of False "Picture_ends Ended_cancelled"]
  have "u \<and> \<not> t" using c f(1,2) by auto
  moreover have "j_stop_reason j = None" "j_phase j = Pending"
    using cleanup_job_fields [OF s [unfolded sample_stopped_def]] f by simp_all
  ultimately show ?thesis using c s by auto
qed


subsection \<open>Waiting\<close>

text \<open>The moment that \<^verbatim>\<open>_place\<close> is next due is past the clock, by two seconds at most.\<close>

lemma catch_up:
  fixes now place :: rat
  assumes "place \<le> now"
  shows "now < place + PLACE_S * of_int \<lfloor>(now - place) / PLACE_S + 1\<rfloor>"
    "place + PLACE_S * of_int \<lfloor>(now - place) / PLACE_S + 1\<rfloor> \<le> now + PLACE_S"
proof -
  let ?q = "(now - place) / PLACE_S + 1"
  have "?q < of_int \<lfloor>?q\<rfloor> + 1" "of_int \<lfloor>?q\<rfloor> \<le> ?q" by linarith+
  then show "now < place + PLACE_S * of_int \<lfloor>?q\<rfloor>" "place + PLACE_S * of_int \<lfloor>?q\<rfloor> \<le> now + PLACE_S"
    by (simp_all add: PLACE_S_def field_simps)
qed

lemma foldl_min_bounds:
  fixes t :: rat
  shows "foldl min t ts \<le> t" "u \<in> set (t # ts) \<Longrightarrow> foldl min t ts \<le> u" "\<forall>u \<in> set (t # ts). n < u \<Longrightarrow> n < foldl min t ts"
proof -
  have e: "foldl min t ts = Min (set (t # ts))" unfolding Min.set_eq_fold foldl_conv_fold by (simp add: min.commute)
  show "foldl min t ts \<le> t" "u \<in> set (t # ts) \<Longrightarrow> foldl min t ts \<le> u" "\<forall>u \<in> set (t # ts). n < u \<Longrightarrow> n < foldl min t ts"
    unfolding e by simp_all
qed

definition locals_ok :: "rat \<Rightarrow> follow_locals \<Rightarrow> bool" where
  "locals_ok now fl \<longleftrightarrow>
    fl_place_at fl \<le> now + PLACE_S \<and> (case fl_poll_at fl of None \<Rightarrow> True | Some t \<Rightarrow> t \<le> now + VOUCHED_POLL_S)"


definition sample_round :: follow_input where
  "sample_round = \<lparr>fi_news_at = 11, fi_now = 11, fi_socket = sample_socket, fi_later_socket = sample_socket, fi_view = None,
     fi_queue = Inl Failed_request, fi_history = Inl Failed_request, fi_polled_at = 11\<rparr>"


end
