(* ===== verification/Picture_Config.thy ===== *)
theory Picture_Config
  imports Config_Loading Python_Floats
begin

text \<open>
  The picture gateway's configuration, \<^verbatim>\<open>simple_serving/pictures/config.py\<close>: \<^verbatim>\<open>load\<close>, \<^verbatim>\<open>from_block\<close> and
  \<^verbatim>\<open>_config\<close> with the checks and messages in the code's order, on the field checks of the text gateway's
  configuration (\<open>Config_Loading\<close>).
\<close>

definition LANE :: string where "LANE = ''pictures''"

definition PICTURE_CONFIG_FIELDS :: "string list" where
  "PICTURE_CONFIG_FIELDS = [''lane'', ''alias'', ''engine_url'', ''listen'', ''keys'', ''limits'', ''reader_nodes'', ''expect'',
     ''drain_deadline_s'', ''idle_timeout_s'', ''health_interval_s'', ''max_connections'', ''body_limit_bytes'',
     ''upload_limit_bytes'', ''max_nodes'', ''versions'']"

definition NODE_CLASS :: "string \<Rightarrow> bool" where
  "NODE_CLASS s \<longleftrightarrow> 1 \<le> length s \<and> length s \<le> 64 \<and> list_all is_word s"

definition READER_NODES :: "string list" where
  "READER_NODES = [''UNETLoader'', ''CLIPLoader'', ''VAELoader'', ''CheckpointLoaderSimple'', ''CLIPTextEncode'',
     ''ConditioningZeroOut'', ''TextEncodeQwenImage21'', ''QwenImage21Cache'', ''EmptyLatentImage'', ''KSampler'',
     ''VAEDecode'', ''PreviewImage'', ''ModelAttentionBackend'', ''LoadImage'', ''ImageScale'']"

definition CARD_ENGINE :: obj where
  "CARD_ENGINE = [(''comfyui'', JStr ''0.37.0''), (''pytorch'', JStr ''2.11.0+cu130''), (''triton'', JBool True)]"

definition picture_limits_json :: "int \<Rightarrow> int \<Rightarrow> int \<Rightarrow> json" where
  "picture_limits_json jobs wall uploads = JObj [(''jobs'', JInt jobs), (''wall_s'', JInt wall), (''uploads'', JInt uploads)]"

definition PROVISIONAL_LIMITS :: obj where
  "PROVISIONAL_LIMITS = [(''reader'', picture_limits_json 32 1860 32), (''agent'', picture_limits_json 4 1860 16),
     (''internal'', picture_limits_json 32 3600 32), (''external'', picture_limits_json 0 60 0)]"

definition PICTURE_PROVISIONAL :: obj where
  "PICTURE_PROVISIONAL = [(''limits'', JObj PROVISIONAL_LIMITS), (''drain_deadline_s'', JInt 60)]"

record picture_limits =
  pl_jobs :: int
  pl_wall_s :: seconds
  pl_uploads :: int

record expect =
  ex_comfyui :: string
  ex_pytorch :: string
  ex_triton :: bool

record picture_config =
  pc_alias :: string
  pc_engine_url :: string
  pc_keys :: "key list"
  pc_limits :: "cls \<Rightarrow> picture_limits"
  pc_reader_nodes :: "string list"
  pc_expect :: expect
  pc_drain_deadline_s :: seconds
  pc_idle_timeout_s :: seconds
  pc_health_interval_s :: seconds
  pc_public :: listener
  pc_control :: listener
  pc_max_connections :: int
  pc_body_limit_bytes :: int
  pc_upload_limit_bytes :: int
  pc_max_nodes :: int
  pc_versions :: "(string \<times> string) list"

definition cfg_picture_limits :: "json \<Rightarrow> string \<Rightarrow> picture_limits loaded" where
  "cfg_picture_limits v path =
    andthen (cfg_fields v path [''jobs'', ''wall_s'', ''uploads'']) (\<lambda>ob.
    andthen (cfg_integer (jget ''jobs'' ob) (path @ ''.jobs'') (Some 0)) (\<lambda>jobs.
    andthen (cfg_seconds (jget ''wall_s'' ob) (path @ ''.wall_s'')) (\<lambda>wall.
    andthen (cfg_integer (jget ''uploads'' ob) (path @ ''.uploads'') (Some 0)) (\<lambda>ups.
    Inr \<lparr>pl_jobs = jobs, pl_wall_s = wall, pl_uploads = ups\<rparr>))))"

definition cfg_nodes :: "json \<Rightarrow> string list loaded" where
  "cfg_nodes v =
    (case (case v of JList l \<Rightarrow> if l = [] then None else those (map as_str l) | _ \<Rightarrow> None) of
       None \<Rightarrow> Inl (Config_error ''reader_nodes must list node classes'')
     | Some nodes \<Rightarrow> andthen (refuse (\<not> list_all NODE_CLASS nodes) ''reader_nodes must list node classes'') (\<lambda>_. Inr nodes))"

definition picture_config_of :: "url_split \<Rightarrow> obj \<Rightarrow> key list \<Rightarrow> picture_config loaded" where
  "picture_config_of urlsplit data keys =
    andthen (cfg_fields (JObj data) ''the configuration'' PICTURE_CONFIG_FIELDS) (\<lambda>_.
    andthen (refuse (jget ''lane'' data \<noteq> JStr LANE)
      (''lane must be '' @ CHR 0x22 # LANE @ CHR 0x22 # '': this is the picture gateway'')) (\<lambda>_.
    andthen (refuse (keys = []) ''keys must hold at least one key'') (\<lambda>_.
    andthen (refuse (\<not> distinct (map k_digest keys) \<or> \<not> distinct (map k_label keys))
      ''keys must differ from each other, and so must their labels'') (\<lambda>_.
    andthen (refuse (list_ex k_vision keys) ''the picture lane has no text vision permission'') (\<lambda>_.
    andthen (refuse (list_ex outside keys) ''the picture lane has no outside keys'') (\<lambda>_.
    andthen (cfg_fields (jget ''limits'' data) ''limits'' (map cls_name CLASSES)) (\<lambda>limits.
    andthen (cfg_fields (jget ''listen'' data) ''listen'' [''public'', ''control'']) (\<lambda>listen.
    andthen (cfg_nodes (jget ''reader_nodes'' data)) (\<lambda>nodes.
    andthen (cfg_fields (jget ''expect'' data) ''expect'' [''comfyui'', ''pytorch'', ''triton'']) (\<lambda>ex.
    andthen (cfg_object (jget_or ''versions'' (JObj []) data) ''versions'') (\<lambda>vs.
    andthen (case string_values vs of None \<Rightarrow> Inl (Config_error ''versions must map names to strings'') | Some l \<Rightarrow> Inr l) (\<lambda>versions.
    andthen (cfg_string (jget ''alias'' data) ''alias'') (\<lambda>alias.
    andthen (cfg_engine_url urlsplit (jget ''engine_url'' data)) (\<lambda>url.
    andthen (per_class (\<lambda>n v. cfg_picture_limits v (''limits.'' @ n)) limits) (\<lambda>cls_limits.
    andthen (cfg_string (jget ''comfyui'' ex) ''expect.comfyui'') (\<lambda>comfyui.
    andthen (cfg_string (jget ''pytorch'' ex) ''expect.pytorch'') (\<lambda>pytorch.
    andthen (cfg_boolean (jget ''triton'' ex) ''expect.triton'') (\<lambda>triton.
    andthen (cfg_seconds (jget ''drain_deadline_s'' data) ''drain_deadline_s'') (\<lambda>drain_s.
    andthen (cfg_seconds (jget_or ''idle_timeout_s'' (JInt 780) data) ''idle_timeout_s'') (\<lambda>idle_s.
    andthen (cfg_seconds (jget_or ''health_interval_s'' (JInt 5) data) ''health_interval_s'') (\<lambda>health_s.
    andthen (cfg_listener (jget ''public'' listen) ''listen.public'' False) (\<lambda>public.
    andthen (cfg_listener (jget ''control'' listen) ''listen.control'' True) (\<lambda>control.
    andthen (cfg_integer (jget_or ''max_connections'' (JInt 64) data) ''max_connections'' (Some 1)) (\<lambda>connections.
    andthen (cfg_integer (jget_or ''body_limit_bytes'' (JInt (2 ^ 20)) data) ''body_limit_bytes'' (Some 1)) (\<lambda>body.
    andthen (cfg_integer (jget_or ''upload_limit_bytes'' (JInt (10 * 2 ^ 20)) data) ''upload_limit_bytes'' (Some 1)) (\<lambda>ups.
    andthen (cfg_integer (jget_or ''max_nodes'' (JInt 64) data) ''max_nodes'' (Some 1)) (\<lambda>most.
    Inr \<lparr>pc_alias = alias, pc_engine_url = rstrip_slashes url, pc_keys = keys, pc_limits = cls_limits,
      pc_reader_nodes = nodes, pc_expect = \<lparr>ex_comfyui = comfyui, ex_pytorch = pytorch, ex_triton = triton\<rparr>,
      pc_drain_deadline_s = drain_s, pc_idle_timeout_s = idle_s, pc_health_interval_s = health_s,
      pc_public = public, pc_control = control, pc_max_connections = connections, pc_body_limit_bytes = body,
      pc_upload_limit_bytes = ups, pc_max_nodes = most, pc_versions = versions\<rparr>)))))))))))))))))))))))))))"

definition load_pictures :: "url_split \<Rightarrow> string + json \<Rightarrow> picture_config loaded" where
  "load_pictures urlsplit document =
    (case document of
       Inl exception \<Rightarrow> Inl (Config_error (''cannot read the configuration file ('' @ exception @ '')''))
     | Inr v \<Rightarrow>
         andthen (cfg_object v ''configuration'') (\<lambda>data.
         case jget ''keys'' data of
           JList entries \<Rightarrow>
             andthen (map_res load_key (zip [0..<length entries] entries)) (\<lambda>keys. picture_config_of urlsplit data keys)
         | _ \<Rightarrow> Inl (Config_error ''keys must be a list'')))"

definition put_all :: "obj \<Rightarrow> obj \<Rightarrow> obj" where
  "put_all ob entries = foldl (\<lambda>ob (n, v). jput n v ob) ob entries"

definition from_block ::
  "url_split \<Rightarrow> (string \<Rightarrow> string) \<Rightarrow> json \<Rightarrow> string \<Rightarrow> listener option \<Rightarrow> listener option \<Rightarrow> picture_config loaded"
where
  "from_block urlsplit sha256 block engine_url public control =
    andthen (cfg_object block ''block'') (\<lambda>given.
    let data = put_all (put_all [(''alias'', JStr ''dev-pictures''), (''reader_nodes'', JList (map JStr READER_NODES)),
          (''expect'', JObj CARD_ENGINE)] PICTURE_PROVISIONAL) given
    in andthen (cfg_object (jget ''limits'' data) ''limits'') (\<lambda>limits.
       andthen (cfg_object (jget ''keys'' data) ''keys'') (\<lambda>entries.
       andthen (map_res (\<lambda>(index, raw, entry). cfg_key (sha256 raw) entry (''keys['' @ digits_of index @ '']''))
         (zip [0..<length entries] entries)) (\<lambda>keys.
       let any = \<lparr>li_host = ''127.0.0.1'', li_port = 0\<rparr>;
           listen = JObj [(''public'', listener_json (case public of None \<Rightarrow> any | Some l \<Rightarrow> l)),
             (''control'', listener_json (case control of None \<Rightarrow> any | Some l \<Rightarrow> l))];
           own = jput ''limits'' (JObj (put_all PROVISIONAL_LIMITS limits)) data
       in picture_config_of urlsplit
            (put_all (filter (\<lambda>(n, v). n \<noteq> ''keys'') own)
              [(''lane'', JStr LANE), (''engine_url'', JStr engine_url), (''listen'', listen)]) keys))))"

subsection \<open>What is loaded\<close>

lemma cfg_picture_limits_Inr:
  "cfg_picture_limits v path = Inr l \<Longrightarrow> 0 \<le> pl_jobs l \<and> 0 < pl_wall_s l \<and> 0 \<le> pl_uploads l"
  by (auto simp: cfg_picture_limits_def cfg_integer_Inr dest: cfg_seconds_pos)

lemma picture_limits_ok:
  "per_class (\<lambda>n v. cfg_picture_limits v (''limits.'' @ n)) ob = Inr g \<Longrightarrow>
    \<forall>c. 0 \<le> pl_jobs (g c) \<and> 0 < pl_wall_s (g c) \<and> 0 \<le> pl_uploads (g c)"
  by (blast dest: per_class_Inr cfg_picture_limits_Inr)

lemma cfg_nodes_Inr: "cfg_nodes v = Inr nodes \<Longrightarrow> nodes \<noteq> [] \<and> list_all NODE_CLASS nodes"
proof -
  assume n: "cfg_nodes v = Inr nodes"
  then obtain l where "those (map as_str l) = Some nodes" "l \<noteq> []" "list_all NODE_CLASS nodes"
    by (auto simp: cfg_nodes_def split: json.splits option.splits if_splits)
  then show ?thesis by (cases l) (auto split: option.splits)
qed

definition picture_config_sound :: "picture_config \<Rightarrow> bool" where
  "picture_config_sound cfg \<longleftrightarrow>
    (\<forall>c. 0 \<le> pl_jobs (pc_limits cfg c) \<and> 0 < pl_wall_s (pc_limits cfg c) \<and> 0 \<le> pl_uploads (pc_limits cfg c)) \<and>
    pc_keys cfg \<noteq> [] \<and> distinct (map k_digest (pc_keys cfg)) \<and> distinct (map k_label (pc_keys cfg)) \<and>
    list_all key_sound (pc_keys cfg) \<and> \<not> list_ex k_vision (pc_keys cfg) \<and> \<not> list_ex outside (pc_keys cfg) \<and>
    pc_reader_nodes cfg \<noteq> [] \<and> list_all NODE_CLASS (pc_reader_nodes cfg) \<and>
    0 < pc_drain_deadline_s cfg \<and> 0 < pc_idle_timeout_s cfg \<and> 0 < pc_health_interval_s cfg \<and>
    1 \<le> pc_max_connections cfg \<and> 1 \<le> pc_body_limit_bytes cfg \<and> 1 \<le> pc_upload_limit_bytes cfg \<and> 1 \<le> pc_max_nodes cfg \<and>
    is_loopback (Some (li_host (pc_control cfg))) \<and>
    {li_port (pc_public cfg), li_port (pc_control cfg)} \<subseteq> {0..65535}"

lemma picture_config_of_sound:
  assumes "picture_config_of urlsplit data keys = Inr cfg" and "list_all key_sound keys"
  shows "picture_config_sound cfg"
  using assms(1) unfolding picture_config_of_def
  apply (elim andthenE)
  apply (drule picture_limits_ok cfg_listener_Inr cfg_nodes_Inr)+
  apply (drule cfg_seconds_pos)+
  apply (simp only: refuse_Inr sum.inject cfg_integer_Inr)
  apply (elim conjE)
  apply (hypsubst)
  by (simp add: picture_config_sound_def assms(2))

text \<open>What \<^verbatim>\<open>load\<close> returns is a configuration that the picture lane can run on, as \<open>load_sound\<close> says of the text lane.\<close>

lemma load_pictures_sound:
  assumes "load_pictures urlsplit document = Inr cfg"
  shows "picture_config_sound cfg"
proof -
  obtain v where d: "document = Inr v" using assms by (cases document) (simp_all add: load_pictures_def)
  obtain data where r: "(case jget ''keys'' data of
      JList entries \<Rightarrow> andthen (map_res load_key (zip [0..<length entries] entries)) (\<lambda>keys. picture_config_of urlsplit data keys)
    | _ \<Rightarrow> Inl (Config_error ''keys must be a list'')) = Inr cfg"
    using assms [unfolded d load_pictures_def sum.case] by (rule andthenE)
  obtain entries where e: "andthen (map_res load_key (zip [0..<length entries] entries))
      (\<lambda>keys. picture_config_of urlsplit data keys) = Inr cfg"
    using json_list_case [OF r] by (elim exE conjE)
  obtain keys where k: "map_res load_key (zip [0..<length entries] entries) = Inr keys"
    and c: "picture_config_of urlsplit data keys = Inr cfg"
    using e by (rule andthenE)
  have "list_all key_sound keys" by (rule map_res_all [OF k], drule load_key_sound, simp)
  with picture_config_of_sound [OF c] show ?thesis by simp
qed

text \<open>A file of the lane: the launch's provisional limits with one development key.\<close>

definition sample_key_json :: json where
  "sample_key_json = JObj [(''sha256'', JStr (replicate 64 (CHR ''b''))), (''label'', JStr ''desk''),
     (''classes'', JList [JStr ''reader'']), (''default'', JStr ''reader''), (''scopes'', JBool True), (''control'', JBool True)]"

definition sample_pictures :: json where
  "sample_pictures = JObj [(''lane'', JStr ''pictures''), (''alias'', JStr ''dev-pictures''),
     (''engine_url'', JStr ''http://127.0.0.1:8188''), (''keys'', JList [sample_key_json]),
     (''limits'', JObj PROVISIONAL_LIMITS), (''reader_nodes'', JList [JStr ''KSampler'', JStr ''PreviewImage'']),
     (''expect'', JObj CARD_ENGINE), (''drain_deadline_s'', JInt 60),
     (''listen'', JObj [(''public'', JObj [(''host'', JStr ''0.0.0.0''), (''port'', JInt 8080)]),
        (''control'', JObj [(''host'', JStr ''::1''), (''port'', JInt 8081)])])]"

lemma sample_picture_key_loads:
  "\<exists>k. load_key (i, sample_key_json) = Inr k \<and> \<not> k_vision k \<and> \<not> outside k"
  by (simp add: sample_key_json_def load_key_def jget_def is_lower_hex_def is_digit_def less_eq_char_def cfg_key_def
      cfg_fields_def cfg_object_def refuse_def require_def key_classes_def key_default_def cls_of_name_def CLASSES_def
      cfg_string_def cfg_boolean_def jget_or_def outside_def Let_def list_all_iff)

lemma sample_picture_limits_load:
  "cfg_picture_limits (picture_limits_json n m u) path = Inr l \<longleftrightarrow> 0 \<le> n \<and> 0 \<le> u \<and>
    (\<exists>w. cfg_seconds (JInt m) (path @ ''.wall_s'') = Inr w \<and> l = \<lparr>pl_jobs = n, pl_wall_s = w, pl_uploads = u\<rparr>)"
  by (auto simp: cfg_picture_limits_def picture_limits_json_def cfg_fields_Inr jget_def cfg_integer_Inr)

lemma sample_nodes_load: "cfg_nodes (JList [JStr ''KSampler'', JStr ''PreviewImage'']) = Inr [''KSampler'', ''PreviewImage'']"
  by code_simp

lemma sample_pictures_load: "\<exists>cfg. load_pictures sample_split (Inr sample_pictures) = Inr cfg"
proof -
  obtain k where k: "load_key (0, sample_key_json) = Inr k" "\<not> k_vision k" "\<not> outside k"
    using sample_picture_key_loads by blast
  have l: "cfg_picture_limits (picture_limits_json n m u) path = Inr \<lparr>pl_jobs = n, pl_wall_s = of_int m, pl_uploads = u\<rparr>"
    if "0 \<le> n" "0 \<le> u" "0 < m" "m < 2 ^ 53" for n m u path
    using that by (simp add: sample_picture_limits_load cfg_seconds_small)
  show ?thesis
    by (simp add: load_pictures_def sample_pictures_def k picture_config_of_def jget_def jget_or_def cfg_fields_def
        cfg_object_def PICTURE_CONFIG_FIELDS_def LANE_def CLASSES_def refuse_def require_def cfg_engine_url_def
        cfg_string_def sample_split_def sample_control_loopback string_values_def per_class_def PROVISIONAL_LIMITS_def l
        cfg_seconds_small cfg_listener_def cfg_boolean_def cfg_integer_def Let_def sample_nodes_load CARD_ENGINE_def upt_rec)
qed

end
