(* ===== verification/Picture_Service.thy ===== *)
theory Picture_Service
  imports Picture_Jobs Picture_Config Control_Routes
begin

text \<open>
  The picture lane's service, \<^verbatim>\<open>simple_serving/pictures/service.py\<close>: the lifecycle of the text lane in front of
  ComfyUI, the numbers of the jobs, the cap of each class, the stops that are not confirmed yet, what the lane
  answers about itself, and the check of the engine. Log rows, the tasks that watch, and what \<^verbatim>\<open>track\<close> runs
  in the background are left out: a delete or an erasure that is sent is a field of the job.
\<close>

definition ORDER :: int where "ORDER = 10 ^ 9"

record unresolved =
  un_cls :: cls
  un_key :: string
  un_scope :: "string option"
  un_missing :: nat

text \<open>A work with its task: none yet, running, or done.\<close>

record picture_work =
  pw_job :: job
  pw_task :: "bool option"

record picture_service = lifecycle +
  p_works :: "nat \<rightharpoonup> picture_work"
  p_table :: "string \<rightharpoonup> nat"
  p_unresolved :: "(string \<times> unresolved) list"
  p_view :: "queue_view option"
  p_views :: nat
  p_fingerprint :: "fingerprint option"
  p_attention :: "bool option"
  p_numbered :: nat
  p_socket :: socket

definition picture_service_init :: "string \<Rightarrow> picture_service" where
  "picture_service_init boot = lifecycle.extend (lifecycle_init boot)
    \<lparr>p_works = Map.empty, p_table = Map.empty, p_unresolved = [], p_view = None, p_views = 0, p_fingerprint = None,
     p_attention = None, p_numbered = 0, p_socket = socket_init\<rparr>"

definition job_of :: "picture_service \<Rightarrow> nat \<Rightarrow> job option" where
  "job_of s w = map_option pw_job (p_works s w)"

definition set_job :: "nat \<Rightarrow> (job \<Rightarrow> job) \<Rightarrow> picture_service \<Rightarrow> picture_service" where
  "set_job w f s = s\<lparr>p_works := (p_works s)(w := map_option (\<lambda>k. k\<lparr>pw_job := f (pw_job k)\<rparr>) (p_works s w))\<rparr>"

definition set_task :: "nat \<Rightarrow> bool option \<Rightarrow> picture_service \<Rightarrow> picture_service" where
  "set_task w t s = s\<lparr>p_works := (p_works s)(w := map_option (\<lambda>k. k\<lparr>pw_task := t\<rparr>) (p_works s w))\<rparr>"

definition stop_owned_by :: "caller \<Rightarrow> unresolved \<Rightarrow> bool" where
  "stop_owned_by ca u \<longleftrightarrow> k_label (ca_key ca) = un_key u \<and> ca_scope ca = un_scope u"

subsection \<open>Jobs\<close>

definition number_of :: "cls \<Rightarrow> nat \<Rightarrow> int" where
  "number_of c n = (case c of Reader \<Rightarrow> - (ORDER + int n) | Agent \<Rightarrow> int n | _ \<Rightarrow> ORDER + int n)"

definition next_number :: "cls \<Rightarrow> picture_service \<Rightarrow> int \<times> picture_service" where
  "next_number c s = (let n = Suc (p_numbered s) in (number_of c n, s\<lparr>p_numbered := n\<rparr>))"

definition work_class :: "picture_service \<Rightarrow> nat \<Rightarrow> cls option" where
  "work_class s w = map_option (\<lambda>j. ca_cls (j_caller j)) (job_of s w)"

definition held_jobs :: "cls \<Rightarrow> picture_service \<Rightarrow> int" where
  "held_jobs c s =
    int (length (filter (\<lambda>w. work_class s w = Some c) (l_work s))) +
    int (length (filter (\<lambda>(_, u). un_cls u = c) (p_unresolved s)))"

definition accept_picture :: "picture_config \<Rightarrow> nat \<Rightarrow> job \<Rightarrow> picture_service \<Rightarrow> picture_service result" where
  "accept_picture cfg w j s =
    andthen (check_serving s) (\<lambda>_.
    andthen (require (held_jobs (ca_cls (j_caller j)) s < pl_jobs (pc_limits cfg (ca_cls (j_caller j)))) Queue_full) (\<lambda>_.
    accept w (s\<lparr>p_works := (p_works s)(w \<mapsto> \<lparr>pw_job = j, pw_task = None\<rparr>)\<rparr>)))"

definition put_unresolved :: "string \<Rightarrow> unresolved \<Rightarrow> (string \<times> unresolved) list \<Rightarrow> (string \<times> unresolved) list" where
  "put_unresolved i u l = (if i \<in> fst ` set l then map (\<lambda>(k, v). (k, if k = i then u else v)) l else l @ [(i, u)])"

definition unresolved_stop :: "job \<Rightarrow> picture_service \<Rightarrow> picture_service" where
  "unresolved_stop j s =
    s\<lparr>p_unresolved := put_unresolved (j_id j) \<lparr>un_cls = ca_cls (j_caller j), un_key = k_label (ca_key (j_caller j)),
        un_scope = ca_scope (j_caller j), un_missing = 0\<rparr> (p_unresolved s)\<rparr>"

text \<open>A message of the socket goes to the job that it names.\<close>

definition hear :: "obj \<Rightarrow> nat \<Rightarrow> picture_service \<Rightarrow> picture_service" where
  "hear message epoch s =
    (case jget ''data'' message of
       JObj data \<Rightarrow>
         (case jget ''prompt_id'' data of
            JStr i \<Rightarrow> (case p_table s i of None \<Rightarrow> s | Some w \<Rightarrow> set_job w (hear_job message epoch) s)
          | _ \<Rightarrow> s)
     | _ \<Rightarrow> s)"

definition any_pending :: "picture_service \<Rightarrow> bool" where
  "any_pending s \<longleftrightarrow> (\<exists>i w j. p_table s i = Some w \<and> job_of s w = Some j \<and> j_phase j = Pending)"

definition queue_read :: "rat \<Rightarrow> rat \<Rightarrow> comfy_error + card_queue \<Rightarrow> picture_service \<Rightarrow> picture_service" where
  "queue_read began done_at r s =
    (case r of Inl _ \<Rightarrow> s
     | Inr q \<Rightarrow> s\<lparr>p_view := Some \<lparr>qv_id = p_views s, qv_began = began, qv_done = done_at, qv_queue = q\<rparr>, p_views := Suc (p_views s)\<rparr>)"

definition stop_work_of :: "stop_reason \<Rightarrow> nat \<Rightarrow> picture_service \<Rightarrow> picture_service" where
  "stop_work_of reason w s =
    (case p_works s w of None \<Rightarrow> s | Some k \<Rightarrow> set_job w (stop_picture (pw_task k \<noteq> None) reason) s)"

definition picture_lane :: "picture_config \<Rightarrow> picture_service lane" where
  "picture_lane cfg =
    \<lparr>ln_keys = pc_keys cfg, ln_drain_deadline_s = pc_drain_deadline_s cfg, ln_idle_timeout_s = pc_idle_timeout_s cfg,
     ln_health_interval_s = pc_health_interval_s cfg, ln_stop = (\<lambda>_. stop_work_of),
     ln_waiting = (\<lambda>w s. case p_works s w of None \<Rightarrow> False | Some k \<Rightarrow> pw_task k = Some True \<and> \<not> job_active (pw_job k)),
     ln_outside = (\<lambda>w s. case job_of s w of None \<Rightarrow> False | Some j \<Rightarrow> outside (ca_key (j_caller j)))\<rparr>"

subsection \<open>State\<close>

text \<open>The jobs by class, those of the table and the stops that are not confirmed; \<open>ids\<close> are the keys of the table.\<close>

definition active_jobs :: "string list \<Rightarrow> picture_service \<Rightarrow> cls \<Rightarrow> int" where
  "active_jobs ids s c =
    int (length (filter (\<lambda>i. case Option.bind (p_table s i) (job_of s) of None \<Rightarrow> False
        | Some j \<Rightarrow> j_phase j \<notin> WAITING \<and> ca_cls (j_caller j) = c) ids)) +
    int (length (filter (\<lambda>(_, u). un_cls u = c) (p_unresolved s)))"

definition waiting_jobs :: "string list \<Rightarrow> picture_service \<Rightarrow> cls \<Rightarrow> int" where
  "waiting_jobs ids s c =
    int (length (filter (\<lambda>i. case Option.bind (p_table s i) (job_of s) of None \<Rightarrow> False
        | Some j \<Rightarrow> j_phase j \<in> WAITING \<and> ca_cls (j_caller j) = c) ids))"

definition picture_state :: "picture_config \<Rightarrow> obj \<Rightarrow> string list \<Rightarrow> bool \<Rightarrow> picture_service \<Rightarrow> json" where
  "picture_state cfg versions ids control s = JObj (
    [(''contract'', JStr CONTRACT), (''lane'', JStr LANE), (''boot_id'', JStr (l_boot_id s)),
     (''status'', JStr (status_name (status s))), (''model'', JStr (pc_alias cfg)),
     (''drain_generation'', JInt (l_drain_generation s))] @
    (if control
     then [(''sleep_requested'', JBool (l_sleep_requested s)),
       (''active'', counts_json (map (\<lambda>c. (c, active_jobs ids s c)) CLASSES)),
       (''waiting'', counts_json (map (\<lambda>c. (c, waiting_jobs ids s c)) CLASSES)), (''versions'', JObj versions)]
     else []))"

definition opt_text :: "string option \<Rightarrow> json" where
  "opt_text v = (case v of None \<Rightarrow> JNull | Some t \<Rightarrow> JStr t)"

definition engine_facts :: "picture_service \<Rightarrow> json result" where
  "engine_facts s =
    (case p_fingerprint s of
       None \<Rightarrow> Inl Starting_code
     | Some seen \<Rightarrow> Inr (JObj [(''comfyui'', opt_text (f_comfyui seen)), (''pytorch'', opt_text (f_pytorch seen)),
         (''card'', opt_text (f_card seen)), (''triton'', JBool (f_triton seen)),
         (''kitchen_attention'', case p_attention s of None \<Rightarrow> JNull | Some b \<Rightarrow> JBool b)]))"

subsection \<open>Health\<close>

text \<open>The three answers that a look at an unconfirmed stop reads.\<close>

record stop_look =
  sl_cancel :: "comfy_error + unit"
  sl_queue :: "comfy_error + card_queue"
  sl_history :: "comfy_error + obj option"

text \<open>What a look leaves of a stop: nothing once it is resolved, the second value says whether its record is
  deleted; \<open>Inl\<close> is an exception that is no \<^verbatim>\<open>ComfyError\<close>.\<close>

definition look_again :: "string \<Rightarrow> stop_look \<Rightarrow> unresolved \<Rightarrow> unit + (unresolved option \<times> bool)" where
  "look_again i l u =
    (case andthen (sl_cancel l) (\<lambda>_. andthen (sl_queue l) (\<lambda>q.
       if holds q i then Inr None else andthen (sl_history l) (\<lambda>r. Inr (Some (r \<noteq> None))))) of
       Inl e \<Rightarrow> if e = Not_comfy then Inl () else Inr (Some u, False)
     | Inr None \<Rightarrow> Inr (Some (u\<lparr>un_missing := 0\<rparr>), False)
     | Inr (Some recorded) \<Rightarrow>
         if recorded \<or> Suc (un_missing u) > 1 then Inr (None, recorded)
         else Inr (Some (u\<lparr>un_missing := Suc (un_missing u)\<rparr>), False))"

fun resolve_stops :: "(string \<Rightarrow> stop_look) \<Rightarrow> (string \<times> unresolved) list \<Rightarrow> (string \<times> unresolved) list \<times> bool" where
  "resolve_stops looks [] = ([], True)"
| "resolve_stops looks ((i, u) # rest) =
    (case look_again i (looks i) u of
       Inl _ \<Rightarrow> ((i, u) # rest, False)
     | Inr (left, _) \<Rightarrow>
         (case resolve_stops looks rest of (l, ok) \<Rightarrow> ((case left of None \<Rightarrow> l | Some v \<Rightarrow> (i, v) # l), ok)))"

definition expected :: "expect \<Rightarrow> fingerprint \<Rightarrow> bool" where
  "expected ex f \<longleftrightarrow> f_comfyui f = Some (ex_comfyui ex) \<and> f_pytorch f = Some (ex_pytorch ex) \<and> f_triton f = ex_triton ex"

definition check_engine ::
  "picture_config \<Rightarrow> seconds \<Rightarrow> comfy_error + obj \<Rightarrow> (string \<Rightarrow> stop_look) \<Rightarrow> comfy_error + bool \<Rightarrow> picture_service \<Rightarrow> picture_service"
where
  "check_engine cfg now stats looks attention s =
    (case stats of
       Inl _ \<Rightarrow> check_failed s
     | Inr ob \<Rightarrow>
         (case resolve_stops looks (p_unresolved s) of (l, ok) \<Rightarrow>
          let s1 = s\<lparr>p_unresolved := l\<rparr>; seen = fingerprint_of ob
          in if \<not> ok then check_failed s1
             else case p_fingerprint s1 of
               None \<Rightarrow>
                 if \<not> expected (pc_expect cfg) seen then s1
                 else if attention = Inl Not_comfy then check_failed s1
                 else
                   let s2 = s1\<lparr>p_fingerprint := Some seen,
                         p_attention := (case attention of Inr b \<Rightarrow> Some b | Inl _ \<Rightarrow> p_attention s1)\<rparr>
                   in engine_ready (first_verified (picture_lane cfg) now s2)
             | Some known \<Rightarrow>
                 if seen \<noteq> known then engine_changes (picture_lane cfg) now s1 else engine_ready s1))"

text \<open>The attention is read again when a socket opens anew.\<close>

definition attention_read :: "comfy_error + bool \<Rightarrow> picture_service \<Rightarrow> picture_service" where
  "attention_read r s = (case r of Inl _ \<Rightarrow> s | Inr b \<Rightarrow> s\<lparr>p_attention := Some b\<rparr>)"

subsection \<open>The order on the card\<close>

text \<open>
  The card draws the jobs in the order of their numbers. Up to a thousand million jobs, every reader's picture comes
  before every agent's and those before every experiment's; the later of two readers' pictures comes first, and of two
  others of one class the earlier; and each number is exact as the float that ComfyUI orders by.
\<close>

theorem numbers_order_classes:
  assumes "1 \<le> i" and "1 \<le> j" and "i \<le> 10 ^ 9" and "j \<le> 10 ^ 9"
  shows "number_of Reader i < number_of Agent j \<and> number_of Agent i < number_of Internal j \<and>
    (i < j \<longrightarrow> number_of Reader j < number_of Reader i \<and> number_of Agent i < number_of Agent j \<and>
       number_of Internal i < number_of Internal j) \<and>
    float_of_int (number_of c i) = Some (of_int (number_of c i))"
proof -
  have f: "float_of_int z = Some (of_int z)" if "\<bar>z\<bar> < 2 ^ 53" for z
  proof -
    have "nat (- z) < 2 ^ 53 \<and> nat z < 2 ^ 53" using that by (cases "0 \<le> z") (auto simp: nat_less_iff)
    then show ?thesis by (auto simp: float_of_int_def float_of_nat_def)
  qed
  have "\<bar>number_of c i\<bar> < 2 ^ 53" using assms(3) by (cases c) (simp_all add: number_of_def ORDER_def)
  from f [OF this] assms show ?thesis by (auto simp: number_of_def ORDER_def)
qed

theorem numbers_order_classes_witness:
  "number_of Reader 2 < number_of Reader 1 \<and> number_of Reader 2 < number_of Agent 1"
  using numbers_order_classes [of 1 2 Reader] numbers_order_classes [of 2 1 Reader] by simp

subsection \<open>Every order of operations\<close>

text \<open>A change of jobs that keeps whose each is.\<close>

definition keeps_owner :: "(job \<Rightarrow> job) \<Rightarrow> bool" where
  "keeps_owner f \<longleftrightarrow> (\<forall>j. j_id (f j) = j_id j \<and> j_caller (f j) = j_caller j)"

inductive picture_step :: "picture_config \<Rightarrow> seconds \<Rightarrow> picture_service \<Rightarrow> picture_service \<Rightarrow> bool"
  for cfg now
where
  accepts: "w \<notin> set (l_work s) \<Longrightarrow> accept_picture cfg w j s = Inr s' \<Longrightarrow> picture_step cfg now s s'"
| tasks: "picture_step cfg now s (set_task w t s)"
| moves: "keeps_owner f \<Longrightarrow> picture_step cfg now s (set_job w f s)"
| unresolves: "w \<in> set (l_work s) \<Longrightarrow> job_of s w = Some j \<Longrightarrow> picture_step cfg now s (unresolved_stop j s)"
| releases: "picture_step cfg now s (release w s)"
| begins: "picture_step cfg now s (ours_begin ca s)"
| ends: "picture_step cfg now s (ours_end now ca s)"
| tables: "picture_step cfg now s (s\<lparr>p_table := t\<rparr>)"
| numbers: "picture_step cfg now s (snd (next_number c s))"
| hears: "picture_step cfg now s (hear message epoch s)"
| reads: "picture_step cfg now s (queue_read began done_at r s)"
| sockets: "picture_step cfg now s (s\<lparr>p_socket := so\<rparr>)"
| drains: "drain (picture_lane cfg) now boot s = Inr s' \<Longrightarrow> picture_step cfg now s s'"
| sleeps: "sleep (picture_lane cfg) now boot s = Inr s' \<Longrightarrow> picture_step cfg now s s'"
| opens: "open_service boot g s = Inr s' \<Longrightarrow> picture_step cfg now s s'"
| idles: "picture_step cfg now s (idle_check (picture_lane cfg) now s)"
| deadlines: "picture_step cfg now s (drain_deadline (picture_lane cfg) now s)"
| sleeping: "sleep_then_stop now s = Some s' \<Longrightarrow> picture_step cfg now s s'"
| checks: "picture_step cfg now s (check_engine cfg now stats looks attention s)"
| attends: "picture_step cfg now s (attention_read r s)"

inductive picture_reached :: "picture_config \<Rightarrow> string \<Rightarrow> picture_service \<Rightarrow> bool"
  for cfg boot
where
  start: "picture_reached cfg boot (picture_service_init boot)"
| step: "picture_reached cfg boot s \<Longrightarrow> picture_step cfg now s s' \<Longrightarrow> picture_reached cfg boot s'"

subsection \<open>What the card holds of a class\<close>

definition owner_of :: "picture_service \<Rightarrow> nat \<Rightarrow> (string \<times> caller) option" where
  "owner_of s w = map_option (\<lambda>j. (j_id j, j_caller j)) (job_of s w)"

definition held_ids :: "cls \<Rightarrow> picture_service \<Rightarrow> string set" where
  "held_ids c s =
    {i. \<exists>w ca. w \<in> set (l_work s) \<and> owner_of s w = Some (i, ca) \<and> ca_cls ca = c} \<union>
    {i. \<exists>u. (i, u) \<in> set (p_unresolved s) \<and> un_cls u = c}"

text \<open>A step that leaves the works, whose they are, the unresolved stops and the engine as they were.\<close>

definition same_jobs :: "picture_service \<Rightarrow> picture_service \<Rightarrow> bool" where
  "same_jobs s s' \<longleftrightarrow>
    l_work s' = l_work s \<and> owner_of s' = owner_of s \<and> p_unresolved s' = p_unresolved s \<and> p_fingerprint s' = p_fingerprint s"

lemma same_jobs_trans: "same_jobs s s1 \<Longrightarrow> same_jobs s1 s2 \<Longrightarrow> same_jobs s s2"
  by (simp add: same_jobs_def)

lemma same_jobs_held: "same_jobs s s' \<Longrightarrow> held_ids c s' = held_ids c s"
  by (simp add: same_jobs_def held_ids_def)

lemma owner_of_set_job: "keeps_owner f \<Longrightarrow> owner_of (set_job w f s) = owner_of s"
  by (auto simp: fun_eq_iff owner_of_def job_of_def set_job_def keeps_owner_def option.map_comp comp_def split: option.splits)

lemma set_job_fields [simp]:
  "l_work (set_job w f s) = l_work s" "p_unresolved (set_job w f s) = p_unresolved s" "p_fingerprint (set_job w f s) = p_fingerprint s"
  "l_engine_status (set_job w f s) = l_engine_status s"
  by (simp_all add: set_job_def)

lemma same_jobs_set_job: "keeps_owner f \<Longrightarrow> same_jobs s (set_job w f s)"
  by (simp add: same_jobs_def owner_of_set_job)

lemma same_jobs_set_task: "same_jobs s (set_task w t s) \<and> l_engine_status (set_task w t s) = l_engine_status s"
  by (auto simp: same_jobs_def set_task_def fun_eq_iff owner_of_def job_of_def option.map_comp comp_def split: option.splits)

lemma keeps_owner_stop: "keeps_owner (stop_picture tasked reason)"
  by (simp add: keeps_owner_def stop_picture_def)

lemma stop_work_of_same: "same_jobs s (stop_work_of reason w s) \<and> l_engine_status (stop_work_of reason w s) = l_engine_status s"
  using same_jobs_set_job [OF keeps_owner_stop] by (auto simp: stop_work_of_def same_jobs_def split: option.splits)

lemma foldl_same:
  assumes "\<And>s w. same_jobs s (f s w) \<and> l_engine_status (f s w) = l_engine_status s"
  shows "same_jobs s (foldl f s ws) \<and> l_engine_status (foldl f s ws) = l_engine_status s"
proof (induction ws arbitrary: s)
  case (Cons w ws)
  from assms [of s w] Cons [of "f s w"] show ?case by (auto intro: same_jobs_trans)
qed (simp add: same_jobs_def)

lemma owner_of_lifecycle [simp]:
  "owner_of (s\<lparr>l_deadline := d\<rparr>) = owner_of s" "owner_of (s\<lparr>l_draining := b\<rparr>) = owner_of s"
  "owner_of (s\<lparr>l_drain_generation := n\<rparr>) = owner_of s" "owner_of (s\<lparr>l_sleep_requested := b\<rparr>) = owner_of s"
  "owner_of (s\<lparr>l_idle := d\<rparr>) = owner_of s" "owner_of (s\<lparr>l_sleep := t\<rparr>) = owner_of s"
  "owner_of (s\<lparr>l_engine_changed := b\<rparr>) = owner_of s" "owner_of (s\<lparr>l_engine_status := e\<rparr>) = owner_of s"
  "owner_of (s\<lparr>l_idle_since := q\<rparr>) = owner_of s" "owner_of (s\<lparr>l_ours_inflight := n\<rparr>) = owner_of s"
  "owner_of (s\<lparr>l_work := ws\<rparr>) = owner_of s" "owner_of (s\<lparr>l_no_work := b\<rparr>) = owner_of s"
  "owner_of (s\<lparr>p_unresolved := l\<rparr>) = owner_of s" "owner_of (s\<lparr>p_fingerprint := f\<rparr>) = owner_of s"
  "owner_of (s\<lparr>p_attention := a\<rparr>) = owner_of s" "owner_of (s\<lparr>p_table := tb\<rparr>) = owner_of s"
  "owner_of (s\<lparr>p_numbered := k\<rparr>) = owner_of s" "owner_of (s\<lparr>p_view := v\<rparr>) = owner_of s"
  "owner_of (s\<lparr>p_views := k\<rparr>) = owner_of s" "owner_of (s\<lparr>p_socket := so\<rparr>) = owner_of s"
  by (simp_all add: owner_of_def job_of_def fun_eq_iff)

lemma close_same:
  "same_jobs s (close (picture_lane cfg) now s) \<and> l_engine_status (close (picture_lane cfg) now s) = l_engine_status s"
proof -
  define s1 where "s1 = s\<lparr>l_draining := True, l_drain_generation := l_drain_generation s + 1\<rparr>"
  define f where "f = (\<lambda>s w. if ln_waiting (picture_lane cfg) w s \<or> ln_outside (picture_lane cfg) w s
      then ln_stop (picture_lane cfg) now By_draining w s else s)"
  have "same_jobs s (f s w) \<and> l_engine_status (f s w) = l_engine_status s" for s w
    using stop_work_of_same [of s By_draining w] by (auto simp: f_def picture_lane_def same_jobs_def)
  from foldl_same [of f s1, OF this] show ?thesis
    by (auto simp: close_def s1_def f_def Let_def same_jobs_def)
qed

lemma fall_asleep_same:
  "same_jobs s (fall_asleep (picture_lane cfg) now s) \<and>
   l_engine_status (fall_asleep (picture_lane cfg) now s) = l_engine_status s"
  using close_same [of "s\<lparr>l_sleep_requested := True, l_idle := None\<rparr>" cfg now]
  by (auto simp: fall_asleep_def Let_def same_jobs_def)

lemma idle_check_same:
  "same_jobs s (idle_check (picture_lane cfg) now s) \<and> l_engine_status (idle_check (picture_lane cfg) now s) = l_engine_status s"
  using fall_asleep_same [of s cfg now] by (auto simp: idle_check_def Let_def same_jobs_def)

lemma drain_deadline_same:
  "same_jobs s (drain_deadline (picture_lane cfg) now s) \<and>
   l_engine_status (drain_deadline (picture_lane cfg) now s) = l_engine_status s"
proof -
  have "same_jobs s (ln_stop (picture_lane cfg) now By_draining w s) \<and>
      l_engine_status (ln_stop (picture_lane cfg) now By_draining w s) = l_engine_status s" for s w
    using stop_work_of_same by (simp add: picture_lane_def)
  from foldl_same [of "\<lambda>s w. ln_stop (picture_lane cfg) now By_draining w s", OF this]
  show ?thesis by (auto simp: drain_deadline_def Let_def same_jobs_def)
qed

lemma engine_changes_same:
  "same_jobs s (engine_changes (picture_lane cfg) now s) \<and>
   (l_engine_status s \<noteq> Eng_starting \<longrightarrow> l_engine_status (engine_changes (picture_lane cfg) now s) \<noteq> Eng_starting) \<and>
   l_engine_status (engine_changes (picture_lane cfg) now s) \<in> {l_engine_status s, Eng_failed}"
proof -
  have "same_jobs s (ln_stop (picture_lane cfg) now By_engine_changed w s) \<and>
      l_engine_status (ln_stop (picture_lane cfg) now By_engine_changed w s) = l_engine_status s" for s w
    using stop_work_of_same by (simp add: picture_lane_def)
  from foldl_same [of "\<lambda>s w. ln_stop (picture_lane cfg) now By_engine_changed w s", OF this]
  show ?thesis by (auto simp: engine_changes_def Let_def same_jobs_def)
qed

subsection \<open>Unconfirmed stops\<close>

lemma look_again_class: "look_again i l u = Inr (Some v, r) \<Longrightarrow> un_cls v = un_cls u"
  by (auto simp: look_again_def split: sum.splits option.splits if_splits)

lemma resolve_stops_sub:
  "(i, v) \<in> set (fst (resolve_stops looks l)) \<Longrightarrow> \<exists>u. (i, u) \<in> set l \<and> un_cls v = un_cls u"
proof (induction looks l rule: resolve_stops.induct)
  case (2 looks k u rest)
  show ?case
  proof (cases "look_again k (looks k) u")
    case (Inl e)
    with 2(2) show ?thesis by auto
  next
    case (Inr p)
    obtain left r where p: "p = (left, r)" by (cases p)
    have "left = Some v \<and> i = k \<or> (i, v) \<in> set (fst (resolve_stops looks rest))"
      using 2(2) Inr p by (auto split: option.splits prod.splits)
    with 2(1) [OF Inr p [symmetric]] look_again_class [of k "looks k" u v r] Inr p show ?thesis by auto
  qed
qed simp

subsection \<open>The caps and the engine in every order\<close>

definition service_inv :: "picture_config \<Rightarrow> picture_service \<Rightarrow> bool" where
  "service_inv cfg s \<longleftrightarrow>
    (\<forall>c. int (card (held_ids c s)) \<le> pl_jobs (pc_limits cfg c)) \<and>
    (\<forall>f. p_fingerprint s = Some f \<longrightarrow> expected (pc_expect cfg) f) \<and>
    (l_engine_status s \<noteq> Eng_starting \<longrightarrow> p_fingerprint s \<noteq> None)"

lemma service_inv_same:
  assumes "service_inv cfg s" "same_jobs s s'" "l_engine_status s' \<noteq> Eng_starting \<longrightarrow> l_engine_status s \<noteq> Eng_starting"
  shows "service_inv cfg s'"
  using assms(1,3) same_jobs_held [OF assms(2)] assms(2) [unfolded same_jobs_def] by (simp add: service_inv_def)

lemma held_ids_set:
  "held_ids c s = (\<lambda>w. fst (the (owner_of s w))) ` set (filter (\<lambda>w. work_class s w = Some c) (l_work s)) \<union>
     fst ` set (filter (\<lambda>(_, u). un_cls u = c) (p_unresolved s))"
  by (force simp: held_ids_def work_class_def owner_of_def image_iff)

lemma finite_held_ids [simp]: "finite (held_ids c s)"
  by (simp add: held_ids_set)

lemma card_held_ids: "int (card (held_ids c s)) \<le> held_jobs c s"
proof -
  let ?a = "filter (\<lambda>w. work_class s w = Some c) (l_work s)" and ?b = "filter (\<lambda>(_, u). un_cls u = c) (p_unresolved s)"
  have "card (held_ids c s) \<le> card ((\<lambda>w. fst (the (owner_of s w))) ` set ?a) + card (fst ` set ?b)"
    unfolding held_ids_set by (rule card_Un_le)
  moreover have "card ((\<lambda>w. fst (the (owner_of s w))) ` set ?a) \<le> length ?a" "card (fst ` set ?b) \<le> length ?b"
    by (meson List.finite_set card_image_le card_length le_trans)+
  ultimately show ?thesis unfolding held_jobs_def by linarith
qed

lemma service_inv_shrinks:
  assumes "service_inv cfg s" "\<And>c. held_ids c s' \<subseteq> held_ids c s" "p_fingerprint s' = p_fingerprint s"
    "l_engine_status s' = l_engine_status s"
  shows "service_inv cfg s'"
proof -
  have "int (card (held_ids c s')) \<le> int (card (held_ids c s))" for c
    using card_mono [OF finite_held_ids assms(2)] by simp
  with assms(1,3,4) show ?thesis unfolding service_inv_def by (metis order_trans)
qed

lemma service_inv_accept:
  assumes i: "service_inv cfg s" and w: "w \<notin> set (l_work s)" and a: "accept_picture cfg w j s = Inr s'"
  shows "service_inv cfg s'"
proof -
  let ?c = "ca_cls (j_caller j)"
  from a have room: "held_jobs ?c s < pl_jobs (pc_limits cfg ?c)"
    and f: "l_work s' = List.insert w (l_work s)" "p_unresolved s' = p_unresolved s" "p_fingerprint s' = p_fingerprint s"
      "l_engine_status s' = l_engine_status s" "p_works s' = (p_works s)(w \<mapsto> \<lparr>pw_job = j, pw_task = None\<rparr>)"
    by (auto simp: accept_picture_def accept_Inr_iff)
  have o: "owner_of s' v = (if v = w then Some (j_id j, j_caller j) else owner_of s v)" for v
    by (simp add: f(5) owner_of_def job_of_def)
  have sub: "int (card (held_ids c s')) \<le> (if c = ?c then int (card (held_ids c s)) + 1 else int (card (held_ids c s)))" for c
  proof (cases "c = ?c")
    case True
    then have "held_ids c s' \<subseteq> insert (j_id j) (held_ids c s)"
      using w by (auto simp: held_ids_def o f(1,2) split: if_splits)
    then have "card (held_ids c s') \<le> card (insert (j_id j) (held_ids c s))" by (intro card_mono) simp_all
    also have "\<dots> \<le> Suc (card (held_ids c s))" by (simp add: card_insert_if)
    finally show ?thesis using True by simp
  next
    case False
    then have "held_ids c s' \<subseteq> held_ids c s" using w by (auto simp: held_ids_def o f(1,2) split: if_splits)
    then show ?thesis using card_mono [of "held_ids c s"] False by simp
  qed
  have "int (card (held_ids c s')) \<le> pl_jobs (pc_limits cfg c)" for c
  proof -
    have "int (card (held_ids c s)) \<le> pl_jobs (pc_limits cfg c)" using i by (simp add: service_inv_def)
    with sub [of c] room card_held_ids [of c s] show ?thesis by (cases "c = ?c") simp_all
  qed
  then show ?thesis using i by (simp add: service_inv_def f(3,4))
qed

lemma put_unresolved_in: "(i, u) \<in> set (put_unresolved k v l) \<Longrightarrow> i = k \<and> u = v \<or> (i, u) \<in> set l"
  by (auto simp: put_unresolved_def split: if_splits)

lemma service_inv_unresolved:
  assumes i: "service_inv cfg s" and w: "w \<in> set (l_work s)" "job_of s w = Some j"
  shows "service_inv cfg (unresolved_stop j s)"
proof (rule service_inv_shrinks [OF i])
  fix c
  have "owner_of s w = Some (j_id j, j_caller j)" using w(2) by (simp add: owner_of_def)
  with w(1) show "held_ids c (unresolved_stop j s) \<subseteq> held_ids c s"
    unfolding held_ids_def unresolved_stop_def by (auto dest!: put_unresolved_in)
qed (simp_all add: unresolved_stop_def)

lemma service_inv_check:
  assumes i: "service_inv cfg s"
  shows "service_inv cfg (check_engine cfg now stats looks attention s)"
proof (cases stats)
  case (Inl e)
  then show ?thesis using service_inv_same [OF i, of "check_failed s"]
    by (auto simp: check_engine_def check_failed_def same_jobs_def)
next
  case (Inr ob)
  obtain l ok where r: "resolve_stops looks (p_unresolved s) = (l, ok)" by fastforce
  define s1 where "s1 = s\<lparr>p_unresolved := l\<rparr>"
  have i1: "service_inv cfg s1"
  proof (rule service_inv_shrinks [OF i])
    show "held_ids c s1 \<subseteq> held_ids c s" for c
      using resolve_stops_sub [of _ _ looks "p_unresolved s"] r by (fastforce simp: held_ids_def s1_def)
  qed (simp_all add: s1_def)
  have f: "service_inv cfg (check_failed s1)"
    using service_inv_same [OF i1, of "check_failed s1"] by (auto simp: check_failed_def same_jobs_def)
  show ?thesis
  proof (cases "p_fingerprint s1")
    case None
    define s2 where "s2 = s1\<lparr>p_fingerprint := Some (fingerprint_of ob),
        p_attention := (case attention of Inr b \<Rightarrow> Some b | Inl _ \<Rightarrow> p_attention s1)\<rparr>"
    define s3 where "s3 = first_verified (picture_lane cfg) now s2"
    have s3: "same_jobs s2 s3"
      using idle_check_same [of "s2\<lparr>l_idle_since := now\<rparr>" cfg now] by (simp add: s3_def first_verified_def same_jobs_def)
    have "service_inv cfg (engine_ready s3)" if "expected (pc_expect cfg) (fingerprint_of ob)"
    proof -
      have "held_ids c (engine_ready s3) = held_ids c s1" for c
        using same_jobs_held [OF s3] by (simp add: held_ids_def engine_ready_def s2_def)
      moreover have "p_fingerprint (engine_ready s3) = Some (fingerprint_of ob)"
        using s3 by (simp add: engine_ready_def same_jobs_def s2_def)
      ultimately show ?thesis using i1 that by (simp add: service_inv_def)
    qed
    moreover have "check_engine cfg now stats looks attention s =
        (if \<not> ok then check_failed s1 else if \<not> expected (pc_expect cfg) (fingerprint_of ob) then s1
         else if attention = Inl Not_comfy then check_failed s1 else engine_ready s3)"
      unfolding check_engine_def Let_def s3_def s2_def s1_def using None [unfolded s1_def] by (simp add: Inr r)
    ultimately show ?thesis using i1 f by simp
  next
    case (Some known)
    have "service_inv cfg (engine_ready s1)"
      using i1 Some by (auto simp: service_inv_def engine_ready_def held_ids_def)
    moreover have "service_inv cfg (engine_changes (picture_lane cfg) now s1)"
    proof -
      have e: "same_jobs s1 (engine_changes (picture_lane cfg) now s1)" using engine_changes_same by blast
      from i1 Some same_jobs_held [OF e] e [unfolded same_jobs_def] show ?thesis by (simp add: service_inv_def)
    qed
    moreover have "check_engine cfg now stats looks attention s =
        (if \<not> ok then check_failed s1
         else if fingerprint_of ob \<noteq> known then engine_changes (picture_lane cfg) now s1 else engine_ready s1)"
      unfolding check_engine_def Let_def s1_def using Some [unfolded s1_def] by (simp add: Inr r)
    ultimately show ?thesis using f by simp
  qed
qed

lemma service_inv_step:
  assumes "picture_step cfg now s s'" "service_inv cfg s"
  shows "service_inv cfg s'"
  using assms
proof (induction rule: picture_step.induct)
  case (releases s w)
  show ?case by (rule service_inv_shrinks [OF releases]) (auto simp: release_def Let_def held_ids_def)
next
  case (hears s message epoch)
  have "same_jobs s (hear message epoch s) \<and> l_engine_status (hear message epoch s) = l_engine_status s"
    using same_jobs_set_job [of "hear_job message epoch" s]
    by (auto simp: hear_def keeps_owner_def hear_job_def same_jobs_def split: json.splits option.splits)
  with hears show ?case by (auto intro: service_inv_same)
next
  case (drains boot s s')
  with close_same [of s cfg now] show ?case by (auto simp: drain_Inr_iff intro: service_inv_same)
next
  case (sleeps boot s s')
  with fall_asleep_same [of s cfg now] show ?case by (auto simp: sleep_Inr_iff intro: service_inv_same)
next
  case (idles s)
  with idle_check_same [of s cfg now] show ?case by (auto intro: service_inv_same)
next
  case (deadlines s)
  with drain_deadline_same [of s cfg now] show ?case by (auto intro: service_inv_same)
next
  case (tasks s w t)
  with same_jobs_set_task [of s w t] show ?case by (auto intro: service_inv_same)
next
  case (moves f s w)
  with same_jobs_set_job [of f s w] show ?case by (auto intro: service_inv_same)
next
  case (sleeping s s')
  then have "same_jobs s s' \<and> l_engine_status s' = l_engine_status s"
    by (auto simp: sleep_then_stop_def same_jobs_def split: sleep_task.splits if_splits)
  with sleeping show ?case by (auto intro: service_inv_same)
next
  case (opens boot g s s')
  then have "same_jobs s s' \<and> l_engine_status s' = l_engine_status s" by (auto simp: open_service_Inr_iff same_jobs_def)
  with opens show ?case by (auto intro: service_inv_same)
next
  case (reads s began done_at r)
  have "same_jobs s (queue_read began done_at r s) \<and> l_engine_status (queue_read began done_at r s) = l_engine_status s"
    by (auto simp: queue_read_def same_jobs_def split: sum.splits)
  with reads show ?case by (auto intro: service_inv_same)
next
  case (begins s ca)
  have "same_jobs s (ours_begin ca s) \<and> l_engine_status (ours_begin ca s) = l_engine_status s"
    by (auto simp: ours_begin_def same_jobs_def)
  with begins show ?case by (auto intro: service_inv_same)
next
  case (ends s ca)
  have "same_jobs s (ours_end now ca s) \<and> l_engine_status (ours_end now ca s) = l_engine_status s"
    by (auto simp: ours_end_def same_jobs_def)
  with ends show ?case by (auto intro: service_inv_same)
next
  case (attends s r)
  have "same_jobs s (attention_read r s) \<and> l_engine_status (attention_read r s) = l_engine_status s"
    by (auto simp: attention_read_def same_jobs_def split: sum.splits)
  with attends show ?case by (auto intro: service_inv_same)
qed (auto simp: next_number_def Let_def same_jobs_def intro: service_inv_accept service_inv_unresolved service_inv_check service_inv_same)

lemma service_inv_reached:
  assumes "\<And>c. 0 \<le> pl_jobs (pc_limits cfg c)" "picture_reached cfg boot s"
  shows "service_inv cfg s"
  using assms(2)
proof (induction rule: picture_reached.induct)
  case start
  have "held_ids c (picture_service_init boot) = {}" for c
    by (simp add: held_ids_def picture_service_init_def lifecycle_init_def lifecycle.defs)
  then show ?case using assms(1) by (simp add: service_inv_def picture_service_init_def lifecycle_init_def lifecycle.defs)
qed (auto intro: service_inv_step)

text \<open>
  C28: In every state that the picture service can reach, the jobs of a class that may be on the card, those accepted and
  those whose stop is not confirmed, are within the cap of the class; and the service has left its start only with an
  engine that it verified: the versions and the backend that the configuration expects.
\<close>

theorem picture_caps_hold:
  assumes "load_pictures urlsplit document = Inr cfg" and "picture_reached cfg boot s"
  shows "int (card (held_ids c s)) \<le> pl_jobs (pc_limits cfg c) \<and>
    (l_engine_status s \<noteq> Eng_starting \<longrightarrow> (\<exists>f. p_fingerprint s = Some f \<and> expected (pc_expect cfg) f))"
proof -
  have "\<And>c. 0 \<le> pl_jobs (pc_limits cfg c)" using load_pictures_sound [OF assms(1)] by (simp add: picture_config_sound_def)
  from service_inv_reached [OF this assms(2)] show ?thesis by (auto simp: service_inv_def)
qed

theorem picture_caps_hold_witness:
  "\<exists>cfg. load_pictures sample_split (Inr sample_pictures) = Inr cfg \<and>
    int (card (held_ids Reader (snd (next_number Reader (picture_service_init ''boot''))))) \<le> pl_jobs (pc_limits cfg Reader)"
proof -
  obtain cfg where c: "load_pictures sample_split (Inr sample_pictures) = Inr cfg" using sample_pictures_load by blast
  have "picture_reached cfg ''boot'' (snd (next_number Reader (picture_service_init ''boot'')))"
    by (rule picture_reached.step [OF picture_reached.start picture_step.numbers])
  from picture_caps_hold [OF c this] c show ?thesis by blast
qed

end
