(* ===== verification/Picture_Uploads.thy ===== *)
theory Picture_Uploads
  imports Error_Codes Gateway_Config
begin

text \<open>
  A reader's references on the card, \<^verbatim>\<open>simple_serving/pictures/uploads.py\<close>: the names with their
  scopes and states, the sends and erasures that take turns under each name's lock, and the ten
  minutes after which a name is forgotten. A write to ComfyUI is three moments: it is sent, it may
  take effect on the card, and its answer comes or fails. An object of the class \<^verbatim>\<open>Upload\<close> is told
  from a later one of the same name by its number.
\<close>

subsection \<open>Names and writes\<close>

definition TTL_S :: rat where "TTL_S = 600"

datatype upload_state =
    Sending
  | Live
  | Stale
  | Erased

record upload =
  u_id :: nat
  u_scope :: string
  u_expires :: rat
  u_state :: upload_state
  u_generation :: nat

datatype write_kind =
    Send
  | Erase
  | Erase_expired

datatype write_phase =
    Queued
  | Flying bool

record upload_write =
  w_name :: string
  w_id :: nat
  w_scope :: string
  w_generation :: nat
  w_kind :: write_kind
  w_phase :: write_phase

text \<open>What ComfyUI holds under a name: the bytes of a scope's send, or the blank.\<close>

datatype content =
    Bytes string nat nat
  | Blank

record uploads =
  up_now :: rat
  up_map :: "string \<rightharpoonup> upload"
  up_next :: nat
  up_writes :: "nat \<rightharpoonup> upload_write"
  up_card :: "string \<rightharpoonup> content"

definition uploads_init :: uploads where
  "uploads_init = \<lparr>up_now = 0, up_map = Map.empty, up_next = 0, up_writes = Map.empty, up_card = Map.empty\<rparr>"

definition flying :: "upload_write \<Rightarrow> bool" where
  "flying w \<longleftrightarrow> w_phase w \<noteq> Queued"

text \<open>The lock of an object is held while a write of it is with ComfyUI.\<close>

definition locked :: "uploads \<Rightarrow> nat \<Rightarrow> bool" where
  "locked s i \<longleftrightarrow> (\<exists>k w. up_writes s k = Some w \<and> w_id w = i \<and> flying w)"

definition owns :: "uploads \<Rightarrow> string \<Rightarrow> string \<Rightarrow> bool" where
  "owns s scope name =
    (case up_map s name of None \<Rightarrow> False
     | Some u \<Rightarrow> u_scope u = scope \<and> u_state u = Live \<and> up_now s < u_expires u)"

definition counts_live :: "uploads \<Rightarrow> string \<Rightarrow> upload \<Rightarrow> bool" where
  "counts_live s scope u \<longleftrightarrow> u_scope u = scope \<and> u_state u \<noteq> Erased \<and> up_now s < u_expires u"

subsection \<open>The operations\<close>

text \<open>The name for a scope. Its lock is an argument, and so is the number of the scope's live uploads.\<close>

definition claim :: "int \<Rightarrow> bool \<Rightarrow> int \<Rightarrow> string \<Rightarrow> string \<Rightarrow> uploads \<Rightarrow> uploads result" where
  "claim cap is_locked live scope name s =
    (let known = (case up_map s name of None \<Rightarrow> None
           | Some u \<Rightarrow> if u_expires u \<le> up_now s \<and> \<not> is_locked then None else Some u)
     in case known of
          Some u \<Rightarrow>
            if u_scope u \<noteq> scope then Inl Not_found
            else Inr (s\<lparr>up_map := (up_map s)(name \<mapsto> u\<lparr>u_expires := up_now s + TTL_S\<rparr>)\<rparr>)
        | None \<Rightarrow>
            if live \<ge> cap then Inl Queue_full
            else Inr (s\<lparr>up_map := (up_map s)(name \<mapsto> \<lparr>u_id = up_next s, u_scope = scope, u_expires = up_now s + TTL_S,
                   u_state = Sending, u_generation = 0\<rparr>), up_next := Suc (up_next s)\<rparr>))"

definition live_uploads :: "uploads \<Rightarrow> string \<Rightarrow> int" where
  "live_uploads s scope = int (card {n. \<exists>u. up_map s n = Some u \<and> counts_live s scope u})"

definition is_locked_name :: "uploads \<Rightarrow> string \<Rightarrow> bool" where
  "is_locked_name s name = (case up_map s name of None \<Rightarrow> False | Some u \<Rightarrow> locked s (u_id u))"

text \<open>A write takes the next number, so writes that wait for one lock are in the order they came.\<close>

definition queue_write :: "write_kind \<Rightarrow> string \<Rightarrow> nat \<Rightarrow> string \<Rightarrow> nat \<Rightarrow> uploads \<Rightarrow> uploads" where
  "queue_write kind name i scope g s =
    s\<lparr>up_writes := (up_writes s)(up_next s \<mapsto>
        \<lparr>w_name = name, w_id = i, w_scope = scope, w_generation = g, w_kind = kind, w_phase = Queued\<rparr>),
      up_next := Suc (up_next s)\<rparr>"

text \<open>The claim, the next generation of the name, and its send.\<close>

definition put_upload :: "int \<Rightarrow> string \<Rightarrow> string \<Rightarrow> uploads \<Rightarrow> uploads result" where
  "put_upload cap scope name s =
    andthen (claim cap (is_locked_name s name) (live_uploads s scope) scope name s) (\<lambda>s1.
    case up_map s1 name of None \<Rightarrow> Inl Not_found
    | Some u \<Rightarrow>
        let v = u\<lparr>u_generation := Suc (u_generation u), u_state := Sending\<rparr>
        in Inr (queue_write Send name (u_id v) scope (u_generation v) (s1\<lparr>up_map := (up_map s1)(name \<mapsto> v)\<rparr>)))"

text \<open>The caller's own upload, erased.\<close>

definition erase_upload :: "string \<Rightarrow> string \<Rightarrow> uploads \<Rightarrow> uploads result" where
  "erase_upload scope name s =
    (case up_map s name of None \<Rightarrow> Inl Not_found
     | Some u \<Rightarrow> if u_scope u \<noteq> scope then Inl Not_found else Inr (queue_write Erase name (u_id u) scope (u_generation u) s))"

text \<open>The sweep takes each expired name with its generation as it starts.\<close>

definition sweep_upload :: "string \<Rightarrow> uploads \<Rightarrow> uploads" where
  "sweep_upload name s =
    (case up_map s name of None \<Rightarrow> s
     | Some u \<Rightarrow>
         if u_expires u \<le> up_now s then queue_write Erase_expired name (u_id u) (u_scope u) (u_generation u) s else s)"

text \<open>How a PUT ends: its send fails or succeeds before the client leaves, and then its answer completes
  or the client leaves; the second value is whether the name is erased afterwards.\<close>

datatype put_end =
    Put_answered
  | Put_refused error_code
  | Put_client_gone

definition put_ends :: "unit result option \<Rightarrow> bool \<Rightarrow> put_end \<times> bool" where
  "put_ends sent answered =
    (case sent of
       None \<Rightarrow> (Put_client_gone, True)
     | Some (Inl e) \<Rightarrow> (Put_refused e, True)
     | Some (Inr _) \<Rightarrow> if answered then (Put_answered, False) else (Put_client_gone, True))"

definition current :: "uploads \<Rightarrow> upload_write \<Rightarrow> bool" where
  "current s w =
    (case up_map s (w_name w) of None \<Rightarrow> False | Some u \<Rightarrow> u_id u = w_id w \<and> u_generation u = w_generation w)"

definition set_state :: "upload_write \<Rightarrow> upload_state \<Rightarrow> uploads \<Rightarrow> uploads" where
  "set_state w st s =
    (if current s w then s\<lparr>up_map := (up_map s)(w_name w := map_option (\<lambda>u. u\<lparr>u_state := st\<rparr>) (up_map s (w_name w)))\<rparr> else s)"

text \<open>The end of a write: the sweep then forgets a name that is still expired.\<close>

definition write_done :: "nat \<Rightarrow> upload_write \<Rightarrow> uploads \<Rightarrow> uploads" where
  "write_done k w s =
    (let s1 = s\<lparr>up_writes := (up_writes s)(k := None)\<rparr>
     in case (w_kind w, up_map s1 (w_name w)) of
          (Erase_expired, Some u) \<Rightarrow>
            if current s1 w \<and> u_expires u \<le> up_now s1 then s1\<lparr>up_map := (up_map s1)(w_name w := None)\<rparr> else s1
        | _ \<Rightarrow> s1)"

text \<open>A write whose turn it is: a send of a name that was reclaimed is not found, an erasure of bytes that
  were replaced, renewed or erased already is done, and any other goes to ComfyUI.\<close>

definition begin_write :: "nat \<Rightarrow> upload_write \<Rightarrow> uploads \<Rightarrow> uploads" where
  "begin_write k w s =
    (let go = s\<lparr>up_writes := (up_writes s)(k \<mapsto> w\<lparr>w_phase := Flying False\<rparr>)\<rparr>
     in case w_kind w of
          Send \<Rightarrow> (case up_map s (w_name w) of None \<Rightarrow> write_done k w s
            | Some u \<Rightarrow> if u_id u = w_id w then go else write_done k w s)
        | _ \<Rightarrow> (case up_map s (w_name w) of None \<Rightarrow> write_done k w s
            | Some u \<Rightarrow>
                if \<not> current s w \<or> w_kind w = Erase_expired \<and> u_expires u > up_now s \<or> u_state u = Erased
                then write_done k w s else go))"

definition written :: "upload_write \<Rightarrow> content" where
  "written w = (if w_kind w = Send then Bytes (w_scope w) (w_id w) (w_generation w) else Blank)"

definition take_effect :: "nat \<Rightarrow> upload_write \<Rightarrow> uploads \<Rightarrow> uploads" where
  "take_effect k w s =
    s\<lparr>up_card := (up_card s)(w_name w \<mapsto> written w), up_writes := (up_writes s)(k \<mapsto> w\<lparr>w_phase := Flying True\<rparr>)\<rparr>"

definition answer_write :: "nat \<Rightarrow> upload_write \<Rightarrow> bool \<Rightarrow> uploads \<Rightarrow> uploads" where
  "answer_write k w ok s =
    write_done k w (set_state w (if \<not> ok then Stale else if w_kind w = Send then Live else Erased) s)"

subsection \<open>Every order of operations\<close>

text \<open>
  Any operation may come next. A write begins when its lock is free, the sends of one name in the order
  of their PUTs (\<^verbatim>\<open>asyncio.Lock\<close> is fair); a write whose request failed has no effect afterwards.
\<close>

definition first_send :: "nat \<Rightarrow> upload_write \<Rightarrow> uploads \<Rightarrow> bool" where
  "first_send k w s \<longleftrightarrow>
    (w_kind w = Send \<longrightarrow> (\<forall>j v. up_writes s j = Some v \<longrightarrow> w_kind v = Send \<longrightarrow> w_id v = w_id w \<longrightarrow> k \<le> j))"

inductive up_step :: "uploads \<Rightarrow> uploads \<Rightarrow> bool" where
  tick: "up_now s \<le> t \<Longrightarrow> up_step s (s\<lparr>up_now := t\<rparr>)"
| put: "put_upload cap scope name s = Inr s' \<Longrightarrow> up_step s s'"
| erase: "erase_upload scope name s = Inr s' \<Longrightarrow> up_step s s'"
| abandon: "up_step s (queue_write Erase name i scope g s)"
| sweep: "up_step s (sweep_upload name s)"
| begins: "up_writes s k = Some w \<Longrightarrow> w_phase w = Queued \<Longrightarrow> \<not> locked s (w_id w) \<Longrightarrow> first_send k w s \<Longrightarrow>
    up_step s (begin_write k w s)"
| effect: "up_writes s k = Some w \<Longrightarrow> w_phase w = Flying False \<Longrightarrow> up_step s (take_effect k w s)"
| answers: "up_writes s k = Some w \<Longrightarrow> w_phase w = Flying True \<Longrightarrow> up_step s (answer_write k w True s)"
| fails: "up_writes s k = Some w \<Longrightarrow> flying w \<Longrightarrow> up_step s (answer_write k w False s)"

inductive up_reached :: "uploads \<Rightarrow> bool" where
  start: "up_reached uploads_init"
| step: "up_reached s \<Longrightarrow> up_step s s' \<Longrightarrow> up_reached s'"

subsection \<open>What a live name is\<close>

definition sends :: "uploads \<Rightarrow> nat \<Rightarrow> upload_write \<Rightarrow> bool" where
  "sends s k w \<longleftrightarrow> up_writes s k = Some w \<and> w_kind w = Send"

definition flies :: "uploads \<Rightarrow> nat \<Rightarrow> upload_write \<Rightarrow> bool" where
  "flies s k w \<longleftrightarrow> up_writes s k = Some w \<and> flying w"

text \<open>Bytes of its own scope's last send, or the blank of an erasure on its way.\<close>

definition holds_own :: "uploads \<Rightarrow> string \<Rightarrow> upload \<Rightarrow> bool" where
  "holds_own s n u \<longleftrightarrow>
    up_card s n = Some (Bytes (u_scope u) (u_id u) (u_generation u)) \<or>
    up_card s n = Some Blank \<and>
      (\<exists>k w. up_writes s k = Some w \<and> w_id w = u_id u \<and> w_kind w \<noteq> Send \<and> w_phase w = Flying True)"

text \<open>Numbers are fresh, and an object has one name.\<close>

definition numbers_ok :: "uploads \<Rightarrow> bool" where
  "numbers_ok s \<longleftrightarrow>
    (\<forall>k w. up_writes s k = Some w \<longrightarrow> k < up_next s) \<and>
    (\<forall>k w. sends s k w \<longrightarrow> w_id w < up_next s) \<and>
    (\<forall>n u. up_map s n = Some u \<longrightarrow> u_id u < up_next s) \<and>
    (\<forall>n m u v. up_map s n = Some u \<longrightarrow> up_map s m = Some v \<longrightarrow> u_id u = u_id v \<longrightarrow> n = m)"

text \<open>A send belongs to its object, is of one of its generations, and none is left once the name is live.\<close>

definition sends_ok :: "uploads \<Rightarrow> bool" where
  "sends_ok s \<longleftrightarrow>
    (\<forall>k w n u. sends s k w \<longrightarrow> up_map s n = Some u \<longrightarrow> u_id u = w_id w \<longrightarrow>
       n = w_name w \<and> w_scope w = u_scope u \<and> w_generation w \<le> u_generation u \<and> u_state u \<noteq> Live) \<and>
    (\<forall>j k v w. sends s j v \<longrightarrow> sends s k w \<longrightarrow> w_id v = w_id w \<longrightarrow> j < k \<longrightarrow> w_generation v < w_generation w)"

text \<open>One write of an object flies at a time, the oldest of its sends, and the object is still the name's.\<close>

definition flights_ok :: "uploads \<Rightarrow> bool" where
  "flights_ok s \<longleftrightarrow>
    (\<forall>k w. flies s k w \<longrightarrow> (\<exists>u. up_map s (w_name w) = Some u \<and> u_id u = w_id w)) \<and>
    (\<forall>j k v w. flies s j v \<longrightarrow> flies s k w \<longrightarrow> w_id v = w_id w \<longrightarrow> j = k) \<and>
    (\<forall>j k v w. sends s j v \<longrightarrow> sends s k w \<longrightarrow> flying w \<longrightarrow> w_id v = w_id w \<longrightarrow> k \<le> j) \<and>
    (\<forall>k w. sends s k w \<longrightarrow> w_phase w = Flying True \<longrightarrow> up_card s (w_name w) = Some (written w))"

definition live_ok :: "uploads \<Rightarrow> bool" where
  "live_ok s \<longleftrightarrow>
    (\<forall>n u. up_map s n = Some u \<longrightarrow> u_state u = Live \<longrightarrow>
       holds_own s n u \<and> (\<forall>k w. flies s k w \<longrightarrow> w_id w = u_id u \<longrightarrow> w_generation w = u_generation u))"

definition up_inv :: "uploads \<Rightarrow> bool" where
  "up_inv s \<longleftrightarrow> numbers_ok s \<and> sends_ok s \<and> flights_ok s \<and> live_ok s"

lemmas up_inv_defs = up_inv_def numbers_ok_def sends_ok_def flights_ok_def live_ok_def
lemmas write_defs = sends_def flies_def flying_def holds_own_def

lemma up_inv_init: "up_inv uploads_init"
  by (simp add: up_inv_defs write_defs uploads_init_def)

lemma up_invI:
  assumes "\<And>k w. up_writes s k = Some w \<Longrightarrow> k < up_next s" "\<And>k w. sends s k w \<Longrightarrow> w_id w < up_next s"
    "\<And>n u. up_map s n = Some u \<Longrightarrow> u_id u < up_next s"
    "\<And>n m u v. up_map s n = Some u \<Longrightarrow> up_map s m = Some v \<Longrightarrow> u_id u = u_id v \<Longrightarrow> n = m"
    "\<And>k w n u. sends s k w \<Longrightarrow> up_map s n = Some u \<Longrightarrow> u_id u = w_id w \<Longrightarrow>
       n = w_name w \<and> w_scope w = u_scope u \<and> w_generation w \<le> u_generation u \<and> u_state u \<noteq> Live"
    "\<And>j k v w. sends s j v \<Longrightarrow> sends s k w \<Longrightarrow> w_id v = w_id w \<Longrightarrow> j < k \<Longrightarrow> w_generation v < w_generation w"
    "\<And>k w. flies s k w \<Longrightarrow> \<exists>u. up_map s (w_name w) = Some u \<and> u_id u = w_id w"
    "\<And>j k v w. flies s j v \<Longrightarrow> flies s k w \<Longrightarrow> w_id v = w_id w \<Longrightarrow> j = k"
    "\<And>j k v w. sends s j v \<Longrightarrow> sends s k w \<Longrightarrow> flying w \<Longrightarrow> w_id v = w_id w \<Longrightarrow> k \<le> j"
    "\<And>k w. sends s k w \<Longrightarrow> w_phase w = Flying True \<Longrightarrow> up_card s (w_name w) = Some (written w)"
    "\<And>n u. up_map s n = Some u \<Longrightarrow> u_state u = Live \<Longrightarrow> holds_own s n u"
    "\<And>n u k w. up_map s n = Some u \<Longrightarrow> u_state u = Live \<Longrightarrow> flies s k w \<Longrightarrow> w_id w = u_id u \<Longrightarrow> w_generation w = u_generation u"
  shows "up_inv s"
proof -
  have "numbers_ok s" unfolding numbers_ok_def using assms(1-4) by blast
  moreover have "sends_ok s" unfolding sends_ok_def using assms(5,6) by blast
  moreover have "flights_ok s" unfolding flights_ok_def using assms(7-10) by (intro conjI) blast+
  moreover have "live_ok s" unfolding live_ok_def using assms(11,12) by blast
  ultimately show ?thesis unfolding up_inv_def by blast
qed

lemma fresh_write: "up_inv s \<Longrightarrow> up_writes s k = Some w \<Longrightarrow> k < up_next s"
  by (simp add: up_inv_def numbers_ok_def)

lemma fresh_object: "up_inv s \<Longrightarrow> sends s k w \<Longrightarrow> w_id w < up_next s"
  by (simp add: up_inv_def numbers_ok_def)

lemma fresh_name: "up_inv s \<Longrightarrow> up_map s n = Some u \<Longrightarrow> u_id u < up_next s"
  by (simp add: up_inv_def numbers_ok_def)

lemma one_name: "up_inv s \<Longrightarrow> up_map s n = Some u \<Longrightarrow> up_map s m = Some v \<Longrightarrow> u_id u = u_id v \<Longrightarrow> n = m"
  unfolding up_inv_def numbers_ok_def by blast

lemma send_object:
  "up_inv s \<Longrightarrow> sends s k w \<Longrightarrow> up_map s n = Some u \<Longrightarrow> u_id u = w_id w \<Longrightarrow>
    n = w_name w \<and> w_scope w = u_scope u \<and> w_generation w \<le> u_generation u \<and> u_state u \<noteq> Live"
  unfolding up_inv_def sends_ok_def by blast

lemma send_order:
  "up_inv s \<Longrightarrow> sends s j v \<Longrightarrow> sends s k w \<Longrightarrow> w_id v = w_id w \<Longrightarrow> j < k \<Longrightarrow> w_generation v < w_generation w"
  unfolding up_inv_def sends_ok_def by blast

lemma flight_object: "up_inv s \<Longrightarrow> flies s k w \<Longrightarrow> \<exists>u. up_map s (w_name w) = Some u \<and> u_id u = w_id w"
  unfolding up_inv_def flights_ok_def by blast

lemma one_flight: "up_inv s \<Longrightarrow> flies s j v \<Longrightarrow> flies s k w \<Longrightarrow> w_id v = w_id w \<Longrightarrow> j = k"
  unfolding up_inv_def flights_ok_def by blast

lemma oldest_flies:
  "up_inv s \<Longrightarrow> sends s j v \<Longrightarrow> sends s k w \<Longrightarrow> flying w \<Longrightarrow> w_id v = w_id w \<Longrightarrow> k \<le> j"
  unfolding up_inv_def flights_ok_def by blast

lemma send_effect:
  "up_inv s \<Longrightarrow> sends s k w \<Longrightarrow> w_phase w = Flying True \<Longrightarrow> up_card s (w_name w) = Some (written w)"
  by (simp add: up_inv_def flights_ok_def)

lemma live_holds: "up_inv s \<Longrightarrow> up_map s n = Some u \<Longrightarrow> u_state u = Live \<Longrightarrow> holds_own s n u"
  by (simp add: up_inv_def live_ok_def)

lemma live_flight:
  "up_inv s \<Longrightarrow> up_map s n = Some u \<Longrightarrow> u_state u = Live \<Longrightarrow> flies s k w \<Longrightarrow> w_id w = u_id u \<Longrightarrow>
    w_generation w = u_generation u"
  unfolding up_inv_def live_ok_def by blast

lemmas writes_inv = fresh_write fresh_object send_order one_flight oldest_flies send_effect

lemmas up_invD = writes_inv fresh_name one_name send_object flight_object live_holds live_flight

lemma writes_unmoved [simp]:
  "sends (s\<lparr>up_now := t\<rparr>) = sends s" "flies (s\<lparr>up_now := t\<rparr>) = flies s" "holds_own (s\<lparr>up_now := t\<rparr>) = holds_own s"
  "sends (s\<lparr>up_map := m\<rparr>) = sends s" "flies (s\<lparr>up_map := m\<rparr>) = flies s" "holds_own (s\<lparr>up_map := m\<rparr>) = holds_own s"
  "sends (s\<lparr>up_next := i\<rparr>) = sends s" "flies (s\<lparr>up_next := i\<rparr>) = flies s" "holds_own (s\<lparr>up_next := i\<rparr>) = holds_own s"
  by (simp_all add: fun_eq_iff sends_def flies_def holds_own_def)

lemma map_updates:
  "up_map (s\<lparr>up_map := m\<rparr>) = m" "up_map (s\<lparr>up_next := i\<rparr>) = up_map s" "up_next (s\<lparr>up_map := m\<rparr>) = up_next s"
  "up_next (s\<lparr>up_next := i\<rparr>) = i" "up_writes (s\<lparr>up_map := m\<rparr>) = up_writes s" "up_writes (s\<lparr>up_next := i\<rparr>) = up_writes s"
  "up_card (s\<lparr>up_map := m\<rparr>) = up_card s" "up_card (s\<lparr>up_next := i\<rparr>) = up_card s"
  by simp_all

lemma up_inv_tick: "up_inv s \<Longrightarrow> up_inv (s\<lparr>up_now := t\<rparr>)"
  by (simp add: up_inv_defs)

text \<open>A change of a name's object that keeps what the writes rely on: its number and scope, a generation that
  does not shrink, and what a live name is.\<close>

lemma up_inv_change:
  assumes i: "up_inv s" and u: "up_map s n = Some u" and v: "u_id v = u_id u" "u_scope v = u_scope u" "u_generation u \<le> u_generation v"
    and l: "u_state v = Live \<Longrightarrow> holds_own s n v \<and> (\<forall>k w. sends s k w \<longrightarrow> w_id w \<noteq> u_id u) \<and>
      (\<forall>k w. flies s k w \<longrightarrow> w_id w = u_id u \<longrightarrow> w_generation w = u_generation v)"
  shows "up_inv (s\<lparr>up_map := (up_map s)(n \<mapsto> v)\<rparr>)"
proof -
  have m: "\<exists>u'. up_map s m = Some u' \<and> u_id v' = u_id u' \<and> u_scope v' = u_scope u' \<and> u_generation u' \<le> u_generation v' \<and>
      (v' = u' \<or> m = n \<and> v' = v)"
    if "((up_map s)(n \<mapsto> v)) m = Some v'" for m v'
    using that u v by (auto split: if_splits)
  show ?thesis
  proof (rule up_invI, unfold writes_unmoved map_updates)
    show "u_id u < up_next s" if "((up_map s)(n \<mapsto> v)) m = Some u" for m u
      using m [OF that] fresh_name [OF i] by auto
    show "x = y" if "((up_map s)(n \<mapsto> v)) x = Some a" "((up_map s)(n \<mapsto> v)) y = Some b" "u_id a = u_id b" for x y a b
      using m [OF that(1)] m [OF that(2)] one_name [OF i] that(3) by metis
    show "x = w_name w \<and> w_scope w = u_scope a \<and> w_generation w \<le> u_generation a \<and> u_state a \<noteq> Live"
      if "sends s k w" "((up_map s)(n \<mapsto> v)) x = Some a" "u_id a = w_id w" for k w x a
      using m [OF that(2)] send_object [OF i that(1)] that(1,3) l v(1) by (metis le_trans)
    show "\<exists>a. ((up_map s)(n \<mapsto> v)) (w_name w) = Some a \<and> u_id a = w_id w" if "flies s k w" for k w
      using flight_object [OF i that] u v(1) by auto
    show "holds_own s x a" if "((up_map s)(n \<mapsto> v)) x = Some a" "u_state a = Live" for x a
      using m [OF that(1)] l live_holds [OF i] that(2) by metis
    show "w_generation w = u_generation a"
      if "((up_map s)(n \<mapsto> v)) x = Some a" "u_state a = Live" "flies s k w" "w_id w = u_id a" for x a k w
      using m [OF that(1)] live_flight [OF i] l v(1) that(2-4) by metis
  qed (use writes_inv [OF i] in blast)+
qed

lemma up_inv_forget:
  assumes i: "up_inv s" and f: "\<And>u k w. up_map s n = Some u \<Longrightarrow> flies s k w \<Longrightarrow> w_id w \<noteq> u_id u"
  shows "up_inv (s\<lparr>up_map := (up_map s)(n := None)\<rparr>)"
proof -
  have w: "w_name w \<noteq> n" if "flies s k w" for k w
    using f flight_object [OF i that] that by metis
  define f where "f = (up_map s)(n := None)"
  have m: "up_map s m = Some u" if "f m = Some u" for m u
    using that by (simp add: f_def split: if_splits)
  have "up_inv (s\<lparr>up_map := f\<rparr>)"
  proof (rule up_invI, unfold writes_unmoved map_updates)
    show "\<exists>a. f (w_name x) = Some a \<and> u_id a = w_id x" if "flies s k x" for k x
      using flight_object [OF i that] w [OF that] by (simp add: f_def)
    show "x = w_name w \<and> w_scope w = u_scope a \<and> w_generation w \<le> u_generation a \<and> u_state a \<noteq> Live"
      if "sends s k w" "f x = Some a" "u_id a = w_id w" for k w x a
      by (rule send_object [OF i that(1) m [OF that(2)] that(3)])
    show "x = y" if "f x = Some a" "f y = Some b" "u_id a = u_id b" for x y a b
      by (rule one_name [OF i m [OF that(1)] m [OF that(2)] that(3)])
    show "u_id a < up_next s" if "f x = Some a" for x a by (rule fresh_name [OF i m [OF that]])
    show "holds_own s x a" if "f x = Some a" "u_state a = Live" for x a by (rule live_holds [OF i m [OF that(1)] that(2)])
    show "w_generation w = u_generation a" if "f x = Some a" "u_state a = Live" "flies s k w" "w_id w = u_id a" for x a k w
      by (rule live_flight [OF i m [OF that(1)] that(2-4)])
  qed (use writes_inv [OF i] in blast)+
  then show ?thesis by (simp only: f_def)
qed

lemma up_inv_new:
  assumes i: "up_inv s" and f: "up_map s n = None" and v: "u_id v = up_next s" "u_state v = Sending"
  shows "up_inv (s\<lparr>up_map := (up_map s)(n \<mapsto> v), up_next := Suc (up_next s)\<rparr>)"
proof -
  have m: "u = v \<and> m = n \<or> up_map s m = Some u \<and> m \<noteq> n \<and> u_id u < up_next s" if "((up_map s)(n \<mapsto> v)) m = Some u" for m u
    using that fresh_name [OF i] by (auto split: if_splits)
  show ?thesis
  proof (rule up_invI, unfold writes_unmoved map_updates)
    show "u_id a < Suc (up_next s)" if "((up_map s)(n \<mapsto> v)) x = Some a" for x a
      using m [OF that] v(1) by auto
    show "x = y" if "((up_map s)(n \<mapsto> v)) x = Some a" "((up_map s)(n \<mapsto> v)) y = Some b" "u_id a = u_id b" for x y a b
      using m [OF that(1)] m [OF that(2)] one_name [OF i] that(3) v(1) by auto
    show "x = w_name w \<and> w_scope w = u_scope a \<and> w_generation w \<le> u_generation a \<and> u_state a \<noteq> Live"
      if "sends s k w" "((up_map s)(n \<mapsto> v)) x = Some a" "u_id a = w_id w" for k w x a
      using m [OF that(2)] send_object [OF i that(1)] fresh_object [OF i that(1)] that(3) v(1) by auto
    show "\<exists>a. ((up_map s)(n \<mapsto> v)) (w_name w) = Some a \<and> u_id a = w_id w" if "flies s k w" for k w
      using flight_object [OF i that] f by auto
    show "holds_own s x a" if "((up_map s)(n \<mapsto> v)) x = Some a" "u_state a = Live" for x a
      using m [OF that(1)] live_holds [OF i] that(2) v(2) by auto
    show "w_generation w = u_generation a"
      if "((up_map s)(n \<mapsto> v)) x = Some a" "u_state a = Live" "flies s k w" "w_id w = u_id a" for x a k w
      using m [OF that(1)] live_flight [OF i] that(2-4) v(2) by auto
  qed (use writes_inv [OF i] less_SucI in blast)+
qed

lemma write_updates:
  "up_map (s\<lparr>up_writes := x\<rparr>) = up_map s" "up_next (s\<lparr>up_writes := x\<rparr>) = up_next s" "up_card (s\<lparr>up_writes := x\<rparr>) = up_card s"
  "up_writes (s\<lparr>up_writes := x\<rparr>) = x" "up_card (s\<lparr>up_card := c\<rparr>) = c" "up_writes (s\<lparr>up_card := c\<rparr>) = up_writes s"
  "up_map (s\<lparr>up_card := c\<rparr>) = up_map s" "up_next (s\<lparr>up_card := c\<rparr>) = up_next s"
  by simp_all

lemma up_inv_queue:
  assumes i: "up_inv s"
    and snd: "kind = Send \<Longrightarrow> (\<exists>u. up_map s name = Some u \<and> u_id u = i \<and> u_scope u = scope \<and> u_generation u = g \<and> u_state u \<noteq> Live) \<and>
      (\<forall>k w. sends s k w \<longrightarrow> w_id w = i \<longrightarrow> w_generation w < g)"
  shows "up_inv (queue_write kind name i scope g s)"
proof -
  define new where "new = \<lparr>w_name = name, w_id = i, w_scope = scope, w_generation = g, w_kind = kind, w_phase = Queued\<rparr>"
  define t where "t = queue_write kind name i scope g s"
  have t: "up_map t = up_map s" "up_next t = Suc (up_next s)" "up_card t = up_card s"
    "up_writes t = (up_writes s)(up_next s \<mapsto> new)"
    by (simp_all add: t_def queue_write_def new_def)
  have f: "flies t k w \<Longrightarrow> flies s k w" for k w
    by (auto simp: flies_def t new_def flying_def split: if_splits)
  have n: "up_writes s (up_next s) = None"
    using fresh_write [OF i] by (cases "up_writes s (up_next s)") auto
  have sd: "sends t k w \<Longrightarrow> sends s k w \<and> k < up_next s \<or> k = up_next s \<and> w = new \<and> kind = Send" for k w
    using fresh_write [OF i] by (auto simp: sends_def t new_def split: if_splits)
  have h: "holds_own t x u" if "holds_own s x u" for x u
  proof -
    have "\<exists>k w. up_writes t k = Some w \<and> w_id w = u_id u \<and> w_kind w \<noteq> Send \<and> w_phase w = Flying True"
      if "up_writes s k = Some w" "w_id w = u_id u \<and> w_kind w \<noteq> Send \<and> w_phase w = Flying True" for k w
      using that n by (intro exI [of _ k] exI [of _ w]) (auto simp: t)
    with that show ?thesis unfolding holds_own_def t by blast
  qed
  have "up_inv t"
  proof (rule up_invI)
    show "k < up_next t" if "up_writes t k = Some w" for k w
      using that fresh_write [OF i] by (auto simp: t less_SucI split: if_splits)
    show "w_id w < up_next t" if "sends t k w" for k w
      using sd [OF that] fresh_object [OF i] fresh_name [OF i] snd by (auto simp: t new_def less_SucI)
    show "u_id u < up_next t" if "up_map t x = Some u" for x u
      using that fresh_name [OF i] by (simp add: t less_SucI)
    show "x = w_name w \<and> w_scope w = u_scope u \<and> w_generation w \<le> u_generation u \<and> u_state u \<noteq> Live"
      if "sends t k w" "up_map t x = Some u" "u_id u = w_id w" for k w x u
    proof (cases "sends s k w")
      case True
      then show ?thesis using send_object [OF i] that(2,3) by (simp add: t)
    next
      case False
      with sd [OF that(1)] have w: "w = new" and k: "kind = Send" by auto
      from snd [OF k] obtain u' where u': "up_map s name = Some u'" "u_id u' = i" "u_scope u' = scope" "u_generation u' = g" "u_state u' \<noteq> Live"
        by blast
      moreover have "x = name" using one_name [OF i _ u'(1)] that(2,3) u'(2) by (simp add: w new_def t)
      ultimately show ?thesis using that(2) by (simp add: w new_def t)
    qed
    show "w_generation v < w_generation w" if "sends t j v" "sends t k w" "w_id v = w_id w" "j < k" for j k v w
      using sd [OF that(1)] sd [OF that(2)] snd send_order [OF i] that(3,4) by (auto simp: new_def)
    show "k \<le> j" if "sends t j v" "sends t k w" "flying w" "w_id v = w_id w" for j k v w
      using sd [OF that(1)] sd [OF that(2)] oldest_flies [OF i _ _ that(3,4)] that(3) by (auto simp: new_def flying_def)
    show "up_card t (w_name w) = Some (written w)" if "sends t k w" "w_phase w = Flying True" for k w
      using sd [OF that(1)] send_effect [OF i] that(2) by (auto simp: new_def t)
    show "\<exists>u. up_map t (w_name w) = Some u \<and> u_id u = w_id w" if "flies t k w" for k w
      using flight_object [OF i f [OF that]] by (simp add: t)
    show "j = k" if "flies t j v" "flies t k w" "w_id v = w_id w" for j k v w
      by (rule one_flight [OF i f [OF that(1)] f [OF that(2)] that(3)])
    show "holds_own t x u" if "up_map t x = Some u" "u_state u = Live" for x u
      using that h live_holds [OF i] by (simp add: t)
    show "w_generation w = u_generation u" if "up_map t x = Some u" "u_state u = Live" "flies t k w" "w_id w = u_id u" for x u k w
      using live_flight [OF i _ that(2) f [OF that(3)] that(4)] that(1) by (simp add: t)
    show "x = y" if "up_map t x = Some u" "up_map t y = Some v" "u_id u = u_id v" for x y u v
      using one_name [OF i] that by (simp add: t)
  qed
  then show ?thesis by (simp only: t_def)
qed

text \<open>A write that is over, and one that goes to ComfyUI.\<close>

lemma up_inv_remove:
  assumes i: "up_inv s"
    and k: "\<And>w n u. flies s k w \<Longrightarrow> up_map s n = Some u \<Longrightarrow> u_state u = Live \<Longrightarrow> u_id u = w_id w \<Longrightarrow> w_kind w = Send"
  shows "up_inv (s\<lparr>up_writes := (up_writes s)(k := None)\<rparr>)"
proof -
  define t where "t = s\<lparr>up_writes := (up_writes s)(k := None)\<rparr>"
  have t: "up_map t = up_map s" "up_next t = up_next s" "up_card t = up_card s" by (simp_all add: t_def)
  have w: "up_writes t j = Some w \<longleftrightarrow> up_writes s j = Some w \<and> j \<noteq> k" for j w by (auto simp: t_def)
  have m: "sends t j w \<Longrightarrow> sends s j w" "flies t j w \<Longrightarrow> flies s j w" for j w
    by (auto simp: sends_def flies_def w)
  have h: "holds_own t x u" if "up_map s x = Some u" "u_state u = Live" "holds_own s x u" for x u
    using k [OF _ that(1,2)] that(3) unfolding holds_own_def t w flies_def flying_def by (metis write_phase.distinct(1))
  have "up_inv t"
  proof (rule up_invI, unfold t w)
    show "j < up_next s" if "up_writes s j = Some v \<and> j \<noteq> k" for j v using fresh_write [OF i] that by blast
    show "w_id v < up_next s" if "sends t j v" for j v by (rule fresh_object [OF i m(1) [OF that]])
    show "x = w_name v \<and> w_scope v = u_scope u \<and> w_generation v \<le> u_generation u \<and> u_state u \<noteq> Live"
      if "sends t j v" "up_map s x = Some u" "u_id u = w_id v" for j v x u
      by (rule send_object [OF i m(1) [OF that(1)] that(2,3)])
    show "w_generation v < w_generation v'" if "sends t j v" "sends t j' v'" "w_id v = w_id v'" "j < j'" for j j' v v'
      by (rule send_order [OF i m(1) [OF that(1)] m(1) [OF that(2)] that(3,4)])
    show "\<exists>u. up_map s (w_name v) = Some u \<and> u_id u = w_id v" if "flies t j v" for j v
      by (rule flight_object [OF i m(2) [OF that]])
    show "j = j'" if "flies t j v" "flies t j' v'" "w_id v = w_id v'" for j j' v v'
      by (rule one_flight [OF i m(2) [OF that(1)] m(2) [OF that(2)] that(3)])
    show "j' \<le> j" if "sends t j v" "sends t j' v'" "flying v'" "w_id v = w_id v'" for j j' v v'
      by (rule oldest_flies [OF i m(1) [OF that(1)] m(1) [OF that(2)] that(3,4)])
    show "up_card s (w_name v) = Some (written v)" if "sends t j v" "w_phase v = Flying True" for j v
      by (rule send_effect [OF i m(1) [OF that(1)] that(2)])
    show "holds_own t x u" if "up_map s x = Some u" "u_state u = Live" for x u
      by (rule h [OF that live_holds [OF i that]])
    show "w_generation v = u_generation u" if "up_map s x = Some u" "u_state u = Live" "flies t j v" "w_id v = u_id u" for x u j v
      by (rule live_flight [OF i that(1,2) m(2) [OF that(3)] that(4)])
  qed (use fresh_name [OF i] one_name [OF i] in blast)+
  then show ?thesis by (simp only: t_def)
qed

text \<open>What a step of one write leaves of the others.\<close>

lemma phase_change:
  assumes w: "up_writes s k = Some w" and t: "up_writes t = (up_writes s)(k \<mapsto> w\<lparr>w_phase := p\<rparr>)"
  shows "up_writes t j = Some v \<Longrightarrow> \<exists>v'. up_writes s j = Some v' \<and> (j \<noteq> k \<and> v = v' \<or> j = k \<and> v' = w \<and> v = w\<lparr>w_phase := p\<rparr>)"
    and "sends t j v \<Longrightarrow> \<exists>v'. sends s j v' \<and> (j \<noteq> k \<and> v = v' \<or> j = k \<and> v' = w \<and> v = w\<lparr>w_phase := p\<rparr>)"
    and "flies t j v \<Longrightarrow> j \<noteq> k \<and> flies s j v \<or> j = k \<and> v = w\<lparr>w_phase := p\<rparr>"
  using w t by (auto simp: sends_def flies_def split: if_splits)

lemma up_inv_go:
  assumes i: "up_inv s" and w: "up_writes s k = Some w" "w_phase w = Queued" "\<not> locked s (w_id w)" "first_send k w s"
    and u: "up_map s (w_name w) = Some u" "u_id u = w_id w" "w_kind w \<noteq> Send \<Longrightarrow> u_generation u = w_generation w"
  shows "up_inv (s\<lparr>up_writes := (up_writes s)(k \<mapsto> w\<lparr>w_phase := Flying False\<rparr>)\<rparr>)"
proof -
  define t where "t = s\<lparr>up_writes := (up_writes s)(k \<mapsto> w\<lparr>w_phase := Flying False\<rparr>)\<rparr>"
  have t: "up_map t = up_map s" "up_next t = up_next s" "up_card t = up_card s"
    "up_writes t = (up_writes s)(k \<mapsto> w\<lparr>w_phase := Flying False\<rparr>)" by (simp_all add: t_def)
  note c = phase_change [OF w(1) t(4)]
  have l: "w_id v \<noteq> w_id w" if "flies s j v" for j v using w(3) that by (auto simp: locked_def flies_def)
  have n: "\<not> flying w" using w(2) by (simp add: flying_def)
  have h: "holds_own t x a" if "holds_own s x a" for x a
    using that w(1,2) unfolding holds_own_def t by (metis fun_upd_apply option.inject write_phase.distinct(1))
  have "up_inv t"
  proof (rule up_invI)
    show "j < up_next t" if "up_writes t j = Some v" for j v using c(1) [OF that] fresh_write [OF i] by (auto simp: t)
    show "w_id v < up_next t" if "sends t j v" for j v using c(2) [OF that] fresh_object [OF i] by (auto simp: t)
    show "x = w_name v \<and> w_scope v = u_scope a \<and> w_generation v \<le> u_generation a \<and> u_state a \<noteq> Live"
      if "sends t j v" "up_map t x = Some a" "u_id a = w_id v" for j v x a
      using c(2) [OF that(1)] send_object [OF i] that(2,3) by (auto simp: t)
    show "w_generation v < w_generation v'" if "sends t j v" "sends t j' v'" "w_id v = w_id v'" "j < j'" for j j' v v'
      using c(2) [OF that(1)] c(2) [OF that(2)] send_order [OF i _ _ _ that(4)] that(3,4) by auto
    show "\<exists>u. up_map t (w_name v) = Some u \<and> u_id u = w_id v" if "flies t j v" for j v
      using c(3) [OF that] flight_object [OF i] u by (auto simp: t)
    show "j = j'" if "flies t j v" "flies t j' v'" "w_id v = w_id v'" for j j' v v'
      using c(3) [OF that(1)] c(3) [OF that(2)] one_flight [OF i _ _ that(3)] l [of j v] l [of j' v'] that(3) by auto
    show "j' \<le> j" if "sends t j v" "sends t j' v'" "flying v'" "w_id v = w_id v'" for j j' v v'
      using c(2) [OF that(1)] c(2) [OF that(2)] oldest_flies [OF i] w(4) n that(3,4)
      by (auto simp: first_send_def sends_def)
    show "up_card t (w_name v) = Some (written v)" if "sends t j v" "w_phase v = Flying True" for j v
      using c(2) [OF that(1)] send_effect [OF i] that(2) by (auto simp: t)
    show "holds_own t x a" if "up_map t x = Some a" "u_state a = Live" for x a
      using h live_holds [OF i] that by (simp add: t)
    show "w_generation v = u_generation a" if "up_map t x = Some a" "u_state a = Live" "flies t j v" "w_id v = u_id a" for x a j v
    proof -
      have "w_generation w = u_generation a" if "w_id w = u_id a"
      proof -
        have "x = w_name w" using one_name [OF i _ u(1)] \<open>up_map t x = Some a\<close> that u(2) by (simp add: t)
        then have "a = u" using \<open>up_map t x = Some a\<close> u(1) by (simp add: t)
        moreover have "w_kind w \<noteq> Send"
          using send_object [OF i _ u(1,2)] w(1) \<open>u_state a = Live\<close> calculation by (auto simp: sends_def)
        ultimately show ?thesis using u(3) by simp
      qed
      with c(3) [OF that(3)] live_flight [OF i] that show ?thesis by (auto simp: t)
    qed
  qed (use fresh_name [OF i] one_name [OF i] in \<open>simp add: t\<close>)+
  then show ?thesis by (simp only: t_def)
qed

lemma up_inv_effect:
  assumes i: "up_inv s" and w: "up_writes s k = Some w" "w_phase w = Flying False"
  shows "up_inv (take_effect k w s)"
proof -
  define t where "t = take_effect k w s"
  have t: "up_map t = up_map s" "up_next t = up_next s" "up_card t = (up_card s)(w_name w \<mapsto> written w)"
    "up_writes t = (up_writes s)(k \<mapsto> w\<lparr>w_phase := Flying True\<rparr>)" by (simp_all add: t_def take_effect_def)
  note c = phase_change [OF w(1) t(4)]
  have fl: "flying w" using w(2) by (simp add: flying_def)
  then have fk: "flies s k w" using w(1) by (simp add: flies_def)
  from flight_object [OF i fk] obtain u where u: "up_map s (w_name w) = Some u" "u_id u = w_id w" by blast
  have fd: "\<exists>v'. flies s j v' \<and> w_id v' = w_id v \<and> w_name v' = w_name v \<and> w_generation v' = w_generation v"
    if "flies t j v" for j v
    using c(3) [OF that] fk by auto
  have same: "j = k" if "flies s j v" "w_name v = w_name w" for j v
    using flight_object [OF i that(1)] that u one_flight [OF i that(1) fk] by auto
  have "up_inv t"
  proof (rule up_invI)
    show "j < up_next t" if "up_writes t j = Some v" for j v using c(1) [OF that] fresh_write [OF i] by (auto simp: t)
    show "w_id v < up_next t" if "sends t j v" for j v using c(2) [OF that] fresh_object [OF i] by (auto simp: t)
    show "x = w_name v \<and> w_scope v = u_scope a \<and> w_generation v \<le> u_generation a \<and> u_state a \<noteq> Live"
      if "sends t j v" "up_map t x = Some a" "u_id a = w_id v" for j v x a
      using c(2) [OF that(1)] send_object [OF i] that(2,3) by (auto simp: t)
    show "w_generation v < w_generation v'" if "sends t j v" "sends t j' v'" "w_id v = w_id v'" "j < j'" for j j' v v'
      using c(2) [OF that(1)] c(2) [OF that(2)] send_order [OF i _ _ _ that(4)] that(3,4) by auto
    show "\<exists>u. up_map t (w_name v) = Some u \<and> u_id u = w_id v" if "flies t j v" for j v
      using fd [OF that] flight_object [OF i] unfolding t by metis
    show "j = j'" if "flies t j v" "flies t j' v'" "w_id v = w_id v'" for j j' v v'
      using fd [OF that(1)] fd [OF that(2)] one_flight [OF i] that(3) by metis
    show "j' \<le> j" if "sends t j v" "sends t j' v'" "flying v'" "w_id v = w_id v'" for j j' v v'
      using c(2) [OF that(1)] c(2) [OF that(2)] oldest_flies [OF i] that(3,4) fl by auto
    show "up_card t (w_name v) = Some (written v)" if "sends t j v" "w_phase v = Flying True" for j v
    proof (cases "j = k")
      case True
      then show ?thesis using c(2) [OF that(1)] by (auto simp: t written_def)
    next
      case False
      with c(2) [OF that(1)] have v: "sends s j v" by auto
      then have "w_name v \<noteq> w_name w" using same [of j v] False that(2) by (auto simp: sends_def flies_def flying_def)
      then show ?thesis using send_effect [OF i v that(2)] by (simp add: t)
    qed
    show "holds_own t x a" if "up_map t x = Some a" "u_state a = Live" for x a
    proof (cases "x = w_name w")
      case True
      then have a: "a = u" using that(1) u(1) by (simp add: t)
      have "w_kind w \<noteq> Send" using send_object [OF i _ u] w(1) that(2) a by (auto simp: sends_def)
      then show ?thesis using True a u(2) unfolding holds_own_def t
        by (intro disjI2 conjI exI [of _ k] exI [of _ "w\<lparr>w_phase := Flying True\<rparr>"]) (simp_all add: written_def)
    next
      case False
      have "holds_own s x a" using live_holds [OF i] that by (simp add: t)
      moreover have "w_id w \<noteq> u_id a" using False one_name [OF i _ u(1)] that(1) u(2) by (auto simp: t)
      ultimately show ?thesis using False w(1) unfolding holds_own_def t by (metis fun_upd_apply option.inject)
    qed
    show "w_generation v = u_generation a" if "up_map t x = Some a" "u_state a = Live" "flies t j v" "w_id v = u_id a" for x a j v
      using fd [OF that(3)] live_flight [OF i] that by (auto simp: t)
  qed (use fresh_name [OF i] one_name [OF i] in \<open>simp add: t\<close>)+
  then show ?thesis by (simp only: t_def)
qed

text \<open>The answer of a write that is with ComfyUI sets the state of the name, when the write is still its own.\<close>

definition settled :: "nat \<Rightarrow> upload_write \<Rightarrow> upload_state \<Rightarrow> uploads \<Rightarrow> uploads" where
  "settled k w st s = set_state w st (s\<lparr>up_writes := (up_writes s)(k := None)\<rparr>)"

lemma flight_name:
  assumes "up_inv s" "flies s k w" "up_map s x = Some a" "u_id a = w_id w"
  shows "x = w_name w"
  using flight_object [OF assms(1,2)] one_name [OF assms(1) assms(3)] assms(4) by auto

lemma up_inv_settled_stale:
  assumes i: "up_inv s" and w: "flies s k w" and c: "\<not> current s w"
  shows "up_inv (settled k w st s)"
proof -
  have "up_inv (s\<lparr>up_writes := (up_writes s)(k := None)\<rparr>)"
  proof (rule up_inv_remove [OF i])
    fix v x a assume v: "flies s k v" "up_map s x = Some a" "u_state a = Live" "u_id a = w_id v"
    then have "v = w" using w by (simp add: flies_def)
    with live_flight [OF i v(2,3,1)] flight_name [OF i w v(2)] v c show "w_kind v = Send" by (auto simp: current_def)
  qed
  with c show ?thesis by (simp add: settled_def set_state_def current_def)
qed

lemma up_inv_settled_live:
  assumes i: "up_inv s" and w: "sends s k w" "w_phase w = Flying True" and c: "current s w"
  shows "up_inv (settled k w Live s)"
proof -
  define t where "t = s\<lparr>up_writes := (up_writes s)(k := None)\<rparr>"
  have fl: "flying w" and wk: "up_writes s k = Some w" using w by (simp_all add: flying_def sends_def)
  then have f: "flies s k w" by (simp add: flies_def)
  from c obtain u where u: "up_map s (w_name w) = Some u" "u_id u = w_id w" "u_generation u = w_generation w"
    by (auto simp: current_def split: option.splits)
  have so: "w_scope w = u_scope u" using send_object [OF i w(1) u(1,2)] by simp
  have no: "\<not> sends t j v" if "w_id w = w_id v" for j v
  proof
    assume "sends t j v"
    then have v: "sends s j v" "j \<noteq> k" by (auto simp: sends_def t_def split: if_splits)
    from oldest_flies [OF i v(1) w(1) fl that [symmetric]] v(2) have "k < j" by simp
    from send_order [OF i w(1) v(1) that this] send_object [OF i v(1) u(1)] u(2,3) that show False by simp
  qed
  have nf: "\<not> flies t j v" if "w_id v = w_id w" for j v
    using one_flight [OF i _ f that, of j] by (auto simp: flies_def t_def)
  have "up_inv t" unfolding t_def using w(1) wk by (intro up_inv_remove [OF i]) (auto simp: flies_def sends_def)
  moreover have "holds_own t (w_name w) (u\<lparr>u_state := Live\<rparr>)"
    using send_effect [OF i w] w(1) so u(2,3) by (simp add: holds_own_def t_def written_def sends_def)
  ultimately have "up_inv (t\<lparr>up_map := (up_map t)(w_name w \<mapsto> u\<lparr>u_state := Live\<rparr>)\<rparr>)"
    by (rule_tac up_inv_change) (use no nf u(1,2) in \<open>auto simp: t_def\<close>)
  then show ?thesis using c u(1) by (simp add: settled_def set_state_def current_def t_def)
qed

lemma up_inv_settled_other:
  assumes i: "up_inv s" and w: "flies s k w" and c: "current s w" and st: "st \<noteq> Live"
  shows "up_inv (settled k w st s)"
proof -
  from c obtain u where u: "up_map s (w_name w) = Some u" by (auto simp: current_def split: option.splits)
  define a where "a = s\<lparr>up_map := (up_map s)(w_name w \<mapsto> u\<lparr>u_state := st\<rparr>)\<rparr>"
  have ai: "up_inv a" unfolding a_def by (rule up_inv_change [OF i u(1)]) (use st in simp_all)
  have "up_inv (a\<lparr>up_writes := (up_writes a)(k := None)\<rparr>)"
  proof (rule up_inv_remove [OF ai])
    fix v x b assume b: "flies a k v" "up_map a x = Some b" "u_state b = Live" "u_id b = w_id v"
    then have "v = w" using w by (simp add: a_def flies_def)
    with b flight_name [OF i w, of x b] st show "w_kind v = Send" by (auto simp: a_def split: if_splits)
  qed
  moreover have "settled k w st s = a\<lparr>up_writes := (up_writes a)(k := None)\<rparr>"
    using c u by (simp add: settled_def set_state_def current_def a_def)
  ultimately show ?thesis by simp
qed

lemmas up_inv_settled = up_inv_settled_stale up_inv_settled_live up_inv_settled_other

lemma settled_flights: "up_inv s \<Longrightarrow> flies s k w \<Longrightarrow> flies (settled k w st s) j v \<Longrightarrow> w_id v \<noteq> w_id w"
  using one_flight [of s j v k w] by (auto simp: settled_def set_state_def flies_def split: if_splits)

text \<open>Where no write of the object is with ComfyUI, the end of a write forgets it or leaves it.\<close>

lemma up_inv_forgotten:
  assumes i: "up_inv s" and f: "\<And>j v. flies s j v \<Longrightarrow> w_id v \<noteq> w_id w" and c: "current s w"
  shows "up_inv (s\<lparr>up_map := (up_map s)(w_name w := None)\<rparr>)"
  using c f by (intro up_inv_forget [OF i]) (auto simp: current_def)

lemma write_done_eq:
  "write_done k w s = (let t = s\<lparr>up_writes := (up_writes s)(k := None)\<rparr> in
     if w_kind w = Erase_expired \<and> current t w \<and> (\<forall>u. up_map s (w_name w) = Some u \<longrightarrow> u_expires u \<le> up_now s)
     then t\<lparr>up_map := (up_map t)(w_name w := None)\<rparr> else t)"
  by (cases "w_kind w"; cases "up_map s (w_name w)") (simp_all add: write_done_def current_def Let_def)

lemma answer_write_eq:
  "answer_write k w ok s = (let t = settled k w (if \<not> ok then Stale else if w_kind w = Send then Live else Erased) s in
     if w_kind w = Erase_expired \<and> current t w \<and> (\<forall>u. up_map t (w_name w) = Some u \<longrightarrow> u_expires u \<le> up_now t)
     then t\<lparr>up_map := (up_map t)(w_name w := None)\<rparr> else t)"
proof -
  have "(set_state w st s)\<lparr>up_writes := (up_writes (set_state w st s))(k := None)\<rparr> = settled k w st s"
    "up_map (set_state w st s) = up_map (settled k w st s)" "up_now (set_state w st s) = up_now (settled k w st s)" for st
    by (simp_all add: settled_def set_state_def current_def)
  then show ?thesis by (simp only: answer_write_def write_done_eq Let_def)
qed

lemma up_inv_answer:
  assumes i: "up_inv s" and w: "flies s k w" and ok: "ok \<Longrightarrow> w_phase w = Flying True"
  shows "up_inv (answer_write k w ok s)"
proof -
  define st where "st = (if \<not> ok then Stale else if w_kind w = Send then Live else Erased)"
  have "up_inv (settled k w st s)"
    using up_inv_settled [OF i] w ok by (cases "current s w"; cases "st = Live")
      (auto simp: st_def sends_def flies_def split: if_splits)
  then show ?thesis
    using up_inv_forgotten settled_flights [OF i w] unfolding answer_write_eq st_def [symmetric] Let_def by auto
qed

lemma up_inv_done:
  assumes i: "up_inv s" and w: "up_writes s k = Some w" "w_phase w = Queued" "\<not> locked s (w_id w)"
  shows "up_inv (write_done k w s)"
proof -
  define t where "t = s\<lparr>up_writes := (up_writes s)(k := None)\<rparr>"
  have "up_inv t"
    unfolding t_def using w(1,2) by (intro up_inv_remove [OF i]) (auto simp: flies_def flying_def)
  moreover have "w_id v \<noteq> w_id w" if "flies t j v" for j v
    using w(3) that by (auto simp: t_def locked_def flies_def split: if_splits)
  ultimately show ?thesis
    using up_inv_forgotten [of t w] unfolding write_done_eq Let_def t_def [symmetric] by auto
qed

lemma up_inv_begin:
  assumes i: "up_inv s" and w: "up_writes s k = Some w" "w_phase w = Queued" "\<not> locked s (w_id w)" "first_send k w s"
  shows "up_inv (begin_write k w s)"
proof (cases "up_map s (w_name w)")
  case None
  then show ?thesis using up_inv_done [OF i w(1-3)] by (cases "w_kind w") (simp_all add: begin_write_def Let_def)
next
  case (Some u)
  then show ?thesis
    using up_inv_done [OF i w(1-3)] up_inv_go [OF i w Some]
    by (cases "w_kind w") (auto simp: begin_write_def current_def Let_def)
qed

lemma up_inv_renew:
  assumes i: "up_inv s" and u: "up_map s n = Some u"
  shows "up_inv (s\<lparr>up_map := (up_map s)(n \<mapsto> u\<lparr>u_expires := e\<rparr>)\<rparr>)"
proof (rule up_inv_change [OF i u])
  assume "u_state (u\<lparr>u_expires := e\<rparr>) = Live"
  then have l: "u_state u = Live" by simp
  have "w_id w \<noteq> u_id u" if "sends s k w" for k w
    using send_object [OF i that u] l by auto
  moreover have "holds_own s n (u\<lparr>u_expires := e\<rparr>)" using live_holds [OF i u l] by (simp add: holds_own_def)
  ultimately show "holds_own s n (u\<lparr>u_expires := e\<rparr>) \<and> (\<forall>k w. sends s k w \<longrightarrow> w_id w \<noteq> u_id u) \<and>
      (\<forall>k w. flies s k w \<longrightarrow> w_id w = u_id u \<longrightarrow> w_generation w = u_generation (u\<lparr>u_expires := e\<rparr>))"
    using live_flight [OF i u l] by simp
qed simp_all

lemma claim_inv:
  assumes i: "up_inv s" and c: "claim cap (is_locked_name s name) live scope name s = Inr s'"
  shows "up_inv s' \<and> (\<exists>u. up_map s' name = Some u \<and> u_scope u = scope)"
proof (cases "\<exists>u. up_map s name = Some u \<and> (u_expires u > up_now s \<or> is_locked_name s name)")
  case True
  then obtain u where u: "up_map s name = Some u" "u_expires u > up_now s \<or> is_locked_name s name" by blast
  with c have s': "u_scope u = scope" "s' = s\<lparr>up_map := (up_map s)(name \<mapsto> u\<lparr>u_expires := up_now s + TTL_S\<rparr>)\<rparr>"
    by (auto simp: claim_def split: if_splits)
  have "up_inv s'" unfolding s'(2) by (rule up_inv_renew [OF i u(1)])
  then show ?thesis using s' by simp
next
  case False
  define t where "t = s\<lparr>up_map := (up_map s)(name := None)\<rparr>"
  have "up_inv t" unfolding t_def
    using False by (intro up_inv_forget [OF i]) (auto simp: is_locked_name_def locked_def flies_def)
  from up_inv_new [OF this, of name] c False show ?thesis
    by (auto simp: claim_def t_def split: if_splits option.splits)
qed

lemma up_inv_put:
  assumes i: "up_inv s" and p: "put_upload cap scope name s = Inr s'"
  shows "up_inv s'"
proof -
  obtain s1 where "claim cap (is_locked_name s name) (live_uploads s scope) scope name s = Inr s1"
    and q: "(case up_map s1 name of None \<Rightarrow> Inl Not_found
    | Some u \<Rightarrow>
        let v = u\<lparr>u_generation := Suc (u_generation u), u_state := Sending\<rparr>
        in Inr (queue_write Send name (u_id v) scope (u_generation v) (s1\<lparr>up_map := (up_map s1)(name \<mapsto> v)\<rparr>))) = Inr s'"
    using p unfolding put_upload_def by (elim andthenE)
  from claim_inv [OF i this(1)] obtain u where i1: "up_inv s1" and u: "up_map s1 name = Some u" "u_scope u = scope" by blast
  define v where "v = u\<lparr>u_generation := Suc (u_generation u), u_state := Sending\<rparr>"
  have "up_inv (s1\<lparr>up_map := (up_map s1)(name \<mapsto> v)\<rparr>)"
    by (rule up_inv_change [OF i1 u(1)]) (simp_all add: v_def)
  then have "up_inv (queue_write Send name (u_id v) scope (u_generation v) (s1\<lparr>up_map := (up_map s1)(name \<mapsto> v)\<rparr>))"
    by (rule up_inv_queue) (use u send_object [OF i1 _ u(1)] in \<open>auto simp: v_def less_Suc_eq_le\<close>)
  with q u(1) show ?thesis by (simp add: v_def)
qed

lemma up_inv_step: "up_step s s' \<Longrightarrow> up_inv s \<Longrightarrow> up_inv s'"
proof (induction rule: up_step.induct)
  case (answers s k w)
  then show ?case by (intro up_inv_answer) (auto simp: flies_def flying_def)
next
  case (fails s k w)
  then show ?case by (intro up_inv_answer) (auto simp: flies_def)
qed (auto simp: erase_upload_def sweep_upload_def intro: up_inv_tick up_inv_put up_inv_queue up_inv_begin up_inv_effect
    split: option.splits if_splits)

lemma up_inv_reached: "up_reached s \<Longrightarrow> up_inv s"
  by (induction rule: up_reached.induct) (auto intro: up_inv_init up_inv_step)

text \<open>A name that is owned, on the card.\<close>

definition own_bytes :: "uploads \<Rightarrow> string \<Rightarrow> string \<Rightarrow> bool" where
  "own_bytes s scope name \<longleftrightarrow>
    up_card s name = Some Blank \<or> (\<exists>u. up_map s name = Some u \<and> up_card s name = Some (Bytes scope (u_id u) (u_generation u)))"

lemma owned_bytes:
  assumes "up_reached s" "owns s scope name"
  shows "own_bytes s scope name"
proof -
  from assms(2) obtain u where "up_map s name = Some u" "u_scope u = scope" "u_state u = Live"
    by (auto simp: owns_def split: option.splits)
  with live_holds [OF up_inv_reached [OF assms(1)]] show ?thesis by (auto simp: holds_own_def own_bytes_def)
qed

text \<open>
  However sends, erasures and sweeps are ordered, and whichever of them fail, a name that a graph may read is its
  caller's: the card holds under it the bytes of that caller's last send of it, or the blank of an erasure of it that
  has no answer yet. It never holds another scope's bytes, nor those of a send that a later one replaced.
\<close>

theorem owned_upload_is_own:
  assumes "up_reached s" "owns s scope name"
  shows "\<exists>u. up_map s name = Some u \<and> u_scope u = scope \<and>
    (up_card s name = Some (Bytes scope (u_id u) (u_generation u)) \<or>
     up_card s name = Some Blank \<and>
       (\<exists>k w. up_writes s k = Some w \<and> w_id w = u_id u \<and> w_kind w \<noteq> Send \<and> w_phase w = Flying True))"
proof -
  from assms(2) obtain u where "up_map s name = Some u" "u_scope u = scope" "u_state u = Live"
    by (auto simp: owns_def split: option.splits)
  with live_holds [OF up_inv_reached [OF assms(1)]] show ?thesis by (auto simp: holds_own_def)
qed

text \<open>A name sent, answered, and owned.\<close>

definition sample_write :: "write_phase \<Rightarrow> upload_write" where
  "sample_write p = \<lparr>w_name = ''a.png'', w_id = 0, w_scope = ''r1'', w_generation = 1, w_kind = Send, w_phase = p\<rparr>"

definition sample_state :: "upload_state \<Rightarrow> upload_write option \<Rightarrow> content option \<Rightarrow> uploads" where
  "sample_state st w c =
    \<lparr>up_now = 0, up_map = Map.empty(''a.png'' \<mapsto> \<lparr>u_id = 0, u_scope = ''r1'', u_expires = 600, u_state = st, u_generation = 1\<rparr>),
     up_next = 2, up_writes = Map.empty(1 := w), up_card = Map.empty(''a.png'' := c)\<rparr>"

lemma sample_sent: "up_reached (sample_state Live None (Some (Bytes ''r1'' 0 1)))"
proof -
  note d = sample_state_def sample_write_def locked_def flying_def first_send_def
  have "put_upload 1 ''r1'' ''a.png'' uploads_init = Inr (sample_state Sending (Some (sample_write Queued)) None)"
    by (simp add: put_upload_def claim_def is_locked_name_def live_uploads_def uploads_init_def queue_write_def d TTL_S_def
        fun_eq_iff)
  from step [OF start put [OF this]] have "up_reached (sample_state Sending (Some (sample_write Queued)) None)" .
  from step [OF this begins [of _ 1 "sample_write Queued"]]
  have "up_reached (sample_state Sending (Some (sample_write (Flying False))) None)"
    by (simp add: begin_write_def d split: if_splits)
  from step [OF this effect [of _ 1 "sample_write (Flying False)"]]
  have "up_reached (sample_state Sending (Some (sample_write (Flying True))) (Some (Bytes ''r1'' 0 1)))"
    by (simp add: take_effect_def written_def d)
  from step [OF this answers [of _ 1 "sample_write (Flying True)"]]
  show ?thesis by (simp add: answer_write_def set_state_def write_done_def current_def d)
qed

theorem owned_upload_is_own_witness:
  "\<exists>s. up_reached s \<and> owns s ''r1'' ''a.png'' \<and> (\<exists>u. up_map s ''a.png'' = Some u \<and> u_scope u = ''r1'')"
proof -
  have o: "owns (sample_state Live None (Some (Bytes ''r1'' 0 1))) ''r1'' ''a.png''"
    by (simp add: owns_def sample_state_def)
  from owned_upload_is_own [OF sample_sent this] sample_sent o show ?thesis by blast
qed

text \<open>A scope's own name is renewed whatever the cap says: an erased one that is sent again counts as live
  afterwards, beyond the cap.\<close>

lemma renewal_passes_the_cap:
  assumes "up_map s name = Some u" "u_scope u = scope" "up_now s < u_expires u"
  shows "\<exists>s'. put_upload cap scope name s = Inr s' \<and> (\<exists>v. up_map s' name = Some v \<and> counts_live s' scope v)"
  using assms by (simp add: put_upload_def claim_def queue_write_def counts_live_def TTL_S_def)

end
