(* ===== verification/Picture_Routes.thy ===== *)
theory Picture_Routes
  imports Picture_Service Picture_Uploads Picture_Graphs
begin

text \<open>
  The picture lane's routes, \<^verbatim>\<open>simple_serving/pictures/routes.py\<close>, and the table of its public listener,
  \<^verbatim>\<open>simple_serving/pictures/app.py\<close>. A route is the steps between its awaits, each with its checks in the
  code's order: the authorization, the body as it came until the deadline with the checks after it and what they
  change, and the answer. The messages of a request are those that come before \<^verbatim>\<open>PREPARE_S\<close> is over.
\<close>

subsection \<open>Requests\<close>

definition CLASS_HEADER :: string where "CLASS_HEADER = ''x-simple-serving-class''"
definition SCOPE_HEADER :: string where "SCOPE_HEADER = ''x-simple-serving-scope''"
definition SUBFOLDER :: string where "SUBFOLDER = ''bot-references''"

definition PICTURE_FIELDS :: "string list" where
  "PICTURE_FIELDS = [''graph'', ''copies'', ''require_socket'']"

definition header :: "string \<Rightarrow> request \<Rightarrow> string option" where
  "header name rq = map_of (rq_headers rq) name"

definition latin_strip :: "string \<Rightarrow> string" where
  "latin_strip s =
    (let blank = (\<lambda>c. is_space c \<or> of_char c \<in> {133, 160 :: nat}) in rev (dropWhile blank (rev (dropWhile blank s))))"

definition content_type_of :: "request \<Rightarrow> string" where
  "content_type_of rq =
    latin_lower (latin_strip (fst (partition_at (CHR '';'') (case header ''content-type'' rq of None \<Rightarrow> [] | Some v \<Rightarrow> v))))"

text \<open>The caller of a route that answers in every status, and that of one that needs the service ready.\<close>

definition caller_of :: "(string \<Rightarrow> string) \<Rightarrow> picture_config \<Rightarrow> request \<Rightarrow> caller result" where
  "caller_of sha256 cfg rq =
    andthen (authenticate sha256 (pc_keys cfg) (authorization rq)) (\<lambda>k. resolve k (header CLASS_HEADER rq) (header SCOPE_HEADER rq))"

definition ready_caller :: "(string \<Rightarrow> string) \<Rightarrow> picture_config \<Rightarrow> request \<Rightarrow> picture_service \<Rightarrow> caller result" where
  "ready_caller sha256 cfg rq s =
    authorize sha256 (pc_keys cfg) (authorization rq) (header CLASS_HEADER rq) (header SCOPE_HEADER rq) s"

text \<open>How the step that reads the body ends: refused, left by its client, or with a result.\<close>

datatype 'a prepared =
    Refused error_code
  | Client_left
  | Prepared 'a

definition from_body :: "int \<Rightarrow> request \<Rightarrow> (string \<Rightarrow> 'a result) \<Rightarrow> 'a prepared" where
  "from_body limit rq f =
    (case read_body (nat limit) (rq_headers rq) (rq_messages rq) of
       Body data \<Rightarrow> (case f data of Inl c \<Rightarrow> Refused c | Inr v \<Rightarrow> Prepared v)
     | Too_large \<Rightarrow> Refused Body_too_large
     | Client_gone \<Rightarrow> Client_left
     | Awaiting \<Rightarrow> Refused Timeout_code)"

subsection \<open>Pictures\<close>

record picture_request =
  pr_graph :: obj
  pr_copies :: "string list"
  pr_references :: nat
  pr_require_socket :: bool

definition caller_owns :: "uploads \<Rightarrow> caller \<Rightarrow> string \<Rightarrow> bool" where
  "caller_owns ups ca name = (case ca_scope ca of None \<Rightarrow> False | Some scope \<Rightarrow> owns ups scope name)"

definition picture_of :: "picture_config \<Rightarrow> uploads \<Rightarrow> caller \<Rightarrow> json \<Rightarrow> picture_request result" where
  "picture_of cfg ups ca v =
    (case v of
       JObj body \<Rightarrow>
         andthen (require (set (map fst body) \<subseteq> set PICTURE_FIELDS) Unsupported_field) (\<lambda>_.
         case jget_or ''require_socket'' (JBool False) body of
           JBool require_socket \<Rightarrow>
             andthen (require (''graph'' \<in> fst ` set body) Invalid_request) (\<lambda>_.
             andthen (check_graph (ca_cls ca) (pc_reader_nodes cfg) (nat (pc_max_nodes cfg)) (caller_owns ups ca)
                 (jget ''graph'' body) (jget ''copies'' body)) (\<lambda>(graph, copies, references).
             Inr \<lparr>pr_graph = graph, pr_copies = copies, pr_references = references, pr_require_socket = require_socket\<rparr>))
         | _ \<Rightarrow> Inl Invalid_request)
     | _ \<Rightarrow> Inl Invalid_request)"

definition picture_arrives ::
  "(string \<Rightarrow> string) \<Rightarrow> picture_config \<Rightarrow> request \<Rightarrow> picture_service \<Rightarrow> (caller \<times> picture_service) result"
where
  "picture_arrives sha256 cfg rq s = andthen (ready_caller sha256 cfg rq s) (\<lambda>ca. Inr (ca, ours_begin ca s))"

text \<open>\<open>prompt_id\<close> is the fresh UUID of the job, and \<open>w\<close> the work.\<close>

definition picture_submitted ::
  "picture_config \<Rightarrow> (string \<Rightarrow> json_doc option) \<Rightarrow> uploads \<Rightarrow> caller \<Rightarrow> string \<Rightarrow> nat \<Rightarrow> request \<Rightarrow> picture_service \<Rightarrow>
   (picture_request \<times> picture_service) prepared"
where
  "picture_submitted cfg loads ups ca prompt_id w rq s =
    from_body (pc_body_limit_bytes cfg) rq (\<lambda>raw.
      andthen (parse_json loads raw) (\<lambda>v.
      andthen (picture_of cfg ups ca v) (\<lambda>p.
      andthen (accept_picture cfg w (new_job prompt_id ca (pr_copies p)) s) (\<lambda>s1. Inr (p, s1)))))"

text \<open>\<^verbatim>\<open>stop\<close>: a job that runs is waited for, and its answer says what \<^verbatim>\<open>cleanup\<close> has found; a stop that was
  not confirmed is told as such.\<close>

datatype stop_begins =
    Stop_waits nat
  | Stop_told bool

definition own_job :: "caller \<Rightarrow> string \<Rightarrow> picture_service \<Rightarrow> nat option" where
  "own_job ca i s =
    Option.bind (p_table s i) (\<lambda>w. case job_of s w of None \<Rightarrow> None | Some j \<Rightarrow> if owned_by ca j then Some w else None)"

definition own_unresolved :: "caller \<Rightarrow> string \<Rightarrow> picture_service \<Rightarrow> bool" where
  "own_unresolved ca i s = (case map_of (p_unresolved s) i of None \<Rightarrow> False | Some u \<Rightarrow> stop_owned_by ca u)"

definition stop_begin ::
  "(string \<Rightarrow> string) \<Rightarrow> picture_config \<Rightarrow> request \<Rightarrow> string \<Rightarrow> picture_service \<Rightarrow> (stop_begins \<times> picture_service) result"
where
  "stop_begin sha256 cfg rq i s =
    andthen (caller_of sha256 cfg rq) (\<lambda>ca.
    case own_job ca i s of
      Some w \<Rightarrow> Inr (Stop_waits w, stop_work_of By_client_stop w (ours_begin ca s))
    | None \<Rightarrow> if own_unresolved ca i s then Inr (Stop_told False, s) else Inl Not_found)"

definition stop_answer :: "(rat \<Rightarrow> string) \<Rightarrow> bool \<Rightarrow> exchange \<Rightarrow> exchange" where
  "stop_answer repr stopped = send_json repr whole 200 (JObj [(''stopped'', JBool stopped)])"

subsection \<open>Uploads\<close>

text \<open>A caller without a scope, which this lane has none of, would fail an assertion.\<close>

definition upload_submitted ::
  "picture_config \<Rightarrow> uploads \<Rightarrow> caller \<Rightarrow> string \<Rightarrow> request \<Rightarrow> picture_service \<Rightarrow> (string \<times> uploads) prepared"
where
  "upload_submitted cfg ups ca name rq s =
    (case UPLOAD_NAME name of
       None \<Rightarrow> Refused Invalid_request
     | Some suffix \<Rightarrow>
         let kind = content_type_of rq
         in if UPLOAD_TYPES suffix \<noteq> Some kind then Refused Invalid_request
            else from_body (pc_upload_limit_bytes cfg) rq (\<lambda>data.
              andthen (require (image_type data = Some kind) Invalid_request) (\<lambda>_.
              andthen (check_serving s) (\<lambda>_.
              case ca_scope ca of
                None \<Rightarrow> Inl Internal_error
              | Some scope \<Rightarrow>
                  andthen (put_upload (pl_uploads (pc_limits cfg (ca_cls ca))) scope name ups) (\<lambda>ups1. Inr (data, ups1))))))"

definition upload_answer :: "(rat \<Rightarrow> string) \<Rightarrow> string \<Rightarrow> exchange \<Rightarrow> exchange" where
  "upload_answer repr name = send_json repr whole 200 (JObj [(''name'', JStr (SUBFOLDER @ ''/'' @ name @ TEMP))])"

definition erase_begin ::
  "(string \<Rightarrow> string) \<Rightarrow> picture_config \<Rightarrow> request \<Rightarrow> string \<Rightarrow> uploads \<Rightarrow> uploads result"
where
  "erase_begin sha256 cfg rq name ups =
    andthen (caller_of sha256 cfg rq) (\<lambda>ca.
    andthen (require (UPLOAD_NAME name \<noteq> None) Not_found) (\<lambda>_.
    case ca_scope ca of None \<Rightarrow> Inl Not_found | Some scope \<Rightarrow> erase_upload scope name ups))"

definition erase_answer :: "(rat \<Rightarrow> string) \<Rightarrow> bool \<Rightarrow> exchange \<Rightarrow> exchange" where
  "erase_answer repr erased x = (if erased then send_empty whole 204 x else answer_error repr Engine_unavailable x)"

text \<open>An experiment's reference: the caller, the stripped picture for ComfyUI, and the end of its send.\<close>

definition input_caller :: "(string \<Rightarrow> string) \<Rightarrow> picture_config \<Rightarrow> request \<Rightarrow> picture_service \<Rightarrow> caller result" where
  "input_caller sha256 cfg rq s =
    andthen (ready_caller sha256 cfg rq s) (\<lambda>ca. andthen (require (ca_cls ca = Internal) Class_not_allowed) (\<lambda>_. Inr ca))"

definition input_submitted ::
  "(string \<Rightarrow> string) \<Rightarrow> picture_config \<Rightarrow> string \<Rightarrow> request \<Rightarrow> picture_service \<Rightarrow> string prepared"
where
  "input_submitted sha256 cfg name rq s =
    (if \<not> INPUT_NAME name \<or> content_type_of rq \<noteq> ''image/png'' then Refused Invalid_request
     else from_body (pc_upload_limit_bytes cfg) rq (\<lambda>data.
       case strip_png data of
         Inl _ \<Rightarrow> Inl Invalid_request
       | Inr stripped \<Rightarrow>
           andthen (require (take 16 (sha256 stripped) = take 16 (drop 4 name)) Invalid_request) (\<lambda>_.
           andthen (check_serving s) (\<lambda>_. Inr stripped))))"

definition input_sent :: "string \<Rightarrow> comfy_reply \<Rightarrow> json result" where
  "input_sent name r =
    (case uploaded name ''input'' [] r of
       Inl e \<Rightarrow> Inl (if e = Not_comfy then Internal_error else Engine_unavailable)
     | Inr _ \<Rightarrow> Inr (JObj [(''name'', JStr name)]))"

subsection \<open>Facts and state\<close>

definition engine_route ::
  "(rat \<Rightarrow> string) \<Rightarrow> (string \<Rightarrow> string) \<Rightarrow> picture_config \<Rightarrow> request \<Rightarrow> picture_service \<Rightarrow> exchange \<Rightarrow> exchange"
where
  "engine_route repr sha256 cfg rq s =
    answered_with repr (send_json repr whole 200) (andthen (caller_of sha256 cfg rq) (\<lambda>_. engine_facts s))"

definition picture_state_route ::
  "(rat \<Rightarrow> string) \<Rightarrow> (string \<Rightarrow> string) \<Rightarrow> picture_config \<Rightarrow> obj \<Rightarrow> string list \<Rightarrow> request \<Rightarrow> picture_service \<Rightarrow> exchange \<Rightarrow> exchange"
where
  "picture_state_route repr sha256 cfg versions ids rq s =
    answered_with repr (\<lambda>k. send_json repr whole 200 (picture_state cfg versions ids (k_control k) s))
      (authenticate sha256 (pc_keys cfg) (authorization rq))"

subsection \<open>The table of the listener\<close>

datatype picture_handler =
    Picture_handler
  | Engine_handler
  | Put_upload_handler
  | Erase_upload_handler
  | Put_input_handler
  | Stop_handler
  | State_handler

definition PICTURE_ROUTES :: "(string \<times> string \<times> picture_handler) list" where
  "PICTURE_ROUTES =
    [(''/v1/pictures'', ''POST'', Picture_handler), (''/v1/pictures/engine'', ''GET'', Engine_handler),
     (''/v1/pictures/uploads/{name}'', ''PUT'', Put_upload_handler), (''/v1/pictures/uploads/{name}'', ''DELETE'', Erase_upload_handler),
     (''/v1/pictures/inputs/{name}'', ''PUT'', Put_input_handler), (''/v1/pictures/{job}/stop'', ''POST'', Stop_handler),
     (''/v1/state'', ''GET'', State_handler)]"

text \<open>
  \<^verbatim>\<open>Guard.route\<close>: the path as the table writes it, whose parts of its own stand for one segment each.
\<close>

definition own_part :: "string \<Rightarrow> bool" where
  "own_part p \<longleftrightarrow> 3 \<le> length p \<and> hd p = CHR ''{'' \<and> last p = CHR ''}'' \<and>
     list_all (\<lambda>c. CHR ''a'' \<le> c \<and> c \<le> CHR ''z'') (butlast (tl p))"

definition fits :: "string \<Rightarrow> string \<Rightarrow> bool" where
  "fits template path =
    list_all2 (\<lambda>t p. if own_part t then p \<noteq> [] else t = p) (split_on (CHR ''/'') template) (split_on (CHR ''/'') path)"

definition guard_route :: "(string \<times> string \<times> 'h) list \<Rightarrow> string \<Rightarrow> string option" where
  "guard_route table path =
    (let templates = map fst table
     in if path \<in> set (filter (\<lambda>t. CHR ''{'' \<notin> set t) templates) then Some path
        else find (\<lambda>t. fits t path) (filter (\<lambda>t. CHR ''{'' \<in> set t) templates))"

text \<open>A row names the route as the table writes it, never with what the client sent.\<close>

lemma find_in: "find p xs = Some x \<Longrightarrow> x \<in> set xs"
  by (auto simp: find_Some_iff)

lemma guard_route_of_table:
  assumes "guard_route table path = Some t"
  shows "t \<in> fst ` set table"
proof (cases "path \<in> set (filter (\<lambda>t. CHR ''{'' \<notin> set t) (map fst table))")
  case False
  with assms have "find (\<lambda>t. fits t path) (filter (\<lambda>t. CHR ''{'' \<in> set t) (map fst table)) = Some t"
    unfolding guard_route_def Let_def by (simp only: if_False)
  from find_in [OF this] show ?thesis by simp
qed (use assms in \<open>simp add: guard_route_def\<close>)

subsection \<open>What an accepted picture reads\<close>

lemma from_body_Prepared:
  assumes "from_body limit rq f = Prepared v"
  shows "\<exists>data. read_body (nat limit) (rq_headers rq) (rq_messages rq) = Body data \<and> f data = Inr v"
  using assms by (auto simp: from_body_def split: body_read.splits sum.splits)

lemma node_ok_mono:
  assumes "node_ok c nodes p node" "\<And>n. p n \<Longrightarrow> q n"
  shows "node_ok c nodes q node"
  using assms by (fastforce simp: node_ok_def reads_own_def simp del: strings_of.simps)

lemma picture_of_Inr:
  assumes "picture_of cfg ups ca v = Inr p"
  shows "list_all (\<lambda>(node_id, node). NODE_ID node_id \<and> node_ok (ca_cls ca) (pc_reader_nodes cfg) (caller_owns ups ca) node) (pr_graph p)"
proof -
  from assms obtain body b r where "check_graph (ca_cls ca) (pc_reader_nodes cfg) (nat (pc_max_nodes cfg)) (caller_owns ups ca)
      (jget ''graph'' body) (jget ''copies'' body) = Inr r"
    and "p = \<lparr>pr_graph = fst r, pr_copies = fst (snd r), pr_references = snd (snd r), pr_require_socket = b\<rparr>"
    by (auto simp: picture_of_def andthen_Inr_iff split: json.splits prod.splits)
  then show ?thesis using check_graph_nodes by (cases r) fastforce
qed

text \<open>The bytes of the caller's own last send under a name, or the blank.\<close>

definition caller_bytes :: "uploads \<Rightarrow> caller \<Rightarrow> string \<Rightarrow> bool" where
  "caller_bytes ups ca name \<longleftrightarrow> (\<exists>scope. ca_scope ca = Some scope \<and> own_bytes ups scope name)"

text \<open>
  C31: A picture is accepted only by a service that is ready, within the cap of its class, and in every order of sends,
  erasures and sweeps its graph reads nothing of another reader: it has the nodes of the allowlist alone, save an
  experiment's, and each temporary file that it names is on the card the caller's own last send, or its blank.
\<close>

theorem accepted_picture_reads_own:
  assumes "up_reached ups" and "picture_submitted cfg loads ups ca prompt_id w rq s = Prepared (p, s1)"
  shows "status s = Ready \<and> held_jobs (ca_cls ca) s < pl_jobs (pc_limits cfg (ca_cls ca)) \<and>
    l_work s1 = List.insert w (l_work s) \<and>
    list_all (\<lambda>(node_id, node). node_ok (ca_cls ca) (pc_reader_nodes cfg) (caller_bytes ups ca) node) (pr_graph p)"
proof -
  from from_body_Prepared [OF assms(2) [unfolded picture_submitted_def]] obtain raw v where
    "picture_of cfg ups ca v = Inr p" and a: "accept_picture cfg w (new_job prompt_id ca (pr_copies p)) s = Inr s1"
    by (auto simp: andthen_Inr_iff)
  have "caller_bytes ups ca n" if "caller_owns ups ca n" for n
    using that owned_bytes [OF assms(1)] by (auto simp: caller_owns_def caller_bytes_def split: option.splits)
  with picture_of_Inr [OF \<open>picture_of cfg ups ca v = Inr p\<close>]
  have "list_all (\<lambda>(node_id, node). node_ok (ca_cls ca) (pc_reader_nodes cfg) (caller_bytes ups ca) node) (pr_graph p)"
    by (auto simp: list_all_iff intro: node_ok_mono)
  with a show ?thesis by (auto simp: accept_picture_def andthen_Inr_iff accept_Inr_iff check_serving_Inr_iff status_def new_job_def)
qed

definition sample_picture_config :: picture_config where
  "sample_picture_config =
    \<lparr>pc_alias = ''dev-pictures'', pc_engine_url = ''http://127.0.0.1:8188'', pc_keys = [sample_key],
     pc_limits = (\<lambda>_. \<lparr>pl_jobs = 1, pl_wall_s = 60, pl_uploads = 1\<rparr>), pc_reader_nodes = [''LoadImage'', ''PreviewImage''],
     pc_expect = \<lparr>ex_comfyui = ''0.37.0'', ex_pytorch = ''2.11.0'', ex_triton = True\<rparr>, pc_drain_deadline_s = 60,
     pc_idle_timeout_s = 780, pc_health_interval_s = 5, pc_public = \<lparr>li_host = ''127.0.0.1'', li_port = 8080\<rparr>,
     pc_control = \<lparr>li_host = ''127.0.0.1'', li_port = 8081\<rparr>, pc_max_connections = 64, pc_body_limit_bytes = 100,
     pc_upload_limit_bytes = 100, pc_max_nodes = 64, pc_versions = []\<rparr>"

definition sample_reader :: caller where
  "sample_reader = \<lparr>ca_key = sample_key, ca_cls = Reader, ca_scope = Some ''r1''\<rparr>"

definition sample_body :: "string \<Rightarrow> json_doc option" where
  "sample_body = (\<lambda>_. Some (DObj [(''graph'', DObj
    [(''1'', DObj [(''class_type'', DStr ''LoadImage''), (''inputs'', DObj [(''image'', DStr ''bot-references/a.png [temp]'')])]),
     (''2'', DObj [(''class_type'', DStr ''PreviewImage''), (''inputs'', DObj [(''images'', DList [DStr ''1'', DInt 0])])])]),
    (''copies'', DList [DStr ''2''])]))"

definition ready_pictures :: picture_service where
  "ready_pictures = (picture_service_init ''boot'')\<lparr>l_engine_status := Eng_ready\<rparr>"

definition sample_post :: request where
  "sample_post = \<lparr>rq_headers = [], rq_messages = [Request_body ''x'' False]\<rparr>"

definition sample_uploads :: uploads where
  "sample_uploads = sample_state Live None (Some (Bytes ''r1'' 0 1))"

definition sample_picture :: picture_request where
  "sample_picture = \<lparr>pr_graph = sample_graph, pr_copies = [''2''], pr_references = 1, pr_require_socket = False\<rparr>"

lemma sample_picture_of:
  "picture_of sample_picture_config sample_uploads sample_reader
      (JObj [(''graph'', JObj sample_graph), (''copies'', JList [JStr ''2''])]) = Inr sample_picture"
  by code_simp

lemma sample_parsed:
  "parse_json sample_body ''x'' = Inr (JObj [(''graph'', JObj sample_graph), (''copies'', JList [JStr ''2''])])"
  by code_simp

lemma sample_submitted_picture:
  "\<exists>s1. picture_submitted sample_picture_config sample_body sample_uploads sample_reader ''p'' 7 sample_post ready_pictures =
    Prepared (sample_picture, s1)"
proof -
  have "\<exists>s1. accept_picture sample_picture_config 7 (new_job ''p'' sample_reader (pr_copies sample_picture)) ready_pictures = Inr s1"
    by (simp add: accept_picture_def andthen_Inr_iff accept_Inr_iff check_serving_Inr_iff ready_pictures_def
        picture_service_init_def lifecycle_init_def lifecycle.defs held_jobs_def new_job_def sample_reader_def
        sample_picture_config_def)
  then obtain s1 where
    "accept_picture sample_picture_config 7 (new_job ''p'' sample_reader (pr_copies sample_picture)) ready_pictures = Inr s1" ..
  moreover have "read_body (nat (pc_body_limit_bytes sample_picture_config)) (rq_headers sample_post) (rq_messages sample_post) = Body ''x''"
    by (simp add: read_body_def sample_post_def sample_picture_config_def)
  ultimately show ?thesis
    by (simp add: picture_submitted_def from_body_def sample_parsed sample_picture_of)
qed

theorem accepted_picture_reads_own_witness:
  "\<exists>s1. picture_submitted sample_picture_config sample_body sample_uploads sample_reader ''p'' 7 sample_post ready_pictures =
      Prepared (sample_picture, s1) \<and>
    node_ok Reader [''LoadImage'', ''PreviewImage''] (caller_bytes sample_uploads sample_reader) (snd (hd sample_graph))"
proof -
  obtain s1 where s: "picture_submitted sample_picture_config sample_body sample_uploads sample_reader ''p'' 7 sample_post
      ready_pictures = Prepared (sample_picture, s1)" using sample_submitted_picture ..
  have "up_reached sample_uploads" unfolding sample_uploads_def by (rule sample_sent)
  from accepted_picture_reads_own [OF this s]
  have "node_ok Reader [''LoadImage'', ''PreviewImage''] (caller_bytes sample_uploads sample_reader) (snd (hd sample_graph))"
    by (simp add: sample_picture_def sample_graph_def sample_reader_def sample_picture_config_def)
  with s show ?thesis by blast
qed

subsection \<open>What a caller reaches of others\<close>

text \<open>The service without what goes by a name.\<close>

definition without_name :: "string \<Rightarrow> picture_service \<Rightarrow> picture_service" where
  "without_name i s =
    s\<lparr>p_table := (p_table s)(i := None), p_unresolved := filter (\<lambda>(k, _). k \<noteq> i) (p_unresolved s)\<rparr>"

lemma map_of_without: "map_of (filter (\<lambda>(k, _). k \<noteq> i) l) i = None"
  by (induction l) auto

lemma stop_work_of_job: "v \<noteq> w \<Longrightarrow> job_of (stop_work_of reason w s) v = job_of s v"
  by (simp add: stop_work_of_def set_job_def job_of_def split: option.splits)

lemma job_of_ours [simp]: "job_of (ours_begin ca s) = job_of s"
  by (simp add: ours_begin_def job_of_def fun_eq_iff)


definition sample_get :: request where
  "sample_get = \<lparr>rq_headers = [(''authorization'', ''bearer d1''), (''x-simple-serving-class'', ''reader''),
     (''x-simple-serving-scope'', ''reader.abcdefgh'')], rq_messages = []\<rparr>"

lemma sample_called:
  "caller_of id sample_picture_config sample_get = Inr \<lparr>ca_key = sample_key, ca_cls = Reader, ca_scope = Some ''reader.abcdefgh''\<rparr>"
  by (simp add: caller_of_def authenticate_def find_key_def bytes_lower_def less_eq_char_def sample_simps authorization_def
      header_def CLASS_HEADER_def SCOPE_HEADER_def sample_get_def sample_picture_config_def resolve_def outside_def
      cls_of_name_def CLASSES_def reader_scope_def scope_char_def)


subsection \<open>An experiment's references\<close>

lemma starts_prefix: "starts p s \<Longrightarrow> s = p @ drop (length p) s"
  by (induction p s rule: starts.induct) auto

lemma enclosed_parts:
  assumes "enclosed prefix suffix s = Some w"
  shows "s = prefix @ w @ suffix"
proof -
  obtain r where r: "s = prefix @ r" and w: "w = take (length r - length suffix) r" "drop (length r - length suffix) r = suffix"
    using assms by (auto simp: enclosed_def after_def Let_def dest!: starts_prefix split: if_splits)
  have "r = w @ suffix" using w by (metis append_take_drop_id)
  with r show ?thesis by simp
qed

lemma input_name_parts:
  assumes "INPUT_NAME name"
  shows "name = ''ref-'' @ take 16 (drop 4 name) @ ''.png'' \<and> length name = 24"
proof -
  obtain w where "enclosed ''ref-'' ''.png'' name = Some w" "length w = 16"
    using assms by (auto simp: INPUT_NAME_def enclosed_word_def bind_eq_Some_conv split: option.splits if_splits)
  from enclosed_parts [OF this(1)] this(2) show ?thesis by simp
qed

text \<open>
  What an experiment's upload leaves in ComfyUI's input directory is a picture without text, under the name that its
  own bytes give it, and only a caller of the class \<^verbatim>\<open>internal\<close> brings it there, while the service is ready. So no
  name stands for two pictures whose digests differ in their first sixteen digits.
\<close>

theorem input_named_by_content:
  assumes "input_caller sha256 cfg rq s = Inr ca" and "input_submitted sha256 cfg name rq s1 = Prepared png"
  shows "ca_cls ca = Internal \<and> status s1 = Ready \<and> strip_png png = Inr png \<and>
    name = ''ref-'' @ take 16 (sha256 png) @ ''.png'' \<and>
    (\<exists>data. read_body (nat (pc_upload_limit_bytes cfg)) (rq_headers rq) (rq_messages rq) = Body data \<and> strip_png data = Inr png)"
proof -
  have n: "INPUT_NAME name" and p: "from_body (pc_upload_limit_bytes cfg) rq (\<lambda>data. case strip_png data of
      Inl _ \<Rightarrow> Inl Invalid_request
    | Inr stripped \<Rightarrow> andthen (require (take 16 (sha256 stripped) = take 16 (drop 4 name)) Invalid_request) (\<lambda>_.
        andthen (check_serving s1) (\<lambda>_. Inr stripped))) = Prepared png"
    using assms(2) by (auto simp: input_submitted_def split: if_splits)
  from from_body_Prepared [OF p] obtain data where
    "read_body (nat (pc_upload_limit_bytes cfg)) (rq_headers rq) (rq_messages rq) = Body data" "strip_png data = Inr png"
    "take 16 (sha256 png) = take 16 (drop 4 name)" "check_serving s1 = Inr ()"
    by (fastforce simp: andthen_Inr_iff split: sum.splits)
  moreover from this have "strip_png png = Inr png" by (simp add: stripped_png_again)
  moreover have "ca_cls ca = Internal" using assms(1) by (auto simp: input_caller_def andthen_Inr_iff)
  ultimately show ?thesis
    using input_name_parts [OF n] by (auto simp: check_serving_Inr_iff status_def)
qed

definition sample_internal :: key where
  "sample_internal = \<lparr>k_digest = replicate 16 (CHR ''a''), k_label = ''lab'', k_classes = {Internal}, k_default = Some Internal,
     k_scopes = True, k_control = False, k_metrics = False, k_vision = False\<rparr>"

definition sample_put :: request where
  "sample_put = \<lparr>rq_headers = [(''authorization'', ''bearer x''), (''content-type'', '' Image/PNG ; q=1'')],
     rq_messages = [Request_body sample_png False]\<rparr>"

theorem input_named_by_content_witness:
  "\<exists>png. input_submitted (\<lambda>_. replicate 16 (CHR ''a'')) (sample_picture_config\<lparr>pc_keys := [sample_internal]\<rparr>)
      ''ref-aaaaaaaaaaaaaaaa.png'' sample_put ready_pictures = Prepared png \<and> strip_png png = Inr png"
proof -
  let ?cfg = "sample_picture_config\<lparr>pc_keys := [sample_internal]\<rparr>" and ?sha = "\<lambda>_. replicate 16 (CHR ''a'')"
  have c: "input_caller ?sha ?cfg sample_put ready_pictures =
      Inr \<lparr>ca_key = sample_internal, ca_cls = Internal, ca_scope = Some ''internal''\<rparr>"
    by (simp add: input_caller_def ready_caller_def authorize_def authenticate_def find_key_def bytes_lower_def less_eq_char_def
        authorization_def header_def CLASS_HEADER_def SCOPE_HEADER_def sample_put_def sample_internal_def resolve_def outside_def
        check_serving_def status_def ready_pictures_def picture_service_init_def lifecycle_init_def lifecycle.defs require_def)
  have "content_type_of sample_put = ''image/png''" "INPUT_NAME ''ref-aaaaaaaaaaaaaaaa.png''"
    by code_simp+
  moreover have "read_body 100 (rq_headers sample_put) (rq_messages sample_put) = Body sample_png" by code_simp
  moreover have "strip_png sample_png = Inr (PNG_SIGNATURE @ sample_chunk ''IHDR'' @ sample_chunk ''IEND'')" by code_simp
  moreover have "replicate 16 (CHR ''a'') = ''aaaaaaaaaaaaaaaa''" by code_simp
  ultimately have p: "input_submitted ?sha ?cfg ''ref-aaaaaaaaaaaaaaaa.png'' sample_put ready_pictures =
      Prepared (PNG_SIGNATURE @ sample_chunk ''IHDR'' @ sample_chunk ''IEND'')"
    by (simp add: input_submitted_def from_body_def sample_picture_config_def require_def check_serving_def status_def
        ready_pictures_def picture_service_init_def lifecycle_init_def lifecycle.defs)
  with input_named_by_content [OF c p] show ?thesis by blast
qed

end
