(* ===== verification/Image_Sweeper.thy ===== *)
theory Image_Sweeper
  imports Python_Floats
begin

text \<open>
  The sweeper beside ComfyUI, \<^verbatim>\<open>card/pictures/image-sweeper.py\<close>: which temp files the records name, which records
  are stale, the walk that deletes what is due, and the loop with the rows that it prints. The answers of the
  server, the clock and what the file system says to each call are arguments; a name of a directory entry
  holds no slash.
\<close>

subsection \<open>The server's process and failures\<close>

datatype kill_answer =
    No_process
  | Not_permitted
  | Signalled

definition byte_words :: "string \<Rightarrow> string list" where
  "byte_words s = filter (\<lambda>w. w \<noteq> [])
     (split_on (CHR '' '') (map (\<lambda>c. if of_char c \<in> {9, 10, 11, 12, 13, 32 :: nat} then CHR '' '' else c) s))"

text \<open>A zombie is gone: the state is the first word after the last parenthesis of its \<^verbatim>\<open>stat\<close>.\<close>

definition alive :: "kill_answer \<Rightarrow> string option \<Rightarrow> bool" where
  "alive kill stat =
    (case kill of
       No_process \<Rightarrow> False
     | Not_permitted \<Rightarrow> True
     | Signalled \<Rightarrow>
         (case stat of
            None \<Rightarrow> True
          | Some s \<Rightarrow>
              CHR '')'' \<in> set s \<longrightarrow>
              (case byte_words (rev (takeWhile (\<lambda>c. c \<noteq> CHR '')'') (rev s))) of [] \<Rightarrow> True | w # _ \<Rightarrow> w \<noteq> ''Z'')))"

text \<open>The exceptions that \<^verbatim>\<open>failure_code\<close> tells apart, on their own or as the reason of a \<^verbatim>\<open>URLError\<close>.\<close>

datatype plain_failure =
    Connection_refused
  | Timed_out
  | Not_json
  | Not_unicode
  | Value_failure
  | Os_failure
  | Other_failure

datatype failure =
    Http_failure int
  | Url_failure plain_failure
  | Plain_failure plain_failure

fun failure_code :: "failure \<Rightarrow> string" where
  "failure_code (Http_failure n) = (if 100 \<le> n \<and> n \<le> 599 then ''http_'' @ digits_of (nat n) else ''http_other'')"
| "failure_code (Url_failure p) =
    (if p = Connection_refused then ''connection_refused'' else if p = Timed_out then ''timeout'' else ''os_error'')"
| "failure_code (Plain_failure p) =
    (case p of
       Connection_refused \<Rightarrow> ''connection_refused'' | Timed_out \<Rightarrow> ''timeout'' | Not_json \<Rightarrow> ''invalid_json''
     | Not_unicode \<Rightarrow> ''invalid_json'' | Value_failure \<Rightarrow> ''invalid_shape'' | Os_failure \<Rightarrow> ''os_error''
     | Other_failure \<Rightarrow> ''other'')"

subsection \<open>Paths\<close>

text \<open>\<^verbatim>\<open>os.path.join\<close> and \<^verbatim>\<open>os.path.normpath\<close> of POSIX.\<close>

definition join_path :: "string \<Rightarrow> string \<Rightarrow> string" where
  "join_path a b =
    (if starts ''/'' b then b else if a = [] \<or> last a = CHR ''/'' then a @ b else a @ ''/'' @ b)"

definition path_root :: "string \<Rightarrow> string" where
  "path_root p =
    (case length (takeWhile (\<lambda>c. c = CHR ''/'') p) of 0 \<Rightarrow> [] | Suc 0 \<Rightarrow> ''/'' | Suc (Suc 0) \<Rightarrow> ''//'' | _ \<Rightarrow> ''/'')"

definition norm_part :: "bool \<Rightarrow> string list \<Rightarrow> string \<Rightarrow> string list" where
  "norm_part rooted parts c =
    (if c = [] \<or> c = ''.'' then parts
     else if c \<noteq> ''..'' \<or> \<not> rooted \<and> parts = [] \<or> parts \<noteq> [] \<and> last parts = ''..'' then parts @ [c]
     else butlast parts)"

definition norm_path :: "string \<Rightarrow> string" where
  "norm_path p =
    (let r = path_root p; q = r @ join_with ''/'' (foldl (norm_part (r \<noteq> [])) [] (split_on (CHR ''/'') p))
     in if q = [] then ''.'' else q)"

subsection \<open>Records\<close>

definition item_names :: "json \<Rightarrow> string list" where
  "item_names item =
    (case item of
       JObj ob \<Rightarrow>
         (case (jget ''type'' ob, jget ''filename'' ob) of
            (JStr t, JStr f) \<Rightarrow>
              if t = ''temp''
              then [norm_path (join_path (case jget ''subfolder'' ob of JStr s \<Rightarrow> s | _ \<Rightarrow> []) f)] else []
          | _ \<Rightarrow> [])
     | _ \<Rightarrow> [])"

definition values_of :: "json \<Rightarrow> json list" where
  "values_of v = (case v of JObj ob \<Rightarrow> map snd ob | _ \<Rightarrow> [])"

definition items_of :: "json \<Rightarrow> json list" where
  "items_of v = (case v of JList l \<Rightarrow> l | _ \<Rightarrow> [])"

definition record_names :: "json \<Rightarrow> string list" where
  "record_names entry =
    (case entry of
       JObj ob \<Rightarrow> [n. output \<leftarrow> values_of (jget ''outputs'' ob), items \<leftarrow> values_of output, item \<leftarrow> items_of items, n \<leftarrow> item_names item]
     | _ \<Rightarrow> [])"

definition named_files :: "obj \<Rightarrow> string set" where
  "named_files history = set (concat (map (\<lambda>(_, entry). record_names entry) history))"

text \<open>A time that a record tells, in seconds. An integer beyond the floats raises \<^verbatim>\<open>OverflowError\<close>.\<close>

datatype stamp =
    Finite rat
  | Infinite bool
  | Not_a_number

fun later_than :: "stamp \<Rightarrow> stamp \<Rightarrow> bool" where
  "later_than Not_a_number _ = False"
| "later_than _ Not_a_number = False"
| "later_than (Finite a) (Finite b) = (a > b)"
| "later_than (Infinite p) (Finite _) = p"
| "later_than (Finite _) (Infinite p) = (\<not> p)"
| "later_than (Infinite p) (Infinite q) = (p \<and> \<not> q)"

definition finite_quotient :: "rat \<Rightarrow> stamp option" where
  "finite_quotient q = (let f = float_near (q / 1000) in if \<bar>f\<bar> < 2 ^ 1024 then Some (Finite f) else None)"

fun stamp_of :: "json \<Rightarrow> (unit + stamp) option" where
  "stamp_of (JInt n) = Some (case finite_quotient (of_int n) of None \<Rightarrow> Inl () | Some t \<Rightarrow> Inr t)"
| "stamp_of (JFloat q) = Some (Inr (Finite (float_near (q / 1000))))"
| "stamp_of (JNonfinite name) =
    Some (Inr (if name = ''Infinity'' then Infinite True else if name = ''-Infinity'' then Infinite False else Not_a_number))"
| "stamp_of _ = None"

definition message_stamp :: "json \<Rightarrow> (unit + stamp) option" where
  "message_stamp message =
    (case message of JList [_, JObj data] \<Rightarrow> stamp_of (jget ''timestamp'' data) | _ \<Rightarrow> None)"

definition latest :: "stamp list \<Rightarrow> stamp option" where
  "latest ts = (case ts of [] \<Rightarrow> None | t # r \<Rightarrow> Some (foldl (\<lambda>a b. if later_than b a then b else a) t r))"

fun all_stamps :: "(unit + stamp) list \<Rightarrow> unit + stamp list" where
  "all_stamps [] = Inr []"
| "all_stamps (Inl _ # _) = Inl ()"
| "all_stamps (Inr t # r) = (case all_stamps r of Inl _ \<Rightarrow> Inl () | Inr ts \<Rightarrow> Inr (t # ts))"

definition ended_at :: "json \<Rightarrow> unit + stamp option" where
  "ended_at entry =
    (case entry of
       JObj ob \<Rightarrow>
         (case jget ''status'' ob of
            JObj st \<Rightarrow>
              (case all_stamps (List.map_filter message_stamp (items_of (jget ''messages'' st))) of
                 Inl _ \<Rightarrow> Inl () | Inr ts \<Rightarrow> Inr (latest ts))
          | _ \<Rightarrow> Inr None)
     | _ \<Rightarrow> Inr None)"

definition past_cap :: "rat \<Rightarrow> rat \<Rightarrow> stamp \<Rightarrow> bool" where
  "past_cap now cap t =
    (case t of Finite e \<Rightarrow> cap \<le> float_near (now - e) | Infinite p \<Rightarrow> \<not> p | Not_a_number \<Rightarrow> False)"

text \<open>The stale records, and when those without a time were first seen.\<close>

fun stale_loop :: "rat \<Rightarrow> rat \<Rightarrow> obj \<Rightarrow> (string \<rightharpoonup> rat) \<Rightarrow> unit + string list \<times> (string \<rightharpoonup> rat)" where
  "stale_loop now cap [] seen = Inr ([], seen)"
| "stale_loop now cap ((k, entry) # rest) seen =
    (case ended_at entry of
       Inl _ \<Rightarrow> Inl ()
     | Inr e \<Rightarrow>
         let seen1 = (if e = None \<and> seen k = None then seen(k \<mapsto> now) else seen);
             t = (case e of Some t \<Rightarrow> t | None \<Rightarrow> Finite (the (seen1 k)))
         in (case stale_loop now cap rest seen1 of
               Inl _ \<Rightarrow> Inl ()
             | Inr (ks, seen2) \<Rightarrow> Inr (if past_cap now cap t then k # ks else ks, seen2)))"

definition stale_records :: "obj \<Rightarrow> rat \<Rightarrow> rat \<Rightarrow> (string \<rightharpoonup> rat) \<Rightarrow> unit + string list \<times> (string \<rightharpoonup> rat)" where
  "stale_records history now cap seen = stale_loop now cap history (seen |` (fst ` set history))"

subsection \<open>The walk\<close>

text \<open>What a directory lists: files and links to files, links to directories, and directories.\<close>

datatype entry =
    A_file
  | A_link
  | A_directory "(string \<times> entry) list"

type_synonym path = "string list"

fun is_directory :: "entry \<Rightarrow> bool" where
  "is_directory (A_directory _) = True"
| "is_directory _ = False"

text \<open>\<^verbatim>\<open>os.walk(temp, topdown=False)\<close>: each directory after those in it, with \<^verbatim>\<open>files + links\<close>.\<close>

definition loose :: "(string \<times> entry) list \<Rightarrow> string list" where
  "loose es = map fst (filter (\<lambda>(_, e). e = A_file) es) @ map fst (filter (\<lambda>(_, e). e = A_link) es)"

fun walk :: "path \<Rightarrow> entry \<Rightarrow> (path \<times> string list) list" where
  "walk dir (A_directory es) = concat (map (\<lambda>(n, e). walk (dir @ [n]) e) es) @ [(dir, loose es)]"
| "walk dir _ = []"

text \<open>What \<^verbatim>\<open>lstat\<close> says of a path, and what a deletion of it does.\<close>

datatype stat_answer =
    Stat_gone
  | Stat_fails
  | Modified rat

datatype delete_answer =
    Deleted
  | Delete_gone
  | Delete_fails

record sweeper_settings =
  ss_grace :: rat
  ss_file_cap :: rat
  ss_history_cap :: rat
  ss_once :: bool

record swept =
  sw_unlinked :: "path list"
  sw_rmdirs :: "path list"
  sw_deleted :: nat
  sw_failed :: nat
  sw_raised :: bool

definition reference :: "path \<Rightarrow> bool" where
  "reference p \<longleftrightarrow> starts ''bot-references/'' (join_with ''/'' p)"

text \<open>A file that goes; \<open>named\<close> is \<open>None\<close> where the history could not be read.\<close>

definition due :: "sweeper_settings \<Rightarrow> rat \<Rightarrow> string set option \<Rightarrow> path \<Rightarrow> rat \<Rightarrow> bool" where
  "due cfg now named p mtime \<longleftrightarrow>
    (let age = float_near (now - mtime);
         unnamed = (case named of None \<Rightarrow> False | Some names \<Rightarrow> join_with ''/'' p \<notin> names)
     in \<not> (age < ss_file_cap cfg \<and> (reference p \<or> \<not> (unnamed \<and> age \<ge> ss_grace cfg))))"

definition sweep_file ::
  "sweeper_settings \<Rightarrow> rat \<Rightarrow> string set option \<Rightarrow> (path \<Rightarrow> stat_answer) \<Rightarrow> (path \<Rightarrow> delete_answer) \<Rightarrow> path \<Rightarrow> swept \<Rightarrow> swept"
where
  "sweep_file cfg now named stat del p s =
    (if sw_raised s then s
     else case stat p of
       Stat_gone \<Rightarrow> s
     | Stat_fails \<Rightarrow> s\<lparr>sw_raised := True\<rparr>
     | Modified mtime \<Rightarrow>
         if due cfg now named p mtime
         then s\<lparr>sw_unlinked := sw_unlinked s @ [p],
             sw_deleted := sw_deleted s + (if del p = Deleted then 1 else 0),
             sw_failed := sw_failed s + (if del p = Delete_fails then 1 else 0)\<rparr>
         else s)"

text \<open>A subfolder as old as the grace; \<^verbatim>\<open>rmdir\<close> refuses one that is not empty, and no failure counts.\<close>

definition sweep_folder :: "sweeper_settings \<Rightarrow> rat \<Rightarrow> (path \<Rightarrow> stat_answer) \<Rightarrow> path \<Rightarrow> swept \<Rightarrow> swept" where
  "sweep_folder cfg now stat dir s =
    (if sw_raised s \<or> dir = [] then s
     else case stat dir of
       Modified mtime \<Rightarrow> if ss_grace cfg \<le> float_near (now - mtime) then s\<lparr>sw_rmdirs := sw_rmdirs s @ [dir]\<rparr> else s
     | _ \<Rightarrow> s)"

definition sweep_entry ::
  "sweeper_settings \<Rightarrow> rat \<Rightarrow> string set option \<Rightarrow> (path \<Rightarrow> stat_answer) \<Rightarrow> (path \<Rightarrow> delete_answer) \<Rightarrow> swept \<Rightarrow> path \<times> string list \<Rightarrow> swept"
where
  "sweep_entry cfg now named stat del s = (\<lambda>(dir, names).
    sweep_folder cfg now stat dir (foldl (\<lambda>s n. sweep_file cfg now named stat del (dir @ [n]) s) s names))"

definition sweep_init :: swept where
  "sweep_init = \<lparr>sw_unlinked = [], sw_rmdirs = [], sw_deleted = 0, sw_failed = 0, sw_raised = False\<rparr>"

definition sweep_temp ::
  "sweeper_settings \<Rightarrow> rat \<Rightarrow> string set option \<Rightarrow> (path \<Rightarrow> stat_answer) \<Rightarrow> (path \<Rightarrow> delete_answer) \<Rightarrow> entry \<Rightarrow> swept"
where
  "sweep_temp cfg now named stat del tree = foldl (sweep_entry cfg now named stat del) sweep_init (walk [] tree)"

subsection \<open>The loop\<close>

text \<open>What one pass meets; \<open>ps_unlisted\<close> is the failure where a stat raises.\<close>

record pass_input =
  ps_alive :: bool
  ps_now :: rat
  ps_history :: "failure + obj"
  ps_delete :: "failure + unit"
  ps_tree :: entry
  ps_stat :: "path \<Rightarrow> stat_answer"
  ps_del :: "path \<Rightarrow> delete_answer"
  ps_raised :: failure

record sweeper =
  sr_seen :: "string \<rightharpoonup> rat"
  sr_unreadable :: "string option"
  sr_rows :: "obj list"

datatype pass_end =
    Sleeps
  | Returns
  | Crashes

definition sweeper_row_of :: "string \<Rightarrow> obj \<Rightarrow> obj" where
  "sweeper_row_of ev fs = (''event'', JStr ev) # fs"

definition emit :: "string \<Rightarrow> obj \<Rightarrow> sweeper \<Rightarrow> sweeper" where
  "emit ev fs s = s\<lparr>sr_rows := sr_rows s @ [sweeper_row_of ev fs]\<rparr>"

definition started_row :: "sweeper_settings \<Rightarrow> obj" where
  "started_row cfg = [(''graceSeconds'', JFloat (ss_grace cfg)), (''fileCapSeconds'', JFloat (ss_file_cap cfg)),
     (''historyCapSeconds'', JFloat (ss_history_cap cfg))]"

definition sweeper_init :: "sweeper_settings \<Rightarrow> sweeper" where
  "sweeper_init cfg = emit ''sweeper_started'' (started_row cfg) \<lparr>sr_seen = Map.empty, sr_unreadable = None, sr_rows = []\<rparr>"

definition note_history :: "failure + obj \<Rightarrow> sweeper \<Rightarrow> sweeper" where
  "note_history r s =
    (case r of
       Inr _ \<Rightarrow> if sr_unreadable s = None then s else emit ''history_readable'' [] (s\<lparr>sr_unreadable := None\<rparr>)
     | Inl e \<Rightarrow>
         let code = failure_code e
         in if sr_unreadable s = Some code then s
            else emit ''history_unreadable'' [(''code'', JStr code)] (s\<lparr>sr_unreadable := Some code\<rparr>))"

text \<open>The records that are deleted are gone from the history that the sweep of this pass reads.\<close>

definition drop_records :: "failure + unit \<Rightarrow> string list \<Rightarrow> obj \<Rightarrow> sweeper \<Rightarrow> obj \<times> nat \<times> sweeper" where
  "drop_records r stale history s =
    (if stale = [] then (history, 0, s)
     else case r of
       Inr _ \<Rightarrow> (filter (\<lambda>(k, _). k \<notin> set stale) history, length stale, s)
     | Inl e \<Rightarrow> (history, 0,
         emit ''records_undeleted'' [(''code'', JStr (failure_code e)), (''count'', JInt (int (length stale)))] s))"

definition sweep_rows :: "swept \<Rightarrow> failure \<Rightarrow> nat \<Rightarrow> sweeper \<Rightarrow> sweeper" where
  "sweep_rows sw e dropped s =
    (if sw_raised sw then emit ''sweep_failed'' [(''code'', JStr (failure_code e))] s
     else if sw_deleted sw > 0 \<or> sw_failed sw > 0 \<or> dropped > 0
     then emit ''swept'' [(''files'', JInt (int (sw_deleted sw))), (''failedFiles'', JInt (int (sw_failed sw))),
         (''records'', JInt (int dropped))] s
     else s)"

definition sweeper_pass :: "sweeper_settings \<Rightarrow> pass_input \<Rightarrow> sweeper \<Rightarrow> pass_end \<times> swept \<times> sweeper" where
  "sweeper_pass cfg i s =
    (if \<not> ps_alive i then (Returns, sweep_init, emit ''sweeper_stopped'' [(''reason'', JStr ''server_gone'')] s)
     else
       let s1 = note_history (ps_history i) s;
           swept_with = (\<lambda>named dropped s2.
             let sw = sweep_temp cfg (ps_now i) named (ps_stat i) (ps_del i) (ps_tree i)
             in (if ss_once cfg then Returns else Sleeps, sw, sweep_rows sw (ps_raised i) dropped s2))
       in case ps_history i of
            Inl _ \<Rightarrow> swept_with None 0 s1
          | Inr history \<Rightarrow>
              (case stale_records history (ps_now i) (ss_history_cap cfg) (sr_seen s1) of
                 Inl _ \<Rightarrow> (Crashes, sweep_init, s1)
               | Inr (stale, seen) \<Rightarrow>
                   (case drop_records (ps_delete i) stale history (s1\<lparr>sr_seen := seen\<rparr>) of
                      (left, dropped, s2) \<Rightarrow> swept_with (Some (named_files left)) dropped s2)))"

text \<open>The passes until one returns, as many as their inputs.\<close>

fun sweeper_run :: "sweeper_settings \<Rightarrow> pass_input list \<Rightarrow> sweeper \<Rightarrow> pass_end \<times> sweeper" where
  "sweeper_run cfg [] s = (Sleeps, s)"
| "sweeper_run cfg (i # is) s =
    (case sweeper_pass cfg i s of (e, _, s1) \<Rightarrow> if e = Sleeps then sweeper_run cfg is s1 else (e, s1))"

subsection \<open>What a sweep deletes\<close>

definition walk_files :: "entry \<Rightarrow> path list" where
  "walk_files tree = concat (map (\<lambda>(dir, names). map (\<lambda>n. dir @ [n]) names) (walk [] tree))"

definition goes :: "sweeper_settings \<Rightarrow> rat \<Rightarrow> string set option \<Rightarrow> (path \<Rightarrow> stat_answer) \<Rightarrow> path \<Rightarrow> bool" where
  "goes cfg now named stat p \<longleftrightarrow> (case stat p of Modified mtime \<Rightarrow> due cfg now named p mtime | _ \<Rightarrow> False)"

text \<open>A sweep from one state to another over some files: up to the first stat that raises.\<close>

definition processed ::
  "sweeper_settings \<Rightarrow> rat \<Rightarrow> string set option \<Rightarrow> (path \<Rightarrow> stat_answer) \<Rightarrow> (path \<Rightarrow> delete_answer) \<Rightarrow> path list \<Rightarrow> swept \<Rightarrow> swept \<Rightarrow> bool"
where
  "processed cfg now named stat del ps s s' \<longleftrightarrow>
    (let gone = (if sw_raised s then [] else filter (goes cfg now named stat) (takeWhile (\<lambda>p. stat p \<noteq> Stat_fails) ps))
     in (sw_raised s' \<longleftrightarrow> sw_raised s \<or> \<not> list_all (\<lambda>p. stat p \<noteq> Stat_fails) ps) \<and>
        sw_unlinked s' = sw_unlinked s @ gone \<and>
        sw_deleted s' = sw_deleted s + length (filter (\<lambda>p. del p = Deleted) gone) \<and>
        sw_failed s' = sw_failed s + length (filter (\<lambda>p. del p = Delete_fails) gone))"

lemma processed_none: "processed cfg now named stat del [] s s"
  by (simp add: processed_def)

lemma takeWhile_two: "takeWhile P (xs @ ys) = (if list_all P xs then xs @ takeWhile P ys else takeWhile P xs)"
  by (induction xs) auto

lemma processed_append:
  "processed cfg now named stat del ps s s1 \<Longrightarrow> processed cfg now named stat del qs s1 s2 \<Longrightarrow>
    processed cfg now named stat del (ps @ qs) s s2"
  by (auto simp: processed_def Let_def takeWhile_two list_all_iff takeWhile_eq_all_conv [THEN iffD2])

lemma processed_file: "processed cfg now named stat del [p] s (sweep_file cfg now named stat del p s)"
  by (auto simp: processed_def sweep_file_def goes_def split: stat_answer.splits)

lemma processed_files:
  "processed cfg now named stat del (map (\<lambda>n. dir @ [n]) names) s (foldl (\<lambda>s n. sweep_file cfg now named stat del (dir @ [n]) s) s names)"
proof (induction names rule: rev_induct)
  case (snoc n names)
  from processed_append [OF snoc processed_file] show ?case by simp
qed (simp add: processed_none)

lemma processed_folder:
  "processed cfg now named stat del ps s s' \<Longrightarrow> processed cfg now named stat del ps s (sweep_folder cfg now stat dir s')"
  by (auto simp: processed_def sweep_folder_def Let_def split: stat_answer.splits)

lemma processed_walk:
  "processed cfg now named stat del (concat (map (\<lambda>(dir, names). map (\<lambda>n. dir @ [n]) names) ds)) s
    (foldl (sweep_entry cfg now named stat del) s ds)"
proof (induction ds rule: rev_induct)
  case (snoc d ds)
  obtain dir names where d: "d = (dir, names)" by (cases d)
  show ?case
    using processed_append [OF snoc processed_folder [OF processed_files]] by (simp add: d sweep_entry_def)
qed (simp add: processed_none)

lemma folders_sound:
  assumes "list_all (\<lambda>dir. dir \<in> D \<and> dir \<noteq> [] \<and> (\<exists>m. stat dir = Modified m \<and> ss_grace cfg \<le> float_near (now - m))) (sw_rmdirs s)"
    and "fst ` set ds \<subseteq> D"
  shows "list_all (\<lambda>dir. dir \<in> D \<and> dir \<noteq> [] \<and> (\<exists>m. stat dir = Modified m \<and> ss_grace cfg \<le> float_near (now - m)))
    (sw_rmdirs (foldl (sweep_entry cfg now named stat del) s ds))"
  using assms(2)
proof (induction ds rule: rev_induct)
  case (snoc d ds)
  obtain dir names where d: "d = (dir, names)" by (cases d)
  have f: "sw_rmdirs (foldl (\<lambda>s n. sweep_file cfg now named stat del (dir @ [n]) s) t names) = sw_rmdirs t" for t
    by (induction names rule: rev_induct) (auto simp: sweep_file_def split: stat_answer.splits)
  from snoc show ?case
    by (auto simp: d sweep_entry_def sweep_folder_def f split: stat_answer.splits)
qed (use assms(1) in simp)

text \<open>Where an entry lies below another.\<close>

inductive lies :: "entry \<Rightarrow> path \<Rightarrow> entry \<Rightarrow> bool" where
  here: "lies e [] e"
| below: "(n, e) \<in> set es \<Longrightarrow> lies e p x \<Longrightarrow> lies (A_directory es) (n # p) x"

inductive_cases lies_file: "lies A_file p x"
inductive_cases lies_link: "lies A_link p x"
inductive_cases lies_directory: "lies (A_directory es) p x"

lemma lies_directory_iff:
  "lies (A_directory es) p x \<longleftrightarrow> p = [] \<and> x = A_directory es \<or> (\<exists>n e q. p = n # q \<and> (n, e) \<in> set es \<and> lies e q x)"
  by (auto elim: lies_directory intro: lies.intros)

lemma lies_loose: "x = A_file \<or> x = A_link \<Longrightarrow> lies x q y \<longleftrightarrow> q = [] \<and> y = x"
  by (auto elim: lies_file lies_link intro: lies.intros)

lemma set_loose: "n \<in> set (loose es) \<longleftrightarrow> (n, A_file) \<in> set es \<or> (n, A_link) \<in> set es"
  by (force simp: loose_def)

definition files_from :: "path \<Rightarrow> entry \<Rightarrow> path list" where
  "files_from dir tree = concat (map (\<lambda>(d, names). map (\<lambda>n. d @ [n]) names) (walk dir tree))"

lemma concat_of_concat: "concat (concat xss) = concat (map concat xss)"
  by (induction xss) simp_all

lemma files_from_simps:
  "files_from dir (A_directory es) = concat (map (\<lambda>(n, e). files_from (dir @ [n]) e) es) @ map (\<lambda>n. dir @ [n]) (loose es)"
  "files_from dir A_file = []" "files_from dir A_link = []"
  by (simp_all add: files_from_def map_concat o_def split_def concat_of_concat)

lemma walk_lies:
  "p \<in> set (files_from dir tree) \<longleftrightarrow> (\<exists>q x. p = dir @ q \<and> q \<noteq> [] \<and> (x = A_file \<or> x = A_link) \<and> lies tree q x)"
proof (induction dir tree arbitrary: p rule: walk.induct)
  case (1 dir es)
  show ?case
  proof
    assume "p \<in> set (files_from dir (A_directory es))"
    then consider n e where "(n, e) \<in> set es" "p \<in> set (files_from (dir @ [n]) e)" | n where "n \<in> set (loose es)" "p = dir @ [n]"
      by (auto simp: files_from_simps)
    then show "\<exists>q x. p = dir @ q \<and> q \<noteq> [] \<and> (x = A_file \<or> x = A_link) \<and> lies (A_directory es) q x"
    proof cases
      case (1 n e)
      then obtain q x where "p = (dir @ [n]) @ q" "x = A_file \<or> x = A_link" "lies e q x" using "1.IH" by blast
      moreover from this 1(1) have "lies (A_directory es) (n # q) x" by (intro lies.below)
      ultimately show ?thesis by (intro exI [of _ "n # q"] exI [of _ x]) simp
    next
      case (2 n)
      from 2(1) obtain x where "x = A_file \<or> x = A_link" "(n, x) \<in> set es" by (auto simp: set_loose)
      moreover from this have "lies (A_directory es) [n] x" by (blast intro: lies.below lies.here)
      ultimately show ?thesis using 2(2) by (intro exI [of _ "[n]"] exI [of _ x]) simp
    qed
  next
    assume "\<exists>q x. p = dir @ q \<and> q \<noteq> [] \<and> (x = A_file \<or> x = A_link) \<and> lies (A_directory es) q x"
    then obtain q x where q: "p = dir @ q" "x = A_file \<or> x = A_link" and l: "q \<noteq> []" "lies (A_directory es) q x" by blast
    from l obtain n e r where n: "q = n # r" "(n, e) \<in> set es" "lies e r x" by (auto simp: lies_directory_iff)
    show "p \<in> set (files_from dir (A_directory es))"
    proof (cases "r = []")
      case True
      then have "e = x" using n(3) by (auto elim: lies.cases)
      then have "n \<in> set (loose es)" using q(2) n(2) by (auto simp: set_loose)
      then show ?thesis using q n True by (simp add: files_from_simps)
    next
      case False
      have "p \<in> set (files_from (dir @ [n]) e)"
        unfolding "1.IH" [OF n(2) refl] using False q n by (intro exI [of _ r] exI [of _ x]) simp
      with n(2) show ?thesis by (force simp: files_from_simps)
    qed
  qed
qed (auto simp: files_from_simps elim: lies_file lies_link)

lemma walk_files_all: "p \<in> set (walk_files tree) \<longleftrightarrow> p \<noteq> [] \<and> (lies tree p A_file \<or> lies tree p A_link)"
  using walk_lies [of p "[]" tree] by (auto simp: walk_files_def files_from_def)


text \<open>A record whose timestamp is an integer beyond the floats ends the sweeper: no handler is around \<^verbatim>\<open>stale_records\<close>.\<close>

lemma huge_timestamp_crashes:
  assumes "ps_alive i" "finite_quotient (of_int n) = None"
    "ps_history i = Inr [(k, JObj [(''status'', JObj [(''messages'',
      JList [JList [JStr ''execution_success'', JObj [(''timestamp'', JInt n)]]])])])]"
  shows "fst (sweeper_pass cfg i s) = Crashes"
  using assms
  by (simp add: sweeper_pass_def stale_records_def ended_at_def items_of_def message_stamp_def jget_def List.map_filter_def)

end
