(* ===== verification/Picture_Card.thy ===== *)
theory Picture_Card
  imports Image_Sweeper Engine_Output Card_Consistency Picture_Config
begin

text \<open>
  The picture card's launcher where it differs from the text card's, \<^verbatim>\<open>simple_serving/pictures/card.py\<close>: the two
  commands, the gateway's configuration, and what is kept of the output of ComfyUI and of the sweeper. The environment,
  the files and \<^verbatim>\<open>json.loads\<close> are arguments, and a decoded line is ASCII.
\<close>

subsection \<open>Tables\<close>

definition LOCK :: string where "LOCK = ''.simple-chat-comfy.lock''"

definition SETTINGS :: "(string \<times> string) list" where
  "SETTINGS = [(''SIMPLE_CHAT_GPU_DIR'', ''GPU_DIR''), (''SIMPLE_CHAT_IMAGE_QWEN'', ''IMAGE_QWEN''),
     (''SIMPLE_CHAT_IMAGE_TORCH'', ''IMAGE_TORCH''), (''SIMPLE_CHAT_IMAGE_TRITON'', ''IMAGE_TRITON''),
     (''SIMPLE_CHAT_IMAGE_GPU'', ''IMAGE_GPU''), (''SIMPLE_CHAT_IMAGE_PORT'', ''ENGINE_PORT'')]"

definition PICTURE_FAILURES :: "(string \<times> string list) list" where
  "PICTURE_FAILURES =
    [(''out_of_memory'', [''out of memory'', ''outofmemoryerror'']),
     (''cuda_error'', [''cuda error'', ''cudaerror'', ''cublas_status'']),
     (''bind_failed'', [''address already in use'']),
     (''exception'', [''!!! exception during processing !!!'']),
     (''traceback'', [''traceback (most recent call last)'']),
     (''install_incomplete'', [''image-bootstrap.sh'']),
     (''temp_not_tmpfs'', [''is not a writable tmpfs'', ''on a tmpfs. refusing''])]"

definition PICTURE_WARNINGS :: "(string \<times> string list) list" where
  "PICTURE_WARNINGS =
    [(''partial_load'', [''loaded partially'', ''unloaded partially'']),
     (''attention_fallback'', [''is unavailable; using pytorch attention''])]"

definition SWEEPER :: "(string \<times> (string \<times> string) list) list" where
  "SWEEPER =
    [(''sweeper_started'', [(''graceSeconds'', ''grace_s''), (''fileCapSeconds'', ''file_cap_s''),
        (''historyCapSeconds'', ''history_cap_s'')]),
     (''swept'', [(''files'', ''files''), (''failedFiles'', ''failed_files''), (''records'', ''records'')]),
     (''records_undeleted'', [(''code'', ''code''), (''count'', ''count'')]),
     (''history_unreadable'', [(''code'', ''code'')]), (''history_readable'', []), (''sweep_failed'', [(''code'', ''code'')]),
     (''sweeper_stopped'', [(''reason'', ''reason'')])]"

definition SWEEPER_CODE :: "string \<Rightarrow> bool" where
  "SWEEPER_CODE s \<longleftrightarrow>
    s \<in> {''connection_refused'', ''timeout'', ''invalid_json'', ''invalid_shape'', ''os_error'', ''other'', ''server_gone''} \<or>
    (case after ''http_'' s of
       None \<Rightarrow> False
     | Some r \<Rightarrow> r = ''other'' \<or> length r = 3 \<and> list_all is_digit r \<and> CHR ''1'' \<le> hd r \<and> hd r \<le> CHR ''5'')"

subsection \<open>Commands and configuration\<close>

text \<open>\<open>home\<close> is the directory of the lock. A setting that the manifest lacks is a \<^verbatim>\<open>KeyError\<close>.\<close>

definition settings_of :: "manifest \<Rightarrow> (string \<times> string) list option" where
  "settings_of m = those (map (\<lambda>(n, fd). map_option (Pair n) (m fd)) SETTINGS)"

definition kept_environment :: "(string \<rightharpoonup> string) \<Rightarrow> string \<rightharpoonup> string" where
  "kept_environment environ = (\<lambda>n. if n = ''CONTAINER_API_KEY'' \<or> starts ''SIMPLE_CHAT_'' n then None else environ n)"

definition picture_engine_command :: "(string \<rightharpoonup> string) \<Rightarrow> string \<Rightarrow> card \<Rightarrow> command option" where
  "picture_engine_command environ home c =
    map_option (\<lambda>set_to.
      \<lparr>co_argv = [''flock'', ''-n'', home @ ''/'' @ LOCK, ''bash'', cd_code c @ ''/card/pictures/image-serve.sh''],
       co_env = (kept_environment environ ++ map_of set_to)(''SIMPLE_CHAT_IMAGE_VIGGLE'' \<mapsto> ''false''), co_cwd = None\<rparr>)
      (settings_of (cd_manifest c))"

definition picture_gateway_command :: "(string \<rightharpoonup> string) \<Rightarrow> card \<Rightarrow> command" where
  "picture_gateway_command environ c =
    \<lparr>co_argv = [cd_state c @ ''/gateway/bin/python'', ''-m'', ''simple_serving.pictures''],
     co_env = (environ ++ cd_credential c)(''SIMPLE_SERVING_CONFIG'' \<mapsto> cd_state c @ ''/gateway.json''),
     co_cwd = Some (cd_code c)\<rparr>"

text \<open>The first line \<^verbatim>\<open>commit ...\<close> of \<^verbatim>\<open>SOURCE\<close>.\<close>

definition commit_of :: "string \<Rightarrow> string option" where
  "commit_of line =
    (case after ''commit '' line of None \<Rightarrow> None
     | Some w \<Rightarrow> if w \<noteq> [] \<and> list_all (\<lambda>c. \<not> is_space c) w then Some w else None)"

definition scripts_commit :: "string \<Rightarrow> string option" where
  "scripts_commit source = first_some (map commit_of (split_on (CHR 0x0A) source))"

definition picture_card_config :: "card \<Rightarrow> manifest \<Rightarrow> string \<Rightarrow> key_digests \<Rightarrow> json option" where
  "picture_card_config c pins source d =
    (let m = cd_manifest c in
     Option.bind (m ''MODEL_ALIAS'') (\<lambda>alias.
     Option.bind (m ''ENGINE_PORT'') (\<lambda>engine.
     Option.bind (port_at c ''PUBLIC_PORT'') (\<lambda>public.
     Option.bind (port_at c ''CONTROL_PORT'') (\<lambda>control.
     Option.bind (port_at c ''ENGINE_PORT'') (\<lambda>_.
     Option.bind (m ''READER_NODES'') (\<lambda>nodes.
     Option.bind (pins ''COMFYUI_VERSION'') (\<lambda>comfyui.
     Option.bind (pins ''TORCH_CU130_VERSION'') (\<lambda>torch.
     Option.bind (m ''IMAGE_TRITON'') (\<lambda>triton.
     Option.bind (pins ''COMFYUI_REVISION'') (\<lambda>comfyui_revision.
     Option.bind (pins ''IMAGE_QWEN_REVISION'') (\<lambda>qwen_revision.
     Option.bind (scripts_commit source) (\<lambda>scripts.
     Some (JObj (PICTURE_PROVISIONAL @
       [(''lane'', JStr LANE), (''alias'', JStr alias), (''engine_url'', JStr (''http://127.0.0.1:'' @ engine)),
        (''listen'', listen_json public control), (''keys'', JList (card_keys d False)),
        (''reader_nodes'', JList (map JStr (split_on (CHR '','') nodes))),
        (''expect'', JObj [(''comfyui'', JStr comfyui), (''pytorch'', JStr torch), (''triton'', JBool (triton = ''1''))]),
        (''versions'', JObj [(''comfyui_revision'', JStr comfyui_revision), (''qwen_revision'', JStr qwen_revision),
          (''scripts_commit'', JStr scripts)])])))))))))))))))"

subsection \<open>Output\<close>

definition sweeper_value :: "string \<Rightarrow> json \<Rightarrow> json option" where
  "sweeper_value fd v =
    (if fd = ''code'' \<or> fd = ''reason''
     then (case v of JStr s \<Rightarrow> if SWEEPER_CODE s then Some (JStr s) else None | _ \<Rightarrow> None)
     else (case as_number v of
         None \<Rightarrow> None
       | Some q \<Rightarrow> if 0 \<le> q \<and> q < 10 ^ 9 then Some (JInt (round_half_even q)) else None))"

definition sweeper_fields :: "(string \<times> string) list \<Rightarrow> obj \<Rightarrow> obj" where
  "sweeper_fields table row =
    List.map_filter (\<lambda>(name, fd). map_option (Pair fd) (sweeper_value fd (jget name row))) table"

text \<open>The line as \<^verbatim>\<open>json.loads\<close> reads it, \<open>None\<close> where it raises.\<close>

definition sweeper_row :: "json option \<Rightarrow> (string \<times> obj) option" where
  "sweeper_row parsed =
    (case parsed of
       Some (JObj row) \<Rightarrow>
         (case jget ''event'' row of
            JStr ev \<Rightarrow> map_option (\<lambda>table. (ev, sweeper_fields table row)) (map_of SWEEPER ev)
          | _ \<Rightarrow> None)
     | _ \<Rightarrow> None)"

definition note_picture_category ::
  "string \<times> (string \<times> string list) list \<Rightarrow> string \<Rightarrow> (string \<times> obj) list \<times> string set \<Rightarrow> (string \<times> obj) list \<times> string set"
where
  "note_picture_category ec lowered st =
    (case (ec, st) of ((ev, T), (rows, noted)) \<Rightarrow>
       (case category_of T lowered of
          None \<Rightarrow> st
        | Some c \<Rightarrow> if c \<in> noted then st else (rows @ [(ev, [(''code'', JStr c)])], insert c noted)))"

definition picture_engine_line ::
  "(string \<Rightarrow> json option) \<Rightarrow> (string \<Rightarrow> string) \<Rightarrow> string set \<Rightarrow> string \<Rightarrow> (string \<times> obj) list \<times> string set"
where
  "picture_engine_line loads decode noted line =
    (case sweeper_row (loads line) of
       Some row \<Rightarrow> ([row], noted)
     | None \<Rightarrow>
         foldl (\<lambda>st ec. note_picture_category ec (lower (decode line)) st) ([], noted)
           [(''engine_failure'', PICTURE_FAILURES), (''engine_warning'', PICTURE_WARNINGS)])"

subsection \<open>What a row may hold\<close>

definition picture_value_ok :: "string \<times> json \<Rightarrow> bool" where
  "picture_value_ok = (\<lambda>(fd, v).
    if fd = ''code'' \<or> fd = ''reason'' then (\<exists>s. v = JStr s \<and> SWEEPER_CODE s)
    else \<exists>n. v = JInt n \<and> 0 \<le> n \<and> n \<le> 10 ^ 9)"

definition picture_row_ok :: "string \<times> obj \<Rightarrow> bool" where
  "picture_row_ok = (\<lambda>(ev, fs).
    (\<exists>table. map_of SWEEPER ev = Some table \<and> set (map fst fs) \<subseteq> snd ` set table \<and> list_all picture_value_ok fs) \<or>
    (\<exists>c. (ev = ''engine_failure'' \<and> c \<in> fst ` set PICTURE_FAILURES \<or> ev = ''engine_warning'' \<and> c \<in> fst ` set PICTURE_WARNINGS) \<and>
      fs = [(''code'', JStr c)]))"

lemma round_bounds: "0 \<le> q \<Longrightarrow> q < 10 ^ 9 \<Longrightarrow> 0 \<le> round_half_even q \<and> round_half_even q \<le> 10 ^ 9"
proof -
  assume "0 \<le> q" "q < 10 ^ 9"
  then have "0 \<le> \<lfloor>q\<rfloor>" "\<lfloor>q\<rfloor> < 10 ^ 9" by (simp_all add: floor_less_iff)
  then show ?thesis by (simp add: round_half_even_def Let_def)
qed

lemma sweeper_value_ok: "sweeper_value fd v = Some w \<Longrightarrow> picture_value_ok (fd, w)"
  using round_bounds by (auto simp: sweeper_value_def picture_value_ok_def split: if_splits json.splits option.splits)

lemma in_sweeper_fields:
  "(fd, w) \<in> set (sweeper_fields table row) \<Longrightarrow> \<exists>name. (name, fd) \<in> set table \<and> sweeper_value fd (jget name row) = Some w"
  by (auto simp: sweeper_fields_def List.map_filter_def)

lemma sweeper_row_ok:
  assumes "sweeper_row parsed = Some row"
  shows "picture_row_ok row"
proof -
  obtain ob ev table where "map_of SWEEPER ev = Some table" "row = (ev, sweeper_fields table ob)"
    using assms by (auto simp: sweeper_row_def split: option.splits json.splits)
  moreover have "list_all picture_value_ok (sweeper_fields table ob)" "fst ` set (sweeper_fields table ob) \<subseteq> snd ` set table"
    by (auto simp: list_all_iff dest!: in_sweeper_fields intro: sweeper_value_ok) force
  ultimately show ?thesis by (auto simp: picture_row_ok_def)
qed

lemma note_picture_category_cases:
  assumes "note_picture_category (ev, T) t (rows, noted) = (rows', noted')"
  obtains "rows' = rows" "noted' = noted"
  | c where "c \<in> fst ` set T" "c \<notin> noted" "rows' = rows @ [(ev, [(''code'', JStr c)])]" "noted' = insert c noted"
proof (cases "category_of T t")
  case None
  with assms that(1) show ?thesis by (simp add: note_picture_category_def)
next
  case (Some c)
  show ?thesis
  proof (cases "c \<in> noted")
    case True
    with assms Some that(1) show ?thesis by (simp add: note_picture_category_def)
  next
    case False
    with assms Some that(2) [OF category_in [OF Some]] show ?thesis by (simp add: note_picture_category_def)
  qed
qed

lemma category_row_ok:
  "c \<in> fst ` set PICTURE_FAILURES \<Longrightarrow> picture_row_ok (''engine_failure'', [(''code'', JStr c)])"
  "c \<in> fst ` set PICTURE_WARNINGS \<Longrightarrow> picture_row_ok (''engine_warning'', [(''code'', JStr c)])"
  unfolding picture_row_ok_def by blast+

lemma new_category: "c \<notin> noted \<Longrightarrow> card (insert c noted - noted) = 1"
  by (simp add: insert_Diff_if)

lemma new_categories:
  assumes "c \<notin> noted" "d \<notin> insert c noted"
  shows "card (insert d (insert c noted) - noted) = 2"
proof -
  have "insert d (insert c noted) - noted = {d, c}" using assms by (simp add: insert_Diff_if)
  moreover have "d \<noteq> c" using assms(2) by simp
  ultimately show ?thesis by simp
qed

text \<open>
  Whatever the card's engine or its sweeper prints, the log gets no text of it: a row is one of the sweeper's, with
  numbers from nought to a thousand million and codes of a closed set, or a category of failure or warning from the
  fixed tables; and a category is logged once, when it is first noted.
\<close>

theorem picture_output_private:
  "list_all picture_row_ok (fst (picture_engine_line loads decode noted line)) \<and>
    noted \<subseteq> snd (picture_engine_line loads decode noted line) \<and>
    snd (picture_engine_line loads decode noted line) \<subseteq> noted \<union> fst ` set PICTURE_FAILURES \<union> fst ` set PICTURE_WARNINGS \<and>
    (sweeper_row (loads line) = None \<and>
       length (fst (picture_engine_line loads decode noted line)) = card (snd (picture_engine_line loads decode noted line) - noted) \<or>
     length (fst (picture_engine_line loads decode noted line)) = 1 \<and> snd (picture_engine_line loads decode noted line) = noted)"
proof (cases "sweeper_row (loads line)")
  case (Some row)
  then show ?thesis using sweeper_row_ok [OF Some] by (auto simp: picture_engine_line_def)
next
  case None
  define t where "t = lower (decode line)"
  obtain r1 n1 where n1: "note_picture_category (''engine_failure'', PICTURE_FAILURES) t ([], noted) = (r1, n1)" by fastforce
  obtain r2 n2 where n2: "note_picture_category (''engine_warning'', PICTURE_WARNINGS) t (r1, n1) = (r2, n2)" by fastforce
  have p: "picture_engine_line loads decode noted line = (r2, n2)"
    using None n1 n2 by (simp add: picture_engine_line_def t_def)
  note ok = category_row_ok
  from n1 show ?thesis
  proof (cases rule: note_picture_category_cases)
    case 1
    from n2 show ?thesis
    proof (cases rule: note_picture_category_cases)
      case (2 d)
      with 1 show ?thesis unfolding p by (simp add: None ok(2) new_category) blast
    qed (auto simp: p None 1)
  next
    case (2 c)
    from n2 show ?thesis
    proof (cases rule: note_picture_category_cases)
      case 1
      with 2 show ?thesis unfolding p by (simp add: None ok(1) new_category) blast
    next
      case (2 d)
      with \<open>c \<in> _\<close> \<open>c \<notin> noted\<close> \<open>r1 = _\<close> \<open>n1 = _\<close> show ?thesis
        unfolding p by (simp add: None ok new_categories) blast
    qed
  qed
qed

subsection \<open>The sweeper and the launcher\<close>

text \<open>A row that the filter takes whole: each code stays, and each count below a thousand million.\<close>

definition passes :: "obj \<Rightarrow> bool" where
  "passes row \<longleftrightarrow>
    (\<exists>ev table fs. jget ''event'' row = JStr ev \<and> map_of SWEEPER ev = Some table \<and> sweeper_row (Some (JObj row)) = Some (ev, fs) \<and>
      set (map fst row) = insert ''event'' (fst ` set table) \<and>
      (\<forall>(name, fd) \<in> set table. case jget name row of
         JStr c \<Rightarrow> (fd, JStr c) \<in> set fs
       | JInt n \<Rightarrow> (0 \<le> n \<and> n < 10 ^ 9 \<longrightarrow> (fd, JInt n) \<in> set fs)
       | JFloat q \<Rightarrow> (0 \<le> q \<and> q < 10 ^ 9 \<longrightarrow> (fd, JInt (round_half_even q)) \<in> set fs)
       | _ \<Rightarrow> False))"

lemma digits_of_three:
  assumes "100 \<le> n" "n \<le> 599"
  shows "length (digits_of n) = 3 \<and> list_all is_digit (digits_of n) \<and> CHR ''1'' \<le> hd (digits_of n) \<and> hd (digits_of n) \<le> CHR ''5''"
proof -
  have "\<not> n < 10" "\<not> n div 10 < 10" "n div 100 < 10" "n div 10 div 10 = n div 100"
    using assms by (linarith, linarith, linarith, simp add: div_mult2_eq [symmetric])
  then have d: "digits_of n = [char_of (48 + n div 100), char_of (48 + n div 10 mod 10), char_of (48 + n mod 10)]"
    by (simp add: digits_of.simps [of n] digits_of.simps [of "n div 10"] digits_of.simps [of "n div 100"])
  have "1 \<le> n div 100" "n div 100 \<le> 5" using assms by linarith+
  moreover have "k mod 10 \<le> 9" for k :: nat by (rule less_Suc_eq_le [THEN iffD1]) simp
  ultimately show ?thesis unfolding d by (simp add: is_digit_def less_eq_char_def)
qed

lemma failure_code_known: "SWEEPER_CODE (failure_code e)"
proof (cases e)
  case (Http_failure n)
  show ?thesis
  proof (cases "100 \<le> n \<and> n \<le> 599")
    case True
    then have "100 \<le> nat n" "nat n \<le> 599" by linarith+
    from digits_of_three [OF this] True show ?thesis by (simp add: Http_failure SWEEPER_CODE_def after_def)
  next
    case False
    then have "failure_code e = ''http_other''" by (simp only: Http_failure failure_code.simps if_False)
    then show ?thesis by (simp add: SWEEPER_CODE_def after_def)
  qed
next
  case (Url_failure p)
  then show ?thesis by (simp add: SWEEPER_CODE_def)
next
  case (Plain_failure p)
  then show ?thesis by (cases p) (simp_all add: SWEEPER_CODE_def)
qed

lemma int_sweeper_value:
  "fd \<noteq> ''code'' \<Longrightarrow> fd \<noteq> ''reason'' \<Longrightarrow> sweeper_value fd (JInt n) = (if 0 \<le> n \<and> n < 10 ^ 9 then Some (JInt n) else None)"
proof -
  have "(of_int n :: rat) < 10 ^ 9 \<longleftrightarrow> n < 10 ^ 9" by (metis of_int_less_iff of_int_numeral of_int_power)
  moreover assume "fd \<noteq> ''code''" "fd \<noteq> ''reason''"
  ultimately show ?thesis by (simp add: sweeper_value_def)
qed

lemma code_sweeper_value: "SWEEPER_CODE c \<Longrightarrow> fd = ''code'' \<or> fd = ''reason'' \<Longrightarrow> sweeper_value fd (JStr c) = Some (JStr c)"
  by (auto simp: sweeper_value_def)

lemma gone_sweeper_value: "sweeper_value ''reason'' (JStr ''server_gone'') = Some (JStr ''server_gone'')"
  by (simp add: sweeper_value_def SWEEPER_CODE_def)

lemma float_sweeper_value:
  "fd \<noteq> ''code'' \<Longrightarrow> fd \<noteq> ''reason'' \<Longrightarrow>
    sweeper_value fd (JFloat q) = (if 0 \<le> q \<and> q < 10 ^ 9 then Some (JInt (round_half_even q)) else None)"
  by (simp add: sweeper_value_def)

lemmas passes_simps = passes_def sweeper_row_of_def jget_def SWEEPER_def sweeper_row_def sweeper_fields_def
  List.map_filter_def code_sweeper_value int_sweeper_value float_sweeper_value gone_sweeper_value failure_code_known

lemma rows_pass:
  "passes (sweeper_row_of ''sweeper_started'' (started_row cfg))"
  "passes (sweeper_row_of ''history_readable'' [])"
  "passes (sweeper_row_of ''history_unreadable'' [(''code'', JStr (failure_code e))])"
  "passes (sweeper_row_of ''sweep_failed'' [(''code'', JStr (failure_code e))])"
  "passes (sweeper_row_of ''records_undeleted'' [(''code'', JStr (failure_code e)), (''count'', JInt n)])"
  "passes (sweeper_row_of ''swept'' [(''files'', JInt n), (''failedFiles'', JInt m), (''records'', JInt k)])"
  "passes (sweeper_row_of ''sweeper_stopped'' [(''reason'', JStr ''server_gone'')])"
  by (auto simp: passes_simps started_row_def)

lemma emit_passes: "list_all passes (sr_rows (emit ev fs s)) \<longleftrightarrow> list_all passes (sr_rows s) \<and> passes (sweeper_row_of ev fs)"
  by (simp add: emit_def)

lemma pass_rows:
  assumes "sweeper_pass cfg i s = (e, sw, s1)" "list_all passes (sr_rows s)"
  shows "list_all passes (sr_rows s1)"
proof -
  have n: "list_all passes (sr_rows (note_history r t))" if "list_all passes (sr_rows t)" for r t
    using that by (auto simp: note_history_def Let_def emit_passes rows_pass split: sum.splits)
  have w: "list_all passes (sr_rows (sweep_rows sw' f k t))" if "list_all passes (sr_rows t)" for sw' f k t
    using that by (simp add: sweep_rows_def emit_passes rows_pass)
  have d: "list_all passes (sr_rows t')" if "drop_records r stale h t = (left, k, t')" "list_all passes (sr_rows t)" for r stale h t left k t'
    using that by (auto simp: drop_records_def emit_passes rows_pass split: if_splits sum.splits)
  show ?thesis
  proof (cases "ps_alive i")
    case False
    with assms show ?thesis by (auto simp: sweeper_pass_def emit_passes rows_pass)
  next
    case True
    note n1 = n [OF assms(2), of "ps_history i"]
    show ?thesis
    proof (cases "ps_history i")
      case (Inl f)
      with True assms(1) w [OF n1] show ?thesis by (auto simp: sweeper_pass_def Let_def)
    next
      case (Inr h)
      show ?thesis
      proof (cases "stale_records h (ps_now i) (ss_history_cap cfg) (sr_seen (note_history (ps_history i) s))")
        case (Inl u)
        with True Inr assms(1) n1 show ?thesis by (auto simp: sweeper_pass_def Let_def)
      next
        case s: (Inr p)
        obtain stale seen where p: "p = (stale, seen)" by (cases p)
        obtain left k t where t: "drop_records (ps_delete i) stale h ((note_history (ps_history i) s)\<lparr>sr_seen := seen\<rparr>) = (left, k, t)"
          by (cases "drop_records (ps_delete i) stale h ((note_history (ps_history i) s)\<lparr>sr_seen := seen\<rparr>)")
        from n1 have "list_all passes (sr_rows t)" by (intro d [OF t]) simp
        from w [OF this] True Inr s p t assms(1) show ?thesis by (auto simp: sweeper_pass_def Let_def)
      qed
    qed
  qed
qed

lemma run_rows: "list_all passes (sr_rows s) \<Longrightarrow> list_all passes (sr_rows (snd (sweeper_run cfg is s)))"
proof (induction "is" arbitrary: s)
  case (Cons i "is")
  obtain e sw s1 where p: "sweeper_pass cfg i s = (e, sw, s1)" by (cases "sweeper_pass cfg i s")
  from Cons.IH [OF pass_rows [OF p Cons.prems]] pass_rows [OF p Cons.prems] show ?case by (simp add: p)
qed simp

text \<open>
  C34: The sweeper and the launcher agree on every row: whatever the sweeper meets, each row that it prints is one the
  launcher knows, with exactly the fields it knows, and passes the launcher's filter with its codes as they are, its
  counts as they are below a thousand million, and its seconds as whole numbers.
\<close>

theorem sweeper_rows_pass: "list_all passes (sr_rows (snd (sweeper_run cfg is (sweeper_init cfg))))"
  by (rule run_rows) (simp add: sweeper_init_def emit_passes rows_pass)

subsection \<open>The two processes agree\<close>

text \<open>What the preparation of a card checks of its manifest, its pins and its keys.\<close>

definition picture_checked :: "card \<Rightarrow> manifest \<Rightarrow> key_digests \<Rightarrow> bool" where
  "picture_checked c pins d \<longleftrightarrow>
    digests_ok d \<and> cd_manifest c ''MODEL_ALIAS'' \<noteq> Some [] \<and> pins ''COMFYUI_VERSION'' \<noteq> Some [] \<and>
    pins ''TORCH_CU130_VERSION'' \<noteq> Some [] \<and>
    list_all (\<lambda>p. case port_at c p of None \<Rightarrow> False | Some k \<Rightarrow> 0 \<le> k \<and> k < 65536) [''PUBLIC_PORT'', ''CONTROL_PORT''] \<and>
    (case cd_manifest c ''READER_NODES'' of None \<Rightarrow> False | Some s \<Rightarrow> list_all NODE_CLASS (split_on (CHR '','') s))"

lemma those_strings: "those (map (as_str \<circ> JStr) l) = Some l"
  by (induction l) simp_all

lemma nodes_load: "l \<noteq> [] \<Longrightarrow> list_all NODE_CLASS l \<Longrightarrow> cfg_nodes (JList (map JStr l)) = Inr l"
  by (simp add: cfg_nodes_def those_strings refuse_def)

lemma provisional_pictures_load:
  "\<exists>g. per_class (\<lambda>n v. cfg_picture_limits v (''limits.'' @ n)) PROVISIONAL_LIMITS = Inr g"
proof -
  have l: "cfg_picture_limits (picture_limits_json n m u) path = Inr \<lparr>pl_jobs = n, pl_wall_s = of_int m, pl_uploads = u\<rparr>"
    if "0 \<le> n" "0 \<le> u" "0 < m" "m < 2 ^ 53" for n m u path
    using that by (simp add: sample_picture_limits_load cfg_seconds_small)
  show ?thesis by (simp add: per_class_def CLASSES_def PROVISIONAL_LIMITS_def jget_def l)
qed

lemma settings_lookup:
  assumes "settings_of m = Some l"
  shows "map_of l ''SIMPLE_CHAT_IMAGE_PORT'' = m ''ENGINE_PORT''" "map_of l ''SIMPLE_CHAT_IMAGE_TRITON'' = m ''IMAGE_TRITON''"
    "map_of l ''CONTAINER_API_KEY'' = None"
  using assms by (auto simp: settings_of_def SETTINGS_def those_Cons simp del: those.simps(2))


definition sample_picture_manifest :: manifest where
  "sample_picture_manifest = map_of
    [(''MODEL_ALIAS'', ''pictures''), (''ENGINE_PORT'', ''8188''), (''PUBLIC_PORT'', ''8080''), (''CONTROL_PORT'', ''8081''),
     (''READER_NODES'', ''KSampler,VAELoader''), (''GPU_DIR'', ''/g''), (''IMAGE_QWEN'', ''1''), (''IMAGE_TORCH'', ''cu130''),
     (''IMAGE_TRITON'', ''1''), (''IMAGE_GPU'', ''0'')]"

definition sample_picture_card :: card where
  "sample_picture_card = \<lparr>cd_code = ''/c'', cd_state = ''/s'', cd_manifest = sample_picture_manifest, cd_credential = Map.empty\<rparr>"

definition sample_pins :: manifest where
  "sample_pins = map_of
    [(''COMFYUI_VERSION'', ''0.9''), (''TORCH_CU130_VERSION'', ''2.9''), (''COMFYUI_REVISION'', ''a1''), (''IMAGE_QWEN_REVISION'', ''b2'')]"

lemma sample_picture_lookup:
  "sample_picture_manifest ''MODEL_ALIAS'' = Some ''pictures''" "sample_picture_manifest ''ENGINE_PORT'' = Some ''8188''"
  "sample_picture_manifest ''PUBLIC_PORT'' = Some ''8080''" "sample_picture_manifest ''CONTROL_PORT'' = Some ''8081''"
  "sample_picture_manifest ''READER_NODES'' = Some ''KSampler,VAELoader''" "sample_picture_manifest ''GPU_DIR'' = Some ''/g''"
  "sample_picture_manifest ''IMAGE_QWEN'' = Some ''1''" "sample_picture_manifest ''IMAGE_TORCH'' = Some ''cu130''"
  "sample_picture_manifest ''IMAGE_TRITON'' = Some ''1''" "sample_picture_manifest ''IMAGE_GPU'' = Some ''0''"
  by code_simp+

lemma sample_pins_lookup:
  "sample_pins ''COMFYUI_VERSION'' = Some ''0.9''" "sample_pins ''TORCH_CU130_VERSION'' = Some ''2.9''"
  "sample_pins ''COMFYUI_REVISION'' = Some ''a1''" "sample_pins ''IMAGE_QWEN_REVISION'' = Some ''b2''"
  by code_simp+

lemma sample_picture_ports:
  "port_at sample_picture_card ''PUBLIC_PORT'' = Some 8080" "port_at sample_picture_card ''CONTROL_PORT'' = Some 8081"
  "port_at sample_picture_card ''ENGINE_PORT'' = Some 8188"
  by (simp_all add: port_at_def int_at_def sample_picture_card_def sample_picture_lookup py_int_def strip_def lstrip_def
      is_space_def digits_int_def of_digits_def hex_value_def is_digit_def less_eq_char_def)

lemma sample_nodes: "split_on (CHR '','') ''KSampler,VAELoader'' = [''KSampler'', ''VAELoader'']"
  "list_all NODE_CLASS [''KSampler'', ''VAELoader'']"
  by code_simp+

lemma sample_scripts_commit: "scripts_commit ''commit c0ffee'' = Some ''c0ffee''"
  by code_simp

lemma sample_picture_checked: "picture_checked sample_picture_card sample_pins sample_digests"
  by (simp add: picture_checked_def digests_ok_def sample_digests_def sample_digest_ok Let_def sample_picture_ports
      sample_pins_lookup sample_nodes [simplified]) (simp add: sample_picture_card_def sample_picture_lookup sample_nodes [simplified])


end
