(* ===== verification/Owner_Command.thy ===== *)
theory Owner_Command
  imports Vast_Client Card_Launcher
begin

text \<open>
  The command on the owner's machine, \<^verbatim>\<open>simple_serving/cli.py\<close>: the keys, the configuration, and \<^verbatim>\<open>up\<close>, \<^verbatim>\<open>sleep\<close>,
  \<^verbatim>\<open>status\<close> and \<^verbatim>\<open>trial\<close>. What the command does to the world outside it is a list of actions, and what it meets there
  (Vast, ssh, the gateway, the clock, Ctrl+C) is an argument that may depend on every action before. An object has
  distinct keys, as a dictionary has, and texts are ASCII.
\<close>

subsection \<open>Lanes\<close>

record lane_setup =
  ln_name :: "string option"
  ln_folder :: string
  ln_public :: int
  ln_control :: int
  ln_hold :: string
  ln_lock :: string

definition HOLD_TEXT :: string where
  "HOLD_TEXT = ''cd /workspace/simple-serving && /workspace/simple-serving-card/gateway/bin/python -m simple_serving.card --hold''"

definition HOLD_PICTURES :: string where
  "HOLD_PICTURES = ''cd /workspace/simple-serving && /workspace/simple-serving-pictures-card/gateway/bin/python '' @
     ''-m simple_serving.pictures.card --hold''"

definition LANES :: "(string \<times> lane_setup) list" where
  "LANES =
    [(''text'', \<lparr>ln_name = None, ln_folder = ''card'', ln_public = 8080, ln_control = 8081, ln_hold = HOLD_TEXT,
        ln_lock = ''up.lock''\<rparr>),
     (''pictures'', \<lparr>ln_name = Some ''pictures'', ln_folder = ''card/pictures'', ln_public = 8084, ln_control = 8085,
        ln_hold = HOLD_PICTURES, ln_lock = ''up-pictures.lock''\<rparr>)]"

definition KEYS :: "string list" where "KEYS = [''client_key'', ''control_key'', ''metrics_key'']"
definition HOLDING :: string where "HOLDING = ''simple-serving card: holding''"
definition SSH_FAILED :: int where "SSH_FAILED = 255"
definition VAST_POLL_S :: rat where "VAST_POLL_S = 10"
definition VAST_WAIT_S :: rat where "VAST_WAIT_S = 600"
definition READY_POLL_S :: rat where "READY_POLL_S = 5"
definition SSH_RETRY_S :: rat where "SSH_RETRY_S = 2"
definition READY_MARGIN_S :: int where "READY_MARGIN_S = 60"
definition ANSWER_BYTES :: nat where "ANSWER_BYTES = 16384"
definition TRIAL_BYTES :: nat where "TRIAL_BYTES = 4096"
definition RECONNECTS :: nat where "RECONNECTS = 3"

definition STATUSES :: "string list" where
  "STATUSES = [''starting'', ''ready'', ''draining'', ''drained'', ''failed'']"

definition SSH :: "string list" where
  "SSH = [''ssh'', ''-T'', ''-o'', ''BatchMode=yes'', ''-o'', ''ConnectTimeout=10'', ''-o'', ''ExitOnForwardFailure=yes'',
     ''-o'', ''ServerAliveInterval=15'', ''-o'', ''ServerAliveCountMax=3'', ''-o'', ''StrictHostKeyChecking=yes'',
     ''-o'', ''ControlPath=none'']"

definition SSH_HOST :: "string \<Rightarrow> bool" where
  "SSH_HOST s \<longleftrightarrow>
    (case s of [] \<Rightarrow> False
     | c # r \<Rightarrow> (is_letter c \<or> is_digit c) \<and>
         list_all (\<lambda>x. is_letter x \<or> is_digit x \<or> x \<in> {CHR ''.'', CHR ''_'', CHR ''-''}) r)"

definition NOT_PREPARED_TEXT :: string where
  "NOT_PREPARED_TEXT = ''the card is not prepared: run its preparation first (README, '' @ [CHR 0x27] @ ''The card'' @ [CHR 0x27] @ '')''"

definition GIVEN_UP_TEXT :: string where
  "GIVEN_UP_TEXT = ''the card has given up loading the model and stops itself 13 minutes after its start. '' @
     ''The launcher'' @ [CHR 0x27] @ ''s --retry on the card loads it again, within seconds while the launcher still waits and '' @
     ''otherwise at the next start (README, '' @ [CHR 0x27] @ ''The card'' @ [CHR 0x27] @ '')''"

definition UNCONFIRMED_TEXT :: string where
  "UNCONFIRMED_TEXT = ''the card'' @ [CHR 0x27] @ ''s stop is not confirmed: Vast has not taken it, and costs may go on. Delete the trial '' @
     ''instance with simple-story-chat'' @ [CHR 0x27] @ ''s npm run gpu:rent -- --destroy ID (README, '' @ [CHR 0x27] @
     ''The first rental'' @ [CHR 0x27] @ '')''"

definition REFUSALS :: "int \<rightharpoonup> string" where
  "REFUSALS = [NOT_PREPARED \<mapsto> NOT_PREPARED_TEXT, GAVE_UP \<mapsto> GIVEN_UP_TEXT, STOP_UNCONFIRMED \<mapsto> UNCONFIRMED_TEXT]"

subsection \<open>The configuration\<close>

text \<open>A message is that of a \<^verbatim>\<open>Refusal\<close>. What the file of the configuration is: none, one that cannot be read, or its
  mode and what \<^verbatim>\<open>json.loads\<close> makes of it.\<close>

datatype config_file =
    No_file
  | Unreadable
  | A_config nat "json option"

definition read_config :: "string \<Rightarrow> config_file \<Rightarrow> string + obj" where
  "read_config path f =
    (case f of
       No_file \<Rightarrow> Inr []
     | Unreadable \<Rightarrow> Inl (''cannot read '' @ path @ '' as JSON'')
     | A_config mode content \<Rightarrow>
         if mode mod 64 \<noteq> 0 then Inl (path @ '' must be open to its owner only: chmod 600 it'')
         else (case content of
             None \<Rightarrow> Inl (''cannot read '' @ path @ '' as JSON'')
           | Some (JObj ob) \<Rightarrow> Inr ob
           | Some _ \<Rightarrow> Inl (path @ '' must hold a JSON object'')))"

text \<open>A string that is not empty.\<close>

definition filled :: "string \<Rightarrow> obj \<Rightarrow> bool" where
  "filled name ob \<longleftrightarrow> (case jget name ob of JStr s \<Rightarrow> s \<noteq> [] | _ \<Rightarrow> False)"

definition text_of :: "string \<Rightarrow> obj \<Rightarrow> string" where
  "text_of name ob = (case jget name ob of JStr s \<Rightarrow> s | _ \<Rightarrow> [])"

definition lane_block :: "string \<Rightarrow> lane_setup \<Rightarrow> obj \<Rightarrow> string + obj" where
  "lane_block path la config =
    (case ln_name la of
       None \<Rightarrow> Inr config
     | Some n \<Rightarrow>
         (if \<not> jhas n config then Inr []
          else case jget n config of JObj ob \<Rightarrow> Inr ob | _ \<Rightarrow> Inl (path @ '' must hold a JSON object as '' @ n)))"

record owner_setup =
  os_control_key :: string
  os_alias :: string
  os_ready_s :: rat
  os_card_public :: int
  os_card_control :: int
  os_instance :: string
  os_vast_key :: string
  os_host :: string
  os_lane :: lane_setup

text \<open>\<open>None\<close> stands for the traceback that a manifest without a field, or with a number of another form, ends in.\<close>

definition load_owner :: "string \<Rightarrow> lane_setup \<Rightarrow> config_file \<Rightarrow> manifest \<Rightarrow> (string + owner_setup) option" where
  "load_owner path la f m =
    (case andthen (read_config path f) (\<lambda>config.
       andthen (lane_block path la config) (\<lambda>block.
       let prefix = (case ln_name la of None \<Rightarrow> [] | Some n \<Rightarrow> n @ ''.'');
           missing = map (\<lambda>n. prefix @ n) (filter (\<lambda>n. \<not> filled n block) [''instance_id'', ''vast_api_key'', ''ssh_host'']) @
             filter (\<lambda>n. \<not> filled n config) [''control_key''];
           inst = text_of ''instance_id'' block; key = text_of ''vast_api_key'' block; host = text_of ''ssh_host'' block
       in andthen (require (missing = []) (path @ '' has no '' @ join_with '', '' missing)) (\<lambda>_.
          andthen (require (is_count inst \<and> CHR 0x0D \<notin> set key \<and> newline \<notin> set key \<and> SSH_HOST host)
            (path @ '' has an '' @ prefix @ ''instance_id, vast_api_key or ssh_host of the wrong form'')) (\<lambda>_.
          Inr (inst, key, host, text_of ''control_key'' config))))) of
       Inl e \<Rightarrow> Some (Inl e)
     | Inr (inst, key, host, control_key) \<Rightarrow>
         Option.bind (m ''MODEL_ALIAS'') (\<lambda>al.
         Option.bind (int_at m ''LOAD_DEADLINE_S'') (\<lambda>deadline.
         Option.bind (int_at m ''PUBLIC_PORT'') (\<lambda>public.
         Option.bind (int_at m ''CONTROL_PORT'') (\<lambda>control.
         Some (Inr \<lparr>os_control_key = control_key, os_alias = al, os_ready_s = of_int (deadline + READY_MARGIN_S),
           os_card_public = public, os_card_control = control, os_instance = inst, os_vast_key = key, os_host = host,
           os_lane = la\<rparr>))))))"

text \<open>\<open>new_keys\<close> are the texts that \<^verbatim>\<open>secrets.token_urlsafe\<close> makes. The result is what is written into the configuration
  and into the file of the metrics key, if anything, and the keys whose digests are printed.\<close>

definition create_keys :: "obj \<Rightarrow> (string \<Rightarrow> string) \<Rightarrow> obj" where
  "create_keys config new_keys = foldl (\<lambda>ob n. if jhas n config then ob else jput n (JStr (new_keys n)) ob) config KEYS"

definition owner_keys ::
  "string \<Rightarrow> (string \<Rightarrow> string) \<Rightarrow> string option \<Rightarrow> config_file \<Rightarrow> (string \<Rightarrow> string) \<Rightarrow> string + obj option \<times> string option \<times> string list"
where
  "owner_keys path real_path metrics_file f new_keys =
    andthen (case metrics_file of
        None \<Rightarrow> Inr ()
      | Some mf \<Rightarrow> require ({real_path path, real_path (path @ ''.new'')} \<inter> {real_path mf, real_path (mf @ ''.new'')} = {})
          ''--metrics-file and its temporary file must be separate from --config'') (\<lambda>_.
    andthen (read_config path f) (\<lambda>config.
    let created = filter (\<lambda>n. \<not> jhas n config) KEYS; config' = create_keys config new_keys
    in andthen (require (list_all (\<lambda>n. filled n config') KEYS)
         (path @ '' has a '' @ join_with '', '' (butlast KEYS) @ '' or '' @ last KEYS @ '' that is not a string'')) (\<lambda>_.
       Inr (if created = [] then None else Some config',
            map_option (\<lambda>_. text_of ''metrics_key'' config') metrics_file,
            map (\<lambda>n. text_of n config') KEYS))))"

subsection \<open>What the command does and meets\<close>

text \<open>An action that waits may be ended by Ctrl+C, once it has begun. \<open>Open_ssh\<close> has the whole command line.\<close>

datatype act =
    Ask_vast
  | Resume
  | Open_ssh "string list"
  | Get_state int
  | Ask_sleep int string
  | Read_id "string list"
  | Await_end
  | Close_ssh
  | Pause rat
  | Say string
  | Show string

text \<open>The lines that ssh prints within its time, up to one beyond the limit of the reader, and its exit code; the
  chunks that the reading of the instance's id gets, up to an empty one, and the exit code; what a call to the gateway meets: no answer of HTTP, or a status, the chunks of the body and whether it ends well.\<close>

datatype ssh_answer =
    Ssh "string list" int

datatype trial_answer =
    Trial_late
  | Trial "string list" int

datatype call_reply =
    Call_failed
  | Call_reply int "string list" bool

datatype owner_error =
    Refusal string
  | Interrupted
  | Crashed string

type_synonym 'a outcome = "(owner_error + 'a) \<times> act list"

record owner_world =
  wo_patience :: nat
  wo_now :: "act list \<Rightarrow> rat"
  wo_show :: "act list \<Rightarrow> instance_state attempt"
  wo_resume :: "act list \<Rightarrow> unit attempt"
  wo_ssh :: "act list \<Rightarrow> ssh_answer"
  wo_ended :: "act list \<Rightarrow> bool"
  wo_exit :: "act list \<Rightarrow> int"
  wo_call :: "act list \<Rightarrow> call_reply"
  wo_port :: "act list \<Rightarrow> int"
  wo_trial :: "act list \<Rightarrow> trial_answer"

definition perform :: "owner_world \<Rightarrow> act \<Rightarrow> act list \<Rightarrow> unit outcome" where
  "perform w a h = (if wo_patience w \<le> length h then Inl Interrupted else Inr (), h @ [a])"

definition and_then :: "'a outcome \<Rightarrow> ('a \<Rightarrow> act list \<Rightarrow> 'b outcome) \<Rightarrow> 'b outcome" where
  "and_then r f = (case r of (Inl e, h) \<Rightarrow> (Inl e, h) | (Inr v, h) \<Rightarrow> f v h)"

definition say :: "string \<Rightarrow> act list \<Rightarrow> act list" where
  "say text_said h = h @ [Say text_said]"

subsection \<open>Calls of the gateway\<close>

datatype gateway_error =
    No_answer
  | Gateway_error string

fun read_within :: "nat \<Rightarrow> string \<Rightarrow> string list \<Rightarrow> string option" where
  "read_within limit got [] = Some got"
| "read_within limit got (chunk # chunks) =
    (if limit < length (got @ chunk) then None else read_within limit (got @ chunk) chunks)"

definition is_success :: "int \<Rightarrow> bool" where
  "is_success st \<longleftrightarrow> 200 \<le> st \<and> st < 300"

definition counts_formed :: "json \<Rightarrow> bool" where
  "counts_formed v \<longleftrightarrow>
    (case v of
       JObj ob \<Rightarrow> list_all (\<lambda>(n, k). n \<in> cls_name ` set CLASSES \<and> (case k of JInt i \<Rightarrow> 0 \<le> i | _ \<Rightarrow> False)) ob
     | _ \<Rightarrow> False)"

definition well_formed :: "obj \<Rightarrow> bool" where
  "well_formed answer \<longleftrightarrow>
    (case jget ''status'' answer of JStr s \<Rightarrow> s \<in> set STATUSES | _ \<Rightarrow> False) \<and>
    (case jget ''boot_id'' answer of JStr _ \<Rightarrow> True | _ \<Rightarrow> False) \<and>
    (case jget_or ''sleep_requested'' (JBool False) answer of JBool _ \<Rightarrow> True | _ \<Rightarrow> False) \<and>
    counts_formed (jget_or ''active'' (JObj []) answer) \<and> counts_formed (jget_or ''waiting'' (JObj []) answer)"

text \<open>The code of an error is a code of the contract, or \<^verbatim>\<open>error\<close>.\<close>

definition told_code :: "json \<Rightarrow> string" where
  "told_code answer =
    (case answer of
       JObj ob \<Rightarrow>
         (case jget ''error'' ob of
            JObj er \<Rightarrow> (case jget ''code'' er of JStr c \<Rightarrow> if c \<in> code_name ` set all_codes then c else ''error'' | _ \<Rightarrow> ''error'')
          | _ \<Rightarrow> ''error'')
     | _ \<Rightarrow> ''error'')"

definition gateway_answer :: "loads \<Rightarrow> call_reply \<Rightarrow> gateway_error + obj" where
  "gateway_answer loads r =
    (case r of
       Call_failed \<Rightarrow> Inl No_answer
     | Call_reply st chunks whole \<Rightarrow>
         (case Option.bind (read_within ANSWER_BYTES [] chunks) (\<lambda>body. if whole then loads body else None) of
            None \<Rightarrow> Inl No_answer
          | Some answer \<Rightarrow>
              (case answer of
                 JObj ob \<Rightarrow>
                   if \<not> is_success st then Inl (Gateway_error (int_text st @ '' '' @ told_code answer))
                   else if well_formed ob then Inr ob else Inl (Gateway_error (int_text st @ '' malformed''))
               | _ \<Rightarrow> Inl (Gateway_error (int_text st @ '' '' @ told_code answer)))))"

definition gateway_call :: "owner_world \<Rightarrow> loads \<Rightarrow> act \<Rightarrow> act list \<Rightarrow> (gateway_error + obj) outcome" where
  "gateway_call w loads a h = and_then (perform w a h) (\<lambda>_ h1. (Inr (gateway_answer loads (wo_call w h)), h1))"

definition describe_vast :: "attempt_error \<Rightarrow> string" where
  "describe_vast e =
    (case e of
       Vast_error code st \<Rightarrow> (case st of None \<Rightarrow> code | Some n \<Rightarrow> code @ '' '' @ int_text n)
     | _ \<Rightarrow> ''timeout'')"

definition describe_gateway :: "gateway_error \<Rightarrow> string" where
  "describe_gateway e = (case e of No_answer \<Rightarrow> ''no answer'' | Gateway_error s \<Rightarrow> if s = [] then ''timeout'' else s)"

definition describe_tunnel :: "int \<Rightarrow> string" where
  "describe_tunnel code = (case REFUSALS code of None \<Rightarrow> ''ssh ended with '' @ int_text code | Some s \<Rightarrow> s)"

subsection \<open>Vast\<close>

text \<open>The state as the command names it: one of Vast's, or why it is unknown.\<close>

definition vast_state :: "owner_world \<Rightarrow> act list \<Rightarrow> (instance_state + string) outcome" where
  "vast_state w h =
    and_then (perform w Ask_vast h) (\<lambda>_ h1.
      case wo_show w h of
        Inr st \<Rightarrow> (Inr (Inl st), h1)
      | Inl (Other_error name) \<Rightarrow> (Inl (Crashed name), h1)
      | Inl e \<Rightarrow>
          (case e of
             Vast_error code _ \<Rightarrow>
               if code = ''forbidden'' then (Inl (Refusal (''Vast refuses the key ('' @ describe_vast e @ '')'')), h1)
               else (Inr (Inr (''unknown ('' @ describe_vast e @ '')'')), h1)
           | _ \<Rightarrow> (Inr (Inr (''unknown ('' @ describe_vast e @ '')'')), h1)))"

definition state_text :: "instance_state + string \<Rightarrow> string" where
  "state_text v = (case v of Inl st \<Rightarrow> state_name st | Inr s \<Rightarrow> s)"

definition among :: "instance_state + string \<Rightarrow> instance_state list \<Rightarrow> bool" where
  "among v sts = (case v of Inl st \<Rightarrow> st \<in> set sts | Inr _ \<Rightarrow> False)"

lemma perform_length: "length (snd (perform w a h)) = Suc (length h)"
  by (simp add: perform_def)

lemma perform_Inr: "perform w a h = (Inr u, h1) \<longleftrightarrow> length h < wo_patience w \<and> h1 = h @ [a]"
  by (auto simp: perform_def)

lemma perform_Inl: "perform w a h = (Inl e, h1) \<longleftrightarrow> wo_patience w \<le> length h \<and> e = Interrupted \<and> h1 = h @ [a]"
  by (auto simp: perform_def)

lemma and_then_Inr [simp]: "and_then (Inr v, h) f = f v h"
  by (simp add: and_then_def)

lemma and_then_Inl [simp]: "and_then (Inl e, h) f = (Inl e, h)"
  by (simp add: and_then_def)

lemma vast_state_history: "vast_state w h = (r, h1) \<Longrightarrow> h1 = h @ [Ask_vast]"
  by (auto simp: vast_state_def perform_def split: if_splits sum.splits attempt_error.splits)

lemma vast_state_Inr:
  assumes "vast_state w h = (Inr v, h1)"
  shows "length h < wo_patience w" "h1 = h @ [Ask_vast]" "\<And>st. v = Inl st \<Longrightarrow> wo_show w h = Inr st"
  using assms by (auto simp: vast_state_def perform_def split: if_splits sum.splits attempt_error.splits)

lemma vast_state_grows: "(r, h1) = vast_state w h \<Longrightarrow> length h < length h1"
  by (drule sym, drule vast_state_history) simp

lemma patience_shrinks:
  "(Inr u, h2) = perform w a h1 \<Longrightarrow> length h \<le> length h1 \<Longrightarrow> wo_patience w - length h2 < wo_patience w - length h"
  by (drule sym) (auto simp: perform_Inr)

text \<open>The state once it is wanted; \<open>told\<close> is the last that was said.\<close>

definition tell_state :: "string option \<Rightarrow> string \<Rightarrow> string \<Rightarrow> act list \<Rightarrow> act list" where
  "tell_state told st what h = (if told = Some st then h else say (''vast: '' @ st @ ''; waiting for '' @ what) h)"

lemma tell_state_grows: "length h \<le> length (tell_state told st what h) \<and> length (tell_state told st what h) \<le> Suc (length h)"
  by (simp add: tell_state_def say_def)

function await_state ::
  "owner_world \<Rightarrow> instance_state list \<Rightarrow> rat \<Rightarrow> string \<Rightarrow> string option \<Rightarrow> act list \<Rightarrow> instance_state outcome"
where
  "await_state w wanted deadline what told h =
    (case vast_state w h of
       (Inl e, h1) \<Rightarrow> (Inl e, h1)
     | (Inr v, h1) \<Rightarrow>
         (case (if among v wanted then Some v else None) of
            Some (Inl st) \<Rightarrow> (Inr st, h1)
          | _ \<Rightarrow>
              if deadline \<le> wo_now w h1
              then (Inl (Refusal (''waited 10 minutes for '' @ what @ ''; Vast says '' @ state_text v)), h1)
              else
                case perform w (Pause VAST_POLL_S) (tell_state told (state_text v) what h1) of
                     (Inl e, h3) \<Rightarrow> (Inl e, h3)
                   | (Inr _, h3) \<Rightarrow> await_state w wanted deadline what (Some (state_text v)) h3))"
  by pat_completeness auto

termination await_state
  by (relation "measure (\<lambda>(w, _, _, _, _, h). wo_patience w - length h)")
    (auto elim!: patience_shrinks dest!: vast_state_grows intro: order_trans [OF less_imp_le tell_state_grows [THEN conjunct1]] split: if_splits)

declare await_state.simps [simp del]

text \<open>\<open>adds P h h1\<close>: what was done from \<open>h\<close> to \<open>h1\<close> is \<open>P\<close>.\<close>

definition adds :: "(act \<Rightarrow> bool) \<Rightarrow> act list \<Rightarrow> act list \<Rightarrow> bool" where
  "adds P h h1 \<longleftrightarrow> (\<exists>ts. h1 = h @ ts \<and> list_all P ts)"

lemma adds_refl [simp]: "adds P h h"
  by (simp add: adds_def)

lemma adds_trans: "adds P h h1 \<Longrightarrow> adds P h1 h2 \<Longrightarrow> adds P h h2"
  by (auto simp: adds_def)

lemma adds_snoc: "adds P h h1 \<Longrightarrow> P a \<Longrightarrow> adds P h (h1 @ [a])"
  by (auto simp: adds_def)

lemma adds_say: "adds P h h1 \<Longrightarrow> P (Say t) \<Longrightarrow> adds P h (say t h1)"
  by (simp add: say_def adds_snoc)

lemma adds_length: "adds P h h1 \<Longrightarrow> length h \<le> length h1"
  by (auto simp: adds_def)

lemma perform_adds: "perform w a h1 = (r, h2) \<Longrightarrow> adds P h h1 \<Longrightarrow> P a \<Longrightarrow> adds P h h2"
  by (auto simp: perform_def intro: adds_snoc split: if_splits)

subsection \<open>Up\<close>

definition resume_instance :: "owner_world \<Rightarrow> act list \<Rightarrow> unit outcome" where
  "resume_instance w h =
    (let h1 = say ''vast: stopped; resuming the instance'' h
     in and_then (perform w Resume h1) (\<lambda>_ h2.
       case wo_resume w h1 of
         Inr _ \<Rightarrow> (Inr (), h2)
       | Inl e \<Rightarrow>
           (case e of
              Other_error name \<Rightarrow> (Inl (Crashed name), h2)
            | _ \<Rightarrow> (Inl (Refusal (''Vast did not take the resume ('' @ describe_vast e @ '')'')), h2))))"

definition start_instance :: "owner_world \<Rightarrow> act list \<Rightarrow> unit outcome" where
  "start_instance w h =
    and_then (await_state w [Stopped, Coming_up, Running] (wo_now w h + VAST_WAIT_S) ''the stop in flight to end'' None h) (\<lambda>st h1.
    and_then (if st = Stopped then resume_instance w h1 else (Inr (), h1)) (\<lambda>_ h2.
    and_then (await_state w [Running, Going_down] (wo_now w h2 + VAST_WAIT_S) ''the instance to run'' None h2) (\<lambda>st h3.
    (if st = Running then Inr () else Inl (Refusal ''the instance is being stopped''), h3))))"

definition ssh_argv :: "string \<Rightarrow> (int \<times> int) list \<Rightarrow> string \<Rightarrow> string list" where
  "ssh_argv host forwards command_line =
    SSH @ concat (map (\<lambda>(l, r). [''-L'', ''127.0.0.1:'' @ int_text l @ '':127.0.0.1:'' @ int_text r]) forwards) @ [host, command_line]"

text \<open>\<open>Inl\<close> is the exit code of an ssh that ended, or was ended, before the line that it holds.\<close>

definition open_ssh :: "owner_world \<Rightarrow> string list \<Rightarrow> act list \<Rightarrow> (int + unit) outcome" where
  "open_ssh w argv h =
    (case perform w (Open_ssh argv) h of
       (Inl e, h1) \<Rightarrow> (Inl e, h1 @ [Close_ssh])
     | (Inr _, h1) \<Rightarrow>
         (case wo_ssh w h of
            Ssh ls code \<Rightarrow> if list_ex (\<lambda>l. strip l = HOLDING) ls then (Inr (Inr ()), h1) else (Inr (Inl code), h1 @ [Close_ssh])))"

definition up_argv :: "owner_setup \<Rightarrow> string list" where
  "up_argv su =
    ssh_argv (os_host su) [(ln_public (os_lane su), os_card_public su), (ln_control (os_lane su), os_card_control su)]
      (ln_hold (os_lane su))"

definition tunnel_refusal :: "int \<Rightarrow> string" where
  "tunnel_refusal code = (case REFUSALS code of None \<Rightarrow> NOT_PREPARED_TEXT | Some t \<Rightarrow> t)"

lemma open_ssh_adds:
  "open_ssh w argv h = (r, h1) \<Longrightarrow> (\<And>x. P (Open_ssh x)) \<Longrightarrow> P Close_ssh \<Longrightarrow> adds P h h1"
  by (auto simp: open_ssh_def perform_def adds_def split: if_splits ssh_answer.splits)

text \<open>Whether a tunnel was opened; not, once Vast means to stop the instance.\<close>

function connect_tunnel :: "owner_world \<Rightarrow> owner_setup \<Rightarrow> rat \<Rightarrow> act list \<Rightarrow> bool outcome" where
  "connect_tunnel w su deadline h =
    (case vast_state w h of
       (Inl e, h1) \<Rightarrow> (Inl e, h1)
     | (Inr v, h1) \<Rightarrow>
         if among v [Going_down, Stopped] then (Inr False, h1)
         else (case (if among v [Running] then open_ssh w (up_argv su) h1 else (Inr (Inl SSH_FAILED), h1)) of
            (Inl e, h2) \<Rightarrow> (Inl e, h2)
          | (Inr (Inr _), h2) \<Rightarrow> (Inr True, h2)
          | (Inr (Inl code), h2) \<Rightarrow>
              if code \<noteq> SSH_FAILED then (Inl (Refusal (tunnel_refusal code)), h2)
              else if deadline \<le> wo_now w h2
              then (Inl (Refusal (''the card does not take SSH; Vast says '' @ state_text v)), h2)
              else (case perform w (Pause VAST_POLL_S) h2 of
                      (Inl e, h3) \<Rightarrow> (Inl e, h3) | (Inr _, h3) \<Rightarrow> connect_tunnel w su deadline h3)))"
  by pat_completeness auto

lemma open_ssh_grows: "(r, h1) = open_ssh w argv h \<Longrightarrow> length h \<le> length h1"
  by (drule sym, drule open_ssh_adds [where P = "\<lambda>_. True"]) (auto dest: adds_length)

termination connect_tunnel
  by (relation "measure (\<lambda>(w, _, _, h). wo_patience w - length h)")
    (auto elim!: patience_shrinks dest!: vast_state_grows open_ssh_grows split: if_splits)

declare connect_tunnel.simps [simp del]

text \<open>What an answer of the gateway means: a refusal, or the status that it tells, if it answers yet.\<close>

definition judged :: "owner_setup \<Rightarrow> gateway_error + obj \<Rightarrow> string + string option" where
  "judged su r =
    (case r of
       Inl No_answer \<Rightarrow> Inr None
     | Inl (Gateway_error s) \<Rightarrow> Inl (''the gateway answers '' @ s)
     | Inr view \<Rightarrow>
         if (jget ''contract'' view, jget ''lane'' view, jget ''model'' view) \<noteq>
            (JStr ''2'', (case ln_name (os_lane su) of None \<Rightarrow> JNull | Some n \<Rightarrow> JStr n), JStr (os_alias su))
         then Inl ''the gateway on the card serves another contract, lane or model''
         else if jget ''sleep_requested'' view = JBool True
         then Inl ''the card is falling asleep: run up again once it has stopped''
         else Inr (Some (text_of ''status'' view)))"

text \<open>True once the gateway is ready, False if the tunnel ends first; \<open>told\<close> is the last status that was said.\<close>

function await_ready :: "owner_world \<Rightarrow> loads \<Rightarrow> owner_setup \<Rightarrow> rat \<Rightarrow> string option \<Rightarrow> act list \<Rightarrow> bool outcome" where
  "await_ready w loads su deadline told h =
    (if wo_ended w h then (Inr False, h)
     else case gateway_call w loads (Get_state (ln_control (os_lane su))) h of
       (Inl e, h1) \<Rightarrow> (Inl e, h1)
     | (Inr r, h1) \<Rightarrow>
         (case judged su r of
            Inl t \<Rightarrow> (Inl (Refusal t), h1)
          | Inr st \<Rightarrow>
              if st = Some ''ready'' then (Inr True, h1)
              else
                let h2 = (if st = None \<or> st = told then h1 else say (''gateway: '' @ the st) h1)
                in if deadline \<le> wo_now w h2 then (Inl (Refusal ''the gateway is not ready in time''), h2)
                   else (case perform w (Pause READY_POLL_S) h2 of
                      (Inl e, h3) \<Rightarrow> (Inl e, h3)
                    | (Inr _, h3) \<Rightarrow> await_ready w loads su deadline (if st = None then told else st) h3)))"
  by pat_completeness auto

lemma gateway_call_history: "gateway_call w loads a h = (r, h1) \<Longrightarrow> h1 = h @ [a]"
  by (auto simp: gateway_call_def perform_def split: if_splits)

lemma gateway_call_grows: "(r, h1) = gateway_call w loads a h \<Longrightarrow> length h < length h1"
  by (drule sym, drule gateway_call_history) simp

termination await_ready
  by (relation "measure (\<lambda>(w, _, _, _, _, h). wo_patience w - length h)")
    (auto simp: say_def elim!: patience_shrinks dest!: gateway_call_grows split: if_splits)

declare await_ready.simps [simp del]

text \<open>What a wait does: it reads, says and pauses, and \<open>Open_ssh\<close> is closed where it does not hold.\<close>

definition reads :: "act \<Rightarrow> bool" where
  "reads a \<longleftrightarrow> (case a of Ask_vast \<Rightarrow> True | Pause _ \<Rightarrow> True | Say _ \<Rightarrow> True | Get_state _ \<Rightarrow> True | _ \<Rightarrow> False)"

definition tunnels :: "act \<Rightarrow> bool" where
  "tunnels a \<longleftrightarrow> reads a \<or> (case a of Open_ssh _ \<Rightarrow> True | Close_ssh \<Rightarrow> True | Await_end \<Rightarrow> True | _ \<Rightarrow> False)"

lemma reads_simps [simp]: "reads Ask_vast" "reads (Pause t)" "reads (Say x)" "reads (Get_state p)" "\<not> reads Resume"
  "\<not> reads (Ask_sleep p b)" "\<not> reads (Open_ssh argv)" "\<not> reads Close_ssh" "\<not> reads Await_end"
  by (simp_all add: reads_def)

lemma tunnels_simps [simp]: "reads a \<Longrightarrow> tunnels a" "tunnels (Open_ssh argv)" "tunnels Close_ssh" "tunnels Await_end" "\<not> tunnels Resume"
  "\<not> tunnels (Ask_sleep p b)"
  by (simp_all add: tunnels_def)

lemma adds_mono: "adds P h h1 \<Longrightarrow> (\<And>a. P a \<Longrightarrow> Q a) \<Longrightarrow> adds Q h h1"
  unfolding adds_def list_all_iff by blast

lemma vast_state_adds: "vast_state w h = (r, h1) \<Longrightarrow> adds reads h h1"
  by (auto dest!: vast_state_history intro: adds_snoc)

text \<open>The tunnels that were opened and not closed.\<close>

fun tunnel_change :: "act \<Rightarrow> int" where
  "tunnel_change (Open_ssh _) = 1"
| "tunnel_change Close_ssh = - 1"
| "tunnel_change _ = 0"

definition open_tunnels :: "act list \<Rightarrow> int" where
  "open_tunnels h = sum_list (map tunnel_change h)"

lemma open_tunnels_simps [simp]:
  "open_tunnels [] = 0" "open_tunnels (h @ h1) = open_tunnels h + open_tunnels h1"
  "open_tunnels (a # h) = tunnel_change a + open_tunnels h" "open_tunnels (say t h) = open_tunnels h"
  by (simp_all add: open_tunnels_def say_def)

lemma reads_open: "adds reads h h1 \<Longrightarrow> open_tunnels h1 = open_tunnels h"
proof -
  have "list_all reads ts \<Longrightarrow> open_tunnels ts = 0" for ts
  proof (induction ts)
    case (Cons a ts)
    then show ?case by (cases a) (auto simp: reads_def)
  qed simp
  then show "adds reads h h1 \<Longrightarrow> open_tunnels h1 = open_tunnels h" by (auto simp: adds_def)
qed

lemma perform_open: "perform w a h = (r, h1) \<Longrightarrow> open_tunnels h1 = open_tunnels h + tunnel_change a"
  by (auto simp: perform_def)

lemma open_ssh_open: "open_ssh w argv h = (r, h1) \<Longrightarrow> open_tunnels h1 = open_tunnels h + (if r = Inr (Inr ()) then 1 else 0)"
  by (auto simp: open_ssh_def perform_def split: if_splits ssh_answer.splits)

text \<open>Vast said last that it means to stop the instance.\<close>

definition stop_seen :: "owner_world \<Rightarrow> act list \<Rightarrow> bool" where
  "stop_seen w h \<longleftrightarrow> (\<exists>hs. h = hs @ [Ask_vast] \<and> wo_show w hs \<in> {Inr Going_down, Inr Stopped})"

lemma history_induct [case_names longer]:
  assumes "\<And>h. (\<And>h1. length h < n \<Longrightarrow> length h < length h1 \<Longrightarrow> P h1) \<Longrightarrow> P h"
  shows "P h"
proof (induction "n - length h" arbitrary: h rule: less_induct)
  case less
  show ?case by (rule assms, rule less) simp
qed

text \<open>One round of a wait.\<close>

lemma await_state_round:
  assumes "await_state w wanted deadline what told h = (r, h')"
  obtains (found) st where "r = Inr st" "st \<in> set wanted" "wo_show w h = Inr st" "h' = h @ [Ask_vast]"
  | (failed) e where "r = Inl e" "adds reads h h'"
  | (again) told1 h1 where "length h < wo_patience w" "length h < length h1" "adds reads h h1"
      "await_state w wanted deadline what told1 h1 = (r, h')"
proof -
  obtain v h1 where v: "vast_state w h = (v, h1)" by fastforce
  note h1 = vast_state_adds [OF v]
  show ?thesis
  proof (cases v)
    case (Inl e)
    with assms v h1 show ?thesis by (auto simp: await_state.simps [of w wanted] intro: failed)
  next
    case (Inr b)
    note b = vast_state_Inr [OF v [unfolded Inr]]
    define h2 where "h2 = tell_state told (state_text b) what h1"
    obtain p h3 where p: "perform w (Pause VAST_POLL_S) h2 = (p, h3)" by fastforce
    have h2: "adds reads h h2" unfolding h2_def tell_state_def using h1 by (simp add: adds_say)
    from perform_adds [OF p this] have h3: "adds reads h h3" by simp
    have l: "length h < length h3" using perform_length [of w "Pause VAST_POLL_S" h2] adds_length [OF h2] by (simp add: p)
    show ?thesis
    proof (cases "\<exists>st. b = Inl st \<and> st \<in> set wanted")
      case True
      then obtain st where "b = Inl st" "st \<in> set wanted" by blast
      with assms v b show ?thesis by (auto simp: await_state.simps [of w wanted] Inr among_def intro: found)
    next
      case False
      then have "\<not> among b wanted" by (auto simp: among_def split: sum.splits)
      with assms v have e: "(if deadline \<le> wo_now w h1
          then (Inl (Refusal (''waited 10 minutes for '' @ what @ ''; Vast says '' @ state_text b)), h1)
          else (case p of Inl e \<Rightarrow> (Inl e, h3) | Inr _ \<Rightarrow> await_state w wanted deadline what (Some (state_text b)) h3)) = (r, h')"
        by (simp add: await_state.simps [of w wanted] Inr h2_def [symmetric] p Let_def cong: if_cong del: append.simps split del: if_split)
      show ?thesis
        using e h1 h3 failed again [OF b(1) l h3] by (auto split: if_splits sum.splits)
    qed
  qed
qed

lemma await_state_adds: "await_state w wanted deadline what told h = (r, h') \<Longrightarrow> adds reads h h'"
proof (induction h arbitrary: told r h' rule: history_induct [of "wo_patience w"])
  case (longer h)
  from longer(2) show ?case
  proof (cases rule: await_state_round)
    case (again told1 h1)
    with longer(1) adds_trans show ?thesis by blast
  qed (auto intro: adds_snoc)
qed

text \<open>The state that ends a wait is the last that Vast said.\<close>

lemma await_state_last:
  "await_state w wanted deadline what told h = (Inr st, h') \<Longrightarrow>
    \<exists>hs. h' = hs @ [Ask_vast] \<and> wo_show w hs = Inr st \<and> st \<in> set wanted \<and> adds reads h hs"
proof (induction h arbitrary: told rule: history_induct [of "wo_patience w"])
  case (longer h)
  from longer(2) show ?case
  proof (cases rule: await_state_round)
    case (again told1 h1)
    with longer(1) adds_trans show ?thesis by blast
  qed auto
qed

lemma connect_tunnel_round:
  assumes "connect_tunnel w su deadline h = (r, h')"
  obtains (ended) "adds tunnels h h'" "open_tunnels h' = open_tunnels h + (if r = Inr True then 1 else 0)"
      "r = Inr False \<longrightarrow> stop_seen w h'"
  | (again) h1 where "length h < wo_patience w" "length h < length h1" "adds tunnels h h1" "open_tunnels h1 = open_tunnels h"
      "connect_tunnel w su deadline h1 = (r, h')"
proof -
  obtain v h1 where v: "vast_state w h = (v, h1)" by fastforce
  have h1: "adds tunnels h h1" using vast_state_adds [OF v] by (rule adds_mono) simp
  show ?thesis
  proof (cases v)
    case (Inl e)
    with assms v h1 reads_open [OF vast_state_adds [OF v]] ended show ?thesis by (auto simp: connect_tunnel.simps [of w su])
  next
    case (Inr b)
    note b = vast_state_Inr [OF v [unfolded Inr]]
    obtain c h2 where c: "(if among b [Running] then open_ssh w (up_argv su) h1 else (Inr (Inl SSH_FAILED), h1)) = (c, h2)"
      by fastforce
    have "adds tunnels h1 h2" using c by (auto dest: open_ssh_adds [where P = tunnels] split: if_splits)
    with h1 have h2: "adds tunnels h h2" by (rule adds_trans)
    have "open_tunnels h1 = open_tunnels h" using reads_open [OF vast_state_adds [OF v]] .
    then have o: "open_tunnels h1 = open_tunnels h" "open_tunnels h2 = open_tunnels h + (if c = Inr (Inr ()) then 1 else 0)"
      using c by (auto dest: open_ssh_open split: if_splits)
    obtain p h3 where p: "perform w (Pause VAST_POLL_S) h2 = (p, h3)" by fastforce
    from perform_adds [OF p h2] have h3: "adds tunnels h h3" by simp
    have l: "length h < length h3" using perform_length [of w "Pause VAST_POLL_S" h2] adds_length [OF h2] by (simp add: p)
    have o3: "open_tunnels h3 = open_tunnels h2" using perform_open [OF p] by simp
    have sn: "among b [Going_down, Stopped] \<Longrightarrow> stop_seen w h1"
      using b by (auto simp: stop_seen_def among_def split: sum.splits)
    show ?thesis
    proof (cases "among b [Going_down, Stopped]")
      case True
      with assms v o h1 sn ended show ?thesis by (auto simp: connect_tunnel.simps [of w su] Inr)
    next
      case False
      with assms v have e: "(case c of Inl e \<Rightarrow> (Inl e, h2) | Inr (Inr _) \<Rightarrow> (Inr True, h2) | Inr (Inl code) \<Rightarrow>
          if code \<noteq> SSH_FAILED then (Inl (Refusal (tunnel_refusal code)), h2)
          else if deadline \<le> wo_now w h2 then (Inl (Refusal (''the card does not take SSH; Vast says '' @ state_text b)), h2)
          else (case p of Inl e \<Rightarrow> (Inl e, h3) | Inr _ \<Rightarrow> connect_tunnel w su deadline h3)) = (r, h')"
        by (simp add: connect_tunnel.simps [of w su deadline h] Inr c p cong: if_cong sum.case_cong del: append.simps split del: if_split)
      show ?thesis
      proof (cases "c = Inr (Inr ())")
        case True
        with e h2 o ended show ?thesis by auto
      next
        case c: False
        with o have "open_tunnels h2 = open_tunnels h" by simp
        with e c h2 h3 o3 ended again [OF b(1) l h3] show ?thesis
          by (auto split: if_splits sum.splits)
      qed
    qed
  qed
qed

lemma connect_tunnel_does:
  "connect_tunnel w su deadline h = (r, h') \<Longrightarrow>
    adds tunnels h h' \<and> open_tunnels h' = open_tunnels h + (if r = Inr True then 1 else 0) \<and> (r = Inr False \<longrightarrow> stop_seen w h')"
proof (induction h rule: history_induct [of "wo_patience w"])
  case (longer h)
  from longer(2) show ?case
  proof (cases rule: connect_tunnel_round)
    case (again h1)
    from longer(1) [OF again(1,2,5)] again(3,4) show ?thesis by (auto intro: adds_trans)
  qed blast
qed

lemma await_ready_round:
  assumes "await_ready w loads su deadline told h = (r, h')"
  obtains (ended) "adds reads h h'"
  | (again) told1 h1 where "length h < wo_patience w" "length h < length h1" "adds reads h h1"
      "await_ready w loads su deadline told1 h1 = (r, h')"
proof (cases "wo_ended w h")
  case True
  with assms ended show ?thesis by (simp add: await_ready.simps [of w])
next
  case False
  obtain v h1 where v: "gateway_call w loads (Get_state (ln_control (os_lane su))) h = (v, h1)" by fastforce
  have h1: "adds reads h h1" using gateway_call_history [OF v] by (auto intro: adds_snoc)
  show ?thesis
  proof (cases "\<exists>b st. v = Inr b \<and> judged su b = Inr st \<and> st \<noteq> Some ''ready''")
    case False
    with \<open>\<not> wo_ended w h\<close> assms v h1 ended show ?thesis
      by (auto simp: await_ready.simps [of w] split: sum.splits if_splits)
  next
    case True
    then obtain b st where b: "v = Inr b" "judged su b = Inr st" "st \<noteq> Some ''ready''" by blast
    have pa: "length h < wo_patience w" using v b(1) by (auto simp: gateway_call_def perform_def split: if_splits)
    define h2 where "h2 = (if st = None \<or> st = told then h1 else say (''gateway: '' @ the st) h1)"
    have h2: "adds reads h h2" unfolding h2_def using h1 by (simp add: adds_say)
    obtain p h3 where p: "perform w (Pause READY_POLL_S) h2 = (p, h3)" by fastforce
    from perform_adds [OF p h2] have h3: "adds reads h h3" by simp
    have l: "length h < length h3" using perform_length [of w "Pause READY_POLL_S" h2] adds_length [OF h2] by (simp add: p)
    from assms \<open>\<not> wo_ended w h\<close> v b have "(if deadline \<le> wo_now w h2 then (Inl (Refusal ''the gateway is not ready in time''), h2)
        else (case p of Inl e \<Rightarrow> (Inl e, h3) | Inr _ \<Rightarrow> await_ready w loads su deadline (if st = None then told else st) h3)) = (r, h')"
      by (simp add: await_ready.simps [of w] h2_def [symmetric] p Let_def cong: if_cong del: append.simps split del: if_split)
    then show ?thesis using h2 h3 ended again [OF pa l h3] by (auto split: if_splits sum.splits)
  qed
qed

lemma await_ready_adds: "await_ready w loads su deadline told h = (r, h') \<Longrightarrow> adds reads h h'"
proof (induction h arbitrary: told rule: history_induct [of "wo_patience w"])
  case (longer h)
  from longer(2) show ?case
  proof (cases rule: await_ready_round)
    case (again told1 h1)
    with longer(1) adds_trans show ?thesis by blast
  qed
qed

definition ready_text :: "owner_setup \<Rightarrow> string" where
  "ready_text su = ''ready: '' @ os_alias su @ '' at http://127.0.0.1:'' @ int_text (ln_public (os_lane su)) @
     ''/v1, control at http://127.0.0.1:'' @ int_text (ln_control (os_lane su)) @
     ''. Ctrl+C closes the tunnel and sends nothing.''"

text \<open>\<open>ended\<close> counts the tunnels in a row that ended without the gateway ready.\<close>

function hold_tunnel :: "owner_world \<Rightarrow> loads \<Rightarrow> owner_setup \<Rightarrow> nat \<Rightarrow> act list \<Rightarrow> unit outcome" where
  "hold_tunnel w loads su ended h =
    (case connect_tunnel w su (wo_now w h + VAST_WAIT_S) h of
       (Inl e, h1) \<Rightarrow> (Inl e, h1)
     | (Inr b, h1) \<Rightarrow>
         if \<not> b then (Inr (), say ''the card has stopped'' h1)
         else (case await_ready w loads su (wo_now w h1 + os_ready_s su) None h1 of
            (Inl e, h2) \<Rightarrow> (Inl e, h2 @ [Close_ssh])
          | (Inr ok, h2) \<Rightarrow>
              let h3 = (if ok then say (ready_text su) h2 else h2);
                  n = (if ok then 0 else ended) + 1
              in case perform w Await_end h3 of
                   (Inl e, h4) \<Rightarrow> (Inl e, h4 @ [Close_ssh])
                 | (Inr _, h4) \<Rightarrow>
                     (case (if wo_exit w h3 \<in> {GAVE_UP, STOP_UNCONFIRMED} then REFUSALS (wo_exit w h3)
                          else if n > RECONNECTS then Some ''the tunnel keeps ending before the gateway is ready'' else None) of
                        Some t \<Rightarrow> (Inl (Refusal t), h4 @ [Close_ssh])
                      | None \<Rightarrow>
                          (case perform w (Pause VAST_POLL_S)
                              (say ''tunnel: closed; opening it again while the instance runs'' (h4 @ [Close_ssh])) of
                             (Inl e, h5) \<Rightarrow> (Inl e, h5)
                           | (Inr _, h5) \<Rightarrow> hold_tunnel w loads su n h5))))"
  by pat_completeness auto

lemma connect_tunnel_grows: "(r, h1) = connect_tunnel w su deadline h \<Longrightarrow> length h \<le> length h1"
  by (drule sym, drule connect_tunnel_does) (auto dest: adds_length)

lemma await_ready_grows: "(r, h1) = await_ready w loads su deadline told h \<Longrightarrow> length h \<le> length h1"
  by (drule sym, drule await_ready_adds) (rule adds_length)

lemma perform_goes_on: "(Inr u, h1) = perform w a h \<Longrightarrow> length h < wo_patience w \<and> h1 = h @ [a]"
  by (drule sym) (simp add: perform_Inr)

termination hold_tunnel
  by (relation "measure (\<lambda>(w, _, _, _, h). wo_patience w - length h)")
    (auto simp: say_def dest!: connect_tunnel_grows await_ready_grows perform_goes_on split: if_splits)

declare hold_tunnel.simps [simp del]

text \<open>\<open>locked\<close>: another up holds the lock; \<open>taken\<close>: the local ports on which something listens.\<close>

definition owner_up :: "owner_world \<Rightarrow> loads \<Rightarrow> owner_setup \<Rightarrow> bool \<Rightarrow> int set \<Rightarrow> act list \<Rightarrow> unit outcome" where
  "owner_up w loads su locked taken h =
    (if locked then (Inl (Refusal ''another up runs''), h)
     else case filter (\<lambda>p. p \<in> taken) [ln_public (os_lane su), ln_control (os_lane su)] of
       p # _ \<Rightarrow> (Inl (Refusal (''local port '' @ int_text p @ '' is taken, and up leaves another listener alone'')), h)
     | [] \<Rightarrow> and_then (start_instance w h) (\<lambda>_ h1. hold_tunnel w loads su 0 h1))"

subsection \<open>Sleep and status\<close>

datatype control_error =
    No_tunnel int
  | Gateway gateway_error

definition describe_control :: "control_error \<Rightarrow> string" where
  "describe_control e = (case e of No_tunnel code \<Rightarrow> describe_tunnel code | Gateway g \<Rightarrow> describe_gateway g)"

text \<open>A forward of the command's own on a free port, opened once more where ssh itself fails.\<close>

definition closed_after :: "'a outcome \<Rightarrow> 'a outcome" where
  "closed_after r = (case r of (v, h) \<Rightarrow> (v, h @ [Close_ssh]))"

definition with_control ::
  "owner_world \<Rightarrow> owner_setup \<Rightarrow> (int \<Rightarrow> act list \<Rightarrow> (gateway_error + 'a) outcome) \<Rightarrow> act list \<Rightarrow> (control_error + 'a) outcome"
where
  "with_control w su body h =
    (let port = wo_port w h;
         argv = ssh_argv (os_host su) [(port, os_card_control su)] (ln_hold (os_lane su));
         inside = (\<lambda>h1. closed_after (and_then (body port h1) (\<lambda>r h2. (Inr (case r of Inl e \<Rightarrow> Inl (Gateway e) | Inr v \<Rightarrow> Inr v), h2))))
     in and_then (open_ssh w argv h) (\<lambda>r h1.
       case r of
         Inr _ \<Rightarrow> inside h1
       | Inl code \<Rightarrow>
           if code \<noteq> SSH_FAILED then (Inr (Inl (No_tunnel code)), h1)
           else and_then (perform w (Pause SSH_RETRY_S) h1) (\<lambda>_ h2. and_then (open_ssh w argv h2) (\<lambda>r h3.
             case r of Inr _ \<Rightarrow> inside h3 | Inl code \<Rightarrow> (Inr (Inl (No_tunnel code)), h3)))))"

definition ask_sleep_once :: "owner_world \<Rightarrow> loads \<Rightarrow> int \<Rightarrow> act list \<Rightarrow> (gateway_error + string) outcome" where
  "ask_sleep_once w loads port h =
    and_then (gateway_call w loads (Get_state port) h) (\<lambda>r h1.
      case r of
        Inl e \<Rightarrow> (Inr (Inl e), h1)
      | Inr view \<Rightarrow>
          and_then (gateway_call w loads (Ask_sleep port (text_of ''boot_id'' view)) h1) (\<lambda>r h2.
            (Inr (case r of Inl e \<Rightarrow> Inl e | Inr answer \<Rightarrow> Inr (text_of ''status'' answer)), h2)))"

definition ask_sleep :: "owner_world \<Rightarrow> loads \<Rightarrow> int \<Rightarrow> act list \<Rightarrow> (gateway_error + string) outcome" where
  "ask_sleep w loads port h =
    and_then (ask_sleep_once w loads port h) (\<lambda>r h1.
      case r of Inr st \<Rightarrow> (Inr (Inr st), h1) | Inl _ \<Rightarrow> ask_sleep_once w loads port h1)"

definition said_sleep :: "owner_world \<Rightarrow> loads \<Rightarrow> int \<Rightarrow> act list \<Rightarrow> (gateway_error + unit) outcome" where
  "said_sleep w loads port h =
    and_then (ask_sleep w loads port h) (\<lambda>r h1.
      case r of Inl e \<Rightarrow> (Inr (Inl e), h1) | Inr st \<Rightarrow> (Inr (Inr ()), say (''gateway: '' @ st @ '', falling asleep'') h1))"

definition owner_sleep :: "owner_world \<Rightarrow> loads \<Rightarrow> owner_setup \<Rightarrow> act list \<Rightarrow> unit outcome" where
  "owner_sleep w loads su h =
    and_then (vast_state w h) (\<lambda>v h1.
    and_then (if among v [Going_down, Stopped] then (Inr (), h1)
      else and_then (with_control w su (said_sleep w loads) h1) (\<lambda>r h2.
        case r of
          Inr _ \<Rightarrow> (Inr (), h2)
        | Inl e \<Rightarrow> (Inl (Refusal (''the gateway did not take the sleep ('' @ describe_control e @
            ''), and this command never stops the card itself'')), h2))) (\<lambda>_ h3.
    and_then (await_state w [Stopped] (wo_now w h3 + VAST_WAIT_S) ''the instance to stop'' None h3) (\<lambda>_ h4.
    (Inr (), say ''vast: stopped'' h4))))"

text \<open>\<^verbatim>\<open>str\<close> of a dictionary from names to numbers, without those of zero.\<close>

definition count_text :: "json \<Rightarrow> string" where
  "count_text v =
    (let shown = filter (\<lambda>(_, k). k \<noteq> JInt 0) (case v of JObj ob \<Rightarrow> ob | _ \<Rightarrow> []);
         entry_text = (\<lambda>(n, k). [CHR 0x27] @ n @ [CHR 0x27] @ '': '' @ (case k of JInt i \<Rightarrow> int_text i | _ \<Rightarrow> []))
     in if shown = [] then ''none'' else ''{'' @ join_with '', '' (map entry_text shown) @ ''}'')"

definition view_text :: "owner_setup \<Rightarrow> obj \<Rightarrow> string" where
  "view_text su view =
    (let serves = (jget ''contract'' view, jget ''lane'' view, jget ''model'' view) =
           (JStr ''2'', (case ln_name (os_lane su) of None \<Rightarrow> JNull | Some n \<Rightarrow> JStr n), JStr (os_alias su));
         in_lane = (case ln_name (os_lane su) of None \<Rightarrow> [] | Some n \<Rightarrow> ''lane '' @ n @ '', '')
     in ''gateway: '' @ text_of ''status'' view @
        (if jget ''sleep_requested'' view = JBool True then '', falling asleep'' else []) @ ''; '' @
        (if serves then ''contract 2, '' @ in_lane @ ''model '' @ os_alias su else ''another contract or model'') @
        ''; active '' @ count_text (jget ''active'' view) @ '', waiting '' @ count_text (jget ''waiting'' view))"

definition owner_status :: "owner_world \<Rightarrow> loads \<Rightarrow> owner_setup \<Rightarrow> act list \<Rightarrow> unit outcome" where
  "owner_status w loads su h =
    and_then (vast_state w h) (\<lambda>v h1.
    let h2 = h1 @ [Show (''vast: '' @ state_text v)]
    in if among v [Going_down, Stopped] then (Inr (), h2)
       else and_then (with_control w su (\<lambda>port. gateway_call w loads (Get_state port)) h2) (\<lambda>r h3.
         (Inr (), h3 @ [Show (case r of Inl e \<Rightarrow> ''gateway: '' @ describe_control e | Inr view \<Rightarrow> view_text su view)])))"

subsection \<open>Trial\<close>

definition READ_TRIAL :: string where "READ_TRIAL = ''cat /root/.simple-chat-instance-id || exit 3; echo''"

fun gather :: "string \<Rightarrow> string list \<Rightarrow> string" where
  "gather got [] = got"
| "gather got (chunk # chunks) =
    (if length got \<le> TRIAL_BYTES \<and> chunk \<noteq> [] then gather (got @ chunk) chunks else got)"

definition read_trial :: "owner_world \<Rightarrow> string \<Rightarrow> act list \<Rightarrow> (string \<times> int option) outcome" where
  "read_trial w host h =
    and_then (perform w (Read_id (SSH @ [host, READ_TRIAL])) h) (\<lambda>_ h1.
      case wo_trial w h of
        Trial_late \<Rightarrow>
          (Inl (Refusal (''the card did not give the instance'' @ [CHR 0x27] @ ''s id within 30 seconds'')), h1 @ [Close_ssh])
      | Trial chunks code \<Rightarrow>
          (let answer = gather [] chunks
           in if length answer \<le> TRIAL_BYTES then (Inr (answer, Some code), h1)
              else (Inr (answer, None), h1 @ [Close_ssh])))"

text \<open>The configuration that is written, as far as the command gets; \<open>decode\<close> is that of UTF-8.\<close>

definition trial_config :: "lane_setup \<Rightarrow> obj \<Rightarrow> obj \<Rightarrow> string \<Rightarrow> string \<Rightarrow> obj" where
  "trial_config la config block inst host =
    (let found = jput ''ssh_host'' (JStr host) (jput ''instance_id'' (JStr inst) block)
     in case ln_name la of None \<Rightarrow> found | Some n \<Rightarrow> jput n (JObj found) config)"

definition trial_id :: "(string \<Rightarrow> string option) \<Rightarrow> string \<Rightarrow> int option \<Rightarrow> string + string" where
  "trial_id decode answer code =
    (case code of
       Some c \<Rightarrow>
         if c \<noteq> 0 then Inl (''could not read the instance'' @ [CHR 0x27] @ ''s id from the card: ssh ended with '' @ int_text c)
         else (case map_option (split_on newline) (decode answer) of
             Some [inst, rest] \<Rightarrow>
               if rest = [] \<and> is_count inst then Inr inst
               else Inl (''the card'' @ [CHR 0x27] @ ''s instance id is missing or of the wrong form'')
           | _ \<Rightarrow> Inl (''the card'' @ [CHR 0x27] @ ''s instance id is missing or of the wrong form''))
     | None \<Rightarrow> Inl (''the card'' @ [CHR 0x27] @ ''s instance id is missing or of the wrong form''))"

definition owner_trial ::
  "owner_world \<Rightarrow> (string \<Rightarrow> string option) \<Rightarrow> string \<Rightarrow> lane_setup \<Rightarrow> config_file \<Rightarrow> string \<Rightarrow> act list \<Rightarrow> obj outcome"
where
  "owner_trial w decode path la f host h =
    (if \<not> SSH_HOST host then (Inl (Refusal ''the SSH host has the wrong form''), h)
     else case andthen (read_config path f) (\<lambda>config. andthen (lane_block path la config) (\<lambda>block. Inr (config, block))) of
       Inl t \<Rightarrow> (Inl (Refusal t), h)
     | Inr (config, block) \<Rightarrow>
         and_then (read_trial w host h) (\<lambda>first h1.
         and_then (if first = ([], Some SSH_FAILED)
             then and_then (perform w (Pause SSH_RETRY_S) h1) (\<lambda>_ h2. read_trial w host h2) else (Inr first, h1)) (\<lambda>r h3.
         case trial_id decode (fst r) (snd r) of
           Inl t \<Rightarrow> (Inl (Refusal t), h3)
         | Inr inst \<Rightarrow>
             (Inr (trial_config la config block inst host),
              say (''trial: the instance'' @ [CHR 0x27] @ ''s id and the SSH host are in '' @ path) h3))))"

subsection \<open>The command line\<close>

datatype owner_command =
    Up_command
  | Sleep_command
  | Status_command
  | Keys_command
  | Trial_command

definition arguments_ok :: "owner_command \<Rightarrow> string option \<Rightarrow> string option \<Rightarrow> bool" where
  "arguments_ok cmd host metrics_file \<longleftrightarrow>
    (cmd = Trial_command \<longleftrightarrow> host \<noteq> None) \<and> (metrics_file \<noteq> None \<longrightarrow> cmd = Keys_command)"

text \<open>An exception that nothing expects is a traceback.\<close>

definition owner_exit :: "owner_error + 'a \<Rightarrow> int" where
  "owner_exit r = (case r of Inr _ \<Rightarrow> 0 | Inl Interrupted \<Rightarrow> 130 | Inl _ \<Rightarrow> 1)"

subsection \<open>What up does\<close>

lemma hold_tunnel_round:
  assumes "hold_tunnel w loads su n h = (r, h')"
  obtains (ended) "adds tunnels h h'" "open_tunnels h' = open_tunnels h"
      "r = Inr () \<longrightarrow> (\<exists>hs. h' = say ''the card has stopped'' hs \<and> stop_seen w hs)"
  | (again) m h1 where "length h < wo_patience w" "length h < length h1" "adds tunnels h h1" "open_tunnels h1 = open_tunnels h"
      "hold_tunnel w loads su m h1 = (r, h')"
proof -
  obtain c h1 where c: "connect_tunnel w su (wo_now w h + VAST_WAIT_S) h = (c, h1)" by fastforce
  note d = connect_tunnel_does [OF c]
  show ?thesis
  proof (cases "c = Inr True")
    case False
    with assms c d show ?thesis
      by (intro ended) (auto simp: hold_tunnel.simps [of w loads su n h] intro: adds_say split: sum.splits)
  next
    case True
    obtain a h2 where a: "await_ready w loads su (wo_now w h1 + os_ready_s su) None h1 = (a, h2)" by fastforce
    have h2: "adds tunnels h h2" "open_tunnels h2 = open_tunnels h + 1"
      using d True adds_mono [OF await_ready_adds [OF a], of tunnels] reads_open [OF await_ready_adds [OF a]]
      by (auto intro: adds_trans)
    show ?thesis
    proof (cases a)
      case (Inl e)
      with assms c True a h2 show ?thesis
        by (intro ended) (auto simp: hold_tunnel.simps [of w loads su n h] intro: adds_snoc)
    next
      case (Inr ok)
      define h3 where "h3 = (if ok then say (ready_text su) h2 else h2)"
      define m where "m = (if ok then 0 else n) + 1"
      obtain p h4 where p: "perform w Await_end h3 = (p, h4)" by fastforce
      have h3: "adds tunnels h h3" "open_tunnels h3 = open_tunnels h + 1" unfolding h3_def using h2 by (auto intro: adds_say)
      have h4: "adds tunnels h (h4 @ [Close_ssh])" "open_tunnels (h4 @ [Close_ssh]) = open_tunnels h"
        using perform_adds [OF p h3(1)] perform_open [OF p] h3(2) by (auto intro: adds_snoc)
      define t where "t = (if wo_exit w h3 = GAVE_UP \<or> wo_exit w h3 = STOP_UNCONFIRMED then REFUSALS (wo_exit w h3)
          else if m > RECONNECTS then Some ''the tunnel keeps ending before the gateway is ready'' else None)"
      define h5 where "h5 = say ''tunnel: closed; opening it again while the instance runs'' (h4 @ [Close_ssh])"
      obtain q h6 where q: "perform w (Pause VAST_POLL_S) h5 = (q, h6)" by fastforce
      have h5: "adds tunnels h h5" "open_tunnels h5 = open_tunnels h" unfolding h5_def using h4 by (auto intro: adds_say)
      have h6: "adds tunnels h h6" "open_tunnels h6 = open_tunnels h"
        using perform_adds [OF q h5(1)] perform_open [OF q] h5(2) by auto
      have "length h \<le> length h5" using adds_length [OF h5(1)] .
      then have l: "q = Inr () \<Longrightarrow> length h < wo_patience w \<and> length h < length h6" using q by (auto simp: perform_Inr)
      from assms have e: "(case p of Inl e \<Rightarrow> (Inl e, h4 @ [Close_ssh]) | Inr _ \<Rightarrow>
          (case t of Some t \<Rightarrow> (Inl (Refusal t), h4 @ [Close_ssh]) | None \<Rightarrow>
            (case q of Inl e \<Rightarrow> (Inl e, h6) | Inr _ \<Rightarrow> hold_tunnel w loads su m h6))) = (r, h')"
        by (simp add: hold_tunnel.simps [of w loads su n] c True a Inr Let_def h3_def [symmetric] m_def [symmetric] p t_def [symmetric]
            h5_def [symmetric] q cong: if_cong option.case_cong sum.case_cong del: append.simps One_nat_def add_Suc_right split del: if_split)
      show ?thesis
        using e h4 h6 l ended again [of h6 m] by (auto split: sum.splits option.splits)
    qed
  qed
qed

lemma hold_tunnel_does:
  "hold_tunnel w loads su n h = (r, h') \<Longrightarrow>
    adds tunnels h h' \<and> open_tunnels h' = open_tunnels h \<and>
    (r = Inr () \<longrightarrow> (\<exists>hs. h' = say ''the card has stopped'' hs \<and> stop_seen w hs))"
proof (induction h arbitrary: n rule: history_induct [of "wo_patience w"])
  case (longer h)
  from longer(2) show ?case
  proof (cases rule: hold_tunnel_round)
    case (again m h1)
    from longer(1) [OF again(1,2,5)] again(3,4) show ?thesis by (auto intro: adds_trans)
  qed blast
qed

text \<open>The start reads and says, save for one resume at most, which follows an answer that the instance is stopped.\<close>

definition resumed_after :: "owner_world \<Rightarrow> act list \<Rightarrow> act list \<Rightarrow> bool" where
  "resumed_after w h h' \<longleftrightarrow>
    adds reads h h' \<or>
    (\<exists>hs ts. adds reads h hs \<and> wo_show w hs = Inr Stopped \<and> list_all reads ts \<and>
      h' = hs @ [Ask_vast, Say ''vast: stopped; resuming the instance'', Resume] @ ts)"

lemma start_does:
  assumes "start_instance w h = (r, h')"
  shows "resumed_after w h h'"
proof -
  obtain a h1 where a: "await_state w [Stopped, Coming_up, Running] (wo_now w h + VAST_WAIT_S) ''the stop in flight to end'' None h = (a, h1)"
    by fastforce
  note h1 = await_state_adds [OF a]
  have later: "resumed_after w h h4"
    if "resumed_after w h h2" "adds reads h2 h4" for h2 h4
    using that unfolding resumed_after_def by (auto intro: adds_trans simp: adds_def)
  show ?thesis
  proof (cases a)
    case (Inl e)
    with assms a h1 show ?thesis by (simp add: start_instance_def resumed_after_def)
  next
    case (Inr st)
    obtain u h2 where u: "(if st = Stopped then resume_instance w h1 else (Inr (), h1)) = (u, h2)" by fastforce
    have h2: "resumed_after w h h2"
    proof (cases "st = Stopped")
      case True
      then obtain hs where hs: "h1 = hs @ [Ask_vast]" "wo_show w hs = Inr Stopped" "adds reads h hs"
        using await_state_last [OF a [unfolded Inr]] by blast
      from u True have "h2 = h1 @ [Say ''vast: stopped; resuming the instance'', Resume]"
        by (auto simp: resume_instance_def Let_def say_def perform_def split: if_splits sum.splits attempt_error.splits)
      with hs show ?thesis unfolding resumed_after_def by (intro disjI2 exI [of _ hs] exI [of _ "[]"]) simp
    next
      case False
      with u h1 show ?thesis by (simp add: resumed_after_def)
    qed
    show ?thesis
    proof (cases u)
      case (Inl e)
      with assms a Inr u h2 show ?thesis by (simp add: start_instance_def)
    next
      case u': (Inr x)
      obtain b h3 where b: "await_state w [Running, Going_down] (wo_now w h2 + VAST_WAIT_S) ''the instance to run'' None h2 = (b, h3)"
        by fastforce
      have "h' = h3" using assms a Inr u u' b by (auto simp: start_instance_def and_then_def split: sum.splits if_splits)
      with later [OF h2 await_state_adds [OF b]] show ?thesis by simp
    qed
  qed
qed

lemma no_resume: "list_all reads ts \<Longrightarrow> Resume \<notin> set ts" "list_all tunnels ts \<Longrightarrow> Resume \<notin> set ts"
  by (auto simp: list_all_iff)

lemma split_unique: "xs @ a # ys = us @ a # vs \<Longrightarrow> a \<notin> set us \<Longrightarrow> a \<notin> set vs \<Longrightarrow> xs = us"
  by (auto simp: append_eq_append_conv2 append_eq_Cons_conv Cons_eq_append_conv)

text \<open>
  C36: Up never fights a stop. Whatever Vast, ssh and the gateway answer, and wherever Ctrl+C ends it, up writes to Vast
  at most once, a resume, right after Vast said that the instance is stopped; it asks no gateway to sleep; no tunnel
  that it opened stays open; and it ends without an error only once Vast means to stop the instance.
\<close>

theorem up_resumes_once:
  assumes "owner_up w loads su locked taken [] = (r, h)"
  shows "count_list h Resume \<le> 1 \<and>
    (\<forall>hs ts. h = hs @ Resume # ts \<longrightarrow>
      (\<exists>us. hs = us @ [Ask_vast, Say ''vast: stopped; resuming the instance''] \<and> wo_show w us = Inr Stopped)) \<and>
    list_all (\<lambda>a. a = Resume \<or> tunnels a) h \<and> open_tunnels h = 0 \<and>
    (r = Inr () \<longrightarrow> (\<exists>hs. h = say ''the card has stopped'' hs \<and> stop_seen w hs))"
proof -
  consider e where "r = Inl e" "h = []"
    | h1 where "resumed_after w [] h1" "r \<noteq> Inr ()" "h = h1"
    | h1 where "resumed_after w [] h1" "hold_tunnel w loads su 0 h1 = (r, h)"
  proof -
    obtain u h1 where u: "start_instance w [] = (u, h1)" by fastforce
    show ?thesis
      using assms u start_does [OF u] that by (cases u) (auto simp: owner_up_def split: if_splits)
  qed
  then obtain h1 ts where h1: "resumed_after w [] h1" and ts: "h = h1 @ ts" "list_all tunnels ts" "open_tunnels ts = 0"
    and e: "r = Inr () \<longrightarrow> (\<exists>hs. h = say ''the card has stopped'' hs \<and> stop_seen w hs)"
  proof cases
    case 1
    then show ?thesis using that [of "[]" "[]"] by (simp add: resumed_after_def)
  next
    case (2 h1)
    then show ?thesis using that [of h1 "[]"] by simp
  next
    case (3 h1)
    from hold_tunnel_does [OF this(2)] obtain ts where "h = h1 @ ts" "list_all tunnels ts" and o: "open_tunnels h = open_tunnels h1"
      and e: "r = Inr () \<longrightarrow> (\<exists>hs. h = say ''the card has stopped'' hs \<and> stop_seen w hs)" unfolding adds_def by blast
    then show ?thesis using that [OF 3(1) _ _ _ e] by simp
  qed
  from h1 consider (none) "list_all reads h1" "open_tunnels h1 = 0"
    | (one) hs us where "list_all reads hs" "wo_show w hs = Inr Stopped" "list_all reads us"
      "h1 = (hs @ [Ask_vast, Say ''vast: stopped; resuming the instance'']) @ Resume # us" "open_tunnels h1 = 0"
    using reads_open [of "[]"] by (auto simp: resumed_after_def adds_def)
  then show ?thesis
  proof cases
    case none
    then have "Resume \<notin> set h" using ts no_resume by auto
    then have "count_list h Resume = 0" "\<And>hs us. h \<noteq> hs @ Resume # us" by (auto simp: count_list_0_iff)
    moreover have "list_all (\<lambda>a. a = Resume \<or> tunnels a) h" using none ts by (auto simp: list_all_iff)
    ultimately show ?thesis using none(2) ts e by simp
  next
    case one
    let ?a = "hs @ [Ask_vast, Say ''vast: stopped; resuming the instance'']"
    have n: "Resume \<notin> set ?a" "Resume \<notin> set (us @ ts)" using one no_resume ts by auto
    have h: "h = ?a @ Resume # (us @ ts)" using one ts by simp
    have "count_list h Resume = 1" unfolding h using n by (simp add: count_list_0_iff [THEN iffD2])
    moreover have "xs = ?a" if "h = xs @ Resume # ys" for xs ys
      using that h n by (metis split_unique)
    moreover have "list_all (\<lambda>a. a = Resume \<or> tunnels a) h" unfolding h using one ts by (auto simp: list_all_iff)
    moreover have "open_tunnels h = 0" using one ts by simp
    ultimately show ?thesis using one(2) e by auto
  qed
qed

definition sample_owner :: owner_setup where
  "sample_owner = \<lparr>os_control_key = ''k'', os_alias = ''m'', os_ready_s = 900, os_card_public = 8080, os_card_control = 8081,
     os_instance = ''7'', os_vast_key = ''v'', os_host = ''card'', os_lane = snd (hd LANES)\<rparr>"

text \<open>Vast says at first that the instance is stopped, then that it runs, and at the end that it goes down; ssh holds.\<close>

definition sample_world :: owner_world where
  "sample_world = \<lparr>wo_patience = 100, wo_now = (\<lambda>h. of_nat (length h)),
     wo_show = (\<lambda>h. if length h < 3 then Inr Stopped else if length h < 8 then Inr Running else Inr Going_down),
     wo_resume = (\<lambda>_. Inr ()), wo_ssh = (\<lambda>_. Ssh [HOLDING] 0), wo_ended = (\<lambda>_. True), wo_exit = (\<lambda>_. 0),
     wo_call = (\<lambda>_. Call_failed), wo_port = (\<lambda>_. 9), wo_trial = (\<lambda>_. Trial_late)\<rparr>"

lemma await_state_found:
  "length h < wo_patience w \<Longrightarrow> wo_show w h = Inr st \<Longrightarrow> st \<in> set wanted \<Longrightarrow>
    await_state w wanted deadline what told h = (Inr st, h @ [Ask_vast])"
  by (simp add: await_state.simps vast_state_def perform_def among_def)

lemma connect_tunnel_found:
  "Suc (length h) < wo_patience w \<Longrightarrow> wo_show w h = Inr Running \<Longrightarrow> wo_ssh w (h @ [Ask_vast]) = Ssh [HOLDING] code \<Longrightarrow>
    connect_tunnel w su deadline h = (Inr True, h @ [Ask_vast, Open_ssh (up_argv su)])"
  by (simp add: connect_tunnel.simps vast_state_def perform_def among_def open_ssh_def) (simp add: HOLDING_def strip_def lstrip_def is_space_def)

lemma connect_tunnel_down:
  "length h < wo_patience w \<Longrightarrow> wo_show w h = Inr Going_down \<Longrightarrow> connect_tunnel w su deadline h = (Inr False, h @ [Ask_vast])"
  by (simp add: connect_tunnel.simps vast_state_def perform_def among_def)

lemma await_ready_ended: "wo_ended w h \<Longrightarrow> await_ready w loads su deadline told h = (Inr False, h)"
  by (simp add: await_ready.simps)

lemma sample_up:
  "\<exists>h. owner_up sample_world loads sample_owner False {} [] = (Inr (), h) \<and> Resume \<in> set h"
  by (simp add: owner_up_def start_instance_def await_state_found resume_instance_def sample_world_def perform_def say_def Let_def
      hold_tunnel.simps [of _ _ _ 0] hold_tunnel.simps [of _ _ _ "Suc 0"] connect_tunnel_found connect_tunnel_down await_ready_ended
      GAVE_UP_def STOP_UNCONFIRMED_def RECONNECTS_def)

theorem up_resumes_once_witness:
  "\<exists>h. owner_up sample_world (\<lambda>_. None) sample_owner False {} [] = (Inr (), h) \<and> Resume \<in> set h \<and>
     count_list h Resume \<le> 1 \<and> open_tunnels h = 0"
proof -
  obtain h where h: "owner_up sample_world (\<lambda>_. None) sample_owner False {} [] = (Inr (), h)" "Resume \<in> set h"
    using sample_up by blast
  from up_resumes_once [OF h(1)] h show ?thesis by blast
qed

subsection \<open>What sleep does\<close>

fun is_ask :: "act \<Rightarrow> bool" where
  "is_ask (Ask_sleep _ _) = True"
| "is_ask _ = False"

text \<open>Each request to sleep names the boot that the gateway told right before, and there are at most so many more.\<close>

definition asks_ok :: "owner_world \<Rightarrow> loads \<Rightarrow> act list \<Rightarrow> bool" where
  "asks_ok w loads h \<longleftrightarrow>
    (\<forall>hs port boot ts. h = hs @ Ask_sleep port boot # ts \<longrightarrow>
      (\<exists>us view. hs = us @ [Get_state port] \<and> gateway_answer loads (wo_call w us) = Inr view \<and> jget ''boot_id'' view = JStr boot))"

definition asking :: "owner_world \<Rightarrow> loads \<Rightarrow> nat \<Rightarrow> act list \<Rightarrow> act list \<Rightarrow> bool" where
  "asking w loads n h h1 \<longleftrightarrow>
    length (filter is_ask h1) \<le> length (filter is_ask h) + n \<and> (asks_ok w loads h \<longrightarrow> asks_ok w loads h1) \<and>
    (Resume \<in> set h1 \<longrightarrow> Resume \<in> set h)"

lemma asking_trans: "asking w loads n h h1 \<Longrightarrow> asking w loads m h1 h2 \<Longrightarrow> asking w loads (n + m) h h2"
  by (auto simp: asking_def)

lemma asking_refl: "asking w loads n h h"
  by (simp add: asking_def)

lemma asking_more: "asking w loads n h h1 \<Longrightarrow> n \<le> m \<Longrightarrow> asking w loads m h h1"
  by (auto simp: asking_def)

lemma asks_ok_snoc:
  "asks_ok w loads (h @ [a]) \<longleftrightarrow> asks_ok w loads h \<and>
    (\<forall>port boot. a = Ask_sleep port boot \<longrightarrow>
      (\<exists>us view. h = us @ [Get_state port] \<and> gateway_answer loads (wo_call w us) = Inr view \<and> jget ''boot_id'' view = JStr boot))"
  (is "?l \<longleftrightarrow> ?r")
proof
  assume l: ?l
  have "asks_ok w loads h" unfolding asks_ok_def
  proof (intro allI impI)
    fix hs port boot ts
    assume "h = hs @ Ask_sleep port boot # ts"
    then have "h @ [a] = hs @ Ask_sleep port boot # (ts @ [a])" by simp
    with l show "\<exists>us view. hs = us @ [Get_state port] \<and> gateway_answer loads (wo_call w us) = Inr view \<and> jget ''boot_id'' view = JStr boot"
      unfolding asks_ok_def by blast
  qed
  moreover from l have "a = Ask_sleep port boot \<Longrightarrow>
      \<exists>us view. h = us @ [Get_state port] \<and> gateway_answer loads (wo_call w us) = Inr view \<and> jget ''boot_id'' view = JStr boot" for port boot
    unfolding asks_ok_def by blast
  ultimately show ?r by blast
next
  assume r: ?r
  show ?l unfolding asks_ok_def
  proof (intro allI impI)
    fix hs port boot ts
    assume "h @ [a] = hs @ Ask_sleep port boot # ts"
    then consider "ts = []" "h = hs" "a = Ask_sleep port boot" | us where "ts = us @ [a]" "h = hs @ Ask_sleep port boot # us"
      by (cases ts rule: rev_cases) auto
    then show "\<exists>us view. hs = us @ [Get_state port] \<and> gateway_answer loads (wo_call w us) = Inr view \<and> jget ''boot_id'' view = JStr boot"
      by cases (use r in \<open>auto simp: asks_ok_def\<close>)
  qed
qed

lemma asking_snoc: "asking w loads n h h1 \<Longrightarrow> \<not> is_ask a \<Longrightarrow> a \<noteq> Resume \<Longrightarrow> asking w loads n h (h1 @ [a])"
  by (auto simp: asking_def asks_ok_snoc)

lemma adds_asking: "adds tunnels h h1 \<Longrightarrow> asking w loads 0 h h1"
proof -
  have "list_all tunnels ts \<Longrightarrow> asking w loads 0 h (h @ ts)" for ts
  proof (induction ts rule: rev_induct)
    case (snoc a ts)
    then have "\<not> is_ask a" "a \<noteq> Resume" by (cases a; auto)+
    with snoc asking_snoc show ?case by (simp flip: append_assoc)
  qed (simp add: asking_refl)
  then show "adds tunnels h h1 \<Longrightarrow> asking w loads 0 h h1" by (auto simp: adds_def)
qed

lemma reads_asking: "adds reads h h1 \<Longrightarrow> asking w loads 0 h h1"
  by (rule adds_asking) (erule adds_mono, simp)

lemma gateway_answer_boot: "gateway_answer loads r = Inr view \<Longrightarrow> \<exists>b. jget ''boot_id'' view = JStr b"
  by (auto simp: gateway_answer_def well_formed_def split: call_reply.splits option.splits json.splits if_splits)

lemma ask_sleep_once_does:
  assumes "ask_sleep_once w loads port h = (r, h1)"
  shows "asking w loads 1 h h1 \<and> open_tunnels h1 = open_tunnels h"
proof -
  obtain v h2 where v: "gateway_call w loads (Get_state port) h = (v, h2)" by fastforce
  note h2 = gateway_call_history [OF v]
  have a: "asking w loads 0 h h2" unfolding h2 by (rule asking_snoc) (simp_all add: asking_refl)
  show ?thesis
  proof (cases "\<exists>view. v = Inr (Inr view)")
    case False
    then have "h1 = h2" using assms v by (auto simp: ask_sleep_once_def and_then_def split: sum.splits)
    with a h2 asking_more [OF a, of 1] show ?thesis by simp
  next
    case True
    then obtain view where view: "v = Inr (Inr view)" ..
    then have "gateway_answer loads (wo_call w h) = Inr view"
      using v by (auto simp: gateway_call_def perform_def split: if_splits)
    moreover from gateway_answer_boot [OF this] obtain b where b: "jget ''boot_id'' view = JStr b" ..
    moreover have "h1 = h2 @ [Ask_sleep port b]"
      using assms v view b by (auto simp: ask_sleep_once_def text_of_def and_then_def dest!: gateway_call_history split: sum.splits prod.splits)
    ultimately have "asks_ok w loads h2 \<longrightarrow> asks_ok w loads h1" using h2 by (auto simp del: append_assoc simp: asks_ok_snoc)
    moreover have "asks_ok w loads h \<longrightarrow> asks_ok w loads h2" using a by (simp add: asking_def)
    ultimately show ?thesis using h2 \<open>h1 = _\<close> by (auto simp: asking_def)
  qed
qed

lemma said_sleep_does:
  assumes "said_sleep w loads port h = (r, h1)"
  shows "asking w loads 2 h h1 \<and> open_tunnels h1 = open_tunnels h"
proof -
  obtain v h2 where v: "ask_sleep_once w loads port h = (v, h2)" by fastforce
  obtain v' h3 where v': "ask_sleep_once w loads port h2 = (v', h3)" by fastforce
  note a = ask_sleep_once_does [OF v] ask_sleep_once_does [OF v']
  have two: "asking w loads 2 h h3" using asking_trans [of w loads 1 h h2 1 h3] a by (simp add: numeral_2_eq_2)
  have one: "asking w loads 2 h h2" using a(1) asking_more [of w loads 1 h h2 2] by simp
  have s: "asking w loads 2 h (say t g)" if "asking w loads 2 h g" for t g
    using that unfolding say_def by (rule asking_snoc) simp_all
  from assms v v' a one two s show ?thesis
    by (auto simp: said_sleep_def ask_sleep_def and_then_def split: sum.splits)
qed

lemma with_control_does:
  assumes "with_control w su body h = (r, h')"
    and b: "\<And>port g v g1. body port g = (v, g1) \<Longrightarrow> asking w loads n g g1 \<and> open_tunnels g1 = open_tunnels g"
  shows "asking w loads n h h' \<and> open_tunnels h' = open_tunnels h"
proof -
  define argv where "argv = ssh_argv (os_host su) [(wo_port w h, os_card_control su)] (ln_hold (os_lane su))"
  define inside where "inside = (\<lambda>h1. closed_after (and_then (body (wo_port w h) h1)
      (\<lambda>r h2. (Inr (case r of Inl e \<Rightarrow> Inl (Gateway e) | Inr v \<Rightarrow> Inr v), h2))))"
  have i: "asking w loads n h g1 \<and> open_tunnels g1 = open_tunnels h"
    if c: "inside g = (v, g1)" "asking w loads 0 h g" "open_tunnels g = open_tunnels h + 1" for v g g1
  proof -
    obtain x g2 where g2: "body (wo_port w h) g = (x, g2)" by fastforce
    then have "g1 = g2 @ [Close_ssh]" using c(1) by (auto simp: inside_def closed_after_def and_then_def split: sum.splits)
    with asking_trans [OF c(2)] b [OF g2] c(3) show ?thesis by (auto intro!: asking_snoc)
  qed
  have o: "asking w loads 0 g g1 \<and> open_tunnels g1 = open_tunnels g + (if v = Inr (Inr ()) then 1 else 0)"
    if "open_ssh w argv g = (v, g1)" for g v g1
    using open_ssh_adds [OF that, of tunnels] open_ssh_open [OF that] adds_asking by auto
  have z: "asking w loads 0 h g2" if "asking w loads 0 h g1" "asking w loads 0 g1 g2" for g1 g2
    using asking_trans [OF that] by simp
  have e: "with_control w su body h = and_then (open_ssh w argv h) (\<lambda>r h1.
       case r of
         Inr _ \<Rightarrow> inside h1
       | Inl code \<Rightarrow>
           if code \<noteq> SSH_FAILED then (Inr (Inl (No_tunnel code)), h1)
           else and_then (perform w (Pause SSH_RETRY_S) h1) (\<lambda>_ h2. and_then (open_ssh w argv h2) (\<lambda>r h3.
             case r of Inr _ \<Rightarrow> inside h3 | Inl code \<Rightarrow> (Inr (Inl (No_tunnel code)), h3))))"
    unfolding with_control_def Let_def argv_def inside_def by (rule refl)
  obtain v h1 where v: "open_ssh w argv h = (v, h1)" by fastforce
  note ov = o [OF v]
  from ov have m: "asking w loads n h h1" using asking_more by blast
  consider (error) x where "v = Inl x" | (none) code where "v = Inr (Inl code)" | (some) "v = Inr (Inr ())"
    by (metis (full_types) old.unit.exhaust sumE)
  then show ?thesis
  proof cases
    case error
    with assms(1) v m ov show ?thesis by (auto simp: e)
  next
    case some
    with assms(1) v i [of h1] ov show ?thesis by (simp add: e)
  next
    case (none code)
    obtain q h2 where q: "perform w (Pause SSH_RETRY_S) h1 = (q, h2)" by fastforce
    obtain v2 h3 where v2: "open_ssh w argv h2 = (v2, h3)" by fastforce
    have h2: "asking w loads 0 h h2" "open_tunnels h2 = open_tunnels h"
      using q ov none by (auto simp: perform_def intro!: asking_snoc)
    have h3: "asking w loads 0 h h3" "open_tunnels h3 = open_tunnels h + (if v2 = Inr (Inr ()) then 1 else 0)"
      using z [OF h2(1)] o [OF v2] h2(2) by auto
    have m2: "asking w loads n h h2" "asking w loads n h h3" using h2(1) h3(1) asking_more by blast+
    show ?thesis
    proof (cases "code = SSH_FAILED \<and> q = Inr () \<and> v2 = Inr (Inr ())")
      case True
      with assms(1) v none q v2 h3 i [of h3] show ?thesis by (simp add: e)
    next
      case False
      with assms(1) v none q v2 h2 h3 m m2 ov show ?thesis
        by (cases q; cases v2) (auto simp: e split: sum.splits if_splits)
    qed
  qed
qed

text \<open>
  C37: Sleep leaves the stop to the card. Whatever it meets and wherever Ctrl+C ends it, it writes nothing to Vast and
  leaves no tunnel open; it asks the gateway to sleep at most twice, each time the boot that the gateway told right
  before; and it ends without an error only once Vast says that the instance is stopped.
\<close>

theorem sleep_confirmed:
  assumes "owner_sleep w loads su [] = (r, h)"
  shows "Resume \<notin> set h \<and> open_tunnels h = 0 \<and> length (filter is_ask h) \<le> 2 \<and>
    (\<forall>hs port boot ts. h = hs @ Ask_sleep port boot # ts \<longrightarrow>
      (\<exists>us view. hs = us @ [Get_state port] \<and> gateway_answer loads (wo_call w us) = Inr view \<and> jget ''boot_id'' view = JStr boot)) \<and>
    (r = Inr () \<longrightarrow> (\<exists>hs. h = hs @ [Ask_vast, Say ''vast: stopped''] \<and> wo_show w hs = Inr Stopped))"
proof -
  obtain v h1 where v: "vast_state w [] = (v, h1)" by fastforce
  have h1: "asking w loads 0 [] h1" "open_tunnels h1 = 0"
    using reads_asking [OF vast_state_adds [OF v]] reads_open [OF vast_state_adds [OF v]] by simp_all
  have "asking w loads 2 [] h \<and> open_tunnels h = 0 \<and>
    (r = Inr () \<longrightarrow> (\<exists>hs. h = hs @ [Ask_vast, Say ''vast: stopped''] \<and> wo_show w hs = Inr Stopped))"
  proof (cases v)
    case (Inl e)
    with assms v h1 asking_more [of w loads 0 "[]" h1 2] show ?thesis by (auto simp: owner_sleep_def)
  next
    case (Inr b)
    obtain c h2 where c: "with_control w su (said_sleep w loads) h1 = (c, h2)" by fastforce
    have h2: "asking w loads 2 h1 h2 \<and> open_tunnels h2 = open_tunnels h1"
      by (rule with_control_does [OF c]) (rule said_sleep_does)
    define m where "m = (if among b [Going_down, Stopped] then (Inr (), h1)
      else and_then (with_control w su (said_sleep w loads) h1) (\<lambda>r h2.
        case r of
          Inr _ \<Rightarrow> (Inr (), h2)
        | Inl e \<Rightarrow> (Inl (Refusal (''the gateway did not take the sleep ('' @ describe_control e @
            ''), and this command never stops the card itself'')), h2)))"
    obtain x h3 where x: "m = (x, h3)" by (cases m)
    have "h3 = (if among b [Going_down, Stopped] then h1 else h2)"
      using x c unfolding m_def by (auto simp: and_then_def split: if_splits sum.splits)
    then have h3: "asking w loads 2 [] h3" "open_tunnels h3 = 0"
      using h1 h2 asking_trans [OF h1(1), of 2 h2] asking_more [OF h1(1), of 2] by (auto simp: numeral_2_eq_2)
    show ?thesis
    proof (cases x)
      case (Inl e)
      with assms v Inr x h3 show ?thesis unfolding owner_sleep_def m_def by auto
    next
      case x': (Inr u)
      obtain a h4 where a: "await_state w [Stopped] (wo_now w h3 + VAST_WAIT_S) ''the instance to stop'' None h3 = (a, h4)"
        by fastforce
      have h4: "asking w loads 2 [] h4" "open_tunnels h4 = 0"
        using asking_trans [OF h3(1) reads_asking [OF await_state_adds [OF a]]] reads_open [OF await_state_adds [OF a]] h3(2) by simp_all
      have e: "(r, h) = and_then (a, h4) (\<lambda>_ h4. (Inr (), say ''vast: stopped'' h4))"
        using assms v Inr x x' a unfolding owner_sleep_def m_def by simp
      show ?thesis
      proof (cases a)
        case (Inl f)
        with e h4 show ?thesis by simp
      next
        case (Inr st)
        from await_state_last [OF a [unfolded Inr]] e Inr h4 show ?thesis
          by (auto simp: say_def intro: asking_snoc [of w loads 2 "[]" _ "Say t" for t])
      qed
    qed
  qed
  then show ?thesis by (auto simp: asking_def asks_ok_def)
qed

text \<open>The gateway is not reached, which \<^verbatim>\<open>sleep\<close> does not mend; the instance stops by itself.\<close>

lemma sample_sleep: "\<exists>h. owner_sleep (sample_world\<lparr>wo_show := \<lambda>_. Inr Stopped\<rparr>) loads sample_owner [] = (Inr (), h)"
  by (simp add: owner_sleep_def vast_state_def perform_def among_def await_state_found sample_world_def)

theorem sleep_confirmed_witness:
  "\<exists>h hs. owner_sleep (sample_world\<lparr>wo_show := \<lambda>_. Inr Stopped\<rparr>) (\<lambda>_. None) sample_owner [] = (Inr (), h) \<and>
     h = hs @ [Ask_vast, Say ''vast: stopped''] \<and> Resume \<notin> set h"
proof -
  obtain h where h: "owner_sleep (sample_world\<lparr>wo_show := \<lambda>_. Inr Stopped\<rparr>) (\<lambda>_. None) sample_owner [] = (Inr (), h)"
    using sample_sleep by blast
  from sleep_confirmed [OF this] h show ?thesis by blast
qed

subsection \<open>The waits end\<close>

text \<open>The clock never goes back, and a pause takes its time.\<close>

definition ticks :: "owner_world \<Rightarrow> bool" where
  "ticks w \<longleftrightarrow> (\<forall>h a. wo_now w h \<le> wo_now w (h @ [a])) \<and> (\<forall>h t. wo_now w h + t \<le> wo_now w (h @ [Pause t]))"

lemma ticks_adds: "ticks w \<Longrightarrow> adds P h h1 \<Longrightarrow> wo_now w h \<le> wo_now w h1"
proof -
  assume t: "ticks w"
  have "wo_now w h \<le> wo_now w (h @ ts)" for ts
  proof (induction ts rule: rev_induct)
    case (snoc a ts)
    moreover have "wo_now w (h @ ts) \<le> wo_now w ((h @ ts) @ [a])" using t unfolding ticks_def by blast
    ultimately show ?case by simp
  qed simp
  then show "adds P h h1 \<Longrightarrow> wo_now w h \<le> wo_now w h1" by (auto simp: adds_def)
qed

text \<open>A wait reads Vast once in ten seconds, so up to its deadline it takes at most so many rounds of three actions.\<close>

lemma await_state_ends:
  "ticks w \<Longrightarrow> deadline \<le> wo_now w h + VAST_POLL_S * of_nat n \<Longrightarrow>
    length (snd (await_state w wanted deadline what told h)) \<le> length h + 3 * n + 3"
proof (induction n arbitrary: told h)
  case n: (0 told h)
  obtain v h1 where v: "vast_state w h = (v, h1)" by fastforce
  have h1: "h1 = h @ [Ask_vast]" using vast_state_history [OF v] .
  have "deadline \<le> wo_now w h1" using n ticks_adds [OF n(1) vast_state_adds [OF v]] by simp
  with v h1 show ?case by (auto simp: await_state.simps [of w wanted deadline what told h] split: sum.splits option.splits)
next
  case (Suc n told h)
  obtain v h1 where v: "vast_state w h = (v, h1)" by fastforce
  have h1: "h1 = h @ [Ask_vast]" using vast_state_history [OF v] .
  have p: "length (snd (await_state w wanted deadline what t (tell_state told st what h1 @ [Pause VAST_POLL_S]))) \<le> length h + 3 * Suc n + 3"
    for st t
  proof -
    let ?g = "tell_state told st what h1"
    have g: "adds reads h ?g" using vast_state_adds [OF v] by (simp add: tell_state_def adds_say)
    have "wo_now w ?g + VAST_POLL_S \<le> wo_now w (?g @ [Pause VAST_POLL_S])" using Suc.prems(1) unfolding ticks_def by blast
    then have "deadline \<le> wo_now w (?g @ [Pause VAST_POLL_S]) + VAST_POLL_S * of_nat n"
      using Suc.prems(2) ticks_adds [OF Suc.prems(1) g] by (simp add: distrib_left VAST_POLL_S_def)
    from Suc.IH [OF Suc.prems(1) this, of t] tell_state_grows [of h1 told st what] show ?thesis by (simp add: h1)
  qed
  have l: "length (tell_state told st what h1) \<le> length h + 2" for st
    using tell_state_grows [of h1 told st what] by (simp add: h1)
  show ?case
  proof (cases v)
    case (Inl e)
    with v h1 show ?thesis by (simp add: await_state.simps [of w wanted deadline what told h])
  next
    case (Inr b)
    obtain q h3 where q: "perform w (Pause VAST_POLL_S) (tell_state told (state_text b) what h1) = (q, h3)" by fastforce
    then have "h3 = tell_state told (state_text b) what h1 @ [Pause VAST_POLL_S]" by (simp add: perform_def)
    with v h1 Inr q p [of _ "state_text b"] l [of "state_text b"] show ?thesis
      by (auto simp: await_state.simps [of w wanted deadline what told h] split: sum.splits option.splits)
  qed
qed

lemma vast_state_interrupted: "vast_state w h = (Inl Interrupted, h1) \<Longrightarrow> wo_patience w < length h1"
  by (auto simp: vast_state_def perform_def split: if_splits sum.splits attempt_error.splits)

lemma await_state_interrupted: "await_state w wanted deadline what told h = (Inl Interrupted, h') \<Longrightarrow> wo_patience w < length h'"
proof (induction h arbitrary: told rule: history_induct [of "wo_patience w"])
  case (longer h)
  obtain v h1 where v: "vast_state w h = (v, h1)" by fastforce
  show ?case
  proof (cases v)
    case (Inl e)
    with longer(2) v vast_state_interrupted show ?thesis by (auto simp: await_state.simps [of w wanted deadline what told h])
  next
    case (Inr b)
    note b = vast_state_Inr [OF v [unfolded Inr]]
    obtain q h2 where q: "perform w (Pause VAST_POLL_S) (tell_state told (state_text b) what h1) = (q, h2)" by fastforce
    have l: "length h < length h2"
      using q tell_state_grows [of h1 told "state_text b" what] by (auto simp: perform_def b(2))
    from longer(1) [OF b(1) l] longer(2) v Inr q show ?thesis
      by (auto simp: await_state.simps [of w wanted deadline what told h] perform_def split: if_splits sum.splits option.splits)
  qed
qed

text \<open>
  C38: Up does not wait for ever for Vast. While the clock goes on, the start of the instance takes at most 368 actions,
  reads of Vast ten seconds apart in two waits of ten minutes; unless Ctrl+C comes before, it ends with the instance
  running or with a refusal that says why not.
\<close>

theorem start_in_time:
  assumes "ticks w"
  shows "length (snd (start_instance w h)) \<le> length h + 368 \<and>
    (length h + 368 \<le> wo_patience w \<longrightarrow> fst (start_instance w h) \<noteq> Inl Interrupted)"
proof -
  have n: "d + VAST_WAIT_S \<le> d + VAST_POLL_S * of_nat 60" for d by (simp add: VAST_WAIT_S_def VAST_POLL_S_def)
  obtain a h1 where a: "await_state w [Stopped, Coming_up, Running] (wo_now w h + VAST_WAIT_S) ''the stop in flight to end'' None h = (a, h1)"
    by fastforce
  have h1: "length h1 \<le> length h + 183"
    using await_state_ends [OF assms n, where h = h and wanted = "[Stopped, Coming_up, Running]" and told = None
        and what = "''the stop in flight to end''"] by (simp add: a)
  have i1: "a = Inl Interrupted \<Longrightarrow> wo_patience w < length h1" using a await_state_interrupted by blast
  show ?thesis
  proof (cases a)
    case (Inl e)
    with a h1 i1 show ?thesis by (auto simp: start_instance_def)
  next
    case (Inr st)
    obtain u h2 where u: "(if st = Stopped then resume_instance w h1 else (Inr (), h1)) = (u, h2)" by fastforce
    have h2: "length h2 \<le> length h1 + 2" "u = Inl Interrupted \<Longrightarrow> wo_patience w < length h2"
      using u by (auto simp: resume_instance_def Let_def say_def perform_def split: if_splits sum.splits attempt_error.splits)
    show ?thesis
    proof (cases u)
      case (Inl e)
      with a h1 h2 Inr u show ?thesis by (auto simp: start_instance_def)
    next
      case u': (Inr x)
      obtain b h3 where b: "await_state w [Running, Going_down] (wo_now w h2 + VAST_WAIT_S) ''the instance to run'' None h2 = (b, h3)"
        by fastforce
      have h3: "length h3 \<le> length h2 + 183"
        using await_state_ends [OF assms n, where h = h2 and wanted = "[Running, Going_down]" and told = None
        and what = "''the instance to run''"] by (simp add: b)
      have i3: "b = Inl Interrupted \<Longrightarrow> wo_patience w < length h3" using b await_state_interrupted by blast
      have "start_instance w h = and_then (b, h3)
          (\<lambda>st h3. (if st = Running then Inr () else Inl (Refusal ''the instance is being stopped''), h3))"
        using a Inr u u' b by (simp add: start_instance_def)
      with h1 h2(1) h3 i3 show ?thesis by (cases b) auto
    qed
  qed
qed

definition paused :: "act list \<Rightarrow> rat" where
  "paused h = sum_list (map (\<lambda>a. case a of Pause t \<Rightarrow> max t 0 | _ \<Rightarrow> 0) h)"

lemma sample_ticks: "ticks (sample_world\<lparr>wo_now := paused, wo_patience := 368\<rparr>)"
  by (auto simp: ticks_def paused_def split: act.split)

theorem start_in_time_witness:
  "fst (start_instance (sample_world\<lparr>wo_now := paused, wo_patience := 368\<rparr>) []) \<noteq> Inl Interrupted"
  using start_in_time [OF sample_ticks, of "[]"] by simp

subsection \<open>What is written into the configuration\<close>

lemma map_of_create_keys:
  "map_of (create_keys config new_keys) m =
    (if m \<in> set KEYS \<and> map_of config m = None then Some (JStr (new_keys m)) else map_of config m)"
  by (auto simp: create_keys_def KEYS_def map_of_jput jhas_def)

lemma create_keys_same: "filter (\<lambda>n. \<not> jhas n config) KEYS = [] \<Longrightarrow> create_keys config new_keys = config"
  by (auto simp: create_keys_def KEYS_def split: if_splits)

text \<open>
  Keys are never replaced. The command that creates the keys writes into the configuration exactly the keys that it
  lacks, and keeps every value that it holds; it writes nothing when none is missing; what it prints and what it writes
  for the metrics are the keys of that configuration, none of them empty; and the file for the metrics is never the
  configuration or its temporary file.
\<close>

theorem keys_kept:
  assumes "owner_keys path real_path metrics_file f new_keys = Inr (written, secret, shown)"
  shows "\<exists>config kept. read_config path f = Inr config \<and> written = (if set KEYS \<subseteq> dom (map_of config) then None else Some kept) \<and>
    (set KEYS \<subseteq> dom (map_of config) \<longrightarrow> kept = config) \<and>
    map_of kept = (\<lambda>n. if n \<in> set KEYS \<and> map_of config n = None then Some (JStr (new_keys n)) else map_of config n) \<and>
    list_all (\<lambda>n. filled n kept) KEYS \<and> shown = map (\<lambda>n. text_of n kept) KEYS \<and>
    secret = map_option (\<lambda>_. text_of ''metrics_key'' kept) metrics_file \<and>
    (\<forall>mf. metrics_file = Some mf \<longrightarrow> {real_path path, real_path (path @ ''.new'')} \<inter> {real_path mf, real_path (mf @ ''.new'')} = {})"
proof -
  from assms obtain config where config: "read_config path f = Inr config"
    and k: "list_all (\<lambda>n. filled n (create_keys config new_keys)) KEYS"
    and r: "written = (if filter (\<lambda>n. \<not> jhas n config) KEYS = [] then None else Some (create_keys config new_keys))"
      "secret = map_option (\<lambda>_. text_of ''metrics_key'' (create_keys config new_keys)) metrics_file"
      "shown = map (\<lambda>n. text_of n (create_keys config new_keys)) KEYS"
    and p: "\<forall>mf. metrics_file = Some mf \<longrightarrow> {real_path path, real_path (path @ ''.new'')} \<inter> {real_path mf, real_path (mf @ ''.new'')} = {}"
    unfolding owner_keys_def Let_def by (auto simp: andthen_Inr_iff require_Inr_iff split: option.splits)
  have "filter (\<lambda>n. \<not> jhas n config) KEYS = [] \<longleftrightarrow> set KEYS \<subseteq> dom (map_of config)"
    by (auto simp: filter_empty_conv jhas_def dom_def)
  then show ?thesis
    using config k r p create_keys_same [of config new_keys]
    by (intro exI [of _ config] exI [of _ "create_keys config new_keys"]) (simp add: fun_eq_iff map_of_create_keys)
qed

theorem keys_kept_witness:
  "\<exists>kept. owner_keys ''c'' id (Some ''m'') (A_config 384 (Some (JObj [(''control_key'', JStr ''old'')]))) (\<lambda>n. ''new'' @ n) =
      Inr (Some kept, Some ''newmetrics_key'', [''newclient_key'', ''old'', ''newmetrics_key'']) \<and>
    map_of kept ''control_key'' = Some (JStr ''old'')"
proof -
  let ?kept = "[(''control_key'', JStr ''old''), (''client_key'', JStr ''newclient_key''), (''metrics_key'', JStr ''newmetrics_key'')]"
  have "owner_keys ''c'' id (Some ''m'') (A_config 384 (Some (JObj [(''control_key'', JStr ''old'')]))) (\<lambda>n. ''new'' @ n) =
      Inr (Some ?kept, Some ''newmetrics_key'', [''newclient_key'', ''old'', ''newmetrics_key''])"
    by code_simp
  from keys_kept [OF this] this show ?thesis by (auto simp: read_config_def)
qed

text \<open>The trial writes the id that ssh read, on one line and of the form of an id, and the host; all else stays.\<close>

lemma trial_writes:
  assumes "owner_trial w decode path la f host [] = (Inr config', h)"
  shows "\<exists>config block inst. read_config path f = Inr config \<and> lane_block path la config = Inr block \<and> is_count inst \<and>
    config' = trial_config la config block inst host \<and> SSH_HOST host \<and>
    (\<exists>us chunks. wo_trial w us = Trial chunks 0 \<and> length (gather [] chunks) \<le> TRIAL_BYTES \<and>
      map_option (split_on newline) (decode (gather [] chunks)) = Some [inst, []])"
proof -
  from assms obtain config block where c: "read_config path f = Inr config" "lane_block path la config = Inr block" "SSH_HOST host"
    by (auto simp: owner_trial_def split: if_splits sum.splits elim!: andthenE)
  have rt: "\<exists>us chunks. wo_trial w us = Trial chunks code \<and> gather [] chunks = answer \<and> length answer \<le> TRIAL_BYTES"
    if "read_trial w host g = (Inr (answer, Some code), g1)" for g answer code g1
    using that by (auto simp: read_trial_def perform_def Let_def split: if_splits trial_answer.splits)
  have ti: "code = Some 0 \<and> is_count inst \<and> map_option (split_on newline) (decode answer) = Some [inst, []]"
    if "trial_id decode answer code = Inr inst" for answer code inst
    using that by (auto simp: trial_id_def split: option.splits list.splits if_splits)
  define last_step where "last_step = (\<lambda>r :: string \<times> int option. \<lambda>h3.
      case trial_id decode (fst r) (snd r) of
        Inl t \<Rightarrow> (Inl (Refusal t), h3)
      | Inr inst \<Rightarrow>
          (Inr (trial_config la config block inst host),
           say (''trial: the instance'' @ [CHR 0x27] @ ''s id and the SSH host are in '' @ path) h3))"
  have e: "and_then (read_trial w host []) (\<lambda>first h1.
         and_then (if first = ([], Some SSH_FAILED)
             then and_then (perform w (Pause SSH_RETRY_S) h1) (\<lambda>_ h2. read_trial w host h2) else (Inr first, h1)) last_step) = (Inr config', h)"
    using assms c by (simp add: owner_trial_def last_step_def)
  have "\<exists>r g g1. read_trial w host g = (Inr r, g1) \<and> last_step r g1 = (Inr config', h)"
  proof -
    obtain v h1 where v: "read_trial w host [] = (v, h1)" by fastforce
    obtain q h2 where q: "perform w (Pause SSH_RETRY_S) h1 = (q, h2)" by fastforce
    obtain v2 h3 where v2: "read_trial w host h2 = (v2, h3)" by fastforce
    from e v q v2 show ?thesis by (cases v; cases q; cases v2) (auto split: if_splits)
  qed
  then obtain r g g1 where g: "read_trial w host g = (Inr r, g1)" and l: "last_step r g1 = (Inr config', h)" by blast
  obtain answer code where r: "r = (answer, code)" by (cases r)
  with l obtain inst where "trial_id decode answer code = Inr inst" "config' = trial_config la config block inst host"
    by (auto simp: last_step_def split: sum.splits)
  moreover from g r have "read_trial w host g = (Inr (answer, code), g1)" by simp
  ultimately
  show ?thesis using ti [of answer code inst] rt [of g answer 0 g1] c by fastforce
qed

lemma trial_keeps:
  "map_of (trial_config la config block inst host) n =
    (case ln_name la of
       None \<Rightarrow> if n = ''ssh_host'' then Some (JStr host) else if n = ''instance_id'' then Some (JStr inst) else map_of block n
     | Some l \<Rightarrow> if n = l then Some (JObj (jput ''ssh_host'' (JStr host) (jput ''instance_id'' (JStr inst) block))) else map_of config n)"
  by (simp add: trial_config_def Let_def map_of_jput split: option.split)

end
