(* ===== verification/Level_Sweep.thy ===== *)
theory Level_Sweep
  imports Image_Sweeper Card_Manifest "HOL-Library.AList" "HOL-Library.Sublist"
begin

text \<open>
  The concurrency sweep, \<^verbatim>\<open>simple_serving/sweep.py\<close>: the levels with their estimates, the engine's metrics and their
  changes, the run of one level and the loop over the plan. What \<^verbatim>\<open>/metrics\<close> answers, the process of the benchmark, its
  result file and the clock are arguments; texts are ASCII.
\<close>

subsection \<open>Levels\<close>

definition FILL_PERCENT :: int where "FILL_PERCENT = round_half_even (float_near (float_near (95 / 100) * 100))"
definition NEW :: int where "NEW = 256"
definition OUT :: int where "OUT = 512"
definition SWEEP_ORDER :: "int list" where "SWEEP_ORDER = [2, 4, 3, 6, 8, 1]"

definition SETS :: "(string \<times> int) list" where
  "SETS = [(''shared'', 16000), (''shared'', 4000), (''shared'', 40000), (''none'', 16000)]"

definition START_S :: rat where "START_S = 15"
definition READ_TOK_S :: rat where "READ_TOK_S = 2500"
definition DECODE_TOK_S :: rat where "DECODE_TOK_S = 170"
definition BATCH_COST :: rat where "BATCH_COST = float_near (12 / 100)"
definition CONTEXT_COST :: rat where "CONTEXT_COST = float_near (1 / 150000)"

record level =
  lv_index :: nat
  lv_share :: string
  lv_context :: int
  lv_requests :: int

definition prompts :: "level \<Rightarrow> int" where
  "prompts l = max 4 (2 * lv_requests l)"

definition prefix_tokens :: "level \<Rightarrow> int" where
  "prefix_tokens l = (if lv_share l = ''shared'' then lv_context l - NEW else 0)"

definition level_name :: "level \<Rightarrow> string" where
  "level_name l =
    (let i = digits_of (lv_index l)
     in ''L'' @ replicate (2 - length i) (CHR ''0'') @ i @ ''-'' @ lv_share l @ ''-'' @ int_text (lv_context l) @ ''-c'' @
        int_text (lv_requests l))"

definition fits_cache :: "int \<Rightarrow> level \<Rightarrow> bool" where
  "fits_cache cache l \<longleftrightarrow> (lv_context l + OUT) * lv_requests l * 100 \<le> FILL_PERCENT * cache"

text \<open>Seconds, with a rounding after each operation, as the floats of Python have it.\<close>

definition estimate :: "level \<Rightarrow> rat" where
  "estimate l =
    (let slowed = float_near (1 - float_near (of_int (lv_context l) * CONTEXT_COST));
         speed = float_near (float_near (DECODE_TOK_S / float_near (1 + float_near (BATCH_COST * of_int (lv_requests l - 1)))) * slowed);
         waves = \<lceil>(of_int (prompts l) :: rat) / of_int (lv_requests l)\<rceil>;
         last_part = float_near (of_int (waves * OUT) / speed)
     in if lv_share l = ''shared''
        then float_near (float_near (float_near (START_S +
               float_near (of_int (2 * lv_context l + prompts l * NEW) / READ_TOK_S)) +
               float_near (of_int OUT / float_near (DECODE_TOK_S * slowed))) + last_part)
        else float_near (float_near (START_S + float_near (of_int (prompts l * lv_context l) / READ_TOK_S)) + last_part))"

definition head_of :: "level \<Rightarrow> obj" where
  "head_of l = [(''level'', JInt (int (lv_index l))), (''set'', JStr (lv_share l)), (''context'', JInt (lv_context l)),
     (''requests'', JInt (lv_requests l)), (''prompts'', JInt (prompts l))]"

definition levels :: "level list" where
  "levels =
    map (\<lambda>(i, (share, context_tokens), n). \<lparr>lv_index = i, lv_share = share, lv_context = context_tokens, lv_requests = n\<rparr>)
      (zip [1..<25] (List.product SETS SWEEP_ORDER))"

definition bench_args :: "string \<Rightarrow> string \<Rightarrow> string \<Rightarrow> string \<Rightarrow> level \<Rightarrow> string list" where
  "bench_args port al tokenizer result_dir l =
    (let shared = (lv_share l = ''shared'')
     in [''--backend'', ''openai'', ''--host'', ''127.0.0.1'', ''--port'', port, ''--model'', al,
         ''--tokenizer'', tokenizer, ''--dataset-name'', ''random'', ''--random-prefix-len'', int_text (prefix_tokens l),
         ''--random-input-len'', int_text (if shared then NEW else lv_context l), ''--random-output-len'', int_text OUT,
         ''--num-prompts'', int_text (prompts l), ''--max-concurrency'', int_text (lv_requests l),
         ''--seed'', digits_of (lv_index l),
         ''--num-warmups'', (if shared then ''1'' else ''0''), ''--ignore-eos'', ''--temperature'', ''0'',
         ''--percentile-metrics'', ''ttft,tpot'', ''--metric-percentiles'', ''50,90'', ''--disable-tqdm'',
         ''--save-result'', ''--result-dir'', result_dir, ''--result-filename'', level_name l @ ''.json''])"

definition DROPPED :: "string list" where
  "DROPPED = [''OPENAI_API_KEY'', ''CONTAINER_API_KEY'', ''SAVE_TO_PYTORCH_BENCHMARK_FORMAT'']"

definition BENCH_ENV :: "(string \<times> string) list" where
  "BENCH_ENV = [(''HF_HUB_OFFLINE'', ''1''), (''TRANSFORMERS_OFFLINE'', ''1''), (''VLLM_NO_USAGE_STATS'', ''1''),
     (''DO_NOT_TRACK'', ''1''), (''VLLM_USE_RUST_BENCH'', ''0''), (''NO_PROXY'', ''127.0.0.1,localhost,::1''),
     (''no_proxy'', ''127.0.0.1,localhost,::1'')]"

definition bench_env :: "(string \<rightharpoonup> string) \<Rightarrow> string \<rightharpoonup> string" where
  "bench_env environ = (\<lambda>n. if n \<in> set DROPPED then None else environ n) ++ map_of BENCH_ENV"

subsection \<open>Numbers\<close>

text \<open>\<^verbatim>\<open>float\<close> of a text: spaces around, a sign, \<^verbatim>\<open>inf\<close> or \<^verbatim>\<open>nan\<close>, or digits with a point and an exponent.\<close>

definition digit_run :: "string \<Rightarrow> string option" where
  "digit_run s =
    (if s = [] then Some []
     else let ps = split_on (CHR ''_'') s in if list_all (\<lambda>p. p \<noteq> [] \<and> list_all is_digit p) ps then Some (concat ps) else None)"

definition mantissa :: "string \<Rightarrow> rat option" where
  "mantissa s =
    (case split_on (CHR ''.'') s of
       [a] \<Rightarrow> Option.bind (digit_run a) (\<lambda>x. if x = [] then None else Some (of_nat (of_digits 10 x)))
     | [a, b] \<Rightarrow>
         Option.bind (digit_run a) (\<lambda>x. Option.bind (digit_run b) (\<lambda>y.
         if x = [] \<and> y = [] then None else Some (of_nat (of_digits 10 (x @ y)) / 10 ^ length y)))
     | _ \<Rightarrow> None)"

definition exponent :: "string \<Rightarrow> int option" where
  "exponent s =
    (case s of [] \<Rightarrow> None
     | c # r \<Rightarrow>
         if c = CHR ''-'' then map_option uminus (digits_int r) else if c = CHR ''+'' then digits_int r else digits_int (c # r))"

definition ten_to :: "int \<Rightarrow> rat" where
  "ten_to e = (if 0 \<le> e then 10 ^ nat e else 1 / 10 ^ nat (- e))"

definition unsigned_float :: "string \<Rightarrow> rat option" where
  "unsigned_float s =
    (case split_on (CHR ''e'') s of
       [m] \<Rightarrow> mantissa m
     | [m, e] \<Rightarrow> Option.bind (mantissa m) (\<lambda>x. map_option (\<lambda>k. x * ten_to k) (exponent e))
     | _ \<Rightarrow> None)"

definition signed_stamp :: "bool \<Rightarrow> rat \<Rightarrow> stamp" where
  "signed_stamp negative q =
    (let f = float_near q in if 2 ^ 1024 \<le> f then Infinite (\<not> negative) else Finite (if negative then - f else f))"

definition py_float :: "string \<Rightarrow> stamp option" where
  "py_float text_read =
    (let s = lower (strip text_read);
         negative = starts ''-'' s;
         body = (if negative \<or> starts ''+'' s then tl s else s)
     in if body = ''inf'' \<or> body = ''infinity'' then Some (Infinite (\<not> negative))
        else if body = ''nan'' then Some Not_a_number
        else map_option (signed_stamp negative) (unsigned_float body))"

text \<open>\<^verbatim>\<open>round(value, digits)\<close> of a float: the nearest decimal, half to even, and the float of it.\<close>

definition round_digits :: "nat \<Rightarrow> rat \<Rightarrow> rat" where
  "round_digits n q = float_near (of_int (round_half_even (q * 10 ^ n)) / 10 ^ n)"

definition is_float :: "rat \<Rightarrow> bool" where
  "is_float q \<longleftrightarrow> \<bar>q\<bar> < 2 ^ 1024"

subsection \<open>The engine's metrics\<close>

definition COUNTERS :: "(string \<times> string) list" where
  "COUNTERS =
    [(''vllm:prompt_tokens_total'', ''prompt_tokens''), (''vllm:generation_tokens_total'', ''generation_tokens''),
     (''vllm:prefix_cache_queries_total'', ''prefix_cache_queries''), (''vllm:prefix_cache_hits_total'', ''prefix_cache_hits''),
     (''vllm:num_preemptions_total'', ''preemptions''), (''vllm:spec_decode_num_drafts_total'', ''drafts''),
     (''vllm:spec_decode_num_draft_tokens_total'', ''draft_tokens''),
     (''vllm:spec_decode_num_accepted_tokens_total'', ''accepted'')]"

definition PER_POSITION :: string where
  "PER_POSITION = ''vllm:spec_decode_num_accepted_tokens_per_pos_total''"

definition GAUGES :: "(string \<times> string) list" where
  "GAUGES = [(''vllm:num_requests_running'', ''running''), (''vllm:num_requests_waiting'', ''waiting''),
     (''vllm:kv_cache_usage_perc'', ''kv_usage'')]"

text \<open>\<^verbatim>\<open>str.splitlines\<close> of ASCII.\<close>

definition is_break :: "char \<Rightarrow> bool" where
  "is_break c \<longleftrightarrow> of_char c \<in> {10, 11, 12, 13, 28, 29, 30 :: nat}"

fun split_lines :: "string \<Rightarrow> string list" where
  "split_lines [] = []"
| "split_lines (c # s) =
    (if is_break c
     then [] # split_lines (if c = CHR 0x0D \<and> starts [CHR 0x0A] s then tl s else s)
     else case split_lines s of
            [] \<Rightarrow> [[c]]
          | l # ls \<Rightarrow> (c # l) # ls)"

definition name_char :: "char \<Rightarrow> bool" where
  "name_char c \<longleftrightarrow> is_letter c \<or> c = CHR ''_'' \<or> c = CHR '':''"

definition metric_name :: "string \<Rightarrow> string" where
  "metric_name line = takeWhile (\<lambda>c. c \<noteq> CHR ''{'' \<and> \<not> is_space c) line"

text \<open>A sample's labels, without their braces, and its value: the expression \<^verbatim>\<open>SAMPLE\<close> on a whole line.\<close>

definition sample_value :: "string \<Rightarrow> string option" where
  "sample_value rest =
    (let v = dropWhile is_space rest
     in if takeWhile is_space rest \<noteq> [] \<and> v \<noteq> [] \<and> list_all (\<lambda>c. \<not> is_space c) v then Some v else None)"

definition sample_of :: "string \<Rightarrow> (string option \<times> string) option" where
  "sample_of line =
    (case span (\<lambda>c. name_char c \<or> is_digit c) line of (name, rest) \<Rightarrow>
       if name = [] \<or> \<not> name_char (hd name) then None
       else (case after ''{'' rest of
           None \<Rightarrow> map_option (Pair None) (sample_value rest)
         | Some r \<Rightarrow>
             (case dropWhile (\<lambda>c. c \<noteq> CHR ''}'') r of
                [] \<Rightarrow> None
              | _ # q \<Rightarrow> map_option (Pair (Some (takeWhile (\<lambda>c. c \<noteq> CHR ''}'') r))) (sample_value q))))"

text \<open>The digits of the first \<^verbatim>\<open>position="..."\<close> among the labels.\<close>

fun position_of :: "string \<Rightarrow> string option" where
  "position_of [] = None"
| "position_of (c # s) =
    (case after (''position='' @ [CHR 0x22]) (c # s) of
       Some r \<Rightarrow>
         if takeWhile is_digit r \<noteq> [] \<and> starts [CHR 0x22] (dropWhile is_digit r) then Some (takeWhile is_digit r)
         else position_of s
     | None \<Rightarrow> position_of s)"

text \<open>What the lines have summed up to, in the order of their first samples; \<open>None\<close> is a \<^verbatim>\<open>ValueError\<close>.\<close>

type_synonym totals = "(string \<times> rat) list"

definition metric_key :: "string \<Rightarrow> string option \<Rightarrow> string option" where
  "metric_key name labels =
    (case map_of COUNTERS name of
       Some k \<Rightarrow> Some k
     | None \<Rightarrow>
         (case map_of GAUGES name of
            Some k \<Rightarrow> Some k
          | None \<Rightarrow> map_option (\<lambda>p. ''accepted_pos'' @ p) (position_of (case labels of None \<Rightarrow> [] | Some l \<Rightarrow> l))))"

definition known_metric :: "string \<Rightarrow> bool" where
  "known_metric name \<longleftrightarrow> name \<in> fst ` set COUNTERS \<or> name \<in> fst ` set GAUGES \<or> name = PER_POSITION"

definition is_whole :: "rat \<Rightarrow> bool" where
  "is_whole q \<longleftrightarrow> q = of_int \<lfloor>q\<rfloor>"

definition metric_line :: "string \<Rightarrow> totals \<Rightarrow> totals option" where
  "metric_line line found =
    (if \<not> known_metric (metric_name line) then Some found
     else Option.bind (sample_of line) (\<lambda>(labels, value_text).
       Option.bind (metric_key (metric_name line) labels) (\<lambda>key_name.
       case py_float value_text of
         Some (Finite q) \<Rightarrow>
           let total = float_near ((case map_of found key_name of None \<Rightarrow> 0 | Some t \<Rightarrow> t) + q)
           in if q < 0 \<or> (key_name \<in> {''running'', ''waiting''} \<and> \<not> is_whole q) \<or> \<not> is_float total then None
              else Some (AList.update key_name total found)
       | _ \<Rightarrow> None)))"

fun metric_lines :: "string list \<Rightarrow> totals \<Rightarrow> totals option" where
  "metric_lines [] found = Some found"
| "metric_lines (l # ls) found = Option.bind (metric_line l found) (metric_lines ls)"

definition activity :: "totals \<Rightarrow> (int \<times> int) option" where
  "activity sample =
    (case (map_of sample ''running'', map_of sample ''waiting'') of
       (Some r, Some q) \<Rightarrow> if 0 \<le> r \<and> is_whole r \<and> 0 \<le> q \<and> is_whole q then Some (\<lfloor>r\<rfloor>, \<lfloor>q\<rfloor>) else None
     | _ \<Rightarrow> None)"

definition metrics_of :: "string \<Rightarrow> totals option" where
  "metrics_of text_read =
    Option.bind (metric_lines (split_lines text_read) []) (\<lambda>found. map_option (\<lambda>_. found) (activity found))"

text \<open>The changes of the counters, a missing one unknown; \<open>None\<close> is a \<^verbatim>\<open>ValueError\<close>, as for a reset.\<close>

definition change_of :: "totals \<Rightarrow> totals \<Rightarrow> string \<Rightarrow> json option" where
  "change_of earlier later k =
    (case (map_of earlier k, map_of later k) of
       (Some a, Some b) \<Rightarrow>
         (let d = float_near (b - a) in if 0 \<le> d \<and> is_float d then Some (JInt (round_half_even d)) else None)
     | _ \<Rightarrow> Some JNull)"

definition drafted_positions :: "totals \<Rightarrow> totals \<Rightarrow> nat list" where
  "drafted_positions earlier later =
    sort (map (of_digits 10) (List.map_filter (after ''accepted_pos'') (filter (\<lambda>k. map_of later k \<noteq> None) (map fst earlier))))"

definition deltas :: "totals \<Rightarrow> totals \<Rightarrow> obj option" where
  "deltas earlier later =
    Option.bind (those (map (\<lambda>k. map_option (Pair k) (change_of earlier later k))
        (filter (\<lambda>k. map_of earlier k \<noteq> None \<and> map_of later k \<noteq> None) (map snd COUNTERS)))) (\<lambda>gained.
    Option.bind (those (map (\<lambda>p. change_of earlier later (''accepted_pos'' @ digits_of p)) (drafted_positions earlier later)))
      (\<lambda>ps. Some (gained @ [(''accepted_by_pos'', JList ps)])))"

record peaks =
  pk_running :: int
  pk_waiting :: int
  pk_inflight :: int
  pk_kv :: "rat option"
  pk_failed :: bool

definition peaks_init :: peaks where
  "peaks_init = \<lparr>pk_running = 0, pk_waiting = 0, pk_inflight = 0, pk_kv = None, pk_failed = False\<rparr>"

text \<open>What \<^verbatim>\<open>note\<close> leaves, and whether it ends without a \<^verbatim>\<open>ValueError\<close>; the thread ends at the first sample that cannot
  be read or noted.\<close>

definition note_sample :: "totals \<Rightarrow> peaks \<Rightarrow> peaks \<times> bool" where
  "note_sample sample p =
    (case activity sample of
       None \<Rightarrow> (p, False)
     | Some (r, q) \<Rightarrow>
         let p1 = p\<lparr>pk_running := max (pk_running p) r, pk_waiting := max (pk_waiting p) q,
               pk_inflight := max (pk_inflight p) (r + q)\<rparr>
         in case map_of sample ''kv_usage'' of
              None \<Rightarrow> (p1, True)
            | Some v \<Rightarrow>
                if v < 0 \<or> \<not> is_float v then (p1, False)
                else (p1\<lparr>pk_kv := Some (max (case pk_kv p of None \<Rightarrow> 0 | Some k \<Rightarrow> k) v)\<rparr>, True))"

fun watch :: "totals option list \<Rightarrow> peaks \<Rightarrow> peaks" where
  "watch [] p = p"
| "watch (s # ss) p =
    (if pk_failed p then p
     else case (case s of None \<Rightarrow> (p, False) | Some sample \<Rightarrow> note_sample sample p) of
            (p1, noted) \<Rightarrow> if noted then watch ss p1 else p1\<lparr>pk_failed := True\<rparr>)"

definition peaks_row :: "peaks \<Rightarrow> obj" where
  "peaks_row p = [(''running_peak'', JInt (pk_running p)), (''waiting_peak'', JInt (pk_waiting p)),
     (''kv_usage_peak'', case pk_kv p of None \<Rightarrow> JNull | Some v \<Rightarrow> if 0 \<le> v then JFloat (round_digits 3 v) else JNull)]"

subsection \<open>A benchmark's result\<close>

text \<open>A number that is neither negative nor infinite, rounded; \<open>None\<close> is the \<^verbatim>\<open>OverflowError\<close> of an integer beyond the floats.\<close>

definition sweep_number :: "json \<Rightarrow> nat \<Rightarrow> json option" where
  "sweep_number v digits =
    (case v of
       JInt n \<Rightarrow> if \<bar>of_int n\<bar> < (2 :: rat) ^ 1024 then Some (if 0 \<le> n then JInt n else JNull) else None
     | JFloat q \<Rightarrow> Some (if 0 \<le> q then JFloat (round_digits digits q) else JNull)
     | _ \<Rightarrow> Some JNull)"

definition result_fields :: "string list" where
  "result_fields = [''duration'', ''output_throughput'', ''median_tpot_ms'', ''median_ttft_ms'', ''p90_ttft_ms'']"

definition positive :: "json \<Rightarrow> bool" where
  "positive v \<longleftrightarrow> number_in (\<lambda>q. 0 < q) v"

text \<open>\<open>None\<close> is any of the exceptions that make a level fail.\<close>

definition outcome_row :: "obj \<Rightarrow> int \<Rightarrow> obj option" where
  "outcome_row result expected =
    (if jget ''completed'' result \<noteq> JInt expected \<or> jget ''failed'' result \<noteq> JInt 0 then None
     else Option.bind (those (map (\<lambda>k. map_option (Pair k) (sweep_number (jget k result) 6)) result_fields)) (\<lambda>values.
       if list_ex (\<lambda>(_, v). v = JNull) values \<or> \<not> positive (jget ''duration'' values) \<or> \<not> positive (jget ''median_tpot_ms'' values)
       then None
       else
         Option.bind (sweep_number (jget ''duration'' values) 1) (\<lambda>duration.
         Option.bind (sweep_number (jget ''output_throughput'' values) 1) (\<lambda>speed.
         Option.bind (as_number (jget ''median_tpot_ms'' values)) (\<lambda>tpot.
         Option.bind (sweep_number (jget ''median_ttft_ms'' values) 1) (\<lambda>ttft.
         Option.bind (sweep_number (jget ''p90_ttft_ms'' values) 1) (\<lambda>ttft_p90.
         Some [(''completed'', JInt expected), (''failed_requests'', JInt 0), (''duration_s'', duration),
           (''out_tok_s'', speed), (''out_tok_s_per_request'', JFloat (round_digits 1 (float_near (1000 / tpot)))),
           (''ttft_ms_median'', ttft), (''ttft_ms_p90'', ttft_p90)])))))))"

subsection \<open>The run of one level\<close>

definition merged :: "obj \<Rightarrow> obj \<Rightarrow> obj" where
  "merged ob entries = foldl (\<lambda>ob (n, v). jput n v ob) ob entries"

text \<open>A look at the benchmark: what the sampler has read since the look before, whether the time is over, and what the wait
  of at most a second says, the exit code or that it still runs.\<close>

record bench_look =
  lk_samples :: "totals option list"
  lk_over :: bool
  lk_exit :: "int option"

fun bench_loop :: "int \<Rightarrow> bench_look list \<Rightarrow> peaks \<Rightarrow> (string \<times> int option \<times> peaks) option" where
  "bench_loop n [] p = None"
| "bench_loop n (l # ls) p =
    (let p1 = watch (lk_samples l) p
     in if pk_failed p1 then Some (''unreachable'', None, p1)
        else if n < pk_inflight p1 then Some (''overlap'', None, p1)
        else if lk_over l then Some (''cut'', None, p1)
        else case lk_exit l of Some code \<Rightarrow> Some (''done'', Some code, p1) | None \<Rightarrow> bench_loop n ls p1)"

text \<open>What a run meets: \<open>ru_prepared\<close> where the directory, the log and the process come about; the samples while the process
  ends; whether its end failed and whether the sampler still lives after; and the file of the result.\<close>

record run_input =
  ru_metrics :: "totals option"
  ru_late :: bool
  ru_prepared :: bool
  ru_looks :: "bench_look list"
  ru_last :: "totals option list"
  ru_end_failed :: bool
  ru_sampling :: bool
  ru_after :: "totals option"
  ru_result :: "json option"

text \<open>The status, the exit code and the peaks; \<open>None\<close> while the benchmark still runs.\<close>

definition bench :: "level \<Rightarrow> totals \<Rightarrow> run_input \<Rightarrow> (string \<times> int option \<times> peaks) option" where
  "bench l sample i =
    (if \<not> ru_prepared i then Some (''failed'', None, peaks_init)
     else case note_sample sample peaks_init of
       (p, noted) \<Rightarrow>
         if \<not> noted then Some (''failed'', None, p) else
         map_option (\<lambda>(st, code, p1).
           let p2 = watch (ru_last i) p1;
               st1 = (if ru_sampling i then ''unreachable'' else if ru_end_failed i then ''failed'' else st)
           in (if pk_failed p2 \<and> st1 = ''done'' then ''unreachable'' else st1, code, p2))
         (bench_loop (lv_requests l) (ru_looks i) p))"

text \<open>\<^verbatim>\<open>run_level\<close>, and whether it started the benchmark.\<close>

definition after_bench :: "level \<Rightarrow> run_input \<Rightarrow> totals \<Rightarrow> obj \<Rightarrow> int option \<Rightarrow> peaks \<Rightarrow> obj" where
  "after_bench l i sample line code p =
    (case Option.bind (ru_after i) (\<lambda>later.
         case note_sample later p of (p1, noted) \<Rightarrow> if noted then map_option (Pair p1) (deltas sample later) else None) of
       None \<Rightarrow> merged [(''status'', JStr ''unreachable'')] line
     | Some (p1, d) \<Rightarrow>
         (let line1 = merged line (merged d (peaks_row p1))
          in case (if code = Some 0 then ru_result i else None) of
               Some (JObj result) \<Rightarrow>
                 (case outcome_row result (prompts l) of
                    None \<Rightarrow> merged [(''status'', JStr ''failed''), (''exit_code'', JInt 0)] line1
                  | Some summary \<Rightarrow>
                      merged (merged [(''status'', JStr (if lv_requests l < pk_inflight p1 then ''overlap'' else ''done''))] summary) line1)
             | _ \<Rightarrow> merged [(''status'', JStr ''failed''), (''exit_code'', case code of None \<Rightarrow> JNull | Some n \<Rightarrow> JInt n)] line1))"

definition run_level :: "level \<Rightarrow> run_input \<Rightarrow> (obj \<times> bool) option" where
  "run_level l i =
    (case Option.bind (ru_metrics i) (\<lambda>sample. map_option (Pair sample) (activity sample)) of
       None \<Rightarrow> Some ([(''status'', JStr ''unreachable'')], False)
     | Some (sample, r, q) \<Rightarrow>
         (let line = [(''running_before'', JInt r), (''waiting_before'', JInt q)]
          in if r \<noteq> 0 \<or> q \<noteq> 0 then Some (merged [(''status'', JStr ''busy'')] line, False)
             else if ru_late i then Some (merged [(''status'', JStr ''cut'')] line, False)
             else map_option (\<lambda>(st, code, p).
               let line1 = merged line (peaks_row p)
               in (if st \<noteq> ''done'' then merged [(''status'', JStr st)] line1 else after_bench l i sample line1 code p, ru_prepared i))
             (bench l sample i)))"

subsection \<open>The sweep\<close>

definition ENDS :: "(string \<times> string) list" where
  "ENDS = [(''cut'', ''until''), (''failed'', ''failed''), (''busy'', ''busy''), (''overlap'', ''busy''),
     (''unreachable'', ''unreachable'')]"

definition EXIT :: "(string \<times> int) list" where
  "EXIT = [(''done'', 0), (''until'', 0), (''failed'', 1), (''busy'', 2), (''unreachable'', 2), (''cancelled'', 130)]"

text \<open>\<open>sp_clock\<close> counts the readings of the clock; \<open>sp_ran\<close> is \<^verbatim>\<open>ran\<close>, and \<open>sp_begun\<close> are the levels that were run, each with the
  time read before it and its estimate.\<close>

record sweep_state =
  sp_clock :: nat
  sp_ran :: int
  sp_spent :: rat
  sp_estimated :: rat
  sp_stretch :: rat
  sp_ended :: string
  sp_stopped :: bool
  sp_lines :: "obj list"
  sp_begun :: "(level \<times> rat \<times> rat) list"

definition put_line :: "obj \<Rightarrow> sweep_state \<Rightarrow> sweep_state" where
  "put_line line s = s\<lparr>sp_lines := sp_lines s @ [line]\<rparr>"

definition ran_level :: "level \<Rightarrow> rat \<Rightarrow> rat \<Rightarrow> rat \<Rightarrow> obj \<Rightarrow> sweep_state \<Rightarrow> sweep_state" where
  "ran_level l est begun finish result s =
    (let wall = float_near (finish - begun);
         s1 = put_line (merged (merged (head_of l) [(''est_s'', JFloat est), (''wall_s'', JFloat (round_digits 1 wall))]) result) s
     in case (case jget ''status'' result of JStr st \<Rightarrow> map_of ENDS st | _ \<Rightarrow> None) of
          Some e \<Rightarrow> s1\<lparr>sp_ended := e, sp_stopped := True\<rparr>
        | None \<Rightarrow>
            let spent = float_near (sp_spent s + wall); estimated = float_near (sp_estimated s + estimate l)
            in s1\<lparr>sp_ran := sp_ran s + 1, sp_spent := spent, sp_estimated := estimated,
                 sp_stretch := max 1 (float_near (spent / estimated))\<rparr>)"

definition sweep_level :: "int \<Rightarrow> rat \<Rightarrow> (nat \<Rightarrow> rat) \<Rightarrow> (level \<Rightarrow> obj) \<Rightarrow> sweep_state \<Rightarrow> level \<Rightarrow> sweep_state" where
  "sweep_level cache until clock run s l =
    (if sp_stopped s then s
     else if \<not> fits_cache cache l
     then put_line (merged (head_of l) [(''status'', JStr ''skipped''), (''reason'', JStr ''cache'')]) s
     else
       let est = round_digits 1 (float_near (estimate l * sp_stretch s)); k = sp_clock s
       in if until < float_near (clock k + est)
          then put_line (merged (head_of l) [(''status'', JStr ''skipped''), (''reason'', JStr ''until''), (''est_s'', JFloat est)])
            (s\<lparr>sp_clock := k + 1, sp_ended := ''until''\<rparr>)
          else ran_level l est (clock (k + 1)) (clock (k + 2)) (run l)
            (s\<lparr>sp_clock := k + 3, sp_begun := sp_begun s @ [(l, clock k, est)]\<rparr>))"

definition sweep_start :: sweep_state where
  "sweep_start = \<lparr>sp_clock = 1, sp_ran = 0, sp_spent = 0, sp_estimated = 0, sp_stretch = 1, sp_ended = ''done'',
     sp_stopped = False, sp_lines = [], sp_begun = []\<rparr>"

definition sweep_all :: "level list \<Rightarrow> int \<Rightarrow> rat \<Rightarrow> (nat \<Rightarrow> rat) \<Rightarrow> (level \<Rightarrow> obj) \<Rightarrow> sweep_state" where
  "sweep_all plan cache until clock run =
    (let s = foldl (sweep_level cache until clock run) sweep_start plan
     in put_line [(''end'', JStr (sp_ended s)), (''levels_run'', JInt (sp_ran s)),
          (''wall_s'', JFloat (round_digits 1 (float_near (clock (sp_clock s) - clock 0)))), (''cache_tokens'', JInt cache)] s)"

text \<open>\<^verbatim>\<open>limits\<close> raises a \<^verbatim>\<open>ValueError\<close>, here \<open>None\<close>, for a deadline or a capacity that is none.\<close>

definition limited_sweep :: "level list \<Rightarrow> int \<Rightarrow> stamp \<Rightarrow> (nat \<Rightarrow> rat) \<Rightarrow> (level \<Rightarrow> obj) \<Rightarrow> sweep_state option" where
  "limited_sweep plan cache until clock run =
    (case until of
       Finite u \<Rightarrow> if 0 < u \<and> 0 < cache then Some (sweep_all plan cache u clock run) else None
     | _ \<Rightarrow> None)"

subsection \<open>Lines and exit codes\<close>

definition LINE_WORDS :: "string list" where
  "LINE_WORDS = [''shared'', ''none'', ''planned'', ''done'', ''skipped'', ''cache'', ''until'', ''cut'', ''failed'', ''busy'',
     ''overlap'', ''unreachable'', ''cancelled'']"

definition LINE_KEYS :: "string list" where
  "LINE_KEYS = [''level'', ''set'', ''context'', ''requests'', ''prompts'', ''status'', ''reason'', ''est_s'', ''wall_s'',
     ''exit_code'', ''completed'', ''failed_requests'', ''duration_s'', ''out_tok_s'', ''out_tok_s_per_request'',
     ''ttft_ms_median'', ''ttft_ms_p90''] @ map snd COUNTERS @ [''accepted_by_pos'', ''running_before'',
     ''waiting_before'', ''running_peak'', ''waiting_peak'', ''kv_usage_peak'', ''end'', ''levels_run'', ''first6_s'', ''cache_tokens'']"

text \<open>A line passes, is refused with a \<^verbatim>\<open>ValueError\<close>, or has an integer beyond the floats (\<^verbatim>\<open>OverflowError\<close>).\<close>

datatype checked_line =
    Passes
  | Refused
  | Overflows

definition check_item :: "json \<Rightarrow> checked_line" where
  "check_item v =
    (case v of
       JStr t \<Rightarrow> if t \<in> set LINE_WORDS then Passes else Refused
     | JNull \<Rightarrow> Passes
     | JInt n \<Rightarrow> if \<bar>of_int n\<bar> < (2 :: rat) ^ 1024 then Passes else Overflows
     | JFloat q \<Rightarrow> if is_float q then Passes else Refused
     | _ \<Rightarrow> Refused)"

fun check_items :: "json list \<Rightarrow> checked_line" where
  "check_items [] = Passes"
| "check_items (v # vs) = (if check_item v = Passes then check_items vs else check_item v)"

fun checked :: "obj \<Rightarrow> checked_line" where
  "checked [] = Passes"
| "checked ((k, v) # line) =
    (if k \<notin> set LINE_KEYS then Refused
     else let c = check_items (case v of JList l \<Rightarrow> l | _ \<Rightarrow> [v]) in if c = Passes then checked line else c)"

text \<open>What is printed of the lines, and the exit code; \<open>None\<close> is a traceback. \<open>ended\<close> is the end of the last line with one.\<close>

fun print_lines :: "int \<Rightarrow> string \<Rightarrow> obj list \<Rightarrow> (obj list \<times> int) option" where
  "print_lines cache ended [] = map_option (Pair []) (map_of EXIT ended)"
| "print_lines cache ended (line # ls) =
    (case checked line of
       Passes \<Rightarrow>
         map_option (\<lambda>(out, code). (line # out, code))
           (print_lines cache (case jget ''end'' line of JStr e \<Rightarrow> e | _ \<Rightarrow> ended) ls)
     | Refused \<Rightarrow>
         (let last_line = [(''end'', JStr ''unreachable''), (''cache_tokens'', JInt cache)]
          in if checked last_line = Passes then map_option (Pair [last_line]) (map_of EXIT ended) else None)
     | Overflows \<Rightarrow> None)"

subsection \<open>What a line holds\<close>

definition item_formed :: "json \<Rightarrow> bool" where
  "item_formed v \<longleftrightarrow>
    (case v of JStr t \<Rightarrow> t \<in> set LINE_WORDS | JNull \<Rightarrow> True | JInt _ \<Rightarrow> True | JFloat _ \<Rightarrow> True | _ \<Rightarrow> False)"

definition entry_formed :: "string \<times> json \<Rightarrow> bool" where
  "entry_formed = (\<lambda>(k, v). k \<in> set LINE_KEYS \<and> list_all item_formed (case v of JList l \<Rightarrow> l | _ \<Rightarrow> [v]))"

definition line_formed :: "obj \<Rightarrow> bool" where
  "line_formed = list_all entry_formed"

lemma jput_formed: "line_formed ob \<Longrightarrow> entry_formed (k, v) \<Longrightarrow> line_formed (jput k v ob)"
  by (auto simp: line_formed_def jput_def list_all_iff)

lemma merged_formed: "line_formed ob \<Longrightarrow> line_formed entries \<Longrightarrow> line_formed (merged ob entries)"
proof (induction entries arbitrary: ob)
  case (Cons e entries)
  obtain k v where e: "e = (k, v)" by (cases e)
  from Cons.prems have "line_formed (jput k v ob)" "line_formed entries" by (auto simp: e line_formed_def intro!: jput_formed [unfolded line_formed_def])
  with Cons.IH show ?case by (simp add: e merged_def)
qed (simp add: merged_def)

lemma counter_keys: "set (map snd COUNTERS) \<subseteq> set LINE_KEYS"
  by (auto simp: LINE_KEYS_def)

lemma change_formed: "change_of earlier later k = Some v \<Longrightarrow> item_formed v \<and> (\<forall>l. v \<noteq> JList l)"
  by (auto simp: change_of_def item_formed_def Let_def split: option.splits if_splits)

lemma those_list_all: "those (map f xs) = Some ys \<Longrightarrow> (\<And>x y. x \<in> set xs \<Longrightarrow> f x = Some y \<Longrightarrow> P y) \<Longrightarrow> list_all P ys"
proof (induction xs arbitrary: ys)
  case (Cons x xs)
  from Cons.prems(1) obtain z zs where z: "f x = Some z" "those (map f xs) = Some zs" "ys = z # zs"
    by (auto split: option.splits)
  have "list_all P zs" by (rule Cons.IH [OF z(2)]) (use Cons.prems(2) in auto)
  with Cons.prems(2) [OF _ z(1)] z(3) show ?case by simp
qed simp

lemma deltas_parts:
  assumes "deltas earlier later = Some d"
  obtains gained ps where "those (map (\<lambda>k. map_option (Pair k) (change_of earlier later k))
        (filter (\<lambda>k. map_of earlier k \<noteq> None \<and> map_of later k \<noteq> None) (map snd COUNTERS))) = Some gained"
    and "those (map (\<lambda>p. change_of earlier later (''accepted_pos'' @ digits_of p)) (drafted_positions earlier later)) = Some ps"
    and "d = gained @ [(''accepted_by_pos'', JList ps)]"
  using assms unfolding deltas_def by (auto simp: bind_eq_Some_conv)

lemma deltas_formed: "deltas earlier later = Some d \<Longrightarrow> line_formed d"
proof (erule deltas_parts)
  fix gained ps
  assume g: "those (map (\<lambda>k. map_option (Pair k) (change_of earlier later k))
        (filter (\<lambda>k. map_of earlier k \<noteq> None \<and> map_of later k \<noteq> None) (map snd COUNTERS))) = Some gained"
    and p: "those (map (\<lambda>p. change_of earlier later (''accepted_pos'' @ digits_of p)) (drafted_positions earlier later)) = Some ps"
    and d: "d = gained @ [(''accepted_by_pos'', JList ps)]"
  have "line_formed gained" unfolding line_formed_def
  proof (rule those_list_all [OF g])
    fix k e
    assume "k \<in> set (filter (\<lambda>k. map_of earlier k \<noteq> None \<and> map_of later k \<noteq> None) (map snd COUNTERS))"
      and "map_option (Pair k) (change_of earlier later k) = Some e"
    then obtain v where "k \<in> set LINE_KEYS" "e = (k, v)" "item_formed v" "\<forall>l. v \<noteq> JList l"
      using counter_keys change_formed by auto
    then show "entry_formed e" by (auto simp: entry_formed_def split: json.split)
  qed
  moreover have "list_all item_formed ps" by (rule those_list_all [OF p]) (auto dest: change_formed)
  ultimately show ?thesis by (simp add: d line_formed_def entry_formed_def) (simp add: LINE_KEYS_def)
qed

lemma number_formed: "sweep_number v n = Some w \<Longrightarrow> item_formed w \<and> (\<forall>l. w \<noteq> JList l)"
  by (auto simp: sweep_number_def item_formed_def split: json.splits if_splits)

lemma number_entry: "sweep_number v n = Some w \<Longrightarrow> k \<in> set LINE_KEYS \<Longrightarrow> entry_formed (k, w)"
  by (auto simp: entry_formed_def dest!: number_formed split: json.split)

lemma outcome_parts:
  assumes "outcome_row result expected = Some r"
  obtains a b q c d va vb vc vd where "r = [(''completed'', JInt expected), (''failed_requests'', JInt 0), (''duration_s'', a),
      (''out_tok_s'', b), (''out_tok_s_per_request'', JFloat q), (''ttft_ms_median'', c), (''ttft_ms_p90'', d)]"
    and "sweep_number va 1 = Some a" "sweep_number vb 1 = Some b" "sweep_number vc 1 = Some c" "sweep_number vd 1 = Some d"
    and "jget ''completed'' result = JInt expected" "jget ''failed'' result = JInt 0"
  using assms unfolding outcome_row_def by (auto simp: bind_eq_Some_conv simp del: One_nat_def split: if_split_asm)

lemma outcome_formed: "outcome_row result expected = Some r \<Longrightarrow> line_formed r"
proof (erule outcome_parts)
  fix a b q c d va vb vc vd
  assume r: "r = [(''completed'', JInt expected), (''failed_requests'', JInt 0), (''duration_s'', a),
      (''out_tok_s'', b), (''out_tok_s_per_request'', JFloat q), (''ttft_ms_median'', c), (''ttft_ms_p90'', d)]"
    and n: "sweep_number va 1 = Some a" "sweep_number vb 1 = Some b" "sweep_number vc 1 = Some c" "sweep_number vd 1 = Some d"
  have "entry_formed (''completed'', JInt expected)" "entry_formed (''failed_requests'', JInt 0)"
    "entry_formed (''out_tok_s_per_request'', JFloat q)"
    by (simp_all add: entry_formed_def item_formed_def LINE_KEYS_def)
  moreover have "entry_formed (''duration_s'', a)" "entry_formed (''out_tok_s'', b)" "entry_formed (''ttft_ms_median'', c)"
    "entry_formed (''ttft_ms_p90'', d)"
    by (rule number_entry [OF n(1)] number_entry [OF n(2)] number_entry [OF n(3)] number_entry [OF n(4)], simp add: LINE_KEYS_def)+
  ultimately show ?thesis by (simp add: r line_formed_def)
qed

lemmas formed_simps = line_formed_def entry_formed_def item_formed_def LINE_KEYS_def LINE_WORDS_def

lemma head_formed: "lv_share l = ''shared'' \<or> lv_share l = ''none'' \<Longrightarrow> line_formed (head_of l)"
  by (auto simp: head_of_def formed_simps)

lemma peaks_formed: "line_formed (peaks_row p)"
  by (simp add: peaks_row_def formed_simps split: option.split)

lemma small_formed:
  "line_formed [(''running_before'', JInt r), (''waiting_before'', JInt q)]"
  "st \<in> set LINE_WORDS \<Longrightarrow> line_formed [(''status'', JStr st)]"
  "st \<in> set LINE_WORDS \<Longrightarrow> line_formed [(''status'', JStr st), (''exit_code'', JInt n)]"
  "st \<in> set LINE_WORDS \<Longrightarrow> line_formed [(''status'', JStr st), (''exit_code'', JNull)]"
  "line_formed [(''est_s'', JFloat x), (''wall_s'', JFloat y)]"
  "line_formed [(''status'', JStr ''skipped''), (''reason'', JStr ''cache'')]"
  "line_formed [(''status'', JStr ''skipped''), (''reason'', JStr ''until''), (''est_s'', JFloat x)]"
  by (simp_all add: line_formed_def entry_formed_def item_formed_def LINE_KEYS_def) (simp_all add: LINE_WORDS_def)

definition bench_words :: "string list" where
  "bench_words = [''unreachable'', ''overlap'', ''cut'', ''done'', ''failed'']"

lemma bench_loop_status: "bench_loop n ls p = Some (st, code, p1) \<Longrightarrow> st \<in> set bench_words"
  by (induction n ls p rule: bench_loop.induct) (auto simp: Let_def bench_words_def split: if_splits option.splits)

lemma bench_status: "bench l sample i = Some (st, code, p) \<Longrightarrow> st \<in> set bench_words"
  by (auto simp: bench_def Let_def dest!: bench_loop_status split: if_splits prod.splits) (auto simp: bench_words_def)

lemma bench_words_known: "set bench_words \<subseteq> set LINE_WORDS"
  by (auto simp: bench_words_def LINE_WORDS_def)

lemma status_words: "''unreachable'' \<in> set LINE_WORDS" "''busy'' \<in> set LINE_WORDS" "''cut'' \<in> set LINE_WORDS"
  "''failed'' \<in> set LINE_WORDS" "''done'' \<in> set LINE_WORDS" "''overlap'' \<in> set LINE_WORDS"
  by (simp_all add: LINE_WORDS_def)

text \<open>What follows a benchmark that ended by itself.\<close>

lemma after_bench_cases:
  obtains (unreadable) "after_bench l i sample got code p = merged [(''status'', JStr ''unreachable'')] got"
  | (bad) later p1 d v where "ru_after i = Some later" "note_sample later p = (p1, True)" "deltas sample later = Some d"
      "v = JNull \<or> (\<exists>n. v = JInt n)"
      "after_bench l i sample got code p =
        merged [(''status'', JStr ''failed''), (''exit_code'', v)] (merged got (merged d (peaks_row p1)))"
  | (good) later p1 d result summary where "ru_after i = Some later" "note_sample later p = (p1, True)" "deltas sample later = Some d"
      "code = Some 0" "ru_result i = Some (JObj result)" "outcome_row result (prompts l) = Some summary"
      "after_bench l i sample got code p =
        merged (merged [(''status'', JStr (if lv_requests l < pk_inflight p1 then ''overlap'' else ''done''))] summary)
          (merged got (merged d (peaks_row p1)))"
proof (cases "\<exists>later p1 d. ru_after i = Some later \<and> note_sample later p = (p1, True) \<and> deltas sample later = Some d")
  case False
  then have "Option.bind (ru_after i) (\<lambda>later.
         case note_sample later p of (p1, noted) \<Rightarrow> if noted then map_option (Pair p1) (deltas sample later) else None) = None"
    by (cases "ru_after i") (auto split: prod.split)
  with unreadable show ?thesis by (simp add: after_bench_def)
next
  case True
  then obtain later p1 d where t: "ru_after i = Some later" "note_sample later p = (p1, True)" "deltas sample later = Some d" by blast
  then have e: "after_bench l i sample got code p =
      (let line2 = merged got (merged d (peaks_row p1))
          in case (if code = Some 0 then ru_result i else None) of
               Some (JObj result) \<Rightarrow>
                 (case outcome_row result (prompts l) of
                    None \<Rightarrow> merged [(''status'', JStr ''failed''), (''exit_code'', JInt 0)] line2
                  | Some summary \<Rightarrow>
                      merged (merged [(''status'', JStr (if lv_requests l < pk_inflight p1 then ''overlap'' else ''done''))] summary) line2)
             | _ \<Rightarrow> merged [(''status'', JStr ''failed''), (''exit_code'', case code of None \<Rightarrow> JNull | Some n \<Rightarrow> JInt n)] line2)"
    by (simp add: after_bench_def)
  show ?thesis
  proof (cases "\<exists>result summary. code = Some 0 \<and> ru_result i = Some (JObj result) \<and> outcome_row result (prompts l) = Some summary")
    case True
    with e good [OF t] show ?thesis by auto
  next
    case False
    then have "\<exists>v. (v = JNull \<or> (\<exists>n. v = JInt n)) \<and> after_bench l i sample got code p =
        merged [(''status'', JStr ''failed''), (''exit_code'', v)] (merged got (merged d (peaks_row p1)))"
      unfolding e Let_def by (auto split: option.splits json.splits)
    with bad [OF t] show ?thesis by blast
  qed
qed

lemma after_bench_formed: "line_formed line1 \<Longrightarrow> line_formed (after_bench l i sample line1 code p)"
proof -
  assume l: "line_formed line1"
  have m: "line_formed (merged line1 (merged d (peaks_row p1)))" if "deltas sample later = Some d" for d later p1
    using l deltas_formed [OF that] peaks_formed by (intro merged_formed)
  show ?thesis
  proof (cases rule: after_bench_cases [where l = l and i = i and sample = sample and got = line1 and code = code and p = p])
    case unreadable
    with l small_formed(2) [OF status_words(1)] show ?thesis by (simp only: merged_formed)
  next
    case (bad later p1 d v)
    from bad(4) have "line_formed [(''status'', JStr ''failed''), (''exit_code'', v)]"
      using small_formed(3,4) [OF status_words(4)] by blast
    with m [OF bad(3)] bad(5) show ?thesis by (simp only: merged_formed)
  next
    case (good later p1 d result summary)
    have "line_formed [(''status'', JStr (if lv_requests l < pk_inflight p1 then ''overlap'' else ''done''))]"
      using small_formed(2) status_words by simp
    with m [OF good(3)] outcome_formed [OF good(6)] good(7) show ?thesis by (simp only: merged_formed)
  qed
qed

text \<open>How a run of a level ends.\<close>

lemma run_level_cases:
  assumes "run_level l i = Some (line, b)"
  obtains (early) st where "st \<in> set LINE_WORDS" "\<not> b" "st \<noteq> ''done''"
      "line = [(''status'', JStr st)] \<or> (\<exists>r q. line = merged [(''status'', JStr st)] [(''running_before'', JInt r), (''waiting_before'', JInt q)])"
  | (ended) sample st code p line1 where "ru_metrics i = Some sample" "activity sample = Some (0, 0)" "\<not> ru_late i"
      "bench l sample i = Some (st, code, p)" "b = ru_prepared i"
      "line1 = merged [(''running_before'', JInt 0), (''waiting_before'', JInt 0)] (peaks_row p)"
      "line = (if st \<noteq> ''done'' then merged [(''status'', JStr st)] line1 else after_bench l i sample line1 code p)"
proof (cases "Option.bind (ru_metrics i) (\<lambda>sample. map_option (Pair sample) (activity sample))")
  case None
  with assms early [OF status_words(1)] show ?thesis by (auto simp: run_level_def)
next
  case (Some t)
  then obtain sample r q where t: "t = (sample, r, q)" "ru_metrics i = Some sample" "activity sample = Some (r, q)"
    by (auto simp: bind_eq_Some_conv)
  show ?thesis
  proof (cases "r = 0 \<and> q = 0 \<and> \<not> ru_late i")
    case False
    with assms Some t early [OF status_words(2)] early [OF status_words(3)] show ?thesis
      by (auto simp: run_level_def Let_def split: if_splits)
  next
    case True
    with assms Some t ended show ?thesis by (auto simp: run_level_def Let_def)
  qed
qed

lemma run_level_formed: "run_level l i = Some (line, b) \<Longrightarrow> line_formed line"
proof (erule run_level_cases)
  fix st
  assume "st \<in> set LINE_WORDS" and "line = [(''status'', JStr st)] \<or>
    (\<exists>r q. line = merged [(''status'', JStr st)] [(''running_before'', JInt r), (''waiting_before'', JInt q)])"
  then show ?thesis using small_formed(1,2) merged_formed by auto
next
  fix sample st code p line1
  assume st: "bench l sample i = Some (st, code, p)"
    and l: "line1 = merged [(''running_before'', JInt 0), (''waiting_before'', JInt 0)] (peaks_row p)"
    and e: "line = (if st \<noteq> ''done'' then merged [(''status'', JStr st)] line1 else after_bench l i sample line1 code p)"
  have "line_formed line1" unfolding l by (intro merged_formed small_formed peaks_formed)
  moreover have "line_formed [(''status'', JStr st)]" using bench_status [OF st] bench_words_known by (intro small_formed) blast
  ultimately show ?thesis unfolding e using after_bench_formed merged_formed by simp
qed

lemma map_of_merged: "k \<notin> fst ` set entries \<Longrightarrow> map_of (merged ob entries) k = map_of ob k"
proof (induction entries arbitrary: ob)
  case (Cons e entries)
  obtain n v where e: "e = (n, v)" by (cases e)
  from Cons.prems have "map_of (merged (jput n v ob) entries) k = map_of (jput n v ob) k" by (intro Cons.IH) simp
  with Cons.prems show ?case by (simp add: e merged_def map_of_jput)
qed (simp add: merged_def)

lemma map_of_merged_none: "map_of ob k = None \<Longrightarrow> k \<notin> fst ` set entries \<Longrightarrow> k \<notin> fst ` set (merged ob entries)"
  using map_of_merged map_of_eq_None_iff by metis

lemma no_status:
  "''status'' \<notin> fst ` set (peaks_row p)"
  "deltas earlier later = Some d \<Longrightarrow> ''status'' \<notin> fst ` set d"
  "outcome_row result n = Some r \<Longrightarrow> ''status'' \<notin> fst ` set r"
proof -
  show "''status'' \<notin> fst ` set (peaks_row p)" by (simp add: peaks_row_def)
  show "''status'' \<notin> fst ` set d" if "deltas earlier later = Some d"
    using that
  proof (rule deltas_parts)
    fix gained ps
    assume g: "those (map (\<lambda>k. map_option (Pair k) (change_of earlier later k))
        (filter (\<lambda>k. map_of earlier k \<noteq> None \<and> map_of later k \<noteq> None) (map snd COUNTERS))) = Some gained"
      and d: "d = gained @ [(''accepted_by_pos'', JList ps)]"
    have c: "''status'' \<notin> set (map snd COUNTERS)" by (simp add: COUNTERS_def)
    have "list_all (\<lambda>e. fst e \<noteq> ''status'') gained"
    proof (rule those_list_all [OF g])
      fix k e
      assume "k \<in> set (filter (\<lambda>k. map_of earlier k \<noteq> None \<and> map_of later k \<noteq> None) (map snd COUNTERS))"
        and "map_option (Pair k) (change_of earlier later k) = Some e"
      then have "k \<in> set (map snd COUNTERS)" "fst e = k" by (simp_all only: set_filter mem_Collect_eq) auto
      with c show "fst e \<noteq> ''status''" by metis
    qed
    with d show ?thesis by (auto simp: list_all_iff)
  qed
  show "''status'' \<notin> fst ` set r" if "outcome_row result n = Some r"
    using that by (rule outcome_parts) simp
qed

text \<open>The samples of the looks up to the one at which the benchmark has ended.\<close>

fun looked :: "bench_look list \<Rightarrow> totals option list" where
  "looked [] = []"
| "looked (l # ls) = lk_samples l @ (if lk_exit l = None then looked ls else [])"

definition within_peak :: "peaks \<Rightarrow> totals option \<Rightarrow> bool" where
  "within_peak p s \<longleftrightarrow> (\<exists>t r q. s = Some t \<and> activity t = Some (r, q) \<and> r + q \<le> pk_inflight p)"

lemma note_sample_peak:
  "note_sample t p = (p1, noted) \<Longrightarrow> pk_inflight p \<le> pk_inflight p1 \<and> pk_failed p1 = pk_failed p \<and> (noted \<longrightarrow> within_peak p1 (Some t))"
  by (auto simp: note_sample_def within_peak_def Let_def split: option.splits if_splits)

lemma watch_peak:
  "pk_inflight p \<le> pk_inflight (watch ss p) \<and> (pk_failed p \<longrightarrow> pk_failed (watch ss p)) \<and>
    (\<not> pk_failed (watch ss p) \<longrightarrow> list_all (within_peak (watch ss p)) ss)"
proof (induction ss p rule: watch.induct)
  case (2 s ss p)
  show ?case
  proof (cases "pk_failed p")
    case False
    obtain p1 noted where n: "(case s of None \<Rightarrow> (p, False) | Some sample \<Rightarrow> note_sample sample p) = (p1, noted)" by fastforce
    have le: "pk_inflight p \<le> pk_inflight p1" "pk_failed p1 = pk_failed p"
      using n note_sample_peak by (auto split: option.splits)
    show ?thesis
    proof (cases noted)
      case True
      then obtain t where t: "s = Some t" "note_sample t p = (p1, True)" using n by (auto split: option.splits)
      have w: "watch (s # ss) p = watch ss p1" using False n True by simp
      note ih = 2 [OF False n [symmetric] True]
      have "within_peak (watch ss p1) s"
        using note_sample_peak [OF t(2)] ih t(1) unfolding within_peak_def by fastforce
      with ih le show ?thesis unfolding w by auto
    next
      case False
      with n le \<open>\<not> pk_failed p\<close> show ?thesis by simp
    qed
  qed simp
qed simp

lemma within_peak_more: "within_peak p s \<Longrightarrow> pk_inflight p \<le> pk_inflight p1 \<Longrightarrow> within_peak p1 s"
  unfolding within_peak_def by fastforce

lemma bench_loop_done:
  "bench_loop n ls p = Some (''done'', code, p1) \<Longrightarrow> \<not> pk_failed p1 \<and> list_all (within_peak p1) (looked ls) \<and> pk_inflight p \<le> pk_inflight p1"
proof (induction n ls p rule: bench_loop.induct)
  case (2 n l ls p)
  let ?p = "watch (lk_samples l) p"
  note w = watch_peak [of p "lk_samples l"]
  from 2(2) have f: "\<not> pk_failed ?p" "\<not> n < pk_inflight ?p" "\<not> lk_over l" by (auto simp: Let_def split: if_splits)
  show ?case
  proof (cases "lk_exit l")
    case (Some c)
    with 2(2) f w show ?thesis by (auto simp: Let_def)
  next
    case None
    with 2(2) f have "bench_loop n ls ?p = Some (''done'', code, p1)" by (simp add: Let_def)
    with 2(1) [OF refl f None] have ih: "\<not> pk_failed p1" "list_all (within_peak p1) (looked ls)" "pk_inflight ?p \<le> pk_inflight p1" by auto
    have "list_all (within_peak p1) (lk_samples l)" using w f(1) within_peak_more [OF _ ih(3)] by (auto simp: list_all_iff)
    with ih w None show ?thesis by simp
  qed
qed simp


subsection \<open>What a sweep does\<close>

lemma sweep_level_cases:
  obtains (stopped) "sp_stopped s" "sweep_level cache until clock run s l = s"
  | (skipped) line e k where "\<not> sp_stopped s" "sweep_level cache until clock run s l = put_line line (s\<lparr>sp_clock := k, sp_ended := e\<rparr>)"
      "e = sp_ended s \<and> line = merged (head_of l) [(''status'', JStr ''skipped''), (''reason'', JStr ''cache'')] \<or>
       e = ''until'' \<and> (\<exists>x. line = merged (head_of l) [(''status'', JStr ''skipped''), (''reason'', JStr ''until''), (''est_s'', JFloat x)])"
  | (ran) est k where "\<not> sp_stopped s" "fits_cache cache l" "est = round_digits 1 (float_near (estimate l * sp_stretch s))"
      "float_near (clock k + est) \<le> until"
      "sweep_level cache until clock run s l = ran_level l est (clock (k + 1)) (clock (k + 2)) (run l)
         (s\<lparr>sp_clock := k + 3, sp_begun := sp_begun s @ [(l, clock k, est)]\<rparr>)"
proof (cases "sp_stopped s")
  case True
  then show ?thesis by (intro stopped) (simp_all add: sweep_level_def)
next
  case s: False
  define est where "est = round_digits 1 (float_near (estimate l * sp_stretch s))"
  consider "\<not> fits_cache cache l" | "fits_cache cache l" "until < float_near (clock (sp_clock s) + est)"
    | "fits_cache cache l" "float_near (clock (sp_clock s) + est) \<le> until" by linarith
  then show ?thesis
  proof cases
    case 1
    have "s = s\<lparr>sp_clock := sp_clock s, sp_ended := sp_ended s\<rparr>" by simp
    with s 1 show ?thesis by (intro skipped [where k = "sp_clock s" and e = "sp_ended s"]) (auto simp: sweep_level_def)
  next
    case 2
    with s show ?thesis by (intro skipped [where k = "sp_clock s + 1" and e = "''until''"]) (auto simp: sweep_level_def est_def Let_def)
  next
    case 3
    with s show ?thesis by (intro ran [OF s 3(1) est_def 3(2)]) (simp add: sweep_level_def est_def Let_def)
  qed
qed

text \<open>The status of a run, if it ends the sweep.\<close>

definition end_of :: "obj \<Rightarrow> string option" where
  "end_of result = (case jget ''status'' result of JStr st \<Rightarrow> map_of ENDS st | _ \<Rightarrow> None)"

lemma ran_level_does:
  "sp_lines (ran_level l est begun finish result s) = sp_lines s @
     [merged (merged (head_of l) [(''est_s'', JFloat est), (''wall_s'', JFloat (round_digits 1 (float_near (finish - begun))))]) result]"
  "sp_begun (ran_level l est begun finish result s) = sp_begun s"
  "sp_stopped (ran_level l est begun finish result s) \<longleftrightarrow> sp_stopped s \<or> end_of result \<noteq> None"
  "sp_ended (ran_level l est begun finish result s) = (case end_of result of None \<Rightarrow> sp_ended s | Some e \<Rightarrow> e)"
  "sp_ran (ran_level l est begun finish result s) = sp_ran s + (if end_of result = None then 1 else 0)"
  "sp_stretch s \<ge> 1 \<Longrightarrow> sp_stretch (ran_level l est begun finish result s) \<ge> 1"
  by (auto simp: ran_level_def put_line_def Let_def end_of_def split: option.splits json.splits)

lemma sweep_lines_formed:
  assumes "\<And>l. l \<in> set plan \<Longrightarrow> line_formed (run l) \<and> (lv_share l = ''shared'' \<or> lv_share l = ''none'')"
    and "list_all line_formed (sp_lines s)" "sp_ended s \<in> insert ''done'' (insert ''until'' (snd ` set ENDS))"
  shows "list_all line_formed (sp_lines (foldl (sweep_level cache until clock run) s plan)) \<and>
    sp_ended (foldl (sweep_level cache until clock run) s plan) \<in> insert ''done'' (insert ''until'' (snd ` set ENDS))"
  using assms
proof (induction plan arbitrary: s)
  case (Cons l plan)
  let ?s = "sweep_level cache until clock run s l"
  have l: "line_formed (run l)" "line_formed (head_of l)" using Cons.prems(1) [of l] head_formed by auto
  have "list_all line_formed (sp_lines ?s) \<and> sp_ended ?s \<in> insert ''done'' (insert ''until'' (snd ` set ENDS))"
  proof (cases rule: sweep_level_cases [where s = s and l = l and cache = cache and until = until and clock = clock and run = run])
    case stopped
    with Cons.prems(2,3) show ?thesis by simp
  next
    case (skipped line e k)
    have "line_formed line" using skipped(3) l(2) small_formed(6,7) merged_formed by auto
    with skipped Cons.prems(2,3) show ?thesis by (auto simp: put_line_def)
  next
    case (ran est k)
    have "e \<in> snd ` set ENDS" if "end_of (run l) = Some e" for e
      using that by (auto simp: end_of_def image_iff split: json.splits dest!: map_of_SomeD) force
    with ran l Cons.prems(2,3) show ?thesis
      by (auto simp: ran_level_does intro!: merged_formed small_formed split: option.split)
  qed
  with Cons show ?case by simp
qed simp

definition in_range :: "obj \<Rightarrow> bool" where
  "in_range = list_all (\<lambda>(k, v). list_all (\<lambda>w. case as_number w of None \<Rightarrow> True | Some q \<Rightarrow> \<bar>q\<bar> < 2 ^ 1024)
     (case v of JList l \<Rightarrow> l | _ \<Rightarrow> [v]))"

lemma check_item_formed: "item_formed v \<Longrightarrow> check_item v = Passes \<longleftrightarrow> (case as_number v of None \<Rightarrow> True | Some q \<Rightarrow> \<bar>q\<bar> < 2 ^ 1024)"
  by (cases v) (auto simp: item_formed_def check_item_def is_float_def)

lemma check_items_formed:
  "list_all item_formed vs \<Longrightarrow>
    check_items vs = Passes \<longleftrightarrow> list_all (\<lambda>w. case as_number w of None \<Rightarrow> True | Some q \<Rightarrow> \<bar>q\<bar> < 2 ^ 1024) vs"
  by (induction vs) (auto simp: check_item_formed)

lemma checked_formed: "line_formed line \<Longrightarrow> checked line = Passes \<longleftrightarrow> in_range line"
proof (induction line)
  case (Cons e line)
  obtain k v where e: "e = (k, v)" by (cases e)
  from Cons.prems have "k \<in> set LINE_KEYS" "list_all item_formed (case v of JList l \<Rightarrow> l | _ \<Rightarrow> [v])" "line_formed line"
    by (simp_all add: e line_formed_def entry_formed_def)
  with Cons.IH check_items_formed show ?case by (simp add: e in_range_def Let_def)
qed (simp add: in_range_def)

lemma levels_share: "list_all (\<lambda>l. lv_share l = ''shared'' \<or> lv_share l = ''none'') levels"
  by code_simp

text \<open>
  C40: No text leaves a sweep. Whatever the engine's metrics, the benchmark's result and the clock say, each line of a
  sweep over the plan has only the fixed keys, with numbers, nothing, or a word of the fixed set; the check before the
  print passes each line whose numbers are floats, and the last line tells how the sweep ended, with an exit code.
\<close>

theorem sweep_lines_fixed:
  assumes "\<And>l. l \<in> set levels \<Longrightarrow> \<exists>started. run_level l (inputs l) = Some (run l, started)"
  shows "list_all (\<lambda>line. line_formed line \<and> (checked line = Passes \<longleftrightarrow> in_range line)) (sp_lines (sweep_all levels cache until clock run)) \<and>
    (\<exists>e. jget ''end'' (last (sp_lines (sweep_all levels cache until clock run))) = JStr e \<and> map_of EXIT e \<noteq> None)"
proof -
  let ?s = "foldl (sweep_level cache until clock run) sweep_start levels"
  have r: "line_formed (run l) \<and> (lv_share l = ''shared'' \<or> lv_share l = ''none'')" if "l \<in> set levels" for l
    using assms [OF that] run_level_formed levels_share that by (auto simp: list_all_iff)
  have s: "list_all line_formed (sp_lines ?s)" "sp_ended ?s \<in> insert ''done'' (insert ''until'' (snd ` set ENDS))"
    using sweep_lines_formed [OF r, where s = sweep_start] by (simp_all add: sweep_start_def)
  define last_line where "last_line = [(''end'', JStr (sp_ended ?s)), (''levels_run'', JInt (sp_ran ?s)),
      (''wall_s'', JFloat (round_digits 1 (float_near (clock (sp_clock ?s) - clock 0)))), (''cache_tokens'', JInt cache)]"
  have "line_formed last_line" using s(2) by (auto simp: last_line_def ENDS_def formed_simps)
  then have "list_all (\<lambda>line. line_formed line \<and> (checked line = Passes \<longleftrightarrow> in_range line)) (sp_lines ?s @ [last_line])"
    using s(1) checked_formed by (simp add: list_all_iff)
  moreover have "map_of EXIT (sp_ended ?s) \<noteq> None" using s(2) by (auto simp: ENDS_def EXIT_def)
  moreover have "jget ''end'' last_line = JStr (sp_ended ?s)" by (simp add: last_line_def jget_def)
  moreover have "sp_lines (sweep_all levels cache until clock run) = sp_lines ?s @ [last_line]"
    by (simp add: sweep_all_def Let_def put_line_def last_line_def)
  ultimately show ?thesis by simp
qed

text \<open>
  A sweep keeps to its deadline and its order. The levels that it begins are levels of the plan in its order, each
  at most once; each fits in the cache, and began when its estimate, made no shorter by what was measured, still ended
  before the deadline; none is begun after a run that met an error, another request or the deadline; and every level
  that is run or skipped has a line of its own.
\<close>

theorem sweep_in_time:
  "subseq (map fst (sp_begun (sweep_all plan cache until clock run))) plan \<and>
    list_all (\<lambda>(l, t, est). fits_cache cache l \<and> float_near (t + est) \<le> until \<and>
      (\<exists>stretch \<ge> 1. est = round_digits 1 (float_near (estimate l * stretch)))) (sp_begun (sweep_all plan cache until clock run)) \<and>
    list_all (\<lambda>(l, t, est). end_of (run l) = None) (butlast (sp_begun (sweep_all plan cache until clock run))) \<and>
    length (sp_begun (sweep_all plan cache until clock run)) + 1 \<le> length (sp_lines (sweep_all plan cache until clock run)) \<and>
    length (sp_lines (sweep_all plan cache until clock run)) \<le> length plan + 1"
proof -
  define ok where "ok = (\<lambda>(l, t, est). fits_cache cache l \<and> float_near (t + est) \<le> until \<and>
      (\<exists>stretch \<ge> 1. est = round_digits 1 (float_near (estimate l * stretch))))"
  have "subseq (map fst (sp_begun s)) plan \<and> list_all ok (sp_begun s) \<and> 1 \<le> sp_stretch s \<and>
      list_all (\<lambda>(l, t, est). end_of (run l) = None) (if sp_stopped s then butlast (sp_begun s) else sp_begun s) \<and>
      length (sp_begun s) \<le> length (sp_lines s) \<and> length (sp_lines s) \<le> length plan"
    if "s = foldl (sweep_level cache until clock run) sweep_start plan" for s
    using that
  proof (induction plan arbitrary: s rule: rev_induct)
    case Nil
    then show ?case by (simp add: sweep_start_def)
  next
    case (snoc l plan)
    define s0 where "s0 = foldl (sweep_level cache until clock run) sweep_start plan"
    note ih = snoc.IH [OF s0_def]
    have s: "s = sweep_level cache until clock run s0 l" using snoc.prems by (simp add: s0_def)
    have sub: "subseq (map fst (sp_begun s0)) (plan @ [l])" using ih by (intro subseq_rev_drop_many) auto
    show ?case
    proof (cases rule: sweep_level_cases [where s = s0 and l = l and cache = cache and until = until and clock = clock and run = run])
      case stopped
      with s ih sub show ?thesis by simp
    next
      case (skipped line e k)
      with s ih sub show ?thesis by (simp add: put_line_def)
    next
      case (ran est k)
      have "subseq (map fst (sp_begun s0) @ [l]) (plan @ [l])" using ih by (intro list_emb_append_mono) auto
      moreover have "ok (l, clock k, est)" using ran(3,4) ih ran(2) by (auto simp: ok_def)
      ultimately show ?thesis using ran(1) ih unfolding s ran(5) by (auto simp: ran_level_does)
    qed
  qed
  from this [OF refl] show ?thesis
    by (auto simp: sweep_all_def Let_def put_line_def ok_def list_all_iff split: if_splits dest: in_set_butlastD)
qed

definition sample_result :: obj where
  "sample_result = [(''completed'', JInt 4), (''failed'', JInt 0), (''duration'', JInt 20), (''output_throughput'', JInt 90),
     (''median_tpot_ms'', JInt 10), (''median_ttft_ms'', JInt 300), (''p90_ttft_ms'', JInt 500)]"

definition sample_run :: run_input where
  "sample_run = \<lparr>ru_metrics = Some [(''running'', 0), (''waiting'', 0)], ru_late = False, ru_prepared = True,
     ru_looks = [\<lparr>lk_samples = [Some [(''running'', 2), (''waiting'', 0)]], lk_over = False, lk_exit = None\<rparr>,
       \<lparr>lk_samples = [], lk_over = False, lk_exit = Some 0\<rparr>],
     ru_last = [], ru_end_failed = False, ru_sampling = False, ru_after = Some [(''running'', 0), (''waiting'', 0)],
     ru_result = Some (JObj sample_result)\<rparr>"

lemma sample_level: "hd levels = \<lparr>lv_index = 1, lv_share = ''shared'', lv_context = 16000, lv_requests = 2\<rparr>"
  by code_simp

lemma small_number: "0 \<le> n \<Longrightarrow> n < 1000 \<Longrightarrow> sweep_number (JInt n) k = Some (JInt n)"
proof -
  assume n: "0 \<le> n" "n < 1000"
  have "(1000 :: rat) \<le> 2 ^ 10" by simp
  also have "\<dots> \<le> 2 ^ 1024" by (rule power_increasing) simp_all
  finally have "\<bar>of_int n\<bar> < (2 :: rat) ^ 1024" using n by linarith
  with n show ?thesis by (simp add: sweep_number_def)
qed

lemma sample_outcome: "\<exists>r. outcome_row sample_result 4 = Some r"
  by (simp add: outcome_row_def sample_result_def jget_def result_fields_def small_number positive_def number_in_def)

lemma sample_bench: "bench (hd levels) [(''running'', 0), (''waiting'', 0)] sample_run =
    Some (''done'', Some 0, \<lparr>pk_running = 2, pk_waiting = 0, pk_inflight = 2, pk_kv = None, pk_failed = False\<rparr>)"
  by (simp add: bench_def sample_level sample_run_def note_sample_def activity_def is_whole_def peaks_init_def Let_def)

lemma sample_after:
  "note_sample [(''running'', 0), (''waiting'', 0)] \<lparr>pk_running = 2, pk_waiting = 0, pk_inflight = 2, pk_kv = None, pk_failed = False\<rparr> =
    (\<lparr>pk_running = 2, pk_waiting = 0, pk_inflight = 2, pk_kv = None, pk_failed = False\<rparr>, True)"
  by (simp add: note_sample_def activity_def is_whole_def)

lemma sample_deltas: "\<exists>d. deltas [(''running'', 0), (''waiting'', 0)] [(''running'', 0), (''waiting'', 0)] = Some d"
  by (simp add: deltas_def COUNTERS_def drafted_positions_def List.map_filter_def after_def)

lemma sample_run_done: "\<exists>line. run_level (hd levels) sample_run = Some (line, True) \<and> map_of line ''status'' = Some (JStr ''done'')"
proof -
  let ?m = "[(''running'', 0), (''waiting'', 0)] :: totals"
  let ?p = "\<lparr>pk_running = 2, pk_waiting = 0, pk_inflight = 2, pk_kv = None, pk_failed = False\<rparr>"
  obtain r where r: "outcome_row sample_result 4 = Some r" using sample_outcome ..
  obtain d where d: "deltas ?m ?m = Some d" using sample_deltas ..
  define line1 where "line1 = merged [(''running_before'', JInt 0), (''waiting_before'', JInt 0)] (peaks_row ?p)"
  define line2 where "line2 = merged line1 (merged d (peaks_row ?p))"
  have run: "run_level (hd levels) sample_run = Some (merged (merged [(''status'', JStr ''done'')] r) line2, True)"
  proof -
    have "after_bench (hd levels) sample_run ?m line1 (Some 0) ?p = merged (merged [(''status'', JStr ''done'')] r) line2"
      by (simp add: after_bench_def sample_run_def sample_after d r sample_level prompts_def line2_def)
    moreover have "ru_metrics sample_run = Some ?m" "activity ?m = Some (0, 0)" "\<not> ru_late sample_run" "ru_prepared sample_run"
      by (simp_all add: sample_run_def activity_def is_whole_def)
    ultimately show ?thesis by (simp add: run_level_def sample_bench Let_def line1_def)
  qed
  have "''status'' \<notin> fst ` set line1" unfolding line1_def by (intro map_of_merged_none no_status) simp
  moreover have "''status'' \<notin> fst ` set (merged d (peaks_row ?p))"
    using no_status(1) no_status(2) [OF d] by - (rule map_of_merged_none, simp_all only: map_of_eq_None_iff not_False_eq_True)
  ultimately have "''status'' \<notin> fst ` set line2"
    unfolding line2_def by - (rule map_of_merged_none, simp_all only: map_of_eq_None_iff not_False_eq_True)
  with no_status(3) [OF r] have "map_of (merged (merged [(''status'', JStr ''done'')] r) line2) ''status'' = Some (JStr ''done'')"
    by (simp add: map_of_merged)
  with run show ?thesis by blast
qed


lemma unreachable_runs: "run_level l (sample_run\<lparr>ru_metrics := None\<rparr>) = Some ([(''status'', JStr ''unreachable'')], False)"
  by (simp add: run_level_def)

theorem sweep_lines_fixed_witness:
  "list_all (\<lambda>line. line_formed line \<and> (checked line = Passes \<longleftrightarrow> in_range line))
    (sp_lines (sweep_all levels 100000 1000 of_nat (\<lambda>_. [(''status'', JStr ''unreachable'')])))"
  by (rule sweep_lines_fixed [of "\<lambda>_. sample_run\<lparr>ru_metrics := None\<rparr>", THEN conjunct1]) (rule exI, rule unreachable_runs)

text \<open>The number of the cache's tokens is printed as it was given: one beyond the floats ends the sweep with a traceback.\<close>

lemma huge_cache_crashes: "(2 :: rat) ^ 1024 \<le> of_int cache \<Longrightarrow> print_lines cache ended [[(''end'', JStr ''done''), (''cache_tokens'', JInt cache)]] = None"
  by (simp add: check_item_def LINE_KEYS_def LINE_WORDS_def)

end
