(* ===== verification/Bot_Schemas.thy ===== *)
theory Bot_Schemas
  imports Image_Sweeper
begin

text \<open>
  The check of an answer against a schema, \<^verbatim>\<open>simple_serving/bot_schemas.py\<close>: the reading of the copied schemas, and the
  keywords that an answer breaks. \<^verbatim>\<open>re\<close> is an argument; a number is what it stands for, be it a \<^verbatim>\<open>float\<close> or a
  \<^verbatim>\<open>Decimal\<close>, and \<open>None\<close> stands for what a schema of another shape does, which raises as a rule; the \<^verbatim>\<open>ValueError\<close>
  of the reading apart.
\<close>

definition KEYWORDS :: "string list" where
  "KEYWORDS = [''type'', ''properties'', ''required'', ''additionalProperties'', ''items'', ''enum'', ''const'', ''minItems'',
     ''maxItems'', ''minLength'', ''maxLength'', ''pattern'', ''minimum'', ''maximum'']"

definition TYPES :: "string list" where
  "TYPES = [''object'', ''array'', ''string'', ''integer'', ''number'', ''boolean'', ''null'']"

subsection \<open>Values\<close>

text \<open>A number as Python compares it; a truth value is an integer there.\<close>

definition number_of_json :: "json \<Rightarrow> stamp option" where
  "number_of_json v =
    (case v of
       JBool b \<Rightarrow> Some (Finite (if b then 1 else 0))
     | JInt n \<Rightarrow> Some (Finite (of_int n))
     | JFloat q \<Rightarrow> Some (Finite q)
     | JNonfinite name \<Rightarrow> Some (if name = ''Infinity'' then Infinite True else if name = ''-Infinity'' then Infinite False else Not_a_number)
     | _ \<Rightarrow> None)"

definition equal_stamps :: "stamp \<Rightarrow> stamp \<Rightarrow> bool" where
  "equal_stamps a b \<longleftrightarrow> a = b \<and> a \<noteq> Not_a_number"

text \<open>Python's \<^verbatim>\<open>a == b\<close> of two values; the keys of a dictionary are distinct.\<close>

function python_equal :: "json \<Rightarrow> json \<Rightarrow> bool" where
  "python_equal a b =
    (case (a, b) of
       (JNull, JNull) \<Rightarrow> True
     | (JStr s, JStr t) \<Rightarrow> s = t
     | (JList xs, JList ys) \<Rightarrow> length xs = length ys \<and> (\<forall>(x, y) \<in> set (zip xs ys). python_equal x y)
     | (JObj xs, JObj ys) \<Rightarrow>
         length xs = length ys \<and> (\<forall>(k, x) \<in> set xs. case map_of ys k of None \<Rightarrow> False | Some y \<Rightarrow> python_equal x y)
     | _ \<Rightarrow> (case (number_of_json a, number_of_json b) of (Some x, Some y) \<Rightarrow> equal_stamps x y | _ \<Rightarrow> False))"
  by pat_completeness auto

lemma size_entry: "(k, x) \<in> set xs \<Longrightarrow> size x < Suc (size_list (size_prod (\<lambda>_. 0) size) xs)"
  by (induction xs) auto

lemma size_item: "x \<in> set xs \<Longrightarrow> size x < Suc (size_list size xs)"
  by (induction xs) auto

termination python_equal
  by (relation "measure (\<lambda>(a, b). size a)") (auto dest: size_entry dest!: set_zip_leftD intro: size_item)

declare python_equal.simps [simp del]

fun is_kind :: "json \<Rightarrow> string \<Rightarrow> bool option" where
  "is_kind v kind =
    (if kind = ''integer'' then Some (case v of JInt _ \<Rightarrow> True | JFloat q \<Rightarrow> q = of_int \<lfloor>q\<rfloor> | _ \<Rightarrow> False)
     else if kind = ''number'' then Some (case v of JInt _ \<Rightarrow> True | JFloat _ \<Rightarrow> True | JNonfinite _ \<Rightarrow> True | _ \<Rightarrow> False)
     else if kind = ''object'' then Some (case v of JObj _ \<Rightarrow> True | _ \<Rightarrow> False)
     else if kind = ''array'' then Some (case v of JList _ \<Rightarrow> True | _ \<Rightarrow> False)
     else if kind = ''string'' then Some (case v of JStr _ \<Rightarrow> True | _ \<Rightarrow> False)
     else if kind = ''boolean'' then Some (case v of JBool _ \<Rightarrow> True | _ \<Rightarrow> False)
     else if kind = ''null'' then Some (v = JNull)
     else None)"

definition is_number :: "json \<Rightarrow> bool" where
  "is_number v \<longleftrightarrow> (case v of JInt _ \<Rightarrow> True | JFloat _ \<Rightarrow> True | JNonfinite _ \<Rightarrow> True | _ \<Rightarrow> False)"

definition same_class :: "json \<Rightarrow> json \<Rightarrow> bool" where
  "same_class a b \<longleftrightarrow>
    (case (a, b) of
       (JNull, JNull) \<Rightarrow> True | (JBool _, JBool _) \<Rightarrow> True | (JStr _, JStr _) \<Rightarrow> True | (JList _, JList _) \<Rightarrow> True
     | (JObj _, JObj _) \<Rightarrow> True | _ \<Rightarrow> False)"

definition equal_values :: "json \<Rightarrow> json \<Rightarrow> bool" where
  "equal_values a b = (if is_number a \<and> is_number b then python_equal a b else same_class a b \<and> python_equal a b)"

text \<open>\<^verbatim>\<open>len\<close> of a text: its code points, each of which has one byte that does not continue another in UTF-8.\<close>

definition text_length :: "string \<Rightarrow> nat" where
  "text_length s = length (filter (\<lambda>c. (of_char c :: nat) div 64 \<noteq> 2) s)"

subsection \<open>Patterns\<close>

text \<open>\<^verbatim>\<open>$\<close> outside a class and not escaped becomes \<^verbatim>\<open>\Z\<close>.\<close>

fun ecma_pattern :: "bool \<Rightarrow> bool \<Rightarrow> string \<Rightarrow> string" where
  "ecma_pattern escaped in_class [] = []"
| "ecma_pattern escaped in_class (c # s) =
    (if escaped \<or> c = CHR 0x5C then c # ecma_pattern (\<not> escaped) in_class s
     else if in_class then c # ecma_pattern escaped (c \<noteq> CHR '']'') s
     else if c = CHR ''['' then c # ecma_pattern escaped True s
     else if c = CHR ''$'' then CHR 0x5C # CHR ''Z'' # ecma_pattern escaped in_class s
     else c # ecma_pattern escaped in_class s)"

text \<open>Whether a pattern is one, and whether it is found in a text: \<^verbatim>\<open>re.compile(..., re.ASCII)\<close> and \<^verbatim>\<open>search\<close>.\<close>

type_synonym search = "string \<Rightarrow> (string \<Rightarrow> bool) option"

definition pattern_found :: "search \<Rightarrow> string \<Rightarrow> string \<Rightarrow> bool option" where
  "pattern_found re source v = map_option (\<lambda>found. found v) (re (ecma_pattern False False source))"

subsection \<open>The check\<close>

text \<open>\<open>None\<close> where the comparison raises: a bound that is no number.\<close>

definition outside_bound :: "string \<Rightarrow> obj \<Rightarrow> (stamp \<Rightarrow> bool) \<Rightarrow> bool option" where
  "outside_bound keyword schema broken =
    (if jhas keyword schema then map_option broken (number_of_json (jget keyword schema)) else Some False)"

definition names_of :: "json \<Rightarrow> string list option" where
  "names_of v = (case v of JList l \<Rightarrow> those (map as_str l) | _ \<Rightarrow> None)"

definition properties_of :: "obj \<Rightarrow> obj option" where
  "properties_of schema =
    (if jhas ''properties'' schema then (case jget ''properties'' schema of JObj ps \<Rightarrow> Some ps | _ \<Rightarrow> None) else Some [])"

text \<open>The keywords of one node that a value breaks, its type apart.\<close>

definition listed :: "(bool option \<times> string) list \<Rightarrow> string set option" where
  "listed bs = map_option (\<lambda>l. {k. (True, k) \<in> set l}) (those (map (\<lambda>(b, k). map_option (\<lambda>x. (x, k)) b) bs))"

definition choice_checks :: "json \<Rightarrow> obj \<Rightarrow> (bool option \<times> string) list" where
  "choice_checks v schema =
    [(if jhas ''enum'' schema
      then (case jget ''enum'' schema of JList l \<Rightarrow> Some (\<not> list_ex (equal_values v) l) | _ \<Rightarrow> None) else Some False, ''enum''),
     (Some (jhas ''const'' schema \<and> \<not> equal_values v (jget ''const'' schema)), ''const'')]"

definition shape_checks :: "search \<Rightarrow> json \<Rightarrow> obj \<Rightarrow> (bool option \<times> string) list" where
  "shape_checks re v schema =
    (case v of
       JObj ob \<Rightarrow>
         [(if jhas ''required'' schema
           then map_option (list_ex (\<lambda>n. \<not> jhas n ob)) (names_of (jget ''required'' schema)) else Some False, ''required''),
          (map_option (\<lambda>ps. jget ''additionalProperties'' schema = JBool False \<and> list_ex (\<lambda>(n, _). \<not> jhas n ps) ob) (properties_of schema),
           ''additionalProperties'')]
     | JList l \<Rightarrow>
         [(outside_bound ''minItems'' schema (\<lambda>b. later_than b (Finite (of_nat (length l)))), ''minItems''),
          (outside_bound ''maxItems'' schema (\<lambda>b. later_than (Finite (of_nat (length l))) b), ''maxItems'')]
     | JStr s \<Rightarrow>
         [(outside_bound ''minLength'' schema (\<lambda>b. later_than b (Finite (of_nat (text_length s)))), ''minLength''),
          (outside_bound ''maxLength'' schema (\<lambda>b. later_than (Finite (of_nat (text_length s))) b), ''maxLength''),
          (if jhas ''pattern'' schema
           then (case jget ''pattern'' schema of JStr p \<Rightarrow> map_option Not (pattern_found re p s) | _ \<Rightarrow> None) else Some False, ''pattern'')]
     | _ \<Rightarrow>
         if is_number v
         then [(outside_bound ''minimum'' schema (\<lambda>b. later_than b (the (number_of_json v))), ''minimum''),
               (outside_bound ''maximum'' schema (\<lambda>b. later_than (the (number_of_json v)) b), ''maximum'')]
         else [])"

text \<open>The parts of a value with the schemas that they have to follow.\<close>

definition parts_of :: "json \<Rightarrow> obj \<Rightarrow> (json \<times> json) list" where
  "parts_of v schema =
    (case v of
       JObj ob \<Rightarrow>
         (case properties_of schema of
            None \<Rightarrow> []
          | Some ps \<Rightarrow> List.map_filter (\<lambda>(n, item). map_option (Pair item) (map_of ps n)) ob)
     | JList l \<Rightarrow> if jhas ''items'' schema then map (\<lambda>item. (item, jget ''items'' schema)) l else []
     | _ \<Rightarrow> [])"

definition type_holds :: "json \<Rightarrow> obj \<Rightarrow> bool option" where
  "type_holds v schema =
    (if jhas ''type'' schema then (case jget ''type'' schema of JStr kind \<Rightarrow> is_kind v kind | _ \<Rightarrow> None) else Some True)"

lemma map_of_size: "map_of xs k = Some x \<Longrightarrow> size x < Suc (size_list (size_prod (\<lambda>_. 0) size) xs)"
  by (rule size_entry) (rule map_of_SomeD)

lemma jget_size: "jget n ob = x \<Longrightarrow> jhas n ob \<Longrightarrow> size x < size (JObj ob)"
  using map_of_size [of ob n x] by (auto simp: jget_def jhas_def split: option.splits)

lemma parts_size: "(w, s) \<in> set (parts_of v schema) \<Longrightarrow> size s < size (JObj schema)"
proof (cases v)
  case (JObj ob)
  assume a: "(w, s) \<in> set (parts_of v schema)"
  show ?thesis
  proof (cases "properties_of schema")
    case None
    with a show ?thesis by (simp add: parts_of_def JObj)
  next
    case (Some ps)
    with a obtain n where n: "map_of ps n = Some s" by (auto simp: parts_of_def JObj List.map_filter_def)
    show ?thesis
    proof (cases "jhas ''properties'' schema")
      case True
      with Some have "jget ''properties'' schema = JObj ps" by (auto simp: properties_of_def split: json.splits)
      from jget_size [OF this True] map_of_size [OF n] show ?thesis by simp
    next
      case False
      with Some n show ?thesis by (simp add: properties_of_def)
    qed
  qed
next
  case (JList l)
  assume "(w, s) \<in> set (parts_of v schema)"
  then show ?thesis using jget_size [of "''items''" schema s] by (auto simp: parts_of_def JList split: if_splits)
qed (simp_all add: parts_of_def)

function check_value :: "search \<Rightarrow> json \<Rightarrow> json \<Rightarrow> string set option" where
  "check_value re v schema =
    (case schema of
       JObj sc \<Rightarrow>
         Option.bind (type_holds v sc) (\<lambda>fits.
         if \<not> fits then Some {''type''}
         else Option.bind (listed (choice_checks v sc @ shape_checks re v sc)) (\<lambda>broken.
           map_option (\<lambda>found. broken \<union> \<Union> (set found)) (those (map (\<lambda>(w, s). check_value re w s) (parts_of v sc)))))
     | _ \<Rightarrow> None)"
  by pat_completeness auto

termination check_value
  by (relation "measure (\<lambda>(_, _, schema). size schema)") (auto dest: parts_size)

declare check_value.simps [simp del]

definition schema_problems :: "search \<Rightarrow> json \<Rightarrow> json \<Rightarrow> string set option" where
  "schema_problems re answer schema = check_value re answer schema"

subsection \<open>The copy\<close>

text \<open>Every schema inside a schema, itself included.\<close>

function nodes_of :: "json \<Rightarrow> obj list option" where
  "nodes_of schema =
    (case schema of
       JObj sc \<Rightarrow>
         Option.bind (properties_of sc) (\<lambda>ps.
         Option.bind (those (map (\<lambda>(n, s). nodes_of s) (if jhas ''properties'' sc then ps else []))) (\<lambda>inner.
         map_option (\<lambda>items. sc # concat inner @ items) (if jhas ''items'' sc then nodes_of (jget ''items'' sc) else Some [])))
     | _ \<Rightarrow> None)"
  by pat_completeness auto

lemma property_size:
  assumes "properties_of sc = Some ps" "(n, s) \<in> set (if jhas ''properties'' sc then ps else [])"
  shows "size s < size (JObj sc)"
proof -
  from assms have "jhas ''properties'' sc" "jget ''properties'' sc = JObj ps" "(n, s) \<in> set ps"
    by (auto simp: properties_of_def split: if_splits json.splits)
  from jget_size [OF this(2,1)] size_entry [OF this(3)] show ?thesis by simp
qed

termination nodes_of
  by (relation "measure size") (auto dest: property_size jget_size [OF refl] split: if_splits)

declare nodes_of.simps [simp del]

record bot_schema =
  bs_name :: string
  bs_path :: json
  bs_max_tokens :: json
  bs_memory :: bool
  bs_system :: json
  bs_user :: json
  bs_schema :: json

text \<open>A node that the check knows: the message of the \<^verbatim>\<open>ValueError\<close>, nothing, or another exception.\<close>

definition node_known :: "search \<Rightarrow> string \<Rightarrow> obj \<Rightarrow> (string + unit) option" where
  "node_known re name node =
    (let unknown = remdups (filter (\<lambda>k. k \<notin> set KEYWORDS) (map fst node))
     in if unknown \<noteq> [] then Some (Inl (name @ '': keywords the check does not know: '' @ join_with '', '' (sort unknown)))
        else if (jhas ''type'' node \<and> jget ''type'' node \<notin> JStr ` set TYPES) \<or>
          (jhas ''additionalProperties'' node \<and> \<not> list_ex (python_equal (jget ''additionalProperties'' node)) [JBool True, JBool False])
        then Some (Inl (name @ '': a type or additionalProperties the check does not know''))
        else case (if jhas ''pattern'' node then jget ''pattern'' node else JStr []) of
          JStr p \<Rightarrow> Some (case re (ecma_pattern False False p) of
              None \<Rightarrow> Inl (name @ '': a pattern that is not a regular expression'') | Some _ \<Rightarrow> Inr ())
        | _ \<Rightarrow> None)"

fun all_known :: "search \<Rightarrow> string \<Rightarrow> obj list \<Rightarrow> (string + unit) option" where
  "all_known re name [] = Some (Inr ())"
| "all_known re name (node # nodes) =
    Option.bind (node_known re name node) (\<lambda>r. case r of Inl e \<Rightarrow> Some (Inl e) | Inr _ \<Rightarrow> all_known re name nodes)"

definition load_schema :: "search \<Rightarrow> json \<Rightarrow> (string + bot_schema) option" where
  "load_schema re v =
    (case v of
       JObj e \<Rightarrow>
         (if list_all (\<lambda>k. jhas k e) [''schema'', ''name'', ''path'', ''bot_max_tokens'', ''purpose'', ''system'', ''user'']
          then (case jget ''name'' e of
              JStr name \<Rightarrow>
                Option.bind (nodes_of (jget ''schema'' e)) (\<lambda>nodes.
                map_option (map_sum id (\<lambda>_. \<lparr>bs_name = name, bs_path = jget ''path'' e, bs_max_tokens = jget ''bot_max_tokens'' e,
                    bs_memory = (jget ''purpose'' e = JStr ''memory''), bs_system = jget ''system'' e, bs_user = jget ''user'' e,
                    bs_schema = jget ''schema'' e\<rparr>)) (all_known re name nodes))
            | _ \<Rightarrow> None)
          else None)
     | _ \<Rightarrow> None)"

fun load_each :: "search \<Rightarrow> json list \<Rightarrow> (string + bot_schema list) option" where
  "load_each re [] = Some (Inr [])"
| "load_each re (v # vs) =
    Option.bind (load_schema re v) (\<lambda>r.
    case r of
      Inl e \<Rightarrow> Some (Inl e)
    | Inr b \<Rightarrow> map_option (map_sum id ((#) b)) (load_each re vs))"

definition load_schemas :: "search \<Rightarrow> json \<Rightarrow> (string + bot_schema list) option" where
  "load_schemas re copied =
    (case copied of
       JObj ob \<Rightarrow> (case jget ''schemas'' ob of JList l \<Rightarrow> load_each re l | _ \<Rightarrow> None)
     | _ \<Rightarrow> None)"

subsection \<open>What the check finds\<close>

text \<open>The pairs of a part and a schema that the check comes to: the parts of a value whose type holds.\<close>

inductive visits :: "json \<Rightarrow> json \<Rightarrow> json \<Rightarrow> json \<Rightarrow> bool" where
  visits_self: "visits v s v s"
| visits_part: "type_holds v sc = Some True \<Longrightarrow> (w, t) \<in> set (parts_of v sc) \<Longrightarrow> visits w t x u \<Longrightarrow> visits v (JObj sc) x u"

lemma visits_iff:
  "visits v (JObj sc) x u \<longleftrightarrow>
    x = v \<and> u = JObj sc \<or> type_holds v sc = Some True \<and> (\<exists>(w, t) \<in> set (parts_of v sc). visits w t x u)"
  by (subst visits.simps) auto

definition breaks :: "search \<Rightarrow> string \<Rightarrow> json \<Rightarrow> obj \<Rightarrow> bool" where
  "breaks re k v sc \<longleftrightarrow>
    (if k = ''type'' then type_holds v sc = Some False
     else type_holds v sc = Some True \<and> (Some True, k) \<in> set (choice_checks v sc @ shape_checks re v sc))"

lemma listed_in: "listed bs = Some found \<Longrightarrow> k \<in> found \<longleftrightarrow> (Some True, k) \<in> set bs"
proof -
  have "those (map (\<lambda>(b, k). map_option (\<lambda>x. (x, k)) b) bs) = Some l \<Longrightarrow> (True, k) \<in> set l \<longleftrightarrow> (Some True, k) \<in> set bs" for l
  proof (induction bs arbitrary: l)
    case (Cons b bs)
    then show ?case by (cases b) (auto split: option.splits)
  qed simp
  then show "listed bs = Some found \<Longrightarrow> k \<in> found \<longleftrightarrow> (Some True, k) \<in> set bs" by (auto simp: listed_def)
qed

lemma those_in: "those (map f xs) = Some ys \<Longrightarrow> y \<in> set ys \<longleftrightarrow> (\<exists>x \<in> set xs. f x = Some y)"
proof (induction xs arbitrary: ys)
  case (Cons x xs)
  then show ?case by (auto split: option.splits)
qed simp

lemma those_some: "those (map f xs) = Some ys \<Longrightarrow> x \<in> set xs \<Longrightarrow> \<exists>y. f x = Some y"
  by (induction xs arbitrary: ys) (auto split: option.splits)

lemma no_type_check: "(b, k) \<in> set (choice_checks v sc @ shape_checks re v sc) \<Longrightarrow> k \<in> set KEYWORDS \<and> k \<noteq> ''type''"
  by (cases v) (auto simp: choice_checks_def shape_checks_def KEYWORDS_def is_number_def)

text \<open>What the parts of a value contribute, once the check of each is known.\<close>

definition under :: "search \<Rightarrow> json \<Rightarrow> json \<Rightarrow> string set" where
  "under re v schema = {k. \<exists>w sc. visits v schema w (JObj sc) \<and> breaks re k w sc}"

lemma under_object:
  assumes "type_holds v sc = Some True"
  shows "k \<in> under re v (JObj sc) \<longleftrightarrow> breaks re k v sc \<or> (\<exists>(w, s) \<in> set (parts_of v sc). k \<in> under re w s)"
  using assms unfolding under_def visits_iff [of v sc] by (auto simp del: split_paired_Ex)

lemma under_wrong_type:
  assumes "type_holds v sc = Some False"
  shows "under re v (JObj sc) = {''type''}"
  using assms by (auto simp: under_def visits_iff breaks_def)

lemma parts_found:
  assumes "those (map (\<lambda>(w, s). check_value re w s) parts) = Some inner"
    and "\<And>w s g. (w, s) \<in> set parts \<Longrightarrow> check_value re w s = Some g \<Longrightarrow> g = under re w s"
  shows "k \<in> \<Union> (set inner) \<longleftrightarrow> (\<exists>(w, s) \<in> set parts. k \<in> under re w s)"
proof -
  have each: "check_value re w s = Some (under re w s)" if "(w, s) \<in> set parts" for w s
    using those_some [OF assms(1) that] assms(2) [OF that] by auto
  have "k \<in> \<Union> (set inner) \<longleftrightarrow> (\<exists>p \<in> set parts. \<exists>g. (case p of (w, s) \<Rightarrow> check_value re w s) = Some g \<and> k \<in> g)"
    using those_in [OF assms(1)] by blast
  also have "\<dots> \<longleftrightarrow> (\<exists>(w, s) \<in> set parts. k \<in> under re w s)"
    using each by (intro bex_cong refl) (simp add: case_prod_beta)
  finally show ?thesis .
qed

lemma check_is_under: "check_value re v schema = Some found \<Longrightarrow> found = under re v schema"
proof (induction re v schema arbitrary: found rule: check_value.induct)
  case (1 re v schema)
  obtain sc where sc: "schema = JObj sc" using 1(2) by (auto simp: check_value.simps [of re v schema] split: json.splits)
  note eq = check_value.simps [of re v "JObj sc", simplified json.case]
  obtain fits where fits: "type_holds v sc = Some fits"
    using 1(2) unfolding sc eq by (cases "type_holds v sc") simp_all
  show ?case
  proof (cases fits)
    case False
    with 1(2) fits show ?thesis unfolding sc eq by (simp add: under_wrong_type)
  next
    case True
    obtain broken inner where b: "listed (choice_checks v sc @ shape_checks re v sc) = Some broken"
      and i: "those (map (\<lambda>(w, s). check_value re w s) (parts_of v sc)) = Some inner" and f: "found = broken \<union> \<Union> (set inner)"
      using 1(2) fits True unfolding sc eq by (auto simp: bind_eq_Some_conv)
    have own: "k \<in> broken \<longleftrightarrow> breaks re k v sc" for k
      using listed_in [OF b] fits True no_type_check [of "Some True" k v sc re] by (auto simp: breaks_def)
    have inner: "k \<in> \<Union> (set inner) \<longleftrightarrow> (\<exists>(w, s) \<in> set (parts_of v sc). k \<in> under re w s)" for k
      by (rule parts_found [OF i]) (use 1(1) [OF sc fits _ b _ refl] True in simp)
    show ?thesis unfolding f sc using under_object [OF fits [unfolded eqTrueI [OF True]]]
      by (intro set_eqI) (simp only: Un_iff own inner)
  qed
qed


definition choice_schema :: json where
  "choice_schema = JObj [(''type'', JStr ''object''), (''required'', JList [JStr ''choices'']), (''additionalProperties'', JBool False),
     (''properties'', JObj [(''choices'', JObj [(''type'', JStr ''array''), (''minItems'', JInt 2),
        (''items'', JObj [(''type'', JStr ''string''), (''enum'', JList [JStr ''stay'', JStr ''go''])])])])]"

definition short_answer :: json where
  "short_answer = JObj [(''mood'', JNull), (''choices'', JList [JStr ''run''])]"

lemmas check_defs = check_value.simps type_holds_def jhas_def jget_def listed_def choice_checks_def shape_checks_def
  parts_of_def properties_of_def outside_bound_def names_of_def List.map_filter_def number_of_json_def equal_values_def
  same_class_def is_number_def

lemma short_answer_problems:
  "schema_problems (\<lambda>_. None) short_answer choice_schema = Some {''additionalProperties'', ''minItems'', ''enum''}"
  by (simp add: schema_problems_def choice_schema_def short_answer_def check_defs python_equal.simps) auto


end
