(* ===== verification/Smoke_Stream.thy ===== *)
theory Smoke_Stream
  imports Bot_Schemas Relay_Stream Asgi_Exchange
begin

text \<open>
  What the smoke reads of the gateway, the first half of \<^verbatim>\<open>simple_serving/smoke.py\<close>: an error body, an answer in JSON, a
  stream of events with the rules of contract section 4 that it breaks, the card's report, and the line that a part of a
  probe prints. \<^verbatim>\<open>json.loads\<close> is an argument, \<open>None\<close> where it raises a \<^verbatim>\<open>ValueError\<close>; what a request meets is a reply with the
  pieces of its body and how it ends. The reader of a stream is composed with the gateway's relay at the end.
\<close>

definition SMOKE_BYTES :: nat where "SMOKE_BYTES = 16384"
definition STREAM_BYTES :: nat where "STREAM_BYTES = 2000000"
definition TEXT_CHARS :: nat where "TEXT_CHARS = 100000"

subsection \<open>Answers\<close>

definition error_name :: "json option \<Rightarrow> string" where
  "error_name data =
    (case data of
       Some (JObj ob) \<Rightarrow>
         (case jget ''error'' ob of
            JObj e \<Rightarrow> (case jget ''code'' e of JStr c \<Rightarrow> if c \<in> code_name ` set all_codes then c else ''error'' | _ \<Rightarrow> ''error'')
          | _ \<Rightarrow> ''error'')
     | _ \<Rightarrow> ''error'')"

definition is_count_value :: "json \<Rightarrow> bool" where
  "is_count_value v = (case v of JInt n \<Rightarrow> 0 \<le> n | _ \<Rightarrow> False)"

record smoke_answer =
  sa_status :: int
  sa_data :: "json option"

definition answer_code :: "smoke_answer \<Rightarrow> string option" where
  "answer_code a = (if 200 \<le> sa_status a \<and> sa_status a < 300 then None else Some (error_name (sa_data a)))"

definition answer_field :: "string \<Rightarrow> smoke_answer \<Rightarrow> json" where
  "answer_field name a = (case sa_data a of Some (JObj ob) \<Rightarrow> jget name ob | _ \<Rightarrow> JNull)"

text \<open>The reply to a request: its status, the header \<^verbatim>\<open>content-type\<close>, the pieces of its body, and whether httpx fails after them.\<close>

record smoke_reply =
  sr_status :: int
  sr_type :: string
  sr_pieces :: "string list"
  sr_end :: body_end

text \<open>An exception of httpx is \<open>None\<close> outside, and a body that is too long or no JSON is \<open>Some None\<close>.\<close>

fun read_json :: "loads \<Rightarrow> string \<Rightarrow> string list \<Rightarrow> body_end \<Rightarrow> json option option" where
  "read_json loads data [] Body_ends = Some (loads data)"
| "read_json loads data [] Body_fails = None"
| "read_json loads data (piece # pieces) e =
    (if length (data @ piece) > SMOKE_BYTES then Some None else read_json loads (data @ piece) pieces e)"

definition reply_answer :: "loads \<Rightarrow> smoke_reply \<Rightarrow> smoke_answer option" where
  "reply_answer loads r =
    map_option (\<lambda>v. \<lparr>sa_status = sr_status r, sa_data = v\<rparr>) (read_json loads [] (sr_pieces r) (sr_end r))"

subsection \<open>Streams\<close>

record stream_read =
  rs_status :: int
  rs_code :: "string option"
  rs_chunks :: nat
  rs_content :: string
  rs_reasoning :: string
  rs_finish :: "string option"
  rs_usage :: "obj option"
  rs_done :: bool
  rs_broken :: "string list"

definition new_stream :: "int \<Rightarrow> stream_read" where
  "new_stream status =
    \<lparr>rs_status = status, rs_code = None, rs_chunks = 0, rs_content = [], rs_reasoning = [], rs_finish = None,
     rs_usage = None, rs_done = False, rs_broken = []\<rparr>"

definition passes_whole :: "stream_read \<Rightarrow> bool" where
  "passes_whole s \<longleftrightarrow> rs_status s = 200 \<and> rs_code s = None \<and> rs_done s \<and> rs_broken s = []"

definition fail :: "string \<Rightarrow> stream_read \<Rightarrow> stream_read" where
  "fail rule s = (if rule \<in> set (rs_broken s) then s else s\<lparr>rs_broken := rs_broken s @ [rule]\<rparr>)"

definition same_keys :: "string list \<Rightarrow> obj \<Rightarrow> bool" where
  "same_keys ks ob \<longleftrightarrow> set (map fst ob) = set ks"

definition usage_shaped :: "json \<Rightarrow> bool" where
  "usage_shaped v =
    (case v of
       JObj u \<Rightarrow>
         set (map fst u) \<subseteq> {''prompt_tokens'', ''completion_tokens'', ''prompt_tokens_details'', ''simple_serving''} \<and>
         is_count_value (jget ''prompt_tokens'' u) \<and> jget ''prompt_tokens'' u \<noteq> JInt 0 \<and>
         is_count_value (jget ''completion_tokens'' u) \<and>
         (case jget_or ''prompt_tokens_details'' (JObj [(''cached_tokens'', JInt 0)]) u of
            JObj d \<Rightarrow> same_keys [''cached_tokens''] d \<and> is_count_value (jget ''cached_tokens'' d)
          | _ \<Rightarrow> False) \<and>
         (case jget ''simple_serving'' u of
            JObj m \<Rightarrow> same_keys [''wait_ms'', ''first_token_ms'', ''total_ms''] m \<and> list_all (\<lambda>(_, x). is_count_value x) m
          | _ \<Rightarrow> False)
     | _ \<Rightarrow> False)"

definition delta_shaped :: "obj \<Rightarrow> bool" where
  "delta_shaped d \<longleftrightarrow>
    length d \<le> 1 \<and> set (map fst d) \<subseteq> {''role'', ''content'', ''reasoning_content''} \<and>
    jget_or ''role'' (JStr ''assistant'') d = JStr ''assistant'' \<and>
    list_all (\<lambda>(n, v). n = ''role'' \<or> as_str v \<noteq> None) d"

definition take_choice :: "json \<Rightarrow> stream_read \<Rightarrow> stream_read" where
  "take_choice choice s =
    (case choice of
       JObj c \<Rightarrow>
         if jget ''index'' c \<noteq> JInt 0 then fail ''choices'' s
         else (case jget ''delta'' c of
             JObj d \<Rightarrow>
               if \<not> delta_shaped d then fail ''delta'' s
               else if rs_finish s \<noteq> None then fail ''after_finish'' s
               else
                 let s1 = s\<lparr>rs_content := rs_content s @ text_field ''content'' d,
                            rs_reasoning := rs_reasoning s @ text_field ''reasoning_content'' d\<rparr>;
                     s2 = (if text_length (rs_content s1) + text_length (rs_reasoning s1) > TEXT_CHARS
                           then fail ''too_long'' s1 else s1)
                 in (case jget ''finish_reason'' c of
                       JNull \<Rightarrow> s2
                     | JStr r \<Rightarrow> if r \<in> set FINISH_REASONS then s2\<lparr>rs_finish := Some r\<rparr> else fail ''finish'' s2
                     | _ \<Rightarrow> fail ''finish'' s2)
           | _ \<Rightarrow> fail ''delta'' s)
     | _ \<Rightarrow> fail ''choices'' s)"

definition take_chunk :: "string \<Rightarrow> obj \<Rightarrow> stream_read \<Rightarrow> stream_read" where
  "take_chunk alias ev s0 =
    (let s1 = s0\<lparr>rs_chunks := rs_chunks s0 + 1\<rparr>;
         s2 = (if jget ''object'' ev \<noteq> JStr CHUNK_OBJECT then fail ''object'' s1 else s1);
         s3 = (if jget ''model'' ev \<noteq> JStr alias then fail ''model'' s2 else s2);
         s = (if rs_usage s3 \<noteq> None then fail ''after_usage'' s3 else s3)
     in case jget ''choices'' ev of
          JList l \<Rightarrow>
            if 1 < length l then fail ''choices'' s
            else if jget ''usage'' ev \<noteq> JNull
            then let s4 = (if l \<noteq> [] \<or> rs_finish s = None then fail ''usage_chunk'' s else s)
                 in (if usage_shaped (jget ''usage'' ev) then s4\<lparr>rs_usage := as_obj (jget ''usage'' ev)\<rparr> else fail ''usage_fields'' s4)
            else (case l of [] \<Rightarrow> s | c # _ \<Rightarrow> take_choice c s)
        | _ \<Rightarrow> fail ''choices'' s)"

definition take_event :: "loads \<Rightarrow> string \<Rightarrow> string \<Rightarrow> stream_read \<Rightarrow> stream_read" where
  "take_event loads alias data s =
    (if rs_done s \<or> rs_code s \<noteq> None then fail ''after_end'' s
     else if data = ''[DONE]'' then s\<lparr>rs_done := True\<rparr>
     else (case loads data of
         Some (JObj ev) \<Rightarrow>
           if jhas ''error'' ev then s\<lparr>rs_code := Some (error_name (Some (JObj ev)))\<rparr> else take_chunk alias ev s
       | _ \<Rightarrow> fail ''json'' s))"

definition end_stream_checks :: "stream_read \<Rightarrow> stream_read" where
  "end_stream_checks s =
    (let s1 = (if rs_code s = None \<and> \<not> rs_done s then fail ''done'' s else s)
     in if rs_done s1 \<and> (rs_finish s1 = None \<or> rs_usage s1 = None)
        then fail (if rs_finish s1 = None then ''finish'' else ''usage'') s1 else s1)"

text \<open>The lines of a piece; \<open>data\<close> are those of the event that is read.\<close>

fun take_lines :: "loads \<Rightarrow> string \<Rightarrow> string list \<Rightarrow> stream_read \<times> string list \<Rightarrow> stream_read \<times> string list" where
  "take_lines loads alias [] (s, data) = (s, data)"
| "take_lines loads alias (line # ls) (s, data) =
    (if starts_with line ''data: '' then take_lines loads alias ls (s, data @ [drop 6 line])
     else if line \<noteq> [] then take_lines loads alias ls (fail ''event_form'' s, data)
     else if data \<noteq> [] then take_lines loads alias ls (take_event loads alias (join_with [newline] data) s, [])
     else take_lines loads alias ls (s, data))"

fun take_pieces :: "loads \<Rightarrow> string \<Rightarrow> nat \<Rightarrow> string \<Rightarrow> string list \<Rightarrow> body_end \<Rightarrow> stream_read \<times> string list \<Rightarrow> stream_read" where
  "take_pieces loads alias count pending [] e (s, data) =
    (let s1 = (if e = Body_fails then fail ''connection'' s else s);
         s2 = (if pending \<noteq> [] \<or> data \<noteq> [] then fail ''event_form'' s1 else s1)
     in end_stream_checks s2)"
| "take_pieces loads alias count pending (piece # pieces) e (s, data) =
    (if count + length piece > STREAM_BYTES then fail ''too_long'' s
     else let ps = split_on newline (pending @ piece)
       in take_pieces loads alias (count + length piece) (last ps) pieces e (take_lines loads alias (butlast ps) (s, data)))"

definition read_stream :: "loads \<Rightarrow> string \<Rightarrow> smoke_reply \<Rightarrow> stream_read option" where
  "read_stream loads alias r =
    (let s = new_stream (sr_status r)
     in if sr_status r \<noteq> 200
        then map_option (\<lambda>v. s\<lparr>rs_code := Some (error_name v)\<rparr>) (read_json loads [] (sr_pieces r) (sr_end r))
        else Some (take_pieces loads alias 0 [] (sr_pieces r) (sr_end r)
          (if hd (split_on (CHR '';'') (sr_type r)) \<noteq> ''text/event-stream'' then fail ''content_type'' s else s, [])))"

subsection \<open>How the connection cuts a stream\<close>

lemma take_lines_append: "take_lines loads alias (ls @ ms) sd = take_lines loads alias ms (take_lines loads alias ls sd)"
  by (induction loads "alias" ls sd rule: take_lines.induct) auto

definition read_whole :: "loads \<Rightarrow> string \<Rightarrow> string \<Rightarrow> body_end \<Rightarrow> stream_read \<times> string list \<Rightarrow> stream_read" where
  "read_whole loads alias body e sd =
    (let ps = split_on newline body; (s, data) = take_lines loads alias (butlast ps) sd;
         s1 = (if e = Body_fails then fail ''connection'' s else s);
         s2 = (if last ps \<noteq> [] \<or> data \<noteq> [] then fail ''event_form'' s1 else s1)
     in end_stream_checks s2)"

lemma take_pieces_whole:
  assumes "newline \<notin> set pending" and "count + length (concat pieces) \<le> STREAM_BYTES"
  shows "take_pieces loads alias count pending pieces e sd = read_whole loads alias (pending @ concat pieces) e sd"
  using assms
proof (induction pieces arbitrary: count pending sd)
  case Nil
  then show ?case by (cases sd) (simp add: read_whole_def split_on_join(2) Let_def)
next
  case (Cons piece pieces)
  obtain s data where sd: "sd = (s, data)" by (cases sd)
  let ?ps = "split_on newline (pending @ piece)"
  have eq: "split_on newline (pending @ concat (piece # pieces)) = butlast ?ps @ split_on newline (last ?ps @ concat pieces)"
    using split_on_append [of newline "pending @ piece" "concat pieces"] by simp
  have "take_pieces loads alias count pending (piece # pieces) e sd =
      read_whole loads alias (last ?ps @ concat pieces) e (take_lines loads alias (butlast ?ps) sd)"
    using Cons.IH [OF split_on_last, of "count + length piece"] Cons.prems(2) by (simp add: sd Let_def)
  also have "\<dots> = read_whole loads alias (pending @ concat (piece # pieces)) e sd"
    unfolding read_whole_def Let_def eq by (simp add: butlast_append take_lines_append)
  finally show ?case .
qed

subsection \<open>The gateway's stream\<close>

text \<open>The body of a generation that ends well, as \<^verbatim>\<open>_relay\<close> and \<^verbatim>\<open>answer\<close> send it.\<close>

definition generation_texts :: "(rat \<Rightarrow> string) \<Rightarrow> json list \<Rightarrow> json \<Rightarrow> string list" where
  "generation_texts repr sent usage = map (dumps_compact repr) (sent @ [usage]) @ [''[DONE]'']"

lemma take_event_lines:
  assumes "list_all one_line ts"
  shows "take_lines loads alias (concat (map (\<lambda>t. [''data: '' @ t, []]) ts)) (s, []) = (fold (take_event loads alias) ts s, [])"
  by (induction ts arbitrary: s) (simp_all add: starts_with_def)

lemma read_events:
  assumes "list_all one_line ts"
  shows "read_whole loads alias (concat (map event_text ts)) Body_ends (s, []) =
    end_stream_checks (fold (take_event loads alias) ts s)"
  unfolding read_whole_def Let_def events_split [OF assms] using take_event_lines [OF assms]
  by (simp add: butlast_append)

definition reading :: "stream_read \<Rightarrow> bool" where
  "reading s \<longleftrightarrow> rs_status s = 200 \<and> rs_code s = None \<and> rs_finish s = None \<and> rs_usage s = None \<and> \<not> rs_done s \<and> rs_broken s = []"

definition chunk_head :: "string \<Rightarrow> string \<Rightarrow> int \<Rightarrow> obj" where
  "chunk_head alias token now = tr_head (new_translator alias token now)"

lemma text_length_append [simp]: "text_length (a @ b) = text_length a + text_length b"
  by (simp add: text_length_def)

lemma text_length_Nil [simp]: "text_length [] = 0"
  by (simp add: text_length_def)

lemma good_delta_shaped: "good_delta d \<Longrightarrow> delta_shaped d"
  by (auto simp: good_delta_def delta_shaped_def jget_or_def)

lemma chunk_facts:
  assumes "chunk_of (chunk_head alias token now) f d = JObj ob"
  shows "jget ''object'' ob = JStr CHUNK_OBJECT" "jget ''model'' ob = JStr alias" "jget ''usage'' ob = JNull"
    "jget ''choices'' ob = JList [JObj [(''index'', JInt 0), (''delta'', JObj d), (''finish_reason'', f)]]"
    "\<not> jhas ''error'' ob"
  using assms by (auto simp: chunk_of_def chunk_head_def new_translator_def puts_def jput_def jget_def jhas_def)


definition extended :: "json \<Rightarrow> obj \<Rightarrow> stream_read \<Rightarrow> stream_read" where
  "extended f d s =
    s\<lparr>rs_chunks := rs_chunks s + 1, rs_content := rs_content s @ text_field ''content'' d,
      rs_reasoning := rs_reasoning s @ text_field ''reasoning_content'' d, rs_finish := as_str f\<rparr>"

lemma take_good_chunk:
  assumes "reading s" and "good_delta d" and "f = JNull \<or> f \<in> JStr ` set FINISH_REASONS"
    and "text_length (rs_content s @ text_field ''content'' d) + text_length (rs_reasoning s @ text_field ''reasoning_content'' d) \<le> TEXT_CHARS"
    and "chunk_of (chunk_head alias token now) f d = JObj ob"
  shows "take_chunk alias ob s = extended f d s"
proof -
  have c: "take_choice (JObj [(''index'', JInt 0), (''delta'', JObj d), (''finish_reason'', f)]) t = extended f d s"
    if "t = s\<lparr>rs_chunks := rs_chunks s + 1\<rparr>" for t
    using assms(1,3,4) good_delta_shaped [OF assms(2)] unfolding that
    by (auto simp: take_choice_def jget_def reading_def extended_def Let_def)
  show ?thesis unfolding take_chunk_def Let_def chunk_facts(1-4) [OF assms(5)]
    using c assms(1) by (simp add: reading_def)
qed

lemma dumped_event:
  assumes "loads (dumps_compact repr (JObj ob)) = Some (JObj ob)" and "\<not> jhas ''error'' ob" and "\<not> rs_done s" and "rs_code s = None"
  shows "take_event loads alias (dumps_compact repr (JObj ob)) s = take_chunk alias ob s"
proof -
  have "dumps_compact repr (JObj ob) \<noteq> ''[DONE]''" by (simp add: dumps_compact_def)
  with assms show ?thesis by (simp add: take_event_def)
qed

lemma take_good_event:
  assumes "reading s" and "good_chunk (chunk_head alias token now) last_one c" and "loads (dumps_compact repr c) = Some c"
    and "text_length (rs_content s @ sent_text ''content'' c) + text_length (rs_reasoning s @ sent_text ''reasoning_content'' c) \<le> TEXT_CHARS"
  obtains s1 where "take_event loads alias (dumps_compact repr c) s = s1"
    "rs_content s1 = rs_content s @ sent_text ''content'' c" "rs_reasoning s1 = rs_reasoning s @ sent_text ''reasoning_content'' c"
    "if last_one then rs_finish s1 \<noteq> None \<and> reading (s1\<lparr>rs_finish := None\<rparr>) else reading s1"
proof -
  obtain f d where c: "c = chunk_of (chunk_head alias token now) f d" and d: "good_delta d"
    and f: "if last_one then f \<in> JStr ` set FINISH_REASONS else f = JNull"
    using assms(2) by (auto simp: good_chunk_def)
  obtain ob where ob: "chunk_of (chunk_head alias token now) f d = JObj ob" by (simp add: chunk_of_def)
  have h: "good_head (chunk_head alias token now)" by (simp add: chunk_head_def new_translator_def good_head_def jhas_def)
  have t: "sent_text n c = text_field n d" for n unfolding c by (rule sent_text_chunk [OF h])
  have f': "f = JNull \<or> f \<in> JStr ` set FINISH_REASONS" using f by (auto split: if_splits)
  have "take_event loads alias (dumps_compact repr c) s = take_chunk alias ob s"
    using dumped_event [of loads repr ob s "alias"] assms(1,3) chunk_facts(5) [OF ob] unfolding c ob by (simp add: reading_def)
  also have "\<dots> = extended f d s"
    by (rule take_good_chunk [OF assms(1) d f' _ ob]) (use assms(4) in \<open>simp add: t\<close>)
  finally have e: "take_event loads alias (dumps_compact repr c) s = extended f d s" .
  show thesis
    by (rule that [OF e]) (use f assms(1) in \<open>auto simp: extended_def t reading_def\<close>)
qed


lemma take_good_events:
  assumes "reading s" and "sent \<noteq> []" and "list_all (good_chunk (chunk_head alias token now) False) (butlast sent)"
    and "good_chunk (chunk_head alias token now) True (last sent)" and "\<forall>c \<in> set sent. loads (dumps_compact repr c) = Some c"
    and "text_length (rs_content s @ concat (map (sent_text ''content'') sent)) +
      text_length (rs_reasoning s @ concat (map (sent_text ''reasoning_content'') sent)) \<le> TEXT_CHARS"
  obtains s1 where "fold (take_event loads alias) (map (dumps_compact repr) sent) s = s1"
    "rs_content s1 = rs_content s @ concat (map (sent_text ''content'') sent)"
    "rs_reasoning s1 = rs_reasoning s @ concat (map (sent_text ''reasoning_content'') sent)"
    "rs_finish s1 \<noteq> None" "reading (s1\<lparr>rs_finish := None\<rparr>)"
  using assms
proof (induction sent arbitrary: s thesis)
  case (Cons c cs)
  have g: "good_chunk (chunk_head alias token now) (cs = []) c" using Cons.prems(4,5) by (cases cs) auto
  obtain s1 where e: "take_event loads alias (dumps_compact repr c) s = s1"
    and t: "rs_content s1 = rs_content s @ sent_text ''content'' c" "rs_reasoning s1 = rs_reasoning s @ sent_text ''reasoning_content'' c"
    and r: "if cs = [] then rs_finish s1 \<noteq> None \<and> reading (s1\<lparr>rs_finish := None\<rparr>) else reading s1"
    by (rule take_good_event [OF Cons.prems(2) g, of loads repr]) (use Cons.prems(6,7) in auto)
  show ?case
  proof (cases cs)
    case Nil
    show thesis by (rule Cons.prems(1) [of s1]) (use e t r Nil in simp_all)
  next
    case (Cons c' cs')
    have r1: "reading s1" using r Cons by simp
    show thesis
    proof (rule Cons.IH [OF _ r1])
      show "cs \<noteq> []" "list_all (good_chunk (chunk_head alias token now) False) (butlast cs)" "good_chunk (chunk_head alias token now) True (last cs)"
        "\<forall>c \<in> set cs. loads (dumps_compact repr c) = Some c" using Cons.prems(4-6) Cons by auto
      show "text_length (rs_content s1 @ concat (map (sent_text ''content'') cs)) +
          text_length (rs_reasoning s1 @ concat (map (sent_text ''reasoning_content'') cs)) \<le> TEXT_CHARS"
        using Cons.prems(7) t by simp
    qed (use Cons.prems(1) e t in auto)
  qed
qed simp

subsection \<open>The usage at the end\<close>

definition counts_fine :: "usage option \<Rightarrow> bool" where
  "counts_fine u \<longleftrightarrow> (case u of None \<Rightarrow> True | Some x \<Rightarrow> 0 \<le> u_prompt x \<and> 0 \<le> u_completion x \<and> (\<forall>n \<in> set_option (u_cached x). 0 \<le> n))"

lemma as_count_nonneg: "as_count v = Some n \<Longrightarrow> 0 \<le> n"
  by (auto simp: as_count_def split: json.splits if_splits)

lemma usage_counts: "usage_of v = Inr u \<Longrightarrow> counts_fine (Some u)"
proof -
  assume a: "usage_of v = Inr u"
  obtain ob details where r: "(case (as_count (jget ''prompt_tokens'' ob), as_count (jget ''completion_tokens'' ob)) of
         (Some p, Some c) \<Rightarrow>
           if jget ''cached_tokens'' details = JNull then Inr \<lparr>u_prompt = p, u_completion = c, u_cached = None\<rparr>
           else (case as_count (jget ''cached_tokens'' details) of None \<Rightarrow> broken
             | Some n \<Rightarrow> Inr \<lparr>u_prompt = p, u_completion = c, u_cached = Some n\<rparr>)
       | _ \<Rightarrow> broken) = Inr u"
    using a unfolding usage_of_def Let_def by (auto simp del: andthen_Inr_iff elim!: andthenE)
  then show ?thesis
    by (cases "as_count (jget ''prompt_tokens'' ob)"; cases "as_count (jget ''completion_tokens'' ob)";
        cases "as_count (jget ''cached_tokens'' details)")
      (auto simp: counts_fine_def broken_def dest: as_count_nonneg split: if_splits)
qed

lemma choice_usage: "choice_chunks tr c = Inr (cs, tr1) \<Longrightarrow> tr_usage tr1 = tr_usage tr"
  by (auto simp: choice_chunks_def Let_def broken_def split: if_splits option.splits)

lemma tr_chunks_usage: "tr_chunks tr ev = Inr (cs, tr1) \<Longrightarrow> counts_fine (tr_usage tr) \<Longrightarrow> counts_fine (tr_usage tr1)"
proof -
  assume a: "tr_chunks tr ev = Inr (cs, tr1)" "counts_fine (tr_usage tr)"
  obtain tr0 where u: "(if jget ''usage'' ev = JNull then Inr tr
         else andthen (usage_of (jget ''usage'' ev)) (\<lambda>u. Inr (tr\<lparr>tr_usage := Some u\<rparr>))) = Inr tr0"
    and r: "(case jget ''choices'' ev of JList [] \<Rightarrow> Inr ([], tr0) | JList [c] \<Rightarrow> choice_chunks tr0 c | _ \<Rightarrow> broken) = Inr (cs, tr1)"
    using a(1) unfolding tr_chunks_def by (auto simp: broken_def simp del: andthen_Inr_iff elim: andthenE split: if_splits)
  have "counts_fine (tr_usage tr0)" using u a(2) by (auto split: if_splits dest: usage_counts)
  moreover have "tr_usage tr1 = tr_usage tr0"
    using r by (auto simp: broken_def dest: choice_usage split: json.splits list.splits)
  ultimately show ?thesis by simp
qed

lemma relay_loop_usage:
  "relay_loop tr evs e = (sent, Inr (tr1, u)) \<Longrightarrow> counts_fine (tr_usage tr) \<Longrightarrow> counts_fine (Some u)"
proof (induction evs arbitrary: tr sent)
  case Nil
  then show ?case by (auto simp: stream_end_def broken_def split: option.splits)
next
  case (Cons ev evs)
  from Cons.prems(1) obtain cs tr0 where c: "tr_chunks tr ev = Inr (cs, tr0)" by (cases "tr_chunks tr ev") auto
  with Cons.prems(1) obtain sent' where "relay_loop tr0 evs e = (sent', Inr (tr1, u))" by (auto split: prod.splits)
  from Cons.IH [OF this tr_chunks_usage [OF c Cons.prems(2)]] show ?case .
qed

definition times_shaped :: "obj \<Rightarrow> bool" where
  "times_shaped m \<longleftrightarrow> (\<exists>a b c. 0 \<le> a \<and> 0 \<le> b \<and> 0 \<le> c \<and> m = [(''wait_ms'', JInt a), (''first_token_ms'', JInt b), (''total_ms'', JInt c)])"

lemma measure_times_shaped:
  assumes "\<forall>m \<in> set_option handed \<union> set_option first. accepted \<le> m" and "accepted \<le> finish"
  shows "times_shaped (measure_times accepted handed first finish)"
proof -
  have "accepted \<le> m \<Longrightarrow> 0 \<le> ms_since accepted m" for m by (simp add: ms_since_def)
  with assms show ?thesis by (auto simp: times_shaped_def measure_times_def Let_def split: option.split)
qed

definition usage_body :: "usage \<Rightarrow> obj \<Rightarrow> obj" where
  "usage_body u m =
    [(''prompt_tokens'', JInt (u_prompt u)), (''completion_tokens'', JInt (u_completion u))] @
    (case u_cached u of None \<Rightarrow> [] | Some n \<Rightarrow> [(''prompt_tokens_details'', JObj [(''cached_tokens'', JInt n)])]) @
    [(''simple_serving'', JObj m)]"

lemma usage_body_shaped:
  assumes "counts_fine (Some u)" and "0 < u_prompt u" and "times_shaped m"
  shows "usage_shaped (JObj (usage_body u m))"
  using assms
  by (auto simp: usage_body_def usage_shaped_def counts_fine_def times_shaped_def jget_def jget_or_def is_count_value_def same_keys_def
      split: option.splits)

lemma usage_chunk_facts:
  assumes "usage_chunk tr u m = JObj ob" and "tr_head tr = chunk_head alias token now"
  shows "jget ''object'' ob = JStr CHUNK_OBJECT" "jget ''model'' ob = JStr alias" "jget ''choices'' ob = JList []"
    "jget ''usage'' ob = JObj (usage_body u m)" "\<not> jhas ''error'' ob"
  using assms by (auto simp: usage_chunk_def usage_body_def chunk_head_def new_translator_def puts_def jput_def jget_def jhas_def)

lemma take_usage_chunk:
  assumes "reading (s\<lparr>rs_finish := None\<rparr>)" and "rs_finish s \<noteq> None" and "tr_head tr = chunk_head alias token now"
    and "usage_shaped (JObj (usage_body u m))" and "loads (dumps_compact repr (usage_chunk tr u m)) = Some (usage_chunk tr u m)"
  shows "take_event loads alias (dumps_compact repr (usage_chunk tr u m)) s =
    s\<lparr>rs_chunks := rs_chunks s + 1, rs_usage := Some (usage_body u m)\<rparr>"
proof -
  obtain ob where ob: "usage_chunk tr u m = JObj ob" by (simp add: usage_chunk_def)
  note f = usage_chunk_facts [OF ob assms(3)]
  have "take_event loads alias (dumps_compact repr (JObj ob)) s = take_chunk alias ob s"
    using assms(1,5) f(5) unfolding ob by (intro dumped_event) (simp_all add: reading_def)
  also have "\<dots> = s\<lparr>rs_chunks := rs_chunks s + 1, rs_usage := Some (usage_body u m)\<rparr>"
    using assms(1,2,4) unfolding take_chunk_def Let_def f by (auto simp: reading_def)
  finally show ?thesis unfolding ob .
qed


lemma head_one_line:
  "one_line (dumps_compact repr (chunk_of (chunk_head alias token now) f d))"
  if "f = JNull \<or> f \<in> JStr ` set FINISH_REASONS" and "good_delta d"
proof -
  have "one_line (dumps repr '','' '':'' f)" "one_line (dumps repr '','' '':'' (JObj d))"
    using that by (auto simp: good_delta_def)
  then show ?thesis
    by (simp add: dumps_compact_def chunk_of_def chunk_head_def new_translator_def puts_def jput_def jhas_def)
qed

lemma good_chunk_one_line: "good_chunk (chunk_head alias token now) b c \<Longrightarrow> one_line (dumps_compact repr c)"
  by (auto simp: good_chunk_def intro!: head_one_line split: if_splits)

lemma usage_one_line:
  assumes "tr_head tr = chunk_head alias token now" and "times_shaped m"
  shows "one_line (dumps_compact repr (usage_chunk tr u m))"
proof -
  obtain a b c where m: "m = [(''wait_ms'', JInt a), (''first_token_ms'', JInt b), (''total_ms'', JInt c)]"
    using assms(2) by (auto simp: times_shaped_def)
  show ?thesis
    by (cases "u_cached u")
      (simp_all add: dumps_compact_def usage_chunk_def assms(1) m chunk_head_def new_translator_def puts_def jput_def jhas_def)
qed

text \<open>
  C14: A generation that the gateway relays to its end is one that the smoke accepts. Whatever events vLLM sent and
  however the connection cuts the body into pieces, the smoke finds no rule of the contract broken, a finish, the
  usage with the counts of vLLM, and the texts of vLLM, unless the texts or the body are beyond its limits. JSON is
  read as it was written.
\<close>

theorem smoke_accepts_relay:
  assumes "relay (new_translator alias token now) evs e = (True, sent, Inr (tr, u))" and "0 < u_prompt u"
    and "m = measure_times accepted handed first finish" and "\<forall>t \<in> set_option handed \<union> set_option first. accepted \<le> t" and "accepted \<le> finish"
    and "\<forall>c \<in> set (sent @ [usage_chunk tr u m]). loads (dumps_compact repr c) = Some c"
    and "concat pieces = concat (map event_text (generation_texts repr sent (usage_chunk tr u m)))"
    and "length (concat pieces) \<le> STREAM_BYTES"
    and "text_length (concat (map engine_text evs)) + text_length (concat (map engine_reasoning evs)) \<le> TEXT_CHARS"
  shows "\<exists>s. read_stream loads alias \<lparr>sr_status = 200, sr_type = ''text/event-stream'', sr_pieces = pieces, sr_end = Body_ends\<rparr> = Some s \<and>
    passes_whole s \<and> rs_content s = concat (map engine_text evs) \<and> rs_reasoning s = concat (map engine_reasoning evs) \<and>
    rs_finish s \<noteq> None \<and> rs_usage s = Some (usage_body u m)"
proof -
  let ?tr = "new_translator alias token now" and ?use = "usage_chunk tr u m"
  have loop: "relay_loop ?tr evs e = (sent, Inr (tr, u))"
    using assms(1) by (auto simp: relay_def split: list.splits if_splits sum.splits)
  have h: "good_head (tr_head ?tr)" "tr_finish ?tr = None" by (simp_all add: new_translator_def good_head_def jhas_def)
  have r: "concat (map (sent_text ''content'') sent) = concat (map engine_text evs)"
    "concat (map (sent_text ''reasoning_content'') sent) = concat (map engine_reasoning evs)"
    "sent \<noteq> []" "list_all (good_chunk (chunk_head alias token now) False) (butlast sent)"
    "good_chunk (chunk_head alias token now) True (last sent)" "tr_head tr = chunk_head alias token now"
    using relay_loop_Inr [OF loop h(1)] h(2) by (simp_all add: chunk_head_def same_texts_def chunks_ok_def)
  have m: "times_shaped m" unfolding assms(3) by (rule measure_times_shaped) (use assms(4,5) in auto)
  from relay_loop_usage [OF loop] have "counts_fine (Some u)" by (simp add: new_translator_def counts_fine_def)
  then have shaped: "usage_shaped (JObj (usage_body u m))" by (rule usage_body_shaped) (use assms(2) m in auto)
  have "list_all (\<lambda>c. one_line (dumps_compact repr c)) (butlast sent @ [last sent])"
    using r(4,5) by (auto simp: list_all_iff intro: good_chunk_one_line)
  then have one: "list_all one_line (generation_texts repr sent ?use)"
    using r(3) usage_one_line [OF r(6) m] by (simp add: generation_texts_def list_all_iff)
  let ?s = "new_stream 200"
  have s: "reading ?s" by (simp add: reading_def new_stream_def)
  obtain s1 where e1: "fold (take_event loads alias) (map (dumps_compact repr) sent) ?s = s1"
    and t: "rs_content s1 = concat (map engine_text evs)" "rs_reasoning s1 = concat (map engine_reasoning evs)"
    and f: "rs_finish s1 \<noteq> None" "reading (s1\<lparr>rs_finish := None\<rparr>)"
    by (rule take_good_events [OF s r(3-5), of loads repr]) (use assms(6,9) r(1,2) in \<open>auto simp: new_stream_def\<close>)
  let ?s2 = "s1\<lparr>rs_chunks := rs_chunks s1 + 1, rs_usage := Some (usage_body u m)\<rparr>"
  have "fold (take_event loads alias) (generation_texts repr sent ?use) ?s = take_event loads alias ''[DONE]'' ?s2"
    using take_usage_chunk [OF f(2,1) r(6) shaped, of loads repr] assms(6) by (simp add: generation_texts_def e1)
  also have "\<dots> = ?s2\<lparr>rs_done := True\<rparr>" using f(2) by (simp add: take_event_def reading_def)
  finally have w: "read_whole loads alias (concat pieces) Body_ends (?s, []) = ?s2\<lparr>rs_done := True\<rparr>"
    using f unfolding assms(7) read_events [OF one] by (auto simp: end_stream_checks_def Let_def)
  have "read_stream loads alias \<lparr>sr_status = 200, sr_type = ''text/event-stream'', sr_pieces = pieces, sr_end = Body_ends\<rparr> =
      Some (?s2\<lparr>rs_done := True\<rparr>)"
    using take_pieces_whole [of "[]" 0 pieces loads "alias" Body_ends "(?s, [])"] assms(8) w by (simp add: read_stream_def)
  then show ?thesis using t f by (auto simp: passes_whole_def reading_def)
qed

definition finding :: "(rat \<Rightarrow> string) \<Rightarrow> json list \<Rightarrow> loads" where
  "finding repr cs t = find (\<lambda>c. dumps_compact repr c = t) cs"

definition sample_ended :: "json list \<times> translator \<times> usage" where
  "sample_ended =
    (case relay (new_translator ''m'' ''t'' 0) sample_events (Inr ()) of (_, sent, Inr (tr, u)) \<Rightarrow> (sent, tr, u) | _ \<Rightarrow> undefined)"

definition sample_measured :: obj where
  "sample_measured = measure_times 0 (Some 1) None 2"

definition sample_sent :: "json list" where
  "sample_sent = (case sample_ended of (sent, tr, u) \<Rightarrow> sent @ [usage_chunk tr u sample_measured])"

lemma sample_found:
  "list_all (\<lambda>c. finding (\<lambda>_. []) sample_sent (dumps_compact (\<lambda>_. []) c) = Some c) sample_sent"
  by code_simp

lemma sample_small: "length (concat (map event_text (map (dumps_compact (\<lambda>_. [])) sample_sent @ [''[DONE]'']))) < 999"
  by code_simp

theorem smoke_accepts_relay_witness:
  "\<exists>pieces s. read_stream (finding (\<lambda>_. []) sample_sent) ''m''
      \<lparr>sr_status = 200, sr_type = ''text/event-stream'', sr_pieces = pieces, sr_end = Body_ends\<rparr> = Some s \<and>
    passes_whole s \<and> rs_content s = ''hello''"
proof -
  obtain sent tr u where r: "relay (new_translator ''m'' ''t'' 0) sample_events (Inr ()) = (True, sent, Inr (tr, u))" and u: "u_prompt u = 3"
    using sample_relay by (auto split: prod.splits sum.splits)
  then have s: "sample_sent = sent @ [usage_chunk tr u sample_measured]" by (simp add: sample_sent_def sample_ended_def)
  let ?all = "concat (map event_text (generation_texts (\<lambda>_. []) sent (usage_chunk tr u sample_measured)))"
  have t: "concat (map engine_text sample_events) = ''hello''" "concat (map engine_reasoning sample_events) = []"
    by (simp_all add: sample_events_def sample_event_def engine_text_def engine_reasoning_def only_choice_def jget_def text_field_def
        delta_fields_def reasoning_text_def REASONING_FIELDS_def jhas_def)
  have l: "text_length (concat (map engine_text sample_events)) + text_length (concat (map engine_reasoning sample_events)) \<le> TEXT_CHARS"
    unfolding t by (simp add: TEXT_CHARS_def text_length_def)
  have n: "length (concat [?all]) \<le> STREAM_BYTES"
    using sample_small by (simp add: generation_texts_def s STREAM_BYTES_def)
  have f: "\<forall>c \<in> set (sent @ [usage_chunk tr u sample_measured]).
      finding (\<lambda>_. []) sample_sent (dumps_compact (\<lambda>_. []) c) = Some c"
    using sample_found s by (simp add: list_all_iff)
  have "\<exists>s. read_stream (finding (\<lambda>_. []) sample_sent) ''m''
      \<lparr>sr_status = 200, sr_type = ''text/event-stream'', sr_pieces = [?all], sr_end = Body_ends\<rparr> = Some s \<and>
      passes_whole s \<and> rs_content s = concat (map engine_text sample_events) \<and> rs_reasoning s = concat (map engine_reasoning sample_events) \<and>
      rs_finish s \<noteq> None \<and> rs_usage s = Some (usage_body u sample_measured)"
    by (rule smoke_accepts_relay [OF r _ sample_measured_def _ _ f _ n l]) (use u in simp_all)
  then show ?thesis using t by auto
qed

end
