(* ===== verification/Spec2Isabelle.thy ===== *)
theory Spec2Isabelle
  imports Text_Drain Config_Loading Vast_Client Control_Routes Card_Consistency Card_Inspection
    Picture_Routes Picture_Card Owner_Command
    Level_Sweep Smoke_Stream
begin

text \<open>
  \<^verbatim>\<open>simple-serving\<close> puts a FastAPI gateway in front of vLLM, for texts, and another in front of ComfyUI, for
  pictures, each on a rented card at Vast. This library models its Python code under \<^verbatim>\<open>src/\<close> and proves what makes
  it correct. Names of files below are under \<^verbatim>\<open>simple_serving/\<close> unless they begin with \<^verbatim>\<open>card/\<close>.

  \<^bold>\<open>The parts and how they meet.\<close> A request comes through the last resort (\<^verbatim>\<open>app.Guard\<close>) to a route. The text
  route authorizes it (\<^verbatim>\<open>policy\<close>), checks its body (\<^verbatim>\<open>validation\<close>) and becomes a work of the service
  (\<^verbatim>\<open>service\<close>, \<^verbatim>\<open>inference\<close>), which takes a place for its count and one for its generation (\<^verbatim>\<open>admission\<close>), asks
  the engine (\<^verbatim>\<open>engine\<close>) and relays its stream (\<^verbatim>\<open>stream\<close>, \<^verbatim>\<open>asgi\<close>). The lifecycle of the service (boot, drain,
  open, sleep, idle interval) is shared by both lanes. The picture route checks a graph and its uploads
  (\<^verbatim>\<open>pictures/graphs\<close>, \<^verbatim>\<open>pictures/uploads\<close>) and becomes a job (\<^verbatim>\<open>pictures/jobs\<close>) that it submits to ComfyUI
  (\<^verbatim>\<open>pictures/comfy\<close>), follows and erases. On the card a launcher (\<^verbatim>\<open>card\<close>, \<^verbatim>\<open>pictures/card\<close>) reads a manifest,
  starts the engine and the gateway with a configuration it writes, keeps numbers of their output, and stops the
  instance at Vast (\<^verbatim>\<open>vast\<close>) when the pair ends. The owner's command (\<^verbatim>\<open>cli\<close>) starts and stops the card from
  outside, and the smoke, the sweep and the sweeper of images (\<^verbatim>\<open>smoke\<close>, \<^verbatim>\<open>sweep\<close>,
  \<^verbatim>\<open>card/pictures/image-sweeper.py\<close>) measure and clean it.

  \<^bold>\<open>How the code is translated.\<close> A dataclass is a record and an enumeration a datatype. An operation that may raise
  is a sum, \<open>Inl\<close> with the error, or an option where the exception is one that the code does not name. A coroutine
  is cut at its awaits: the piece between two of them is one operation on the state, and a step relation or a list
  of inputs says in which order the operations come. A loop is a structural recursion where it runs over data. A loop
  that waits for the world is a recursion over the history of actions: what the world answers is a function of all
  actions before, and it has a patience, a length of the history at which the owner's Ctrl+C or the end of the clock
  comes at the latest; the theorems hold for every patience, and \<open>start_in_time\<close> gives a bound that does not depend on
  it. The recursions of the launcher run over lists of events, whose length is their bound. Python's integers are
  \<open>int\<close>; a float is the rational that it stands for, and where its rounding decides a result \<open>Python_Floats\<close> rounds as
  IEEE doubles do. Texts are strings of bytes, in UTF-8, but for the components whose expressions of \<^verbatim>\<open>re\<close> are written
  out, which are for ASCII as their theories say. Code outside \<^verbatim>\<open>src/\<close> is an argument: httpx and what it meets, the
  grammar of \<^verbatim>\<open>json.loads\<close>, SHA-256 and HMAC, \<^verbatim>\<open>urlsplit\<close>, \<^verbatim>\<open>ast.parse\<close>, the digits of \<^verbatim>\<open>repr\<close> of a float, the
  processes, files and clocks of the system.

  \<^bold>\<open>Shared theories.\<close> \<open>Serving_Prelude\<close> has the sequencing of operations that fail and the collections of facts;
  \<open>Json_Values\<close>, \<open>Python_Values\<close> and \<open>Python_Floats\<close> have the values of JSON, the texts and numbers of Python and
  readers of texts.

  \<^bold>\<open>The text lane.\<close>
  \<open>Error_Codes\<close> (\<^verbatim>\<open>errors.py\<close>), \<open>Gateway_Config\<close> and \<open>Config_Loading\<close> (\<^verbatim>\<open>config.py\<close>): the codes, the configuration as
  records, and its loading, shown to give a configuration on whose conditions the service relies (\<open>load_sound\<close>).
  \<open>Policy\<close> (\<^verbatim>\<open>policy.py\<close>): keys, classes, scopes, and the isolation of cache salts.
  \<open>Validation\<close> (\<^verbatim>\<open>validation.py\<close>): the bounded parser's hooks, its worklist against the recursive depth, and the checks of
  a body, with what an accepted body can forward.
  \<open>Place_Desk\<close>, \<open>Admission\<close>, \<open>Count_Places\<close>, \<open>Place_Owners\<close> (\<^verbatim>\<open>admission.py\<close>): tickets and lines, the locale \<open>place_desk\<close>
  with its laws, interpreted on both users of the desk; the counters, the caps and the order in which a place is handed
  over, against the specification \<open>hand_over\<close>.
  \<open>Lifecycle\<close> (\<^verbatim>\<open>service.py\<close>, class \<^verbatim>\<open>Lifecycle\<close>): the record that both lanes extend, and the locale \<open>lane_work\<close> of what a
  lane's work has to keep.
  \<open>Text_Service\<close>, \<open>Text_Steps\<close>, \<open>Text_Properties\<close>, \<open>Text_Drain\<close> (\<^verbatim>\<open>service.py\<close>, \<^verbatim>\<open>inference.py\<close>, \<^verbatim>\<open>routes.py\<close>): a request
  from its arrival to its release as a step relation, its invariants by rule induction, and what follows for the caps at
  the engine, for places, the drain and the sleep.
  \<open>Engine_Client\<close> (\<^verbatim>\<open>engine.py\<close>), \<open>Relay_Stream\<close> (\<^verbatim>\<open>stream.py\<close>), \<open>Asgi_Exchange\<close> (\<^verbatim>\<open>asgi.py\<close>): what is asked of vLLM and read
  of its answers, lines and events; the translator of a stream and the relay; the exchange with the client.
  \<open>Control_Routes\<close> (\<^verbatim>\<open>routes.py\<close>, \<^verbatim>\<open>service.py\<close>, \<^verbatim>\<open>app.py\<close>): the other routes and the guard.
  \<open>Request_Metrics\<close> (\<^verbatim>\<open>log.py\<close>, \<^verbatim>\<open>metrics.py\<close>): the rows, the histograms and the exposition.

  \<^bold>\<open>The card.\<close>
  \<open>Card_Manifest\<close>, \<open>Card_Launcher\<close>, \<open>Card_Inspection\<close>, \<open>Engine_Output\<close> (\<^verbatim>\<open>card.py\<close>), \<open>Preflight\<close> (\<^verbatim>\<open>preflight.py\<close>) and
  \<open>Vast_Client\<close> (\<^verbatim>\<open>vast.py\<close>): the manifest and the two commands, the run of the pair, the report, what is kept of vLLM's
  output, the sizes of the machine and the stop. \<open>Card_Consistency\<close> composes the launcher with the configuration's
  loading: the gateway and the engine agree.
  \<open>Picture_Card\<close> (\<^verbatim>\<open>pictures/card.py\<close>) does so for the pictures, with the rows of \<open>Image_Sweeper\<close>
  (\<^verbatim>\<open>card/pictures/image-sweeper.py\<close>), whose walk deletes exactly what is due.

  \<^bold>\<open>The picture lane.\<close>
  \<open>Picture_Config\<close>, \<open>Picture_Graphs\<close>, \<open>Picture_Uploads\<close>, \<open>Picture_Engine\<close>, \<open>Picture_Jobs\<close>, \<open>Picture_Service\<close> and
  \<open>Picture_Routes\<close> model the files of those names under \<^verbatim>\<open>pictures/\<close>. A job's coroutine is a sequence of rounds, and
  its properties say what its client is told, when its record goes, what of a cap it holds, and what no other key reaches.

  \<^bold>\<open>The owner's side.\<close>
  \<open>Owner_Command\<close> (\<^verbatim>\<open>cli.py\<close>): \<^verbatim>\<open>up\<close>, \<^verbatim>\<open>sleep\<close>, \<^verbatim>\<open>status\<close> and \<^verbatim>\<open>trial\<close> as histories of actions, with what they write to Vast
  and how long they wait. \<open>Level_Sweep\<close> (\<^verbatim>\<open>sweep.py\<close>): the levels, the engine's metrics, the run and the printed lines.
  \<open>Bot_Schemas\<close> (\<^verbatim>\<open>bot_schemas.py\<close>): the check of an answer against a schema, exact with respect to what each part breaks.
  \<open>Smoke_Stream\<close> (\<^verbatim>\<open>smoke.py\<close>): how the smoke reads answers and streams; composed with the relay, it accepts what the gateway
  sends (\<open>smoke_accepts_relay\<close>).

  \<^bold>\<open>Not modelled.\<close>
  The assembly of the applications and processes holds no decisions of its own: \<^verbatim>\<open>server.py\<close>, \<^verbatim>\<open>pictures/server.py\<close> and most of
  \<^verbatim>\<open>app.py\<close> and \<^verbatim>\<open>pictures/app.py\<close> start uvicorn, bind sockets and register routes; \<^verbatim>\<open>__main__.py\<close> and \<^verbatim>\<open>__init__.py\<close> call
  \<^verbatim>\<open>main\<close>. The stand-ins for tests and demonstrations are \<^verbatim>\<open>dev.py\<close>, \<^verbatim>\<open>pictures/dev.py\<close>, \<^verbatim>\<open>fake_engine.py\<close>,
  \<^verbatim>\<open>pictures/fake_comfy.py\<close> and \<^verbatim>\<open>interference/fake.py\<close>. The other measurements from outside are experiments that serve no
  request: the probes of \<^verbatim>\<open>smoke.py\<close>, \<^verbatim>\<open>pictures/smoke.py\<close>, \<^verbatim>\<open>min_p_proof.py\<close> and the rest of \<^verbatim>\<open>interference/\<close>. In modelled components the parsing of
  options, log rows where the theory says so, and the tasks that only watch are left out. Uncaught signals, the memory of
  a process and the scheduling of threads by the system have no counterpart in the model.
\<close>

end
